(* ===== verification/Prelude.thy ===== *)
theory Prelude
  imports Complex_Main "HOL-Library.Word" "HOL-Library.AList" "HOL-Library.Multiset"
    "HOL-Library.Product_Lexorder" "HOL-Library.Log_Nat"
begin

text \<open>
  Shared vocabulary of the development: the C++ integer types, the standard containers the
  program uses, and \<open>std::sort\<close>.

  \<^item> \<open>uint8_t\<close>, \<open>uint32_t\<close>, \<open>uint64_t\<close> and \<open>std::uintptr_t\<close> are words of their width.
  \<^item> \<open>int\<close> and \<open>int32_t\<close> are HOL integers; \<open>wrap_i32\<close> is the two's complement reading that a
    result outside the range gets (the C++ standard leaves signed overflow undefined), and
    \<open>in_i32\<close> says that a result is in range.
  \<^item> \<open>std::unordered_map\<close> is an association list with distinct keys. The list order stands for
    the bucket order, which the standard does not fix, so a theorem about any list is a theorem
    about any iteration order.
  \<^item> \<open>std::sort\<close> with a comparator is insertion by that comparator; a comparator that compares
    a key gives the library's \<open>sort_key\<close> (locale \<open>key_order\<close>).
\<close>

text \<open>Lookups stay lookups: this simplification rule of the library turns them into membership.\<close>

declare map_of_eq_Some_iff [simp del]

named_theorems umap_simps \<open>lookups after an update of an unordered map\<close>

type_synonym u8 = "8 word"
type_synonym u32 = "32 word"
type_synonym u64 = "64 word"

section \<open>Signed 32-bit integers\<close>

definition in_i32 :: "int \<Rightarrow> bool" where
  "in_i32 x \<longleftrightarrow> - (2 ^ 31) \<le> x \<and> x < 2 ^ 31"

definition wrap_i32 :: "int \<Rightarrow> int" where
  "wrap_i32 x = (x + 2 ^ 31) mod 2 ^ 32 - 2 ^ 31"

lemma wrap_i32_id [simp]: "in_i32 x \<Longrightarrow> wrap_i32 x = x"
  by (simp add: in_i32_def wrap_i32_def)

lemma in_i32_wrap [simp]: "in_i32 (wrap_i32 x)"
proof -
  have "0 \<le> (x + 2 ^ 31) mod 2 ^ 32" and "(x + 2 ^ 31) mod 2 ^ 32 < 2 ^ 32"
    by simp_all
  then show ?thesis by (simp add: in_i32_def wrap_i32_def)
qed

lemma wrap_i32_add: "wrap_i32 (wrap_i32 x + y) = wrap_i32 (x + y)"
proof -
  have "((x + 2 ^ 31) mod 2 ^ 32 - 2 ^ 31 + y + 2 ^ 31) mod 2 ^ 32 = (x + y + 2 ^ 31) mod 2 ^ 32"
    using mod_add_left_eq [of "x + 2 ^ 31" "2 ^ 32" y] by (simp add: algebra_simps)
  then show ?thesis by (simp add: wrap_i32_def)
qed

lemma wrap_i32_above: "2 ^ 31 \<le> x \<Longrightarrow> x < 2 ^ 32 \<Longrightarrow> wrap_i32 x = x - 2 ^ 32"
proof -
  assume x: "2 ^ 31 \<le> x" "x < 2 ^ 32"
  have "(x + 2 ^ 31) mod 2 ^ 32 = (x - 2 ^ 31) mod 2 ^ 32"
    using mod_add_self2 [of "x - 2 ^ 31" "2 ^ 32"] by (simp add: algebra_simps)
  also have "\<dots> = x - 2 ^ 31" using x by (intro mod_pos_pos_trivial) auto
  finally show ?thesis by (simp add: wrap_i32_def)
qed

text \<open>\<open>std::clamp\<close> and C++ integer division and remainder, which truncate toward zero.\<close>

definition clamp_int :: "int \<Rightarrow> int \<Rightarrow> int \<Rightarrow> int" where
  "clamp_int v lo hi = (if v < lo then lo else if hi < v then hi else v)"

lemma clamp_int_bounds: "lo \<le> hi \<Longrightarrow> lo \<le> clamp_int v lo hi \<and> clamp_int v lo hi \<le> hi"
  by (simp add: clamp_int_def)

lemma clamp_int_id: "lo \<le> v \<Longrightarrow> v \<le> hi \<Longrightarrow> clamp_int v lo hi = v"
  by (simp add: clamp_int_def)

definition c_div :: "int \<Rightarrow> int \<Rightarrow> int" where
  "c_div a b = sgn a * sgn b * (\<bar>a\<bar> div \<bar>b\<bar>)"

definition c_mod :: "int \<Rightarrow> int \<Rightarrow> int" where
  "c_mod a b = a - c_div a b * b"

lemma c_div_nonneg [simp]: "0 \<le> a \<Longrightarrow> 0 < b \<Longrightarrow> c_div a b = a div b"
  by (cases "a = 0") (simp_all add: c_div_def)

lemma c_mod_nonneg [simp]: "0 \<le> a \<Longrightarrow> 0 < b \<Longrightarrow> c_mod a b = a mod b"
  by (simp add: c_mod_def minus_div_mult_eq_mod)

lemma c_div_neg: "a < 0 \<Longrightarrow> 0 < b \<Longrightarrow> c_div a b = - ((- a) div b)"
  by (simp add: c_div_def)

section \<open>Unordered maps\<close>

type_synonym ('k, 'v) umap = "('k \<times> 'v) list"

abbreviation umap_find :: "('k, 'v) umap \<Rightarrow> 'k \<Rightarrow> 'v option" where
  "umap_find \<equiv> map_of"

abbreviation umap_put :: "'k \<Rightarrow> 'v \<Rightarrow> ('k, 'v) umap \<Rightarrow> ('k, 'v) umap" where
  "umap_put \<equiv> AList.update"

abbreviation umap_erase :: "'k \<Rightarrow> ('k, 'v) umap \<Rightarrow> ('k, 'v) umap" where
  "umap_erase \<equiv> AList.delete"

abbreviation umap_keys :: "('k, 'v) umap \<Rightarrow> 'k list" where
  "umap_keys m \<equiv> map fst m"

abbreviation umap_ok :: "('k, 'v) umap \<Rightarrow> bool" where
  "umap_ok m \<equiv> distinct (map fst m)"

text \<open>\<open>for (auto& [k, v] : m)\<close> with an assignment to \<open>v\<close> in the body.\<close>

definition umap_update_all :: "('k \<Rightarrow> 'v \<Rightarrow> 'w) \<Rightarrow> ('k, 'v) umap \<Rightarrow> ('k, 'w) umap" where
  "umap_update_all f m = map (\<lambda>(k, v). (k, f k v)) m"

lemma find_put [umap_simps]: "umap_find (umap_put k v m) k' = (if k' = k then Some v else umap_find m k')"
  by (simp add: update_conv')

lemma find_erase [umap_simps]: "umap_find (umap_erase k m) k' = (if k' = k then None else umap_find m k')"
  by (simp add: delete_conv')

lemma find_update_all [umap_simps]:
  "umap_find (umap_update_all f m) k = map_option (f k) (umap_find m k)"
  by (induction m) (auto simp: umap_update_all_def)

lemma keys_update_all [simp]: "map fst (umap_update_all f m) = map fst m"
  by (induction m) (auto simp: umap_update_all_def)

lemma ok_put [intro, simp]: "umap_ok m \<Longrightarrow> umap_ok (umap_put k v m)"
  by (rule distinct_update)

lemma ok_erase [intro, simp]: "umap_ok m \<Longrightarrow> umap_ok (umap_erase k m)"
  by (rule distinct_delete)

lemma length_update_all [simp]: "length (umap_update_all f m) = length m"
  by (simp add: umap_update_all_def)

lemma keys_put: "set (map fst (umap_put k v m)) = insert k (set (map fst m))"
  using dom_update [of k v m] by (simp add: dom_map_of_conv_image_fst image_image)

lemma keys_erase: "set (map fst (umap_erase k m)) = set (map fst m) - {k}"
  by (simp add: delete_keys)

lemma find_in_set: "umap_find m k = Some v \<Longrightarrow> (k, v) \<in> set m"
  by (rule map_of_SomeD)

lemma in_set_find: "umap_ok m \<Longrightarrow> (k, v) \<in> set m \<longleftrightarrow> umap_find m k = Some v"
  by (auto intro: map_of_is_SomeI dest: map_of_SomeD)

lemma all_values_iff:
  assumes "umap_ok m"
  shows "(\<forall>x \<in> set m. P (snd x)) \<longleftrightarrow> (\<forall>p v. umap_find m p = Some v \<longrightarrow> P v)"
proof -
  have "(\<forall>x \<in> set m. P (snd x)) \<longleftrightarrow> (\<forall>p v. (p, v) \<in> set m \<longrightarrow> P v)" by force
  then show ?thesis by (simp only: in_set_find [OF assms])
qed

lemma in_set_put:
  "umap_ok m \<Longrightarrow> (k', v') \<in> set (umap_put k v m) \<longleftrightarrow> (if k' = k then v' = v else (k', v') \<in> set m)"
  by (metis in_set_find ok_put find_put option.inject)

lemma in_set_erase:
  "umap_ok m \<Longrightarrow> (k', v') \<in> set (umap_erase k m) \<longleftrightarrow> k' \<noteq> k \<and> (k', v') \<in> set m"
  by (metis in_set_find ok_erase find_erase option.distinct(1))

lemma length_erase: "umap_ok m \<Longrightarrow> k \<in> set (map fst m) \<Longrightarrow> Suc (length (umap_erase k m)) = length m"
proof (induction m)
  case (Cons a m)
  obtain k' v where a: "a = (k', v)" by (cases a)
  show ?case
  proof (cases "k' = k")
    case True
    with Cons.prems a have "k \<notin> fst ` set m" by simp
    then have "umap_erase k m = m" by (rule delete_id)
    with True a show ?thesis by simp
  next
    case False
    with Cons a show ?thesis by auto
  qed
qed simp

lemma length_put: "length (umap_put k v m) = (if k \<in> set (map fst m) then length m else Suc (length m))"
  by (induction m) auto

lemma umap_ok_mset: "mset m = mset m' \<Longrightarrow> umap_ok m \<longleftrightarrow> umap_ok m'"
  by (rule mset_eq_imp_distinct_iff) simp

text \<open>Two unordered maps with the same content differ only in the order of the list.\<close>

lemma mset_eq_iff_find:
  assumes "umap_ok m" and "umap_ok m'"
  shows "mset m = mset m' \<longleftrightarrow> umap_find m = umap_find m'"
proof
  assume "mset m = mset m'"
  then have "set m = set m'" by (rule mset_eq_setD)
  with assms show "umap_find m = umap_find m'"
    by (intro map_of_inject_set [THEN iffD2]) auto
next
  assume "umap_find m = umap_find m'"
  with assms have "set m = set m'" by (simp add: map_of_inject_set)
  moreover from assms have "distinct m" and "distinct m'"
    by (auto simp: distinct_map)
  ultimately show "mset m = mset m'" by (simp add: set_eq_iff_mset_eq_distinct)
qed

text \<open>The sum of a quantity over the values of a map.\<close>

definition umap_sum :: "('v \<Rightarrow> 'm::comm_monoid_add) \<Rightarrow> ('k, 'v) umap \<Rightarrow> 'm" where
  "umap_sum g m = sum_list (map (\<lambda>(k, v). g v) m)"

lemma umap_sum_Nil [simp]: "umap_sum g [] = 0"
  by (simp add: umap_sum_def)

lemma umap_sum_Cons [simp]: "umap_sum g ((k, v) # m) = g v + umap_sum g m"
  by (simp add: umap_sum_def)

lemma umap_sum_put:
  "umap_ok m \<Longrightarrow> umap_sum g (umap_put k v m) + (case umap_find m k of None \<Rightarrow> 0 | Some w \<Rightarrow> g w)
     = umap_sum g m + g v"
  by (induction m) (auto simp: ac_simps)

lemma umap_sum_put_same:
  fixes g :: "'v \<Rightarrow> 'm::cancel_comm_monoid_add"
  assumes "umap_ok m" and "(case umap_find m k of None \<Rightarrow> 0 | Some w \<Rightarrow> g w) = g v"
  shows "umap_sum g (umap_put k v m) = umap_sum g m"
  using umap_sum_put [OF assms(1), of g k v] by (simp add: assms(2))

lemma umap_sum_erase:
  "umap_ok m \<Longrightarrow> umap_find m k = Some v \<Longrightarrow> umap_sum g (umap_erase k m) + g v = umap_sum g m"
proof (induction m)
  case (Cons a m)
  obtain k' v' where a: "a = (k', v')" by (cases a)
  show ?case
  proof (cases "k' = k")
    case True
    with Cons.prems a have "k \<notin> fst ` set m" by simp
    then have "umap_erase k m = m" by (rule delete_id)
    with True a Cons.prems show ?thesis by (simp add: ac_simps)
  next
    case False
    with Cons a have "umap_sum g (umap_erase k m) + g v = umap_sum g m" by simp
    then have "g v' + umap_sum g (umap_erase k m) + g v = g v' + umap_sum g m"
      by (simp only: add.assoc)
    with False a show ?thesis by simp
  qed
qed simp

section \<open>Sorting\<close>

lemma sort_canonical: "mset xs = mset ys \<Longrightarrow> sort xs = sort ys"
  by (simp flip: sorted_list_of_multiset_mset)

fun insert_by :: "('a \<Rightarrow> 'a \<Rightarrow> bool) \<Rightarrow> 'a \<Rightarrow> 'a list \<Rightarrow> 'a list" where
  "insert_by lt x [] = [x]"
| "insert_by lt x (y # ys) = (if lt y x then y # insert_by lt x ys else x # y # ys)"

definition std_sort :: "('a \<Rightarrow> 'a \<Rightarrow> bool) \<Rightarrow> 'a list \<Rightarrow> 'a list" where
  "std_sort lt xs = foldr (insert_by lt) xs []"

lemma mset_insert_by: "mset (insert_by lt x xs) = add_mset x (mset xs)"
  by (induction xs) auto

lemma mset_std_sort [simp]: "mset (std_sort lt xs) = mset xs"
  by (induction xs) (simp_all add: std_sort_def mset_insert_by)

lemma set_std_sort [simp]: "set (std_sort lt xs) = set xs"
  by (metis mset_std_sort set_mset_mset)

lemma length_std_sort [simp]: "length (std_sort lt xs) = length xs"
  by (metis mset_std_sort size_mset)

lemma distinct_std_sort [simp]: "distinct (std_sort lt xs) = distinct xs"
  by (metis mset_std_sort mset_eq_imp_distinct_iff)

text \<open>
  What \<open>std::sort\<close> asks of its comparator: to compare a key that is linearly ordered. Then the
  result is sorted by the key, and it depends only on the elements when the key tells them apart.
\<close>

locale key_order =
  fixes lt :: "'a \<Rightarrow> 'a \<Rightarrow> bool"
    and key :: "'a \<Rightarrow> 'k::linorder"
  assumes less_iff: "lt x y \<longleftrightarrow> key x < key y"
begin

lemma insert_by_eq: "insert_by lt x xs = insort_key key x xs"
  by (induction xs) (auto simp: less_iff not_le)

lemma std_sort_eq: "std_sort lt xs = sort_key key xs"
  by (induction xs) (simp_all add: std_sort_def insert_by_eq)

lemma sorted_std_sort: "sorted (map key (std_sort lt xs))"
  by (simp add: std_sort_eq)

lemma std_sort_canonical:
  "mset xs = mset ys \<Longrightarrow> inj_on key (set xs) \<Longrightarrow> std_sort lt xs = std_sort lt ys"
  by (simp add: std_sort_eq sort_key_inj_key_eq)

lemma strict_sorted:
  assumes "distinct xs" and "inj_on key (set xs)"
  shows "sorted_wrt lt (std_sort lt xs)"
proof -
  have "distinct (map key (std_sort lt xs))"
    using assms by (simp add: distinct_map)
  then have "sorted_wrt (<) (map key (std_sort lt xs))"
    using sorted_std_sort by (simp add: strict_sorted_iff)
  then show ?thesis
    by (simp add: sorted_wrt_map less_iff [abs_def])
qed

lemma less_asym: "lt x y \<Longrightarrow> \<not> lt y x"
  by (simp add: less_iff)

lemma less_trans: "lt x y \<Longrightarrow> lt y z \<Longrightarrow> lt x z"
  by (simp add: less_iff)

end

section \<open>Components as machines\<close>

text \<open>
  A component is driven by calls of its public operations in any order. An invariant that the
  constructor establishes and every operation keeps holds after every sequence of calls.
\<close>

locale component =
  fixes start :: "'s \<Rightarrow> bool"
    and exec :: "'o \<Rightarrow> 's \<Rightarrow> 's"
    and legal :: "'o \<Rightarrow> bool"
    and invar :: "'s \<Rightarrow> bool"
  assumes start_invar: "start s \<Longrightarrow> invar s"
    and exec_invar: "invar s \<Longrightarrow> legal opn \<Longrightarrow> invar (exec opn s)"
begin

lemma run_from: "invar s \<Longrightarrow> \<forall>opn \<in> set ops. legal opn \<Longrightarrow> invar (fold exec ops s)"
  by (induction ops arbitrary: s) (auto intro: exec_invar)

lemma run: "start s \<Longrightarrow> \<forall>opn \<in> set ops. legal opn \<Longrightarrow> invar (fold exec ops s)"
  by (rule run_from [OF start_invar])

end

section \<open>Folds and lists\<close>

lemma fold_preserves: "P s \<Longrightarrow> (\<And>x s. x \<in> set xs \<Longrightarrow> P s \<Longrightarrow> P (f x s)) \<Longrightarrow> P (fold f xs s)"
  by (induction xs arbitrary: s) auto

lemma fold_unchanged: "(\<And>x s. x \<in> set xs \<Longrightarrow> g (f x s) = g s) \<Longrightarrow> g (fold f xs s) = g s"
  by (induction xs arbitrary: s) auto

text \<open>Both sides of a nested lexicographic comparison, as the comparators of the code write it.\<close>

lemma lex_less_2: "(if a \<noteq> c then a < c else b < d) \<longleftrightarrow> (a, b) < (c, d)"
  for a c :: "'a::linorder" and b d :: "'b::linorder"
  by (auto simp: less_prod_def)

lemma lex_less_3:
  "(if a \<noteq> c then a < c else if b \<noteq> d then b < d else e < f) \<longleftrightarrow> (a, b, e) < (c, d, f)"
  for a c :: "'a::linorder" and b d :: "'b::linorder" and e f :: "'c::linorder"
  by (auto simp: less_prod_def)

lemma lex_less_4:
  "(if a \<noteq> c then a < c else if b \<noteq> d then b < d else if e \<noteq> f then e < f else g < h)
     \<longleftrightarrow> (a, b, e, g) < (c, d, f, h)"
  for a c :: "'a::linorder" and b d :: "'b::linorder" and e f :: "'c::linorder"
    and g h :: "'d::linorder"
  by (auto simp: less_prod_def)

end
