(* ===== verification/Floating.thy ===== *)
theory Floating
  imports Prelude
begin

text \<open>
  IEEE 754 arithmetic as the program uses it: \<open>float\<close> (binary32), \<open>double\<close> (binary64) and the
  x87 \<open>long double\<close>, rounding to nearest with ties to even, no contraction of multiply and add.
  A finite value is the rational number it denotes, so the two zeros are one value (the modelled
  code never divides by a zero and never reads a sign bit). Every operation is the exact one
  followed by \<open>fp_round\<close>; \<open>fp_sqrt\<close> is correctly rounded, as the standard asks of \<open>std::sqrt\<close>.
  All of it computes.

  Where C++ leaves a conversion to an integer undefined (NaN, an infinity, out of range) the model
  takes the value the x86-64 conversion instructions deliver.
\<close>

datatype fmt = Single | Double | Extended

primrec prec :: "fmt \<Rightarrow> int" where
  "prec Single = 24" | "prec Double = 53" | "prec Extended = 64"

primrec emin :: "fmt \<Rightarrow> int" where
  "emin Single = -126" | "emin Double = -1022" | "emin Extended = -16382"

primrec emax :: "fmt \<Rightarrow> int" where
  "emax Single = 127" | "emax Double = 1023" | "emax Extended = 16383"

datatype fp = Nan | Pos_Inf | Neg_Inf | Fin rat

section \<open>Rounding\<close>

text \<open>The exponent of the binade of a positive rational.\<close>

definition ilog2 :: "rat \<Rightarrow> int" where
  "ilog2 q = (case quotient_of q of (n, d) \<Rightarrow>
     (let k = bitlen n - bitlen d in if 2 powi k \<le> q then k else k - 1))"

definition rne :: "rat \<Rightarrow> int" where
  "rne q = (let f = \<lfloor>q\<rfloor>; r = q - of_int f in
     if r < 1 / 2 then f else if 1 / 2 < r then f + 1 else if even f then f else f + 1)"

text \<open>The distance between two neighbours of the format around a value.\<close>

definition binade :: "fmt \<Rightarrow> rat \<Rightarrow> int" where
  "binade f q = max (ilog2 \<bar>q\<bar>) (emin f)"

definition quantum :: "fmt \<Rightarrow> rat \<Rightarrow> rat" where
  "quantum f q = 2 powi (binade f q - prec f + 1)"

definition rnd :: "fmt \<Rightarrow> rat \<Rightarrow> rat" where
  "rnd f q = (if q = 0 then 0
     else if 0 < q then of_int (rne (q / quantum f q)) * quantum f q
     else - (of_int (rne (- q / quantum f q)) * quantum f q))"

definition fp_round :: "fmt \<Rightarrow> rat \<Rightarrow> fp" where
  "fp_round f q = (let r = rnd f q; top = 2 powi (emax f + 1) in
     if top \<le> r then Pos_Inf else if r \<le> - top then Neg_Inf else Fin r)"

section \<open>Operations\<close>

fun fp_is_finite :: "fp \<Rightarrow> bool" where
  "fp_is_finite (Fin _) = True"
| "fp_is_finite _ = False"

fun fp_neg :: "fp \<Rightarrow> fp" where
  "fp_neg (Fin a) = Fin (- a)"
| "fp_neg Pos_Inf = Neg_Inf"
| "fp_neg Neg_Inf = Pos_Inf"
| "fp_neg Nan = Nan"

fun fp_add :: "fmt \<Rightarrow> fp \<Rightarrow> fp \<Rightarrow> fp" where
  "fp_add f (Fin a) (Fin b) = fp_round f (a + b)"
| "fp_add f Nan _ = Nan"
| "fp_add f _ Nan = Nan"
| "fp_add f Pos_Inf Neg_Inf = Nan"
| "fp_add f Neg_Inf Pos_Inf = Nan"
| "fp_add f Pos_Inf _ = Pos_Inf"
| "fp_add f _ Pos_Inf = Pos_Inf"
| "fp_add f Neg_Inf _ = Neg_Inf"
| "fp_add f _ Neg_Inf = Neg_Inf"

definition fp_sub :: "fmt \<Rightarrow> fp \<Rightarrow> fp \<Rightarrow> fp" where
  "fp_sub f a b = fp_add f a (fp_neg b)"

definition inf_of_sign :: "rat \<Rightarrow> fp" where
  "inf_of_sign s = (if s = 0 then Nan else if 0 < s then Pos_Inf else Neg_Inf)"

fun fp_mul :: "fmt \<Rightarrow> fp \<Rightarrow> fp \<Rightarrow> fp" where
  "fp_mul f (Fin a) (Fin b) = fp_round f (a * b)"
| "fp_mul f Nan _ = Nan"
| "fp_mul f _ Nan = Nan"
| "fp_mul f Pos_Inf Pos_Inf = Pos_Inf"
| "fp_mul f Neg_Inf Neg_Inf = Pos_Inf"
| "fp_mul f Pos_Inf Neg_Inf = Neg_Inf"
| "fp_mul f Neg_Inf Pos_Inf = Neg_Inf"
| "fp_mul f Pos_Inf (Fin b) = inf_of_sign b"
| "fp_mul f (Fin a) Pos_Inf = inf_of_sign a"
| "fp_mul f Neg_Inf (Fin b) = inf_of_sign (- b)"
| "fp_mul f (Fin a) Neg_Inf = inf_of_sign (- a)"

fun fp_div :: "fmt \<Rightarrow> fp \<Rightarrow> fp \<Rightarrow> fp" where
  "fp_div f (Fin a) (Fin b) = (if b = 0 then inf_of_sign a else fp_round f (a / b))"
| "fp_div f Nan _ = Nan"
| "fp_div f _ Nan = Nan"
| "fp_div f (Fin a) _ = Fin 0"
| "fp_div f Pos_Inf (Fin b) = (if b < 0 then Neg_Inf else Pos_Inf)"
| "fp_div f Neg_Inf (Fin b) = (if b < 0 then Pos_Inf else Neg_Inf)"
| "fp_div f _ _ = Nan"

fun fp_lt :: "fp \<Rightarrow> fp \<Rightarrow> bool" where
  "fp_lt (Fin a) (Fin b) = (a < b)"
| "fp_lt Nan _ = False"
| "fp_lt _ Nan = False"
| "fp_lt Neg_Inf b = (b \<noteq> Neg_Inf)"
| "fp_lt _ Neg_Inf = False"
| "fp_lt a Pos_Inf = (a \<noteq> Pos_Inf)"
| "fp_lt Pos_Inf _ = False"

definition fp_le :: "fp \<Rightarrow> fp \<Rightarrow> bool" where
  "fp_le a b \<longleftrightarrow> fp_lt a b \<or> a = b \<and> a \<noteq> Nan"

fun fp_abs :: "fp \<Rightarrow> fp" where
  "fp_abs (Fin a) = Fin \<bar>a\<bar>"
| "fp_abs Nan = Nan"
| "fp_abs _ = Pos_Inf"

text \<open>\<open>std::min\<close>, \<open>std::max\<close> and \<open>std::clamp\<close> are comparisons with \<open><\<close>, which NaN fails.\<close>

definition fp_min :: "fp \<Rightarrow> fp \<Rightarrow> fp" where
  "fp_min a b = (if fp_lt b a then b else a)"

definition fp_max :: "fp \<Rightarrow> fp \<Rightarrow> fp" where
  "fp_max a b = (if fp_lt a b then b else a)"

definition fp_clamp :: "fp \<Rightarrow> fp \<Rightarrow> fp \<Rightarrow> fp" where
  "fp_clamp v lo hi = (if fp_lt v lo then lo else if fp_lt hi v then hi else v)"

function isqrt :: "int \<Rightarrow> int" where
  "isqrt n = (if n \<le> 0 then 0
     else (let r = 2 * isqrt (n div 4) in if (r + 1) * (r + 1) \<le> n then r + 1 else r))"

  by pat_completeness auto
termination
  by (relation "measure nat") auto

declare isqrt.simps [simp del]

definition sqrt_quantum :: "fmt \<Rightarrow> rat \<Rightarrow> rat" where
  "sqrt_quantum f q = 2 powi (max (ilog2 q div 2) (emin f) - prec f + 1)"

definition sqrt_units :: "fmt \<Rightarrow> rat \<Rightarrow> int" where
  "sqrt_units f q = (let u = sqrt_quantum f q; s = q / (u * u);
       m = isqrt \<lfloor>s\<rfloor>; h = of_int m + 1 / 2
     in if s < h * h then m else if h * h < s then m + 1 else if even m then m else m + 1)"

fun fp_sqrt :: "fmt \<Rightarrow> fp \<Rightarrow> fp" where
  "fp_sqrt f (Fin q) = (if q < 0 then Nan else if q = 0 then Fin 0
     else Fin (of_int (sqrt_units f q) * sqrt_quantum f q))"
| "fp_sqrt f Pos_Inf = Pos_Inf"
| "fp_sqrt f _ = Nan"

text \<open>Conversions: between formats, from and to integers, \<open>std::floor\<close>, \<open>std::ceil\<close>.\<close>

fun fp_cast :: "fmt \<Rightarrow> fp \<Rightarrow> fp" where
  "fp_cast f (Fin a) = fp_round f a"
| "fp_cast f x = x"

definition fp_of_int :: "fmt \<Rightarrow> int \<Rightarrow> fp" where
  "fp_of_int f n = fp_round f (of_int n)"

definition fp_lit :: "fmt \<Rightarrow> rat \<Rightarrow> fp" where
  "fp_lit f q = fp_round f q"

definition trunc_rat :: "rat \<Rightarrow> int" where
  "trunc_rat q = (if 0 \<le> q then \<lfloor>q\<rfloor> else \<lceil>q\<rceil>)"

fun fp_to_i32 :: "fp \<Rightarrow> int" where
  "fp_to_i32 (Fin q) = (let t = trunc_rat q in if in_i32 t then t else - (2 ^ 31))"
| "fp_to_i32 _ = - (2 ^ 31)"

text \<open>A cast to \<open>uint64_t\<close> outside its range is undefined; the value is that of the x86-64 code that
  compilers emit. \<open>std::lround\<close> rounds halves away from zero.\<close>

fun fp_to_u64 :: "fp \<Rightarrow> u64" where
  "fp_to_u64 (Fin q) = (let t = trunc_rat q in if 0 \<le> t \<and> t < 2 ^ 64 then word_of_int t
     else if - (2 ^ 63) \<le> t \<and> t < 0 then word_of_int t else if t < 0 then 2 ^ 63 else 0)"
| "fp_to_u64 _ = 2 ^ 63"

fun fp_lround :: "fp \<Rightarrow> int" where
  "fp_lround (Fin q) = (if 0 \<le> q then \<lfloor>q + 1 / 2\<rfloor> else - \<lfloor>1 / 2 - q\<rfloor>)"
| "fp_lround _ = - (2 ^ 63)"

fun fp_floor :: "fp \<Rightarrow> fp" where
  "fp_floor (Fin q) = Fin (of_int \<lfloor>q\<rfloor>)"
| "fp_floor x = x"

fun fp_ceil :: "fp \<Rightarrow> fp" where
  "fp_ceil (Fin q) = Fin (of_int \<lceil>q\<rceil>)"
| "fp_ceil x = x"

abbreviation addF :: "fp \<Rightarrow> fp \<Rightarrow> fp" where "addF \<equiv> fp_add Single"
abbreviation subF :: "fp \<Rightarrow> fp \<Rightarrow> fp" where "subF \<equiv> fp_sub Single"
abbreviation mulF :: "fp \<Rightarrow> fp \<Rightarrow> fp" where "mulF \<equiv> fp_mul Single"
abbreviation divF :: "fp \<Rightarrow> fp \<Rightarrow> fp" where "divF \<equiv> fp_div Single"
abbreviation sqrtF :: "fp \<Rightarrow> fp" where "sqrtF \<equiv> fp_sqrt Single"
abbreviation litF :: "rat \<Rightarrow> fp" where "litF \<equiv> fp_lit Single"
abbreviation addD :: "fp \<Rightarrow> fp \<Rightarrow> fp" where "addD \<equiv> fp_add Double"
abbreviation mulD :: "fp \<Rightarrow> fp \<Rightarrow> fp" where "mulD \<equiv> fp_mul Double"
abbreviation divD :: "fp \<Rightarrow> fp \<Rightarrow> fp" where "divD \<equiv> fp_div Double"

section \<open>Rounding is monotone and keeps the values of the format\<close>

lemma pow2_pos [simp]: "0 < (2::rat) powi e"
  by (simp add: zero_less_power_int)

lemma pow2_less_iff [simp]: "(2::rat) powi a < 2 powi b \<longleftrightarrow> a < b"
proof (cases a b rule: linorder_cases)
  case less
  then have "(2::rat) powi a < 2 powi b" by (intro power_int_strict_increasing) simp_all
  with less show ?thesis by simp
next
  case greater
  then have "(2::rat) powi b < 2 powi a" by (intro power_int_strict_increasing) simp_all
  with greater show ?thesis by simp
qed simp

lemma pow2_le_iff [simp]: "(2::rat) powi a \<le> 2 powi b \<longleftrightarrow> a \<le> b"
  by (simp flip: not_less)

lemma pow2_add: "(2::rat) powi (a + b) = 2 powi a * 2 powi b"
  by (simp add: power_int_add)

lemma pow2_int: "0 \<le> k \<Longrightarrow> \<exists>n. (2::rat) powi k = of_int n"
  by (rule exI [of _ "2 ^ nat k"]) (simp add: power_int_nonneg_exp)

lemma ilog2_bounds:
  assumes "0 < q"
  shows "2 powi ilog2 q \<le> q \<and> q < 2 powi (ilog2 q + 1)"
proof -
  obtain n d where nd: "quotient_of q = (n, d)" by (cases "quotient_of q")
  then have q: "q = of_int n / of_int d" and d: "0 < d"
    by (simp_all add: quotient_of_div quotient_of_denom_pos)
  with assms have n: "0 < n" by (simp add: zero_less_divide_iff)
  have lift: "(2::rat) powi (bitlen x - 1) \<le> of_int x \<and> of_int x < (2::rat) powi bitlen x"
    if "0 < x" for x
  proof -
    from that have "1 \<le> bitlen x" by (simp add: bitlen_alt_def)
    moreover from bitlen_bounds [OF that]
    have "(of_int (2 ^ nat (bitlen x - 1)) :: rat) \<le> of_int x"
      and "(of_int x :: rat) < of_int (2 ^ nat (bitlen x))"
      by (simp_all only: of_int_le_iff of_int_less_iff)
    ultimately show ?thesis by (simp add: power_int_nonneg_exp)
  qed
  let ?k = "bitlen n - bitlen d"
  have "q * (2 powi bitlen d) \<ge> of_int n"
    using lift [OF d] d n by (simp add: q field_simps mult_left_mono)
  with lift [OF n] have "2 powi (bitlen n - 1) \<le> q * 2 powi bitlen d" by linarith
  moreover have "(2::rat) powi (bitlen n - 1) = 2 powi (?k - 1) * 2 powi bitlen d"
    by (simp flip: pow2_add)
  ultimately have lo: "2 powi (?k - 1) \<le> q" by simp
  have "q * (2 powi (bitlen d - 1)) \<le> of_int n"
    using lift [OF d] d n by (simp add: q field_simps mult_left_mono)
  with lift [OF n] have "q * 2 powi (bitlen d - 1) < 2 powi bitlen n" by linarith
  moreover have "(2::rat) powi bitlen n = 2 powi (?k + 1) * 2 powi (bitlen d - 1)"
    by (simp flip: pow2_add)
  ultimately have hi: "q < 2 powi (?k + 1)" by simp
  show ?thesis
    using lo hi by (simp add: ilog2_def nd Let_def)
qed

lemma ilog2_unique: "2 powi e \<le> q \<Longrightarrow> q < 2 powi (e + 1) \<Longrightarrow> ilog2 q = e"
proof -
  assume e: "2 powi e \<le> q" "q < 2 powi (e + 1)"
  then have "0 < q" using pow2_pos [of e] by linarith
  note b = ilog2_bounds [OF this]
  from e b have "(2::rat) powi e < 2 powi (ilog2 q + 1)" and "(2::rat) powi ilog2 q < 2 powi (e + 1)"
    by linarith+
  then show ?thesis by simp
qed

lemma ilog2_mono: "0 < q \<Longrightarrow> q \<le> p \<Longrightarrow> ilog2 q \<le> ilog2 p"
proof -
  assume "0 < q" and "q \<le> p"
  then have "(2::rat) powi ilog2 q < 2 powi (ilog2 p + 1)"
    using ilog2_bounds [of q] ilog2_bounds [of p] by linarith
  then show ?thesis by simp
qed

lemma rne_of_int [simp]: "rne (of_int n) = n"
  by (simp add: rne_def)

lemma rne_mono:
  assumes "a \<le> b"
  shows "rne a \<le> rne b"
proof (cases "\<lfloor>a\<rfloor> = \<lfloor>b\<rfloor>")
  case True
  with assms show ?thesis by (auto simp: rne_def Let_def)
next
  case False
  with assms have "\<lfloor>a\<rfloor> < \<lfloor>b\<rfloor>" using floor_mono [OF assms] by simp
  moreover have "rne a \<le> \<lfloor>a\<rfloor> + 1" and "\<lfloor>b\<rfloor> \<le> rne b"
    by (simp_all add: rne_def Let_def)
  ultimately show ?thesis by linarith
qed

lemma quantum_pos [simp]: "0 < quantum f q"
  by (simp add: quantum_def)

lemma rnd_zero [simp]: "rnd f 0 = 0"
  by (simp add: rnd_def)

lemma rnd_neg: "rnd f (- q) = - rnd f q"
  by (simp add: rnd_def quantum_def binade_def)

lemma prec_pos [simp]: "1 < prec f"
  by (cases f) simp_all

text \<open>A multiple of the quantum bounds the rounded value as it bounds the exact one.\<close>

lemma rnd_grid:
  assumes "0 < q" and "g = of_int m * quantum f q"
  shows "g \<le> q \<Longrightarrow> g \<le> rnd f q" and "q \<le> g \<Longrightarrow> rnd f q \<le> g"
proof -
  let ?u = "quantum f q"
  have r: "rnd f q = of_int (rne (q / ?u)) * ?u" using assms(1) by (simp add: rnd_def)
  {
    assume "g \<le> q"
    then have "of_int m \<le> q / ?u" using assms(2) by (simp add: pos_le_divide_eq)
    then have "m \<le> rne (q / ?u)" using rne_mono rne_of_int by metis
    then show "g \<le> rnd f q" by (simp add: r assms(2))
  next
    assume "q \<le> g"
    then have "q / ?u \<le> of_int m" using assms(2) by (simp add: pos_divide_le_eq)
    then have "rne (q / ?u) \<le> m" using rne_mono rne_of_int by metis
    then show "rnd f q \<le> g" by (simp add: r assms(2))
  }
qed

lemma pow2_on_grid:
  assumes "binade f q - prec f + 1 \<le> e"
  shows "\<exists>m. (2::rat) powi e = of_int m * quantum f q"
proof -
  from assms obtain m where "(2::rat) powi (e - (binade f q - prec f + 1)) = of_int m"
    using pow2_int [of "e - (binade f q - prec f + 1)"] by auto
  then have "of_int m * quantum f q = 2 powi (e - (binade f q - prec f + 1) + (binade f q - prec f + 1))"
    unfolding quantum_def by (simp only: pow2_add)
  then show ?thesis by (intro exI [of _ m]) simp
qed

lemma binade_upper: "0 < q \<Longrightarrow> q < 2 powi (binade f q + 1)"
proof -
  assume "0 < q"
  then have "q < 2 powi (ilog2 q + 1)" using ilog2_bounds by blast
  also have "\<dots> \<le> 2 powi (binade f q + 1)" using \<open>0 < q\<close> by (simp add: binade_def)
  finally show ?thesis .
qed

lemma rnd_mono_pos:
  assumes "0 < q" and "q \<le> p"
  shows "rnd f q \<le> rnd f p"
proof (cases "binade f q = binade f p")
  case True
  then have u: "quantum f q = quantum f p" by (simp add: quantum_def)
  have "q / quantum f p \<le> p / quantum f p"
    using assms by (intro divide_right_mono) (simp_all add: less_imp_le)
  then have "rne (q / quantum f p) \<le> rne (p / quantum f p)" by (rule rne_mono)
  with assms u show ?thesis by (simp add: rnd_def)
next
  case False
  have "binade f q \<le> binade f p"
    using ilog2_mono [OF assms] assms by (auto simp: binade_def)
  with False have less: "binade f q + 1 \<le> binade f p" by simp
  then have bp: "binade f p = ilog2 p" using assms by (auto simp: binade_def)
  obtain m where m: "(2::rat) powi (binade f q + 1) = of_int m * quantum f q"
    using pow2_on_grid [of f q "binade f q + 1"] prec_pos [of f] by auto
  have "rnd f q \<le> 2 powi (binade f q + 1)"
    using binade_upper [OF assms(1), of f] by (intro rnd_grid(2) [OF assms(1) m]) simp
  also have "\<dots> \<le> 2 powi binade f p" using less by simp
  also have "\<dots> \<le> rnd f p"
  proof -
    obtain n where n: "(2::rat) powi binade f p = of_int n * quantum f p"
      using pow2_on_grid [of f p "binade f p"] prec_pos [of f] by auto
    have p: "0 < p" using assms by simp
    show ?thesis
      using ilog2_bounds [OF p] by (intro rnd_grid(1) [OF p n]) (simp add: bp)
  qed
  finally show ?thesis .
qed

lemma rnd_nonneg: "0 \<le> q \<Longrightarrow> 0 \<le> rnd f q"
proof (cases "q = 0")
  case False
  assume "0 \<le> q"
  with False have "0 < q" by simp
  then show ?thesis using rnd_grid(1) [of q 0 0 f] by simp
qed simp

lemma rnd_mono:
  assumes "q \<le> p"
  shows "rnd f q \<le> rnd f p"
proof -
  consider "0 < q" | "q \<le> 0" "0 \<le> p" | "p < 0" by linarith
  then show ?thesis
  proof cases
    case 1
    then show ?thesis using assms by (rule rnd_mono_pos)
  next
    case 2
    then show ?thesis
      using rnd_nonneg [of p f] rnd_nonneg [of "- q" f] by (simp add: rnd_neg)
  next
    case 3
    then show ?thesis
      using rnd_mono_pos [of "- p" "- q" f] assms by (simp add: rnd_neg)
  qed
qed

lemma rnd_exact_pos:
  assumes q: "q = of_int m * 2 powi e" and "0 < q" and m: "m < 2 ^ nat (prec f)"
    and e: "emin f - prec f + 1 \<le> e"
  shows "rnd f q = q"
proof -
  have "(of_int m :: rat) < of_int (2 ^ nat (prec f))" using m by (simp only: of_int_less_iff)
  also have "\<dots> = 2 powi prec f" by (cases f) simp_all
  finally have "q < 2 powi (prec f + e)" by (simp add: q pow2_add)
  with ilog2_bounds [OF \<open>0 < q\<close>] have "(2::rat) powi ilog2 q < 2 powi (prec f + e)" by linarith
  then have "binade f q - prec f + 1 \<le> e" using e \<open>0 < q\<close> by (simp add: binade_def)
  then obtain k where k: "(2::rat) powi e = of_int k * quantum f q" using pow2_on_grid by blast
  then have g: "q = of_int (m * k) * quantum f q" by (simp add: q)
  show ?thesis
    using rnd_grid [OF \<open>0 < q\<close> g] by simp
qed

lemma rnd_exact:
  assumes "q = of_int m * 2 powi e" and "\<bar>m\<bar> < 2 ^ nat (prec f)" and "emin f - prec f + 1 \<le> e"
  shows "rnd f q = q"
proof (cases q "0::rat" rule: linorder_cases)
  case equal
  then show ?thesis by simp
next
  case greater
  from assms(2) have "m < 2 ^ nat (prec f)" by linarith
  with assms(1,3) greater show ?thesis by (intro rnd_exact_pos)
next
  case less
  from assms(2) have "- m < 2 ^ nat (prec f)" by linarith
  then have "rnd f (- q) = - q"
    using assms(1,3) less by (intro rnd_exact_pos [of _ "- m" e]) simp_all
  then show ?thesis by (simp add: rnd_neg)
qed

text \<open>The values of a format are the fixed points of rounding.\<close>

definition fits :: "fmt \<Rightarrow> rat \<Rightarrow> bool" where
  "fits f q \<longleftrightarrow> fp_round f q = Fin q"

lemma fits_iff: "fits f q \<longleftrightarrow> rnd f q = q \<and> \<bar>q\<bar> < 2 powi (emax f + 1)"
  by (auto simp: fits_def fp_round_def Let_def)

lemma fitsI:
  "q = of_int m * 2 powi e \<Longrightarrow> \<bar>m\<bar> < 2 ^ nat (prec f) \<Longrightarrow> emin f - prec f + 1 \<le> e
     \<Longrightarrow> \<bar>q\<bar> < 2 powi (emax f + 1) \<Longrightarrow> fits f q"
  unfolding fits_iff using rnd_exact [of q m e f] by simp

lemma fits_zero [simp]: "fits f 0"
  by (simp add: fits_iff)

lemma fits_of_int:
  assumes "\<bar>n\<bar> < 2 ^ nat (prec f)"
  shows "fits f (of_int n)"
proof (rule fitsI [of _ n 0])
  have "\<bar>of_int n\<bar> < (of_int (2 ^ nat (prec f)) :: rat)"
    using assms by (simp only: of_int_abs [symmetric] of_int_less_iff)
  also have "\<dots> = 2 powi prec f" by (cases f) simp_all
  also have "\<dots> \<le> 2 powi (emax f + 1)" by (cases f) simp_all
  finally show "\<bar>of_int n\<bar> < (2::rat) powi (emax f + 1)" .
  show "emin f - prec f + 1 \<le> 0" by (cases f) simp_all
qed (use assms in simp_all)

lemma fits_one [simp]: "fits f 1"
  using fits_of_int [of 1 f] by (cases f) simp_all

lemma fits_neg [simp]: "fits f (- q) = fits f q"
  by (simp add: fits_iff rnd_neg)

lemma fits_abs [simp]: "fits f \<bar>q\<bar> = fits f q"
  by (simp add: abs_if)

lemma round_fits: "fits f q \<Longrightarrow> fp_round f q = Fin q"
  by (simp add: fits_def)

lemma round_between:
  assumes "fits f a" and "fits f b" and "a \<le> q" and "q \<le> b"
  shows "\<exists>r. fp_round f q = Fin r \<and> a \<le> r \<and> r \<le> b"
proof -
  from assms have "a \<le> rnd f q" and "rnd f q \<le> b"
    using rnd_mono [of a q f] rnd_mono [of q b f] by (simp_all add: fits_iff)
  moreover from assms have "- (2 powi (emax f + 1)) < a" and "b < 2 powi (emax f + 1)"
    by (simp_all add: fits_iff abs_less_iff)
  ultimately show ?thesis by (auto simp: fp_round_def Let_def)
qed

lemma round_mono: "q \<le> p \<Longrightarrow> fp_round f q = Fin r \<Longrightarrow> fp_round f p = Fin s \<Longrightarrow> r \<le> s"
  using rnd_mono [of q p f] by (auto simp: fp_round_def Let_def split: if_splits)

lemma round_nonneg: "0 \<le> q \<Longrightarrow> fp_round f q = Fin r \<Longrightarrow> 0 \<le> r"
  using rnd_nonneg [of q f] by (auto simp: fp_round_def Let_def split: if_splits)

lemma round_nonneg_not_neg: "0 \<le> q \<Longrightarrow> fp_round f q \<noteq> Neg_Inf"
  using rnd_nonneg [of q f] pow2_pos [of "emax f + 1"] by (auto simp: fp_round_def Let_def)

lemma round_not_nan [simp]: "fp_round f q \<noteq> Nan"
  by (simp add: fp_round_def Let_def)

lemma rnd_units_le:
  assumes "0 < q"
  shows "rne (q / quantum f q) \<le> 2 ^ nat (prec f)"
proof -
  have "q < 2 powi (prec f + (binade f q - prec f + 1))"
    using binade_upper [OF assms, of f] by simp
  also have "\<dots> = 2 powi prec f * quantum f q" by (simp only: pow2_add quantum_def)
  finally have "q / quantum f q \<le> 2 powi prec f" by (simp add: pos_divide_le_eq)
  also have "(2::rat) powi prec f = of_int (2 ^ nat (prec f))" by (cases f) simp_all
  finally have "rne (q / quantum f q) \<le> rne (of_int (2 ^ nat (prec f)))" by (rule rne_mono)
  then show ?thesis by (simp only: rne_of_int)
qed

text \<open>Every value of a format is a scaled integer of at most \<open>prec\<close> bits.\<close>

lemma fits_scaled:
  assumes "fits f q"
  shows "\<exists>m e. q = of_int m * 2 powi e \<and> \<bar>m\<bar> \<le> 2 ^ nat (prec f) \<and> emin f - prec f + 1 \<le> e"
proof -
  have pos: "\<exists>m e. p = of_int m * 2 powi e \<and> \<bar>m\<bar> \<le> 2 ^ nat (prec f) \<and> emin f - prec f + 1 \<le> e"
    if "fits f p" and "0 < p" for p
  proof (intro exI conjI)
    show "p = of_int (rne (p / quantum f p)) * 2 powi (binade f p - prec f + 1)"
      using that by (simp add: fits_iff rnd_def quantum_def)
    have "rne 0 \<le> rne (p / quantum f p)" using that by (intro rne_mono) (simp add: less_imp_le)
    then show "\<bar>rne (p / quantum f p)\<bar> \<le> 2 ^ nat (prec f)"
      using rnd_units_le [OF that(2), of f] rne_of_int [of 0] by simp
    show "emin f - prec f + 1 \<le> binade f p - prec f + 1" by (simp add: binade_def)
  qed
  consider "q = 0" | "0 < q" | "q < 0" by linarith
  then show ?thesis
  proof cases
    case 1
    then show ?thesis by (intro exI [of _ 0] exI [of _ "emin f - prec f + 1"]) simp
  next
    case 2
    with assms show ?thesis by (rule pos)
  next
    case 3
    with assms obtain m e where "- q = of_int m * 2 powi e" "\<bar>m\<bar> \<le> 2 ^ nat (prec f)"
      "emin f - prec f + 1 \<le> e" using pos [of "- q"] by auto
    then show ?thesis by (intro exI [of _ "- m"] exI [of _ e]) auto
  qed
qed

lemma fits_scaledI:
  assumes q: "q = of_int m * 2 powi e" and m: "\<bar>m\<bar> \<le> 2 ^ nat (prec f)" and e: "emin f - prec f + 1 \<le> e"
    and small: "\<bar>q\<bar> < 2 powi (emax f + 1)"
  shows "fits f q"
proof (cases "\<bar>m\<bar> = 2 ^ nat (prec f)")
  case True
  have p: "(2::rat) ^ nat (prec f) = 2 powi prec f" by (cases f) simp_all
  have "(of_int \<bar>m\<bar> :: rat) = 2 powi prec f"
    unfolding True by (simp add: p)
  then have "q = of_int (sgn m) * 2 powi (prec f + e)"
    unfolding q pow2_add by (metis mult.assoc of_int_mult sgn_mult_abs)
  moreover have "\<bar>sgn m\<bar> < 2 ^ nat (prec f)" by (cases f) (simp_all add: sgn_if)
  moreover have "emin f - prec f + 1 \<le> prec f + e" using e prec_pos [of f] by linarith
  ultimately show ?thesis using small by (rule fitsI)
qed (use assms in \<open>auto intro: fitsI\<close>)

lemma round_result_fits:
  assumes "fp_round f q = Fin r"
  shows "fits f r"
proof -
  have top: "\<bar>r\<bar> < 2 powi (emax f + 1)" and r: "r = rnd f q"
    using assms by (auto simp: fp_round_def Let_def abs_less_iff split: if_splits)
  have pos: "fits f (rnd f p)" if "0 < p" "\<bar>rnd f p\<bar> < 2 powi (emax f + 1)" for p
  proof (rule fits_scaledI [OF _ _ _ that(2)])
    show "rnd f p = of_int (rne (p / quantum f p)) * 2 powi (binade f p - prec f + 1)"
      using that by (simp add: rnd_def quantum_def)
    have "rne 0 \<le> rne (p / quantum f p)" using that by (intro rne_mono) (simp add: less_imp_le)
    then show "\<bar>rne (p / quantum f p)\<bar> \<le> 2 ^ nat (prec f)"
      using rnd_units_le [OF that(1), of f] rne_of_int [of 0] by simp
    show "emin f - prec f + 1 \<le> binade f p - prec f + 1" by (simp add: binade_def)
  qed
  consider "q = 0" | "0 < q" | "0 < - q" by linarith
  then show ?thesis
  proof cases
    case 3
    with pos [of "- q"] top r show ?thesis by (simp add: rnd_neg)
  qed (use pos top r in simp_all)
qed

text \<open>A product with a factor between 0 and 1, and a sum with a part of the opposite sign, stay
  between zero and the first value.\<close>

definition between0 :: "rat \<Rightarrow> rat \<Rightarrow> bool" where
  "between0 r q \<longleftrightarrow> 0 \<le> r * q \<and> \<bar>r\<bar> \<le> \<bar>q\<bar>"

lemma between0_iff: "between0 r q \<longleftrightarrow> (if 0 \<le> q then 0 \<le> r \<and> r \<le> q else q \<le> r \<and> r \<le> 0)"
  by (cases q "0::rat" rule: linorder_cases) (auto simp: between0_def zero_le_mult_iff)

lemma between0_trans: "between0 a b \<Longrightarrow> between0 b c \<Longrightarrow> between0 a c"
  by (auto simp: between0_iff split: if_splits)

lemma round_between0:
  assumes "fits f q" and "between0 p q"
  shows "\<exists>r. fp_round f p = Fin r \<and> between0 r q \<and> fits f r"
proof (cases "0 \<le> q")
  case True
  with assms round_between [of f 0 q p] show ?thesis
    by (auto simp: between0_iff dest: round_result_fits)
next
  case False
  with assms round_between [of f q 0 p] show ?thesis
    by (auto simp: between0_iff dest: round_result_fits)
qed

lemma between0_scale: "0 \<le> s \<Longrightarrow> s \<le> 1 \<Longrightarrow> between0 (q * s) q"
proof -
  assume s: "0 \<le> s" "s \<le> 1"
  have "0 \<le> s * (q * q)" using s by simp
  then show ?thesis using s by (simp add: between0_def abs_mult mult_left_le mult.left_commute)
qed

lemma between0_shrink: "between0 r (- q) \<Longrightarrow> between0 (q + r) q"
  by (auto simp: between0_iff split: if_splits)

lemma fits_Single_Double:
  assumes "fits Single q"
  shows "fits Double q"
proof -
  obtain m e where q: "q = of_int m * 2 powi e" and m: "\<bar>m\<bar> \<le> 2 ^ 24" and e: "-149 \<le> e"
    using fits_scaled [OF assms] by auto
  have "\<bar>q\<bar> < 2 powi 128" using assms by (simp add: fits_iff)
  also have "(2::rat) powi 128 \<le> 2 powi 1024" by (rule pow2_le_iff [THEN iffD2]) simp
  finally show ?thesis using q m e by (intro fitsI [of _ m e]) simp_all
qed

text \<open>The product of two \<open>float\<close> values is exact in \<open>double\<close>.\<close>

lemma fits_square:
  assumes "fits Single q"
  shows "fits Double (q * q)"
proof -
  obtain m e where q: "q = of_int m * 2 powi e" and m: "\<bar>m\<bar> \<le> 2 ^ 24" and e: "-149 \<le> e"
    using fits_scaled [OF assms] by auto
  have "q * q = of_int (m * m) * 2 powi (e + e)"
    unfolding q pow2_add by (simp only: of_int_mult ac_simps)
  moreover have "\<bar>m * m\<bar> \<le> 2 ^ 24 * 2 ^ 24"
    unfolding abs_mult using m by (intro mult_mono) simp_all
  then have "\<bar>m * m\<bar> < 2 ^ 53" by (rule order_le_less_trans) simp
  moreover have "\<bar>q * q\<bar> < 2 powi 1024"
  proof -
    have "\<bar>q\<bar> < 2 powi 128" using assms by (simp add: fits_iff)
    then have "\<bar>q\<bar> * \<bar>q\<bar> < 2 powi 128 * 2 powi 128" by (intro mult_strict_mono) auto
    also have "(2::rat) powi 128 * 2 powi 128 = 2 powi (128 + 128)" by (simp only: pow2_add)
    also have "\<dots> \<le> 2 powi 1024" by (rule pow2_le_iff [THEN iffD2]) simp
    finally show ?thesis by (simp only: abs_mult)
  qed
  ultimately show ?thesis using e by (intro fitsI [of _ "m * m" "e + e"]) simp_all
qed

section \<open>Square roots\<close>

lemma isqrt_bounds: "0 \<le> n \<Longrightarrow> 0 \<le> isqrt n \<and> isqrt n * isqrt n \<le> n \<and> n < (isqrt n + 1) * (isqrt n + 1)"
proof (induction n rule: isqrt.induct)
  case (1 n)
  show ?case
  proof (cases "n = 0")
    case True
    then show ?thesis by (simp add: isqrt.simps)
  next
    case False
    with 1 have IH: "0 \<le> isqrt (n div 4)" "isqrt (n div 4) * isqrt (n div 4) \<le> n div 4"
      "n div 4 < (isqrt (n div 4) + 1) * (isqrt (n div 4) + 1)"
      by auto
    define r where "r = isqrt (n div 4)"
    have n: "n = 4 * (n div 4) + n mod 4" and "0 \<le> n mod 4" "n mod 4 < 4" by simp_all
    have lo: "2 * r * (2 * r) \<le> n" and hi: "n < (2 * r + 2) * (2 * r + 2)"
      using IH n \<open>0 \<le> n mod 4\<close> \<open>n mod 4 < 4\<close> by (simp_all add: r_def [symmetric] algebra_simps)
    have s: "isqrt n = (if (2 * r + 1) * (2 * r + 1) \<le> n then 2 * r + 1 else 2 * r)"
      using False 1(2) by (simp add: isqrt.simps [of n] r_def Let_def)
    show ?thesis
      using lo hi IH(1) by (auto simp: s r_def [symmetric] algebra_simps)
  qed
qed

lemma isqrt_ge:
  assumes "0 \<le> k" and "k * k \<le> n"
  shows "k \<le> isqrt n"
proof (rule ccontr)
  assume "\<not> k \<le> isqrt n"
  moreover from assms have "0 \<le> n" using order_trans zero_le_square by blast
  ultimately have "(isqrt n + 1) * (isqrt n + 1) \<le> k * k"
    using isqrt_bounds [of n] assms(1) by (intro mult_mono) auto
  with assms(2) \<open>0 \<le> n\<close> show False using isqrt_bounds [of n] by simp
qed

lemma sqrt_quantum_pos [simp]: "0 < sqrt_quantum f q"
  by (simp add: sqrt_quantum_def)

lemma sqrt_grid:
  assumes "0 \<le> k" and "of_int k * sqrt_quantum f q * (of_int k * sqrt_quantum f q) \<le> q"
  shows "of_int k * sqrt_quantum f q \<le> of_int (sqrt_units f q) * sqrt_quantum f q"
proof -
  let ?u = "sqrt_quantum f q"
  have "of_int (k * k) \<le> q / (?u * ?u)"
    using assms(2) by (simp add: pos_le_divide_eq algebra_simps)
  then have "k * k \<le> \<lfloor>q / (?u * ?u)\<rfloor>" by (simp only: le_floor_iff)
  then have "k \<le> isqrt \<lfloor>q / (?u * ?u)\<rfloor>" by (rule isqrt_ge [OF assms(1)])
  then have "k \<le> sqrt_units f q" by (simp add: sqrt_units_def Let_def)
  then show ?thesis by simp
qed

lemma fp_sqrt_ge:
  assumes a: "fits f a" "0 \<le> a" and q: "a * a \<le> q"
  shows "\<exists>r. fp_sqrt f (Fin q) = Fin r \<and> a \<le> r"
proof -
  have q0: "0 \<le> q" using q zero_le_square order_trans by blast
  show ?thesis
  proof (cases "a = 0")
    case True
    have "0 \<le> of_int (sqrt_units f q) * sqrt_quantum f q"
      using sqrt_grid [of 0 f q] q0 by simp
    with q0 True show ?thesis by simp
  next
    case False
    with a have a0: "0 < a" by simp
    then have qp: "0 < q" using q zero_less_mult_iff [of a a] by linarith
    obtain m e where am: "a = of_int m * 2 powi e" "\<bar>m\<bar> \<le> 2 ^ nat (prec f)"
      "emin f - prec f + 1 \<le> e" using fits_scaled [OF a(1)] by blast
    have "\<not> (2::rat) powi e < 0" by (simp add: not_less less_imp_le)
    with a0 am(1) have m0: "0 < m" by (simp add: zero_less_mult_iff)
    define t where "t = max (ilog2 q div 2) (emin f)"
    have u: "sqrt_quantum f q = 2 powi (t - prec f + 1)" by (simp add: sqrt_quantum_def t_def)
    have "a \<le> of_int (sqrt_units f q) * sqrt_quantum f q"
    proof (cases "t - prec f + 1 \<le> e")
      case True
      then obtain n where n: "(2::rat) powi (e - (t - prec f + 1)) = of_int n"
        using pow2_int [of "e - (t - prec f + 1)"] by auto
      have "2 powi e = of_int n * sqrt_quantum f q"
        unfolding n [symmetric] u by (simp flip: pow2_add)
      then have ak: "a = of_int (m * n) * sqrt_quantum f q" by (simp add: am(1))
      have "(0::rat) < of_int n" unfolding n [symmetric] by simp
      with m0 have "0 \<le> m * n" by simp
      from sqrt_grid [OF this, of f q] show ?thesis using q by (simp only: ak)
    next
      case False
      with am(3) have tt: "t = ilog2 q div 2" by (simp add: t_def max_def split: if_splits)
      have "a \<le> 2 powi prec f * 2 powi e"
      proof -
        have "(of_int m :: rat) \<le> of_int (2 ^ nat (prec f))" using am(2) m0 by (simp only: of_int_le_iff)
        also have "\<dots> = 2 powi prec f" by (cases f) simp_all
        finally show ?thesis by (simp add: am(1))
      qed
      also have "\<dots> \<le> 2 powi t"
        using False by (simp flip: pow2_add)
      also have at: "2 powi t = of_int (2 ^ nat (prec f - 1)) * sqrt_quantum f q"
      proof -
        have "(2::rat) powi (prec f - 1) = of_int (2 ^ nat (prec f - 1))" by (cases f) simp_all
        moreover have "(2::rat) powi t = 2 powi (prec f - 1) * 2 powi (t - prec f + 1)"
          by (simp flip: pow2_add)
        ultimately show ?thesis unfolding u by simp
      qed
      also have "\<dots> \<le> of_int (sqrt_units f q) * sqrt_quantum f q"
      proof (rule sqrt_grid)
        have "(2::rat) powi t * 2 powi t = 2 powi (t + t)" by (simp only: pow2_add)
        also have "\<dots> \<le> 2 powi ilog2 q" by (simp add: tt)
        also have "\<dots> \<le> q" using ilog2_bounds [OF qp] by simp
        finally show "of_int (2 ^ nat (prec f - 1)) * sqrt_quantum f q
            * (of_int (2 ^ nat (prec f - 1)) * sqrt_quantum f q) \<le> q"
          unfolding at .
      qed simp
      finally show ?thesis .
    qed
    with qp show ?thesis by simp
  qed
qed

lemma fp_sqrt_nonneg: "fp_sqrt f (Fin q) = Fin r \<Longrightarrow> 0 \<le> r"
  using fp_sqrt_ge [of f 0 q] by (auto split: if_splits)

text \<open>A coarse upper bound: the result is at most twice the square root.\<close>

lemma fp_sqrt_le:
  assumes "0 < q" and "fp_sqrt f (Fin q) = Fin r"
  shows "r * r \<le> 4 * q"
proof -
  define u where "u = sqrt_quantum f q"
  define s where "s = q / (u * u)"
  define m where "m = isqrt \<lfloor>s\<rfloor>"
  define k where "k = sqrt_units f q"
  have u: "0 < u" by (simp add: u_def)
  have s0: "0 < s" using assms(1) u by (simp add: s_def)
  have r: "r = of_int k * u" using assms by (simp add: k_def u_def split: if_splits)
  have fl: "0 \<le> \<lfloor>s\<rfloor>" using s0 by simp
  note b = isqrt_bounds [OF fl, folded m_def]
  have kdef: "k = (if s < (of_int m + 1 / 2) * (of_int m + 1 / 2) then m
      else if (of_int m + 1 / 2) * (of_int m + 1 / 2) < s then m + 1 else if even m then m else m + 1)"
    by (simp add: k_def sqrt_units_def Let_def s_def u_def m_def)
  have "(of_int (m * m) :: rat) \<le> of_int \<lfloor>s\<rfloor>" using b by (simp only: of_int_le_iff)
  then have ms: "of_int m * of_int m \<le> s" by (simp add: order_trans [OF _ of_int_floor_le])
  have "of_int k * of_int k \<le> 4 * s"
  proof (cases "m = 0")
    case True
    then show ?thesis using s0 by (auto simp: kdef)
  next
    case False
    with b have m1: "(1::rat) \<le> of_int m" by simp
    have "of_int k \<le> 2 * (of_int m :: rat)" "0 \<le> (of_int k :: rat)" using m1 by (auto simp: kdef)
    then have "of_int k * of_int k \<le> (2 * of_int m) * (2 * (of_int m :: rat))"
      by (intro mult_mono) auto
    also have "\<dots> \<le> 4 * s" using ms by simp
    finally show ?thesis .
  qed
  then have "of_int k * of_int k * (u * u) \<le> 4 * s * (u * u)"
    by (rule mult_right_mono) simp
  then show ?thesis using u by (simp add: r s_def algebra_simps)
qed

section \<open>Evaluation\<close>

text \<open>
  Rounding on the integers of the fraction: no rational arithmetic, powers of two by squaring, the
  length of a number read off its digits, the overflow test on the exponent. The result is a literal
  fraction.
\<close>

fun num_len :: "num \<Rightarrow> int" where
  "num_len num.One = 1"
| "num_len (num.Bit0 n) = num_len n + 1"
| "num_len (num.Bit1 n) = num_len n + 1"

lemma bitlen_numeral: "bitlen (numeral n) = num_len n"
proof (induction n)
  case (Bit0 n)
  have "bitlen (numeral (num.Bit0 n) :: int) = bitlen (numeral (num.Bit0 n) div 2) + 1"
    by (subst compute_bitlen) simp
  then show ?case by (simp add: Bit0)
next
  case (Bit1 n)
  have "bitlen (numeral (num.Bit1 n) :: int) = bitlen (numeral (num.Bit1 n) div 2) + 1"
    by (subst compute_bitlen) simp
  then show ?case by (simp add: Bit1)
qed (simp add: bitlen_alt_def)

lemma bitlen_code [code]:
  "bitlen 0 = 0" "bitlen (Int.Pos n) = num_len n" "bitlen (Int.Neg n) = 0"
  by (simp_all add: bitlen_numeral) (simp add: bitlen_def floorlog_def)

definition pow2 :: "int \<Rightarrow> int" where
  "pow2 k = 2 ^ nat k"

lemma pow2_code [code]:
  "pow2 k = (if k \<le> 0 then 1
     else let h = pow2 (k div 2) in if k mod 2 = 0 then h * h else 2 * (h * h))"
proof (cases "k \<le> 0")
  case False
  define m where "m = nat (k div 2)"
  have "nat k = (if k mod 2 = 0 then 2 * m else Suc (2 * m))"
    using False unfolding m_def by (auto simp: nat_eq_iff) presburger+
  then show ?thesis
    using False by (simp add: pow2_def Let_def flip: m_def) (simp add: mult_2 power_add)
qed (simp add: pow2_def)

lemma powi_pow2: "(2::rat) powi k = (if 0 \<le> k then of_int (pow2 k) else 1 / of_int (pow2 (- k)))"
  by (simp add: power_int_def pow2_def power_one_over)

lemma pow2_gt_0 [simp]: "0 < pow2 k"
  by (simp add: pow2_def)

definition rne_ratio :: "int \<Rightarrow> int \<Rightarrow> int" where
  "rne_ratio a b = (let f = a div b; r = 2 * (a mod b) in
     if r < b then f else if b < r then f + 1 else if even f then f else f + 1)"

lemma rne_ratio: "0 < b \<Longrightarrow> rne (of_int a / of_int b) = rne_ratio a b"
proof -
  assume b: "0 < b"
  have f: "\<lfloor>of_int a / of_int b :: rat\<rfloor> = a div b" by (rule floor_divide_of_int_eq)
  have "(of_int a :: rat) = of_int (a div b) * of_int b + of_int (a mod b)"
    by (metis div_mult_mod_eq of_int_add of_int_mult)
  then have r: "(of_int a / of_int b :: rat) - of_int (a div b) = of_int (a mod b) / of_int b"
    using b by (simp add: field_simps)
  have "(of_int (a mod b) / of_int b :: rat) < 1 / 2 \<longleftrightarrow> of_int (2 * (a mod b)) < (of_int b :: rat)"
    and "(1 / 2 :: rat) < of_int (a mod b) / of_int b \<longleftrightarrow> (of_int b :: rat) < of_int (2 * (a mod b))"
    using b by (simp_all add: field_simps)
  then show ?thesis unfolding rne_def rne_ratio_def Let_def f r of_int_less_iff by simp
qed

definition ratio_exponent :: "int \<Rightarrow> int \<Rightarrow> int" where
  "ratio_exponent a d = (let k = bitlen a - bitlen d in
     if (if 0 \<le> k then d * pow2 k \<le> a else d \<le> a * pow2 (- k)) then k else k - 1)"

lemma ratio_exponent: "0 < d \<Longrightarrow> quotient_of q = (a, d) \<Longrightarrow> ilog2 q = ratio_exponent a d"
proof -
  assume d: "0 < d" and q: "quotient_of q = (a, d)"
  then have "q = of_int a / of_int d" by (simp add: quotient_of_div)
  moreover have "(of_int p \<le> (of_int a / of_int d :: rat)) \<longleftrightarrow> d * p \<le> a" for p
    using d by (simp add: pos_le_divide_eq mult.commute flip: of_int_mult)
  moreover have "(1 / of_int p \<le> (of_int a / of_int d :: rat)) \<longleftrightarrow> d \<le> a * p" if "0 < p" for p
    using d that by (simp add: divide_le_eq pos_le_divide_eq flip: of_int_mult)
  ultimately have "2 powi k \<le> q \<longleftrightarrow> (if 0 \<le> k then d * pow2 k \<le> a else d \<le> a * pow2 (- k))" for k
    by (simp add: powi_pow2)
  then show ?thesis by (simp add: ilog2_def ratio_exponent_def q Let_def)
qed

lemma ilog2_scaled: "0 < m \<Longrightarrow> ilog2 (of_int m * 2 powi e :: rat) = bitlen m - 1 + e"
proof (rule ilog2_unique)
  assume m: "0 < m"
  have p: "(2::rat) powi (bitlen m - 1) = of_int (2 ^ nat (bitlen m - 1))"
    "(2::rat) powi bitlen m = of_int (2 ^ nat (bitlen m))"
    using m bitlen_bounds [of m] bitlen_nonneg [of m] bitlen_eq_zero_iff [of m]
    by (simp_all add: power_int_def)
  show "(2::rat) powi (bitlen m - 1 + e) \<le> of_int m * 2 powi e"
    using bitlen_bounds [OF m] by (simp add: pow2_add p(1) del: of_int_power)
  have "of_int m * (2::rat) powi e < 2 powi bitlen m * 2 powi e"
    using bitlen_bounds [OF m] by (simp add: p(2) del: of_int_power)
  then show "of_int m * (2::rat) powi e < 2 powi (bitlen m - 1 + e + 1)"
    by (simp flip: pow2_add add: algebra_simps)
qed

definition round_ratio :: "fmt \<Rightarrow> int \<Rightarrow> int \<Rightarrow> fp" where
  "round_ratio f n d = (let a = \<bar>n\<bar>; e = max (ratio_exponent a d) (emin f) - prec f + 1;
       num = (if 0 \<le> e then a else a * pow2 (- e)); den = (if 0 \<le> e then d * pow2 e else d);
       m = rne_ratio num den
     in if 0 < m \<and> emax f < bitlen m - 1 + e then (if 0 < n then Pos_Inf else Neg_Inf)
        else if num mod den = 0 then Fin (of_int n / of_int d)
        else if 0 \<le> e then Fin (of_int (sgn n * m * pow2 e))
        else Fin (of_int (sgn n * m) / of_int (pow2 (- e))))"

lemma fp_round_exponent: "fp_round f q = (let r = rnd f q in
     if r \<noteq> 0 \<and> emax f < ilog2 \<bar>r\<bar> then (if 0 < r then Pos_Inf else Neg_Inf) else Fin r)"
proof -
  have "2 powi (emax f + 1) \<le> x \<longleftrightarrow> emax f < ilog2 x" if "0 < x" for x
  proof
    assume "2 powi (emax f + 1) \<le> x"
    moreover have "x < 2 powi (ilog2 x + 1)" using ilog2_bounds [OF that] by blast
    ultimately have "(2::rat) powi (emax f + 1) < 2 powi (ilog2 x + 1)" by (rule order.strict_trans1)
    then show "emax f < ilog2 x" by simp
  next
    assume "emax f < ilog2 x"
    then have "(2::rat) powi (emax f + 1) \<le> 2 powi ilog2 x" by simp
    also have "\<dots> \<le> x" using ilog2_bounds [OF that] by blast
    finally show "2 powi (emax f + 1) \<le> x" .
  qed
  from this [of "rnd f q"] this [of "- rnd f q"] show ?thesis
    using pow2_pos [of "emax f + 1"]
    by (cases "rnd f q" "0::rat" rule: linorder_cases)
      (auto simp: fp_round_def Let_def not_le intro: less_le_trans order.strict_trans)
qed

text \<open>The rounded value of a positive fraction, and of its negation.\<close>

lemma rnd_ratio:
  assumes q: "quotient_of q = (n, d)" and n: "n \<noteq> 0"
    and e: "e = max (ratio_exponent \<bar>n\<bar> d) (emin f) - prec f + 1"
    and num: "num = (if 0 \<le> e then \<bar>n\<bar> else \<bar>n\<bar> * pow2 (- e))"
    and den: "den = (if 0 \<le> e then d * pow2 e else d)"
  shows "rnd f q = of_int (sgn n * rne_ratio num den) * 2 powi e"
    and "\<bar>q\<bar> = of_int num / of_int den * 2 powi e" and "0 < num" and "0 < den" and "0 < d"
    and "q = of_int (sgn n) * \<bar>q\<bar>"
proof -
  show d: "0 < d" using q by (simp add: quotient_of_denom_pos)
  have v: "q = of_int n / of_int d" using q by (rule quotient_of_div)
  have abs: "quotient_of \<bar>q\<bar> = (\<bar>n\<bar>, d)" by (simp add: rat_abs_code q)
  have unit: "quantum f q = 2 powi e"
    by (simp add: quantum_def binade_def e ratio_exponent [OF d abs])
  show pos: "0 < num" "0 < den" using n d by (simp_all add: num den)
  have "\<bar>q\<bar> / 2 powi e = of_int num / of_int den"
    using d by (simp add: v num den powi_pow2 abs_divide field_simps)
  then show a: "\<bar>q\<bar> = of_int num / of_int den * 2 powi e"
    by (simp add: field_simps)
  then have r: "rne (\<bar>q\<bar> / 2 powi e) = rne_ratio num den"
    using rne_ratio [OF pos(2), of num] by simp
  show s: "q = of_int (sgn n) * \<bar>q\<bar>"
    using d by (cases n "0::int" rule: linorder_cases) (simp_all add: v abs_divide)
  show "rnd f q = of_int (sgn n * rne_ratio num den) * 2 powi e"
  proof (cases "0 < n")
    case True
    then have "0 < q" using d by (simp add: v)
    then show ?thesis using r True by (simp add: rnd_def unit)
  next
    case False
    then have "q < 0" using d n by (simp add: v divide_neg_pos)
    then show ?thesis using r False n by (simp add: rnd_def unit)
  qed
qed

lemma round_ratio:
  assumes q: "quotient_of q = (n, d)" and n: "n \<noteq> 0"
  shows "fp_round f q = round_ratio f n d"
proof -
  define e where "e = max (ratio_exponent \<bar>n\<bar> d) (emin f) - prec f + 1"
  define num where "num = (if 0 \<le> e then \<bar>n\<bar> else \<bar>n\<bar> * pow2 (- e))"
  define den where "den = (if 0 \<le> e then d * pow2 e else d)"
  define m where "m = rne_ratio num den"
  note r = rnd_ratio [OF q n e_def num_def den_def]
  have "0 \<le> num div den" using r(3,4) by (simp add: pos_imp_zdiv_nonneg_iff)
  then have m: "0 \<le> m" by (simp add: m_def rne_ratio_def Let_def)
  have rnd: "rnd f q = of_int (sgn n * m) * 2 powi e" using r(1) by (simp add: m_def)
  have abs: "\<bar>rnd f q\<bar> = of_int m * 2 powi e"
    using m n by (cases "0 < n") (simp_all add: rnd abs_mult)
  have zero: "rnd f q = 0 \<longleftrightarrow> m = 0" using n by (simp add: rnd sgn_0_0)
  have pos: "0 < m \<Longrightarrow> 0 < rnd f q \<longleftrightarrow> 0 < n"
    using n by (cases "0 < n") (simp_all add: rnd zero_less_mult_iff mult_less_0_iff not_less less_imp_le)
  have exact: "rnd f q = q" if "num mod den = 0"
  proof -
    have "m = num div den" using that r(4) by (simp add: m_def rne_ratio_def)
    then have "num = m * den" using that by (metis add.right_neutral div_mult_mod_eq)
    then have "(of_int num / of_int den :: rat) = of_int m" using r(4) by simp
    then have "q = of_int (sgn n) * (of_int m * 2 powi e)" using r(2,6) by simp
    then show ?thesis unfolding rnd by (simp add: mult.assoc)
  qed
  have over: "rnd f q \<noteq> 0 \<and> emax f < ilog2 \<bar>rnd f q\<bar> \<longleftrightarrow> 0 < m \<and> emax f < bitlen m - 1 + e"
    using m ilog2_scaled [of m e] unfolding zero abs by auto
  have val: "rnd f q = (if num mod den = 0 then of_int n / of_int d
      else if 0 \<le> e then of_int (sgn n * m * pow2 e) else of_int (sgn n * m) / of_int (pow2 (- e)))"
  proof (cases "num mod den = 0")
    case True
    then show ?thesis using exact quotient_of_div [OF q] by simp
  next
    case False
    then show ?thesis unfolding rnd by (simp add: powi_pow2)
  qed
  have rr: "round_ratio f n d = (if 0 < m \<and> emax f < bitlen m - 1 + e then (if 0 < n then Pos_Inf else Neg_Inf)
      else Fin (rnd f q))"
    unfolding val round_ratio_def Let_def
    unfolding e_def [symmetric] num_def [symmetric] den_def [symmetric] m_def [symmetric]
    by (simp only: if_distrib [of Fin])
  show ?thesis
    unfolding fp_round_exponent [of f q] Let_def over rr using pos by simp
qed

lemma fp_round_code [code]:
  "fp_round f q = (case quotient_of q of (n, d) \<Rightarrow> if n = 0 then Fin 0 else round_ratio f n d)"
proof (cases "quotient_of q")
  case (Pair n d)
  show ?thesis
  proof (cases "n = 0")
    case True
    then have "q = 0" using quotient_of_div [OF Pair] by simp
    then show ?thesis using Pair True round_fits [OF fits_zero] by simp
  next
    case False
    with round_ratio [OF Pair] Pair show ?thesis by simp
  qed
qed

end
