(* ===== verification/Seq_Queue.thy ===== *)
theory Seq_Queue
  imports Prelude
begin

text \<open>
  The command queues of the server. Three components (the tick loop, the combat and the loot
  simulation) hold one queue of numbered commands per player, accept a command only when its
  sequence number is larger than the last one accepted from that player, and empty all queues
  once per tick in the order of the player ids. \<open>drain_by_player\<close> is the emptying loop they share;
  the locale \<open>seq_queue\<close> states what they promise, and what follows from it for every interleaving
  of enqueues and drains.
\<close>

section \<open>Emptying the queues in the order of the player ids\<close>

type_synonym 'c queues = "(u32, 'c list) umap"

definition queue_for :: "'c queues \<Rightarrow> u32 \<Rightarrow> 'c list" where
  "queue_for q p = (case umap_find q p of None \<Rightarrow> [] | Some cs \<Rightarrow> cs)"

definition ready_players :: "'c queues \<Rightarrow> u32 list" where
  "ready_players q = sort (map fst (filter (\<lambda>(p, cs). cs \<noteq> []) q))"

fun drain_ids :: "u32 list \<Rightarrow> 'c queues \<Rightarrow> 'c list \<times> 'c queues" where
  "drain_ids [] q = ([], q)"
| "drain_ids (p # ps) q =
     (case umap_find q p of
        None \<Rightarrow> drain_ids ps q
      | Some cs \<Rightarrow> (case drain_ids ps (umap_erase p q) of (rest, q') \<Rightarrow> (cs @ rest, q')))"

definition drain_by_player :: "'c queues \<Rightarrow> 'c list \<times> 'c queues" where
  "drain_by_player q = drain_ids (ready_players q) q"

lemma queue_for_put [umap_simps]:
  "queue_for (umap_put p cs q) p' = (if p' = p then cs else queue_for q p')"
  by (simp add: queue_for_def find_put)

lemma queue_for_erase [umap_simps]:
  "queue_for (umap_erase p q) p' = (if p' = p then [] else queue_for q p')"
  by (simp add: queue_for_def find_erase)

lemma queue_for_Nil [simp]: "queue_for [] p = []"
  by (simp add: queue_for_def)

lemma drain_ids_out:
  "distinct ps \<Longrightarrow> fst (drain_ids ps q) = concat (map (queue_for q) ps)"
proof (induction ps arbitrary: q)
  case (Cons p ps)
  then have same: "map (queue_for (umap_erase p q)) ps = map (queue_for q) ps"
    by (auto simp: queue_for_erase)
  show ?case
  proof (cases "umap_find q p")
    case None
    with Cons show ?thesis by (simp add: queue_for_def)
  next
    case (Some cs)
    then have "queue_for q p = cs" by (simp add: queue_for_def)
    with Some Cons.IH [of "umap_erase p q"] Cons.prems same show ?thesis by (simp add: case_prod_beta)
  qed
qed simp

lemma drain_ids_rest:
  "umap_find (snd (drain_ids ps q)) p = (if p \<in> set ps then None else umap_find q p)"
  by (induction ps arbitrary: q) (auto simp: case_prod_beta find_erase split: option.splits)

lemma drain_ids_ok: "umap_ok q \<Longrightarrow> umap_ok (snd (drain_ids ps q))"
  by (induction ps arbitrary: q) (auto simp: case_prod_beta split: option.splits)

lemma set_ready_players:
  "umap_ok q \<Longrightarrow> p \<in> set (ready_players q) \<longleftrightarrow> queue_for q p \<noteq> []"
proof -
  assume ok: "umap_ok q"
  have "p \<in> set (ready_players q) \<longleftrightarrow> (\<exists>cs. (p, cs) \<in> set q \<and> cs \<noteq> [])"
    by (auto simp: ready_players_def image_iff)
  also have "\<dots> \<longleftrightarrow> (\<exists>cs. umap_find q p = Some cs \<and> cs \<noteq> [])"
    by (simp only: in_set_find [OF ok])
  also have "\<dots> \<longleftrightarrow> queue_for q p \<noteq> []"
    by (cases "umap_find q p") (simp_all add: queue_for_def)
  finally show ?thesis .
qed

lemma sorted_ready_players: "umap_ok q \<Longrightarrow> sorted_wrt (<) (ready_players q)"
  by (simp add: ready_players_def strict_sorted_iff distinct_map_filter)

lemma distinct_ready_players: "umap_ok q \<Longrightarrow> distinct (ready_players q)"
  using sorted_ready_players [of q] by (simp add: strict_sorted_iff)

lemma drain_by_player_out:
  "umap_ok q \<Longrightarrow> fst (drain_by_player q) = concat (map (queue_for q) (ready_players q))"
  by (simp add: drain_by_player_def drain_ids_out distinct_ready_players)

lemma drain_by_player_rest:
  "umap_ok q \<Longrightarrow> queue_for (snd (drain_by_player q)) p = []"
  using set_ready_players [of q p]
  by (auto simp: drain_by_player_def queue_for_def drain_ids_rest split: option.splits)

lemma drain_by_player_ok: "umap_ok q \<Longrightarrow> umap_ok (snd (drain_by_player q))"
  by (simp add: drain_by_player_def drain_ids_ok)

text \<open>The output depends on the content of the map only, not on its bucket order.\<close>

lemma ready_players_canonical: "mset q = mset q' \<Longrightarrow> ready_players q = ready_players q'"
  unfolding ready_players_def by (rule sort_canonical) simp

lemma drain_by_player_canonical:
  assumes "umap_ok q" and "mset q = mset q'"
  shows "fst (drain_by_player q) = fst (drain_by_player q')"
proof -
  have ok': "umap_ok q'" using assms umap_ok_mset by blast
  have "umap_find q = umap_find q'"
    using mset_eq_iff_find [OF assms(1) ok'] assms(2) by blast
  then have "queue_for q = queue_for q'" by (simp add: queue_for_def fun_eq_iff)
  then show ?thesis
    by (simp add: drain_by_player_out assms(1) ok' ready_players_canonical [OF assms(2)])
qed

text \<open>How many commands the queues hold.\<close>

definition queued_total :: "'c queues \<Rightarrow> nat" where
  "queued_total q = sum_list (map (length \<circ> snd) q)"

lemma queued_total_Cons [simp]: "queued_total ((k, cs) # q) = length cs + queued_total q"
  by (simp add: queued_total_def)

lemma queued_total_Nil [simp]: "queued_total [] = 0"
  by (simp add: queued_total_def)

lemma queue_for_Cons: "queue_for ((k, cs) # q) p = (if k = p then cs else queue_for q p)"
  by (simp add: queue_for_def)

lemma queue_for_absent: "p \<notin> fst ` set q \<Longrightarrow> queue_for q p = []"
  by (simp add: queue_for_def map_of_eq_None_iff [THEN iffD2])

lemma queued_total_erase:
  "umap_ok q \<Longrightarrow> queued_total (umap_erase p q) + length (queue_for q p) = queued_total q"
proof (induction q)
  case (Cons a q)
  obtain k cs where a: "a = (k, cs)" by (cases a)
  show ?case
  proof (cases "k = p")
    case True
    with Cons.prems a show ?thesis by (simp add: queue_for_Cons delete_id)
  next
    case False
    with Cons a show ?thesis by (simp add: queue_for_Cons)
  qed
qed simp

lemma queued_total_push:
  "umap_ok q \<Longrightarrow> queued_total (umap_put p (queue_for q p @ [c]) q) = Suc (queued_total q)"
proof (induction q)
  case (Cons a q)
  obtain k cs where a: "a = (k, cs)" by (cases a)
  with Cons show ?case by (cases "k = p") (simp_all add: queue_for_Cons)
qed simp

lemma queued_total_drain_ids:
  "umap_ok q \<Longrightarrow> queued_total (snd (drain_ids ps q)) + length (fst (drain_ids ps q)) = queued_total q"
proof (induction ps arbitrary: q)
  case (Cons p ps)
  show ?case
  proof (cases "umap_find q p")
    case None
    with Cons show ?thesis by simp
  next
    case (Some cs)
    then have "queue_for q p = cs" by (simp add: queue_for_def)
    with Some queued_total_erase [OF Cons.prems, of p] Cons.IH [OF ok_erase [OF Cons.prems], of p]
    show ?thesis by (simp add: case_prod_beta)
  qed
qed simp

lemma queued_total_0: "(\<And>p. queue_for q p = []) \<Longrightarrow> umap_ok q \<Longrightarrow> queued_total q = 0"
proof -
  assume empty: "\<And>p. queue_for q p = []" and ok: "umap_ok q"
  have "snd x = []" if "x \<in> set q" for x
    using empty [of "fst x"] that map_of_is_SomeI [OF ok, of "fst x" "snd x"]
    by (simp add: queue_for_def)
  then show ?thesis by (simp add: queued_total_def)
qed

lemma drain_by_player_length:
  assumes "umap_ok q"
  shows "length (fst (drain_by_player q)) = queued_total q"
  using queued_total_drain_ids [OF assms, of "ready_players q"]
    queued_total_0 [OF drain_by_player_rest [OF assms] drain_by_player_ok [OF assms]]
  by (simp add: drain_by_player_def)

section \<open>What a numbered command queue promises\<close>

text \<open>An interleaving of enqueues and drains: the accepted commands, the delivered commands, and
  the state after it.\<close>

datatype 'c queue_event = Enqueue 'c | Drain

fun queue_run :: "('c \<Rightarrow> 's \<Rightarrow> bool \<times> 's) \<Rightarrow> ('s \<Rightarrow> 'c list \<times> 's) \<Rightarrow> 'c queue_event list \<Rightarrow> 's
    \<Rightarrow> 'c list \<times> 'c list \<times> 's" where
  "queue_run enq drain [] s = ([], [], s)"
| "queue_run enq drain (Enqueue c # es) s =
     (case enq c s of (ok, s1) \<Rightarrow>
       (case queue_run enq drain es s1 of (acc, del, s2) \<Rightarrow> ((if ok then c # acc else acc), del, s2)))"
| "queue_run enq drain (Drain # es) s =
     (case drain s of (out, s1) \<Rightarrow>
       (case queue_run enq drain es s1 of (acc, del, s2) \<Rightarrow> (acc, out @ del, s2)))"

locale seq_queue =
  fixes pid sq :: "'c \<Rightarrow> u32"
    and norm :: "'c \<Rightarrow> 'c"
    and wf :: "'s \<Rightarrow> bool"
    and queues :: "'s \<Rightarrow> 'c queues"
    and last_seq :: "'s \<Rightarrow> u32 \<Rightarrow> u32 option"
    and enq :: "'c \<Rightarrow> 's \<Rightarrow> bool \<times> 's"
    and drain :: "'s \<Rightarrow> 'c list \<times> 's"
  assumes norm_pid: "pid (norm c) = pid c" and norm_sq: "sq (norm c) = sq c"
    and wf_queues: "wf s \<Longrightarrow> umap_ok (queues s)"
    and wf_enq: "wf s \<Longrightarrow> wf (snd (enq c s))"
    and wf_drain: "wf s \<Longrightarrow> wf (snd (drain s))"
    and enq_rejected: "wf s \<Longrightarrow> enq c s = (False, s') \<Longrightarrow> queue_for (queues s') p = queue_for (queues s) p"
    and enq_rejected_last: "wf s \<Longrightarrow> enq c s = (False, s') \<Longrightarrow> last_seq s p = Some l \<Longrightarrow> last_seq s' p = Some l"
    and enq_accepted: "wf s \<Longrightarrow> enq c s = (True, s') \<Longrightarrow> queue_for (queues s') p =
      (if p = pid c then queue_for (queues s) p @ [norm c] else queue_for (queues s) p)"
    and enq_accepted_last: "wf s \<Longrightarrow> enq c s = (True, s') \<Longrightarrow> last_seq s' (pid c) = Some (sq c)"
    and enq_accepted_other: "wf s \<Longrightarrow> enq c s = (True, s') \<Longrightarrow> last_seq s p = Some l \<Longrightarrow> p \<noteq> pid c
      \<Longrightarrow> last_seq s' p = Some l"
    and enq_accepted_newer: "wf s \<Longrightarrow> enq c s = (True, s') \<Longrightarrow> last_seq s (pid c) = Some l \<Longrightarrow> l < sq c"
    and drain_out: "wf s \<Longrightarrow> fst (drain s) = fst (drain_by_player (queues s))"
    and drain_rest: "wf s \<Longrightarrow> queue_for (queues (snd (drain s))) p = []"
    and drain_last: "wf s \<Longrightarrow> last_seq (snd (drain s)) p = last_seq s p"
begin

definition seq_inv :: "'s \<Rightarrow> bool" where
  "seq_inv s \<longleftrightarrow> wf s \<and> (\<forall>p. sorted_wrt (<) (map sq (queue_for (queues s) p))
     \<and> (\<forall>c \<in> set (queue_for (queues s) p). pid c = p \<and> (\<exists>l. last_seq s p = Some l \<and> sq c \<le> l)))"

lemma seq_inv_start: "wf s \<Longrightarrow> (\<And>p. queue_for (queues s) p = []) \<Longrightarrow> seq_inv s"
  by (simp add: seq_inv_def)

lemma seq_invD:
  assumes "seq_inv s"
  shows "wf s" and "sorted_wrt (<) (map sq (queue_for (queues s) p))"
    and "c \<in> set (queue_for (queues s) p) \<Longrightarrow> pid c = p"
    and "c \<in> set (queue_for (queues s) p) \<Longrightarrow> \<exists>l. last_seq s p = Some l \<and> sq c \<le> l"
  using assms by (auto simp: seq_inv_def)

lemma seq_inv_rejected:
  assumes "seq_inv s" and e: "enq c s = (False, s')"
  shows "seq_inv s'"
proof -
  note d = seq_invD [OF assms(1)]
  have wf': "wf s'" using wf_enq [OF d(1), of c] e by simp
  have "pid d = p \<and> (\<exists>l. last_seq s' p = Some l \<and> sq d \<le> l)"
    if "d \<in> set (queue_for (queues s) p)" for d p
    using d(3) [OF that] d(4) [OF that] enq_rejected_last [OF d(1) e, of p] by blast
  with d wf' show ?thesis by (simp add: seq_inv_def enq_rejected [OF d(1) e])
qed

lemma seq_inv_accepted:
  assumes "seq_inv s" and e: "enq c s = (True, s')"
  shows "seq_inv s'"
proof -
  note d = seq_invD [OF assms(1)]
  note q = enq_accepted [OF d(1) e]
  have wf': "wf s'" using wf_enq [OF d(1), of c] e by simp
  have old: "sq b < sq c" if b: "b \<in> set (queue_for (queues s) (pid c))" for b
  proof -
    from d(4) [OF b] obtain l where "last_seq s (pid c) = Some l" "sq b \<le> l" by blast
    with enq_accepted_newer [OF d(1) e] show ?thesis by (meson order.strict_trans1)
  qed
  have "sorted_wrt (<) (map sq (queue_for (queues s') p))" for p
    using d(2) old by (simp add: q norm_sq sorted_wrt_append)
  moreover have "pid b = p \<and> (\<exists>l. last_seq s' p = Some l \<and> sq b \<le> l)"
    if b: "b \<in> set (queue_for (queues s') p)" for b p
  proof (cases "p = pid c")
    case True
    with b have "b = norm c \<or> b \<in> set (queue_for (queues s) (pid c))" by (auto simp: q)
    then have "pid b = pid c \<and> sq b \<le> sq c"
      using d(3) old by (auto simp: norm_pid norm_sq intro: less_imp_le)
    with True enq_accepted_last [OF d(1) e] show ?thesis by simp
  next
    case False
    with b have "b \<in> set (queue_for (queues s) p)" by (simp add: q)
    with d(3,4) enq_accepted_other [OF d(1) e _ False] show ?thesis by blast
  qed
  ultimately show ?thesis using wf' by (simp add: seq_inv_def)
qed

lemma seq_inv_enq: "seq_inv s \<Longrightarrow> enq c s = (ok, s') \<Longrightarrow> seq_inv s'"
  by (cases ok) (auto intro: seq_inv_rejected seq_inv_accepted)

lemma seq_inv_drain: "seq_inv s \<Longrightarrow> seq_inv (snd (drain s))"
  by (simp add: seq_inv_def wf_drain drain_rest)

text \<open>Draining: ascending in (player, sequence number), each queue complete, in its order.\<close>

lemma drain_sorted:
  assumes "seq_inv s"
  shows "sorted_wrt (\<lambda>x y. (pid x, sq x) < (pid y, sq y)) (fst (drain s))"
proof -
  have wf: "wf s" using assms by (simp add: seq_inv_def)
  have "sorted_wrt (\<lambda>x y. (pid x, sq x) < (pid y, sq y)) (concat (map (queue_for (queues s)) ps))"
    if "sorted_wrt (<) ps" for ps
    using that
  proof (induction ps)
    case (Cons p ps)
    have "sorted_wrt (<) (map sq (queue_for (queues s) p))"
      using assms by (simp add: seq_inv_def)
    then have "sorted_wrt (\<lambda>x y. (pid x, sq x) < (pid y, sq y)) (queue_for (queues s) p)"
      unfolding sorted_wrt_map
      by (rule sorted_wrt_mono_rel [rotated]) (use assms in \<open>auto simp: seq_inv_def less_prod_def\<close>)
    moreover have "(pid x, sq x) < (pid y, sq y)"
      if "x \<in> set (queue_for (queues s) p)" "q \<in> set ps" "y \<in> set (queue_for (queues s) q)" for x y q
    proof -
      have "pid x = p" "pid y = q" "p < q" using assms that Cons.prems by (auto simp: seq_inv_def)
      then show ?thesis by (simp add: less_prod_def)
    qed
    ultimately show ?case using Cons by (auto simp: sorted_wrt_append)
  qed simp
  then show ?thesis
    by (simp add: drain_out wf drain_by_player_out wf_queues sorted_ready_players)
qed

lemma drain_of_player:
  assumes "seq_inv s"
  shows "filter (\<lambda>c. pid c = p) (fst (drain s)) = queue_for (queues s) p"
proof -
  have wf: "wf s" using assms by (simp add: seq_inv_def)
  have ok: "umap_ok (queues s)" by (rule wf_queues [OF wf])
  have one: "filter (\<lambda>c. pid c = p) (queue_for (queues s) q) = (if q = p then queue_for (queues s) p else [])" for q
    using assms by (auto simp: seq_inv_def filter_empty_conv intro!: filter_True)
  have "filter (\<lambda>c. pid c = p) (concat (map (queue_for (queues s)) ps)) =
      (if p \<in> set ps then queue_for (queues s) p else [])" if "distinct ps" for ps
    using that by (induction ps) (auto simp: one)
  moreover have "p \<notin> set (ready_players (queues s)) \<Longrightarrow> queue_for (queues s) p = []"
    using set_ready_players [OF ok] by blast
  ultimately show ?thesis
    by (simp add: drain_out wf drain_by_player_out ok distinct_ready_players)
qed

text \<open>Over every interleaving each accepted command is delivered once, in the order of its player,
  and what is not delivered yet is still queued.\<close>

lemma fifo:
  assumes "seq_inv s" and "queue_run enq drain es s = (acc, del, s')"
  shows "seq_inv s' \<and> queue_for (queues s) p @ map norm (filter (\<lambda>c. pid c = p) acc)
    = filter (\<lambda>c. pid c = p) del @ queue_for (queues s') p"
  using assms
proof (induction es arbitrary: s acc del)
  case Nil
  then show ?case by simp
next
  case (Cons e es)
  note wf = Cons.prems(1) [unfolded seq_inv_def, THEN conjunct1]
  show ?case
  proof (cases e)
    case (Enqueue c)
    obtain ok s1 where e1: "enq c s = (ok, s1)" by fastforce
    obtain acc1 where r: "queue_run enq drain es s1 = (acc1, del, s')"
      and acc: "acc = (if ok then c # acc1 else acc1)"
      using Cons.prems(2) Enqueue e1 by (auto split: prod.splits)
    have "queue_for (queues s1) p = (if ok \<and> p = pid c then queue_for (queues s) p @ [norm c]
        else queue_for (queues s) p)"
      using enq_accepted [OF wf] enq_rejected [OF wf] e1 by (cases ok) auto
    with Cons.IH [OF seq_inv_enq [OF Cons.prems(1) e1] r] acc show ?thesis by auto
  next
    case Drain
    obtain acc1 del1 where r: "queue_run enq drain es (snd (drain s)) = (acc1, del1, s')"
      and acc: "acc = acc1" "del = fst (drain s) @ del1"
      using Cons.prems(2) Drain by (auto split: prod.splits)
    from Cons.IH [OF seq_inv_drain [OF Cons.prems(1)] r] show ?thesis
      using acc drain_of_player [OF Cons.prems(1), of p] by (simp add: drain_rest [OF wf])
  qed
qed

text \<open>The sequence numbers delivered for a player only grow, over the whole run.\<close>

lemma accepted_increasing:
  assumes "seq_inv s" and "queue_run enq drain es s = (acc, del, s')"
  shows "sorted_wrt (<) (map sq (filter (\<lambda>c. pid c = p) acc))
    \<and> (\<forall>c \<in> set acc. pid c = p \<longrightarrow> (\<forall>l. last_seq s p = Some l \<longrightarrow> l < sq c))"
  using assms
proof (induction es arbitrary: s acc del)
  case Nil
  then show ?case by simp
next
  case (Cons e es)
  note wf = Cons.prems(1) [unfolded seq_inv_def, THEN conjunct1]
  show ?case
  proof (cases e)
    case (Enqueue c)
    obtain ok s1 where e1: "enq c s = (ok, s1)" by fastforce
    obtain acc1 where r: "queue_run enq drain es s1 = (acc1, del, s')"
      and acc: "acc = (if ok then c # acc1 else acc1)"
      using Cons.prems(2) Enqueue e1 by (auto split: prod.splits)
    note ih = Cons.IH [OF seq_inv_enq [OF Cons.prems(1) e1] r]
    show ?thesis
    proof (cases "ok \<and> pid c = p")
      case True
      then have e: "enq c s = (True, s1)" using e1 by simp
      have l: "last_seq s1 p = Some (sq c)" using enq_accepted_last [OF wf e] True by simp
      have newer: "l < sq c" if "last_seq s p = Some l" for l
        using enq_accepted_newer [OF wf e] True that by simp
      then show ?thesis using ih l acc True by (auto intro: order.strict_trans)
    next
      case False
      then have keep: "last_seq s p = Some l \<Longrightarrow> last_seq s1 p = Some l" for l
        using enq_rejected_last [OF wf, of c s1 p l] enq_accepted_other [OF wf, of c s1 p l] e1
        by (cases ok) auto
      then show ?thesis using ih acc False by auto
    qed
  next
    case Drain
    obtain acc1 del1 where r: "queue_run enq drain es (snd (drain s)) = (acc1, del1, s')"
      and acc: "acc = acc1"
      using Cons.prems(2) Drain by (auto split: prod.splits)
    from Cons.IH [OF seq_inv_drain [OF Cons.prems(1)] r] show ?thesis
      using acc by (simp add: drain_last [OF wf])
  qed
qed

lemma delivered_increasing:
  assumes "seq_inv s" and "\<And>p. queue_for (queues s) p = []"
    and "queue_run enq drain es s = (acc, del, s')"
  shows "sorted_wrt (<) (map sq (filter (\<lambda>c. pid c = p) del))"
proof -
  let ?acc = "map norm (filter (\<lambda>c. pid c = p) acc)"
  have "sorted_wrt (<) (map sq ?acc)"
    using accepted_increasing [OF assms(1,3), of p] by (simp add: norm_sq sorted_wrt_map)
  moreover have "?acc = filter (\<lambda>c. pid c = p) del @ queue_for (queues s') p"
    using fifo [OF assms(1,3), of p] assms(2) [of p] by simp
  ultimately have "sorted_wrt (<) (map sq (filter (\<lambda>c. pid c = p) del @ queue_for (queues s') p))"
    by (simp only:)
  then show ?thesis by (simp add: sorted_wrt_append)
qed

end

end
