(* ===== verification/Registry.thy ===== *)
theory Registry
  imports Prelude
begin

text \<open>
  The player tables of the server. Movement, combat, loot and lifecycle each keep one record per
  player in an unordered map, create it on first use (\<open>ensure_player\<close>), and list the records
  sorted by player id. The locales state that contract once.
\<close>

locale player_registry =
  fixes players :: "'s \<Rightarrow> (u32, 'p) umap"
    and ensure :: "u32 \<Rightarrow> 's \<Rightarrow> 's"
    and fresh :: "'s \<Rightarrow> u32 \<Rightarrow> 'p"
    and id_of :: "'p \<Rightarrow> u32"
  assumes ensure_players: "players (ensure p s) = (case umap_find (players s) p of
      None \<Rightarrow> umap_put p (fresh s p) (players s) | Some v \<Rightarrow> players s)"
    and fresh_id: "id_of (fresh s p) = p"
    and fresh_stable: "fresh (ensure q s) p = fresh s p"
begin

definition reg_ok :: "'s \<Rightarrow> bool" where
  "reg_ok s \<longleftrightarrow> umap_ok (players s) \<and> (\<forall>p v. umap_find (players s) p = Some v \<longrightarrow> id_of v = p)"

lemma ensure_find: "umap_find (players (ensure p s)) q =
    (if q = p \<and> umap_find (players s) p = None then Some (fresh s p) else umap_find (players s) q)"
  by (auto simp: ensure_players find_put split: option.split)

lemma ensure_present: "\<exists>v. umap_find (players (ensure p s)) p = Some v"
  by (cases "umap_find (players s) p") (simp_all add: ensure_find)

lemma ensure_keeps: "umap_find (players s) q = Some v \<Longrightarrow> umap_find (players (ensure p s)) q = Some v"
  by (auto simp: ensure_find)

lemma ensure_ok: "reg_ok s \<Longrightarrow> reg_ok (ensure p s)"
  unfolding reg_ok_def by (auto simp: ensure_players find_put fresh_id split: option.split)

lemma ensure_all_find: "umap_find (players (fold ensure ps s)) q =
    (case umap_find (players s) q of Some v \<Rightarrow> Some v
     | None \<Rightarrow> if q \<in> set ps then Some (fresh s q) else None)"
proof (induction ps arbitrary: s)
  case (Cons p ps)
  then show ?case by (cases "umap_find (players s) q") (auto simp: ensure_find fresh_stable)
qed (simp split: option.split)

lemma ensure_all_ok: "reg_ok s \<Longrightarrow> reg_ok (fold ensure ps s)"
  by (rule fold_preserves) (auto intro: ensure_ok)

end

text \<open>Listing the table sorted by player id.\<close>

locale player_listing = player_registry players ensure fresh id_of
  for players :: "'s \<Rightarrow> (u32, 'p) umap" and ensure fresh id_of +
  fixes lt :: "'v \<Rightarrow> 'v \<Rightarrow> bool"
    and view_id :: "'v \<Rightarrow> u32"
    and view :: "'s \<Rightarrow> 'p \<Rightarrow> 'v"
    and listing :: "'s \<Rightarrow> 'v list"
  assumes lt_iff: "lt x y \<longleftrightarrow> view_id x < view_id y"
    and view_id: "view_id (view s v) = id_of v"
    and listing_eq: "listing s = std_sort lt (map (view s \<circ> snd) (players s))"
begin

sublocale listing_order: key_order lt view_id
  by unfold_locales (rule lt_iff)

lemma listing_ids: "reg_ok s \<Longrightarrow> map view_id (map (view s \<circ> snd) (players s)) = map fst (players s)"
  by (auto simp: reg_ok_def in_set_find [symmetric] view_id)

lemma listing_distinct:
  assumes "reg_ok s"
  shows "distinct (map (view s \<circ> snd) (players s))"
    and "inj_on view_id (set (map (view s \<circ> snd) (players s)))"
proof -
  from assms have "distinct (map view_id (map (view s \<circ> snd) (players s)))"
    unfolding listing_ids [OF assms] by (simp add: reg_ok_def)
  then show "distinct (map (view s \<circ> snd) (players s))"
    and "inj_on view_id (set (map (view s \<circ> snd) (players s)))"
    by (simp_all only: distinct_map)
qed

text \<open>One entry per player, in strictly ascending order of the ids.\<close>

lemma listing_sorted: "reg_ok s \<Longrightarrow> sorted_wrt (\<lambda>x y. view_id x < view_id y) (listing s)"
  using listing_order.strict_sorted [OF listing_distinct] by (simp add: listing_eq lt_iff [abs_def])

lemma listing_members: "v \<in> set (listing s) \<longleftrightarrow> (\<exists>p x. (p, x) \<in> set (players s) \<and> v = view s x)"
  by (force simp: listing_eq)

lemma listing_length: "length (listing s) = length (players s)"
  by (simp add: listing_eq)

text \<open>It depends on the content of the table only, not on its bucket order.\<close>

lemma listing_canonical:
  assumes "reg_ok s" and "mset (players s) = mset (players s')" and "view s' = view s"
  shows "listing s = listing s'"
proof -
  have "mset (map (view s \<circ> snd) (players s)) = mset (map (view s' \<circ> snd) (players s'))"
    using assms(2,3) by simp
  then show ?thesis
    unfolding listing_eq using listing_distinct(2) [OF assms(1)]
    by (rule listing_order.std_sort_canonical)
qed

end

end
