(* ===== verification/Sessions.thy ===== *)
theory Sessions
  imports Prelude
begin

text \<open>
  The session manager (server/SessionManager.h, server/src/SessionManager.cpp): which peer holds
  which player slot, which name owns which slot across reconnects, and when each session was last
  heard of. A peer token is the address of an ENet peer. Time points and the timeout are
  nanoseconds. \<open>SessionView\<close> and the private \<open>SessionRecord\<close> have the same fields and the code
  copies them one by one; both are \<open>session_record\<close> here.
\<close>

section \<open>Data\<close>

record session_config =
  max_players :: nat
  heartbeat_timeout :: int

datatype join_status = JoinAccepted | Reconnected | AlreadyJoined | JoinRejected

datatype join_error = JoinErrorNone | InvalidPlayerName | NameInUse | ServerFull

record session_record =
  sess_player_id :: u32
  sess_player_name :: string
  sess_peer_token :: u64
  sess_last_heartbeat :: int

definition default_session :: session_record where
  "default_session = \<lparr>sess_player_id = 0, sess_player_name = [], sess_peer_token = 0,
     sess_last_heartbeat = 0\<rparr>"

record join_result =
  join_result_status :: join_status
  join_result_error :: join_error
  join_result_session :: session_record

definition join_accepted :: "join_result \<Rightarrow> bool" where
  "join_accepted r \<longleftrightarrow> join_result_status r = JoinAccepted \<or> join_result_status r = Reconnected
     \<or> join_result_status r = AlreadyJoined"

record session_manager =
  sm_config :: session_config
  slot_owners :: "u64 list"
  sessions_by_peer :: "(u64, session_record) umap"
  slot_by_player_name :: "(string, u32) umap"

section \<open>Operations\<close>

definition session_manager_init :: "session_config \<Rightarrow> session_manager" where
  "session_manager_init c = \<lparr>sm_config = c, slot_owners = replicate (max_players c + 1) 0,
     sessions_by_peer = [], slot_by_player_name = []\<rparr>"

definition is_valid_player_name :: "string \<Rightarrow> bool" where
  "is_valid_player_name n \<longleftrightarrow> \<not> (n = [] \<or> 24 < length n)
     \<and> list_all (\<lambda>c. 32 \<le> (of_char c :: nat) \<and> (of_char c :: nat) \<le> 126) n"

definition slot_is_free :: "session_manager \<Rightarrow> u32 \<Rightarrow> bool" where
  "slot_is_free sm slot = (if slot = 0 \<or> length (slot_owners sm) \<le> unat slot then False
     else slot_owners sm ! unat slot = 0)"

fun first_free_from :: "u64 list \<Rightarrow> u32 \<Rightarrow> u32 option" where
  "first_free_from [] slot = None"
| "first_free_from (t # ts) slot = (if t = 0 then Some slot else first_free_from ts (slot + 1))"

definition first_free_slot :: "session_manager \<Rightarrow> u32 option" where
  "first_free_slot sm = first_free_from (drop 1 (slot_owners sm)) 1"

definition occupy_slot :: "u32 \<Rightarrow> u64 \<Rightarrow> session_manager \<Rightarrow> session_manager" where
  "occupy_slot slot token sm = sm\<lparr>slot_owners := (slot_owners sm)[unat slot := token]\<rparr>"

definition release_slot :: "u32 \<Rightarrow> session_manager \<Rightarrow> session_manager" where
  "release_slot slot sm = (if slot = 0 \<or> length (slot_owners sm) \<le> unat slot then sm
     else sm\<lparr>slot_owners := (slot_owners sm)[unat slot := 0]\<rparr>)"

definition reject :: "join_error \<Rightarrow> join_result" where
  "reject e = \<lparr>join_result_status = JoinRejected, join_result_error = e,
     join_result_session = default_session\<rparr>"

definition admit :: "join_status \<Rightarrow> u32 \<Rightarrow> u64 \<Rightarrow> string \<Rightarrow> int \<Rightarrow> session_manager
    \<Rightarrow> join_result \<times> session_manager" where
  "admit status slot token name now sm =
     (let session = \<lparr>sess_player_id = slot, sess_player_name = name, sess_peer_token = token,
            sess_last_heartbeat = now\<rparr>;
          sm1 = occupy_slot slot token sm;
          sm2 = sm1\<lparr>slot_by_player_name := umap_put name slot (slot_by_player_name sm1)\<rparr>;
          sm3 = sm2\<lparr>sessions_by_peer := umap_put token session (sessions_by_peer sm2)\<rparr>
      in (\<lparr>join_result_status = status, join_result_error = JoinErrorNone,
            join_result_session = session\<rparr>, sm3))"

definition handle_join_request :: "u64 \<Rightarrow> string \<Rightarrow> int \<Rightarrow> session_manager
    \<Rightarrow> join_result \<times> session_manager" where
  "handle_join_request token name now sm =
     (if \<not> is_valid_player_name name then (reject InvalidPlayerName, sm)
      else case umap_find (sessions_by_peer sm) token of
        Some existing \<Rightarrow>
          if sess_player_name existing \<noteq> name then (reject NameInUse, sm)
          else let existing' = existing\<lparr>sess_last_heartbeat := now\<rparr> in
            (\<lparr>join_result_status = AlreadyJoined, join_result_error = JoinErrorNone,
               join_result_session = existing'\<rparr>,
             sm\<lparr>sessions_by_peer := umap_put token existing' (sessions_by_peer sm)\<rparr>)
      | None \<Rightarrow>
          (case umap_find (slot_by_player_name sm) name of
             Some reserved \<Rightarrow>
               if \<not> slot_is_free sm reserved then (reject NameInUse, sm)
               else admit Reconnected reserved token name now sm
           | None \<Rightarrow>
               (case first_free_slot sm of
                  None \<Rightarrow> (reject ServerFull, sm)
                | Some slot \<Rightarrow> admit JoinAccepted slot token name now sm)))"

definition handle_heartbeat :: "u64 \<Rightarrow> int \<Rightarrow> session_manager \<Rightarrow> bool \<times> session_manager" where
  "handle_heartbeat token now sm =
     (case umap_find (sessions_by_peer sm) token of
        None \<Rightarrow> (False, sm)
      | Some s \<Rightarrow> (True, sm\<lparr>sessions_by_peer :=
          umap_put token (s\<lparr>sess_last_heartbeat := now\<rparr>) (sessions_by_peer sm)\<rparr>))"

definition handle_disconnect :: "u64 \<Rightarrow> session_manager \<Rightarrow> session_record option \<times> session_manager"
  where "handle_disconnect token sm =
     (case umap_find (sessions_by_peer sm) token of
        None \<Rightarrow> (None, sm)
      | Some s \<Rightarrow>
          let sm1 = release_slot (sess_player_id s) sm
          in (Some s, sm1\<lparr>sessions_by_peer := umap_erase token (sessions_by_peer sm1)\<rparr>))"

definition timed_out_peers :: "int \<Rightarrow> session_manager \<Rightarrow> u64 list" where
  "timed_out_peers now sm = map fst (filter
     (\<lambda>(token, s). heartbeat_timeout (sm_config sm) < now - sess_last_heartbeat s)
     (sessions_by_peer sm))"

fun disconnect_all :: "u64 list \<Rightarrow> session_manager \<Rightarrow> session_record list \<times> session_manager" where
  "disconnect_all [] sm = ([], sm)"
| "disconnect_all (t # ts) sm =
     (case handle_disconnect t sm of (removed, sm1) \<Rightarrow>
       (case disconnect_all ts sm1 of (rest, sm2) \<Rightarrow>
         ((case removed of None \<Rightarrow> rest | Some s \<Rightarrow> s # rest), sm2)))"

definition collect_timed_out :: "int \<Rightarrow> session_manager \<Rightarrow> session_record list \<times> session_manager"
  where "collect_timed_out now sm = disconnect_all (timed_out_peers now sm) sm"

definition session_less :: "session_record \<Rightarrow> session_record \<Rightarrow> bool" where
  "session_less l r = (if sess_player_id l \<noteq> sess_player_id r then sess_player_id l < sess_player_id r
     else sess_peer_token l < sess_peer_token r)"

definition active_sessions :: "session_manager \<Rightarrow> session_record list" where
  "active_sessions sm = std_sort session_less
     (map (\<lambda>(token, s). s\<lparr>sess_peer_token := token\<rparr>) (sessions_by_peer sm))"

definition session_for_peer :: "session_manager \<Rightarrow> u64 \<Rightarrow> session_record option" where
  "session_for_peer sm token = umap_find (sessions_by_peer sm) token"

definition active_count :: "session_manager \<Rightarrow> nat" where
  "active_count sm = length (sessions_by_peer sm)"

definition sm_capacity :: "session_manager \<Rightarrow> nat" where
  "sm_capacity sm = max_players (sm_config sm)"

fun join_status_to_string :: "join_status \<Rightarrow> string" where
  "join_status_to_string JoinAccepted = ''accepted''"
| "join_status_to_string Reconnected = ''reconnected''"
| "join_status_to_string AlreadyJoined = ''already_joined''"
| "join_status_to_string JoinRejected = ''rejected''"

fun join_error_to_string :: "join_error \<Rightarrow> string" where
  "join_error_to_string JoinErrorNone = ''none''"
| "join_error_to_string InvalidPlayerName = ''invalid_player_name''"
| "join_error_to_string NameInUse = ''name_in_use''"
| "join_error_to_string ServerFull = ''server_full''"

section \<open>The calls the server makes\<close>

datatype session_call = CallJoin u64 string int | CallHeartbeat u64 int | CallDisconnect u64
  | CallCollect int

fun session_exec :: "session_call \<Rightarrow> session_manager \<Rightarrow> session_manager" where
  "session_exec (CallJoin t n now) sm = snd (handle_join_request t n now sm)"
| "session_exec (CallHeartbeat t now) sm = snd (handle_heartbeat t now sm)"
| "session_exec (CallDisconnect t) sm = snd (handle_disconnect t sm)"
| "session_exec (CallCollect now) sm = snd (collect_timed_out now sm)"

text \<open>A peer token is an address and so is never null.\<close>

fun session_legal :: "session_call \<Rightarrow> bool" where
  "session_legal (CallJoin t n now) = (t \<noteq> 0)"
| "session_legal _ = True"

section \<open>The invariant\<close>

definition session_ok :: "session_manager \<Rightarrow> u64 \<Rightarrow> session_record \<Rightarrow> bool" where
  "session_ok sm t s \<longleftrightarrow> t \<noteq> 0 \<and> sess_peer_token s = t \<and> 0 < sess_player_id s
     \<and> unat (sess_player_id s) < length (slot_owners sm)
     \<and> slot_owners sm ! unat (sess_player_id s) = t
     \<and> umap_find (slot_by_player_name sm) (sess_player_name s) = Some (sess_player_id s)
     \<and> is_valid_player_name (sess_player_name s)"

definition sessions_inv :: "session_manager \<Rightarrow> bool" where
  "sessions_inv sm \<longleftrightarrow>
     length (slot_owners sm) = Suc (max_players (sm_config sm))
   \<and> max_players (sm_config sm) < 2 ^ 32 - 1
   \<and> umap_ok (sessions_by_peer sm) \<and> umap_ok (slot_by_player_name sm)
   \<and> (\<forall>t s. umap_find (sessions_by_peer sm) t = Some s \<longrightarrow> session_ok sm t s)
   \<and> (\<forall>i < length (slot_owners sm). slot_owners sm ! i \<noteq> 0 \<longrightarrow>
        (\<exists>s. umap_find (sessions_by_peer sm) (slot_owners sm ! i) = Some s
           \<and> unat (sess_player_id s) = i))
   \<and> (\<forall>n slot. umap_find (slot_by_player_name sm) n = Some slot \<longrightarrow>
        0 < slot \<and> unat slot < length (slot_owners sm))"

subsection \<open>Slots\<close>

lemma first_free_from_Some:
  "first_free_from ts k = Some slot \<Longrightarrow>
     \<exists>i < length ts. ts ! i = 0 \<and> slot = k + of_nat i \<and> (\<forall>j < i. ts ! j \<noteq> 0)"
proof (induction ts k rule: first_free_from.induct)
  case (2 t ts k)
  show ?case
  proof (cases "t = 0")
    case True
    with 2 show ?thesis by auto
  next
    case False
    with 2 obtain i where "i < length ts" "ts ! i = 0" "slot = k + 1 + of_nat i"
      "\<forall>j < i. ts ! j \<noteq> 0" by auto
    with False show ?thesis
      by (intro exI [of _ "Suc i"]) (auto simp: less_Suc_eq_0_disj)
  qed
qed simp

lemma first_free_from_None: "first_free_from ts k = None \<Longrightarrow> \<forall>t \<in> set ts. t \<noteq> 0"
  by (induction ts k rule: first_free_from.induct) (auto split: if_splits)

lemma slot_is_free_iff:
  "slot_is_free sm slot \<longleftrightarrow> 0 < slot \<and> unat slot < length (slot_owners sm)
     \<and> slot_owners sm ! unat slot = 0"
  by (auto simp: slot_is_free_def word_neq_0_conv)

lemma first_free_slot_Some:
  assumes "first_free_slot sm = Some slot" and "length (slot_owners sm) \<le> 2 ^ 32"
  shows "slot_is_free sm slot \<and> (\<forall>j. 0 < j \<longrightarrow> j < unat slot \<longrightarrow> slot_owners sm ! j \<noteq> 0)"
proof -
  obtain i where i: "i < length (drop 1 (slot_owners sm))" "drop 1 (slot_owners sm) ! i = 0"
    "slot = 1 + of_nat i" "\<forall>j < i. drop 1 (slot_owners sm) ! j \<noteq> 0"
    using first_free_from_Some [OF assms(1) [unfolded first_free_slot_def]] by auto
  then have slot: "slot = of_nat (Suc i)" by simp
  have "Suc i < 2 ^ 32" using i(1) assms(2) by simp
  then have u: "unat slot = Suc i"
    unfolding slot by (simp add: unat_of_nat take_bit_nat_eq_self del: of_nat_Suc)
  have "slot \<noteq> 0" using u by auto
  have "slot_owners sm ! j \<noteq> 0" if "0 < j" "j < unat slot" for j
    using i(4) [rule_format, of "j - 1"] i(1) that u by simp
  with i(1,2) u \<open>slot \<noteq> 0\<close> show ?thesis
    by (simp add: slot_is_free_iff word_neq_0_conv)
qed

lemma first_free_slot_None:
  assumes "first_free_slot sm = None" and "0 < j" and "j < length (slot_owners sm)"
  shows "slot_owners sm ! j \<noteq> 0"
proof -
  from assms have "drop 1 (slot_owners sm) ! (j - 1) = slot_owners sm ! j"
    and "j - 1 < length (drop 1 (slot_owners sm))" by simp_all
  then have "slot_owners sm ! j \<in> set (drop 1 (slot_owners sm))"
    by (metis nth_mem)
  with first_free_from_None [of "drop 1 (slot_owners sm)" 1] assms(1) show ?thesis
    by (simp add: first_free_slot_def)
qed

subsection \<open>Every operation keeps the invariant\<close>

lemma sessions_inv_init:
  "max_players c < 2 ^ 32 - 1 \<Longrightarrow> sessions_inv (session_manager_init c)"
  by (simp add: sessions_inv_def session_manager_init_def del: replicate_Suc)

lemma sessions_invD:
  assumes "sessions_inv sm"
  shows "length (slot_owners sm) = Suc (max_players (sm_config sm))"
    and "length (slot_owners sm) \<le> 2 ^ 32"
    and "umap_ok (sessions_by_peer sm)" and "umap_ok (slot_by_player_name sm)"
    and "umap_find (sessions_by_peer sm) t = Some s \<Longrightarrow> session_ok sm t s"
    and "i < length (slot_owners sm) \<Longrightarrow> slot_owners sm ! i \<noteq> 0 \<Longrightarrow>
      \<exists>s. umap_find (sessions_by_peer sm) (slot_owners sm ! i) = Some s \<and> unat (sess_player_id s) = i"
    and "umap_find (slot_by_player_name sm) n = Some slot \<Longrightarrow>
      0 < slot \<and> unat slot < length (slot_owners sm)"
  using assms by (auto simp: sessions_inv_def)

lemma admit_fields:
  "admit st slot t n now sm = (r, sm') \<Longrightarrow>
     sm_config sm' = sm_config sm \<and> slot_owners sm' = (slot_owners sm)[unat slot := t]
   \<and> slot_by_player_name sm' = umap_put n slot (slot_by_player_name sm)
   \<and> sessions_by_peer sm' = umap_put t (join_result_session r) (sessions_by_peer sm)
   \<and> join_result_session r = \<lparr>sess_player_id = slot, sess_player_name = n, sess_peer_token = t,
        sess_last_heartbeat = now\<rparr>
   \<and> join_result_status r = st \<and> join_result_error r = JoinErrorNone"
  by (auto simp: admit_def occupy_slot_def Let_def)

lemma free_slot_not_held:
  "sessions_inv sm \<Longrightarrow> slot_is_free sm slot \<Longrightarrow> umap_find (sessions_by_peer sm) t = Some s
     \<Longrightarrow> sess_player_id s \<noteq> slot"
  by (auto simp: slot_is_free_iff session_ok_def dest!: sessions_invD(5))

lemma sessions_inv_admit:
  assumes inv: "sessions_inv sm" and t: "t \<noteq> 0" "umap_find (sessions_by_peer sm) t = None"
    and n: "is_valid_player_name n" and free: "slot_is_free sm slot"
    and names: "umap_find (slot_by_player_name sm) n \<in> {None, Some slot}"
    and r: "admit st slot t n now sm = (r, sm')"
  shows "sessions_inv sm'"
proof -
  note f = admit_fields [OF r] and d = sessions_invD [OF inv]
  from free have slot: "0 < slot" "unat slot < length (slot_owners sm)" "slot_owners sm ! unat slot = 0"
    by (simp_all add: slot_is_free_iff)
  have name: "sess_player_name s \<noteq> n" if s: "umap_find (sessions_by_peer sm) t' = Some s" for t' s
    using d(5) [OF s] names free_slot_not_held [OF inv free s] by (auto simp: session_ok_def)
  have old: "session_ok sm' t' s" if s: "umap_find (sessions_by_peer sm) t' = Some s" for t' s
  proof -
    have "unat (sess_player_id s) \<noteq> unat slot"
      using free_slot_not_held [OF inv free s] by (simp add: word_unat_eq_iff)
    with d(5) [OF s] name [OF s] f show ?thesis
      by (simp add: session_ok_def find_put)
  qed
  show ?thesis
    unfolding sessions_inv_def
  proof (intro conjI allI impI)
    show "session_ok sm' t' s" if "umap_find (sessions_by_peer sm') t' = Some s" for t' s
    proof (cases "t' = t")
      case True
      with that f t n slot show ?thesis by (auto simp: session_ok_def find_put)
    next
      case False
      with that f show ?thesis by (auto simp: find_put intro: old)
    qed
    show "\<exists>s. umap_find (sessions_by_peer sm') (slot_owners sm' ! i) = Some s
        \<and> unat (sess_player_id s) = i"
      if "i < length (slot_owners sm')" "slot_owners sm' ! i \<noteq> 0" for i
    proof (cases "i = unat slot")
      case True
      with f slot show ?thesis by (simp add: find_put)
    next
      case False
      with that f obtain s where "umap_find (sessions_by_peer sm) (slot_owners sm ! i) = Some s"
        "unat (sess_player_id s) = i" using d(6) [of i] by auto
      with False f t show ?thesis by (auto simp: find_put nth_list_update)
    qed
    show "0 < slot'" "unat slot' < length (slot_owners sm')"
      if "umap_find (slot_by_player_name sm') m = Some slot'" for m slot'
      using that f slot d(7) [of m slot'] by (auto simp: find_put split: if_splits)
  qed (use f inv in \<open>auto simp: sessions_inv_def\<close>)
qed

lemma touch_session_ok:
  assumes inv: "sessions_inv sm" and s: "umap_find (sessions_by_peer sm) t = Some s"
  shows "sessions_inv (sm\<lparr>sessions_by_peer := umap_put t (s\<lparr>sess_last_heartbeat := now\<rparr>)
    (sessions_by_peer sm)\<rparr>)" (is "sessions_inv ?sm'")
proof -
  note d = sessions_invD [OF inv]
  have ok: "session_ok ?sm' t' r \<longleftrightarrow> session_ok sm t' r" for t' r
    by (simp add: session_ok_def)
  have "\<exists>r. umap_find (sessions_by_peer ?sm') (slot_owners sm ! i) = Some r
      \<and> unat (sess_player_id r) = i"
    if "i < length (slot_owners sm)" "slot_owners sm ! i \<noteq> 0" for i
    using d(6) [OF that] s by (auto simp: find_put)
  moreover have "session_ok sm t' r" if "umap_find (sessions_by_peer ?sm') t' = Some r" for t' r
    using that d(5) [of t' r] d(5) [OF s] by (auto simp: find_put session_ok_def split: if_splits)
  ultimately show ?thesis
    using inv by (auto simp: sessions_inv_def ok)
qed

lemma join_request_cases:
  assumes "handle_join_request t n now sm = (r, sm')"
  obtains (invalid) "\<not> is_valid_player_name n" "r = reject InvalidPlayerName" "sm' = sm"
  | (other_name) s where "is_valid_player_name n" "umap_find (sessions_by_peer sm) t = Some s"
      "sess_player_name s \<noteq> n" "r = reject NameInUse" "sm' = sm"
  | (already) s where "is_valid_player_name n" "umap_find (sessions_by_peer sm) t = Some s"
      "sess_player_name s = n"
      "r = \<lparr>join_result_status = AlreadyJoined, join_result_error = JoinErrorNone,
         join_result_session = s\<lparr>sess_last_heartbeat := now\<rparr>\<rparr>"
      "sm' = sm\<lparr>sessions_by_peer := umap_put t (s\<lparr>sess_last_heartbeat := now\<rparr>) (sessions_by_peer sm)\<rparr>"
  | (reserved_taken) k where "is_valid_player_name n" "umap_find (sessions_by_peer sm) t = None"
      "umap_find (slot_by_player_name sm) n = Some k" "\<not> slot_is_free sm k"
      "r = reject NameInUse" "sm' = sm"
  | (reconnected) k where "is_valid_player_name n" "umap_find (sessions_by_peer sm) t = None"
      "umap_find (slot_by_player_name sm) n = Some k" "slot_is_free sm k"
      "admit Reconnected k t n now sm = (r, sm')"
  | (full) "is_valid_player_name n" "umap_find (sessions_by_peer sm) t = None"
      "umap_find (slot_by_player_name sm) n = None" "first_free_slot sm = None"
      "r = reject ServerFull" "sm' = sm"
  | (accepted) k where "is_valid_player_name n" "umap_find (sessions_by_peer sm) t = None"
      "umap_find (slot_by_player_name sm) n = None" "first_free_slot sm = Some k"
      "admit JoinAccepted k t n now sm = (r, sm')"
proof (cases "is_valid_player_name n")
  case False
  with assms invalid show ?thesis by (simp add: handle_join_request_def)
next
  case valid: True
  show ?thesis
  proof (cases "umap_find (sessions_by_peer sm) t")
    case (Some s)
    with assms valid other_name already show ?thesis
      by (auto simp: handle_join_request_def Let_def split: if_splits)
  next
    case None
    with assms valid reserved_taken reconnected full accepted show ?thesis
      by (auto simp: handle_join_request_def split: if_splits option.splits)
  qed
qed

lemma sessions_inv_join:
  assumes inv: "sessions_inv sm" and t: "t \<noteq> 0"
  shows "sessions_inv (snd (handle_join_request t n now sm))"
proof -
  obtain r sm' where j: "handle_join_request t n now sm = (r, sm')" by fastforce
  from j have "sessions_inv sm'"
  proof (cases rule: join_request_cases)
    case (reconnected k)
    with sessions_inv_admit [OF inv t] show ?thesis by auto
  next
    case (accepted k)
    with first_free_slot_Some [OF accepted(4) sessions_invD(2) [OF inv]]
      sessions_inv_admit [OF inv t] show ?thesis by auto
  qed (use inv in \<open>auto intro: touch_session_ok\<close>)
  with j show ?thesis by simp
qed

lemma sessions_inv_heartbeat: "sessions_inv sm \<Longrightarrow> sessions_inv (snd (handle_heartbeat t now sm))"
  by (auto simp: handle_heartbeat_def touch_session_ok split: option.split)

lemma disconnect_fields:
  assumes inv: "sessions_inv sm" and s: "umap_find (sessions_by_peer sm) t = Some s"
  shows "handle_disconnect t sm = (Some s, sm\<lparr>slot_owners := (slot_owners sm)[unat (sess_player_id s) := 0],
    sessions_by_peer := umap_erase t (sessions_by_peer sm)\<rparr>)"
  using sessions_invD(5) [OF inv s] s
  by (auto simp: handle_disconnect_def release_slot_def session_ok_def)

lemma sessions_inv_disconnect:
  assumes inv: "sessions_inv sm"
  shows "sessions_inv (snd (handle_disconnect t sm))"
proof (cases "umap_find (sessions_by_peer sm) t")
  case None
  with inv show ?thesis by (simp add: handle_disconnect_def)
next
  case (Some s)
  note d = sessions_invD [OF inv] and f = disconnect_fields [OF inv Some]
  let ?sm = "sm\<lparr>slot_owners := (slot_owners sm)[unat (sess_player_id s) := 0],
    sessions_by_peer := umap_erase t (sessions_by_peer sm)\<rparr>"
  have ok: "session_ok ?sm t' r" if "umap_find (sessions_by_peer ?sm) t' = Some r" for t' r
    using that d(5) [of t' r] d(5) [OF Some]
    by (auto simp: find_erase session_ok_def nth_list_update split: if_splits)
  have "\<exists>r. umap_find (sessions_by_peer ?sm) (slot_owners ?sm ! i) = Some r
      \<and> unat (sess_player_id r) = i"
    if i: "i < length (slot_owners ?sm)" "slot_owners ?sm ! i \<noteq> 0" for i
  proof -
    from i have ne: "i \<noteq> unat (sess_player_id s)" by auto
    with i d(6) [of i] obtain r where r: "umap_find (sessions_by_peer sm) (slot_owners sm ! i) = Some r"
      "unat (sess_player_id r) = i" by auto
    moreover have "slot_owners sm ! i \<noteq> t" using r ne Some by auto
    ultimately show ?thesis using ne by (auto simp: find_erase)
  qed
  with ok have "sessions_inv ?sm"
    using d(1,3,4,7) inv unfolding sessions_inv_def by (intro conjI allI impI) auto
  with f show ?thesis by simp
qed

lemma disconnect_all_snd: "snd (disconnect_all ts sm) = fold (\<lambda>t sm. snd (handle_disconnect t sm)) ts sm"
proof (induction ts arbitrary: sm)
  case (Cons t ts)
  show ?case by (simp add: Cons.IH [symmetric] case_prod_beta)
qed simp

lemma disconnect_config: "sm_config (snd (handle_disconnect t sm)) = sm_config sm"
  by (simp add: handle_disconnect_def release_slot_def split: option.split)

lemma collect_config: "sm_config (snd (collect_timed_out now sm)) = sm_config sm"
  unfolding collect_timed_out_def disconnect_all_snd by (rule fold_unchanged) (rule disconnect_config)

lemma sessions_inv_collect: "sessions_inv sm \<Longrightarrow> sessions_inv (snd (collect_timed_out now sm))"
  unfolding collect_timed_out_def disconnect_all_snd
  by (rule fold_preserves) (auto intro: sessions_inv_disconnect)

interpretation sm_machine: component
  "\<lambda>sm. \<exists>c. max_players c < 2 ^ 32 - 1 \<and> sm = session_manager_init c"
  session_exec session_legal sessions_inv
proof unfold_locales
  show "sessions_inv (session_exec opn sm)" if "sessions_inv sm" "session_legal opn" for sm opn
    using that by (cases opn) (auto intro: sessions_inv_join sessions_inv_heartbeat
      sessions_inv_disconnect sessions_inv_collect)
qed (auto intro: sessions_inv_init)

subsection \<open>Timeouts\<close>

definition timed_out :: "int \<Rightarrow> session_manager \<Rightarrow> session_record \<Rightarrow> bool" where
  "timed_out now sm s \<longleftrightarrow> heartbeat_timeout (sm_config sm) < now - sess_last_heartbeat s"

lemma disconnect_all_effect:
  assumes "sessions_inv sm" and "distinct ts" and "set ts \<subseteq> set (umap_keys (sessions_by_peer sm))"
  shows "fst (disconnect_all ts sm) = map (\<lambda>t. the (umap_find (sessions_by_peer sm) t)) ts
    \<and> sessions_by_peer (snd (disconnect_all ts sm)) =
        filter (\<lambda>p. fst p \<notin> set ts) (sessions_by_peer sm)"
  using assms
proof (induction ts arbitrary: sm)
  case (Cons t ts)
  then have "t \<in> set (umap_keys (sessions_by_peer sm))" by simp
  then obtain s where s: "umap_find (sessions_by_peer sm) t = Some s"
    by (metis map_of_eq_None_iff not_Some_eq list.set_map)
  note f = disconnect_fields [OF Cons.prems(1) s]
  let ?sm = "snd (handle_disconnect t sm)"
  have m: "sessions_by_peer ?sm = filter (\<lambda>p. fst p \<noteq> t) (sessions_by_peer sm)"
    using f by (auto simp: AList.delete_eq case_prod_beta' intro!: filter_cong)
  have keys: "set ts \<subseteq> set (umap_keys (sessions_by_peer ?sm))"
    using Cons.prems unfolding m by (fastforce simp: image_iff)
  have find: "umap_find (sessions_by_peer ?sm) u = umap_find (sessions_by_peer sm) u" if "u \<in> set ts" for u
    using f that Cons.prems(2) by (auto simp: find_erase)
  have "sessions_inv ?sm" using Cons.prems(1) by (rule sessions_inv_disconnect)
  with Cons.IH [of ?sm] Cons.prems(2) keys
  have ih: "fst (disconnect_all ts ?sm) = map (\<lambda>u. the (umap_find (sessions_by_peer ?sm) u)) ts"
    "sessions_by_peer (snd (disconnect_all ts ?sm)) =
      filter (\<lambda>p. fst p \<notin> set ts) (sessions_by_peer ?sm)" by simp_all
  have "fst (disconnect_all (t # ts) sm) = s # fst (disconnect_all ts ?sm)"
    "snd (disconnect_all (t # ts) sm) = snd (disconnect_all ts ?sm)"
    using f by (simp_all add: case_prod_beta)
  with ih s find show ?case by (auto simp: m intro!: filter_cong)
qed simp

lemma timed_out_peers_eq:
  "timed_out_peers now sm = map fst (filter (timed_out now sm \<circ> snd) (sessions_by_peer sm))"
  by (simp add: timed_out_peers_def timed_out_def [abs_def] comp_def case_prod_beta')

lemma collect_timed_out_sessions:
  assumes inv: "sessions_inv sm"
  shows "fst (collect_timed_out now sm) = map snd (filter (timed_out now sm \<circ> snd) (sessions_by_peer sm))"
    and "sessions_by_peer (snd (collect_timed_out now sm)) =
      filter (\<lambda>p. \<not> timed_out now sm (snd p)) (sessions_by_peer sm)"
proof -
  let ?ts = "timed_out_peers now sm"
  have ok: "umap_ok (sessions_by_peer sm)" by (rule sessions_invD(3) [OF inv])
  then have "distinct ?ts" unfolding timed_out_peers_eq by (rule distinct_map_filter)
  moreover have "set ?ts \<subseteq> set (umap_keys (sessions_by_peer sm))"
    by (auto simp: timed_out_peers_eq)
  ultimately have e: "fst (disconnect_all ?ts sm) = map (\<lambda>t. the (umap_find (sessions_by_peer sm) t)) ?ts"
    "sessions_by_peer (snd (disconnect_all ?ts sm)) = filter (\<lambda>p. fst p \<notin> set ?ts) (sessions_by_peer sm)"
    using disconnect_all_effect [OF inv] by blast+
  have "the (umap_find (sessions_by_peer sm) (fst p)) = snd p" if "p \<in> set (sessions_by_peer sm)" for p
    using that map_of_is_SomeI [OF ok, of "fst p" "snd p"] by simp
  then show "fst (collect_timed_out now sm) =
      map snd (filter (timed_out now sm \<circ> snd) (sessions_by_peer sm))"
    unfolding collect_timed_out_def e(1) by (simp add: timed_out_peers_eq)
  have "fst p \<in> set ?ts \<longleftrightarrow> timed_out now sm (snd p)" if p: "p \<in> set (sessions_by_peer sm)" for p
  proof -
    have "q = p" if "q \<in> set (sessions_by_peer sm)" "fst q = fst p" for q
      using eq_key_imp_eq_value [OF ok, of "fst p" "snd p" "snd q"] p that by (cases p; cases q) simp
    with p show ?thesis by (force simp: timed_out_peers_eq)
  qed
  then show "sessions_by_peer (snd (collect_timed_out now sm)) =
      filter (\<lambda>p. \<not> timed_out now sm (snd p)) (sessions_by_peer sm)"
    unfolding collect_timed_out_def e(2) by (intro filter_cong) simp_all
qed

subsection \<open>Listing\<close>

interpretation session_order: key_order session_less "\<lambda>s. (sess_player_id s, sess_peer_token s)"
  by unfold_locales (simp add: session_less_def lex_less_2)

lemma session_ids_unique:
  "sessions_inv sm \<Longrightarrow> umap_find (sessions_by_peer sm) t = Some s \<Longrightarrow>
   umap_find (sessions_by_peer sm) t' = Some s' \<Longrightarrow> sess_player_id s = sess_player_id s' \<Longrightarrow> t = t'"
  by (frule (1) sessions_invD(5) [of sm t], frule (1) sessions_invD(5) [of sm t']) (simp add: session_ok_def)

lemma session_names_unique:
  "sessions_inv sm \<Longrightarrow> umap_find (sessions_by_peer sm) t = Some s \<Longrightarrow>
   umap_find (sessions_by_peer sm) t' = Some s' \<Longrightarrow> sess_player_name s = sess_player_name s' \<Longrightarrow> t = t'"
  by (frule (1) sessions_invD(5) [of sm t], frule (1) sessions_invD(5) [of sm t']) (simp add: session_ok_def)

lemma active_count_le:
  assumes "sessions_inv sm"
  shows "active_count sm \<le> sm_capacity sm"
proof -
  note d = sessions_invD [OF assms]
  let ?id = "\<lambda>p. unat (sess_player_id (snd p))" and ?m = "sessions_by_peer sm"
  have s: "session_ok sm (fst p) (snd p)" if "p \<in> set ?m" for p
    using that d(5) [of "fst p" "snd p"] map_of_is_SomeI [OF d(3), of "fst p" "snd p"] by simp
  have "inj_on ?id (set ?m)"
  proof (rule inj_onI)
    fix p q assume p: "p \<in> set ?m" and q: "q \<in> set ?m" and "?id p = ?id q"
    with s [OF p] s [OF q] have "fst p = fst q" by (simp add: session_ok_def)
    with eq_key_imp_eq_value [OF d(3), of "fst p" "snd p" "snd q"] p q show "p = q"
      by (cases p; cases q) simp
  qed
  moreover have "distinct ?m" using d(3) by (simp add: distinct_map)
  ultimately have "card (?id ` set ?m) = length ?m"
    by (simp add: card_image distinct_card)
  moreover have "?id p \<in> {1..sm_capacity sm}" if "p \<in> set ?m" for p
    using s [OF that] d(1) by (simp add: session_ok_def sm_capacity_def unat_gt_0 Suc_le_eq word_neq_0_conv)
  then have "?id ` set ?m \<subseteq> {1..sm_capacity sm}" by blast
  then have "card (?id ` set ?m) \<le> sm_capacity sm"
    using card_mono [of "{1..sm_capacity sm}" "?id ` set ?m"] by simp
  ultimately show ?thesis by (simp add: active_count_def)
qed

section \<open>Properties\<close>

text \<open>C15: After any sequence of joins, heartbeats, disconnects and timeout sweeps, two different
  active sessions never share a player id or a player name; every id is a slot from 1 to
  \<open>max_players\<close>, every name is well formed, and there are at most \<open>max_players\<close> sessions.\<close>

theorem sessions_exclusive:
  assumes "max_players c < 2 ^ 32 - 1" and "\<forall>call \<in> set calls. session_legal call"
    and "sm = fold session_exec calls (session_manager_init c)"
  shows "(\<forall>t t' s s'. session_for_peer sm t = Some s \<longrightarrow> session_for_peer sm t' = Some s' \<longrightarrow> t \<noteq> t' \<longrightarrow>
        sess_player_id s \<noteq> sess_player_id s' \<and> sess_player_name s \<noteq> sess_player_name s')
    \<and> (\<forall>t s. session_for_peer sm t = Some s \<longrightarrow> sess_peer_token s = t
        \<and> 1 \<le> unat (sess_player_id s) \<and> unat (sess_player_id s) \<le> sm_capacity sm
        \<and> is_valid_player_name (sess_player_name s))
    \<and> active_count sm \<le> sm_capacity sm"
proof -
  have inv: "sessions_inv sm"
    using sm_machine.run [of "session_manager_init c" calls] assms by auto
  have ok: "session_ok sm t s" if "session_for_peer sm t = Some s" for t s
    using sessions_invD(5) [OF inv] that by (simp add: session_for_peer_def)
  have range: "1 \<le> unat (sess_player_id s) \<and> unat (sess_player_id s) \<le> sm_capacity sm"
    if "session_for_peer sm t = Some s" for t s
    using ok [OF that] sessions_invD(1) [OF inv]
    by (simp add: session_ok_def sm_capacity_def unat_gt_0 Suc_le_eq word_neq_0_conv)
  show ?thesis
    using session_ids_unique [OF inv] session_names_unique [OF inv] ok range active_count_le [OF inv]
    by (auto simp: session_for_peer_def session_ok_def)
qed

definition two_player_calls :: "session_call list" where
  "two_player_calls = [CallJoin 11 ''ann'' 0, CallJoin 12 ''bob'' 1, CallHeartbeat 11 5]"

definition two_players :: session_manager where
  "two_players = fold session_exec two_player_calls
     (session_manager_init \<lparr>max_players = 2, heartbeat_timeout = 3\<rparr>)"

lemma two_player_calls_legal: "\<forall>call \<in> set two_player_calls. session_legal call"
  by (simp add: two_player_calls_def)

lemma sessions_inv_two_players: "sessions_inv two_players"
  unfolding two_players_def
  by (rule sm_machine.run [OF _ two_player_calls_legal])
    (rule exI [of _ "\<lparr>max_players = 2, heartbeat_timeout = 3\<rparr>"], simp)

lemma sessions_exclusive_witness:
  "active_count two_players = 2 \<and> active_count two_players \<le> sm_capacity two_players"
proof
  show "active_count two_players = 2" by code_simp
  show "active_count two_players \<le> sm_capacity two_players"
    using sessions_exclusive [OF _ two_player_calls_legal two_players_def] by simp
qed

definition all_slots_held :: "session_manager \<Rightarrow> bool" where
  "all_slots_held sm \<longleftrightarrow> (\<forall>k \<in> {1..sm_capacity sm}. \<exists>t s. session_for_peer sm t = Some s
     \<and> unat (sess_player_id s) = k)"

lemma all_slots_held_iff:
  assumes inv: "sessions_inv sm"
  shows "first_free_slot sm = None \<longleftrightarrow> all_slots_held sm"
  unfolding all_slots_held_def
proof
  note d = sessions_invD [OF inv]
  show "\<forall>k \<in> {1..sm_capacity sm}. \<exists>t s. session_for_peer sm t = Some s \<and> unat (sess_player_id s) = k"
    if none: "first_free_slot sm = None"
  proof
    fix k assume "k \<in> {1..sm_capacity sm}"
    then have "0 < k" "k < length (slot_owners sm)" using d(1) by (auto simp: sm_capacity_def)
    with d(6) [of k] first_free_slot_None [OF none] show
      "\<exists>t s. session_for_peer sm t = Some s \<and> unat (sess_player_id s) = k"
      by (auto simp: session_for_peer_def)
  qed
  show "first_free_slot sm = None"
    if all: "\<forall>k \<in> {1..sm_capacity sm}. \<exists>t s. session_for_peer sm t = Some s \<and> unat (sess_player_id s) = k"
  proof (rule ccontr)
    assume "first_free_slot sm \<noteq> None"
    then obtain slot where "first_free_slot sm = Some slot" by blast
    from first_free_slot_Some [OF this d(2)] have free: "slot_is_free sm slot" by simp
    then have "unat slot \<in> {1..sm_capacity sm}"
      using d(1) by (simp add: slot_is_free_iff sm_capacity_def unat_gt_0 Suc_le_eq word_neq_0_conv)
    with all obtain t s where "session_for_peer sm t = Some s" "unat (sess_player_id s) = unat slot"
      by blast
    with free_slot_not_held [OF inv free] show False
      by (auto simp: session_for_peer_def word_unat_eq_iff)
  qed
qed

text \<open>C30: A rejected join changes nothing, and the server reports that it is full exactly when the
  name is well formed and unknown, the peer is new, and each of the slots 1 to \<open>max_players\<close> is held
  by an active session. An accepted join creates the session under that peer and name in the
  lowest slot that is free.\<close>

theorem join_outcome:
  assumes "sessions_inv sm" and "handle_join_request t n now sm = (r, sm')"
  shows "(\<not> join_accepted r \<longrightarrow> sm' = sm)
    \<and> (join_result_error r = ServerFull \<longleftrightarrow> is_valid_player_name n \<and> session_for_peer sm t = None
        \<and> umap_find (slot_by_player_name sm) n = None \<and> all_slots_held sm)
    \<and> (join_result_status r = JoinAccepted \<longrightarrow> session_for_peer sm' t = Some (join_result_session r)
        \<and> join_result_session r = \<lparr>sess_player_id = sess_player_id (join_result_session r),
            sess_player_name = n, sess_peer_token = t, sess_last_heartbeat = now\<rparr>
        \<and> slot_is_free sm (sess_player_id (join_result_session r))
        \<and> (\<forall>j. 0 < j \<longrightarrow> j < unat (sess_player_id (join_result_session r)) \<longrightarrow>
             slot_owners sm ! j \<noteq> 0))"
proof -
  have free: "slot_is_free sm slot \<and> (\<forall>j. 0 < j \<longrightarrow> j < unat slot \<longrightarrow> slot_owners sm ! j \<noteq> 0)"
    if "first_free_slot sm = Some slot" for slot
    by (rule first_free_slot_Some [OF that sessions_invD(2) [OF assms(1)]])
  note held = all_slots_held_iff [OF assms(1), symmetric] session_for_peer_def
  from assms(2) show ?thesis
  proof (cases rule: join_request_cases)
    case (reconnected k)
    with admit_fields [OF reconnected(5)] show ?thesis by (auto simp: join_accepted_def held)
  next
    case (accepted k)
    with admit_fields [OF accepted(5)] free show ?thesis
      unfolding held by (simp add: join_accepted_def find_put)
  next
    case full
    then show ?thesis unfolding held by (simp add: reject_def join_accepted_def)
  qed (simp_all add: reject_def join_accepted_def session_for_peer_def)
qed

lemma join_outcome_witness:
  "sm_capacity two_players = 2 \<and> all_slots_held two_players"
proof -
  have full: "handle_join_request 13 ''cyd'' 9 two_players = (reject ServerFull, two_players)"
    and cap: "sm_capacity two_players = 2" by code_simp+
  show ?thesis
    using join_outcome [OF sessions_inv_two_players full] cap by (simp add: reject_def)
qed

text \<open>A player who disconnects and joins again under the same name before anybody took the slot,
  from any peer address that has no session, is reconnected with the player id held before.\<close>

theorem reconnect_keeps_player_id:
  assumes "sessions_inv sm" and "session_for_peer sm t = Some s"
    and "session_for_peer sm t' = None \<or> t' = t"
  shows "let (r, sm') = handle_join_request t' (sess_player_name s) now (snd (handle_disconnect t sm))
    in join_result_status r = Reconnected
     \<and> session_for_peer sm' t' = Some (s\<lparr>sess_peer_token := t', sess_last_heartbeat := now\<rparr>)
     \<and> (t' \<noteq> t \<longrightarrow> session_for_peer sm' t = None)
     \<and> active_count sm' = active_count sm"
proof -
  have s: "umap_find (sessions_by_peer sm) t = Some s" using assms(2) by (simp add: session_for_peer_def)
  note ok = sessions_invD(5) [OF assms(1) s, unfolded session_ok_def]
    and f = disconnect_fields [OF assms(1) s]
  let ?sm = "snd (handle_disconnect t sm)"
  have none: "umap_find (sessions_by_peer ?sm) t' = None"
    using assms(3) f by (auto simp: find_erase session_for_peer_def)
  have name: "umap_find (slot_by_player_name ?sm) (sess_player_name s) = Some (sess_player_id s)"
    and free: "slot_is_free ?sm (sess_player_id s)"
    using ok f by (simp_all add: slot_is_free_iff)
  obtain r sm' where a: "admit Reconnected (sess_player_id s) t' (sess_player_name s) now ?sm = (r, sm')"
    by fastforce
  have join: "handle_join_request t' (sess_player_name s) now ?sm = (r, sm')"
    using none name free ok a by (simp add: handle_join_request_def)
  have "t \<in> set (umap_keys (sessions_by_peer sm))" using s by (force dest: map_of_SomeD)
  with sessions_invD(3) [OF assms(1)]
  have "Suc (length (umap_erase t (sessions_by_peer sm))) = length (sessions_by_peer sm)"
    by (rule length_erase)
  moreover have "t' \<notin> set (umap_keys (sessions_by_peer ?sm))"
    using none by (simp add: map_of_eq_None_iff)
  ultimately have "active_count sm' = active_count sm"
    using admit_fields [OF a] f by (simp add: active_count_def length_put)
  with join admit_fields [OF a] f show ?thesis
    by (auto simp: session_for_peer_def find_put find_erase)
qed

lemma reconnect_keeps_player_id_witness:
  "let s = \<lparr>sess_player_id = 2, sess_player_name = ''bob'', sess_peer_token = 12, sess_last_heartbeat = 1\<rparr>;
       (r, sm') = handle_join_request 77 (sess_player_name s) 9 (snd (handle_disconnect 12 two_players))
   in join_result_status r = Reconnected \<and> active_count sm' = active_count two_players"
proof -
  let ?s = "\<lparr>sess_player_id = 2, sess_player_name = ''bob'', sess_peer_token = 12, sess_last_heartbeat = 1\<rparr>"
  have "session_for_peer two_players 12 = Some ?s" "session_for_peer two_players 77 = None"
    by code_simp+
  with reconnect_keeps_player_id [OF sessions_inv_two_players, of 12 ?s 77 9] show ?thesis
    by (auto simp: Let_def split: prod.splits)
qed

text \<open>A timeout sweep removes exactly the sessions that were silent for longer than the timeout:
  it returns those sessions, keeps every other one, and frees the slot of each removed one.
  The bucket order of the session table has no influence on which sessions go.\<close>

theorem collect_timed_out_exact:
  assumes "sessions_inv sm" and "collect_timed_out now sm = (gone, sm')"
  shows "(\<forall>t. session_for_peer sm' t = (case session_for_peer sm t of None \<Rightarrow> None
      | Some s \<Rightarrow> if heartbeat_timeout (sm_config sm) < now - sess_last_heartbeat s then None else Some s))
    \<and> mset gone = mset (filter (\<lambda>s. heartbeat_timeout (sm_config sm) < now - sess_last_heartbeat s)
        (map snd (sessions_by_peer sm)))
    \<and> (\<forall>s \<in> set gone. slot_is_free sm' (sess_player_id s))
    \<and> active_count sm' + length gone = active_count sm"
proof -
  note c = collect_timed_out_sessions [OF assms(1), of now] and ok = sessions_invD(3) [OF assms(1)]
  have inv': "sessions_inv sm'" using sessions_inv_collect [OF assms(1), of now] assms(2) by simp
  have gone: "gone = filter (timed_out now sm) (map snd (sessions_by_peer sm))"
    and rest: "sessions_by_peer sm' = filter (\<lambda>p. \<not> timed_out now sm (snd p)) (sessions_by_peer sm)"
    using c assms(2) by (simp_all add: filter_map)
  have ok': "umap_ok (sessions_by_peer sm')" by (rule sessions_invD(3) [OF inv'])
  have find: "session_for_peer sm' t = Some s \<longleftrightarrow> session_for_peer sm t = Some s \<and> \<not> timed_out now sm s"
    for t s
    unfolding session_for_peer_def in_set_find [OF ok, symmetric] in_set_find [OF ok', symmetric]
    by (auto simp: rest)
  have "session_for_peer sm' t = (case session_for_peer sm t of None \<Rightarrow> None
      | Some s \<Rightarrow> if timed_out now sm s then None else Some s)" for t
  proof (cases "session_for_peer sm t")
    case None
    then have "session_for_peer sm' t = None" using find [of t] by (metis not_None_eq option.distinct(1))
    with None show ?thesis by simp
  next
    case (Some s)
    then show ?thesis using find [of t s] find [of t] 
      by (cases "timed_out now sm s") (simp, metis not_None_eq option.inject, simp)
  qed
  moreover have "slot_is_free sm' (sess_player_id s)" if s: "s \<in> set gone" for s
  proof (rule ccontr)
    assume held: "\<not> slot_is_free sm' (sess_player_id s)"
    from s obtain t where t: "umap_find (sessions_by_peer sm) t = Some s" and old: "timed_out now sm s"
      by (auto simp: gone in_set_find [OF ok])
    note k = sessions_invD(5) [OF assms(1) t, unfolded session_ok_def]
    have "sm_config sm' = sm_config sm"
      using collect_config [of now sm] assms(2) by simp
    then have len: "length (slot_owners sm') = length (slot_owners sm)"
      using sessions_invD(1) [OF assms(1)] sessions_invD(1) [OF inv'] by simp
    with held k obtain s' t' where s': "umap_find (sessions_by_peer sm') t' = Some s'"
      "sess_player_id s' = sess_player_id s"
      using sessions_invD(6) [OF inv', of "unat (sess_player_id s)"]
      by (auto simp: slot_is_free_iff word_unat_eq_iff)
    with find [of t' s'] have "t' = t" "\<not> timed_out now sm s'"
      using session_ids_unique [OF assms(1) _ t] by (auto simp: session_for_peer_def)
    with s'(1) t old find [of t' s'] show False by (simp add: session_for_peer_def)
  qed
  moreover have "length gone + length (sessions_by_peer sm') = length (sessions_by_peer sm)"
    unfolding gone rest by (simp only: filter_map length_map comp_def sum_length_filter_compl)
  ultimately show ?thesis
    unfolding gone active_count_def timed_out_def [abs_def] by simp
qed

lemma collect_timed_out_exact_witness:
  "let (gone, sm') = collect_timed_out 6 two_players
   in map sess_player_name gone = [''bob''] \<and> active_count sm' + length gone = active_count two_players"
proof -
  have "map sess_player_name (fst (collect_timed_out 6 two_players)) = [''bob'']" by code_simp
  then show ?thesis
    using collect_timed_out_exact [OF sessions_inv_two_players, of 6]
    by (auto simp: Let_def split: prod.splits)
qed

text \<open>A name reserves its slot for ever, also when the slot has gone to somebody else. With two
  slots: ann joins (slot 1) and leaves, bob takes slot 1. Now ann is refused as \<open>name_in_use\<close>
  although no session has her name and slot 2 is free.\<close>

theorem stale_reservation_refuses_join:
  "let sm0 = session_manager_init \<lparr>max_players = 2, heartbeat_timeout = 3\<rparr>;
       sm1 = snd (handle_join_request 11 ''ann'' 0 sm0);
       sm2 = snd (handle_disconnect 11 sm1);
       sm3 = snd (handle_join_request 12 ''bob'' 1 sm2)
   in handle_join_request 13 ''ann'' 2 sm3 = (reject NameInUse, sm3)
      \<and> map sess_player_name (active_sessions sm3) = [''bob'']
      \<and> slot_is_free sm3 2"
  by code_simp

end
