(* ===== verification/Tick_Loop.thy ===== *)
theory Tick_Loop
  imports Seq_Queue Floating
begin

text \<open>
  The fixed-rate loop of the server (server/AuthoritativeLoop.h, server/src/AuthoritativeLoop.cpp):
  it queues the inputs of the players and turns elapsed time into tick frames. Time points and
  intervals are nanoseconds. \<open>advance\<close> is a loop that ends because the interval is positive; it is
  a partial function here, so that its ending is a theorem (\<open>advance_frames\<close>).
\<close>

section \<open>Data\<close>

record runtime_config =
  tick_rate_hz :: u32
  input_queue_capacity :: nat
  snapshot_interval_ticks :: u32

record player_input =
  inp_player_id :: u32
  inp_seq :: u32
  inp_move_x :: fp
  inp_move_y :: fp
  inp_jump :: bool
  inp_fire :: bool
  inp_received_at :: int
  inp_sprint :: bool
  inp_crouch :: bool

datatype input_enqueue_status = InputAccepted | InputQueueFull | InputOutOfOrder

record tick_frame =
  frame_tick :: u64
  frame_inputs :: "player_input list"
  frame_snapshot_due :: bool

record auth_loop =
  al_config :: runtime_config
  al_tick_interval :: int
  al_next_deadline :: int
  al_tick_counter :: u64
  al_pending :: nat
  al_queues :: "player_input queues"
  al_last_seq :: "(u32, u32) umap"

section \<open>Operations\<close>

definition sanitize_runtime_config :: "runtime_config \<Rightarrow> runtime_config" where
  "sanitize_runtime_config c =
     (let c1 = (if tick_rate_hz c = 0 then c\<lparr>tick_rate_hz := 30\<rparr> else c);
          c2 = (if input_queue_capacity c1 = 0 then c1\<lparr>input_queue_capacity := 1\<rparr> else c1)
      in if snapshot_interval_ticks c2 = 0 then c2\<lparr>snapshot_interval_ticks := 1\<rparr> else c2)"

definition auth_loop_reset :: "int \<Rightarrow> auth_loop \<Rightarrow> auth_loop" where
  "auth_loop_reset start l = l\<lparr>al_tick_counter := 0, al_pending := 0, al_queues := [],
     al_last_seq := [], al_next_deadline := start + al_tick_interval l\<rparr>"

definition auth_loop_init :: "runtime_config \<Rightarrow> int \<Rightarrow> auth_loop" where
  "auth_loop_init c start =
     (let config = sanitize_runtime_config c;
          interval = c_div 1000000000 (uint (tick_rate_hz config));
          interval = (if interval \<le> 0 then 1 else interval)
      in auth_loop_reset start \<lparr>al_config = config, al_tick_interval = interval,
           al_next_deadline = 0, al_tick_counter = 0, al_pending = 0, al_queues = [],
           al_last_seq = []\<rparr>)"

definition enqueue_input :: "player_input \<Rightarrow> auth_loop \<Rightarrow> input_enqueue_status \<times> auth_loop" where
  "enqueue_input i l =
     (if (case umap_find (al_last_seq l) (inp_player_id i) of
            Some newest \<Rightarrow> inp_seq i \<le> newest | None \<Rightarrow> False)
      then (InputOutOfOrder, l)
      else if (case umap_find (al_queues l) (inp_player_id i) of
            Some q \<Rightarrow> q \<noteq> [] \<and> inp_seq i \<le> inp_seq (last q) | None \<Rightarrow> False)
      then (InputOutOfOrder, l)
      else if input_queue_capacity (al_config l) \<le> al_pending l then (InputQueueFull, l)
      else (InputAccepted, l\<lparr>
        al_queues := umap_put (inp_player_id i)
          (queue_for (al_queues l) (inp_player_id i) @ [i]) (al_queues l),
        al_last_seq := umap_put (inp_player_id i) (inp_seq i) (al_last_seq l),
        al_pending := al_pending l + 1\<rparr>))"

definition clear_player :: "u32 \<Rightarrow> auth_loop \<Rightarrow> auth_loop" where
  "clear_player p l =
     (let l1 = (case umap_find (al_queues l) p of
          None \<Rightarrow> l
        | Some q \<Rightarrow> l\<lparr>al_pending := al_pending l - length q, al_queues := umap_erase p (al_queues l)\<rparr>)
      in l1\<lparr>al_last_seq := umap_erase p (al_last_seq l1)\<rparr>)"

definition drain_inputs :: "auth_loop \<Rightarrow> player_input list \<times> auth_loop" where
  "drain_inputs l = (case drain_by_player (al_queues l) of (drained, qs) \<Rightarrow>
     (drained, l\<lparr>al_queues := qs, al_pending := al_pending l - length drained\<rparr>))"

definition run_tick :: "auth_loop \<Rightarrow> tick_frame \<times> auth_loop" where
  "run_tick l =
     (let l1 = l\<lparr>al_tick_counter := al_tick_counter l + 1\<rparr>;
          (inputs, l2) = drain_inputs l1;
          frame = \<lparr>frame_tick = al_tick_counter l1, frame_inputs = inputs,
            frame_snapshot_due =
              al_tick_counter l1 mod ucast (snapshot_interval_ticks (al_config l1)) = 0\<rparr>
      in (frame, l2\<lparr>al_next_deadline := al_next_deadline l2 + al_tick_interval l2\<rparr>))"

partial_function (option) advance :: "int \<Rightarrow> auth_loop \<Rightarrow> (tick_frame list \<times> auth_loop) option" where
  [code]: "advance now l =
     (if al_next_deadline l \<le> now
      then Option.bind (advance now (snd (run_tick l)))
        (\<lambda>(frames, l'). Some (fst (run_tick l) # frames, l'))
      else Some ([], l))"

fun input_enqueue_status_to_string :: "input_enqueue_status \<Rightarrow> string" where
  "input_enqueue_status_to_string InputAccepted = ''accepted''"
| "input_enqueue_status_to_string InputQueueFull = ''queue_full''"
| "input_enqueue_status_to_string InputOutOfOrder = ''out_of_order''"

section \<open>The invariant\<close>

definition loop_inv :: "auth_loop \<Rightarrow> bool" where
  "loop_inv l \<longleftrightarrow> umap_ok (al_queues l) \<and> umap_ok (al_last_seq l)
     \<and> al_pending l = queued_total (al_queues l)
     \<and> al_pending l \<le> input_queue_capacity (al_config l)
     \<and> 1 \<le> al_tick_interval l \<and> snapshot_interval_ticks (al_config l) \<noteq> 0"

lemma sanitize_runtime_config_ok:
  "tick_rate_hz (sanitize_runtime_config c) \<noteq> 0
   \<and> 1 \<le> input_queue_capacity (sanitize_runtime_config c)
   \<and> snapshot_interval_ticks (sanitize_runtime_config c) \<noteq> 0"
  by (simp add: sanitize_runtime_config_def Let_def)

lemma loop_inv_reset:
  "loop_inv l \<Longrightarrow> loop_inv (auth_loop_reset start l)"
  by (simp add: loop_inv_def auth_loop_reset_def)

lemma loop_inv_init: "loop_inv (auth_loop_init c start)"
  using sanitize_runtime_config_ok [of c]
  by (simp add: loop_inv_def auth_loop_init_def auth_loop_reset_def Let_def)

lemma enqueue_input_cases:
  assumes "enqueue_input i l = (st, l')"
  obtains (rejected) "st \<noteq> InputAccepted" "l' = l"
  | (accepted) "st = InputAccepted" "al_pending l < input_queue_capacity (al_config l)"
      "\<And>s. umap_find (al_last_seq l) (inp_player_id i) = Some s \<Longrightarrow> s < inp_seq i"
      "l' = l\<lparr>al_queues := umap_put (inp_player_id i)
          (queue_for (al_queues l) (inp_player_id i) @ [i]) (al_queues l),
        al_last_seq := umap_put (inp_player_id i) (inp_seq i) (al_last_seq l),
        al_pending := al_pending l + 1\<rparr>"
proof -
  let ?stale = "case umap_find (al_last_seq l) (inp_player_id i) of
    Some newest \<Rightarrow> inp_seq i \<le> newest | None \<Rightarrow> False"
  show ?thesis
  proof (cases "st = InputAccepted")
    case True
    then have "\<not> ?stale" and "al_pending l < input_queue_capacity (al_config l)"
      and l': "l' = l\<lparr>al_queues := umap_put (inp_player_id i)
          (queue_for (al_queues l) (inp_player_id i) @ [i]) (al_queues l),
        al_last_seq := umap_put (inp_player_id i) (inp_seq i) (al_last_seq l),
        al_pending := al_pending l + 1\<rparr>"
      using assms by (simp_all add: enqueue_input_def split: if_split_asm)
    then show ?thesis using True by (intro accepted) (simp_all add: not_le)
  next
    case False
    with assms show ?thesis
      by (intro rejected) (simp_all add: enqueue_input_def split: if_split_asm)
  qed
qed

lemma loop_inv_enqueue:
  assumes "loop_inv l"
  shows "loop_inv (snd (enqueue_input i l))"
proof -
  obtain st l' where e: "enqueue_input i l = (st, l')" by fastforce
  from e have "loop_inv l'"
  proof (cases rule: enqueue_input_cases)
    case accepted
    with assms queued_total_push [of "al_queues l" "inp_player_id i" i] show ?thesis
      by (simp add: loop_inv_def)
  qed (use assms in simp)
  with e show ?thesis by simp
qed

lemma loop_inv_clear:
  assumes "loop_inv l"
  shows "loop_inv (clear_player p l)"
proof (cases "umap_find (al_queues l) p")
  case None
  with assms show ?thesis by (simp add: clear_player_def loop_inv_def)
next
  case (Some q)
  from assms have ok: "umap_ok (al_queues l)" by (simp add: loop_inv_def)
  from queued_total_erase [OF ok, of p] Some
  have "queued_total (umap_erase p (al_queues l)) + length q = queued_total (al_queues l)"
    by (simp add: queue_for_def)
  with Some assms show ?thesis by (auto simp: clear_player_def loop_inv_def)
qed

lemma drain_inputs_fields:
  "drain_inputs l = (out, l') \<Longrightarrow> out = fst (drain_by_player (al_queues l))
     \<and> l' = l\<lparr>al_queues := snd (drain_by_player (al_queues l)), al_pending := al_pending l - length out\<rparr>"
  by (auto simp: drain_inputs_def split: prod.splits)

lemma drained_pending:
  assumes "loop_inv l"
  shows "al_pending (snd (drain_inputs l)) = 0"
    and "queued_total (al_queues (snd (drain_inputs l))) = 0"
proof -
  from assms have ok: "umap_ok (al_queues l)" and p: "al_pending l = queued_total (al_queues l)"
    by (simp_all add: loop_inv_def)
  from p drain_by_player_length [OF ok] show "al_pending (snd (drain_inputs l)) = 0"
    by (simp add: drain_inputs_def case_prod_beta)
  show "queued_total (al_queues (snd (drain_inputs l))) = 0"
    using queued_total_0 [OF drain_by_player_rest [OF ok] drain_by_player_ok [OF ok]]
    by (simp add: drain_inputs_def case_prod_beta)
qed

lemma loop_inv_drain: "loop_inv l \<Longrightarrow> loop_inv (snd (drain_inputs l))"
  using drained_pending [of l] drain_by_player_ok [of "al_queues l"]
  by (simp add: loop_inv_def drain_inputs_def case_prod_beta)

lemma run_tick_fields:
  "run_tick l = (f, l') \<Longrightarrow>
     f = \<lparr>frame_tick = al_tick_counter l + 1, frame_inputs = fst (drain_by_player (al_queues l)),
          frame_snapshot_due = (al_tick_counter l + 1) mod ucast (snapshot_interval_ticks (al_config l)) = 0\<rparr>
   \<and> al_tick_counter l' = al_tick_counter l + 1
   \<and> al_next_deadline l' = al_next_deadline l + al_tick_interval l
   \<and> al_tick_interval l' = al_tick_interval l \<and> al_config l' = al_config l
   \<and> al_last_seq l' = al_last_seq l
   \<and> al_queues l' = snd (drain_by_player (al_queues l))"
  by (auto simp: run_tick_def drain_inputs_def Let_def case_prod_beta)

lemma loop_inv_run_tick:
  assumes "loop_inv l"
  shows "loop_inv (snd (run_tick l))" and "al_pending (snd (run_tick l)) = 0"
proof -
  let ?l = "l\<lparr>al_tick_counter := al_tick_counter l + 1\<rparr>"
  have "loop_inv ?l" using assms by (simp add: loop_inv_def)
  then have "loop_inv (snd (drain_inputs ?l))" and "al_pending (snd (drain_inputs ?l)) = 0"
    by (rule loop_inv_drain, rule drained_pending)
  then show "loop_inv (snd (run_tick l))" and "al_pending (snd (run_tick l)) = 0"
    by (simp_all add: run_tick_def Let_def case_prod_beta loop_inv_def)
qed

section \<open>The input queue is a numbered command queue\<close>

definition input_enq :: "player_input \<Rightarrow> auth_loop \<Rightarrow> bool \<times> auth_loop" where
  "input_enq i l = (fst (enqueue_input i l) = InputAccepted, snd (enqueue_input i l))"

interpretation inputs: seq_queue inp_player_id inp_seq "\<lambda>i. i" loop_inv al_queues
  "\<lambda>l. umap_find (al_last_seq l)" input_enq drain_inputs
proof unfold_locales
  fix l l' i p s
  show "umap_ok (al_queues l)" if "loop_inv l" using that by (simp add: loop_inv_def)
  show "loop_inv (snd (input_enq i l))" if "loop_inv l"
    using loop_inv_enqueue [OF that] by (simp add: input_enq_def)
  show "loop_inv (snd (drain_inputs l))" if "loop_inv l"
    using that by (rule loop_inv_drain)
  show "queue_for (al_queues l') p = queue_for (al_queues l) p"
    and "umap_find (al_last_seq l) p = Some s \<Longrightarrow> umap_find (al_last_seq l') p = Some s"
    if "input_enq i l = (False, l')"
    using that enqueue_input_cases [of i l "fst (enqueue_input i l)" "snd (enqueue_input i l)"]
    by (force simp: input_enq_def)+
  assume "input_enq i l = (True, l')"
  then have e: "enqueue_input i l = (InputAccepted, l')"
    by (auto simp: input_enq_def prod_eq_iff)
  from e have new: "umap_find (al_last_seq l) (inp_player_id i) = Some s \<Longrightarrow> s < inp_seq i"
    and l': "l' = l\<lparr>al_queues := umap_put (inp_player_id i)
          (queue_for (al_queues l) (inp_player_id i) @ [i]) (al_queues l),
        al_last_seq := umap_put (inp_player_id i) (inp_seq i) (al_last_seq l),
        al_pending := al_pending l + 1\<rparr>" for s
    by (cases rule: enqueue_input_cases; auto)+
  show "umap_find (al_last_seq l) (inp_player_id i) = Some s \<Longrightarrow> s < inp_seq i" by (rule new)
  show "queue_for (al_queues l') p = (if p = inp_player_id i
      then queue_for (al_queues l) p @ [i] else queue_for (al_queues l) p)"
    by (simp add: l' queue_for_put)
  show "umap_find (al_last_seq l') (inp_player_id i) = Some (inp_seq i)" by (simp add: l' find_put)
  show "umap_find (al_last_seq l') p = Some s"
    if "umap_find (al_last_seq l) p = Some s" "p \<noteq> inp_player_id i"
    using that by (simp add: l' find_put)
qed (auto simp: drain_inputs_def case_prod_beta loop_inv_def drain_by_player_rest)

section \<open>Advancing\<close>

text \<open>The number of deadlines that have passed.\<close>

definition due_ticks :: "int \<Rightarrow> auth_loop \<Rightarrow> nat" where
  "due_ticks now l = (if al_next_deadline l \<le> now
     then Suc (nat ((now - al_next_deadline l) div al_tick_interval l)) else 0)"

lemma due_ticks_run_tick:
  assumes "1 \<le> al_tick_interval l" and "al_next_deadline l \<le> now"
  shows "due_ticks now l = Suc (due_ticks now (snd (run_tick l)))"
proof -
  let ?d = "now - al_next_deadline l" and ?i = "al_tick_interval l"
  have f: "al_next_deadline (snd (run_tick l)) = al_next_deadline l + ?i"
    "al_tick_interval (snd (run_tick l)) = ?i"
    using run_tick_fields [of l "fst (run_tick l)" "snd (run_tick l)"] by simp_all
  show ?thesis
  proof (cases "?i \<le> ?d")
    case True
    have "(?d - ?i) div ?i = ?d div ?i - 1"
      using assms(1) div_add_self2 [of ?i "?d - ?i"] by simp
    moreover have "1 \<le> ?d div ?i"
      using True assms(1) zdiv_mono1 [of ?i ?d ?i] by simp
    ultimately show ?thesis
      using True assms f by (simp add: due_ticks_def algebra_simps nat_diff_distrib)
  next
    case False
    then have "?d div ?i = 0" using assms by (intro div_pos_pos_trivial) simp_all
    with False assms f show ?thesis by (simp add: due_ticks_def)
  qed
qed

definition expected_frame :: "auth_loop \<Rightarrow> nat \<Rightarrow> tick_frame" where
  "expected_frame l k = \<lparr>frame_tick = al_tick_counter l + of_nat (Suc k),
     frame_inputs = (if k = 0 then fst (drain_inputs l) else []),
     frame_snapshot_due = (al_tick_counter l + of_nat (Suc k))
       mod ucast (snapshot_interval_ticks (al_config l)) = 0\<rparr>"

lemma drain_after_tick: "loop_inv l \<Longrightarrow> fst (drain_inputs (snd (run_tick l))) = []"
proof -
  assume "loop_inv l"
  then have "umap_ok (al_queues l)" by (simp add: loop_inv_def)
  then have "length (fst (drain_by_player (snd (drain_by_player (al_queues l))))) = 0"
    by (simp add: drain_by_player_length drain_by_player_ok queued_total_0 drain_by_player_rest)
  then show ?thesis
    using run_tick_fields [of l "fst (run_tick l)" "snd (run_tick l)"]
    by (simp add: drain_inputs_def case_prod_beta)
qed

lemma advance_expected:
  assumes "loop_inv l" and "n = due_ticks now l"
  shows "\<exists>l'. advance now l = Some (map (expected_frame l) [0..<n], l') \<and> loop_inv l'
    \<and> al_tick_counter l' = al_tick_counter l + of_nat n
    \<and> al_next_deadline l' = al_next_deadline l + int n * al_tick_interval l
    \<and> al_tick_interval l' = al_tick_interval l
    \<and> now < al_next_deadline l' \<and> (0 < n \<longrightarrow> al_pending l' = 0)"
  using assms
proof (induction n arbitrary: l)
  case 0
  then have "now < al_next_deadline l" by (simp add: due_ticks_def split: if_split_asm)
  with 0 show ?case by (simp add: advance.simps)
next
  case (Suc n)
  obtain f l1 where t: "run_tick l = (f, l1)" by fastforce
  note fields = run_tick_fields [OF t]
  have due: "al_next_deadline l \<le> now" using Suc.prems by (simp add: due_ticks_def split: if_split_asm)
  have "1 \<le> al_tick_interval l" using Suc.prems by (simp add: loop_inv_def)
  from due_ticks_run_tick [OF this due] Suc.prems(2) t have n: "n = due_ticks now l1" by simp
  have inv1: "loop_inv l1" "al_pending l1 = 0" using loop_inv_run_tick [OF Suc.prems(1)] t by simp_all
  from Suc.IH [OF inv1(1) n] obtain l' where l': "advance now l1 = Some (map (expected_frame l1) [0..<n], l')"
    and inv': "loop_inv l'" "al_tick_counter l' = al_tick_counter l1 + of_nat n"
      "al_next_deadline l' = al_next_deadline l1 + int n * al_tick_interval l1"
      "al_tick_interval l' = al_tick_interval l1" "now < al_next_deadline l'" "0 < n \<longrightarrow> al_pending l' = 0"
    by blast
  have "f = expected_frame l 0"
    using fields by (simp add: expected_frame_def drain_inputs_def case_prod_beta)
  moreover have "expected_frame l1 k = expected_frame l (Suc k)" for k
    using fields drain_after_tick [OF Suc.prems(1)] t by (simp add: expected_frame_def add.assoc)
  ultimately have "f # map (expected_frame l1) [0..<n] = map (expected_frame l) [0..<Suc n]"
    by (simp add: map_upt_Suc del: upt_Suc)
  moreover have "al_pending l' = 0"
  proof (cases n)
    case 0
    with l' n inv1 have "l' = l1" by (simp add: advance.simps due_ticks_def split: if_split_asm)
    with inv1 show ?thesis by simp
  qed (use inv' in simp)
  ultimately show ?case
    using l' inv' fields due t by (simp add: advance.simps [of now l] algebra_simps)
qed

section \<open>Properties\<close>

text \<open>C16: Advancing the clock always returns. It produces one frame per deadline that has passed, with
  consecutive tick numbers; all queued inputs go into the first frame, in the order of the player
  ids, the later frames are empty, and a snapshot is due on the multiples of the interval.
  Afterwards the next deadline lies after \<open>now\<close> and no input is pending.\<close>

theorem advance_frames:
  assumes "loop_inv l"
  shows "\<exists>frames l'. advance now l = Some (frames, l')
    \<and> frames = map (expected_frame l) [0..<due_ticks now l]
    \<and> al_tick_counter l' = al_tick_counter l + of_nat (due_ticks now l)
    \<and> al_next_deadline l' = al_next_deadline l + int (due_ticks now l) * al_tick_interval l
    \<and> now < al_next_deadline l' \<and> (frames \<noteq> [] \<longrightarrow> al_pending l' = 0)"
  using advance_expected [OF assms refl, of now] by (auto simp: map_is_Nil_conv)

definition demo_input :: "u32 \<Rightarrow> u32 \<Rightarrow> player_input" where
  "demo_input p n = \<lparr>inp_player_id = p, inp_seq = n, inp_move_x = Fin 1, inp_move_y = Fin 0,
     inp_jump = False, inp_fire = False, inp_received_at = 0, inp_sprint = False, inp_crouch = False\<rparr>"

definition demo_loop :: auth_loop where
  "demo_loop = snd (enqueue_input (demo_input 2 5) (snd (enqueue_input (demo_input 7 1)
     (snd (enqueue_input (demo_input 2 4)
       (auth_loop_init \<lparr>tick_rate_hz = 20, input_queue_capacity = 8, snapshot_interval_ticks = 2\<rparr> 0))))))"

lemma loop_inv_demo: "loop_inv demo_loop"
  unfolding demo_loop_def by (intro loop_inv_enqueue loop_inv_init)

lemma advance_frames_witness:
  "\<exists>frames l'. advance 100000000 demo_loop = Some (frames, l') \<and> length frames = 2
     \<and> map (\<lambda>i. (inp_player_id i, inp_seq i)) (frame_inputs (frames ! 0)) = [(2, 4), (2, 5), (7, 1)]
     \<and> 100000000 < al_next_deadline l'"
proof -
  have d: "due_ticks 100000000 demo_loop = 2" by code_simp
  have "map (\<lambda>i. (inp_player_id i, inp_seq i)) (frame_inputs (map (expected_frame demo_loop) [0..<2] ! 0))
      = [(2, 4), (2, 5), (7, 1)]" by code_simp
  with advance_frames [OF loop_inv_demo, of 100000000] show ?thesis
    unfolding d by auto
qed

datatype loop_call = LoopEnqueue player_input | LoopClear u32 | LoopAdvance int | LoopReset int

fun loop_exec :: "loop_call \<Rightarrow> auth_loop \<Rightarrow> auth_loop" where
  "loop_exec (LoopEnqueue i) l = snd (enqueue_input i l)"
| "loop_exec (LoopClear p) l = clear_player p l"
| "loop_exec (LoopAdvance now) l = (case advance now l of None \<Rightarrow> l | Some (frames, l') \<Rightarrow> l')"
| "loop_exec (LoopReset start) l = auth_loop_reset start l"

definition loop_ready :: "runtime_config \<Rightarrow> auth_loop \<Rightarrow> bool" where
  "loop_ready c l \<longleftrightarrow> loop_inv l \<and> al_config l = sanitize_runtime_config c"

lemma advance_config: "loop_inv l \<Longrightarrow> advance now l = Some (fs, l') \<Longrightarrow> al_config l' = al_config l"
proof (induction "due_ticks now l" arbitrary: l fs)
  case 0
  then have "now < al_next_deadline l" by (simp add: due_ticks_def split: if_split_asm)
  with 0 show ?case by (simp add: advance.simps)
next
  case (Suc n)
  have due: "al_next_deadline l \<le> now" using Suc.hyps by (simp add: due_ticks_def split: if_split_asm)
  have pos: "1 \<le> al_tick_interval l" using Suc.prems by (simp add: loop_inv_def)
  from Suc.prems(2) due obtain fs1 where "advance now (snd (run_tick l)) = Some (fs1, l')"
    by (subst (asm) advance.simps) (auto simp: bind_eq_Some_conv)
  with Suc.hyps(1) [of "snd (run_tick l)"] Suc.hyps(2) due_ticks_run_tick [OF pos due]
    loop_inv_run_tick [OF Suc.prems(1)]
  show ?case using run_tick_fields [of l "fst (run_tick l)" "snd (run_tick l)"] by simp
qed

interpretation loop_machine: component "\<lambda>l. \<exists>start. l = auth_loop_init c start" loop_exec
  "\<lambda>call. True" "loop_ready c"
proof unfold_locales
  show "loop_ready c l" if "\<exists>start. l = auth_loop_init c start" for l
    using that by (auto simp: loop_ready_def loop_inv_init) (simp add: auth_loop_init_def auth_loop_reset_def Let_def)
  show "loop_ready c (loop_exec call l)" if "loop_ready c l" for call l
  proof (cases call)
    case (LoopEnqueue i)
    have "al_config (snd (enqueue_input i l)) = al_config l" by (simp add: enqueue_input_def)
    with LoopEnqueue that show ?thesis by (simp add: loop_ready_def loop_inv_enqueue)
  next
    case (LoopClear p)
    have "al_config (clear_player p l) = al_config l"
      by (simp add: clear_player_def Let_def split: option.split)
    with LoopClear that show ?thesis by (simp add: loop_ready_def loop_inv_clear)
  next
    case (LoopAdvance now)
    from that have inv: "loop_inv l" by (simp add: loop_ready_def)
    from advance_expected [OF inv refl] obtain fs l' where a: "advance now l = Some (fs, l')" "loop_inv l'"
      by blast
    with advance_config [OF inv a(1)] LoopAdvance that show ?thesis by (simp add: loop_ready_def)
  next
    case (LoopReset start)
    with that show ?thesis by (simp add: loop_ready_def loop_inv_reset) (simp add: auth_loop_reset_def)
  qed
qed

text \<open>Whatever is enqueued, cleared, advanced or reset, the pending counter is the number of queued
  inputs and never exceeds the configured capacity, and an input is refused for lack of space
  only when exactly that many are queued.\<close>

theorem pending_inputs_bounded:
  assumes "l = fold loop_exec calls (auth_loop_init c start)"
  shows "al_pending l = queued_total (al_queues l)
    \<and> al_pending l \<le> max 1 (input_queue_capacity c)
    \<and> (fst (enqueue_input i l) = InputQueueFull \<longrightarrow> queued_total (al_queues l) = max 1 (input_queue_capacity c))"
proof -
  have "loop_ready c l"
    using loop_machine.run [of "auth_loop_init c start" c calls] assms by auto
  then have inv: "loop_inv l" and cfg: "al_config l = sanitize_runtime_config c"
    by (simp_all add: loop_ready_def)
  have cap: "input_queue_capacity (al_config l) = max 1 (input_queue_capacity c)"
    by (simp add: cfg sanitize_runtime_config_def Let_def)
  have "fst (enqueue_input i l) = InputQueueFull \<Longrightarrow> input_queue_capacity (al_config l) \<le> al_pending l"
    by (simp add: enqueue_input_def split: if_split_asm)
  with inv show ?thesis unfolding cap [symmetric] by (auto simp: loop_inv_def)
qed

lemma pending_inputs_bounded_witness:
  "let l = fold loop_exec [LoopEnqueue (demo_input 2 4), LoopEnqueue (demo_input 7 1)]
       (auth_loop_init \<lparr>tick_rate_hz = 20, input_queue_capacity = 2, snapshot_interval_ticks = 2\<rparr> 0)
   in fst (enqueue_input (demo_input 2 5) l) = InputQueueFull \<and> queued_total (al_queues l) = 2"
proof -
  let ?c = "\<lparr>tick_rate_hz = 20, input_queue_capacity = 2, snapshot_interval_ticks = 2\<rparr>"
  let ?calls = "[LoopEnqueue (demo_input 2 4), LoopEnqueue (demo_input 7 1)]"
  have "fst (enqueue_input (demo_input 2 5) (fold loop_exec ?calls (auth_loop_init ?c 0))) = InputQueueFull"
    by code_simp
  with pending_inputs_bounded [OF refl, where i = "demo_input 2 5" and calls = ?calls
      and c = ?c and start = 0] show ?thesis
    by (simp only: Let_def) simp
qed

text \<open>C17: Under every interleaving of enqueues and ticks, starting from an empty loop, each accepted
  input is delivered exactly once and in the order in which its player sent it: the accepted
  inputs of a player are those delivered followed by those still queued. Their sequence numbers
  strictly increase. A drain delivers in ascending order of player and sequence number.\<close>

theorem inputs_delivered_once_in_order:
  assumes "queue_run input_enq drain_inputs es (auth_loop_init c start) = (acc, del, l)"
  shows "filter (\<lambda>i. inp_player_id i = p) acc
      = filter (\<lambda>i. inp_player_id i = p) del @ queue_for (al_queues l) p
    \<and> sorted_wrt (<) (map inp_seq (filter (\<lambda>i. inp_player_id i = p) del))
    \<and> sorted_wrt (\<lambda>x y. (inp_player_id x, inp_seq x) < (inp_player_id y, inp_seq y)) (fst (drain_inputs l))"
proof -
  have empty: "queue_for (al_queues (auth_loop_init c start)) q = []" for q
    by (simp add: auth_loop_init_def auth_loop_reset_def Let_def)
  have inv: "inputs.seq_inv (auth_loop_init c start)"
    by (rule inputs.seq_inv_start [OF loop_inv_init empty])
  from inputs.fifo [OF inv assms, of p] have "inputs.seq_inv l"
    and "filter (\<lambda>i. inp_player_id i = p) acc
      = filter (\<lambda>i. inp_player_id i = p) del @ queue_for (al_queues l) p"
    by (simp_all add: empty)
  with inputs.delivered_increasing [OF inv empty assms, of p] inputs.drain_sorted show ?thesis by blast
qed

lemma inputs_delivered_once_in_order_witness:
  "\<exists>acc del l. queue_run input_enq drain_inputs
      [Enqueue (demo_input 7 1), Enqueue (demo_input 2 4), Enqueue (demo_input 2 4), Drain,
       Enqueue (demo_input 2 9)]
      (auth_loop_init \<lparr>tick_rate_hz = 20, input_queue_capacity = 2, snapshot_interval_ticks = 2\<rparr> 0)
      = (acc, del, l)
    \<and> map inp_seq (filter (\<lambda>i. inp_player_id i = 2) acc) = [4, 9]
    \<and> map inp_seq (filter (\<lambda>i. inp_player_id i = 2) del @ queue_for (al_queues l) 2) = [4, 9]"
proof -
  let ?es = "[Enqueue (demo_input 7 1), Enqueue (demo_input 2 4), Enqueue (demo_input 2 4), Drain,
       Enqueue (demo_input 2 9)]"
  let ?l = "auth_loop_init \<lparr>tick_rate_hz = 20, input_queue_capacity = 2, snapshot_interval_ticks = 2\<rparr> 0"
  obtain acc del l where r: "queue_run input_enq drain_inputs ?es ?l = (acc, del, l)"
    by (metis prod_cases3)
  have "map inp_seq (filter (\<lambda>i. inp_player_id i = 2) (fst (queue_run input_enq drain_inputs ?es ?l))) = [4, 9]"
    by code_simp
  with inputs_delivered_once_in_order [OF r, of 2] r show ?thesis by auto
qed

end
