(* ===== verification/Movement.thy ===== *)
theory Movement
  imports Floating
begin

text \<open>
  The movement step that server and client share (shared/game/Movement.h,
  shared/src/game/Movement.cpp). All arithmetic is \<open>float\<close> unless the code casts to \<open>double\<close>.
\<close>

section \<open>Data\<close>

datatype move_state = Idle | Walk | Sprint | Crouch | Air

record movement_tuning =
  accel_ground :: fp
  accel_air :: fp
  friction_ground :: fp
  max_speed_walk :: fp
  sprint_multiplier :: fp
  crouch_multiplier :: fp
  jump_velocity :: fp
  gravity :: fp

definition default_tuning :: movement_tuning where
  "default_tuning = \<lparr>accel_ground = litF 48, accel_air = litF 16, friction_ground = litF 20,
     max_speed_walk = litF 6, sprint_multiplier = litF (3 / 2), crouch_multiplier = litF (55 / 100),
     jump_velocity = litF (15 / 2), gravity = litF 22\<rparr>"

record movement_intent =
  int_move_x :: fp
  int_move_y :: fp
  int_jump :: bool
  int_sprint :: bool
  int_crouch :: bool

definition default_intent :: movement_intent where
  "default_intent = \<lparr>int_move_x = Fin 0, int_move_y = Fin 0, int_jump = False, int_sprint = False,
     int_crouch = False\<rparr>"

record kinematics =
  kin_position_x :: fp
  kin_position_y :: fp
  kin_velocity_x :: fp
  kin_velocity_y :: fp
  kin_vertical_position :: fp
  kin_vertical_velocity :: fp
  kin_grounded :: bool
  kin_move_state :: move_state

definition default_kinematics :: kinematics where
  "default_kinematics = \<lparr>kin_position_x = Fin 0, kin_position_y = Fin 0, kin_velocity_x = Fin 0,
     kin_velocity_y = Fin 0, kin_vertical_position = Fin 0, kin_vertical_velocity = Fin 0,
     kin_grounded = True, kin_move_state = Idle\<rparr>"

section \<open>Sanitizing\<close>

definition input_magnitude_epsilon :: fp where "input_magnitude_epsilon = litF (1 / 1000000)"
definition speed_epsilon :: fp where "speed_epsilon = litF (1 / 10000)"
definition float_epsilon :: fp where "float_epsilon = litF (2 powi (- 23))"

definition sanitize_positive :: "fp \<Rightarrow> fp \<Rightarrow> fp" where
  "sanitize_positive value fallback =
     (if \<not> fp_is_finite value \<or> fp_le value (Fin 0) then fallback else value)"

definition sanitize_non_negative :: "fp \<Rightarrow> fp \<Rightarrow> fp" where
  "sanitize_non_negative value fallback =
     (if \<not> fp_is_finite value \<or> fp_lt value (Fin 0) then fallback else value)"

definition sanitize_axis :: "fp \<Rightarrow> fp" where
  "sanitize_axis axis = (if \<not> fp_is_finite axis then Fin 0 else fp_clamp axis (Fin (- 1)) (Fin 1))"

definition normalize_or_zero :: "fp \<Rightarrow> fp \<Rightarrow> fp \<times> fp" where
  "normalize_or_zero x y =
     (let x64 = fp_cast Double x; y64 = fp_cast Double y;
          mag_sq = addD (mulD x64 x64) (mulD y64 y64)
      in if fp_le mag_sq (fp_cast Double input_magnitude_epsilon) then (Fin 0, Fin 0)
         else let mag = fp_cast Single (fp_sqrt Double mag_sq)
           in if fp_lt (Fin 1) mag then (divF x mag, divF y mag) else (x, y))"

definition sanitize_movement_tuning :: "movement_tuning \<Rightarrow> movement_tuning" where
  "sanitize_movement_tuning t =
     \<lparr>accel_ground = sanitize_positive (accel_ground t) (litF 48),
      accel_air = sanitize_positive (accel_air t) (litF 16),
      friction_ground = sanitize_non_negative (friction_ground t) (litF 20),
      max_speed_walk = sanitize_positive (max_speed_walk t) (litF 6),
      sprint_multiplier = sanitize_positive (sprint_multiplier t) (litF (3 / 2)),
      crouch_multiplier = sanitize_positive (crouch_multiplier t) (litF (55 / 100)),
      jump_velocity = sanitize_positive (jump_velocity t) (litF (15 / 2)),
      gravity = sanitize_positive (gravity t) (litF 22)\<rparr>"

definition sanitize_movement_input :: "movement_intent \<Rightarrow> movement_intent" where
  "sanitize_movement_input i =
     (let (x, y) = normalize_or_zero (sanitize_axis (int_move_x i)) (sanitize_axis (int_move_y i))
      in i\<lparr>int_move_x := x, int_move_y := y\<rparr>)"

definition speed_of :: "fp \<Rightarrow> fp \<Rightarrow> fp" where
  "speed_of vx vy =
     (let x64 = fp_cast Double vx; y64 = fp_cast Double vy
      in fp_cast Single (fp_sqrt Double (addD (mulD x64 x64) (mulD y64 y64))))"

definition horizontal_speed :: "kinematics \<Rightarrow> fp" where
  "horizontal_speed k = speed_of (kin_velocity_x k) (kin_velocity_y k)"

section \<open>The step\<close>

text \<open>The classification that both exits of the step compute.\<close>

definition classify_state :: "bool \<Rightarrow> fp \<Rightarrow> movement_intent \<Rightarrow> move_state" where
  "classify_state grounded speed input =
     (if \<not> grounded then Air
      else if fp_le speed speed_epsilon then Idle
      else if int_crouch input then Crouch
      else if int_sprint input then Sprint
      else Walk)"

definition accelerate :: "movement_intent \<Rightarrow> fp \<Rightarrow> movement_tuning \<Rightarrow> kinematics \<Rightarrow> kinematics" where
  "accelerate input dt tuning k =
     (let speed_multiplier = (if int_crouch input then crouch_multiplier tuning
            else if int_sprint input then sprint_multiplier tuning else Fin 1);
          target_speed = mulF (max_speed_walk tuning) speed_multiplier;
          desired_x = mulF (int_move_x input) target_speed;
          desired_y = mulF (int_move_y input) target_speed;
          accel = (if kin_grounded k then accel_ground tuning else accel_air tuning);
          max_velocity_delta = mulF accel dt;
          delta_x = subF desired_x (kin_velocity_x k);
          delta_y = subF desired_y (kin_velocity_y k);
          delta_mag = sqrtF (addF (mulF delta_x delta_x) (mulF delta_y delta_y))
      in if fp_lt float_epsilon delta_mag
         then let scale = fp_min (Fin 1) (divF max_velocity_delta delta_mag)
           in k\<lparr>kin_velocity_x := addF (kin_velocity_x k) (mulF delta_x scale),
                kin_velocity_y := addF (kin_velocity_y k) (mulF delta_y scale)\<rparr>
         else k)"

definition has_movement_input :: "movement_intent \<Rightarrow> bool" where
  "has_movement_input input \<longleftrightarrow> fp_lt input_magnitude_epsilon (fp_abs (int_move_x input))
     \<or> fp_lt input_magnitude_epsilon (fp_abs (int_move_y input))"

definition apply_friction :: "movement_intent \<Rightarrow> fp \<Rightarrow> movement_tuning \<Rightarrow> kinematics \<Rightarrow> kinematics" where
  "apply_friction input dt tuning k =
     (if \<not> has_movement_input input \<and> kin_grounded k \<and> fp_lt (Fin 0) (friction_ground tuning)
      then let speed = horizontal_speed k
        in if fp_lt speed_epsilon speed
           then let reduced = fp_max (Fin 0) (subF speed (mulF (friction_ground tuning) dt));
                    scale = (if fp_lt float_epsilon speed then divF reduced speed else Fin 0)
             in k\<lparr>kin_velocity_x := mulF (kin_velocity_x k) scale,
                  kin_velocity_y := mulF (kin_velocity_y k) scale\<rparr>
           else k\<lparr>kin_velocity_x := Fin 0, kin_velocity_y := Fin 0\<rparr>
      else k)"

definition start_jump :: "movement_intent \<Rightarrow> movement_tuning \<Rightarrow> kinematics \<Rightarrow> kinematics" where
  "start_jump input tuning k =
     (if int_jump input \<and> kin_grounded k
      then k\<lparr>kin_vertical_velocity := jump_velocity tuning, kin_grounded := False\<rparr> else k)"

definition integrate_vertical :: "fp \<Rightarrow> movement_tuning \<Rightarrow> kinematics \<Rightarrow> kinematics" where
  "integrate_vertical dt tuning k =
     (if \<not> kin_grounded k
      then let vertical_velocity = subF (kin_vertical_velocity k) (mulF (gravity tuning) dt);
               vertical_position = addF (kin_vertical_position k) (mulF vertical_velocity dt)
        in if fp_le vertical_position (Fin 0)
           then k\<lparr>kin_vertical_position := Fin 0, kin_vertical_velocity := Fin 0, kin_grounded := True\<rparr>
           else k\<lparr>kin_vertical_position := vertical_position, kin_vertical_velocity := vertical_velocity\<rparr>
      else let k1 = k\<lparr>kin_vertical_position := Fin 0\<rparr>
        in if fp_lt (kin_vertical_velocity k1) (Fin 0) then k1\<lparr>kin_vertical_velocity := Fin 0\<rparr> else k1)"

definition integrate_position :: "fp \<Rightarrow> kinematics \<Rightarrow> kinematics" where
  "integrate_position dt k =
     k\<lparr>kin_position_x := addF (kin_position_x k) (mulF (kin_velocity_x k) dt),
       kin_position_y := addF (kin_position_y k) (mulF (kin_velocity_y k) dt)\<rparr>"

definition update_move_state :: "movement_intent \<Rightarrow> kinematics \<Rightarrow> kinematics" where
  "update_move_state input k =
     k\<lparr>kin_move_state := classify_state (kin_grounded k) (horizontal_speed k) input\<rparr>"

definition step_movement :: "kinematics \<Rightarrow> movement_intent \<Rightarrow> fp \<Rightarrow> movement_tuning \<Rightarrow> kinematics" where
  "step_movement previous raw_input dt raw_tuning =
     (let input = sanitize_movement_input raw_input; tuning = sanitize_movement_tuning raw_tuning
      in if \<not> fp_is_finite dt \<or> fp_le dt (Fin 0) then update_move_state input previous
         else update_move_state input
           (integrate_position dt
             (integrate_vertical dt tuning
               (start_jump input tuning
                 (apply_friction input dt tuning
                   (accelerate input dt tuning previous))))))"

fun move_state_to_string :: "move_state \<Rightarrow> string" where
  "move_state_to_string Idle = ''idle''"
| "move_state_to_string Walk = ''walk''"
| "move_state_to_string Sprint = ''sprint''"
| "move_state_to_string Crouch = ''crouch''"
| "move_state_to_string Air = ''air''"

section \<open>The sanitized input\<close>

text \<open>Every finite value of a \<open>float\<close> object is a value of the format.\<close>

fun fp_fits :: "fmt \<Rightarrow> fp \<Rightarrow> bool" where
  "fp_fits f (Fin q) = fits f q"
| "fp_fits f _ = True"

lemma sanitize_axis_range:
  assumes "fp_fits Single axis"
  shows "\<exists>q. sanitize_axis axis = Fin q \<and> \<bar>q\<bar> \<le> 1 \<and> fits Single q"
  using assms by (cases axis) (auto simp: sanitize_axis_def fp_clamp_def)

lemma divF_unit:
  assumes "\<bar>q\<bar> \<le> 1" and "fp_lt (Fin 1) mag" and "mag \<noteq> Nan"
  shows "\<exists>r. divF (Fin q) mag = Fin r \<and> \<bar>r\<bar> \<le> 1"
proof (cases mag)
  case (Fin m)
  with assms have m: "1 < m" by simp
  have "- 1 \<le> q / m" and "q / m \<le> 1"
    using assms(1) m by (simp_all add: pos_le_divide_eq pos_divide_le_eq abs_le_iff)
  with round_between [of Single "- 1" 1 "q / m"] show ?thesis
    using m Fin by (auto simp: abs_le_iff)
qed (use assms in auto)

lemma normalize_range:
  assumes "\<bar>p\<bar> \<le> 1" and "\<bar>q\<bar> \<le> 1"
  shows "\<exists>r s. normalize_or_zero (Fin p) (Fin q) = (Fin r, Fin s) \<and> \<bar>r\<bar> \<le> 1 \<and> \<bar>s\<bar> \<le> 1"
proof -
  define mag where "mag = fp_cast Single (fp_sqrt Double
    (addD (mulD (fp_cast Double (Fin p)) (fp_cast Double (Fin p)))
      (mulD (fp_cast Double (Fin q)) (fp_cast Double (Fin q)))))"
  have eq: "normalize_or_zero (Fin p) (Fin q) = (Fin 0, Fin 0)
      \<or> normalize_or_zero (Fin p) (Fin q) = (Fin p, Fin q)
      \<or> fp_lt (Fin 1) mag \<and> normalize_or_zero (Fin p) (Fin q) = (divF (Fin p) mag, divF (Fin q) mag)"
    by (simp add: normalize_or_zero_def mag_def Let_def)
  show ?thesis
  proof (cases "fp_lt (Fin 1) mag")
    case True
    then have "mag \<noteq> Nan" by auto
    with True divF_unit [of p mag] divF_unit [of q mag] assms eq show ?thesis by auto
  qed (use assms eq in auto)
qed

section \<open>Without input the velocity only shrinks\<close>

fun fp_nonneg :: "fp \<Rightarrow> bool" where
  "fp_nonneg (Fin q) = (0 \<le> q)"
| "fp_nonneg Pos_Inf = True"
| "fp_nonneg _ = False"

lemma round_fp_nonneg: "0 \<le> q \<Longrightarrow> fp_nonneg (fp_round f q)"
  using round_nonneg [of q f] round_nonneg_not_neg [of q f] by (cases "fp_round f q") auto

lemma fp_nonneg_mul: "fp_nonneg (Fin a) \<Longrightarrow> fp_nonneg (Fin b) \<Longrightarrow> fp_nonneg (fp_mul f (Fin a) (Fin b))"
  by (simp add: round_fp_nonneg)

lemma fp_nonneg_square: "fp_nonneg (fp_mul f (Fin a) (Fin a))"
  by (simp add: round_fp_nonneg)

lemma fp_nonneg_add: "fp_nonneg a \<Longrightarrow> fp_nonneg b \<Longrightarrow> fp_nonneg (fp_add f a b)"
  by (cases a; cases b) (simp_all add: round_fp_nonneg)

lemma fp_nonneg_sqrt: "fp_nonneg a \<Longrightarrow> fp_nonneg (fp_sqrt f a)"
proof (cases a)
  case (Fin q)
  assume "fp_nonneg a"
  with Fin fp_sqrt_ge [of f 0 q] show ?thesis by auto
qed auto

text \<open>A ratio that is capped at one.\<close>

lemma capped_ratio:
  assumes "fp_nonneg a" and "fp_lt float_epsilon b" and "fp_nonneg b"
  shows "\<exists>s. fp_min (Fin 1) (divF a b) = Fin s \<and> 0 \<le> s \<and> s \<le> 1"
proof -
  have "fp_nonneg (divF a b) \<or> divF a b = Nan"
    using assms by (cases a; cases b) (auto simp: round_fp_nonneg inf_of_sign_def)
  then show ?thesis by (cases "divF a b") (auto simp: fp_min_def)
qed

lemma velocity_shrinks:
  assumes "fits Single v" and "0 \<le> s" and "s \<le> 1"
  shows "\<exists>r. addF (Fin v) (mulF (Fin (- v)) (Fin s)) = Fin r \<and> between0 r v \<and> fits Single r"
proof -
  obtain d where d: "fp_round Single (- v * s) = Fin d" "between0 d (- v)"
    using round_between0 [of Single "- v" "- v * s"] between0_scale [of s "- v"] assms by auto
  then show ?thesis
    using round_between0 [OF assms(1) between0_shrink [OF d(2)]] by simp
qed

definition no_move_input :: "movement_intent \<Rightarrow> bool" where
  "no_move_input input \<longleftrightarrow> int_move_x (sanitize_movement_input input) = Fin 0
     \<and> int_move_y (sanitize_movement_input input) = Fin 0"

text \<open>The product of speed and multiplier does not overflow.\<close>

definition finite_target_speed :: "movement_tuning \<Rightarrow> bool" where
  "finite_target_speed tuning \<longleftrightarrow> (let t = sanitize_movement_tuning tuning in
     fp_is_finite (mulF (max_speed_walk t) (crouch_multiplier t))
     \<and> fp_is_finite (mulF (max_speed_walk t) (sprint_multiplier t))
     \<and> fp_is_finite (mulF (max_speed_walk t) (Fin 1)))"

text \<open>Two velocity components that are values of the format and stay well below overflow.\<close>

definition moderate :: "rat \<Rightarrow> bool" where
  "moderate v \<longleftrightarrow> fits Single v \<and> \<bar>v\<bar> \<le> 2 ^ 100"

definition slows :: "kinematics \<Rightarrow> kinematics \<Rightarrow> bool" where
  "slows k' k \<longleftrightarrow> (\<forall>vx vy. kin_velocity_x k = Fin vx \<longrightarrow> kin_velocity_y k = Fin vy \<longrightarrow>
     moderate vx \<longrightarrow> moderate vy \<longrightarrow>
     (\<exists>wx wy. kin_velocity_x k' = Fin wx \<and> kin_velocity_y k' = Fin wy
        \<and> between0 wx vx \<and> between0 wy vy \<and> moderate wx \<and> moderate wy))"

lemma slows_refl: "slows k k"
  by (auto simp: slows_def between0_def)

lemma slows_trans: "slows k3 k2 \<Longrightarrow> slows k2 k1 \<Longrightarrow> slows k3 k1"
  unfolding slows_def
proof (intro allI impI, goal_cases)
  case (1 vx vy)
  then obtain ux uy where u: "kin_velocity_x k2 = Fin ux" "kin_velocity_y k2 = Fin uy"
    "between0 ux vx" "between0 uy vy" "moderate ux" "moderate uy" by blast
  with 1(1) obtain wx wy where "kin_velocity_x k3 = Fin wx" "kin_velocity_y k3 = Fin wy"
    "between0 wx ux" "between0 wy uy" "moderate wx" "moderate wy" by blast
  with u between0_trans show ?case by blast
qed

lemma moderate_between0: "fits Single r \<Longrightarrow> between0 r v \<Longrightarrow> moderate v \<Longrightarrow> moderate r"
  by (auto simp: moderate_def between0_def)

lemma sanitize_positive_nonneg:
  "fp_nonneg d \<Longrightarrow> \<exists>q. d = Fin q \<Longrightarrow> \<exists>q. sanitize_positive v d = Fin q \<and> 0 \<le> q"
  by (cases v) (auto simp: sanitize_positive_def fp_le_def)

lemma mulF_zero_finite: "fp_is_finite t \<Longrightarrow> mulF (Fin 0) t = Fin 0"
  by (cases t) (simp_all add: round_fits)

lemma accelerate_slows:
  assumes "int_move_x input = Fin 0" and "int_move_y input = Fin 0"
    and "finite_target_speed raw" and "fp_lt (Fin 0) (Fin dt)"
  shows "slows (accelerate input (Fin dt) (sanitize_movement_tuning raw) k) k"
  unfolding slows_def
proof (intro allI impI)
  let ?t = "sanitize_movement_tuning raw"
  fix vx vy assume v: "kin_velocity_x k = Fin vx" "kin_velocity_y k = Fin vy"
    and m: "moderate vx" "moderate vy"
  let ?target = "mulF (max_speed_walk ?t) (if int_crouch input then crouch_multiplier ?t
    else if int_sprint input then sprint_multiplier ?t else Fin 1)"
  have target: "mulF (Fin 0) ?target = Fin 0"
    using assms(3) by (intro mulF_zero_finite) (simp add: finite_target_speed_def Let_def)
  have delta: "subF (Fin 0) (Fin v) = Fin (- v)" if "moderate v" for v
    using that round_fits [of Single "- v"] by (simp add: fp_sub_def moderate_def)
  define mag where "mag = sqrtF (addF (mulF (Fin (- vx)) (Fin (- vx))) (mulF (Fin (- vy)) (Fin (- vy))))"
  have mag: "fp_nonneg mag"
    unfolding mag_def by (intro fp_nonneg_sqrt fp_nonneg_add fp_nonneg_square)
  let ?accel = "if kin_grounded k then accel_ground ?t else accel_air ?t"
  have "\<exists>q. ?accel = Fin q \<and> 0 \<le> q"
    using sanitize_positive_nonneg [of "litF 48" "accel_ground raw"]
      sanitize_positive_nonneg [of "litF 16" "accel_air raw"]
    by (auto simp: sanitize_movement_tuning_def fp_lit_def
        round_fits [OF fits_of_int [of 48 Single, simplified]] round_fits [OF fits_of_int [of 16 Single, simplified]])
  then have vel: "fp_nonneg (mulF ?accel (Fin dt))"
    using assms(4) by (auto simp: round_fp_nonneg)
  show "\<exists>wx wy. kin_velocity_x (accelerate input (Fin dt) ?t k) = Fin wx
      \<and> kin_velocity_y (accelerate input (Fin dt) ?t k) = Fin wy
      \<and> between0 wx vx \<and> between0 wy vy \<and> moderate wx \<and> moderate wy"
  proof (cases "fp_lt float_epsilon mag")
    case True
    from capped_ratio [OF vel True mag] obtain s where
      s: "fp_min (Fin 1) (divF (mulF ?accel (Fin dt)) mag) = Fin s" "0 \<le> s" "s \<le> 1" by blast
    have "accelerate input (Fin dt) ?t k =
        k\<lparr>kin_velocity_x := addF (Fin vx) (mulF (Fin (- vx)) (Fin s)),
          kin_velocity_y := addF (Fin vy) (mulF (Fin (- vy)) (Fin s))\<rparr>"
      using True s(1)
      by (simp only: accelerate_def assms(1,2) v target delta [OF m(1)] delta [OF m(2)] Let_def
          mag_def [symmetric] if_True)
    with velocity_shrinks [of vx s] velocity_shrinks [of vy s] s m moderate_between0 show ?thesis
      by (fastforce simp: moderate_def)
  next
    case False
    then have "accelerate input (Fin dt) ?t k = k"
      by (simp only: accelerate_def assms(1,2) v target delta [OF m(1)] delta [OF m(2)] Let_def
          mag_def [symmetric] if_False)
    with v m show ?thesis by (auto simp: between0_def)
  qed
qed

text \<open>The speed of a moderate velocity is finite.\<close>

lemma moderate_square:
  assumes "moderate v"
  shows "mulD (fp_cast Double (Fin v)) (fp_cast Double (Fin v)) = Fin (v * v)" and "v * v \<le> 2 ^ 200"
proof -
  from assms have f: "fits Single v" and b: "\<bar>v\<bar> \<le> 2 ^ 100" by (simp_all add: moderate_def)
  show "mulD (fp_cast Double (Fin v)) (fp_cast Double (Fin v)) = Fin (v * v)"
    using round_fits [OF fits_Single_Double [OF f]] round_fits [OF fits_square [OF f]] by simp
  have "\<bar>v\<bar> * \<bar>v\<bar> \<le> 2 ^ 100 * 2 ^ 100" by (intro mult_mono b) simp_all
  then show "v * v \<le> 2 ^ 200" by (simp flip: power_add)
qed

lemma fits_pow2_103: "fits Single (2 ^ 103)"
  by (rule fitsI [of _ 1 103]) simp_all

lemma fits_pow2_201: "fits Double (2 ^ 201)"
  by (rule fitsI [of _ 1 201]) simp_all

lemma speed_finite:
  assumes "moderate vx" and "moderate vy"
  shows "\<exists>sp. speed_of (Fin vx) (Fin vy) = Fin sp \<and> 0 \<le> sp \<and> fits Single sp"
proof -
  note x = moderate_square [OF assms(1)] and y = moderate_square [OF assms(2)]
  have "vx * vx + vy * vy \<le> 2 ^ 200 + 2 ^ 200" using x(2) y(2) by (rule add_mono)
  then have "vx * vx + vy * vy \<le> 2 ^ 201" by simp
  then obtain q where q: "fp_round Double (vx * vx + vy * vy) = Fin q" "0 \<le> q" "q \<le> 2 ^ 201"
    using round_between [of Double 0 "2 ^ 201" "vx * vx + vy * vy"] fits_pow2_201 by auto
  obtain r where r: "fp_sqrt Double (Fin q) = Fin r" "0 \<le> r"
    using fp_sqrt_ge [of Double 0 q] q by auto
  have "r \<le> 2 ^ 103"
  proof (cases "q = 0")
    case True
    with r show ?thesis by simp
  next
    case False
    then have "r * r \<le> 4 * q" using fp_sqrt_le [OF _ r(1)] q by simp
    also have "\<dots> \<le> 2 ^ 103 * 2 ^ 103" using q(3) by simp
    finally have "r * r \<le> 2 ^ 103 * 2 ^ 103" .
    with r(2) show ?thesis using abs_le_square_iff [of r "2 ^ 103"] by (simp add: power2_eq_square)
  qed
  with r obtain sp where "fp_round Single r = Fin sp" "0 \<le> sp"
    using round_between [of Single 0 "2 ^ 103" r] fits_pow2_103 by auto
  then show ?thesis
    using x(1) y(1) q(1) r(1) by (auto simp: speed_of_def Let_def dest: round_result_fits)
qed

lemma reduced_ratio:
  assumes sp: "0 \<le> sp" "fits Single sp" and x: "fp_nonneg x" and big: "fp_lt float_epsilon (Fin sp)"
  shows "\<exists>s. divF (fp_max (Fin 0) (subF (Fin sp) x)) (Fin sp) = Fin s \<and> 0 \<le> s \<and> s \<le> 1"
proof -
  have "float_epsilon = Fin (2 powi (- 23))"
    unfolding float_epsilon_def fp_lit_def
    by (rule round_fits, rule fitsI [of _ 1 "- 23"]) simp_all
  with big have "fp_lt (Fin (2 powi (- 23))) (Fin sp)" by metis
  then have "2 powi (- 23) < sp" by (simp only: fp_lt.simps)
  then have sp0: "0 < sp" by (rule less_trans [OF pow2_pos])
  have "\<exists>r. fp_max (Fin 0) (subF (Fin sp) x) = Fin r \<and> 0 \<le> r \<and> r \<le> sp"
  proof (cases x)
    case (Fin f)
    show ?thesis
    proof (cases "fp_round Single (sp - f)")
      case (Fin r)
      have "r \<le> sp"
        using round_mono [of "sp - f" sp, OF _ Fin round_fits [OF sp(2)]] x \<open>x = Fin f\<close> by simp
      with Fin \<open>x = Fin f\<close> sp show ?thesis by (auto simp: fp_max_def fp_sub_def)
    next
      case Pos_Inf
      have "rnd Single (sp - f) \<le> rnd Single sp" using x \<open>x = Fin f\<close> by (intro rnd_mono) simp
      with Pos_Inf sp(2) show ?thesis by (auto simp: fp_round_def fits_iff Let_def split: if_splits)
    qed (use \<open>x = Fin f\<close> sp in \<open>auto simp: fp_max_def fp_sub_def\<close>)
  qed (use x sp in \<open>auto simp: fp_max_def fp_sub_def\<close>)
  then obtain r where r: "fp_max (Fin 0) (subF (Fin sp) x) = Fin r" "0 \<le> r" "r \<le> sp" by blast
  then have "0 \<le> r / sp" "r / sp \<le> 1" using sp0 by simp_all
  with round_between [of Single 0 1 "r / sp"] r sp0 show ?thesis by auto
qed

lemma friction_slows:
  assumes "fp_lt (Fin 0) (Fin dt)"
  shows "slows (apply_friction input (Fin dt) (sanitize_movement_tuning raw) k) k"
  unfolding slows_def
proof (intro allI impI)
  let ?t = "sanitize_movement_tuning raw"
  fix vx vy assume v: "kin_velocity_x k = Fin vx" "kin_velocity_y k = Fin vy"
    and m: "moderate vx" "moderate vy"
  obtain sp where sp: "horizontal_speed k = Fin sp" "0 \<le> sp" "fits Single sp"
    using speed_finite [OF m] v by (auto simp: horizontal_speed_def)
  have zero: "between0 0 w" "moderate 0" for w by (simp_all add: between0_def moderate_def)
  let ?k = "apply_friction input (Fin dt) ?t k"
  have "?k = k \<or> kin_velocity_x ?k = Fin 0 \<and> kin_velocity_y ?k = Fin 0 \<or>
      (\<exists>s. kin_velocity_x ?k = mulF (Fin vx) (Fin s) \<and> kin_velocity_y ?k = mulF (Fin vy) (Fin s)
         \<and> 0 \<le> s \<and> s \<le> 1)"
  proof (cases "fp_lt (Fin 0) (friction_ground ?t) \<and> fp_lt float_epsilon (Fin sp)")
    case True
    then obtain f where f: "friction_ground ?t = Fin f" "0 < f"
      by (cases "friction_ground raw")
        (auto simp: sanitize_movement_tuning_def sanitize_non_negative_def fp_lit_def
          round_fits [OF fits_of_int [of 20 Single, simplified]] split: if_splits)
    then have "fp_nonneg (mulF (friction_ground ?t) (Fin dt))"
      using assms by (simp add: round_fp_nonneg)
    from reduced_ratio [OF sp(2,3) this] True show ?thesis
      by (auto simp: apply_friction_def sp(1) v Let_def)
  next
    case False
    have "mulF (Fin w) (Fin 0) = Fin 0" for w by (simp add: round_fits)
    with False show ?thesis by (auto simp: apply_friction_def sp(1) v Let_def)
  qed
  then show "\<exists>wx wy. kin_velocity_x ?k = Fin wx \<and> kin_velocity_y ?k = Fin wy
      \<and> between0 wx vx \<and> between0 wy vy \<and> moderate wx \<and> moderate wy"
  proof (elim disjE exE conjE)
    fix s assume s: "kin_velocity_x ?k = mulF (Fin vx) (Fin s)" "kin_velocity_y ?k = mulF (Fin vy) (Fin s)"
      "0 \<le> s" "s \<le> 1"
    from m have "fits Single vx" "fits Single vy" by (simp_all add: moderate_def)
    with s round_between0 [of Single vx "vx * s"] round_between0 [of Single vy "vy * s"]
      between0_scale [of s] obtain wx wy where
      "kin_velocity_x ?k = Fin wx" "between0 wx vx" "fits Single wx"
      "kin_velocity_y ?k = Fin wy" "between0 wy vy" "fits Single wy"
      by auto
    with moderate_between0 m show ?thesis by blast
  qed (use v m zero in \<open>auto simp: between0_def\<close>)
qed

lemma vertical_keeps_velocity:
  "kin_velocity_x (integrate_vertical dt t k) = kin_velocity_x k"
  "kin_velocity_y (integrate_vertical dt t k) = kin_velocity_y k"
  by (simp_all add: integrate_vertical_def Let_def)

lemma jump_keeps_velocity:
  "kin_velocity_x (start_jump i t k) = kin_velocity_x k"
  "kin_velocity_y (start_jump i t k) = kin_velocity_y k"
  by (simp_all add: start_jump_def)

lemma velocity_only: "kin_velocity_x k' = kin_velocity_x k \<Longrightarrow> kin_velocity_y k' = kin_velocity_y k
    \<Longrightarrow> slows k k0 \<Longrightarrow> slows k' k0"
  by (simp add: slows_def)

section \<open>Properties\<close>

text \<open>Whatever a client sends as movement axes, NaN, infinities and huge values included, the
  simulation works with two finite axes between -1 and 1, and the buttons are passed unchanged.\<close>

theorem sanitized_input_in_unit_range:
  assumes "fp_fits Single (int_move_x i)" and "fp_fits Single (int_move_y i)"
  shows "\<exists>x y. sanitize_movement_input i = i\<lparr>int_move_x := Fin x, int_move_y := Fin y\<rparr>
    \<and> \<bar>x\<bar> \<le> 1 \<and> \<bar>y\<bar> \<le> 1"
proof -
  obtain p q where a: "sanitize_axis (int_move_x i) = Fin p" "\<bar>p\<bar> \<le> 1"
    "sanitize_axis (int_move_y i) = Fin q" "\<bar>q\<bar> \<le> 1"
    using sanitize_axis_range [OF assms(1)] sanitize_axis_range [OF assms(2)] by blast
  obtain r s where n: "normalize_or_zero (Fin p) (Fin q) = (Fin r, Fin s)" "\<bar>r\<bar> \<le> 1" "\<bar>s\<bar> \<le> 1"
    using normalize_range [OF a(2,4)] by blast
  show ?thesis
    by (intro exI [of _ r] exI [of _ s]) (simp add: sanitize_movement_input_def a n)
qed

lemma sanitized_input_in_unit_range_witness:
  "\<exists>x y. sanitize_movement_input
      \<lparr>int_move_x = Nan, int_move_y = Fin (3 / 4), int_jump = True, int_sprint = False, int_crouch = True\<rparr>
    = \<lparr>int_move_x = Fin x, int_move_y = Fin y, int_jump = True, int_sprint = False, int_crouch = True\<rparr>
    \<and> \<bar>x\<bar> \<le> 1 \<and> \<bar>y\<bar> \<le> 1"
proof -
  have "fits Single (3 / 4)" by (rule fitsI [of _ 3 "- 2"]) simp_all
  then show ?thesis
    using sanitized_input_in_unit_range [of "\<lparr>int_move_x = Nan, int_move_y = Fin (3 / 4),
      int_jump = True, int_sprint = False, int_crouch = True\<rparr>"] by simp
qed

text \<open>C27: Letting go of the movement keys never speeds a player up or turns the player round: for
  every duration and every tuning, each component of the velocity keeps its sign and does not
  grow, in spite of rounding (for velocities and target speeds away from the overflow range).\<close>

theorem no_input_never_speeds_up:
  assumes "no_move_input i" and "finite_target_speed tuning"
    and "kin_velocity_x k = Fin vx" and "kin_velocity_y k = Fin vy" and "moderate vx" and "moderate vy"
  shows "\<exists>wx wy. kin_velocity_x (step_movement k i dt tuning) = Fin wx
    \<and> kin_velocity_y (step_movement k i dt tuning) = Fin wy
    \<and> 0 \<le> wx * vx \<and> \<bar>wx\<bar> \<le> \<bar>vx\<bar> \<and> 0 \<le> wy * vy \<and> \<bar>wy\<bar> \<le> \<bar>vy\<bar>"
proof -
  have "slows (step_movement k i dt tuning) k"
  proof (cases "\<not> fp_is_finite dt \<or> fp_le dt (Fin 0)")
    case True
    then show ?thesis
      by (intro velocity_only [OF _ _ slows_refl]) (simp_all add: step_movement_def update_move_state_def Let_def)
  next
    case False
    then obtain d where d: "dt = Fin d" "fp_lt (Fin 0) (Fin d)" by (cases dt) (auto simp: fp_le_def)
    let ?i = "sanitize_movement_input i" and ?t = "sanitize_movement_tuning tuning"
    have "slows (apply_friction ?i (Fin d) ?t (accelerate ?i (Fin d) ?t k)) k"
      using assms(1,2) d(2) by (intro slows_trans [OF friction_slows accelerate_slows])
        (simp_all add: no_move_input_def)
    then show ?thesis
      using False d(1) by (intro velocity_only [OF _ _ \<open>slows _ k\<close>])
        (simp_all add: step_movement_def update_move_state_def integrate_position_def Let_def
          vertical_keeps_velocity jump_keeps_velocity)
  qed
  with assms(3-6) show ?thesis unfolding slows_def between0_def by blast
qed

lemma no_input_never_speeds_up_witness:
  "\<exists>wx wy. kin_velocity_x (step_movement (default_kinematics\<lparr>kin_velocity_x := Fin 4\<rparr>) default_intent
      (litF (1 / 20)) default_tuning) = Fin wx
    \<and> kin_velocity_y (step_movement (default_kinematics\<lparr>kin_velocity_x := Fin 4\<rparr>) default_intent
      (litF (1 / 20)) default_tuning) = Fin wy
    \<and> 0 \<le> wx * 4 \<and> \<bar>wx\<bar> \<le> \<bar>4\<bar> \<and> 0 \<le> wy * 0 \<and> \<bar>wy\<bar> \<le> \<bar>0\<bar>"
proof (rule no_input_never_speeds_up)
  show "no_move_input default_intent" by code_simp
  show "finite_target_speed default_tuning" by code_simp
  show "moderate 4" using fits_of_int [of 4 Single] by (simp add: moderate_def)
qed (simp_all add: default_kinematics_def moderate_def)

text \<open>After a step of positive length a grounded player is exactly at height zero and a player in
  the air is strictly above it; the move state is \<open>Air\<close> exactly in the air; and the jump button
  has no effect in the air (no double jump).\<close>

theorem step_vertical_consistent:
  assumes "fp_is_finite dt" and "fp_lt (Fin 0) dt"
    and "kin_vertical_position k = Fin p" and "kin_vertical_velocity k = Fin v"
  shows "(let k' = step_movement k i dt tuning in
      (if kin_grounded k' then kin_vertical_position k' = Fin 0 else fp_lt (Fin 0) (kin_vertical_position k'))
    \<and> (kin_move_state k' = Air \<longleftrightarrow> \<not> kin_grounded k'))
    \<and> (\<not> kin_grounded k \<longrightarrow> step_movement k (i\<lparr>int_jump := True\<rparr>) dt tuning
          = step_movement k (i\<lparr>int_jump := False\<rparr>) dt tuning)"
proof -
  obtain d where d: "dt = Fin d" "0 < d" using assms(1,2) by (cases dt) auto
  let ?i = "sanitize_movement_input i" and ?t = "sanitize_movement_tuning tuning"
  define k1 where "k1 = apply_friction ?i dt ?t (accelerate ?i dt ?t k)"
  define k2 where "k2 = start_jump ?i ?t k1"
  define k3 where "k3 = integrate_vertical dt ?t k2"
  have go: "\<not> (\<not> fp_is_finite dt \<or> fp_le dt (Fin 0))" using d by (simp add: fp_le_def)
  have k': "step_movement k i dt tuning = update_move_state ?i (integrate_position dt k3)"
    unfolding step_movement_def Let_def if_not_P [OF go] k3_def k2_def k1_def ..
  have same: "kin_vertical_position k1 = Fin p" "kin_vertical_velocity k1 = Fin v"
    "kin_grounded k1 = kin_grounded k"
    using assms by (simp_all add: k1_def apply_friction_def accelerate_def Let_def)
  have fin: "\<exists>q. sanitize_positive w (Fin e) = Fin q" for w e
    by (cases w) (simp_all add: sanitize_positive_def)
  have lits: "litF (15 / 2) = Fin (15 / 2)" "litF 22 = Fin 22" by code_simp+
  obtain j where j: "jump_velocity ?t = Fin j"
    using fin [of "jump_velocity tuning" "15 / 2"] by (auto simp: sanitize_movement_tuning_def lits)
  obtain g where g: "gravity ?t = Fin g"
    using fin [of "gravity tuning" 22] by (auto simp: sanitize_movement_tuning_def lits)
  have "kin_vertical_position k2 = Fin p \<and> (\<exists>u. kin_vertical_velocity k2 = Fin u)"
    using same j by (simp add: k2_def start_jump_def)
  then obtain u where k2: "kin_vertical_position k2 = Fin p" "kin_vertical_velocity k2 = Fin u"
    by blast
  let ?vv = "subF (Fin u) (mulF (Fin g) dt)"
  have "?vv \<noteq> Nan" using d by (cases "fp_round Single (g * d)") (auto simp: fp_sub_def)
  then have "mulF ?vv dt \<noteq> Nan" using d by (cases ?vv) (auto simp: inf_of_sign_def)
  then have "addF (Fin p) (mulF ?vv dt) \<noteq> Nan" by (cases "mulF ?vv dt") auto
  then have total: "fp_lt (Fin 0) (addF (Fin p) (mulF ?vv dt))" if "\<not> fp_le (addF (Fin p) (mulF ?vv dt)) (Fin 0)"
    using that by (cases "addF (Fin p) (mulF ?vv dt)") (auto simp: fp_le_def)
  have "if kin_grounded k3 then kin_vertical_position k3 = Fin 0
      else fp_lt (Fin 0) (kin_vertical_position k3)"
    using total by (simp add: k3_def integrate_vertical_def k2 g Let_def)
  moreover have "step_movement k (i\<lparr>int_jump := True\<rparr>) dt tuning
      = step_movement k (i\<lparr>int_jump := False\<rparr>) dt tuning" if "\<not> kin_grounded k"
  proof -
    let ?on = "sanitize_movement_input (i\<lparr>int_jump := True\<rparr>)"
      and ?off = "sanitize_movement_input (i\<lparr>int_jump := False\<rparr>)"
    have eq: "?on = ?off\<lparr>int_jump := True\<rparr>"
      by (simp add: sanitize_movement_input_def case_prod_beta Let_def)
    have acc: "accelerate ?on dt ?t k = accelerate ?off dt ?t k"
      by (simp add: eq accelerate_def cong: if_cong)
    have fr: "apply_friction ?on dt ?t k0 = apply_friction ?off dt ?t k0" for k0
      by (simp add: eq apply_friction_def has_movement_input_def)
    have ground: "\<not> kin_grounded (apply_friction ?off dt ?t (accelerate ?off dt ?t k))"
      using that by (simp add: apply_friction_def accelerate_def Let_def)
    have up: "update_move_state ?on k0 = update_move_state ?off k0" for k0
      by (simp add: eq update_move_state_def classify_state_def)
    show ?thesis
      using ground by (simp add: step_movement_def go Let_def acc fr up start_jump_def)
  qed
  ultimately show ?thesis
    by (simp add: k' Let_def update_move_state_def integrate_position_def classify_state_def)
qed

lemma step_vertical_consistent_witness:
  "let k' = step_movement default_kinematics (default_intent\<lparr>int_jump := True\<rparr>) (litF (1 / 20)) default_tuning
   in \<not> kin_grounded k' \<and> kin_move_state k' = Air \<and> fp_lt (Fin 0) (kin_vertical_position k')"
proof -
  let ?k' = "step_movement default_kinematics (default_intent\<lparr>int_jump := True\<rparr>) (litF (1 / 20)) default_tuning"
  have "\<not> kin_grounded ?k'" by code_simp
  moreover have "fp_is_finite (litF (1 / 20))" "fp_lt (Fin 0) (litF (1 / 20))" by code_simp+
  ultimately show ?thesis
    using step_vertical_consistent [of "litF (1 / 20)" default_kinematics 0 0
      "default_intent\<lparr>int_jump := True\<rparr>" default_tuning]
    by (simp add: Let_def default_kinematics_def)
qed

end
