(* ===== verification/Movement_Sim.thy ===== *)
theory Movement_Sim
  imports Movement Tick_Loop Registry
begin

text \<open>
  The server's movement simulation (server/MovementSimulation.h,
  server/src/MovementSimulation.cpp): one motion state per player, advanced once per tick with the
  shared step of Movement.
\<close>

section \<open>Data\<close>

record motion_state =
  mot_player_id :: u32
  mot_position_x :: fp
  mot_position_y :: fp
  mot_velocity_x :: fp
  mot_velocity_y :: fp
  mot_speed :: fp
  mot_grounded :: bool
  mot_move_state :: move_state
  mot_vertical_position :: fp
  mot_vertical_velocity :: fp
  mot_last_input_seq :: u32

definition fresh_motion :: "u32 \<Rightarrow> motion_state" where
  "fresh_motion p = \<lparr>mot_player_id = p, mot_position_x = Fin 0, mot_position_y = Fin 0,
     mot_velocity_x = Fin 0, mot_velocity_y = Fin 0, mot_speed = Fin 0, mot_grounded = True,
     mot_move_state = Idle, mot_vertical_position = Fin 0, mot_vertical_velocity = Fin 0,
     mot_last_input_seq = 0\<rparr>"

record movement_sim =
  ms_tuning :: movement_tuning
  ms_states :: "(u32, motion_state) umap"

section \<open>Operations\<close>

definition movement_sim_init :: "movement_tuning \<Rightarrow> movement_sim" where
  "movement_sim_init t = \<lparr>ms_tuning = sanitize_movement_tuning t, ms_states = []\<rparr>"

definition movement_reset :: "movement_sim \<Rightarrow> movement_sim" where
  "movement_reset s = s\<lparr>ms_states := []\<rparr>"

definition movement_ensure :: "u32 \<Rightarrow> movement_sim \<Rightarrow> movement_sim" where
  "movement_ensure p s = (case umap_find (ms_states s) p of
      Some m \<Rightarrow> s
    | None \<Rightarrow> s\<lparr>ms_states := umap_put p (fresh_motion p) (ms_states s)\<rparr>)"

definition movement_remove :: "u32 \<Rightarrow> movement_sim \<Rightarrow> movement_sim" where
  "movement_remove p s = s\<lparr>ms_states := umap_erase p (ms_states s)\<rparr>"

definition tick_seconds_float :: "int \<Rightarrow> fp" where
  "tick_seconds_float tick_interval =
     fp_cast Single (divD (fp_of_int Double tick_interval) (fp_of_int Double 1000000000))"

definition intent_of_input :: "player_input \<Rightarrow> movement_intent" where
  "intent_of_input i = \<lparr>int_move_x = inp_move_x i, int_move_y = inp_move_y i,
     int_jump = inp_jump i, int_sprint = inp_sprint i, int_crouch = inp_crouch i\<rparr>"

definition kinematics_of :: "motion_state \<Rightarrow> kinematics" where
  "kinematics_of m = \<lparr>kin_position_x = mot_position_x m, kin_position_y = mot_position_y m,
     kin_velocity_x = mot_velocity_x m, kin_velocity_y = mot_velocity_y m,
     kin_vertical_position = mot_vertical_position m,
     kin_vertical_velocity = mot_vertical_velocity m,
     kin_grounded = mot_grounded m, kin_move_state = mot_move_state m\<rparr>"

definition step_player :: "movement_tuning \<Rightarrow> fp \<Rightarrow> player_input option \<Rightarrow> motion_state \<Rightarrow> motion_state" where
  "step_player tuning dt input m =
     (let intent = (case input of Some i \<Rightarrow> intent_of_input i | None \<Rightarrow> default_intent);
          m1 = (case input of
              Some i \<Rightarrow> if mot_last_input_seq m < inp_seq i then m\<lparr>mot_last_input_seq := inp_seq i\<rparr> else m
            | None \<Rightarrow> m);
          k = step_movement (kinematics_of m1) intent dt tuning
      in m1\<lparr>mot_position_x := kin_position_x k, mot_position_y := kin_position_y k,
            mot_velocity_x := kin_velocity_x k, mot_velocity_y := kin_velocity_y k,
            mot_speed := horizontal_speed k, mot_grounded := kin_grounded k,
            mot_move_state := kin_move_state k,
            mot_vertical_position := kin_vertical_position k,
            mot_vertical_velocity := kin_vertical_velocity k\<rparr>)"

definition latest_inputs :: "player_input list \<Rightarrow> (u32, player_input) umap" where
  "latest_inputs inputs = fold (\<lambda>i m. umap_put (inp_player_id i) i m) inputs []"

definition apply_inputs :: "int \<Rightarrow> player_input list \<Rightarrow> movement_sim \<Rightarrow> movement_sim" where
  "apply_inputs tick_interval inputs s =
     (if tick_interval \<le> 0 then s
      else let dt = tick_seconds_float tick_interval in
        if fp_le dt (Fin 0) then s
        else let latest = latest_inputs inputs;
                 s1 = fold (\<lambda>i. movement_ensure (inp_player_id i)) inputs s
          in s1\<lparr>ms_states := umap_update_all
                (\<lambda>p m. step_player (ms_tuning s1) dt (umap_find latest p) m) (ms_states s1)\<rparr>)"

definition movement_state_for :: "movement_sim \<Rightarrow> u32 \<Rightarrow> motion_state option" where
  "movement_state_for s p = umap_find (ms_states s) p"

definition motion_less :: "motion_state \<Rightarrow> motion_state \<Rightarrow> bool" where
  "motion_less l r \<longleftrightarrow> mot_player_id l < mot_player_id r"

definition movement_snapshot :: "movement_sim \<Rightarrow> motion_state list" where
  "movement_snapshot s = std_sort motion_less (map snd (ms_states s))"

section \<open>The table of motion states\<close>

interpretation motions: player_listing ms_states movement_ensure "\<lambda>s. fresh_motion" mot_player_id
  motion_less mot_player_id "\<lambda>s m. m" movement_snapshot
  by unfold_locales (auto simp: movement_ensure_def fresh_motion_def motion_less_def
    movement_snapshot_def comp_def split: option.split)

lemma fold_ensure_inputs:
  "fold (\<lambda>i. movement_ensure (inp_player_id i)) inputs s = fold movement_ensure (map inp_player_id inputs) s"
  by (simp add: fold_map comp_def)

lemma ensure_tuning: "ms_tuning (fold movement_ensure ps s) = ms_tuning s"
  by (rule fold_unchanged) (simp add: movement_ensure_def split: option.split)

text \<open>The last input of a player in arrival order.\<close>

definition last_input_of :: "u32 \<Rightarrow> player_input list \<Rightarrow> player_input option" where
  "last_input_of p inputs = (let mine = filter (\<lambda>i. inp_player_id i = p) inputs
     in if mine = [] then None else Some (last mine))"

lemma latest_inputs_find: "umap_find (latest_inputs inputs) p = last_input_of p inputs"
proof (induction inputs rule: rev_induct)
  case (snoc i inputs)
  then show ?case
    by (auto simp: latest_inputs_def last_input_of_def find_put Let_def)
qed (simp add: latest_inputs_def last_input_of_def)

definition stepped_motion :: "movement_tuning \<Rightarrow> fp \<Rightarrow> player_input list \<Rightarrow> u32 \<Rightarrow> motion_state option
    \<Rightarrow> motion_state option" where
  "stepped_motion tuning dt inputs p old =
     (case old of
        Some m \<Rightarrow> Some (step_player tuning dt (last_input_of p inputs) m)
      | None \<Rightarrow> map_option (\<lambda>i. step_player tuning dt (Some i) (fresh_motion p)) (last_input_of p inputs))"

lemma last_input_of_None: "last_input_of p inputs = None \<longleftrightarrow> p \<notin> inp_player_id ` set inputs"
  by (auto simp: last_input_of_def filter_empty_conv Let_def)

lemma apply_inputs_find:
  assumes "0 < tick_interval" and "fp_lt (Fin 0) (tick_seconds_float tick_interval)"
  shows "movement_state_for (apply_inputs tick_interval inputs s) p =
    stepped_motion (ms_tuning s) (tick_seconds_float tick_interval) inputs p (movement_state_for s p)"
proof -
  have go: "\<not> fp_le (tick_seconds_float tick_interval) (Fin 0)"
    using assms(2) by (cases "tick_seconds_float tick_interval") (auto simp: fp_le_def)
  show ?thesis
    using assms(1) go motions.ensure_all_find [of "map inp_player_id inputs" s p]
      last_input_of_None [of p inputs]
    by (auto simp: apply_inputs_def movement_state_for_def Let_def find_update_all fold_ensure_inputs
        ensure_tuning latest_inputs_find stepped_motion_def split: option.splits)
qed

lemma tick_seconds_positive:
  assumes "0 < t" and "t < 2 ^ 63"
  shows "fp_lt (Fin 0) (tick_seconds_float t)"
proof -
  have top: "fits Double (2 ^ 63)" "fits Single (2 ^ 63)"
    by (rule fitsI [of _ 1 63]; simp)+
  have low: "fits Double (2 powi - 30)" "fits Single (2 powi - 30)"
    by (rule fitsI [of _ 1 "- 30"]; simp)+
  have "(of_int t :: rat) \<le> of_int (2 ^ 63)" using assms(2) by (simp only: of_int_le_iff)
  then obtain q where q: "fp_of_int Double t = Fin q" "1 \<le> q" "q \<le> 2 ^ 63"
    using round_between [of Double 1 "2 ^ 63" "of_int t"] top assms(1) by (auto simp: fp_of_int_def)
  have b: "fp_of_int Double 1000000000 = Fin 1000000000"
    using round_fits [OF fits_of_int [of 1000000000 Double]] by (simp add: fp_of_int_def)
  have "2 powi - 30 \<le> q / 1000000000" "q / 1000000000 \<le> 2 ^ 63" using q by simp_all
  then obtain r where r: "fp_round Double (q / 1000000000) = Fin r" "2 powi - 30 \<le> r" "r \<le> 2 ^ 63"
    using round_between [of Double "2 powi - 30" "2 ^ 63" "q / 1000000000"] top low by auto
  then obtain u where "fp_round Single r = Fin u" "2 powi - 30 \<le> u"
    using round_between [of Single "2 powi - 30" "2 ^ 63" r] top low by auto
  moreover from this have "0 < u" by (meson less_le_trans pow2_pos)
  ultimately show ?thesis by (simp add: tick_seconds_float_def q(1) b r(1))
qed

lemma motions_ok_apply:
  assumes "motions.reg_ok s"
  shows "motions.reg_ok (apply_inputs t inputs s)"
proof -
  have "motions.reg_ok (fold movement_ensure (map inp_player_id inputs) s)"
    by (rule motions.ensure_all_ok [OF assms])
  moreover have "mot_player_id (step_player tuning dt i m) = mot_player_id m" for tuning dt i m
    by (simp add: step_player_def Let_def split: option.split)
  ultimately show ?thesis
    using assms by (auto simp: apply_inputs_def Let_def motions.reg_ok_def find_update_all fold_ensure_inputs)
qed

datatype movement_call = MovReset | MovEnsure u32 | MovRemove u32 | MovApply int "player_input list"

fun movement_exec :: "movement_call \<Rightarrow> movement_sim \<Rightarrow> movement_sim" where
  "movement_exec MovReset s = movement_reset s"
| "movement_exec (MovEnsure p) s = movement_ensure p s"
| "movement_exec (MovRemove p) s = movement_remove p s"
| "movement_exec (MovApply t inputs) s = apply_inputs t inputs s"

text \<open>A motion state the shared step can produce: on the ground exactly at height zero.\<close>

definition motion_ok :: "motion_state \<Rightarrow> bool" where
  "motion_ok m \<longleftrightarrow> (mot_grounded m \<longrightarrow> mot_vertical_position m = Fin 0)
     \<and> (mot_move_state m = Air \<longleftrightarrow> \<not> mot_grounded m)"

definition movement_inv :: "movement_sim \<Rightarrow> bool" where
  "movement_inv s \<longleftrightarrow> motions.reg_ok s \<and> (\<forall>m \<in> set (ms_states s). motion_ok (snd m))"

lemma vertical_ground:
  "kin_grounded (integrate_vertical dt t k) \<Longrightarrow> kin_vertical_position (integrate_vertical dt t k) = Fin 0"
  by (simp add: integrate_vertical_def Let_def split: if_split_asm)

lemma step_movement_shape:
  obtains "step_movement k i dt t = update_move_state (sanitize_movement_input i) k"
  | k2 where "step_movement k i dt t = update_move_state (sanitize_movement_input i)
      (integrate_position dt (integrate_vertical dt (sanitize_movement_tuning t) k2))"
proof (cases "\<not> fp_is_finite dt \<or> fp_le dt (Fin 0)")
  case True
  then show ?thesis by (intro that(1)) (simp only: step_movement_def Let_def if_True)
next
  case False
  then show ?thesis by (intro that(2)) (simp only: step_movement_def Let_def if_False)
qed

lemma step_movement_ground:
  "kin_grounded (step_movement k i dt t) \<longrightarrow> kin_grounded k \<and> kin_vertical_position (step_movement k i dt t)
     = kin_vertical_position k \<or> kin_vertical_position (step_movement k i dt t) = Fin 0"
  using vertical_ground
  by (cases rule: step_movement_shape [of k i dt t]) (simp_all add: update_move_state_def integrate_position_def)

lemma step_movement_air:
  "kin_move_state (step_movement k i dt t) = Air \<longleftrightarrow> \<not> kin_grounded (step_movement k i dt t)"
  by (cases rule: step_movement_shape [of k i dt t])
    (simp_all add: update_move_state_def classify_state_def)

lemma step_player_fields:
  "\<exists>m1 intent. mot_grounded m1 = mot_grounded m \<and> mot_vertical_position m1 = mot_vertical_position m
     \<and> mot_grounded (step_player t dt i m) = kin_grounded (step_movement (kinematics_of m1) intent dt t)
     \<and> mot_move_state (step_player t dt i m) = kin_move_state (step_movement (kinematics_of m1) intent dt t)
     \<and> mot_vertical_position (step_player t dt i m) =
         kin_vertical_position (step_movement (kinematics_of m1) intent dt t)"
proof (cases i)
  case None
  then show ?thesis
    by (intro exI [of _ m] exI [of _ default_intent]) (simp add: step_player_def Let_def)
next
  case (Some x)
  then show ?thesis
    by (intro exI [of _ "if mot_last_input_seq m < inp_seq x then m\<lparr>mot_last_input_seq := inp_seq x\<rparr> else m"]
        exI [of _ "intent_of_input x"]) (simp add: step_player_def Let_def)
qed

lemma step_player_ok:
  assumes "motion_ok m"
  shows "motion_ok (step_player t dt i m)"
proof -
  obtain m1 intent where f: "mot_grounded m1 = mot_grounded m"
    "mot_vertical_position m1 = mot_vertical_position m"
    "mot_grounded (step_player t dt i m) = kin_grounded (step_movement (kinematics_of m1) intent dt t)"
    "mot_move_state (step_player t dt i m) = kin_move_state (step_movement (kinematics_of m1) intent dt t)"
    "mot_vertical_position (step_player t dt i m) =
       kin_vertical_position (step_movement (kinematics_of m1) intent dt t)"
    using step_player_fields [of m t dt i] by blast
  have "kin_grounded (kinematics_of m1) = mot_grounded m"
    "kin_vertical_position (kinematics_of m1) = mot_vertical_position m"
    by (simp_all add: kinematics_of_def f)
  with step_movement_ground [of "kinematics_of m1" intent dt t] assms show ?thesis
    unfolding motion_ok_def f step_movement_air by auto
qed

lemma fresh_motion_ok: "motion_ok (fresh_motion p)"
  by (simp add: motion_ok_def fresh_motion_def)

lemma movement_inv_find:
  "movement_inv s \<longleftrightarrow> motions.reg_ok s \<and> (\<forall>p m. umap_find (ms_states s) p = Some m \<longrightarrow> motion_ok m)"
  unfolding movement_inv_def motions.reg_ok_def using all_values_iff by blast

lemma movement_inv_ensure:
  assumes "movement_inv s"
  shows "movement_inv (movement_ensure p s)"
  using assms motions.ensure_ok [of s p] fresh_motion_ok [of p]
  unfolding movement_inv_find by (auto simp: motions.ensure_find split: if_split_asm)

lemma movement_inv_apply:
  assumes "movement_inv s"
  shows "movement_inv (apply_inputs t inputs s)"
proof -
  let ?s = "fold (\<lambda>i. movement_ensure (inp_player_id i)) inputs s"
  have "movement_inv ?s"
    by (rule fold_preserves [where P = movement_inv, OF assms]) (rule movement_inv_ensure)
  then have ok: "motion_ok m" if "umap_find (ms_states ?s) p = Some m" for p m
    using that by (simp add: movement_inv_find)
  have "motion_ok m" if "umap_find (ms_states (apply_inputs t inputs s)) p = Some m" for p m
  proof (cases "t \<le> 0 \<or> fp_le (tick_seconds_float t) (Fin 0)")
    case True
    then have "apply_inputs t inputs s = s" by (auto simp: apply_inputs_def Let_def)
    with that assms show ?thesis by (simp add: movement_inv_find)
  next
    case False
    with that obtain m0 i where "umap_find (ms_states ?s) p = Some m0"
      "m = step_player (ms_tuning ?s) (tick_seconds_float t) i m0"
      by (auto simp: apply_inputs_def Let_def find_update_all)
    with ok step_player_ok show ?thesis by simp
  qed
  with assms motions_ok_apply show ?thesis unfolding movement_inv_find by blast
qed

interpretation movement_machine: component "\<lambda>s. \<exists>t. s = movement_sim_init t" movement_exec
  "\<lambda>call. True" movement_inv
proof unfold_locales
  show "movement_inv s" if "\<exists>t. s = movement_sim_init t" for s
    using that by (auto simp: movement_inv_def motions.reg_ok_def movement_sim_init_def)
  show "movement_inv (movement_exec call s)" if "movement_inv s" for call s
  proof (cases call)
    case MovReset
    then show ?thesis by (simp add: movement_inv_def motions.reg_ok_def movement_reset_def)
  next
    case (MovRemove p)
    then show ?thesis
      using that by (auto simp: movement_inv_def motions.reg_ok_def movement_remove_def find_erase
          in_set_erase)
  qed (use that movement_inv_ensure movement_inv_apply in auto)
qed

section \<open>Properties\<close>

text \<open>C26: A tick of the movement simulation advances every known player, and every player who sent an
  input, by exactly one shared step: with the last input the player sent, or with no input. The
  acknowledged sequence number is the maximum of the old one and that input's. Nobody else changes.\<close>

theorem tick_advances_each_player_once:
  assumes "0 < t" and "t < 2 ^ 63"
  shows "movement_state_for (apply_inputs t inputs s) p =
      (case (movement_state_for s p, last_input_of p inputs) of
         (None, None) \<Rightarrow> None
       | (Some m, None) \<Rightarrow> Some (step_player (ms_tuning s) (tick_seconds_float t) None m)
       | (None, Some i) \<Rightarrow> Some (step_player (ms_tuning s) (tick_seconds_float t) (Some i) (fresh_motion p))
       | (Some m, Some i) \<Rightarrow> Some (step_player (ms_tuning s) (tick_seconds_float t) (Some i) m))
    \<and> mot_last_input_seq (step_player tuning dt (Some i) m) = max (mot_last_input_seq m) (inp_seq i)
    \<and> kinematics_of (step_player tuning dt (Some i) m) = step_movement (kinematics_of m) (intent_of_input i) dt tuning"
  unfolding apply_inputs_find [OF assms(1) tick_seconds_positive [OF assms]]
  by (auto simp: stepped_motion_def step_player_def kinematics_of_def Let_def max_def split: option.split)

lemma tick_advances_each_player_once_witness:
  "movement_state_for (apply_inputs 50000000 [demo_input 2 4, demo_input 2 5] (movement_sim_init default_tuning)) 2
   = Some (step_player (sanitize_movement_tuning default_tuning) (tick_seconds_float 50000000)
       (Some (demo_input 2 5)) (fresh_motion 2))"
proof -
  have "last_input_of 2 [demo_input 2 4, demo_input 2 5] = Some (demo_input 2 5)"
    by (simp add: last_input_of_def demo_input_def)
  then show ?thesis
    using tick_advances_each_player_once [of 50000000 "[demo_input 2 4, demo_input 2 5]"
      "movement_sim_init default_tuning" 2]
    by (simp add: movement_sim_init_def movement_state_for_def)
qed

text \<open>After any sequence of calls the snapshot lists every player once, in ascending order of the
  ids, and a tick gives the same snapshot for every bucket order of the player table.\<close>

theorem movement_snapshot_deterministic:
  assumes "s = fold movement_exec calls (movement_sim_init tuning)"
    and "mset table = mset (ms_states s)"
  shows "sorted_wrt (\<lambda>x y. mot_player_id x < mot_player_id y) (movement_snapshot s)
    \<and> mset (movement_snapshot s) = mset (map snd (ms_states s))
    \<and> (\<forall>m \<in> set (movement_snapshot s). mot_grounded m \<longrightarrow> mot_vertical_position m = Fin 0)
    \<and> movement_snapshot (apply_inputs t inputs (s\<lparr>ms_states := table\<rparr>)) = movement_snapshot (apply_inputs t inputs s)"
proof -
  have inv: "movement_inv s" using movement_machine.run [of "movement_sim_init tuning" calls] assms(1) by auto
  then have ok: "motions.reg_ok s" by (simp add: movement_inv_def)
  let ?s = "s\<lparr>ms_states := table\<rparr>"
  have ok': "motions.reg_ok ?s" and find: "umap_find table = umap_find (ms_states s)"
  proof -
    have u: "umap_ok table" using ok umap_ok_mset [OF assms(2)] by (simp add: motions.reg_ok_def)
    then show f: "umap_find table = umap_find (ms_states s)"
      using assms(2) ok mset_eq_iff_find by (metis motions.reg_ok_def)
    show "motions.reg_ok ?s" using ok u f by (simp add: motions.reg_ok_def)
  qed
  have "mset (ms_states (apply_inputs t inputs ?s)) = mset (ms_states (apply_inputs t inputs s))"
  proof (cases "0 < t \<and> \<not> fp_le (tick_seconds_float t) (Fin 0)")
    case False
    with assms(2) show ?thesis by (auto simp: apply_inputs_def Let_def)
  next
    case True
    have same: "umap_find (ms_states (apply_inputs t inputs ?s)) p
        = umap_find (ms_states (apply_inputs t inputs s)) p" for p
      using True motions.ensure_all_find [of "map inp_player_id inputs" s p]
        motions.ensure_all_find [of "map inp_player_id inputs" ?s p]
      by (simp add: apply_inputs_def Let_def find_update_all fold_ensure_inputs ensure_tuning find)
    have "umap_ok (ms_states (apply_inputs t inputs ?s))" "umap_ok (ms_states (apply_inputs t inputs s))"
      using motions_ok_apply [OF ok'] motions_ok_apply [OF ok] by (simp_all add: motions.reg_ok_def)
    then show ?thesis using same by (simp add: mset_eq_iff_find fun_eq_iff)
  qed
  then have "movement_snapshot (apply_inputs t inputs ?s) = movement_snapshot (apply_inputs t inputs s)"
    by (intro motions.listing_canonical motions_ok_apply ok') simp_all
  moreover have "\<forall>m \<in> set (movement_snapshot s). motion_ok m"
    using inv by (auto simp: movement_inv_def movement_snapshot_def)
  ultimately show ?thesis
    using motions.listing_sorted [OF ok] by (auto simp: movement_snapshot_def motion_ok_def)
qed

lemma movement_snapshot_deterministic_witness:
  "movement_snapshot (apply_inputs 50000000 [demo_input 2 4]
     ((movement_sim_init default_tuning)\<lparr>ms_states := [(9, fresh_motion 9), (2, fresh_motion 2)]\<rparr>))
   = movement_snapshot (apply_inputs 50000000 [demo_input 2 4]
     (fold movement_exec [MovEnsure 2, MovEnsure 9] (movement_sim_init default_tuning)))"
proof -
  let ?s = "fold movement_exec [MovEnsure 2, MovEnsure 9] (movement_sim_init default_tuning)"
  have s: "?s = (movement_sim_init default_tuning)\<lparr>ms_states := [(2, fresh_motion 2), (9, fresh_motion 9)]\<rparr>"
    by (simp add: movement_sim_init_def movement_ensure_def)
  have "mset [(9, fresh_motion 9), (2, fresh_motion 2)] = mset (ms_states ?s)"
    unfolding s by (simp add: add_mset_commute)
  from movement_snapshot_deterministic [OF refl this, of 50000000 "[demo_input 2 4]"] show ?thesis
    unfolding s by simp
qed

end
