(* ===== verification/Game_Rules.thy ===== *)
theory Game_Rules
  imports Floating
begin

text \<open>
  The small rule files of shared/game: weapons (Weapons.h, Weapons.cpp), treasures (Treasure.h), the
  inventory (Inventory.h, Inventory.cpp) and the match timer (Match.h, Match.cpp). Reading the
  definitions from JSON files is left out.
\<close>

section \<open>Weapons\<close>

record weapon_definition =
  wd_id :: string
  wd_type :: string
  wd_damage :: int
  wd_mag_size :: int
  wd_rate_of_fire :: fp
  wd_pellets :: int
  wd_damage_per_pellet :: int
  wd_range_units :: fp
  wd_projectile_speed :: fp
  wd_tier :: int

text \<open>\<open>std::tolower\<close> in the "C" locale.\<close>

definition lowercase_char :: "char \<Rightarrow> char" where
  "lowercase_char c = (let n = of_char c :: nat in if 65 \<le> n \<and> n \<le> 90 then char_of (n + 32) else c)"

definition lowercase :: "string \<Rightarrow> string" where
  "lowercase s = List.map lowercase_char s"

lemma lowercase_char_idem: "lowercase_char (lowercase_char c) = lowercase_char c"
proof (cases "65 \<le> (of_char c :: nat) \<and> (of_char c :: nat) \<le> 90")
  case True
  then have "(of_char (lowercase_char c) :: nat) = of_char c + 32"
    by (simp add: lowercase_char_def Let_def)
  with True show ?thesis by (simp add: lowercase_char_def [of "lowercase_char c"] Let_def)
next
  case False
  then have "lowercase_char c = c" unfolding lowercase_char_def Let_def by (rule if_not_P)
  then show ?thesis by simp
qed

lemma lowercase_idem [simp]: "lowercase (lowercase s) = lowercase s"
  by (simp add: lowercase_def lowercase_char_idem)

definition weapon_damage_per_shot :: "weapon_definition \<Rightarrow> fp" where
  "weapon_damage_per_shot w =
     (if lowercase (wd_type w) = ''projectile'' \<and> 0 < wd_pellets w \<and> 0 < wd_damage_per_pellet w
      then mulD (fp_of_int Double (wd_pellets w)) (fp_of_int Double (wd_damage_per_pellet w))
      else if 0 < wd_damage w then fp_of_int Double (wd_damage w)
      else Fin 0)"

definition weapon_dps :: "weapon_definition \<Rightarrow> fp" where
  "weapon_dps w = (if fp_le (wd_rate_of_fire w) (Fin 0) then Fin 0
     else mulD (weapon_damage_per_shot w) (fp_cast Double (wd_rate_of_fire w)))"

section \<open>Treasures and the inventory\<close>

record treasure_definition =
  tre_id :: string
  tre_value :: int
  tre_weight :: int
  tre_rarity :: string

type_synonym inventory = "treasure_definition list"

definition inventory_add :: "treasure_definition \<Rightarrow> inventory \<Rightarrow> inventory" where
  "inventory_add t items = items @ [t]"

definition inventory_total_value :: "inventory \<Rightarrow> int" where
  "inventory_total_value items = fold (\<lambda>t total. wrap_i32 (total + tre_value t)) items 0"

definition inventory_total_weight :: "inventory \<Rightarrow> int" where
  "inventory_total_weight items = fold (\<lambda>t total. wrap_i32 (total + tre_weight t)) items 0"

section \<open>The match timer\<close>

record match_timer =
  timer_remaining :: int
  timer_running :: bool
  timer_accumulator :: fp

definition match_timer_init :: match_timer where
  "match_timer_init = \<lparr>timer_remaining = 0, timer_running = False, timer_accumulator = Fin 0\<rparr>"

definition match_timer_start :: "int \<Rightarrow> match_timer \<Rightarrow> match_timer" where
  "match_timer_start duration t =
     t\<lparr>timer_remaining := duration, timer_running := True, timer_accumulator := Fin 0\<rparr>"

definition match_timer_tick :: "fp \<Rightarrow> match_timer \<Rightarrow> match_timer" where
  "match_timer_tick delta t =
     (if \<not> timer_running t then t
      else let t1 = t\<lparr>timer_accumulator := addF (timer_accumulator t) delta\<rparr> in
        if fp_le (Fin 1) (timer_accumulator t1)
        then let ticks = fp_to_i32 (timer_accumulator t1);
                 t2 = t1\<lparr>timer_accumulator := subF (timer_accumulator t1) (fp_of_int Single ticks),
                   timer_remaining := wrap_i32 (timer_remaining t1 - ticks)\<rparr>
          in if timer_remaining t2 \<le> 0 then t2\<lparr>timer_remaining := 0, timer_running := False\<rparr> else t2
        else t1)"

lemma inventory_totals_exact:
  "\<forall>k \<le> length items. in_i32 (sum_list (List.map tre_value (take k items))) \<Longrightarrow>
   inventory_total_value items = sum_list (List.map tre_value items)"
proof (induction items rule: rev_induct)
  case (snoc t items)
  have "in_i32 (sum_list (List.map tre_value (take k items)))" if "k \<le> length items" for k
    using snoc.prems that by (auto dest: spec [of _ k])
  with snoc.IH have "inventory_total_value items = sum_list (List.map tre_value items)" by blast
  moreover have "in_i32 (sum_list (List.map tre_value (items @ [t])))"
    using snoc.prems by (auto dest: spec [of _ "length (items @ [t])"])
  ultimately show ?case by (simp add: inventory_total_value_def)
qed (simp add: inventory_total_value_def)

text \<open>The timer never shows a negative time, and it stops when the time is used up.\<close>

lemma match_timer_tick_nonneg:
  "0 \<le> timer_remaining t \<Longrightarrow> 0 \<le> timer_remaining (match_timer_tick d t)
   \<and> (timer_running t \<longrightarrow> \<not> timer_running (match_timer_tick d t) \<longrightarrow> timer_remaining (match_timer_tick d t) = 0)"
  by (simp add: match_timer_tick_def Let_def)

end
