(* ===== verification/Combat.thy ===== *)
theory Combat
  imports Movement_Sim Game_Rules
begin

text \<open>
  The combat simulation of the server (server/CombatSimulation.h, server/src/CombatSimulation.cpp):
  health, queued shots, fire cooldowns, hitscan rays and delayed projectiles. \<open>resolve_tick\<close> is
  composed as in the code: due projectiles first, then the queued shots in the order of player and
  shot number.
\<close>

section \<open>Data\<close>

record combat_config =
  starting_health :: int
  default_hitscan_range :: fp
  default_projectile_range :: fp
  default_projectile_speed :: fp
  hit_radius :: fp

record fire_command =
  fire_attacker :: u32
  fire_seq :: u32
  fire_weapon_id :: string
  fire_origin_x :: fp
  fire_origin_y :: fp
  fire_direction_x :: fp
  fire_direction_y :: fp
  fire_received_at :: int

datatype fire_enqueue_status = FireAccepted | FireUnknownWeapon | FireOutOfOrder

record damage_resolution =
  dmg_tick :: u64
  dmg_attacker :: u32
  dmg_victim :: u32
  dmg_seq :: u32
  dmg_weapon_id :: string
  dmg_damage :: int
  dmg_victim_health :: int
  dmg_lethal :: bool

record death_resolution =
  death_tick :: u64
  death_victim :: u32
  death_killer :: u32
  death_seq :: u32
  death_weapon_id :: string

record combat_result =
  damage_events :: "damage_resolution list"
  death_events :: "death_resolution list"

record combat_player =
  pc_player_id :: u32
  pc_health :: int
  pc_alive :: bool
  pc_last_shot_seq :: u32

datatype weapon_class = Hitscan | Projectile

record weapon_runtime =
  wr_id :: string
  wr_class :: weapon_class
  wr_damage :: int
  wr_rate_of_fire :: fp
  wr_range :: fp
  wr_projectile_speed :: fp

record pending_hit =
  ph_resolve_tick :: u64
  ph_attacker :: u32
  ph_victim :: u32
  ph_seq :: u32
  ph_weapon_id :: string
  ph_damage :: int

record raycast_hit =
  ray_victim :: u32
  ray_distance :: fp

record combat_sim =
  cs_config :: combat_config
  cs_weapons :: "(string, weapon_runtime) umap"
  cs_players :: "(u32, combat_player) umap"
  cs_positions :: "(u32, fp \<times> fp) umap"
  cs_queues :: "fire_command queues"
  cs_last_seq :: "(u32, u32) umap"
  cs_next_fire :: "(u32, u64) umap"
  cs_pending :: "pending_hit list"

section \<open>Construction\<close>

definition sanitize_combat_config :: "combat_config \<Rightarrow> combat_config" where
  "sanitize_combat_config c =
     \<lparr>starting_health = (if starting_health c \<le> 0 then 100 else starting_health c),
      default_hitscan_range = sanitize_positive (default_hitscan_range c) (litF 128),
      default_projectile_range = sanitize_positive (default_projectile_range c) (litF 96),
      default_projectile_speed = sanitize_positive (default_projectile_speed c) (litF 40),
      hit_radius = sanitize_positive (hit_radius c) (litF (3 / 4))\<rparr>"

definition classify_weapon :: "weapon_definition \<Rightarrow> weapon_class" where
  "classify_weapon w = (if lowercase (wd_type w) = ''projectile'' then Projectile else Hitscan)"

definition make_weapon :: "combat_config \<Rightarrow> weapon_definition \<Rightarrow> weapon_runtime option" where
  "make_weapon c w =
     (if wd_id w = [] then None
      else let damage = max 0 (wrap_i32 (fp_lround (weapon_damage_per_shot w))) in
        if damage \<le> 0 then None
        else let rate = (if fp_is_finite (wd_rate_of_fire w) \<and> fp_lt (Fin 0) (wd_rate_of_fire w)
                 then wd_rate_of_fire w else Fin 1) in
          Some (case classify_weapon w of
              Hitscan \<Rightarrow> \<lparr>wr_id = lowercase (wd_id w), wr_class = Hitscan, wr_damage = damage,
                wr_rate_of_fire = rate,
                wr_range = (if fp_is_finite (wd_range_units w) \<and> fp_lt (Fin 0) (wd_range_units w)
                  then wd_range_units w else default_hitscan_range c),
                wr_projectile_speed = Fin 0\<rparr>
            | Projectile \<Rightarrow> \<lparr>wr_id = lowercase (wd_id w), wr_class = Projectile, wr_damage = damage,
                wr_rate_of_fire = rate,
                wr_range = (if fp_is_finite (wd_range_units w) \<and> fp_lt (Fin 0) (wd_range_units w)
                  then wd_range_units w else default_projectile_range c),
                wr_projectile_speed =
                  (if fp_is_finite (wd_projectile_speed w) \<and> fp_lt (Fin 0) (wd_projectile_speed w)
                   then wd_projectile_speed w else default_projectile_speed c)\<rparr>))"

definition combat_init :: "weapon_definition list \<Rightarrow> combat_config \<Rightarrow> combat_sim" where
  "combat_init weapons config =
     (let c = sanitize_combat_config config in
      \<lparr>cs_config = c,
       cs_weapons = fold (\<lambda>w m. case make_weapon c w of None \<Rightarrow> m
         | Some r \<Rightarrow> umap_put (wr_id r) r m) weapons [],
       cs_players = [], cs_positions = [], cs_queues = [], cs_last_seq = [], cs_next_fire = [],
       cs_pending = []\<rparr>)"

section \<open>Players and positions\<close>

definition combat_reset :: "combat_sim \<Rightarrow> combat_sim" where
  "combat_reset s = s\<lparr>cs_players := [], cs_positions := [], cs_queues := [], cs_last_seq := [],
     cs_next_fire := [], cs_pending := []\<rparr>"

definition fresh_combat_player :: "combat_sim \<Rightarrow> u32 \<Rightarrow> combat_player" where
  "fresh_combat_player s p = \<lparr>pc_player_id = p, pc_health = starting_health (cs_config s),
     pc_alive = True, pc_last_shot_seq = 0\<rparr>"

definition combat_ensure :: "u32 \<Rightarrow> combat_sim \<Rightarrow> combat_sim" where
  "combat_ensure p s = (case umap_find (cs_players s) p of
      Some c \<Rightarrow> s
    | None \<Rightarrow> s\<lparr>cs_players := umap_put p (fresh_combat_player s p) (cs_players s)\<rparr>)"

definition combat_remove :: "u32 \<Rightarrow> combat_sim \<Rightarrow> combat_sim" where
  "combat_remove p s = s\<lparr>cs_players := umap_erase p (cs_players s),
     cs_positions := umap_erase p (cs_positions s), cs_queues := umap_erase p (cs_queues s),
     cs_last_seq := umap_erase p (cs_last_seq s), cs_next_fire := umap_erase p (cs_next_fire s),
     cs_pending := filter (\<lambda>h. \<not> (ph_attacker h = p \<or> ph_victim h = p)) (cs_pending s)\<rparr>"

definition combat_respawn :: "u32 \<Rightarrow> combat_sim \<Rightarrow> combat_sim" where
  "combat_respawn p s =
     (let s1 = combat_ensure p s in
      case umap_find (cs_players s1) p of
        None \<Rightarrow> s1
      | Some c \<Rightarrow> s1\<lparr>cs_players := umap_put p
            (c\<lparr>pc_health := starting_health (cs_config s1), pc_alive := True\<rparr>) (cs_players s1),
          cs_pending := filter (\<lambda>h. ph_victim h \<noteq> p) (cs_pending s1)\<rparr>)"

definition set_player_position :: "u32 \<Rightarrow> fp \<Rightarrow> fp \<Rightarrow> combat_sim \<Rightarrow> combat_sim" where
  "set_player_position p x y s =
     (let s1 = combat_ensure p s in
      if \<not> fp_is_finite x \<or> \<not> fp_is_finite y then s1
      else s1\<lparr>cs_positions := umap_put p (x, y) (cs_positions s1)\<rparr>)"

definition set_player_positions :: "motion_state list \<Rightarrow> combat_sim \<Rightarrow> combat_sim" where
  "set_player_positions states s =
     fold (\<lambda>m. set_player_position (mot_player_id m) (mot_position_x m) (mot_position_y m)) states s"

section \<open>Queueing shots\<close>

definition enqueue_fire :: "fire_command \<Rightarrow> combat_sim \<Rightarrow> fire_enqueue_status \<times> combat_sim" where
  "enqueue_fire f s =
     (let weapon_id = lowercase (fire_weapon_id f) in
      if umap_find (cs_weapons s) weapon_id = None then (FireUnknownWeapon, s)
      else if (case umap_find (cs_last_seq s) (fire_attacker f) of
          Some newest \<Rightarrow> fire_seq f \<le> newest | None \<Rightarrow> False)
      then (FireOutOfOrder, s)
      else let queue = queue_for (cs_queues s) (fire_attacker f);
               s1 = s\<lparr>cs_queues := umap_put (fire_attacker f) queue (cs_queues s)\<rparr>
        in if queue \<noteq> [] \<and> fire_seq f \<le> fire_seq (last queue) then (FireOutOfOrder, s1)
           else (FireAccepted, combat_ensure (fire_attacker f)
             (s1\<lparr>cs_queues := umap_put (fire_attacker f) (queue @ [f\<lparr>fire_weapon_id := weapon_id\<rparr>]) (cs_queues s1),
                 cs_last_seq := umap_put (fire_attacker f) (fire_seq f) (cs_last_seq s1)\<rparr>)))"

definition drain_fire_commands :: "combat_sim \<Rightarrow> (fire_command \<times> weapon_runtime option) list \<times> combat_sim" where
  "drain_fire_commands s = (case drain_by_player (cs_queues s) of (fires, qs) \<Rightarrow>
     (List.map (\<lambda>f. (f, umap_find (cs_weapons s) (fire_weapon_id f))) fires, s\<lparr>cs_queues := qs\<rparr>))"

section \<open>Ticks of cooldown and travel\<close>

definition cooldown_ticks :: "fp \<Rightarrow> int \<Rightarrow> u64" where
  "cooldown_ticks rate tick_interval =
     (if \<not> fp_is_finite rate \<or> fp_le rate (Fin 0) \<or> tick_interval \<le> 0 then 1
      else let shot_interval = divD (Fin 1) (fp_cast Double rate);
               tick_seconds = divD (fp_of_int Double tick_interval) (fp_of_int Double 1000000000)
        in if fp_le tick_seconds (Fin 0) then 1
           else let ticks = fp_ceil (divD shot_interval tick_seconds)
             in if fp_lt ticks (Fin 1) then 1
                else if fp_lt (fp_of_int Double (2 ^ 64 - 1)) ticks then - 1
                else fp_to_u64 ticks)"

definition travel_delay_ticks :: "fp \<Rightarrow> fp \<Rightarrow> int \<Rightarrow> u64" where
  "travel_delay_ticks distance speed tick_interval =
     (if \<not> fp_is_finite distance \<or> fp_lt distance (Fin 0) \<or> \<not> fp_is_finite speed
          \<or> fp_le speed (Fin 0) \<or> tick_interval \<le> 0 then 1
      else let travel_seconds = divD (fp_cast Double distance) (fp_cast Double speed);
               tick_seconds = divD (fp_of_int Double tick_interval) (fp_of_int Double 1000000000)
        in if fp_le tick_seconds (Fin 0) then 1
           else let ticks = fp_ceil (divD travel_seconds tick_seconds)
             in if fp_lt ticks (Fin 1) then 1
                else if fp_lt (fp_of_int Double (2 ^ 64 - 1)) ticks then - 1
                else fp_to_u64 ticks)"

section \<open>Rays\<close>

text \<open>The distance along the ray at which a living player other than the shooter is hit.\<close>

definition hit_candidate :: "combat_sim \<Rightarrow> fire_command \<Rightarrow> fp \<Rightarrow> fp \<Rightarrow> fp \<Rightarrow> u32 \<Rightarrow> combat_player \<Rightarrow> fp option" where
  "hit_candidate s f dir_x dir_y range_units victim state =
     (if victim = fire_attacker f \<or> \<not> pc_alive state then None
      else case umap_find (cs_positions s) victim of
        None \<Rightarrow> None
      | Some (px, py) \<Rightarrow>
          let rel_x = subF px (fire_origin_x f);
              rel_y = subF py (fire_origin_y f);
              along = addF (mulF rel_x dir_x) (mulF rel_y dir_y)
          in if \<not> fp_is_finite along \<or> fp_lt along (Fin 0) \<or> fp_lt range_units along then None
             else let closest_x = addF (fire_origin_x f) (mulF dir_x along);
                      closest_y = addF (fire_origin_y f) (mulF dir_y along);
                      delta_x = subF px closest_x;
                      delta_y = subF py closest_y;
                      distance_sq = addF (mulF delta_x delta_x) (mulF delta_y delta_y);
                      radius_sq = mulF (hit_radius (cs_config s)) (hit_radius (cs_config s))
               in if \<not> fp_is_finite distance_sq \<or> fp_lt radius_sq distance_sq then None
                  else Some along)"

definition distance_tie :: "fp \<Rightarrow> fp \<Rightarrow> bool" where
  "distance_tie a b = fp_le (fp_abs (subF a b)) (litF (1 / 1000000))"

definition better_hit :: "u32 \<Rightarrow> fp \<Rightarrow> raycast_hit option \<Rightarrow> raycast_hit option" where
  "better_hit victim along best =
     (case best of
        None \<Rightarrow> Some \<lparr>ray_victim = victim, ray_distance = along\<rparr>
      | Some b \<Rightarrow>
          if fp_lt along (ray_distance b) \<or> distance_tie along (ray_distance b) \<and> victim < ray_victim b
          then Some \<lparr>ray_victim = victim, ray_distance = along\<rparr> else best)"

definition raycast_victim :: "combat_sim \<Rightarrow> fire_command \<Rightarrow> weapon_runtime option \<Rightarrow> raycast_hit option" where
  "raycast_victim s f weapon =
     (case weapon of
        None \<Rightarrow> None
      | Some w \<Rightarrow>
          let dir_length_sq = addF (mulF (fire_direction_x f) (fire_direction_x f))
                (mulF (fire_direction_y f) (fire_direction_y f))
          in if \<not> fp_is_finite dir_length_sq \<or> fp_lt dir_length_sq (litF (1 / 1000000)) then None
             else let dir_length = sqrtF dir_length_sq;
                      dir_x = divF (fire_direction_x f) dir_length;
                      dir_y = divF (fire_direction_y f) dir_length
               in fold (\<lambda>(victim, state) best.
                    case hit_candidate s f dir_x dir_y (wr_range w) victim state of
                      None \<Rightarrow> best
                    | Some along \<Rightarrow> better_hit victim along best) (cs_players s) None)"

section \<open>Damage\<close>

definition apply_damage :: "u64 \<Rightarrow> pending_hit \<Rightarrow> combat_result \<times> combat_sim \<Rightarrow> combat_result \<times> combat_sim" where
  "apply_damage tick hit st =
     (case st of (out, s) \<Rightarrow>
       (case umap_find (cs_players s) (ph_victim hit) of
          None \<Rightarrow> (out, s)
        | Some v \<Rightarrow>
            if \<not> pc_alive v then (out, s)
            else let damage = max 0 (ph_damage hit) in
              if damage \<le> 0 then (out, s)
              else let health = max 0 (pc_health v - damage);
                       lethal = (health = 0);
                       v' = (if lethal then v\<lparr>pc_health := health, pc_alive := False\<rparr>
                         else v\<lparr>pc_health := health\<rparr>);
                       out1 = out\<lparr>damage_events := damage_events out @
                         [\<lparr>dmg_tick = tick, dmg_attacker = ph_attacker hit, dmg_victim = ph_victim hit,
                           dmg_seq = ph_seq hit, dmg_weapon_id = ph_weapon_id hit, dmg_damage = damage,
                           dmg_victim_health = health, dmg_lethal = lethal\<rparr>]\<rparr>;
                       out2 = (if lethal then out1\<lparr>death_events := death_events out1 @
                         [\<lparr>death_tick = tick, death_victim = ph_victim hit, death_killer = ph_attacker hit,
                           death_seq = ph_seq hit, death_weapon_id = ph_weapon_id hit\<rparr>]\<rparr> else out1)
                in (out2, s\<lparr>cs_players := umap_put (ph_victim hit) v' (cs_players s)\<rparr>)))"

definition pending_less :: "pending_hit \<Rightarrow> pending_hit \<Rightarrow> bool" where
  "pending_less l r =
     (if ph_resolve_tick l \<noteq> ph_resolve_tick r then ph_resolve_tick l < ph_resolve_tick r
      else if ph_attacker l \<noteq> ph_attacker r then ph_attacker l < ph_attacker r
      else if ph_seq l \<noteq> ph_seq r then ph_seq l < ph_seq r
      else ph_victim l < ph_victim r)"

definition resolve_projectiles :: "u64 \<Rightarrow> combat_result \<times> combat_sim \<Rightarrow> combat_result \<times> combat_sim" where
  "resolve_projectiles tick st =
     (case st of (out, s) \<Rightarrow>
       let due = filter (\<lambda>h. ph_resolve_tick h \<le> tick) (cs_pending s);
           remaining = filter (\<lambda>h. \<not> ph_resolve_tick h \<le> tick) (cs_pending s)
       in fold (apply_damage tick) (std_sort pending_less due) (out, s\<lparr>cs_pending := remaining\<rparr>))"

section \<open>A tick\<close>

definition next_allowed_tick :: "combat_sim \<Rightarrow> u32 \<Rightarrow> u64" where
  "next_allowed_tick s p = (case umap_find (cs_next_fire s) p of None \<Rightarrow> 0 | Some t \<Rightarrow> t)"

definition resolve_fire :: "u64 \<Rightarrow> int \<Rightarrow> fire_command \<times> weapon_runtime option
    \<Rightarrow> combat_result \<times> combat_sim \<Rightarrow> combat_result \<times> combat_sim" where
  "resolve_fire tick tick_interval fire st =
     (case fire of (f, weapon) \<Rightarrow> case st of (out, s) \<Rightarrow>
       (case umap_find (cs_players s) (fire_attacker f) of
          None \<Rightarrow> (out, s)
        | Some a \<Rightarrow>
            if \<not> pc_alive a then (out, s)
            else case weapon of
              None \<Rightarrow> (out, s)
            | Some w \<Rightarrow>
                if tick < next_allowed_tick s (fire_attacker f) then (out, s)
                else let s1 = s\<lparr>cs_next_fire := umap_put (fire_attacker f)
                           (tick + cooldown_ticks (wr_rate_of_fire w) tick_interval) (cs_next_fire s)\<rparr>;
                         s2 = s1\<lparr>cs_players := umap_put (fire_attacker f)
                           (a\<lparr>pc_last_shot_seq := max (pc_last_shot_seq a) (fire_seq f)\<rparr>) (cs_players s1)\<rparr>
                  in case raycast_victim s2 f weapon of
                    None \<Rightarrow> (out, s2)
                  | Some hit \<Rightarrow>
                      (case wr_class w of
                         Hitscan \<Rightarrow> apply_damage tick
                           \<lparr>ph_resolve_tick = tick, ph_attacker = fire_attacker f,
                            ph_victim = ray_victim hit, ph_seq = fire_seq f, ph_weapon_id = wr_id w,
                            ph_damage = wr_damage w\<rparr> (out, s2)
                       | Projectile \<Rightarrow>
                           let delay = travel_delay_ticks (ray_distance hit) (wr_projectile_speed w) tick_interval
                           in (out, s2\<lparr>cs_pending := cs_pending s2 @
                             [\<lparr>ph_resolve_tick = tick + delay, ph_attacker = fire_attacker f,
                               ph_victim = ray_victim hit, ph_seq = fire_seq f, ph_weapon_id = wr_id w,
                               ph_damage = wr_damage w\<rparr>]\<rparr>))))"

definition combat_resolve_tick :: "u64 \<Rightarrow> int \<Rightarrow> combat_sim \<Rightarrow> combat_result \<times> combat_sim" where
  "combat_resolve_tick tick tick_interval s =
     (let (out, s1) = resolve_projectiles tick (\<lparr>damage_events = [], death_events = []\<rparr>, s);
          (fires, s2) = drain_fire_commands s1
      in fold (resolve_fire tick tick_interval) fires (out, s2))"

definition combat_state_for :: "combat_sim \<Rightarrow> u32 \<Rightarrow> combat_player option" where
  "combat_state_for s p = umap_find (cs_players s) p"

definition combat_player_less :: "combat_player \<Rightarrow> combat_player \<Rightarrow> bool" where
  "combat_player_less l r \<longleftrightarrow> pc_player_id l < pc_player_id r"

definition combat_snapshot :: "combat_sim \<Rightarrow> combat_player list" where
  "combat_snapshot s = std_sort combat_player_less (List.map snd (cs_players s))"

fun fire_enqueue_status_to_string :: "fire_enqueue_status \<Rightarrow> string" where
  "fire_enqueue_status_to_string FireAccepted = ''accepted''"
| "fire_enqueue_status_to_string FireUnknownWeapon = ''unknown_weapon''"
| "fire_enqueue_status_to_string FireOutOfOrder = ''out_of_order''"

section \<open>The player table and the shot queue\<close>

lemma ensure_config [simp]: "cs_config (combat_ensure p s) = cs_config s"
  by (simp add: combat_ensure_def split: option.split)

interpretation combat_players: player_listing cs_players combat_ensure fresh_combat_player pc_player_id
  combat_player_less pc_player_id "\<lambda>s c. c" combat_snapshot
  by unfold_locales (auto simp: combat_ensure_def fresh_combat_player_def combat_player_less_def
    combat_snapshot_def comp_def split: option.split)

definition combat_enq :: "fire_command \<Rightarrow> combat_sim \<Rightarrow> bool \<times> combat_sim" where
  "combat_enq f s = (fst (enqueue_fire f s) = FireAccepted, snd (enqueue_fire f s))"

definition combat_drain :: "combat_sim \<Rightarrow> fire_command list \<times> combat_sim" where
  "combat_drain s = (List.map fst (fst (drain_fire_commands s)), snd (drain_fire_commands s))"

lemma ensure_queues [simp]: "cs_queues (combat_ensure p s) = cs_queues s"
    "cs_last_seq (combat_ensure p s) = cs_last_seq s"
  by (simp_all add: combat_ensure_def split: option.split)

lemma queue_for_self [simp]: "queue_for (umap_put p (queue_for q p) q) p' = queue_for q p'"
  by (simp add: queue_for_put)

lemma enqueue_fire_cases:
  assumes "enqueue_fire f s = (st, s')"
  obtains (rejected) "st \<noteq> FireAccepted" "s' = s \<or>
      s' = s\<lparr>cs_queues := umap_put (fire_attacker f) (queue_for (cs_queues s) (fire_attacker f)) (cs_queues s)\<rparr>"
  | (accepted) "st = FireAccepted" "umap_find (cs_weapons s) (lowercase (fire_weapon_id f)) \<noteq> None"
      "\<And>n. umap_find (cs_last_seq s) (fire_attacker f) = Some n \<Longrightarrow> n < fire_seq f"
      "\<And>p. queue_for (cs_queues s') p = (if p = fire_attacker f then queue_for (cs_queues s) p
         @ [f\<lparr>fire_weapon_id := lowercase (fire_weapon_id f)\<rparr>] else queue_for (cs_queues s) p)"
      "cs_last_seq s' = umap_put (fire_attacker f) (fire_seq f) (cs_last_seq s)"
      "umap_ok (cs_queues s) \<Longrightarrow> umap_ok (cs_queues s')"
proof -
  let ?stale = "case umap_find (cs_last_seq s) (fire_attacker f) of
    Some newest \<Rightarrow> fire_seq f \<le> newest | None \<Rightarrow> False"
  show ?thesis
  proof (cases "st = FireAccepted")
    case True
    then have known: "umap_find (cs_weapons s) (lowercase (fire_weapon_id f)) \<noteq> None" and new: "\<not> ?stale"
      using assms by (simp_all add: enqueue_fire_def Let_def split: if_split_asm)
    from True have "s' = combat_ensure (fire_attacker f) (s\<lparr>cs_queues := umap_put (fire_attacker f)
        (queue_for (cs_queues s) (fire_attacker f) @ [f\<lparr>fire_weapon_id := lowercase (fire_weapon_id f)\<rparr>])
        (umap_put (fire_attacker f) (queue_for (cs_queues s) (fire_attacker f)) (cs_queues s)),
        cs_last_seq := umap_put (fire_attacker f) (fire_seq f) (cs_last_seq s)\<rparr>)"
      using assms by (simp add: enqueue_fire_def Let_def split: if_split_asm)
    with True known new show ?thesis
      by (intro accepted) (simp_all add: queue_for_put not_le)
  next
    case False
    with assms show ?thesis
      by (intro rejected) (auto simp: enqueue_fire_def Let_def split: if_split_asm)
  qed
qed

interpretation fires: seq_queue fire_attacker fire_seq "\<lambda>f. f\<lparr>fire_weapon_id := lowercase (fire_weapon_id f)\<rparr>"
  "\<lambda>s. umap_ok (cs_queues s)" cs_queues "\<lambda>s. umap_find (cs_last_seq s)" combat_enq combat_drain
proof unfold_locales
  fix s s' f p n
  show "umap_ok (cs_queues (snd (combat_enq f s)))" if ok: "umap_ok (cs_queues s)"
  proof -
    have "enqueue_fire f s = (fst (enqueue_fire f s), snd (enqueue_fire f s))" by simp
    then show ?thesis using ok by (cases rule: enqueue_fire_cases) (auto simp: combat_enq_def)
  qed
  show "umap_ok (cs_queues (snd (combat_drain s)))" if "umap_ok (cs_queues s)"
    using that by (simp add: combat_drain_def drain_fire_commands_def case_prod_beta drain_by_player_ok)
  {
    assume "combat_enq f s = (False, s')"
    then have "enqueue_fire f s = (fst (enqueue_fire f s), s')" "fst (enqueue_fire f s) \<noteq> FireAccepted"
      by (auto simp: combat_enq_def prod_eq_iff)
    then have "s' = s \<or>
      s' = s\<lparr>cs_queues := umap_put (fire_attacker f) (queue_for (cs_queues s) (fire_attacker f)) (cs_queues s)\<rparr>"
      by (cases rule: enqueue_fire_cases) simp_all
    then show "queue_for (cs_queues s') p = queue_for (cs_queues s) p"
      and "umap_find (cs_last_seq s) p = Some n \<Longrightarrow> umap_find (cs_last_seq s') p = Some n"
      by auto
  }
  assume "combat_enq f s = (True, s')"
  then have e: "enqueue_fire f s = (FireAccepted, s')" by (auto simp: combat_enq_def prod_eq_iff)
  from e show "queue_for (cs_queues s') p = (if p = fire_attacker f then queue_for (cs_queues s) p
      @ [f\<lparr>fire_weapon_id := lowercase (fire_weapon_id f)\<rparr>] else queue_for (cs_queues s) p)"
    by (cases rule: enqueue_fire_cases) auto
  from e have l: "cs_last_seq s' = umap_put (fire_attacker f) (fire_seq f) (cs_last_seq s)"
    by (cases rule: enqueue_fire_cases) auto
  then show "umap_find (cs_last_seq s') (fire_attacker f) = Some (fire_seq f)" by (simp add: find_put)
  show "umap_find (cs_last_seq s') p = Some n"
    if "umap_find (cs_last_seq s) p = Some n" "p \<noteq> fire_attacker f"
    using that by (simp add: l find_put)
  from e show "umap_find (cs_last_seq s) (fire_attacker f) = Some n \<Longrightarrow> n < fire_seq f"
    by (cases rule: enqueue_fire_cases) auto
qed (auto simp: combat_drain_def drain_fire_commands_def case_prod_beta comp_def drain_by_player_rest)

section \<open>Accounting for damage\<close>

definition damage_to :: "u32 \<Rightarrow> damage_resolution list \<Rightarrow> int" where
  "damage_to p ds = sum_list (List.map dmg_damage (filter (\<lambda>d. dmg_victim d = p) ds))"

lemma damage_to_append [simp]: "damage_to p (ds @ es) = damage_to p ds + damage_to p es"
  by (simp add: damage_to_def)

definition player_ok :: "int \<Rightarrow> combat_player \<Rightarrow> bool" where
  "player_ok full v \<longleftrightarrow> 0 \<le> pc_health v \<and> pc_health v \<le> full \<and> (pc_alive v \<longleftrightarrow> 0 < pc_health v)"

text \<open>What happens to one player while the damage events \<open>ds\<close> and the deaths \<open>ks\<close> are recorded.\<close>

definition fate :: "u32 \<Rightarrow> damage_resolution list \<Rightarrow> death_resolution list \<Rightarrow> combat_player \<Rightarrow> combat_player \<Rightarrow> bool" where
  "fate p ds ks v v' \<longleftrightarrow> pc_player_id v' = pc_player_id v
     \<and> pc_health v' = max 0 (pc_health v - damage_to p ds) \<and> (pc_alive v' \<longleftrightarrow> 0 < pc_health v')
     \<and> length (filter (\<lambda>k. death_victim k = p) ks) = (if pc_alive v \<and> \<not> pc_alive v' then 1 else 0)
     \<and> (\<not> pc_alive v \<longrightarrow> filter (\<lambda>d. dmg_victim d = p) ds = []) \<and> 0 \<le> damage_to p ds"

definition explained :: "damage_resolution list \<Rightarrow> death_resolution \<Rightarrow> bool" where
  "explained ds k \<longleftrightarrow> (\<exists>d \<in> set ds. dmg_lethal d \<and> dmg_victim_health d = 0 \<and> dmg_victim d = death_victim k
     \<and> dmg_attacker d = death_killer k \<and> dmg_seq d = death_seq k \<and> dmg_tick d = death_tick k)"

definition accounted :: "combat_result \<times> combat_sim \<Rightarrow> combat_result \<times> combat_sim \<Rightarrow> bool" where
  "accounted st st' \<longleftrightarrow> (\<exists>ds ks. damage_events (fst st') = damage_events (fst st) @ ds
     \<and> death_events (fst st') = death_events (fst st) @ ks
     \<and> (\<forall>k \<in> set ks. explained ds k)
     \<and> cs_config (snd st') = cs_config (snd st)
     \<and> (umap_ok (cs_players (snd st)) \<longrightarrow> umap_ok (cs_players (snd st')))
     \<and> (\<forall>p. case umap_find (cs_players (snd st)) p of
          None \<Rightarrow> umap_find (cs_players (snd st')) p = None
        | Some v \<Rightarrow> \<exists>v'. umap_find (cs_players (snd st')) p = Some v'
            \<and> (0 \<le> pc_health v \<longrightarrow> (pc_alive v \<longleftrightarrow> 0 < pc_health v) \<longrightarrow> fate p ds ks v v')))"

lemma fate_refl: "0 \<le> pc_health v \<Longrightarrow> (pc_alive v \<longleftrightarrow> 0 < pc_health v) \<Longrightarrow> fate p [] [] v v"
  by (simp add: fate_def damage_to_def)

lemma fate_trans:
  assumes "fate p ds ks u v" and "fate p ds' ks' v w" and "0 \<le> pc_health u"
    and "pc_alive u \<longleftrightarrow> 0 < pc_health u"
  shows "fate p (ds @ ds') (ks @ ks') u w"
proof -
  note a = assms(1) [unfolded fate_def] and b = assms(2) [unfolded fate_def]
  have health: "pc_health w = max 0 (pc_health u - (damage_to p ds + damage_to p ds'))"
    using a b by linarith
  have dead: "\<not> pc_alive v \<Longrightarrow> \<not> pc_alive w" "\<not> pc_alive v \<Longrightarrow> damage_to p ds' = 0"
    using a b by (auto simp: damage_to_def)
  have alive: "\<not> pc_alive u \<Longrightarrow> \<not> pc_alive v" using a assms(4) by (auto simp: damage_to_def)
  have deaths: "length (filter (\<lambda>k. death_victim k = p) ks) + length (filter (\<lambda>k. death_victim k = p) ks')
      = (if pc_alive u \<and> \<not> pc_alive w then 1 else 0)"
    using a b dead(1) alive by (cases "pc_alive u"; cases "pc_alive v"; cases "pc_alive w") simp_all
  have quiet: "filter (\<lambda>d. dmg_victim d = p) (ds @ ds') = []" if "\<not> pc_alive u"
    using a b alive that by simp
  show ?thesis
    unfolding fate_def using a b health deaths quiet by simp
qed

lemma accountedI:
  assumes "damage_events out' = damage_events out @ ds" and "death_events out' = death_events out @ ks"
    and "\<And>k. k \<in> set ks \<Longrightarrow> explained ds k" and "cs_config s' = cs_config s"
    and "umap_ok (cs_players s) \<Longrightarrow> umap_ok (cs_players s')"
    and "\<And>p. umap_find (cs_players s) p = None \<Longrightarrow> umap_find (cs_players s') p = None"
    and "\<And>p v. umap_find (cs_players s) p = Some v \<Longrightarrow> \<exists>v'. umap_find (cs_players s') p = Some v'
      \<and> (0 \<le> pc_health v \<longrightarrow> (pc_alive v \<longleftrightarrow> 0 < pc_health v) \<longrightarrow> fate p ds ks v v')"
  shows "accounted (out, s) (out', s')"
  using assms unfolding accounted_def
  by (intro exI [of _ ds] exI [of _ ks]) (simp split: option.split)

lemma accounted_refl: "accounted st st"
  by (cases st) (auto intro!: accountedI [of _ _ "[]" "[]"] fate_refl)

lemma accounted_trans:
  assumes "accounted st st1" and "accounted st1 st2"
  shows "accounted st st2"
proof -
  obtain ds ks where a: "damage_events (fst st1) = damage_events (fst st) @ ds"
    "death_events (fst st1) = death_events (fst st) @ ks" "\<forall>k \<in> set ks. explained ds k"
    "cs_config (snd st1) = cs_config (snd st)" "umap_ok (cs_players (snd st)) \<longrightarrow> umap_ok (cs_players (snd st1))"
    and pa: "\<And>p. case umap_find (cs_players (snd st)) p of
          None \<Rightarrow> umap_find (cs_players (snd st1)) p = None
        | Some v \<Rightarrow> \<exists>v'. umap_find (cs_players (snd st1)) p = Some v'
            \<and> (0 \<le> pc_health v \<longrightarrow> (pc_alive v \<longleftrightarrow> 0 < pc_health v) \<longrightarrow> fate p ds ks v v')"
    using assms(1) unfolding accounted_def by auto
  obtain es ls where b: "damage_events (fst st2) = damage_events (fst st1) @ es"
    "death_events (fst st2) = death_events (fst st1) @ ls" "\<forall>k \<in> set ls. explained es k"
    "cs_config (snd st2) = cs_config (snd st1)" "umap_ok (cs_players (snd st1)) \<longrightarrow> umap_ok (cs_players (snd st2))"
    and pb: "\<And>p. case umap_find (cs_players (snd st1)) p of
          None \<Rightarrow> umap_find (cs_players (snd st2)) p = None
        | Some v \<Rightarrow> \<exists>v'. umap_find (cs_players (snd st2)) p = Some v'
            \<and> (0 \<le> pc_health v \<longrightarrow> (pc_alive v \<longleftrightarrow> 0 < pc_health v) \<longrightarrow> fate p es ls v v')"
    using assms(2) unfolding accounted_def by auto
  have "accounted (fst st, snd st) (fst st2, snd st2)"
  proof (rule accountedI [of _ _ "ds @ es" "ks @ ls"])
    show "explained (ds @ es) k" if "k \<in> set (ks @ ls)" for k
      using that a(3) b(3) by (auto simp: explained_def)
    show "umap_find (cs_players (snd st2)) p = None" if "umap_find (cs_players (snd st)) p = None" for p
      using that pa [of p] pb [of p] by simp
    show "\<exists>v'. umap_find (cs_players (snd st2)) p = Some v'
        \<and> (0 \<le> pc_health v \<longrightarrow> (pc_alive v \<longleftrightarrow> 0 < pc_health v) \<longrightarrow> fate p (ds @ es) (ks @ ls) v v')"
      if v: "umap_find (cs_players (snd st)) p = Some v" for p v
    proof -
      from pa [of p] v obtain u where u: "umap_find (cs_players (snd st1)) p = Some u"
        "0 \<le> pc_health v \<longrightarrow> (pc_alive v \<longleftrightarrow> 0 < pc_health v) \<longrightarrow> fate p ds ks v u" by auto
      from pb [of p] u(1) obtain w where w: "umap_find (cs_players (snd st2)) p = Some w"
        "0 \<le> pc_health u \<longrightarrow> (pc_alive u \<longleftrightarrow> 0 < pc_health u) \<longrightarrow> fate p es ls u w" by auto
      have "0 \<le> pc_health u \<and> (pc_alive u \<longleftrightarrow> 0 < pc_health u)" if "fate p ds ks v u"
        using that by (simp add: fate_def)
      with u(2) w show ?thesis by (auto intro: fate_trans)
    qed
  qed (use a b in auto)
  then show ?thesis by simp
qed

lemma accounted_fold:
  "(\<And>x st. x \<in> set xs \<Longrightarrow> accounted st (f x st)) \<Longrightarrow> accounted st (fold f xs st)"
proof (induction xs arbitrary: st)
  case Nil
  show ?case by (simp add: accounted_refl)
next
  case (Cons x xs)
  have "accounted st (f x st)" by (rule Cons.prems) simp
  moreover have "accounted (f x st) (fold f xs (f x st))" by (rule Cons.IH) (simp add: Cons.prems)
  ultimately show ?case unfolding fold_simps(2) by (rule accounted_trans)
qed

lemma accounted_apply_damage: "accounted st (apply_damage tick hit st)"
proof -
  obtain out s where st: "st = (out, s)" by (cases st)
  let ?p = "ph_victim hit" and ?d = "ph_damage hit"
  show ?thesis
  proof (cases "umap_find (cs_players s) ?p")
    case None
    then show ?thesis by (simp add: st apply_damage_def accounted_refl)
  next
    case (Some v)
    show ?thesis
    proof (cases "pc_alive v \<and> 0 < ?d")
      case False
      with Some show ?thesis by (auto simp: st apply_damage_def accounted_refl)
    next
      case True
      define h where "h = max 0 (pc_health v - ?d)"
      define v2 where "v2 = (if h = 0 then v\<lparr>pc_health := h, pc_alive := False\<rparr> else v\<lparr>pc_health := h\<rparr>)"
      define e where "e = \<lparr>dmg_tick = tick, dmg_attacker = ph_attacker hit, dmg_victim = ?p,
        dmg_seq = ph_seq hit, dmg_weapon_id = ph_weapon_id hit, dmg_damage = ?d,
        dmg_victim_health = h, dmg_lethal = (h = 0)\<rparr>"
      define ks where "ks = (if h = 0 then [\<lparr>death_tick = tick, death_victim = ?p,
        death_killer = ph_attacker hit, death_seq = ph_seq hit, death_weapon_id = ph_weapon_id hit\<rparr>] else [])"
      have eq: "apply_damage tick hit (out, s) = (out\<lparr>damage_events := damage_events out @ [e],
          death_events := death_events out @ ks\<rparr>, s\<lparr>cs_players := umap_put ?p v2 (cs_players s)\<rparr>)"
        using True by (simp add: apply_damage_def Some Let_def max_def e_def ks_def v2_def h_def)
      have fate: "fate p [e] ks u (if p = ?p then v2 else u)"
        if "umap_find (cs_players s) p = Some u" "0 \<le> pc_health u" "pc_alive u \<longleftrightarrow> 0 < pc_health u" for p u
        using that True Some by (cases "p = ?p")
          (auto simp: fate_def damage_to_def e_def ks_def v2_def h_def max_def)
      have "explained [e] k" if "k \<in> set ks" for k
        using that by (auto simp: explained_def e_def ks_def split: if_split_asm)
      then show ?thesis
        unfolding st eq
      proof (intro accountedI [of _ _ "[e]" ks])
        show "\<exists>u'. umap_find (cs_players (s\<lparr>cs_players := umap_put ?p v2 (cs_players s)\<rparr>)) p = Some u'
            \<and> (0 \<le> pc_health u \<longrightarrow> (pc_alive u \<longleftrightarrow> 0 < pc_health u) \<longrightarrow> fate p [e] ks u u')"
          if "umap_find (cs_players s) p = Some u" for p u
          using fate [OF that] that
          by (intro exI [of _ "if p = ?p then v2 else u"]) (simp add: find_put)
      qed (auto simp: find_put Some)
    qed
  qed
qed

lemma accounted_same_health:
  assumes "cs_config s' = cs_config s" and "umap_ok (cs_players s) \<Longrightarrow> umap_ok (cs_players s')"
    and "\<And>p. map_option (\<lambda>v. (pc_player_id v, pc_health v, pc_alive v)) (umap_find (cs_players s') p)
      = map_option (\<lambda>v. (pc_player_id v, pc_health v, pc_alive v)) (umap_find (cs_players s) p)"
  shows "accounted (out, s) (out, s')"
proof (rule accountedI [of _ _ "[]" "[]"])
  show "umap_find (cs_players s') p = None" if "umap_find (cs_players s) p = None" for p
    using assms(3) [of p] that by simp
  show "\<exists>v'. umap_find (cs_players s') p = Some v'
      \<and> (0 \<le> pc_health v \<longrightarrow> (pc_alive v \<longleftrightarrow> 0 < pc_health v) \<longrightarrow> fate p [] [] v v')"
    if "umap_find (cs_players s) p = Some v" for p v
  proof -
    from assms(3) [of p] that obtain v' where "umap_find (cs_players s') p = Some v'"
      "pc_player_id v' = pc_player_id v" "pc_health v' = pc_health v" "pc_alive v' = pc_alive v"
      by auto
    then show ?thesis by (auto simp: fate_def damage_to_def)
  qed
qed (use assms in auto)

lemma accounted_resolve_fire: "accounted st (resolve_fire tick dt fire st)"
proof -
  obtain f weapon out s where eq: "fire = (f, weapon)" "st = (out, s)" by (cases fire; cases st)
  show ?thesis
  proof (cases "\<exists>a w. umap_find (cs_players s) (fire_attacker f) = Some a \<and> pc_alive a \<and> weapon = Some w
      \<and> \<not> tick < next_allowed_tick s (fire_attacker f)")
    case False
    then have "resolve_fire tick dt fire st = st"
      by (auto simp: resolve_fire_def eq split: option.split)
    then show ?thesis by (simp add: accounted_refl)
  next
    case True
    then obtain a w where a: "umap_find (cs_players s) (fire_attacker f) = Some a" "pc_alive a" "weapon = Some w"
      "\<not> tick < next_allowed_tick s (fire_attacker f)" by blast
    define s2 where "s2 = s\<lparr>cs_next_fire := umap_put (fire_attacker f)
        (tick + cooldown_ticks (wr_rate_of_fire w) dt) (cs_next_fire s),
      cs_players := umap_put (fire_attacker f)
        (a\<lparr>pc_last_shot_seq := max (pc_last_shot_seq a) (fire_seq f)\<rparr>) (cs_players s)\<rparr>"
    have fired: "accounted (out, s) (out, s2)"
      using a(1) by (intro accounted_same_health) (auto simp: s2_def find_put)
    have pend: "accounted (out, s2) (out, s2\<lparr>cs_pending := h\<rparr>)" for h
      by (rule accounted_same_health) simp_all
    have "resolve_fire tick dt fire st = (out, s2) \<or> (\<exists>hit. resolve_fire tick dt fire st = apply_damage tick hit (out, s2))
        \<or> (\<exists>h. resolve_fire tick dt fire st = (out, s2\<lparr>cs_pending := h\<rparr>))"
      using a by (simp add: resolve_fire_def eq s2_def Let_def split: option.split weapon_class.split) blast
    with fired pend accounted_apply_damage accounted_trans show ?thesis
      unfolding eq by metis
  qed
qed

lemma accounted_projectiles: "accounted st (resolve_projectiles tick st)"
proof -
  obtain out s where st: "st = (out, s)" by (cases st)
  have "accounted (out, s) (out, s\<lparr>cs_pending := h\<rparr>)" for h
    by (rule accounted_same_health) simp_all
  then show ?thesis
    unfolding resolve_projectiles_def st Let_def prod.case
    by (rule accounted_trans) (rule accounted_fold, rule accounted_apply_damage)
qed

lemma accounted_tick:
  "accounted (\<lparr>damage_events = [], death_events = []\<rparr>, s) (combat_resolve_tick tick dt s)"
proof -
  let ?st = "resolve_projectiles tick (\<lparr>damage_events = [], death_events = []\<rparr>, s)"
  have "accounted ?st (fst ?st, snd (drain_fire_commands (snd ?st)))"
    using accounted_same_health [of "snd (drain_fire_commands (snd ?st))" "snd ?st" "fst ?st"]
    by (simp add: drain_fire_commands_def case_prod_beta)
  from accounted_trans [OF accounted_trans [OF accounted_projectiles this] accounted_fold [OF accounted_resolve_fire]]
  show ?thesis by (simp add: combat_resolve_tick_def Let_def case_prod_beta)
qed

section \<open>Every operation keeps the players well formed\<close>

definition combat_inv :: "combat_sim \<Rightarrow> bool" where
  "combat_inv s \<longleftrightarrow> combat_players.reg_ok s \<and> 0 < starting_health (cs_config s)
     \<and> (\<forall>p v. umap_find (cs_players s) p = Some v \<longrightarrow> player_ok (starting_health (cs_config s)) v)"

datatype combat_call = CombReset | CombEnsure u32 | CombRemove u32 | CombRespawn u32
  | CombPositions "motion_state list" | CombFire fire_command | CombTick u64 int

fun combat_exec :: "combat_call \<Rightarrow> combat_sim \<Rightarrow> combat_sim" where
  "combat_exec CombReset s = combat_reset s"
| "combat_exec (CombEnsure p) s = combat_ensure p s"
| "combat_exec (CombRemove p) s = combat_remove p s"
| "combat_exec (CombRespawn p) s = combat_respawn p s"
| "combat_exec (CombPositions ms) s = set_player_positions ms s"
| "combat_exec (CombFire f) s = snd (enqueue_fire f s)"
| "combat_exec (CombTick tick dt) s = snd (combat_resolve_tick tick dt s)"

lemma combat_inv_same:
  "cs_players s' = cs_players s \<Longrightarrow> cs_config s' = cs_config s \<Longrightarrow> combat_inv s \<Longrightarrow> combat_inv s'"
  by (simp add: combat_inv_def combat_players.reg_ok_def)

lemma combat_inv_put:
  "combat_inv s \<Longrightarrow> player_ok (starting_health (cs_config s)) v \<Longrightarrow> pc_player_id v = p
     \<Longrightarrow> combat_inv (s\<lparr>cs_players := umap_put p v (cs_players s)\<rparr>)"
  by (simp add: combat_inv_def combat_players.reg_ok_def find_put)

lemma combat_inv_ensure: "combat_inv s \<Longrightarrow> combat_inv (combat_ensure p s)"
proof -
  assume inv: "combat_inv s"
  then have "0 < starting_health (cs_config s)" by (simp add: combat_inv_def)
  then have "combat_inv (s\<lparr>cs_players := umap_put p (fresh_combat_player s p) (cs_players s)\<rparr>)"
    by (intro combat_inv_put inv) (simp_all add: fresh_combat_player_def player_ok_def)
  with inv show ?thesis by (simp add: combat_ensure_def split: option.split)
qed

lemma combat_inv_init: "combat_inv (combat_init ws c)"
  by (simp add: combat_inv_def combat_players.reg_ok_def combat_init_def Let_def sanitize_combat_config_def)

lemma combat_inv_respawn:
  assumes "combat_inv s"
  shows "combat_inv (combat_respawn p s)"
proof -
  let ?s = "combat_ensure p s"
  have inv: "combat_inv ?s" by (rule combat_inv_ensure [OF assms])
  obtain c where c: "umap_find (cs_players ?s) p = Some c" using combat_players.ensure_present by blast
  have "pc_player_id c = p" using inv c by (simp add: combat_inv_def combat_players.reg_ok_def)
  then have "combat_inv (?s\<lparr>cs_players := umap_put p
      (c\<lparr>pc_health := starting_health (cs_config ?s), pc_alive := True\<rparr>) (cs_players ?s)\<rparr>)"
    using inv by (intro combat_inv_put) (auto simp: player_ok_def combat_inv_def)
  then show ?thesis by (rule combat_inv_same [rotated 2]) (simp_all add: combat_respawn_def Let_def c)
qed

lemma combat_inv_fire: "combat_inv s \<Longrightarrow> combat_inv (snd (enqueue_fire f s))"
proof -
  assume inv: "combat_inv s"
  have "combat_inv (combat_ensure p (s\<lparr>cs_queues := q, cs_last_seq := l\<rparr>))" for p q l
    by (rule combat_inv_ensure, rule combat_inv_same [OF _ _ inv]) simp_all
  moreover have "combat_inv (s\<lparr>cs_queues := q\<rparr>)" for q
    by (rule combat_inv_same [OF _ _ inv]) simp_all
  ultimately show ?thesis using inv by (simp add: enqueue_fire_def Let_def)
qed

lemma combat_inv_positions: "combat_inv s \<Longrightarrow> combat_inv (set_player_positions ms s)"
  unfolding set_player_positions_def
proof (rule fold_preserves)
  show "combat_inv (set_player_position p x y s)" if "combat_inv s" for p x y s
    using combat_inv_ensure [OF that, of p]
    by (auto simp: set_player_position_def Let_def intro: combat_inv_same [of _ "combat_ensure p s"])
qed

lemma combat_inv_tick:
  assumes "combat_inv s"
  shows "combat_inv (snd (combat_resolve_tick tick dt s))"
proof -
  let ?s = "snd (combat_resolve_tick tick dt s)"
  obtain ds ks where c: "cs_config ?s = cs_config s" "umap_ok (cs_players s) \<longrightarrow> umap_ok (cs_players ?s)"
    and p: "\<And>p. case umap_find (cs_players s) p of
          None \<Rightarrow> umap_find (cs_players ?s) p = None
        | Some v \<Rightarrow> \<exists>v'. umap_find (cs_players ?s) p = Some v'
            \<and> (0 \<le> pc_health v \<longrightarrow> (pc_alive v \<longleftrightarrow> 0 < pc_health v) \<longrightarrow> fate p ds ks v v')"
    using accounted_tick [of s tick dt] by (auto simp: accounted_def)
  have "pc_player_id v' = q \<and> player_ok (starting_health (cs_config s)) v'"
    if v': "umap_find (cs_players ?s) q = Some v'" for q v'
  proof -
    from p [of q] v' obtain v where v: "umap_find (cs_players s) q = Some v"
      "0 \<le> pc_health v \<longrightarrow> (pc_alive v \<longleftrightarrow> 0 < pc_health v) \<longrightarrow> fate q ds ks v v'"
      by (auto split: option.splits)
    moreover from v(1) assms have "player_ok (starting_health (cs_config s)) v" "pc_player_id v = q"
      by (auto simp: combat_inv_def combat_players.reg_ok_def)
    ultimately show ?thesis by (auto simp: player_ok_def fate_def)
  qed
  with c assms show ?thesis by (auto simp: combat_inv_def combat_players.reg_ok_def)
qed

interpretation combat_machine: component "\<lambda>s. \<exists>ws c. s = combat_init ws c" combat_exec "\<lambda>call. True" combat_inv
proof unfold_locales
  show "combat_inv s" if "\<exists>ws c. s = combat_init ws c" for s
    using that combat_inv_init by auto
  show "combat_inv (combat_exec call s)" if "combat_inv s" for call s
  proof (cases call)
    case CombReset
    with that show ?thesis by (simp add: combat_inv_def combat_players.reg_ok_def combat_reset_def)
  next
    case (CombRemove p)
    with that show ?thesis
      by (auto simp: combat_inv_def combat_players.reg_ok_def combat_remove_def find_erase split: if_split_asm)
  qed (use that combat_inv_ensure combat_inv_respawn combat_inv_positions combat_inv_fire combat_inv_tick in auto)
qed

section \<open>Cooldowns\<close>

lemma apply_damage_next_fire: "cs_next_fire (snd (apply_damage tick hit st)) = cs_next_fire (snd st)"
  by (simp add: apply_damage_def case_prod_beta Let_def split: option.split)

lemma next_allowed_cong: "cs_next_fire s' = cs_next_fire s \<Longrightarrow> next_allowed_tick s' p = next_allowed_tick s p"
  by (simp add: next_allowed_tick_def)

lemma resolve_fire_other:
  assumes "fire_attacker (fst x) \<noteq> p"
  shows "next_allowed_tick (snd (resolve_fire tick dt x st)) p = next_allowed_tick (snd st) p"
  using assms
  by (cases x; cases st) (auto simp: resolve_fire_def Let_def next_allowed_tick_def find_put
      apply_damage_next_fire split: option.splits weapon_class.splits)

lemma resolve_fire_blocked:
  "tick < next_allowed_tick (snd st) (fire_attacker (fst x)) \<Longrightarrow> resolve_fire tick dt x st = st"
  by (cases x; cases st) (auto simp: resolve_fire_def split: option.split)

lemma blocked_fires_ignored:
  "tick < next_allowed_tick (snd st) p \<Longrightarrow> fold (resolve_fire tick dt) xs st
     = fold (resolve_fire tick dt) (filter (\<lambda>x. fire_attacker (fst x) \<noteq> p) xs) st"
proof (induction xs arbitrary: st)
  case (Cons x xs)
  then show ?case
    using resolve_fire_other [of x p tick dt st] resolve_fire_blocked [of tick st x dt]
    by (cases "fire_attacker (fst x) = p") auto
qed simp

lemma projectiles_next_fire:
  "cs_next_fire (snd (resolve_projectiles tick st)) = cs_next_fire (snd st)"
proof -
  have "cs_next_fire (snd (fold (apply_damage tick) hs st')) = cs_next_fire (snd st')" for hs st'
    by (rule fold_unchanged [where g = "\<lambda>st. cs_next_fire (snd st)"]) (rule apply_damage_next_fire)
  then show ?thesis by (simp add: resolve_projectiles_def case_prod_beta Let_def)
qed

section \<open>The nearest victim\<close>

definition ray_candidates :: "combat_sim \<Rightarrow> fire_command \<Rightarrow> fp \<Rightarrow> fp \<Rightarrow> fp \<Rightarrow> (u32 \<times> fp) list" where
  "ray_candidates s f dx dy r = List.map_filter
     (\<lambda>(v, state). map_option (Pair v) (hit_candidate s f dx dy r v state)) (cs_players s)"

definition ray_separated :: "(u32 \<times> fp) list \<Rightarrow> bool" where
  "ray_separated cs \<longleftrightarrow> (\<forall>c \<in> set cs. \<forall>d \<in> set cs. distance_tie (snd c) (snd d) \<longrightarrow> snd c = snd d)"

fun rat_of_fp :: "fp \<Rightarrow> rat" where
  "rat_of_fp (Fin q) = q"
| "rat_of_fp _ = 0"

definition nearest :: "(u32 \<times> fp) list \<Rightarrow> raycast_hit option" where
  "nearest cs = fold (\<lambda>(v, a). better_hit v a) cs None"

lemma fold_candidates:
  "fold (\<lambda>(v, state) best. case hit_candidate s f dx dy r v state of None \<Rightarrow> best | Some a \<Rightarrow> better_hit v a best)
     ps b = fold (\<lambda>(v, a). better_hit v a) (List.map_filter
       (\<lambda>(v, state). map_option (Pair v) (hit_candidate s f dx dy r v state)) ps) b"
  by (induction ps arbitrary: b) (auto simp: map_filter_simps split: option.split)

lemma distance_tie_refl: "distance_tie (Fin a) (Fin a)"
proof -
  have "fp_le (Fin 0) (litF (1 / 1000000))" by code_simp
  then show ?thesis by (simp add: distance_tie_def fp_sub_def round_fits)
qed

definition nearest_of :: "(u32 \<times> fp) list \<Rightarrow> raycast_hit \<Rightarrow> bool" where
  "nearest_of cs h \<longleftrightarrow> (ray_victim h, ray_distance h) \<in> set cs
     \<and> (\<forall>c \<in> set cs. (rat_of_fp (ray_distance h), ray_victim h) \<le> (rat_of_fp (snd c), fst c))"

lemma nearest_min:
  assumes "cs \<noteq> []" and "\<forall>c \<in> set cs. fp_is_finite (snd c)" and "ray_separated cs"
  shows "\<exists>h. nearest cs = Some h \<and> nearest_of cs h"
  using assms
proof (induction cs rule: rev_induct)
  case (snoc c cs)
  obtain v a where c: "c = (v, Fin a)" using snoc.prems(2) by (cases c; cases "snd c") auto
  show ?case
  proof (cases "cs = []")
    case True
    then show ?thesis by (simp add: nearest_def better_hit_def nearest_of_def c)
  next
    case False
    have sep: "ray_separated cs" using snoc.prems(3) by (simp add: ray_separated_def)
    from snoc.IH [OF False _ sep] snoc.prems(2) obtain h where h: "nearest cs = Some h" "nearest_of cs h"
      by auto
    then have mem: "(ray_victim h, ray_distance h) \<in> set cs" by (simp add: nearest_of_def)
    with snoc.prems(2) obtain b where b: "ray_distance h = Fin b" by (cases "ray_distance h") fastforce+
    have tie: "a = b" if "distance_tie (Fin a) (Fin b)"
      using snoc.prems(3) mem that by (fastforce simp: ray_separated_def c b)
    have step: "nearest (cs @ [c]) = better_hit v (Fin a) (Some h)"
      using h by (simp add: nearest_def c)
    show ?thesis
    proof (cases "a < b \<or> distance_tie (Fin a) (Fin b) \<and> v < ray_victim h")
      case True
      with tie have less: "(a, v) < (b, ray_victim h)" by (auto simp: less_prod_def)
      have "nearest (cs @ [c]) = Some \<lparr>ray_victim = v, ray_distance = Fin a\<rparr>"
        using True by (simp add: step better_hit_def b)
      moreover have "nearest_of (cs @ [c]) \<lparr>ray_victim = v, ray_distance = Fin a\<rparr>"
        using h(2) less by (auto simp: nearest_of_def c b intro: order_trans [OF less_imp_le])
      ultimately show ?thesis by blast
    next
      case no: False
      then have "(b, ray_victim h) \<le> (a, v)"
        using distance_tie_refl [of a] by (cases "a = b") (auto simp: less_eq_prod_def)
      then have "nearest_of (cs @ [c]) h" using h(2) by (auto simp: nearest_of_def c b)
      moreover have "nearest (cs @ [c]) = Some h" using no by (auto simp: step better_hit_def b)
      ultimately show ?thesis by blast
    qed
  qed
qed simp

lemma nearest_unique:
  assumes "nearest_of cs h" and "nearest_of cs' h'" and "set cs = set cs'"
    and fin: "\<forall>c \<in> set cs. fp_is_finite (snd c)"
  shows "h = h'"
proof -
  have m: "(ray_victim h, ray_distance h) \<in> set cs" "(ray_victim h', ray_distance h') \<in> set cs"
    using assms by (simp_all add: nearest_of_def)
  have least: "\<forall>c \<in> set cs. (rat_of_fp (ray_distance h), ray_victim h) \<le> (rat_of_fp (snd c), fst c)"
    "\<forall>c \<in> set cs. (rat_of_fp (ray_distance h'), ray_victim h') \<le> (rat_of_fp (snd c), fst c)"
    using assms(1-3) by (simp_all add: nearest_of_def)
  have "(rat_of_fp (ray_distance h), ray_victim h) \<le> (rat_of_fp (ray_distance h'), ray_victim h')"
    "(rat_of_fp (ray_distance h'), ray_victim h') \<le> (rat_of_fp (ray_distance h), ray_victim h)"
    using bspec [OF least(1) m(2)] bspec [OF least(2) m(1)] by (simp_all only: fst_conv snd_conv)
  then have "rat_of_fp (ray_distance h) = rat_of_fp (ray_distance h') \<and> ray_victim h = ray_victim h'"
    by (metis antisym prod.inject)
  moreover have "fp_is_finite (ray_distance h)" "fp_is_finite (ray_distance h')"
    using fin m by (metis snd_conv)+
  ultimately show "h = h'" by (cases "ray_distance h"; cases "ray_distance h'") simp_all
qed

lemma nearest_canonical:
  assumes "set cs = set cs'" and "\<forall>c \<in> set cs. fp_is_finite (snd c)" and "ray_separated cs"
  shows "nearest cs = nearest cs'"
proof (cases "cs = []")
  case True
  with assms(1) show ?thesis by simp
next
  case False
  moreover from this assms(1) have "cs' \<noteq> []" by auto
  moreover have "ray_separated cs'" using assms by (simp add: ray_separated_def)
  ultimately show ?thesis
    using nearest_min [of cs] nearest_min [of cs'] nearest_unique [of cs _ cs'] assms by auto
qed

lemma candidates_finite: "c \<in> set (ray_candidates s f dx dy r) \<Longrightarrow> fp_is_finite (snd c)"
  by (auto simp: ray_candidates_def map_filter_def hit_candidate_def Let_def split: option.splits if_split_asm)

definition ray_direction :: "fire_command \<Rightarrow> (fp \<times> fp) option" where
  "ray_direction f = (let d = addF (mulF (fire_direction_x f) (fire_direction_x f))
       (mulF (fire_direction_y f) (fire_direction_y f))
     in if \<not> fp_is_finite d \<or> fp_lt d (litF (1 / 1000000)) then None
        else Some (divF (fire_direction_x f) (sqrtF d), divF (fire_direction_y f) (sqrtF d)))"

lemma raycast_nearest:
  "raycast_victim s f (Some w) = (case ray_direction f of None \<Rightarrow> None
     | Some (dx, dy) \<Rightarrow> nearest (ray_candidates s f dx dy (wr_range w)))"
  by (simp add: raycast_victim_def ray_direction_def Let_def nearest_def ray_candidates_def
      fold_candidates)

lemma hit_candidate_players: "hit_candidate (s\<lparr>cs_players := ps\<rparr>) = hit_candidate s"
  by (intro ext) (simp add: hit_candidate_def Let_def split: option.split prod.split)

lemma candidates_members:
  "mset ps = mset (cs_players s) \<Longrightarrow>
   set (ray_candidates (s\<lparr>cs_players := ps\<rparr>) f dx dy r) = set (ray_candidates s f dx dy r)"
  using mset_eq_setD [of ps "cs_players s"]
  by (simp add: ray_candidates_def hit_candidate_players map_filter_def)

section \<open>Properties\<close>

text \<open>A small arena for the witnesses: a rifle, a slow launcher, and players on the x axis.\<close>

definition demo_rifle :: weapon_definition where
  "demo_rifle = \<lparr>wd_id = ''Rifle'', wd_type = ''hitscan'', wd_damage = 60, wd_mag_size = 1,
     wd_rate_of_fire = Fin 2, wd_pellets = 0, wd_damage_per_pellet = 0, wd_range_units = Fin 50,
     wd_projectile_speed = Fin 0, wd_tier = 1\<rparr>"

definition demo_config :: combat_config where
  "demo_config = \<lparr>starting_health = 100, default_hitscan_range = Fin 128, default_projectile_range = Fin 96,
     default_projectile_speed = Fin 40, hit_radius = Fin (3 / 4)\<rparr>"

definition demo_fire :: "u32 \<Rightarrow> u32 \<Rightarrow> fire_command" where
  "demo_fire p n = \<lparr>fire_attacker = p, fire_seq = n, fire_weapon_id = ''RIFLE'', fire_origin_x = Fin 0,
     fire_origin_y = Fin 0, fire_direction_x = Fin 1, fire_direction_y = Fin 0, fire_received_at = 0\<rparr>"

definition demo_at :: "u32 \<Rightarrow> rat \<Rightarrow> motion_state" where
  "demo_at p x = (fresh_motion p)\<lparr>mot_position_x := Fin x\<rparr>"

definition demo_arena :: "combat_call list" where
  "demo_arena = [CombPositions [demo_at 1 0, demo_at 2 10, demo_at 3 20], CombFire (demo_fire 1 1)]"

definition demo_combat :: combat_sim where
  "demo_combat = fold combat_exec demo_arena (combat_init [demo_rifle] demo_config)"

lemma combat_inv_demo: "combat_inv demo_combat"
  unfolding demo_combat_def by (rule combat_machine.run) auto

text \<open>C22: After any sequence of calls every player has between zero and full health and is alive exactly
  with positive health, and the snapshot lists the players in strictly ascending order of ids.\<close>

theorem combat_health_invariant:
  assumes "s = fold combat_exec calls (combat_init weapons config)"
  shows "(\<forall>v \<in> set (combat_snapshot s). 0 \<le> pc_health v \<and> pc_health v \<le> starting_health (cs_config s)
      \<and> (pc_alive v \<longleftrightarrow> 0 < pc_health v) \<and> combat_state_for s (pc_player_id v) = Some v)
    \<and> sorted_wrt (\<lambda>v w. pc_player_id v < pc_player_id w) (combat_snapshot s)"
proof -
  have inv: "combat_inv s" using combat_machine.run [of "combat_init weapons config" calls] assms by blast
  then have ok: "combat_players.reg_ok s" by (simp add: combat_inv_def)
  have "player_ok (starting_health (cs_config s)) v \<and> combat_state_for s (pc_player_id v) = Some v"
    if "v \<in> set (combat_snapshot s)" for v
  proof -
    from that obtain p where "(p, v) \<in> set (cs_players s)" by (auto simp: combat_snapshot_def)
    then have "umap_find (cs_players s) p = Some v"
      using ok by (auto simp: combat_players.reg_ok_def intro: map_of_is_SomeI)
    with inv ok show ?thesis by (auto simp: combat_inv_def combat_players.reg_ok_def combat_state_for_def)
  qed
  then show ?thesis using combat_players.listing_sorted [OF ok] by (auto simp: player_ok_def)
qed

lemma combat_health_invariant_witness:
  "List.map pc_player_id (combat_snapshot demo_combat) = [1, 2, 3]
   \<and> sorted_wrt (\<lambda>v w. pc_player_id v < pc_player_id w) (combat_snapshot demo_combat)"
proof
  show "List.map pc_player_id (combat_snapshot demo_combat) = [1, 2, 3]" by code_simp
  show "sorted_wrt (\<lambda>v w. pc_player_id v < pc_player_id w) (combat_snapshot demo_combat)"
    using combat_health_invariant [OF demo_combat_def] by blast
qed

text \<open>C6: The events of a combat tick account for every health point. The health of a player after
  the tick is the health before it minus the damage of the events that name the player, floored at zero;
  a dead player gets no damage; and a player who dies in the tick has exactly one death event,
  which belongs to a lethal damage event of the same attacker and shot. Nobody dies twice.\<close>

theorem combat_tick_accounts_for_health:
  assumes "combat_inv s" and "combat_resolve_tick tick dt s = (out, s')"
    and "combat_state_for s p = Some v"
  shows "\<exists>v'. combat_state_for s' p = Some v'
    \<and> pc_health v' = max 0 (pc_health v - damage_to p (damage_events out))
    \<and> (pc_alive v' \<longleftrightarrow> 0 < pc_health v')
    \<and> (\<not> pc_alive v \<longrightarrow> filter (\<lambda>d. dmg_victim d = p) (damage_events out) = [])
    \<and> length (filter (\<lambda>k. death_victim k = p) (death_events out)) = (if pc_alive v \<and> \<not> pc_alive v' then 1 else 0)
    \<and> (\<forall>k \<in> set (death_events out). explained (damage_events out) k)"
proof -
  have "accounted (\<lparr>damage_events = [], death_events = []\<rparr>, s) (out, s')"
    using accounted_tick [of s tick dt] by (simp only: assms(2))
  then obtain ds ks where
    e: "damage_events out = ds" "death_events out = ks" "\<forall>k \<in> set ks. explained ds k"
    and all: "\<forall>p. case umap_find (cs_players s) p of
          None \<Rightarrow> umap_find (cs_players s') p = None
        | Some v \<Rightarrow> \<exists>v'. umap_find (cs_players s') p = Some v'
            \<and> (0 \<le> pc_health v \<longrightarrow> (pc_alive v \<longleftrightarrow> 0 < pc_health v) \<longrightarrow> fate p ds ks v v')"
    unfolding accounted_def fst_conv snd_conv combat_result.simps append_Nil by blast
  have v: "umap_find (cs_players s) p = Some v" using assms(3) by (simp add: combat_state_for_def)
  with assms(1) have "0 \<le> pc_health v" "pc_alive v \<longleftrightarrow> 0 < pc_health v"
    by (auto simp: combat_inv_def player_ok_def)
  with spec [OF all, of p] v obtain v' where "umap_find (cs_players s') p = Some v'" "fate p ds ks v v'"
    by auto
  with e show ?thesis by (auto simp: combat_state_for_def fate_def)
qed

lemma combat_tick_accounts_for_health_witness:
  "let (out, s') = combat_resolve_tick 1 50000000 demo_combat
   in \<exists>v'. combat_state_for s' 2 = Some v' \<and> pc_health v' = max 0 (100 - damage_to 2 (damage_events out))
     \<and> damage_to 2 (damage_events out) = 60"
proof -
  have "combat_state_for demo_combat 2 =
      Some \<lparr>pc_player_id = 2, pc_health = 100, pc_alive = True, pc_last_shot_seq = 0\<rparr>" by code_simp
  from combat_tick_accounts_for_health [OF combat_inv_demo prod.collapse [symmetric] this, of 1 50000000]
  have "\<exists>v'. combat_state_for (snd (combat_resolve_tick 1 50000000 demo_combat)) 2 = Some v'
      \<and> pc_health v' = max 0 (100 - damage_to 2 (damage_events (fst (combat_resolve_tick 1 50000000 demo_combat))))"
    by auto
  moreover have "damage_to 2 (damage_events (fst (combat_resolve_tick 1 50000000 demo_combat))) = 60"
    by code_simp
  ultimately show ?thesis by (simp add: case_prod_beta Let_def)
qed

text \<open>C23: A weapon that is cooling down cannot be fired: until the tick stored for the player, the
  tick is resolved as if the player had queued no shots at all, and a shot that is fired stores the current
  tick plus the cooldown of the weapon.\<close>

theorem cooldown_respected:
  assumes "tick < next_allowed_tick s p"
  shows "combat_resolve_tick tick dt s =
      (let (out, s1) = resolve_projectiles tick (\<lparr>damage_events = [], death_events = []\<rparr>, s);
           (fires, s2) = drain_fire_commands s1
       in fold (resolve_fire tick dt) (filter (\<lambda>x. fire_attacker (fst x) \<noteq> p) fires) (out, s2))
    \<and> (\<forall>f w out a. fire_attacker f = p \<longrightarrow> umap_find (cs_players s) p = Some a \<longrightarrow> pc_alive a \<longrightarrow>
        (\<forall>later. next_allowed_tick s p \<le> later \<longrightarrow>
          next_allowed_tick (snd (resolve_fire later dt (f, Some w) (out, s))) p
            = later + cooldown_ticks (wr_rate_of_fire w) dt))"
proof
  let ?st = "resolve_projectiles tick (\<lparr>damage_events = [], death_events = []\<rparr>, s)"
  let ?st2 = "(fst ?st, snd (drain_fire_commands (snd ?st)))"
  have "cs_next_fire (snd ?st2) = cs_next_fire s"
    using projectiles_next_fire [of tick "(\<lparr>damage_events = [], death_events = []\<rparr>, s)"]
    by (simp add: drain_fire_commands_def case_prod_beta)
  then have "tick < next_allowed_tick (snd ?st2) p" using assms next_allowed_cong by metis
  from blocked_fires_ignored [OF this, of dt "fst (drain_fire_commands (snd ?st))"]
  show "combat_resolve_tick tick dt s =
      (let (out, s1) = resolve_projectiles tick (\<lparr>damage_events = [], death_events = []\<rparr>, s);
           (fires, s2) = drain_fire_commands s1
       in fold (resolve_fire tick dt) (filter (\<lambda>x. fire_attacker (fst x) \<noteq> p) fires) (out, s2))"
    by (simp add: combat_resolve_tick_def Let_def case_prod_beta)
  show "\<forall>f w out a. fire_attacker f = p \<longrightarrow> umap_find (cs_players s) p = Some a \<longrightarrow> pc_alive a \<longrightarrow>
        (\<forall>later. next_allowed_tick s p \<le> later \<longrightarrow>
          next_allowed_tick (snd (resolve_fire later dt (f, Some w) (out, s))) p
            = later + cooldown_ticks (wr_rate_of_fire w) dt)"
    by (auto simp: resolve_fire_def Let_def next_allowed_tick_def [of "snd _"] find_put not_less [symmetric]
        apply_damage_next_fire next_allowed_tick_def split: option.split weapon_class.split)
qed

definition demo_fired :: combat_sim where
  "demo_fired = fold combat_exec [CombTick 1 50000000, CombFire (demo_fire 1 2), CombFire (demo_fire 3 1)] demo_combat"

lemma cooldown_respected_witness:
  "next_allowed_tick demo_fired 1 = 11 \<and> combat_resolve_tick 10 50000000 demo_fired =
      (let (out, s1) = resolve_projectiles 10 (\<lparr>damage_events = [], death_events = []\<rparr>, demo_fired);
           (fires, s2) = drain_fire_commands s1
       in fold (resolve_fire 10 50000000) (filter (\<lambda>x. fire_attacker (fst x) \<noteq> 1) fires) (out, s2))"
proof -
  have n: "next_allowed_tick demo_fired 1 = 11" by code_simp
  then have "10 < next_allowed_tick demo_fired 1" by simp
  from cooldown_respected [OF this, of 50000000] n show ?thesis by blast
qed

text \<open>As long as different distances along the ray differ by more than the tie epsilon, a shot hits
  the nearest candidate, the smaller id among equally near ones, whatever the bucket order of the
  player table.\<close>

theorem raycast_order_independent:
  assumes "mset ps = mset (cs_players s)" and "ray_direction f = Some (dx, dy)"
    and "ray_separated (ray_candidates s f dx dy (wr_range w))"
  shows "raycast_victim (s\<lparr>cs_players := ps\<rparr>) f (Some w) = raycast_victim s f (Some w)
    \<and> (case raycast_victim s f (Some w) of
        None \<Rightarrow> ray_candidates s f dx dy (wr_range w) = []
      | Some h \<Rightarrow> nearest_of (ray_candidates s f dx dy (wr_range w)) h)"
proof -
  let ?cs = "ray_candidates s f dx dy (wr_range w)"
  have fin: "\<forall>c \<in> set ?cs. fp_is_finite (snd c)" using candidates_finite by blast
  have "nearest (ray_candidates (s\<lparr>cs_players := ps\<rparr>) f dx dy (wr_range w)) = nearest ?cs"
    by (rule nearest_canonical [symmetric]) (use assms fin candidates_members in auto)
  moreover have "?cs = [] \<Longrightarrow> nearest ?cs = None" by (simp add: nearest_def)
  ultimately show ?thesis
    using nearest_min [OF _ fin assms(3)] assms(2) by (cases "?cs = []") (auto simp: raycast_nearest)
qed

lemma raycast_order_independent_witness:
  "raycast_victim (demo_combat\<lparr>cs_players := rev (cs_players demo_combat)\<rparr>) (demo_fire 1 1)
     (umap_find (cs_weapons demo_combat) ''rifle'') = Some \<lparr>ray_victim = 2, ray_distance = Fin 10\<rparr>"
proof -
  obtain w where w: "umap_find (cs_weapons demo_combat) ''rifle'' = Some w" "wr_range w = Fin 50"
  proof -
    have "map_option wr_range (umap_find (cs_weapons demo_combat) ''rifle'') = Some (Fin 50)" by code_simp
    then show ?thesis using that by auto
  qed
  have c: "ray_candidates demo_combat (demo_fire 1 1) (Fin 1) (Fin 0) (Fin 50) = [(2, Fin 10), (3, Fin 20)]"
    by code_simp
  have d: "ray_direction (demo_fire 1 1) = Some (Fin 1, Fin 0)" by code_simp
  have "\<not> distance_tie (Fin 10) (Fin 20)" "\<not> distance_tie (Fin 20) (Fin 10)" by code_simp+
  then have "ray_separated (ray_candidates demo_combat (demo_fire 1 1) (Fin 1) (Fin 0) (wr_range w))"
    by (simp add: w(2) c ray_separated_def)
  from raycast_order_independent [OF _ d this, of "rev (cs_players demo_combat)"]
  have "raycast_victim (demo_combat\<lparr>cs_players := rev (cs_players demo_combat)\<rparr>) (demo_fire 1 1) (Some w)
      = raycast_victim demo_combat (demo_fire 1 1) (Some w)" by simp
  moreover have "raycast_victim demo_combat (demo_fire 1 1)
      (umap_find (cs_weapons demo_combat) ''rifle'') = Some \<lparr>ray_victim = 2, ray_distance = Fin 10\<rparr>"
    by code_simp
  ultimately show ?thesis by (simp add: w)
qed

definition tie_combat :: combat_sim where
  "tie_combat = fold combat_exec [CombPositions [demo_at 1 0, demo_at 3 10, demo_at 2 (10485761 / 1048576)]]
     (combat_init [demo_rifle] demo_config)"

text \<open>Within the tie epsilon the victim depends on the bucket order: two players stand one unit in the last
  place apart, and the same shot hits one or the other according to which of them the table lists first.\<close>

theorem raycast_depends_on_bucket_order:
  "let w = umap_find (cs_weapons tie_combat) ''rifle'';
       reordered = tie_combat\<lparr>cs_players := rev (cs_players tie_combat)\<rparr>
   in map_option ray_victim (raycast_victim tie_combat (demo_fire 1 1) w) = Some 2
    \<and> map_option ray_victim (raycast_victim reordered (demo_fire 1 1) w) = Some 3"
  by code_simp

text \<open>For a weapon that is slow enough the cooldown saturates, the sum with the current tick
  wraps around, and the player may fire again at once: the stored tick lies before the current one.\<close>

theorem saturated_cooldown_wraps:
  "cooldown_ticks (Fin (2 powi (- 100))) 50000000 = - 1
   \<and> (1000 :: u64) + cooldown_ticks (Fin (2 powi (- 100))) 50000000 = 999"
  by code_simp

end
