(* ===== verification/Loot.thy ===== *)
theory Loot
  imports Combat
begin

text \<open>
  The inventory and loot simulation (server/InventoryLootSimulation.h,
  server/src/InventoryLootSimulation.cpp): scheduled treasure spawns, drops of the dead, queued
  pickups, and the inventories of the players. Totals are C++ \<open>int\<close>s; a sum outside the range
  takes its two's complement value.
\<close>

section \<open>Data\<close>

datatype loot_drop_mode = DropNone | DropAll

record loot_config =
  spawn_interval_ticks :: u32
  max_active_spawns :: nat
  pickup_queue_capacity :: nat
  pickup_radius :: fp
  max_items_per_player :: nat
  max_weight_per_player :: int
  loot_mode :: loot_drop_mode
  world_size_x :: int
  world_size_y :: int
  death_drop_spread :: fp

record pickup_command =
  pick_player_id :: u32
  pick_seq :: u32
  pick_spawn_id :: u64
  pick_received_at :: int

datatype pickup_enqueue_status = PickupAccepted | PickupOutOfOrder | PickupQueueFull

datatype pickup_status = Collected | PlayerMissing | PlayerDead | UnknownSpawn | DuplicatePickup
  | OutOfRange | InventoryCapacityExceeded | WeightLimitExceeded

datatype spawn_source = Scheduled | DeathDrop

record spawn_instance =
  spn_id :: u64
  spn_treasure_id :: string
  spn_value :: int
  spn_weight :: int
  spn_x :: fp
  spn_y :: fp
  spn_source :: spawn_source
  spn_tick :: u64

record inventory_summary =
  sum_player_id :: u32
  sum_total_value :: int
  sum_total_weight :: int
  sum_item_count :: u32
  sum_last_pickup_seq :: u32

record pickup_resolution =
  res_player_id :: u32
  res_seq :: u32
  res_spawn_id :: u64
  res_status :: pickup_status
  res_treasure_id :: string
  res_total_value :: int
  res_total_weight :: int
  res_item_count :: u32

record loot_result =
  spawned :: "spawn_instance list"
  pickup_results :: "pickup_resolution list"
  inventory_deltas :: "inventory_summary list"

record inventory_item =
  item_source :: u64
  item_treasure :: treasure_definition

record loot_player =
  lp_player_id :: u32
  lp_x :: fp
  lp_y :: fp
  lp_alive :: bool
  lp_total_value :: int
  lp_total_weight :: int
  lp_last_pickup_seq :: u32
  lp_last_enqueued :: u32
  lp_items :: "inventory_item list"

record loot_sim =
  ls_definitions :: "treasure_definition list"
  ls_config :: loot_config
  ls_players :: "(u32, loot_player) umap"
  ls_queues :: "pickup_command queues"
  ls_active :: "(u64, spawn_instance) umap"
  ls_consumed :: "u64 list"
  ls_next_id :: u64
  ls_next_definition :: nat
  ls_queued :: nat

section \<open>Positions\<close>

definition clamp_position :: "fp \<Rightarrow> int \<Rightarrow> fp" where
  "clamp_position value bound =
     (if \<not> fp_is_finite value then Fin 0
      else let max_value = subF (fp_of_int Single (max 1 bound)) (litF (1 / 1000))
        in if fp_le max_value (Fin 0) then Fin 0 else fp_clamp value (Fin 0) max_value)"

definition deterministic_spawn_position :: "u64 \<Rightarrow> int \<Rightarrow> int \<Rightarrow> fp \<times> fp" where
  "deterministic_spawn_position seed size_x size_y =
     (let width = word_of_int (max 1 size_x) :: u64;
          height = word_of_int (max 1 size_y) :: u64
      in (addF (fp_of_int Single (uint ((seed * 37 + 17) mod width))) (Fin (1 / 2)),
          addF (fp_of_int Single (uint ((seed * 53 + 29) mod height))) (Fin (1 / 2))))"

section \<open>Construction\<close>

definition sanitize_loot_config :: "loot_config \<Rightarrow> loot_config" where
  "sanitize_loot_config c =
     \<lparr>spawn_interval_ticks = (if spawn_interval_ticks c = 0 then 90 else spawn_interval_ticks c),
      max_active_spawns = (if max_active_spawns c = 0 then 64 else max_active_spawns c),
      pickup_queue_capacity = (if pickup_queue_capacity c = 0 then 2048 else pickup_queue_capacity c),
      pickup_radius = sanitize_positive (pickup_radius c) (litF (5 / 2)),
      max_items_per_player = (if max_items_per_player c = 0 then 16 else max_items_per_player c),
      max_weight_per_player = (if max_weight_per_player c \<le> 0 then 40 else max_weight_per_player c),
      loot_mode = loot_mode c,
      world_size_x = (if world_size_x c \<le> 0 then 2048 else world_size_x c),
      world_size_y = (if world_size_y c \<le> 0 then 2048 else world_size_y c),
      death_drop_spread = sanitize_non_negative (death_drop_spread c) (litF (3 / 4))\<rparr>"

definition usable_definition :: "treasure_definition \<Rightarrow> bool" where
  "usable_definition d \<longleftrightarrow> \<not> (tre_id d = [] \<or> tre_value d < 0 \<or> tre_weight d < 0)"

definition loot_init :: "treasure_definition list \<Rightarrow> loot_config \<Rightarrow> loot_sim" where
  "loot_init defs c = \<lparr>ls_definitions = filter usable_definition defs,
     ls_config = sanitize_loot_config c, ls_players = [], ls_queues = [], ls_active = [],
     ls_consumed = [], ls_next_id = 1, ls_next_definition = 0, ls_queued = 0\<rparr>"

section \<open>Players\<close>

definition fresh_loot_player :: "u32 \<Rightarrow> loot_player" where
  "fresh_loot_player p = \<lparr>lp_player_id = p, lp_x = Fin 0, lp_y = Fin 0, lp_alive = True,
     lp_total_value = 0, lp_total_weight = 0, lp_last_pickup_seq = 0, lp_last_enqueued = 0, lp_items = []\<rparr>"

definition loot_reset :: "loot_sim \<Rightarrow> loot_sim" where
  "loot_reset s = s\<lparr>ls_queues := [], ls_active := [], ls_consumed := [], ls_next_id := 1,
     ls_next_definition := 0, ls_queued := 0,
     ls_players := umap_update_all (\<lambda>p st. st\<lparr>lp_total_value := 0, lp_total_weight := 0,
       lp_last_pickup_seq := 0, lp_last_enqueued := 0, lp_items := []\<rparr>) (ls_players s)\<rparr>"

definition loot_ensure :: "u32 \<Rightarrow> loot_sim \<Rightarrow> loot_sim" where
  "loot_ensure p s = (case umap_find (ls_players s) p of
      Some st \<Rightarrow> s
    | None \<Rightarrow> s\<lparr>ls_players := umap_put p (fresh_loot_player p) (ls_players s)\<rparr>)"

definition loot_remove :: "u32 \<Rightarrow> loot_sim \<Rightarrow> loot_sim" where
  "loot_remove p s =
     (let s1 = (case umap_find (ls_queues s) p of
          None \<Rightarrow> s
        | Some q \<Rightarrow> s\<lparr>ls_queued := (if length q \<le> ls_queued s then ls_queued s - length q else 0),
            ls_queues := umap_erase p (ls_queues s)\<rparr>)
      in case umap_find (ls_players s1) p of
          None \<Rightarrow> s1
        | Some st \<Rightarrow> s1\<lparr>ls_players := umap_put p
            (st\<lparr>lp_alive := False, lp_x := Fin 0, lp_y := Fin 0\<rparr>) (ls_players s1)\<rparr>)"

section \<open>Queueing pickups\<close>

definition enqueue_pickup :: "pickup_command \<Rightarrow> loot_sim \<Rightarrow> pickup_enqueue_status \<times> loot_sim" where
  "enqueue_pickup c s =
     (let s1 = loot_ensure (pick_player_id c) s in
      case umap_find (ls_players s1) (pick_player_id c) of
        None \<Rightarrow> (PickupOutOfOrder, s1)
      | Some st \<Rightarrow>
          if pick_seq c \<le> lp_last_enqueued st then (PickupOutOfOrder, s1)
          else if pickup_queue_capacity (ls_config s1) \<le> ls_queued s1 then (PickupQueueFull, s1)
          else let queue = queue_for (ls_queues s1) (pick_player_id c);
                   s2 = s1\<lparr>ls_queues := umap_put (pick_player_id c) queue (ls_queues s1)\<rparr>
            in if queue \<noteq> [] \<and> pick_seq c \<le> pick_seq (last queue) then (PickupOutOfOrder, s2)
               else (PickupAccepted,
                 s2\<lparr>ls_queues := umap_put (pick_player_id c) (queue @ [c]) (ls_queues s2),
                    ls_players := umap_put (pick_player_id c) (st\<lparr>lp_last_enqueued := pick_seq c\<rparr>) (ls_players s2),
                    ls_queued := ls_queued s2 + 1\<rparr>))"

definition drain_pickups :: "loot_sim \<Rightarrow> pickup_command list \<times> loot_sim" where
  "drain_pickups s = (case drain_by_player (ls_queues s) of (drained, qs) \<Rightarrow>
     (drained, s\<lparr>ls_queues := qs, ls_queued := ls_queued s - length drained\<rparr>))"

section \<open>Spawning\<close>

definition create_scheduled_spawn :: "u64 \<Rightarrow> loot_sim \<Rightarrow> spawn_instance \<times> loot_sim" where
  "create_scheduled_spawn tick s =
     (let d = ls_definitions s ! (ls_next_definition s mod length (ls_definitions s));
          (x, y) = deterministic_spawn_position (ls_next_id s)
            (world_size_x (ls_config s)) (world_size_y (ls_config s))
      in (\<lparr>spn_id = ls_next_id s, spn_treasure_id = tre_id d, spn_value = tre_value d,
            spn_weight = tre_weight d, spn_x = clamp_position x (world_size_x (ls_config s)),
            spn_y = clamp_position y (world_size_y (ls_config s)), spn_source = Scheduled,
            spn_tick = tick\<rparr>,
          s\<lparr>ls_next_id := ls_next_id s + 1, ls_next_definition := ls_next_definition s + 1\<rparr>))"

definition create_death_drop_spawn :: "u64 \<Rightarrow> treasure_definition \<Rightarrow> fp \<Rightarrow> fp \<Rightarrow> nat \<Rightarrow> loot_sim
    \<Rightarrow> spawn_instance \<times> loot_sim" where
  "create_death_drop_spawn tick treasure origin_x origin_y item_index s =
     (let bucket_x = int (item_index mod 3) - 1;
          bucket_y = int (item_index div 3 mod 3) - 1;
          offset_x = mulF (fp_of_int Single bucket_x) (death_drop_spread (ls_config s));
          offset_y = mulF (fp_of_int Single bucket_y) (death_drop_spread (ls_config s))
      in (\<lparr>spn_id = ls_next_id s, spn_treasure_id = tre_id treasure, spn_value = tre_value treasure,
            spn_weight = tre_weight treasure,
            spn_x = clamp_position (addF origin_x offset_x) (world_size_x (ls_config s)),
            spn_y = clamp_position (addF origin_y offset_y) (world_size_y (ls_config s)),
            spn_source = DeathDrop, spn_tick = tick\<rparr>,
          s\<lparr>ls_next_id := ls_next_id s + 1\<rparr>))"

definition activate_spawn :: "spawn_instance \<Rightarrow> loot_result \<times> loot_sim \<Rightarrow> loot_result \<times> loot_sim" where
  "activate_spawn sp st = (case st of (out, s) \<Rightarrow>
     (out\<lparr>spawned := spawned out @ [sp]\<rparr>, s\<lparr>ls_active := umap_put (spn_id sp) sp (ls_active s)\<rparr>))"

definition schedule_spawn :: "u64 \<Rightarrow> loot_result \<times> loot_sim \<Rightarrow> loot_result \<times> loot_sim" where
  "schedule_spawn tick st = (case st of (out, s) \<Rightarrow>
     if ls_definitions s \<noteq> [] \<and> 0 < spawn_interval_ticks (ls_config s)
        \<and> tick mod ucast (spawn_interval_ticks (ls_config s)) = 0
        \<and> length (ls_active s) < max_active_spawns (ls_config s)
     then (case create_scheduled_spawn tick s of (sp, s1) \<Rightarrow> activate_spawn sp (out, s1))
     else (out, s))"

section \<open>A tick\<close>

definition update_position :: "motion_state \<Rightarrow> loot_sim \<Rightarrow> loot_sim" where
  "update_position m s =
     (let s1 = loot_ensure (mot_player_id m) s in
      case umap_find (ls_players s1) (mot_player_id m) of
        None \<Rightarrow> s1
      | Some st \<Rightarrow> s1\<lparr>ls_players := umap_put (mot_player_id m)
          (st\<lparr>lp_x := mot_position_x m, lp_y := mot_position_y m\<rparr>) (ls_players s1)\<rparr>)"

definition update_alive :: "combat_player \<Rightarrow> loot_sim \<Rightarrow> loot_sim" where
  "update_alive c s =
     (let s1 = loot_ensure (pc_player_id c) s in
      case umap_find (ls_players s1) (pc_player_id c) of
        None \<Rightarrow> s1
      | Some st \<Rightarrow> s1\<lparr>ls_players := umap_put (pc_player_id c) (st\<lparr>lp_alive := pc_alive c\<rparr>) (ls_players s1)\<rparr>)"

definition death_less :: "death_resolution \<Rightarrow> death_resolution \<Rightarrow> bool" where
  "death_less l r =
     (if death_victim l \<noteq> death_victim r then death_victim l < death_victim r
      else if death_killer l \<noteq> death_killer r then death_killer l < death_killer r
      else death_seq l < death_seq r)"

fun is_sorted_player_id :: "death_resolution list \<Rightarrow> bool" where
  "is_sorted_player_id (a # b # ds) = (if death_victim b < death_victim a then False
     else is_sorted_player_id (b # ds))"
| "is_sorted_player_id _ = True"

fun drop_items :: "u64 \<Rightarrow> fp \<Rightarrow> fp \<Rightarrow> nat \<Rightarrow> inventory_item list \<Rightarrow> loot_result \<times> loot_sim
    \<Rightarrow> loot_result \<times> loot_sim" where
  "drop_items tick x y index [] st = st"
| "drop_items tick x y index (i # is) st =
     (case create_death_drop_spawn tick (item_treasure i) x y index (snd st) of (sp, s1) \<Rightarrow>
       drop_items tick x y (index + 1) is (activate_spawn sp (fst st, s1)))"

definition process_death :: "u64 \<Rightarrow> death_resolution \<Rightarrow> u32 list \<times> loot_result \<times> loot_sim
    \<Rightarrow> u32 list \<times> loot_result \<times> loot_sim" where
  "process_death tick d acc = (case acc of (changed, st) \<Rightarrow>
     (case umap_find (ls_players (snd st)) (death_victim d) of
        None \<Rightarrow> (changed, st)
      | Some p \<Rightarrow>
          if lp_items p = [] then (changed, st)
          else (case drop_items tick (lp_x p) (lp_y p) 0 (lp_items p) st of (out, s1) \<Rightarrow>
            (List.insert (death_victim d) changed, out,
             s1\<lparr>ls_players := umap_put (death_victim d)
               (p\<lparr>lp_items := [], lp_total_value := 0, lp_total_weight := 0\<rparr>) (ls_players s1)\<rparr>))))"

definition process_deaths :: "u64 \<Rightarrow> death_resolution list \<Rightarrow> loot_result \<times> loot_sim
    \<Rightarrow> u32 list \<times> loot_result \<times> loot_sim" where
  "process_deaths tick deaths st =
     (if loot_mode (ls_config (snd st)) = DropAll \<and> deaths \<noteq> []
      then fold (process_death tick)
        (if is_sorted_player_id deaths then deaths else std_sort death_less deaths) ([], st)
      else ([], st))"

definition pickup_answer :: "pickup_command \<Rightarrow> pickup_status \<Rightarrow> string \<Rightarrow> loot_player \<Rightarrow> pickup_resolution" where
  "pickup_answer c status treasure p = \<lparr>res_player_id = pick_player_id c, res_seq = pick_seq c,
     res_spawn_id = pick_spawn_id c, res_status = status, res_treasure_id = treasure,
     res_total_value = lp_total_value p, res_total_weight = lp_total_weight p,
     res_item_count = of_nat (length (lp_items p))\<rparr>"

definition within_pickup_range :: "loot_sim \<Rightarrow> spawn_instance \<Rightarrow> loot_player \<Rightarrow> bool" where
  "within_pickup_range s sp p =
     (let delta_x = subF (spn_x sp) (lp_x p);
          delta_y = subF (spn_y sp) (lp_y p);
          distance_sq = addF (mulF delta_x delta_x) (mulF delta_y delta_y);
          radius_sq = mulF (pickup_radius (ls_config s)) (pickup_radius (ls_config s))
      in \<not> (\<not> fp_is_finite distance_sq \<or> fp_lt (addF radius_sq (litF (1 / 1000000))) distance_sq))"

definition collect_spawn :: "spawn_instance \<Rightarrow> loot_player \<Rightarrow> loot_player" where
  "collect_spawn sp p = p\<lparr>lp_items := lp_items p @ [\<lparr>item_source = spn_id sp,
       item_treasure = \<lparr>tre_id = spn_treasure_id sp, tre_value = spn_value sp,
         tre_weight = spn_weight sp, tre_rarity = []\<rparr>\<rparr>],
     lp_total_value := wrap_i32 (lp_total_value p + spn_value sp),
     lp_total_weight := wrap_i32 (lp_total_weight p + spn_weight sp)\<rparr>"

text \<open>The decision on one queued pickup, in the order of the checks of the code; \<open>p\<close> is the player
  with \<open>last_pickup_seq\<close> already raised.\<close>

definition pickup_decision :: "loot_sim \<Rightarrow> pickup_command \<Rightarrow> loot_player \<Rightarrow> pickup_status + spawn_instance" where
  "pickup_decision s c p =
     (if \<not> lp_alive p then Inl PlayerDead
      else if List.member (ls_consumed s) (pick_spawn_id c) then Inl DuplicatePickup
      else case umap_find (ls_active s) (pick_spawn_id c) of
        None \<Rightarrow> Inl UnknownSpawn
      | Some sp \<Rightarrow>
          if \<not> within_pickup_range s sp p then Inl OutOfRange
          else if max_items_per_player (ls_config s) < length (lp_items p) + 1
          then Inl InventoryCapacityExceeded
          else if max_weight_per_player (ls_config s) < wrap_i32 (lp_total_weight p + spn_weight sp)
          then Inl WeightLimitExceeded
          else Inr sp)"

definition process_pickup :: "pickup_command \<Rightarrow> u32 list \<times> loot_result \<times> loot_sim
    \<Rightarrow> u32 list \<times> loot_result \<times> loot_sim" where
  "process_pickup c acc = (case acc of (changed, out, s) \<Rightarrow>
     (case umap_find (ls_players s) (pick_player_id c) of
        None \<Rightarrow> (changed, out\<lparr>pickup_results := pickup_results out @
            [\<lparr>res_player_id = pick_player_id c, res_seq = pick_seq c, res_spawn_id = pick_spawn_id c,
              res_status = PlayerMissing, res_treasure_id = [], res_total_value = 0,
              res_total_weight = 0, res_item_count = 0\<rparr>]\<rparr>, s)
      | Some p0 \<Rightarrow>
          let p = p0\<lparr>lp_last_pickup_seq := max (lp_last_pickup_seq p0) (pick_seq c)\<rparr> in
          (case pickup_decision s c p of
             Inl status \<Rightarrow>
               (changed, out\<lparr>pickup_results := pickup_results out @ [pickup_answer c status [] p]\<rparr>,
                s\<lparr>ls_players := umap_put (pick_player_id c) p (ls_players s)\<rparr>)
           | Inr sp \<Rightarrow>
               let p1 = collect_spawn sp p in
               (List.insert (lp_player_id p1) changed,
                out\<lparr>pickup_results := pickup_results out @ [pickup_answer c Collected (spn_treasure_id sp) p1]\<rparr>,
                s\<lparr>ls_players := umap_put (pick_player_id c) p1 (ls_players s),
                  ls_consumed := List.insert (spn_id sp) (ls_consumed s),
                  ls_active := umap_erase (pick_spawn_id c) (ls_active s)\<rparr>))))"

definition to_summary :: "loot_player \<Rightarrow> inventory_summary" where
  "to_summary p = \<lparr>sum_player_id = lp_player_id p, sum_total_value = lp_total_value p,
     sum_total_weight = lp_total_weight p, sum_item_count = of_nat (length (lp_items p)),
     sum_last_pickup_seq = lp_last_pickup_seq p\<rparr>"

definition summary_for :: "loot_sim \<Rightarrow> u32 \<Rightarrow> inventory_summary option" where
  "summary_for s p = map_option to_summary (umap_find (ls_players s) p)"

definition loot_resolve_tick :: "u64 \<Rightarrow> motion_state list \<Rightarrow> combat_player list \<Rightarrow> death_resolution list
    \<Rightarrow> loot_sim \<Rightarrow> loot_result \<times> loot_sim" where
  "loot_resolve_tick tick movement combat deaths s =
     (let s1 = fold update_position movement s;
          s2 = fold update_alive combat s1;
          st3 = schedule_spawn tick (\<lparr>spawned = [], pickup_results = [], inventory_deltas = []\<rparr>, s2);
          (changed4, out4, s4) = process_deaths tick deaths st3;
          (pickups, s5) = drain_pickups s4;
          (changed6, out6, s6) = fold process_pickup pickups (changed4, out4, s5)
      in (out6\<lparr>inventory_deltas := List.map_filter (summary_for s6) (sort changed6)\<rparr>, s6))"

definition summary_less :: "inventory_summary \<Rightarrow> inventory_summary \<Rightarrow> bool" where
  "summary_less l r \<longleftrightarrow> sum_player_id l < sum_player_id r"

definition inventory_snapshot :: "loot_sim \<Rightarrow> inventory_summary list" where
  "inventory_snapshot s = std_sort summary_less (List.map (\<lambda>(p, st). to_summary st) (ls_players s))"

definition spawn_less :: "spawn_instance \<Rightarrow> spawn_instance \<Rightarrow> bool" where
  "spawn_less l r \<longleftrightarrow> spn_id l < spn_id r"

definition active_spawn_list :: "loot_sim \<Rightarrow> spawn_instance list" where
  "active_spawn_list s = std_sort spawn_less (List.map snd (ls_active s))"

section \<open>Names\<close>

definition parse_loot_drop_mode :: "string \<Rightarrow> loot_drop_mode" where
  "parse_loot_drop_mode value = (if lowercase value = ''none'' then DropNone else DropAll)"

fun loot_drop_mode_to_string :: "loot_drop_mode \<Rightarrow> string" where
  "loot_drop_mode_to_string DropNone = ''none''"
| "loot_drop_mode_to_string DropAll = ''all''"

fun pickup_enqueue_status_to_string :: "pickup_enqueue_status \<Rightarrow> string" where
  "pickup_enqueue_status_to_string PickupAccepted = ''accepted''"
| "pickup_enqueue_status_to_string PickupOutOfOrder = ''out_of_order''"
| "pickup_enqueue_status_to_string PickupQueueFull = ''queue_full''"

fun pickup_status_to_string :: "pickup_status \<Rightarrow> string" where
  "pickup_status_to_string Collected = ''collected''"
| "pickup_status_to_string PlayerMissing = ''player_missing''"
| "pickup_status_to_string PlayerDead = ''player_dead''"
| "pickup_status_to_string UnknownSpawn = ''unknown_spawn''"
| "pickup_status_to_string DuplicatePickup = ''duplicate_pickup''"
| "pickup_status_to_string OutOfRange = ''out_of_range''"
| "pickup_status_to_string InventoryCapacityExceeded = ''inventory_capacity_exceeded''"
| "pickup_status_to_string WeightLimitExceeded = ''weight_limit_exceeded''"

fun spawn_source_to_string :: "spawn_source \<Rightarrow> string" where
  "spawn_source_to_string Scheduled = ''scheduled''"
| "spawn_source_to_string DeathDrop = ''death_drop''"

lemma parse_loot_drop_mode_roundtrip: "parse_loot_drop_mode (loot_drop_mode_to_string m) = m"
  by (cases m; simp only:) code_simp+


section \<open>The table of players and the pickup queues\<close>

interpretation loot_players: player_listing ls_players loot_ensure "\<lambda>_. fresh_loot_player" lp_player_id
  summary_less sum_player_id "\<lambda>_. to_summary" inventory_snapshot
  by unfold_locales (auto simp: loot_ensure_def fresh_loot_player_def summary_less_def to_summary_def
    inventory_snapshot_def comp_def case_prod_beta' split: option.split)

interpretation spawn_order: key_order spawn_less spn_id
  by unfold_locales (simp add: spawn_less_def)

interpretation death_order: key_order death_less "\<lambda>d. (death_victim d, death_killer d, death_seq d)"
  by unfold_locales (simp add: death_less_def lex_less_3)

lemma loot_ensure_keeps [simp]:
  "ls_queues (loot_ensure p s) = ls_queues s" "ls_config (loot_ensure p s) = ls_config s"
  "ls_definitions (loot_ensure p s) = ls_definitions s" "ls_active (loot_ensure p s) = ls_active s"
  "ls_consumed (loot_ensure p s) = ls_consumed s" "ls_next_id (loot_ensure p s) = ls_next_id s"
  "ls_queued (loot_ensure p s) = ls_queued s"
  by (simp_all add: loot_ensure_def split: option.split)

definition last_enqueued_of :: "loot_sim \<Rightarrow> u32 \<Rightarrow> u32 option" where
  "last_enqueued_of s p = map_option lp_last_enqueued (umap_find (ls_players s) p)"

lemma enqueue_pickup_cases:
  assumes "enqueue_pickup c s = (st, s')"
  obtains (rejected) v where "st \<noteq> PickupAccepted" "umap_find (ls_players (loot_ensure (pick_player_id c) s)) (pick_player_id c) = Some v"
      "s' = loot_ensure (pick_player_id c) s \<or> s' = (loot_ensure (pick_player_id c) s)\<lparr>ls_queues :=
        umap_put (pick_player_id c) (queue_for (ls_queues s) (pick_player_id c)) (ls_queues s)\<rparr>"
  | (accepted) v where "st = PickupAccepted"
      "umap_find (ls_players (loot_ensure (pick_player_id c) s)) (pick_player_id c) = Some v"
      "lp_last_enqueued v < pick_seq c" "ls_queued s < pickup_queue_capacity (ls_config s)"
      "s' = (loot_ensure (pick_player_id c) s)\<lparr>ls_queues := umap_put (pick_player_id c)
          (queue_for (ls_queues s) (pick_player_id c) @ [c])
          (umap_put (pick_player_id c) (queue_for (ls_queues s) (pick_player_id c)) (ls_queues s)),
        ls_players := umap_put (pick_player_id c) (v\<lparr>lp_last_enqueued := pick_seq c\<rparr>)
          (ls_players (loot_ensure (pick_player_id c) s)),
        ls_queued := ls_queued s + 1\<rparr>"
proof -
  obtain v where v: "umap_find (ls_players (loot_ensure (pick_player_id c) s)) (pick_player_id c) = Some v"
    using loot_players.ensure_present by blast
  show thesis
    using assms rejected [OF _ v] accepted [OF _ v] unfolding enqueue_pickup_def Let_def v
    by (simp split: if_split_asm)
qed

definition loot_enq :: "pickup_command \<Rightarrow> loot_sim \<Rightarrow> bool \<times> loot_sim" where
  "loot_enq c s = (fst (enqueue_pickup c s) = PickupAccepted, snd (enqueue_pickup c s))"

lemma last_enqueued_ensure: "last_enqueued_of s p = Some l \<Longrightarrow> last_enqueued_of (loot_ensure q s) p = Some l"
  by (auto simp: last_enqueued_of_def loot_players.ensure_find)

lemma loot_enq_rejected:
  assumes "loot_enq c s = (False, s')"
  obtains "s' = loot_ensure (pick_player_id c) s"
  | "s' = (loot_ensure (pick_player_id c) s)\<lparr>ls_queues :=
        umap_put (pick_player_id c) (queue_for (ls_queues s) (pick_player_id c)) (ls_queues s)\<rparr>"
proof -
  have "enqueue_pickup c s = (fst (enqueue_pickup c s), s')" "fst (enqueue_pickup c s) \<noteq> PickupAccepted"
    using assms by (auto simp: loot_enq_def prod_eq_iff)
  then show thesis using that by (cases rule: enqueue_pickup_cases) auto
qed

lemma loot_enq_accepted:
  assumes "loot_enq c s = (True, s')"
  obtains v where "umap_find (ls_players (loot_ensure (pick_player_id c) s)) (pick_player_id c) = Some v"
      "lp_last_enqueued v < pick_seq c" "ls_queued s < pickup_queue_capacity (ls_config s)"
      "s' = (loot_ensure (pick_player_id c) s)\<lparr>ls_queues := umap_put (pick_player_id c)
          (queue_for (ls_queues s) (pick_player_id c) @ [c])
          (umap_put (pick_player_id c) (queue_for (ls_queues s) (pick_player_id c)) (ls_queues s)),
        ls_players := umap_put (pick_player_id c) (v\<lparr>lp_last_enqueued := pick_seq c\<rparr>)
          (ls_players (loot_ensure (pick_player_id c) s)),
        ls_queued := ls_queued s + 1\<rparr>"
proof -
  have "enqueue_pickup c s = (PickupAccepted, s')"
    using assms by (auto simp: loot_enq_def prod_eq_iff)
  then show thesis by (cases rule: enqueue_pickup_cases) (use that in auto)
qed

interpretation pickups: seq_queue pick_player_id pick_seq "\<lambda>c. c" "\<lambda>s. umap_ok (ls_queues s)" ls_queues
  last_enqueued_of loot_enq drain_pickups
proof unfold_locales
  fix s s' c p l
  show "umap_ok (ls_queues (snd (loot_enq c s)))" if "umap_ok (ls_queues s)"
  proof (cases "fst (loot_enq c s)")
    case True
    then have "loot_enq c s = (True, snd (loot_enq c s))" by (simp add: prod_eq_iff)
    then show ?thesis by (rule loot_enq_accepted) (use that in simp)
  next
    case False
    then have "loot_enq c s = (False, snd (loot_enq c s))" by (simp add: prod_eq_iff)
    then show ?thesis by (rule loot_enq_rejected) (use that in simp_all)
  qed
  show "umap_ok (ls_queues (snd (drain_pickups s)))" if "umap_ok (ls_queues s)"
    using that by (simp add: drain_pickups_def case_prod_beta drain_by_player_ok)
  {
    assume r: "loot_enq c s = (False, s')"
    show "queue_for (ls_queues s') p = queue_for (ls_queues s) p"
      by (rule loot_enq_rejected [OF r]) (simp_all add: queue_for_put)
    show "last_enqueued_of s' p = Some l" if "last_enqueued_of s p = Some l"
      using last_enqueued_ensure [OF that, of "pick_player_id c"]
      by (cases rule: loot_enq_rejected [OF r]) (simp_all add: last_enqueued_of_def)
  }
  assume a: "loot_enq c s = (True, s')"
  show "queue_for (ls_queues s') p = (if p = pick_player_id c then queue_for (ls_queues s) p @ [c]
      else queue_for (ls_queues s) p)"
    by (rule loot_enq_accepted [OF a]) (simp add: queue_for_put)
  show "last_enqueued_of s' (pick_player_id c) = Some (pick_seq c)"
    by (rule loot_enq_accepted [OF a]) (simp add: last_enqueued_of_def find_put)
  show "last_enqueued_of s' p = Some l" if "last_enqueued_of s p = Some l" "p \<noteq> pick_player_id c"
    using last_enqueued_ensure [OF that(1), of "pick_player_id c"] that(2)
    by (cases rule: loot_enq_accepted [OF a]) (simp_all add: last_enqueued_of_def find_put)
  show "l < pick_seq c" if "last_enqueued_of s (pick_player_id c) = Some l"
    using last_enqueued_ensure [OF that, of "pick_player_id c"]
    by (cases rule: loot_enq_accepted [OF a]) (simp_all add: last_enqueued_of_def)
qed (simp_all add: drain_pickups_def case_prod_beta drain_by_player_rest last_enqueued_of_def)

section \<open>Who holds which treasure\<close>

type_synonym holding = "inventory_item list \<times> int \<times> int"

definition holding :: "loot_sim \<Rightarrow> u32 \<Rightarrow> holding" where
  "holding s p = (case umap_find (ls_players s) p of None \<Rightarrow> ([], 0, 0)
     | Some st \<Rightarrow> (lp_items st, lp_total_value st, lp_total_weight st))"

abbreviation loot_ok :: "loot_sim \<Rightarrow> bool" where
  "loot_ok \<equiv> loot_players.reg_ok"

definition treasure_of :: "inventory_item \<Rightarrow> string \<times> int \<times> int" where
  "treasure_of i = (tre_id (item_treasure i), tre_value (item_treasure i), tre_weight (item_treasure i))"

definition spawn_treasure :: "spawn_instance \<Rightarrow> string \<times> int \<times> int" where
  "spawn_treasure sp = (spn_treasure_id sp, spn_value sp, spn_weight sp)"

definition held_treasure :: "loot_sim \<Rightarrow> (string \<times> int \<times> int) multiset" where
  "held_treasure s = umap_sum (\<lambda>st. mset (List.map treasure_of (lp_items st))) (ls_players s)"

definition lying_treasure :: "loot_sim \<Rightarrow> (string \<times> int \<times> int) multiset" where
  "lying_treasure s = umap_sum (\<lambda>sp. {#spawn_treasure sp#}) (ls_active s)"

text \<open>A step that moves no treasure: it may create players, move them and number their commands.\<close>

definition quiet :: "loot_sim \<Rightarrow> loot_sim \<Rightarrow> bool" where
  "quiet s s' \<longleftrightarrow> ls_definitions s' = ls_definitions s \<and> ls_config s' = ls_config s
     \<and> ls_active s' = ls_active s \<and> ls_consumed s' = ls_consumed s \<and> ls_next_id s' = ls_next_id s
     \<and> (loot_ok s \<longrightarrow> loot_ok s' \<and> holding s' = holding s \<and> held_treasure s' = held_treasure s)"

lemma quiet_refl [simp]: "quiet s s"
  by (simp add: quiet_def)

lemma quiet_trans: "quiet s s' \<Longrightarrow> quiet s' s'' \<Longrightarrow> quiet s s''"
  by (auto simp: quiet_def)

lemma quiet_fold: "(\<And>x s. quiet s (f x s)) \<Longrightarrow> quiet s (fold f xs s)"
  by (rule fold_preserves [where P = "quiet s"]) (auto intro: quiet_trans)

lemma quiet_put:
  assumes "(case umap_find (ls_players s) p of None \<Rightarrow> ([], 0, 0)
      | Some w \<Rightarrow> (lp_items w, lp_total_value w, lp_total_weight w))
      = (lp_items st, lp_total_value st, lp_total_weight st)" and "loot_ok s \<Longrightarrow> lp_player_id st = p"
  shows "quiet s (s\<lparr>ls_players := umap_put p st (ls_players s)\<rparr>)"
proof -
  have items: "(case umap_find (ls_players s) p of None \<Rightarrow> {#}
      | Some w \<Rightarrow> mset (List.map treasure_of (lp_items w))) = mset (List.map treasure_of (lp_items st))"
    using assms(1) by (cases "umap_find (ls_players s) p") auto
  have "holding (s\<lparr>ls_players := umap_put p st (ls_players s)\<rparr>) q = holding s q" for q
    using assms(1) by (auto simp: holding_def find_put)
  moreover have "loot_ok s \<Longrightarrow> held_treasure (s\<lparr>ls_players := umap_put p st (ls_players s)\<rparr>) = held_treasure s"
    unfolding held_treasure_def using items
    by (simp add: loot_players.reg_ok_def umap_sum_put_same del: mset_map)
  moreover have "loot_ok s \<Longrightarrow> loot_ok (s\<lparr>ls_players := umap_put p st (ls_players s)\<rparr>)"
    using assms(2) by (simp add: loot_players.reg_ok_def find_put)
  ultimately show ?thesis by (simp add: quiet_def fun_eq_iff)
qed

lemma quiet_cong:
  assumes "quiet s s1" and p: "ls_players s2 = ls_players s1"
    and "ls_definitions s2 = ls_definitions s1" "ls_config s2 = ls_config s1"
      "ls_active s2 = ls_active s1" "ls_consumed s2 = ls_consumed s1" "ls_next_id s2 = ls_next_id s1"
  shows "quiet s s2"
proof -
  have "holding s2 = holding s1" "held_treasure s2 = held_treasure s1" "loot_ok s2 = loot_ok s1"
    by (simp_all add: p holding_def [abs_def] held_treasure_def loot_players.reg_ok_def)
  with assms show ?thesis unfolding quiet_def by presburger
qed

lemma quiet_ensure [simp]: "quiet s (loot_ensure p s)"
proof (cases "umap_find (ls_players s) p")
  case None
  show ?thesis
    unfolding loot_ensure_def None option.case
    by (rule quiet_put) (simp_all only: None option.case fresh_loot_player_def loot_player.simps)
qed (simp add: loot_ensure_def)

lemma quiet_touch:
  assumes "umap_find (ls_players s) p = Some w" and "lp_items st = lp_items w"
    and "lp_total_value st = lp_total_value w" and "lp_total_weight st = lp_total_weight w"
    and "lp_player_id st = lp_player_id w"
  shows "quiet s (s\<lparr>ls_players := umap_put p st (ls_players s)\<rparr>)"
  by (rule quiet_put) (use assms in \<open>auto simp: loot_players.reg_ok_def\<close>)

lemma quiet_update_position [simp]: "quiet s (update_position m s)"
proof -
  obtain v where v: "umap_find (ls_players (loot_ensure (mot_player_id m) s)) (mot_player_id m) = Some v"
    using loot_players.ensure_present by blast
  show ?thesis
    unfolding update_position_def Let_def v option.case
    by (rule quiet_trans [OF quiet_ensure quiet_touch [OF v]]) simp_all
qed

lemma quiet_update_alive [simp]: "quiet s (update_alive c s)"
proof -
  obtain v where v: "umap_find (ls_players (loot_ensure (pc_player_id c) s)) (pc_player_id c) = Some v"
    using loot_players.ensure_present by blast
  show ?thesis
    unfolding update_alive_def Let_def v option.case
    by (rule quiet_trans [OF quiet_ensure quiet_touch [OF v]]) simp_all
qed

lemma quiet_remove [simp]: "quiet s (loot_remove p s)"
proof -
  define s1 where "s1 = (case umap_find (ls_queues s) p of None \<Rightarrow> s
    | Some q \<Rightarrow> s\<lparr>ls_queued := (if length q \<le> ls_queued s then ls_queued s - length q else 0),
        ls_queues := umap_erase p (ls_queues s)\<rparr>)"
  have "quiet s s1" unfolding s1_def by (rule quiet_cong [OF quiet_refl]) (simp_all split: option.split)
  moreover have "loot_remove p s = (case umap_find (ls_players s1) p of None \<Rightarrow> s1
    | Some st \<Rightarrow> s1\<lparr>ls_players := umap_put p (st\<lparr>lp_alive := False, lp_x := Fin 0, lp_y := Fin 0\<rparr>) (ls_players s1)\<rparr>)"
    by (simp only: loot_remove_def s1_def Let_def)
  moreover have "quiet s1 \<dots>"
  proof (cases "umap_find (ls_players s1) p")
    case (Some st)
    show ?thesis unfolding Some option.case by (rule quiet_touch [OF Some]) simp_all
  qed simp
  ultimately show ?thesis by (metis quiet_trans)
qed

lemma quiet_enqueue [simp]: "quiet s (snd (enqueue_pickup c s))"
proof -
  have e: "enqueue_pickup c s = (fst (enqueue_pickup c s), snd (enqueue_pickup c s))" by simp
  let ?s1 = "loot_ensure (pick_player_id c) s"
  show ?thesis
  proof (cases rule: enqueue_pickup_cases [OF e])
    case (1 v)
    then show ?thesis using quiet_cong [OF quiet_ensure] by fastforce
  next
    case (2 v)
    show ?thesis unfolding 2(5)
      by (rule quiet_cong [OF quiet_trans [OF quiet_ensure
          quiet_touch [OF 2(2), of "v\<lparr>lp_last_enqueued := pick_seq c\<rparr>"]]]) simp_all
  qed
qed

lemma quiet_drain [simp]: "quiet s (snd (drain_pickups s))"
  by (rule quiet_cong [OF quiet_refl]) (simp_all add: drain_pickups_def case_prod_beta)

section \<open>The moves of treasure in a tick\<close>

text \<open>A new spawn under the next id.\<close>

definition places :: "spawn_instance \<Rightarrow> loot_sim \<Rightarrow> loot_sim \<Rightarrow> bool" where
  "places sp s s' \<longleftrightarrow> spn_id sp = ls_next_id s \<and> ls_players s' = ls_players s
     \<and> ls_definitions s' = ls_definitions s \<and> ls_config s' = ls_config s
     \<and> ls_consumed s' = ls_consumed s \<and> ls_active s' = umap_put (spn_id sp) sp (ls_active s)
     \<and> ls_next_id s' = ls_next_id s + 1"

inductive placed :: "spawn_instance list \<Rightarrow> loot_sim \<Rightarrow> loot_sim \<Rightarrow> bool" where
  placed_none: "placed [] s s"
| placed_more: "places sp s s1 \<Longrightarrow> placed sps s1 s' \<Longrightarrow> placed (sp # sps) s s'"

definition treasures :: "loot_sim \<Rightarrow> (string \<times> int \<times> int) set" where
  "treasures s = (\<lambda>d. (tre_id d, tre_value d, tre_weight d)) ` set (ls_definitions s)"

datatype loot_event = Nothing_moves | Spawns spawn_instance | Drops u32 "spawn_instance list"
  | Takes u32 u64 spawn_instance

inductive loot_step :: "loot_sim \<Rightarrow> loot_event \<Rightarrow> loot_sim \<Rightarrow> bool" where
  step_quiet: "quiet s s' \<Longrightarrow> loot_step s Nothing_moves s'"
| step_spawn: "places sp s s' \<Longrightarrow> spawn_treasure sp \<in> treasures s \<Longrightarrow> spn_source sp = Scheduled
    \<Longrightarrow> loot_step s (Spawns sp) s'"
| step_drop: "umap_find (ls_players s) p = Some st \<Longrightarrow> placed sps s s1
    \<Longrightarrow> List.map spawn_treasure sps = List.map treasure_of (lp_items st)
    \<Longrightarrow> \<forall>sp \<in> set sps. spn_source sp = DeathDrop
    \<Longrightarrow> loot_step s (Drops p sps) (s1\<lparr>ls_players := umap_put p
          (st\<lparr>lp_items := [], lp_total_value := 0, lp_total_weight := 0\<rparr>) (ls_players s1)\<rparr>)"
| step_take: "umap_find (ls_players s) p = Some st \<Longrightarrow> umap_find (ls_active s) i = Some sp
    \<Longrightarrow> i \<notin> set (ls_consumed s) \<Longrightarrow> length (lp_items st) < max_items_per_player (ls_config s)
    \<Longrightarrow> wrap_i32 (lp_total_weight st + spn_weight sp) \<le> max_weight_per_player (ls_config s)
    \<Longrightarrow> loot_step s (Takes p i sp) (s\<lparr>ls_players := umap_put p
          (collect_spawn sp (st\<lparr>lp_last_pickup_seq := n\<rparr>)) (ls_players s),
          ls_consumed := List.insert (spn_id sp) (ls_consumed s), ls_active := umap_erase i (ls_active s)\<rparr>)"

inductive_cases step_quietE: "loot_step s Nothing_moves s'"
inductive_cases step_spawnE: "loot_step s (Spawns sp) s'"
inductive_cases step_dropE: "loot_step s (Drops p sps) s'"
inductive_cases step_takeE: "loot_step s (Takes p i sp) s'"

inductive loot_steps :: "loot_sim \<Rightarrow> loot_event list \<Rightarrow> loot_sim \<Rightarrow> bool" where
  steps_none: "loot_steps s [] s"
| steps_more: "loot_step s e s1 \<Longrightarrow> loot_steps s1 es s' \<Longrightarrow> loot_steps s (e # es) s'"

inductive_simps steps_Nil [simp]: "loot_steps s [] s'"
inductive_simps steps_Cons: "loot_steps s (e # es) s'"

lemma steps_append: "loot_steps s es s1 \<Longrightarrow> loot_steps s1 es' s' \<Longrightarrow> loot_steps s (es @ es') s'"
  by (induction rule: loot_steps.induct) (auto intro: loot_steps.intros)

lemma steps_one: "loot_step s e s' \<Longrightarrow> loot_steps s [e] s'"
  by (auto intro: loot_steps.intros)

fun spawns_of :: "loot_event list \<Rightarrow> spawn_instance list" where
  "spawns_of [] = []"
| "spawns_of (Spawns sp # es) = sp # spawns_of es"
| "spawns_of (Drops p sps # es) = sps @ spawns_of es"
| "spawns_of (e # es) = spawns_of es"

fun takes_of :: "loot_event list \<Rightarrow> u64 list" where
  "takes_of [] = []"
| "takes_of (Takes p i sp # es) = i # takes_of es"
| "takes_of (e # es) = takes_of es"

lemma spawns_of_append [simp]: "spawns_of (es @ es') = spawns_of es @ spawns_of es'"
  by (induction es rule: spawns_of.induct) simp_all

lemma takes_of_append [simp]: "takes_of (es @ es') = takes_of es @ takes_of es'"
  by (induction es rule: takes_of.induct) simp_all

definition collected_ids :: "loot_result \<Rightarrow> u64 list" where
  "collected_ids out = List.map res_spawn_id (filter (\<lambda>r. res_status r = Collected) (pickup_results out))"

text \<open>What a step of the tick did: the events, and what they added to the result.\<close>

definition moved :: "loot_result \<times> loot_sim \<Rightarrow> loot_event list \<Rightarrow> loot_result \<times> loot_sim \<Rightarrow> bool" where
  "moved st es st' \<longleftrightarrow> loot_steps (snd st) es (snd st')
     \<and> spawned (fst st') = spawned (fst st) @ spawns_of es
     \<and> collected_ids (fst st') = collected_ids (fst st) @ takes_of es"

lemma moved_refl: "moved st [] st"
  by (simp add: moved_def)

lemma moved_trans: "moved st es st1 \<Longrightarrow> moved st1 es' st' \<Longrightarrow> moved st (es @ es') st'"
  by (auto simp: moved_def intro: steps_append)

lemma moved_quiet: "quiet s s' \<Longrightarrow> moved (out, s) [Nothing_moves] (out, s')"
  by (auto simp: moved_def intro: steps_one step_quiet)

lemma moved_fold:
  assumes "\<And>x a. \<exists>es. moved (view a) es (view (f x a))"
  shows "\<exists>es. moved (view a) es (view (fold f xs a))"
proof (induction xs arbitrary: a)
  case Nil
  show ?case by (auto intro: moved_refl)
next
  case (Cons x xs)
  with assms show ?case by (metis fold_simps(2) moved_trans)
qed

lemma schedule_spawn_moved: "\<exists>es. moved st es (schedule_spawn tick st)"
proof -
  obtain out s where st: "st = (out, s)" by (cases st)
  obtain sp s1 where c: "create_scheduled_spawn tick s = (sp, s1)" by (cases "create_scheduled_spawn tick s")
  show ?thesis
  proof (cases "schedule_spawn tick st = st")
    case True
    then show ?thesis using moved_refl [of st] by auto
  next
    case False
    then have e: "schedule_spawn tick st = activate_spawn sp (out, s1)" and "ls_definitions s \<noteq> []"
      by (auto simp: schedule_spawn_def st c split: if_split_asm)
    then have m: "ls_definitions s ! (ls_next_definition s mod length (ls_definitions s)) \<in> set (ls_definitions s)"
      by simp
    have "places sp s (snd (activate_spawn sp (out, s1)))" "spn_source sp = Scheduled" "spawn_treasure sp \<in> treasures s"
      using c m by (auto simp: places_def activate_spawn_def create_scheduled_spawn_def Let_def
          case_prod_beta spawn_treasure_def treasures_def)
    then have "loot_step s (Spawns sp) (snd (activate_spawn sp (out, s1)))" by (simp add: step_spawn)
    moreover have "fst (activate_spawn sp (out, s1)) = out\<lparr>spawned := spawned out @ [sp]\<rparr>"
      by (simp add: activate_spawn_def)
    ultimately have "moved st [Spawns sp] (schedule_spawn tick st)"
      by (simp add: moved_def e [unfolded st] st steps_one collected_ids_def)
    then show ?thesis ..
  qed
qed

lemma death_drop_places:
  assumes "create_death_drop_spawn tick t x y k s = (sp, s1)"
  shows "places sp s (snd (activate_spawn sp (out, s1)))" "spn_source sp = DeathDrop"
    "spawn_treasure sp = (tre_id t, tre_value t, tre_weight t)"
  using assms by (auto simp: places_def activate_spawn_def create_death_drop_spawn_def Let_def
      spawn_treasure_def)

lemma drop_items_placed:
  "drop_items tick x y k is (out, s) = (out', s') \<Longrightarrow> \<exists>sps. placed sps s s'
     \<and> List.map spawn_treasure sps = List.map treasure_of is \<and> (\<forall>sp \<in> set sps. spn_source sp = DeathDrop)
     \<and> out' = out\<lparr>spawned := spawned out @ sps\<rparr>"
proof (induction "is" arbitrary: k out s)
  case Nil
  then show ?case by (auto intro: placed_none)
next
  case (Cons i "is")
  obtain sp s1 where c: "create_death_drop_spawn tick (item_treasure i) x y k s = (sp, s1)" by fastforce
  define a where "a = snd (activate_spawn sp (out, s1))"
  have "activate_spawn sp (out, s1) = (out\<lparr>spawned := spawned out @ [sp]\<rparr>, a)"
    by (simp add: a_def activate_spawn_def)
  with Cons.prems c have d: "drop_items tick x y (k + 1) is (out\<lparr>spawned := spawned out @ [sp]\<rparr>, a) = (out', s')"
    by simp
  from Cons.IH [OF d] obtain sps where sps: "placed sps a s'"
    "List.map spawn_treasure sps = List.map treasure_of is" "\<forall>sp \<in> set sps. spn_source sp = DeathDrop"
    "out' = out\<lparr>spawned := spawned out @ [sp], spawned := spawned (out\<lparr>spawned := spawned out @ [sp]\<rparr>) @ sps\<rparr>"
    by blast
  have "placed (sp # sps) s s'"
    using death_drop_places(1) [OF c, of out] sps(1) unfolding a_def by (rule placed_more)
  with sps death_drop_places(2,3) [OF c] show ?case
    by (intro exI [of _ "sp # sps"]) (simp add: treasure_of_def)
qed

lemma process_death_moved: "\<exists>es. moved (snd acc) es (snd (process_death tick d acc))"
proof -
  obtain changed out s where acc: "acc = (changed, out, s)" by (cases acc)
  show ?thesis
  proof (cases "umap_find (ls_players s) (death_victim d)")
    case None
    then show ?thesis using moved_refl by (auto simp: process_death_def acc)
  next
    case (Some p)
    note found = Some
    obtain out' s1 where dr: "drop_items tick (lp_x p) (lp_y p) 0 (lp_items p) (out, s) = (out', s1)" by fastforce
    show ?thesis
    proof (cases "lp_items p = []")
      case True
      then show ?thesis using moved_refl Some by (auto simp: process_death_def acc)
    next
      case False
      from drop_items_placed [OF dr] obtain sps where sps: "placed sps s s1"
        "List.map spawn_treasure sps = List.map treasure_of (lp_items p)"
        "\<forall>sp \<in> set sps. spn_source sp = DeathDrop" "out' = out\<lparr>spawned := spawned out @ sps\<rparr>" by blast
      have "moved (out, s) [Drops (death_victim d) sps] (snd (process_death tick d acc))"
        using steps_one [OF step_drop [OF found sps(1-3)]]
        by (simp add: moved_def process_death_def acc found False dr sps(4) collected_ids_def)
      then show ?thesis by (auto simp: acc)
    qed
  qed
qed

lemma process_deaths_moved: "\<exists>es. moved st es (snd (process_deaths tick deaths st))"
proof -
  have "\<exists>es. moved st es (snd (fold (process_death tick) ds ([], st)))" for ds
    using moved_fold [where view = snd and f = "process_death tick", OF process_death_moved, of "([], st)" ds] by simp
  then show ?thesis using moved_refl [of st] by (auto simp: process_deaths_def)
qed

lemma quiet_raise_seq: "umap_find (ls_players s) p = Some st
    \<Longrightarrow> quiet s (s\<lparr>ls_players := umap_put p (st\<lparr>lp_last_pickup_seq := n\<rparr>) (ls_players s)\<rparr>)"
  by (rule quiet_touch) simp_all

lemma decision_refused: "pickup_decision s c p = Inl status \<Longrightarrow> status \<noteq> Collected"
  by (auto simp: pickup_decision_def split: if_split_asm option.splits)

lemma decision_granted:
  assumes "pickup_decision s c p = Inr sp"
  shows "umap_find (ls_active s) (pick_spawn_id c) = Some sp" "pick_spawn_id c \<notin> set (ls_consumed s)"
    "length (lp_items p) < max_items_per_player (ls_config s)"
    "wrap_i32 (lp_total_weight p + spn_weight sp) \<le> max_weight_per_player (ls_config s)"
    "lp_alive p" "within_pickup_range s sp p"
  using assms by (auto simp: pickup_decision_def split: if_split_asm option.splits)

lemma process_pickup_moved: "\<exists>es. moved (snd acc) es (snd (process_pickup c acc))"
proof -
  obtain changed out s where acc: "acc = (changed, out, s)" by (cases acc)
  show ?thesis
  proof (cases "umap_find (ls_players s) (pick_player_id c)")
    case None
    then have "moved (snd acc) [] (snd (process_pickup c acc))"
      by (simp add: moved_def process_pickup_def acc collected_ids_def)
    then show ?thesis ..
  next
    case (Some p0)
    note found = Some
    define p where "p = p0\<lparr>lp_last_pickup_seq := max (lp_last_pickup_seq p0) (pick_seq c)\<rparr>"
    show ?thesis
    proof (cases "pickup_decision s c p")
      case (Inl status)
      then have r: "snd (process_pickup c acc) = (out\<lparr>pickup_results := pickup_results out
          @ [pickup_answer c status [] p]\<rparr>, s\<lparr>ls_players := umap_put (pick_player_id c) p (ls_players s)\<rparr>)"
        by (simp add: process_pickup_def acc found Let_def flip: p_def)
      have "quiet s (s\<lparr>ls_players := umap_put (pick_player_id c) p (ls_players s)\<rparr>)"
        unfolding p_def by (rule quiet_raise_seq [OF found])
      then have "moved (snd acc) [Nothing_moves] (snd (process_pickup c acc))"
        using decision_refused [OF Inl] unfolding r
        by (simp add: moved_def acc collected_ids_def pickup_answer_def steps_one step_quiet)
      then show ?thesis ..
    next
      case (Inr sp)
      define s' where "s' = s\<lparr>ls_players := umap_put (pick_player_id c) (collect_spawn sp p) (ls_players s),
          ls_consumed := List.insert (spn_id sp) (ls_consumed s),
          ls_active := umap_erase (pick_spawn_id c) (ls_active s)\<rparr>"
      from Inr have r: "snd (process_pickup c acc) = (out\<lparr>pickup_results := pickup_results out
          @ [pickup_answer c Collected (spn_treasure_id sp) (collect_spawn sp p)]\<rparr>, s')"
        by (simp add: process_pickup_def acc found Let_def s'_def flip: p_def)
      note d = decision_granted [OF Inr]
      have "loot_step s (Takes (pick_player_id c) (pick_spawn_id c) sp) s'"
        unfolding s'_def p_def using found d(1,2) by (rule step_take) (use d(3,4) in \<open>simp_all add: p_def\<close>)
      then have "moved (snd acc) [Takes (pick_player_id c) (pick_spawn_id c) sp] (snd (process_pickup c acc))"
        unfolding r by (simp add: moved_def acc collected_ids_def pickup_answer_def steps_one)
      then show ?thesis ..
    qed
  qed
qed

text \<open>Every tick is a sequence of such moves, and its result lists exactly them.\<close>

lemma tick_moves:
  assumes "loot_resolve_tick tick movement combat deaths s = (out, s')"
  shows "\<exists>es. loot_steps s es s' \<and> spawned out = spawns_of es \<and> collected_ids out = takes_of es"
proof -
  let ?start = "\<lparr>spawned = [], pickup_results = [], inventory_deltas = []\<rparr>"
  define s1 where "s1 = fold update_position movement s"
  define s2 where "s2 = fold update_alive combat s1"
  define st3 where "st3 = schedule_spawn tick (?start, s2)"
  define r4 where "r4 = process_deaths tick deaths st3"
  define r5 where "r5 = (fst r4, fst (snd r4), snd (drain_pickups (snd (snd r4))))"
  define r6 where "r6 = fold process_pickup (fst (drain_pickups (snd (snd r4)))) r5"
  have out: "spawned out = spawned (fst (snd r6))" "pickup_results out = pickup_results (fst (snd r6))"
    "s' = snd (snd r6)"
    using assms by (auto simp: loot_resolve_tick_def Let_def case_prod_beta r6_def r5_def r4_def st3_def
        s2_def s1_def)
  have "quiet s s2" unfolding s2_def s1_def
    by (rule quiet_trans [OF quiet_fold quiet_fold]) simp_all
  then have 1: "moved (?start, s) [Nothing_moves] (?start, s2)" by (rule moved_quiet)
  obtain e2 where 2: "moved (?start, s2) e2 st3" using schedule_spawn_moved unfolding st3_def by blast
  obtain e3 where 3: "moved st3 e3 (snd r4)" using process_deaths_moved unfolding r4_def by blast
  have 4: "moved (snd r4) [Nothing_moves] (snd r5)"
    using moved_quiet [OF quiet_drain, of "fst (snd r4)" "snd (snd r4)"] by (simp add: r5_def)
  obtain e5 where 5: "moved (snd r5) e5 (snd r6)"
    unfolding r6_def using moved_fold [where view = snd and f = process_pickup, OF process_pickup_moved] by blast
  from moved_trans [OF moved_trans [OF moved_trans [OF moved_trans [OF 1 2] 3] 4] 5]
  obtain es where "moved (?start, s) es (snd r6)" by blast
  then show ?thesis using out by (auto simp: moved_def collected_ids_def)
qed

section \<open>The invariant of the simulation\<close>

abbreviation values_sum :: "inventory_item list \<Rightarrow> int" where
  "values_sum is \<equiv> sum_list (List.map (\<lambda>i. tre_value (item_treasure i)) is)"

abbreviation weights_sum :: "inventory_item list \<Rightarrow> int" where
  "weights_sum is \<equiv> sum_list (List.map (\<lambda>i. tre_weight (item_treasure i)) is)"

text \<open>No treasure is heavy enough to leave the range of \<open>int\<close> on top of a full load.\<close>

definition light_treasures :: "loot_sim \<Rightarrow> bool" where
  "light_treasures s \<longleftrightarrow> (\<forall>d \<in> set (ls_definitions s).
     tre_weight d + max_weight_per_player (ls_config s) < 2 ^ 31)"

definition holding_ok :: "loot_sim \<Rightarrow> holding \<Rightarrow> bool" where
  "holding_ok s h = (case h of (items, value, weight) \<Rightarrow>
     length items \<le> max_items_per_player (ls_config s)
     \<and> (\<forall>i \<in> set items. treasure_of i \<in> treasures s)
     \<and> value = wrap_i32 (values_sum items) \<and> weight = wrap_i32 (weights_sum items)
     \<and> weight \<le> max_weight_per_player (ls_config s)
     \<and> (light_treasures s \<longrightarrow> weights_sum items \<le> max_weight_per_player (ls_config s)))"

definition spawns_ok :: "loot_sim \<Rightarrow> bool" where
  "spawns_ok s \<longleftrightarrow> umap_ok (ls_active s) \<and> (\<forall>i sp. umap_find (ls_active s) i = Some sp
     \<longrightarrow> spn_id sp = i \<and> spawn_treasure sp \<in> treasures s)"

definition loot_inv :: "loot_sim \<Rightarrow> bool" where
  "loot_inv s \<longleftrightarrow> loot_ok s \<and> spawns_ok s \<and> (\<forall>p. holding_ok s (holding s p))
     \<and> (\<forall>d \<in> set (ls_definitions s). usable_definition d) \<and> 0 < max_weight_per_player (ls_config s)"

lemma loot_invD:
  assumes "loot_inv s"
  shows "loot_ok s" "spawns_ok s" "holding_ok s (holding s p)" "0 < max_weight_per_player (ls_config s)"
    "umap_ok (ls_players s)" "umap_ok (ls_active s)"
  using assms by (auto simp: loot_inv_def spawns_ok_def loot_players.reg_ok_def)

lemma treasures_usable: "loot_inv s \<Longrightarrow> (t, v, w) \<in> treasures s \<Longrightarrow> 0 \<le> v \<and> 0 \<le> w"
  by (auto simp: loot_inv_def treasures_def usable_definition_def)

lemma treasures_light: "light_treasures s \<Longrightarrow> (t, v, w) \<in> treasures s
    \<Longrightarrow> w + max_weight_per_player (ls_config s) < 2 ^ 31"
  by (auto simp: light_treasures_def treasures_def)

text \<open>The static part of the state.\<close>

definition same_rules :: "loot_sim \<Rightarrow> loot_sim \<Rightarrow> bool" where
  "same_rules s s' \<longleftrightarrow> ls_definitions s' = ls_definitions s \<and> ls_config s' = ls_config s"

lemma same_rulesD:
  assumes "same_rules s s'"
  shows "holding_ok s' = holding_ok s" "treasures s' = treasures s" "light_treasures s' = light_treasures s"
  using assms by (simp_all add: same_rules_def holding_ok_def [abs_def] treasures_def light_treasures_def)

lemma loot_inv_from:
  assumes "loot_inv s" "same_rules s s'" "loot_ok s'" "spawns_ok s'"
    and "\<And>p. holding s' p = holding s p \<or> holding_ok s (holding s' p)"
  shows "loot_inv s'"
proof -
  have "holding_ok s (holding s' p)" for p
    using assms(5) [of p] loot_invD(3) [OF assms(1), of p] by auto
  then show ?thesis
    using assms(1-4) by (simp add: loot_inv_def same_rulesD [OF assms(2)]) (simp add: same_rules_def)
qed

lemma spawns_ok_put:
  assumes "spawns_ok s" "same_rules s s'" "ls_active s' = umap_put (spn_id sp) sp (ls_active s)"
    and "spawn_treasure sp \<in> treasures s"
  shows "spawns_ok s'"
  using assms by (auto simp: spawns_ok_def find_put same_rulesD [OF assms(2)])

lemma places_rules: "places sp s s' \<Longrightarrow> same_rules s s'"
  by (simp add: places_def same_rules_def)

lemma placed_rules: "placed sps s s' \<Longrightarrow> same_rules s s' \<and> ls_players s' = ls_players s
    \<and> ls_consumed s' = ls_consumed s"
  by (induction rule: placed.induct) (auto simp: places_def same_rules_def)

lemma placed_spawns_ok:
  "placed sps s s' \<Longrightarrow> spawns_ok s \<Longrightarrow> \<forall>sp \<in> set sps. spawn_treasure sp \<in> treasures s \<Longrightarrow> spawns_ok s'"
proof (induction rule: placed.induct)
  case (placed_more sp s s1 sps s')
  note r = places_rules [OF placed_more.hyps(1)]
  have "spawns_ok s1"
    using placed_more by (intro spawns_ok_put [OF _ r]) (auto simp: places_def)
  with placed_more show ?case by (simp add: same_rulesD [OF r])
qed simp

lemma holding_ok_empty: "0 < max_weight_per_player (ls_config s) \<Longrightarrow> holding_ok s ([], 0, 0)"
  by (simp add: holding_ok_def in_i32_def)

lemma holding_found: "umap_find (ls_players s) p = Some st
    \<Longrightarrow> holding s p = (lp_items st, lp_total_value st, lp_total_weight st)"
  by (simp add: holding_def)

lemma holding_ok_collect:
  assumes h: "holding_ok s (lp_items st, lp_total_value st, lp_total_weight st)"
    and t: "spawn_treasure sp \<in> treasures s"
    and room: "length (lp_items st) < max_items_per_player (ls_config s)"
    and w: "wrap_i32 (lp_total_weight st + spn_weight sp) \<le> max_weight_per_player (ls_config s)"
    and inv: "loot_inv s"
  shows "holding_ok s (lp_items (collect_spawn sp st), lp_total_value (collect_spawn sp st),
    lp_total_weight (collect_spawn sp st))"
proof -
  have usable: "0 \<le> spn_weight sp"
    using treasures_usable [OF inv] t by (auto simp: spawn_treasure_def)
  have "weights_sum (lp_items st) + spn_weight sp \<le> max_weight_per_player (ls_config s)"
    if light: "light_treasures s"
  proof -
    have old: "weights_sum (lp_items st) \<le> max_weight_per_player (ls_config s)"
      using h light by (simp add: holding_ok_def)
    have nonneg: "0 \<le> weights_sum (lp_items st)"
      using h treasures_usable [OF inv] by (intro sum_list_nonneg) (auto simp: holding_ok_def treasure_of_def)
    have "spn_weight sp + max_weight_per_player (ls_config s) < 2 ^ 31"
      using treasures_light [OF light] t by (auto simp: spawn_treasure_def)
    then have "in_i32 (weights_sum (lp_items st) + spn_weight sp)"
      using old nonneg usable by (simp add: in_i32_def)
    moreover have "wrap_i32 (weights_sum (lp_items st) + spn_weight sp) \<le> max_weight_per_player (ls_config s)"
      using h w by (simp add: holding_ok_def wrap_i32_add)
    ultimately show ?thesis by simp
  qed
  then show ?thesis
    using h t room w by (auto simp: holding_ok_def collect_spawn_def treasure_of_def spawn_treasure_def wrap_i32_add)
qed

lemma holding_put: "holding (s\<lparr>ls_players := umap_put p st m\<rparr>) q = (if q = p
    then (lp_items st, lp_total_value st, lp_total_weight st) else holding (s\<lparr>ls_players := m\<rparr>) q)"
  by (simp add: holding_def find_put)

lemma loot_ok_put: "loot_ok s \<Longrightarrow> umap_find (ls_players s) p = Some st \<Longrightarrow> lp_player_id st' = lp_player_id st
    \<Longrightarrow> ls_players s' = umap_put p st' (ls_players s) \<Longrightarrow> loot_ok s'"
  by (simp add: loot_players.reg_ok_def find_put)

lemma loot_step_rules: "loot_step s e s' \<Longrightarrow> same_rules s s'"
  by (induction rule: loot_step.induct)
    (auto simp: same_rules_def quiet_def places_def dest: placed_rules [unfolded same_rules_def])

lemma loot_step_inv: "loot_step s e s' \<Longrightarrow> loot_inv s \<Longrightarrow> loot_inv s'"
proof (induction rule: loot_step.induct)
  case (step_quiet s s')
  then show ?case
    by (intro loot_inv_from [of s s']) (auto simp: loot_inv_def quiet_def same_rules_def spawns_ok_def treasures_def)
next
  case (step_spawn sp s s')
  note r = places_rules [OF step_spawn(1)]
  have "spawns_ok s'"
    using step_spawn loot_invD(2) by (intro spawns_ok_put [OF _ r]) (auto simp: places_def)
  with step_spawn r show ?case
    by (intro loot_inv_from [of s s']) (auto simp: places_def loot_inv_def loot_players.reg_ok_def holding_def)
next
  case (step_drop s p st sps s1)
  note r = placed_rules [OF step_drop(2)]
  have "\<forall>t \<in> set (List.map spawn_treasure sps). t \<in> treasures s"
    using loot_invD(3) [OF step_drop(5), of p] holding_found [OF step_drop(1)]
    by (simp add: step_drop(3) holding_ok_def)
  then have "spawns_ok s1"
    using placed_spawns_ok [OF step_drop(2) loot_invD(2) [OF step_drop(5)]] by simp
  let ?s' = "s1\<lparr>ls_players := umap_put p (st\<lparr>lp_items := [], lp_total_value := 0, lp_total_weight := 0\<rparr>) (ls_players s1)\<rparr>"
  have "loot_ok ?s'" by (rule loot_ok_put [OF loot_invD(1) [OF step_drop(5)] step_drop(1)]) (simp_all add: r)
  moreover have "holding ?s' q = holding s q \<or> holding_ok s (holding ?s' q)" for q
    using r holding_ok_empty [OF loot_invD(4) [OF step_drop(5)]] by (simp add: holding_def find_put)
  moreover have "spawns_ok ?s'" using \<open>spawns_ok s1\<close> by (simp add: spawns_ok_def treasures_def)
  moreover have "same_rules s ?s'" using r by (simp add: same_rules_def)
  ultimately show ?case by (intro loot_inv_from [OF step_drop(5)])
next
  case (step_take s p st i sp n)
  let ?st = "st\<lparr>lp_last_pickup_seq := n\<rparr>"
  let ?s' = "s\<lparr>ls_players := umap_put p (collect_spawn sp ?st) (ls_players s),
      ls_consumed := List.insert (spn_id sp) (ls_consumed s), ls_active := umap_erase i (ls_active s)\<rparr>"
  note inv = step_take(6)
  have t: "spawn_treasure sp \<in> treasures s"
    using loot_invD(2) [OF inv] step_take(2) by (auto simp: spawns_ok_def)
  have "holding_ok s (lp_items (collect_spawn sp ?st), lp_total_value (collect_spawn sp ?st),
      lp_total_weight (collect_spawn sp ?st))"
    using loot_invD(3) [OF inv, of p] holding_found [OF step_take(1)] step_take(4,5)
    by (intro holding_ok_collect [OF _ t _ _ inv]) simp_all
  moreover have "holding ?s' q = (if q = p then (lp_items (collect_spawn sp ?st), lp_total_value (collect_spawn sp ?st),
      lp_total_weight (collect_spawn sp ?st)) else holding s q)" for q
    by (simp add: holding_def find_put)
  moreover have "spawns_ok ?s'"
    using loot_invD(2) [OF inv] by (auto simp: spawns_ok_def find_erase treasures_def)
  moreover have "loot_ok ?s'"
    by (rule loot_ok_put [OF loot_invD(1) [OF inv] step_take(1)]) (simp_all add: collect_spawn_def)
  ultimately show ?case by (intro loot_inv_from [OF inv]) (auto simp: same_rules_def)
qed

lemma loot_steps_inv: "loot_steps s es s' \<Longrightarrow> loot_inv s \<Longrightarrow> loot_inv s'"
  by (induction rule: loot_steps.induct) (auto intro: loot_step_inv)

section \<open>Every treasure is taken once\<close>

lemma loot_step_takes:
  "loot_step s e s' \<Longrightarrow> loot_inv s \<Longrightarrow> set (takes_of [e]) \<inter> set (ls_consumed s) = {}
     \<and> distinct (takes_of [e]) \<and> set (ls_consumed s') = set (ls_consumed s) \<union> set (takes_of [e])"
proof (induction rule: loot_step.induct)
  case (step_take s p st i sp n)
  then have "spn_id sp = i" using loot_invD(2) by (auto simp: spawns_ok_def)
  with step_take show ?case by auto
qed (auto simp: quiet_def places_def dest: placed_rules)

lemma loot_steps_takes:
  "loot_steps s es s' \<Longrightarrow> loot_inv s \<Longrightarrow> set (takes_of es) \<inter> set (ls_consumed s) = {}
     \<and> distinct (takes_of es) \<and> set (ls_consumed s') = set (ls_consumed s) \<union> set (takes_of es)"
proof (induction rule: loot_steps.induct)
  case (steps_more s e s1 es s')
  have "takes_of (e # es) = takes_of [e] @ takes_of es" using takes_of_append [of "[e]" es] by simp
  moreover note loot_step_takes [OF steps_more(1,4)] loot_step_inv [OF steps_more(1,4)]
  ultimately show ?case using steps_more(3) by auto
qed simp

section \<open>Treasure is conserved\<close>

definition world_treasure :: "loot_sim \<Rightarrow> (string \<times> int \<times> int) multiset" where
  "world_treasure s = held_treasure s + lying_treasure s"

text \<open>The ids that are lying or taken are below the next id, and \<open>k\<close> more fit into 64 bits.\<close>

definition fresh_ids :: "loot_sim \<Rightarrow> nat \<Rightarrow> bool" where
  "fresh_ids s k \<longleftrightarrow> unat (ls_next_id s) + k < 2 ^ 64
     \<and> (\<forall>i. i \<in> fst ` set (ls_active s) \<or> i \<in> set (ls_consumed s) \<longrightarrow> i < ls_next_id s)
     \<and> fst ` set (ls_active s) \<inter> set (ls_consumed s) = {}"

lemma unat_next: "unat (n :: u64) + 1 < 2 ^ 64 \<Longrightarrow> unat (n + 1) = Suc (unat n)"
  by (simp add: unat_word_ariths)

lemma less_next: "unat (n :: u64) + 1 < 2 ^ 64 \<Longrightarrow> i < n \<or> i = n \<Longrightarrow> i < n + 1"
  using unat_next [of n] by (auto simp: word_less_nat_alt)

lemma places_conserves:
  assumes "places sp s s'" "fresh_ids s (Suc k)" "umap_ok (ls_active s)"
  shows "lying_treasure s' = lying_treasure s + {#spawn_treasure sp#}" "fresh_ids s' k" "umap_ok (ls_active s')"
proof -
  from assms have a: "ls_active s' = umap_put (spn_id sp) sp (ls_active s)" and i: "spn_id sp = ls_next_id s"
    and n: "ls_next_id s' = ls_next_id s + 1" and c: "ls_consumed s' = ls_consumed s"
    by (simp_all add: places_def)
  have new: "ls_next_id s \<notin> fst ` set (ls_active s)" "ls_next_id s \<notin> set (ls_consumed s)"
    using assms(2) by (auto simp: fresh_ids_def)
  then have "umap_find (ls_active s) (spn_id sp) = None" by (simp add: i map_of_eq_None_iff)
  then show "lying_treasure s' = lying_treasure s + {#spawn_treasure sp#}"
    using umap_sum_put [OF assms(3), of "\<lambda>sp. {#spawn_treasure sp#}" "spn_id sp" sp]
    by (simp add: lying_treasure_def a)
  show "umap_ok (ls_active s')" using assms(3) by (simp add: a)
  have u: "unat (ls_next_id s) + 1 < 2 ^ 64" using assms(2) by (simp add: fresh_ids_def)
  have keys: "fst ` set (ls_active s') = insert (ls_next_id s) (fst ` set (ls_active s))"
    using keys_put [of "spn_id sp" sp "ls_active s"] by (simp add: a i)
  show "fresh_ids s' k"
    using assms(2) new unat_next [OF u] less_next [OF u] unfolding fresh_ids_def keys n c by auto
qed

lemma placed_conserves:
  "placed sps s s' \<Longrightarrow> fresh_ids s (length sps + k) \<Longrightarrow> umap_ok (ls_active s) \<Longrightarrow>
     lying_treasure s' = lying_treasure s + mset (List.map spawn_treasure sps) \<and> fresh_ids s' k
     \<and> umap_ok (ls_active s')"
proof (induction rule: placed.induct)
  case (placed_more sp s s1 sps s')
  have "fresh_ids s (Suc (length sps + k))" using placed_more.prems(1) by simp
  note p = places_conserves [OF placed_more.hyps(1) this placed_more.prems(2)]
  from placed_more.IH [OF p(2,3)] p(1) show ?case by simp
qed simp

lemma held_put:
  assumes "loot_ok s" "umap_find (ls_players s) p = Some st" "ls_players s' = umap_put p st' (ls_players s)"
  shows "held_treasure s' + mset (List.map treasure_of (lp_items st))
    = held_treasure s + mset (List.map treasure_of (lp_items st'))"
  using umap_sum_put [of "ls_players s" "\<lambda>st. mset (List.map treasure_of (lp_items st))" p st'] assms
  by (simp add: held_treasure_def loot_players.reg_ok_def)

definition scheduled_of :: "spawn_instance list \<Rightarrow> (string \<times> int \<times> int) multiset" where
  "scheduled_of sps = mset (List.map spawn_treasure (filter (\<lambda>sp. spn_source sp = Scheduled) sps))"

lemma scheduled_of_append [simp]: "scheduled_of (xs @ ys) = scheduled_of xs + scheduled_of ys"
  by (simp add: scheduled_of_def)

lemma loot_step_conserves:
  "loot_step s e s' \<Longrightarrow> loot_inv s \<Longrightarrow> fresh_ids s (length (spawns_of [e]) + k) \<Longrightarrow>
     world_treasure s' = world_treasure s + scheduled_of (spawns_of [e]) \<and> fresh_ids s' k"
proof (induction rule: loot_step.induct)
  case (step_quiet s s')
  then show ?case
    by (auto simp: quiet_def loot_inv_def world_treasure_def lying_treasure_def fresh_ids_def scheduled_of_def)
next
  case (step_spawn sp s s')
  have "fresh_ids s (Suc k)" using step_spawn(5) by simp
  note p = places_conserves [OF step_spawn(1) this loot_invD(6) [OF step_spawn(4)]]
  have "held_treasure s' = held_treasure s" using step_spawn(1) by (simp add: places_def held_treasure_def)
  with p step_spawn(3) show ?case by (simp add: world_treasure_def scheduled_of_def)
next
  case (step_drop s p st sps s1)
  let ?s' = "s1\<lparr>ls_players := umap_put p (st\<lparr>lp_items := [], lp_total_value := 0, lp_total_weight := 0\<rparr>) (ls_players s1)\<rparr>"
  note r = placed_rules [OF step_drop(2)]
  have "fresh_ids s (length sps + k)" using step_drop(6) by simp
  note c = placed_conserves [OF step_drop(2) this loot_invD(6) [OF step_drop(5)]]
  have "held_treasure ?s' + mset (List.map treasure_of (lp_items st)) = held_treasure s"
    using held_put [OF loot_invD(1) [OF step_drop(5)] step_drop(1), of ?s'] r by simp
  moreover have "lying_treasure ?s' = lying_treasure s + mset (List.map treasure_of (lp_items st))"
    using c by (simp add: lying_treasure_def step_drop(3) [symmetric] del: mset_map)
  moreover have "fresh_ids ?s' k" using c by (simp add: fresh_ids_def)
  moreover have "scheduled_of sps = {#}" using step_drop(4) by (simp add: scheduled_of_def filter_False)
  ultimately show ?case by (simp add: world_treasure_def ac_simps del: mset_map)
next
  case (step_take s p st i sp n)
  note inv = step_take(6)
  let ?s' = "s\<lparr>ls_players := umap_put p (collect_spawn sp (st\<lparr>lp_last_pickup_seq := n\<rparr>)) (ls_players s),
      ls_consumed := List.insert (spn_id sp) (ls_consumed s), ls_active := umap_erase i (ls_active s)\<rparr>"
  have i: "spn_id sp = i" using loot_invD(2) [OF inv] step_take(2) by (auto simp: spawns_ok_def)
  have "lying_treasure ?s' + {#spawn_treasure sp#} = lying_treasure s"
    unfolding lying_treasure_def
    using umap_sum_erase [OF loot_invD(6) [OF inv] step_take(2), of "\<lambda>sp. {#spawn_treasure sp#}"] by simp
  moreover have "held_treasure ?s' = held_treasure s + {#spawn_treasure sp#}"
    using held_put [OF loot_invD(1) [OF inv] step_take(1), of ?s'
        "collect_spawn sp (st\<lparr>lp_last_pickup_seq := n\<rparr>)"]
    by (simp add: collect_spawn_def treasure_of_def spawn_treasure_def)
  moreover have "i \<in> fst ` set (ls_active s)" using step_take(2) by (force dest: find_in_set)
  then have "fresh_ids ?s' k"
    using step_take(7) i keys_erase [of i "ls_active s"] by (auto simp: fresh_ids_def)
  ultimately show ?case by (simp add: world_treasure_def scheduled_of_def ac_simps)
qed

lemma spawns_of_Cons: "spawns_of (e # es) = spawns_of [e] @ spawns_of es"
  using spawns_of_append [of "[e]" es] by simp

lemma loot_steps_conserve:
  "loot_steps s es s' \<Longrightarrow> loot_inv s \<Longrightarrow> fresh_ids s (length (spawns_of es) + k) \<Longrightarrow>
     world_treasure s' = world_treasure s + scheduled_of (spawns_of es) \<and> fresh_ids s' k"
proof (induction rule: loot_steps.induct)
  case (steps_more s e s1 es s')
  have "fresh_ids s (length (spawns_of [e]) + (length (spawns_of es) + k))"
    using steps_more.prems(2) by (simp add: spawns_of_Cons [of e es] add.assoc)
  note c = loot_step_conserves [OF steps_more(1,4) this]
  then show ?case
    using steps_more.IH [OF loot_step_inv [OF steps_more(1,4)] c [THEN conjunct2]]
    by (simp add: spawns_of_Cons [of e es])
qed (simp add: scheduled_of_def)

section \<open>The treasure ledger: what the simulation promises\<close>

text \<open>Who holds which treasures, which lie where under which id, and which ids were ever taken.\<close>

record ledger =
  held_by :: "u32 \<Rightarrow> (string \<times> int \<times> int) list"
  lying :: "u64 \<Rightarrow> (string \<times> int \<times> int) option"
  taken :: "u64 set"

definition ledger_of :: "loot_sim \<Rightarrow> ledger" where
  "ledger_of s = \<lparr>held_by = (\<lambda>p. List.map treasure_of (fst (holding s p))),
     lying = (\<lambda>i. map_option spawn_treasure (umap_find (ls_active s) i)),
     taken = set (ls_consumed s)\<rparr>"

abbreviation unused :: "ledger \<Rightarrow> u64 \<Rightarrow> bool" where
  "unused l i \<equiv> lying l i = None \<and> i \<notin> taken l"

definition lay :: "spawn_instance list \<Rightarrow> ledger \<Rightarrow> ledger" where
  "lay sps l = l\<lparr>lying := fold (\<lambda>sp m. m(spn_id sp \<mapsto> spawn_treasure sp)) sps (lying l)\<rparr>"

inductive ledger_step :: "ledger \<Rightarrow> loot_event \<Rightarrow> ledger \<Rightarrow> bool" where
  ledger_idle: "ledger_step l Nothing_moves l"
| ledger_spawn: "unused l (spn_id sp) \<Longrightarrow> ledger_step l (Spawns sp) (lay [sp] l)"
| ledger_drop: "\<forall>sp \<in> set sps. unused l (spn_id sp) \<Longrightarrow> distinct (List.map spn_id sps)
    \<Longrightarrow> List.map spawn_treasure sps = held_by l p
    \<Longrightarrow> ledger_step l (Drops p sps) ((lay sps l)\<lparr>held_by := (held_by l)(p := [])\<rparr>)"
| ledger_take: "lying l i = Some (spawn_treasure sp) \<Longrightarrow> i \<notin> taken l
    \<Longrightarrow> ledger_step l (Takes p i sp) (l\<lparr>held_by := (held_by l)(p := held_by l p @ [spawn_treasure sp]),
          lying := (lying l)(i := None), taken := insert i (taken l)\<rparr>)"

inductive ledger_steps :: "ledger \<Rightarrow> loot_event list \<Rightarrow> ledger \<Rightarrow> bool" where
  ledger_none: "ledger_steps l [] l"
| ledger_more: "ledger_step l e l1 \<Longrightarrow> ledger_steps l1 es l' \<Longrightarrow> ledger_steps l (e # es) l'"

lemma ledger_of_cong: "holding s' = holding s \<Longrightarrow> ls_active s' = ls_active s \<Longrightarrow> ls_consumed s' = ls_consumed s
    \<Longrightarrow> ledger_of s' = ledger_of s"
  by (simp add: ledger_of_def)

lemma unused_fresh: "fresh_ids s k \<Longrightarrow> \<not> i < ls_next_id s \<Longrightarrow> unused (ledger_of s) i"
  by (auto simp: fresh_ids_def ledger_of_def map_of_eq_None_iff)

lemma places_ledger:
  assumes "places sp s s'" and "fresh_ids s (Suc k)"
  shows "unused (ledger_of s) (spn_id sp)" "ledger_of s' = lay [sp] (ledger_of s)"
  using unused_fresh [OF assms(2)] assms(1)
  by (auto simp: places_def ledger_of_def lay_def holding_def find_put fun_eq_iff)

lemma placed_ledger:
  "placed sps s s' \<Longrightarrow> fresh_ids s (length sps + k) \<Longrightarrow> umap_ok (ls_active s) \<Longrightarrow>
     ledger_of s' = lay sps (ledger_of s) \<and> distinct (List.map spn_id sps)
     \<and> (\<forall>sp \<in> set sps. unused (ledger_of s) (spn_id sp) \<and> \<not> spn_id sp < ls_next_id s)"
proof (induction rule: placed.induct)
  case (placed_more sp s s1 sps s')
  have f: "fresh_ids s (Suc (length sps + k))" using placed_more.prems(1) by simp
  note p = places_conserves [OF placed_more.hyps(1) f placed_more.prems(2)]
  note l = places_ledger [OF placed_more.hyps(1) f]
  note ih = placed_more.IH [OF p(2,3)]
  have n: "spn_id sp = ls_next_id s" "ls_next_id s1 = ls_next_id s + 1"
    using placed_more.hyps(1) by (simp_all add: places_def)
  have u: "unat (ls_next_id s) + 1 < 2 ^ 64" using f by (simp add: fresh_ids_def)
  have later: "spn_id x \<noteq> spn_id sp \<and> \<not> spn_id x < ls_next_id s" if "x \<in> set sps" for x
    using ih that less_next [OF u, of "spn_id x"] n by auto
  have "unused (ledger_of s) (spn_id x)" if "x \<in> set sps" for x
    using unused_fresh [OF f] later [OF that] by blast
  moreover have "ledger_of s' = lay (sp # sps) (ledger_of s)"
    using ih l(2) by (simp add: lay_def)
  moreover have "spn_id sp \<notin> spn_id ` set sps" using later by (metis imageE)
  then have "distinct (List.map spn_id (sp # sps))" using ih by simp
  moreover have "\<not> spn_id sp < ls_next_id s" using n by simp
  ultimately show ?case using l(1) later by auto
qed (simp add: lay_def)

lemma loot_step_ledger:
  "loot_step s e s' \<Longrightarrow> loot_inv s \<Longrightarrow> fresh_ids s (length (spawns_of [e]) + k) \<Longrightarrow>
     ledger_step (ledger_of s) e (ledger_of s')"
proof (induction rule: loot_step.induct)
  case (step_quiet s s')
  then have "ledger_of s' = ledger_of s" by (intro ledger_of_cong) (auto simp: quiet_def loot_inv_def)
  then show ?case by (simp add: ledger_idle)
next
  case (step_spawn sp s s')
  have "fresh_ids s (Suc k)" using step_spawn(5) by simp
  from places_ledger [OF step_spawn(1) this] show ?case by (auto intro: ledger_spawn)
next
  case (step_drop s p st sps s1)
  let ?s' = "s1\<lparr>ls_players := umap_put p (st\<lparr>lp_items := [], lp_total_value := 0, lp_total_weight := 0\<rparr>) (ls_players s1)\<rparr>"
  have "fresh_ids s (length sps + k)" using step_drop(6) by simp
  note l = placed_ledger [OF step_drop(2) this loot_invD(6) [OF step_drop(5)]]
  have "ledger_of ?s' = (ledger_of s1)\<lparr>held_by := (held_by (ledger_of s1))(p := [])\<rparr>"
    by (simp add: ledger_of_def holding_def find_put fun_eq_iff)
  also have "held_by (ledger_of s1) = held_by (ledger_of s)" using l by (simp add: lay_def)
  finally have e: "ledger_of ?s' = (lay sps (ledger_of s))\<lparr>held_by := (held_by (ledger_of s))(p := [])\<rparr>"
    by (simp only: l [THEN conjunct1])
  have "held_by (ledger_of s) p = List.map treasure_of (lp_items st)"
    using step_drop(1) by (simp add: ledger_of_def holding_def)
  then show ?case unfolding e using l step_drop(3) by (intro ledger_drop) simp_all
next
  case (step_take s p st i sp n)
  let ?s' = "s\<lparr>ls_players := umap_put p (collect_spawn sp (st\<lparr>lp_last_pickup_seq := n\<rparr>)) (ls_players s),
      ls_consumed := List.insert (spn_id sp) (ls_consumed s), ls_active := umap_erase i (ls_active s)\<rparr>"
  have i: "spn_id sp = i" using loot_invD(2) [OF step_take(6)] step_take(2) by (auto simp: spawns_ok_def)
  have h: "held_by (ledger_of s) p = List.map treasure_of (lp_items st)"
    using step_take(1) by (simp add: ledger_of_def holding_def)
  have e: "ledger_of ?s' = (ledger_of s)\<lparr>held_by := (held_by (ledger_of s))(p := held_by (ledger_of s) p @ [spawn_treasure sp]),
      lying := (lying (ledger_of s))(i := None), taken := insert i (taken (ledger_of s))\<rparr>"
    unfolding h by (auto simp: ledger_of_def holding_def find_put find_erase fun_eq_iff collect_spawn_def
        treasure_of_def spawn_treasure_def i)
  show ?case unfolding e by (rule ledger_take) (use step_take(2,3) in \<open>simp_all add: ledger_of_def\<close>)
qed

lemma loot_steps_ledger:
  "loot_steps s es s' \<Longrightarrow> loot_inv s \<Longrightarrow> fresh_ids s (length (spawns_of es) + k) \<Longrightarrow>
     ledger_steps (ledger_of s) es (ledger_of s')"
proof (induction rule: loot_steps.induct)
  case (steps_more s e s1 es s')
  have f: "fresh_ids s (length (spawns_of [e]) + (length (spawns_of es) + k))"
    using steps_more.prems(2) by (simp add: spawns_of_Cons [of e es] add.assoc)
  have "fresh_ids s1 (length (spawns_of es) + k)"
    using loot_step_conserves [OF steps_more(1,4) f] by blast
  then show ?case
    using loot_step_ledger [OF steps_more(1,4) f] steps_more.IH [OF loot_step_inv [OF steps_more(1,4)]]
    by (rule_tac ledger_more)
qed (rule ledger_none)

section \<open>The calls of the simulation\<close>

datatype loot_call = LootReset | LootEnsure u32 | LootRemove u32 | LootEnqueue pickup_command
  | LootTick u64 "motion_state list" "combat_player list" "death_resolution list"

fun loot_exec :: "loot_call \<Rightarrow> loot_sim \<Rightarrow> loot_sim" where
  "loot_exec LootReset s = loot_reset s"
| "loot_exec (LootEnsure p) s = loot_ensure p s"
| "loot_exec (LootRemove p) s = loot_remove p s"
| "loot_exec (LootEnqueue c) s = snd (enqueue_pickup c s)"
| "loot_exec (LootTick tick movement combat deaths) s = snd (loot_resolve_tick tick movement combat deaths s)"

text \<open>A sequence of calls, with the spawns and the collected ids that its ticks reported.\<close>

primrec loot_run :: "loot_call list \<Rightarrow> loot_sim \<Rightarrow> spawn_instance list \<times> u64 list \<times> loot_sim" where
  "loot_run [] s = ([], [], s)"
| "loot_run (call # calls) s =
     (let (sps, ids) = (case call of
          LootTick tick movement combat deaths \<Rightarrow>
            (let out = fst (loot_resolve_tick tick movement combat deaths s)
             in (spawned out, collected_ids out))
        | _ \<Rightarrow> ([], []));
          (sps', ids', s') = loot_run calls (loot_exec call s)
      in (sps @ sps', ids @ ids', s'))"

lemma loot_exec_moves:
  assumes "call \<noteq> LootReset"
  shows "\<exists>es. loot_steps s es (loot_exec call s) \<and> (\<forall>calls. loot_run (call # calls) s
    = (let (sps, ids, s') = loot_run calls (loot_exec call s) in (spawns_of es @ sps, takes_of es @ ids, s')))"
proof (cases call)
  case (LootTick tick movement combat deaths)
  obtain out s' where "loot_resolve_tick tick movement combat deaths s = (out, s')" by fastforce
  with tick_moves [OF this] LootTick show ?thesis by auto
next
  case (LootEnsure p)
  have "loot_steps s [Nothing_moves] (loot_ensure p s)" by (intro steps_one step_quiet) simp
  with LootEnsure show ?thesis by (intro exI [of _ "[Nothing_moves]"]) simp
next
  case (LootRemove p)
  have "loot_steps s [Nothing_moves] (loot_remove p s)" by (intro steps_one step_quiet) simp
  with LootRemove show ?thesis by (intro exI [of _ "[Nothing_moves]"]) simp
next
  case (LootEnqueue c)
  have "loot_steps s [Nothing_moves] (snd (enqueue_pickup c s))" by (intro steps_one step_quiet) simp
  with LootEnqueue show ?thesis by (intro exI [of _ "[Nothing_moves]"]) simp
qed (use assms in simp)

lemma loot_run_moves:
  "LootReset \<notin> set calls \<Longrightarrow> loot_run calls s = (sps, ids, s')
    \<Longrightarrow> \<exists>es. loot_steps s es s' \<and> sps = spawns_of es \<and> ids = takes_of es"
proof (induction calls arbitrary: s sps ids)
  case Nil
  then show ?case by (intro exI [of _ "[]"]) auto
next
  case (Cons call calls)
  then have "call \<noteq> LootReset" by auto
  from loot_exec_moves [OF this, of s] obtain e where e: "loot_steps s e (loot_exec call s)"
    "loot_run (call # calls) s = (let (sps, ids, s') = loot_run calls (loot_exec call s)
        in (spawns_of e @ sps, takes_of e @ ids, s'))" by blast
  obtain sps1 ids1 where r: "loot_run calls (loot_exec call s) = (sps1, ids1, s')"
    and o: "sps = spawns_of e @ sps1" "ids = takes_of e @ ids1"
    using Cons.prems(2) e(2) by (auto simp: Let_def split: prod.splits)
  from Cons.IH [OF _ r] Cons.prems(1) obtain es where
    "loot_steps (loot_exec call s) es s'" "sps1 = spawns_of es" "ids1 = takes_of es" by auto
  with steps_append [OF e(1)] o show ?case by (intro exI [of _ "e @ es"]) simp
qed

lemma loot_inv_init: "loot_inv (loot_init defs c)"
  by (auto simp: loot_inv_def loot_init_def loot_players.reg_ok_def spawns_ok_def holding_def
      sanitize_loot_config_def intro!: holding_ok_empty)

lemma loot_inv_reset: "loot_inv s \<Longrightarrow> loot_inv (loot_reset s)"
proof -
  assume inv: "loot_inv s"
  have "holding (loot_reset s) p = ([], 0, 0)" for p
    by (simp add: holding_def loot_reset_def find_update_all split: option.split)
  moreover have "loot_ok (loot_reset s)"
    using loot_invD(1) [OF inv] by (auto simp: loot_players.reg_ok_def loot_reset_def find_update_all)
  moreover have "spawns_ok (loot_reset s)" by (simp add: spawns_ok_def loot_reset_def)
  moreover have "same_rules s (loot_reset s)" by (simp add: same_rules_def loot_reset_def)
  ultimately show ?thesis
    using holding_ok_empty [OF loot_invD(4) [OF inv]] by (intro loot_inv_from [OF inv]) simp_all
qed

interpretation loot_machine: component "\<lambda>s. \<exists>defs c. s = loot_init defs c" loot_exec "\<lambda>call. True" loot_inv
proof unfold_locales
  show "loot_inv s" if "\<exists>defs c. s = loot_init defs c" for s
    using that loot_inv_init by auto
  show "loot_inv (loot_exec call s)" if "loot_inv s" for call s
  proof (cases "call = LootReset")
    case False
    from loot_exec_moves [OF this, of s] that show ?thesis by (auto intro: loot_steps_inv)
  qed (simp add: loot_inv_reset that)
qed

lemma fresh_ids_init: "k < 2 ^ 64 - 1 \<Longrightarrow> fresh_ids (loot_init defs c) k"
  by (simp add: fresh_ids_def loot_init_def)

lemma world_treasure_init: "world_treasure (loot_init defs c) = {#}"
  by (simp add: world_treasure_def held_treasure_def lying_treasure_def loot_init_def)

section \<open>Properties\<close>

text \<open>C21: After any calls every inventory respects the item and weight limits, its totals are the sums
  of its items (as C++ ints), and, as long as no treasure is so heavy that it overflows on top of a full load,
  the weight actually carried is within the limit. The snapshot lists every player once, by id.\<close>

theorem loot_inventory_invariant:
  assumes "s = fold loot_exec calls (loot_init defs c)"
    and "umap_find (ls_players s) p = Some st"
  shows "length (lp_items st) \<le> max_items_per_player (ls_config s)
    \<and> lp_total_value st = wrap_i32 (values_sum (lp_items st))
    \<and> lp_total_weight st = wrap_i32 (weights_sum (lp_items st))
    \<and> lp_total_weight st \<le> max_weight_per_player (ls_config s)
    \<and> (light_treasures s \<longrightarrow> 0 \<le> weights_sum (lp_items st)
        \<and> weights_sum (lp_items st) \<le> max_weight_per_player (ls_config s))
    \<and> sorted_wrt (\<lambda>x y. sum_player_id x < sum_player_id y) (inventory_snapshot s)
    \<and> to_summary st \<in> set (inventory_snapshot s)"
proof -
  have inv: "loot_inv s" unfolding assms(1) by (rule loot_machine.run) auto
  have h: "holding_ok s (lp_items st, lp_total_value st, lp_total_weight st)"
    using loot_invD(3) [OF inv, of p] by (simp add: holding_found [OF assms(2)])
  have "0 \<le> weights_sum (lp_items st)"
    using h treasures_usable [OF inv] by (intro sum_list_nonneg) (auto simp: holding_ok_def treasure_of_def)
  moreover have "to_summary st \<in> set (inventory_snapshot s)"
    using find_in_set [OF assms(2)] loot_players.listing_members by blast
  ultimately show ?thesis
    using h loot_players.listing_sorted [OF loot_invD(1) [OF inv]] by (simp add: holding_ok_def)
qed

text \<open>C20: No treasure spawn is collected twice: over any run without a reset the ids of the collected
  spawns are distinct, and exactly these ids are marked as consumed.\<close>

theorem treasure_collected_once:
  assumes "LootReset \<notin> set calls" and "loot_run calls (loot_init defs c) = (sps, ids, s)"
  shows "distinct ids \<and> set (ls_consumed s) = set ids"
proof -
  obtain es where es: "loot_steps (loot_init defs c) es s" "ids = takes_of es"
    using loot_run_moves [OF assms] by blast
  show ?thesis using loot_steps_takes [OF es(1) loot_inv_init] es(2) by (simp add: loot_init_def)
qed

text \<open>C7: Treasure is conserved: as long as the spawn ids do not run out, what lies on the ground and
  what the players hold, dead or removed ones included, is what the scheduled spawns brought into the world.\<close>

theorem treasure_conserved:
  assumes "LootReset \<notin> set calls" and "loot_run calls (loot_init defs c) = (sps, ids, s)"
    and "length sps < 2 ^ 64 - 1"
  shows "world_treasure s = scheduled_of sps"
proof -
  obtain es where es: "loot_steps (loot_init defs c) es s" "sps = spawns_of es"
    using loot_run_moves [OF assms(1,2)] by blast
  have "fresh_ids (loot_init defs c) (length (spawns_of es) + 0)"
    using fresh_ids_init assms(3) es(2) by simp
  from loot_steps_conserve [OF es(1) loot_inv_init this] show ?thesis
    by (simp add: world_treasure_init es(2))
qed

text \<open>C4: The simulation refines the treasure ledger: from any state that a run reaches, a tick acts on
  the ledger as a sequence of legal ledger events (a spawn under an unused id, a drop of all a player holds,
  a take of something that lies there and was never taken), and the spawned and collected treasures it
  reports are exactly those of the events.\<close>

theorem loot_tick_refines_ledger:
  assumes "LootReset \<notin> set calls" and "loot_run calls (loot_init defs c) = (sps, ids, s)"
    and "loot_resolve_tick tick movement combat deaths s = (out, s')"
    and "length sps + length (spawned out) < 2 ^ 64 - 1"
  shows "\<exists>es. ledger_steps (ledger_of s) es (ledger_of s') \<and> spawned out = spawns_of es
    \<and> collected_ids out = takes_of es"
proof -
  obtain es0 where es0: "loot_steps (loot_init defs c) es0 s" "sps = spawns_of es0"
    using loot_run_moves [OF assms(1,2)] by blast
  obtain es where es: "loot_steps s es s'" "spawned out = spawns_of es" "collected_ids out = takes_of es"
    using tick_moves [OF assms(3)] by blast
  have "fresh_ids (loot_init defs c) (length (spawns_of es0) + (length (spawns_of es) + 0))"
    using fresh_ids_init assms(4) es0(2) es(2) by simp
  with loot_steps_conserve [OF es0(1) loot_inv_init]
  have "fresh_ids s (length (spawns_of es) + 0)" by blast
  from loot_steps_ledger [OF es(1) loot_steps_inv [OF es0(1) loot_inv_init] this] es show ?thesis by blast
qed

text \<open>A removed player keeps the inventory: whoever gets the same id next owns it, and a pickup that
  is not numbered above the last one of the previous owner is refused as out of order.\<close>

theorem slot_inherits_inventory:
  assumes "umap_find (ls_players s) p = Some st" and "pick_player_id c = p"
    and "pick_seq c \<le> lp_last_enqueued st"
  shows "summary_for (loot_ensure p (loot_remove p s)) p = Some (to_summary st)
    \<and> fst (enqueue_pickup c (loot_ensure p (loot_remove p s))) = PickupOutOfOrder"
proof -
  define s1 where "s1 = loot_ensure p (loot_remove p s)"
  have "umap_find (ls_players (loot_remove p s)) p = Some (st\<lparr>lp_alive := False, lp_x := Fin 0, lp_y := Fin 0\<rparr>)"
    using assms(1) by (auto simp: loot_remove_def Let_def find_put split: option.split)
  then have f: "umap_find (ls_players s1) p = Some (st\<lparr>lp_alive := False, lp_x := Fin 0, lp_y := Fin 0\<rparr>)"
    unfolding s1_def by (rule loot_players.ensure_keeps)
  then have "umap_find (ls_players (loot_ensure p s1)) p = Some (st\<lparr>lp_alive := False, lp_x := Fin 0, lp_y := Fin 0\<rparr>)"
    by (rule loot_players.ensure_keeps)
  then show ?thesis
    using assms(2,3) f by (simp add: summary_for_def to_summary_def enqueue_pickup_def Let_def flip: s1_def)
qed

text \<open>The weight check adds two C++ ints: for a treasure so heavy that the sum leaves the range,
  the sum wraps to a negative number and the treasure is not refused for its weight.\<close>

theorem weight_limit_bypassed:
  assumes "2 ^ 31 \<le> lp_total_weight st + spn_weight sp" and "in_i32 (lp_total_weight st)"
    and "in_i32 (spn_weight sp)" and "umap_find (ls_active s) (pick_spawn_id c) = Some sp"
    and "0 < max_weight_per_player (ls_config s)"
  shows "pickup_decision s c st \<noteq> Inl WeightLimitExceeded"
proof -
  have "wrap_i32 (lp_total_weight st + spn_weight sp) < 0"
    using assms(1-3) wrap_i32_above [of "lp_total_weight st + spn_weight sp"] by (simp add: in_i32_def)
  then show ?thesis using assms(4,5) by (simp add: pickup_decision_def)
qed

section \<open>The properties at a concrete run\<close>

definition demo_coin :: treasure_definition where
  "demo_coin = \<lparr>tre_id = ''coin'', tre_value = 5, tre_weight = 3, tre_rarity = ''common''\<rparr>"

definition demo_loot_config :: loot_config where
  "demo_loot_config = \<lparr>spawn_interval_ticks = 10, max_active_spawns = 4, pickup_queue_capacity = 8,
     pickup_radius = Fin 2, max_items_per_player = 2, max_weight_per_player = 40, loot_mode = DropAll,
     world_size_x = 64, world_size_y = 64, death_drop_spread = Fin 1\<rparr>"

definition demo_pickup :: "u32 \<Rightarrow> u64 \<Rightarrow> pickup_command" where
  "demo_pickup sq spawn = \<lparr>pick_player_id = 1, pick_seq = sq, pick_spawn_id = spawn, pick_received_at = 0\<rparr>"

definition demo_loot_calls :: "loot_call list" where
  "demo_loot_calls = [LootTick 10 [] [] [], LootEnqueue (demo_pickup 1 1), LootEnqueue (demo_pickup 2 1),
     LootTick 11 [(demo_at 1 0)\<lparr>mot_position_x := Fin (109 / 2), mot_position_y := Fin (37 / 2)\<rparr>] [] []]"

definition demo_spawn :: spawn_instance where
  "demo_spawn = \<lparr>spn_id = 1, spn_treasure_id = ''coin'', spn_value = 5, spn_weight = 3,
     spn_x = Fin (109 / 2), spn_y = Fin (37 / 2), spn_source = Scheduled, spn_tick = 10\<rparr>"

definition demo_owner :: loot_player where
  "demo_owner = \<lparr>lp_player_id = 1, lp_x = Fin (109 / 2), lp_y = Fin (37 / 2), lp_alive = True,
     lp_total_value = 5, lp_total_weight = 3, lp_last_pickup_seq = 2, lp_last_enqueued = 2,
     lp_items = [\<lparr>item_source = 1, item_treasure = \<lparr>tre_id = ''coin'', tre_value = 5,
       tre_weight = 3, tre_rarity = []\<rparr>\<rparr>]\<rparr>"

definition demo_loot :: loot_sim where
  "demo_loot = \<lparr>ls_definitions = [demo_coin], ls_config = demo_loot_config, ls_players = [(1, demo_owner)],
     ls_queues = [], ls_active = [], ls_consumed = [1], ls_next_id = 2, ls_next_definition = 1, ls_queued = 0\<rparr>"

lemma demo_loot_run:
  "loot_run demo_loot_calls (loot_init [demo_coin] demo_loot_config) = ([demo_spawn], [1], demo_loot)"
  by code_simp

lemma loot_run_state: "snd (snd (loot_run calls s)) = fold loot_exec calls s"
  by (induction calls arbitrary: s) (simp_all add: Let_def case_prod_beta)

lemma demo_loot_state: "demo_loot = fold loot_exec demo_loot_calls (loot_init [demo_coin] demo_loot_config)"
  using loot_run_state [of demo_loot_calls "loot_init [demo_coin] demo_loot_config"] by (simp add: demo_loot_run)

lemma demo_loot_owner: "umap_find (ls_players demo_loot) 1 = Some demo_owner"
  by (simp add: demo_loot_def)

lemma demo_loot_no_reset: "LootReset \<notin> set demo_loot_calls"
  by (simp add: demo_loot_calls_def)

lemma loot_inventory_invariant_witness:
  "to_summary demo_owner \<in> set (inventory_snapshot demo_loot) \<and> weights_sum (lp_items demo_owner) \<le> 40"
proof -
  have "light_treasures demo_loot"
    by (simp add: light_treasures_def demo_loot_def demo_coin_def demo_loot_config_def)
  with loot_inventory_invariant [OF demo_loot_state demo_loot_owner]
  have "to_summary demo_owner \<in> set (inventory_snapshot demo_loot)"
    and "weights_sum (lp_items demo_owner) \<le> max_weight_per_player (ls_config demo_loot)" by blast+
  then show ?thesis by (simp add: demo_loot_def demo_loot_config_def)
qed

lemma treasure_collected_once_witness: "distinct [1 :: u64] \<and> set (ls_consumed demo_loot) = {1}"
  using treasure_collected_once [OF demo_loot_no_reset demo_loot_run] by simp

lemma treasure_conserved_witness: "world_treasure demo_loot = {#(''coin'', 5, 3)#}"
  using treasure_conserved [OF demo_loot_no_reset demo_loot_run]
  by (simp add: scheduled_of_def demo_spawn_def spawn_treasure_def)

text \<open>A tick in which the owner dies: the coin is dropped under the next id.\<close>

definition demo_death_tick :: "loot_result \<times> loot_sim" where
  "demo_death_tick = loot_resolve_tick 12 [] []
     [\<lparr>death_tick = 12, death_victim = 1, death_killer = 2, death_seq = 1, death_weapon_id = ''rifle''\<rparr>] demo_loot"

lemma loot_tick_refines_ledger_witness:
  "\<exists>es. ledger_steps (ledger_of demo_loot) es (ledger_of (snd demo_death_tick))
    \<and> spawned (fst demo_death_tick) = spawns_of es \<and> List.map spn_id (spawns_of es) = [2]"
proof -
  have ids: "List.map spn_id (spawned (fst demo_death_tick)) = [2]" by code_simp
  then have "length (spawned (fst demo_death_tick)) = 1" by (metis length_Cons length_map list.size(3) One_nat_def)
  then have "length [demo_spawn] + length (spawned (fst demo_death_tick)) < 2 ^ 64 - 1" by simp
  from loot_tick_refines_ledger [OF demo_loot_no_reset demo_loot_run _ this, of 12 "[]" "[]"]
  show ?thesis using ids unfolding demo_death_tick_def by (metis prod.collapse)
qed

lemma slot_inherits_inventory_witness:
  "summary_for (loot_ensure 1 (loot_remove 1 demo_loot)) 1 = Some (to_summary demo_owner)
   \<and> fst (enqueue_pickup (demo_pickup 1 2) (loot_ensure 1 (loot_remove 1 demo_loot))) = PickupOutOfOrder"
  using slot_inherits_inventory [OF demo_loot_owner, of "demo_pickup 1 2"]
  by (simp add: demo_pickup_def demo_owner_def)

lemma weight_limit_bypassed_witness:
  "pickup_decision (demo_loot\<lparr>ls_active := [(1, demo_spawn\<lparr>spn_weight := 2147483647\<rparr>)], ls_consumed := []\<rparr>)
     (demo_pickup 3 1) demo_owner \<noteq> Inl WeightLimitExceeded"
  by (rule weight_limit_bypassed)
    (simp_all add: demo_owner_def demo_loot_def demo_loot_config_def demo_pickup_def in_i32_def)

end
