(* ===== verification/Lifecycle.thy ===== *)
theory Lifecycle
  imports Loot
begin

text \<open>
  The match lifecycle (server/MatchLifecycleSimulation.h,
  server/src/MatchLifecycleSimulation.cpp): the phases of a match, its timer, the scoreboard, the
  respawn budget of every player and the decision of the winner.

  Durations are nanoseconds. The accumulator of the timer stays below one second between ticks
  (part of the invariant), so the sum with a tick interval fits into 64 bits for every interval
  below 292 years.
\<close>

section \<open>Data\<close>

datatype match_phase = PreMatch | InMatch | PostMatch

record lifecycle_config =
  pre_match_ticks :: u32
  match_duration_seconds :: u32
  respawns_per_player :: u32
  respawn_delay_ticks :: u32
  min_players_to_start :: u32

record match_score =
  sc_player_id :: u32
  sc_kills :: u32
  sc_deaths :: u32
  sc_coins :: int
  sc_respawns_remaining :: u32
  sc_alive :: bool
  sc_eliminated :: bool
  sc_connected :: bool

record lifecycle_state =
  st_phase :: match_phase
  st_remaining_seconds :: u32
  st_phase_started_tick :: u64
  st_winner :: "u32 option"

record lifecycle_result =
  lr_state :: lifecycle_state
  lr_scoreboard :: "match_score list"
  lr_respawned :: "u32 list"
  lr_state_changed :: bool
  lr_scoreboard_changed :: bool

record lifecycle_player =
  lcp_player_id :: u32
  lcp_kills :: u32
  lcp_deaths :: u32
  lcp_coins :: int
  lcp_respawns_remaining :: u32
  lcp_alive :: bool
  lcp_eliminated :: bool
  lcp_connected :: bool
  lcp_participated :: bool
  lcp_pending :: "u64 option"

record lifecycle_sim =
  lc_config :: lifecycle_config
  lc_phase :: match_phase
  lc_pre_ticks :: u32
  lc_seconds :: u32
  lc_accumulator :: int
  lc_started_tick :: u64
  lc_winner :: "u32 option"
  lc_players :: "(u32, lifecycle_player) umap"

section \<open>Construction and players\<close>

definition sanitize_lifecycle_config :: "lifecycle_config \<Rightarrow> lifecycle_config" where
  "sanitize_lifecycle_config c =
     \<lparr>pre_match_ticks = pre_match_ticks c,
      match_duration_seconds = (if match_duration_seconds c = 0 then 600 else match_duration_seconds c),
      respawns_per_player = respawns_per_player c,
      respawn_delay_ticks = (if respawn_delay_ticks c = 0 then 60 else respawn_delay_ticks c),
      min_players_to_start = (if min_players_to_start c = 0 then 1 else min_players_to_start c)\<rparr>"

definition lifecycle_init :: "lifecycle_config \<Rightarrow> lifecycle_sim" where
  "lifecycle_init c0 = (let c = sanitize_lifecycle_config c0 in
     \<lparr>lc_config = c, lc_phase = PreMatch, lc_pre_ticks = pre_match_ticks c,
      lc_seconds = match_duration_seconds c, lc_accumulator = 0, lc_started_tick = 0,
      lc_winner = None, lc_players = []\<rparr>)"

definition lifecycle_reset :: "lifecycle_sim \<Rightarrow> lifecycle_sim" where
  "lifecycle_reset s = s\<lparr>lc_phase := PreMatch, lc_pre_ticks := pre_match_ticks (lc_config s),
     lc_seconds := match_duration_seconds (lc_config s), lc_accumulator := 0, lc_started_tick := 0,
     lc_winner := None,
     lc_players := umap_update_all (\<lambda>p r. r\<lparr>lcp_kills := 0, lcp_deaths := 0, lcp_coins := 0,
       lcp_respawns_remaining := respawns_per_player (lc_config s), lcp_alive := True,
       lcp_eliminated := False, lcp_pending := None\<rparr>) (lc_players s)\<rparr>"

definition fresh_record :: "lifecycle_sim \<Rightarrow> u32 \<Rightarrow> lifecycle_player" where
  "fresh_record s p = \<lparr>lcp_player_id = p, lcp_kills = 0, lcp_deaths = 0, lcp_coins = 0,
     lcp_respawns_remaining = respawns_per_player (lc_config s), lcp_alive = True,
     lcp_eliminated = False, lcp_connected = False, lcp_participated = False, lcp_pending = None\<rparr>"

definition lifecycle_ensure :: "u32 \<Rightarrow> lifecycle_sim \<Rightarrow> lifecycle_sim" where
  "lifecycle_ensure p s =
     (let r = (case umap_find (lc_players s) p of None \<Rightarrow> fresh_record s p | Some r \<Rightarrow> r)
      in s\<lparr>lc_players := umap_put p (r\<lparr>lcp_participated := True, lcp_connected := True\<rparr>) (lc_players s)\<rparr>)"

definition lifecycle_remove :: "u32 \<Rightarrow> lifecycle_sim \<Rightarrow> lifecycle_sim" where
  "lifecycle_remove p s = (case umap_find (lc_players s) p of
      None \<Rightarrow> s
    | Some r \<Rightarrow> s\<lparr>lc_players := umap_put p (r\<lparr>lcp_connected := False, lcp_pending := None\<rparr>) (lc_players s)\<rparr>)"

section \<open>Scoreboard and state\<close>

definition to_score :: "lifecycle_player \<Rightarrow> match_score" where
  "to_score r = \<lparr>sc_player_id = lcp_player_id r, sc_kills = lcp_kills r, sc_deaths = lcp_deaths r,
     sc_coins = lcp_coins r, sc_respawns_remaining = lcp_respawns_remaining r, sc_alive = lcp_alive r,
     sc_eliminated = lcp_eliminated r, sc_connected = lcp_connected r\<rparr>"

definition score_for :: "lifecycle_sim \<Rightarrow> u32 \<Rightarrow> match_score option" where
  "score_for s p = (case umap_find (lc_players s) p of
      None \<Rightarrow> None | Some r \<Rightarrow> if \<not> lcp_participated r then None else Some (to_score r))"

definition ranking_better :: "match_score \<Rightarrow> match_score \<Rightarrow> bool" where
  "ranking_better l r =
     (if sc_kills l \<noteq> sc_kills r then sc_kills r < sc_kills l
      else if sc_coins l \<noteq> sc_coins r then sc_coins r < sc_coins l
      else if sc_deaths l \<noteq> sc_deaths r then sc_deaths l < sc_deaths r
      else sc_player_id l < sc_player_id r)"

definition build_scoreboard :: "lifecycle_sim \<Rightarrow> match_score list" where
  "build_scoreboard s = std_sort ranking_better
     (List.map (\<lambda>(p, r). to_score r) (filter (\<lambda>(p, r). lcp_participated r) (lc_players s)))"

definition ticks_to_remaining_seconds :: "u32 \<Rightarrow> int \<Rightarrow> u32" where
  "ticks_to_remaining_seconds ticks dt =
     (if ticks = 0 then 0
      else if dt \<le> 0 then ticks
      else let tick_ns = fp_of_int Extended dt;
               total_seconds = fp_div Extended (fp_mul Extended tick_ns (fp_of_int Extended (uint ticks)))
                 (Fin 1000000000);
               ceil_seconds = fp_ceil total_seconds
        in if \<not> fp_is_finite (fp_cast Double ceil_seconds) \<or> fp_le ceil_seconds (Fin 0) then 0
           else if fp_le (Fin 4294967295) ceil_seconds then 4294967295
           else (case ceil_seconds of Fin q \<Rightarrow> word_of_int \<lfloor>q\<rfloor> | _ \<Rightarrow> 0))"

definition build_state :: "int \<Rightarrow> lifecycle_sim \<Rightarrow> lifecycle_state" where
  "build_state dt s = \<lparr>st_phase = lc_phase s,
     st_remaining_seconds = (case lc_phase s of
         PreMatch \<Rightarrow> ticks_to_remaining_seconds (lc_pre_ticks s) dt
       | InMatch \<Rightarrow> lc_seconds s
       | PostMatch \<Rightarrow> 0),
     st_phase_started_tick = lc_started_tick s, st_winner = lc_winner s\<rparr>"

definition resolve_winner :: "match_score list \<Rightarrow> u32 option" where
  "resolve_winner scoreboard = (case scoreboard of [] \<Rightarrow> None | e # _ \<Rightarrow> Some (sc_player_id e))"

definition connected_count :: "lifecycle_sim \<Rightarrow> nat" where
  "connected_count s = length (filter (\<lambda>(p, r). lcp_connected r) (lc_players s))"

section \<open>Phases\<close>

definition enter_in_match :: "u64 \<Rightarrow> lifecycle_sim \<Rightarrow> lifecycle_sim" where
  "enter_in_match tick s = s\<lparr>lc_phase := InMatch, lc_seconds := match_duration_seconds (lc_config s),
     lc_accumulator := 0, lc_winner := None, lc_started_tick := tick,
     lc_players := umap_update_all (\<lambda>p r. r\<lparr>lcp_alive := True, lcp_eliminated := False,
       lcp_pending := None, lcp_respawns_remaining := respawns_per_player (lc_config s)\<rparr>) (lc_players s)\<rparr>"

definition enter_post_match :: "u64 \<Rightarrow> u32 option \<Rightarrow> lifecycle_sim \<Rightarrow> lifecycle_sim" where
  "enter_post_match tick winner s = s\<lparr>lc_phase := PostMatch, lc_seconds := 0, lc_pre_ticks := 0,
     lc_accumulator := 0, lc_winner := winner, lc_started_tick := tick\<rparr>"

text \<open>Who is in the match this tick: the active sessions, then every player the combat and the
  inventory tables list.\<close>

definition mark_connected :: "u32 list \<Rightarrow> lifecycle_sim \<Rightarrow> lifecycle_sim" where
  "mark_connected active s0 = (let s = fold lifecycle_ensure active s0 in
     s\<lparr>lc_players := umap_update_all (\<lambda>p r. r\<lparr>lcp_connected := p \<in> set active\<rparr>) (lc_players s)\<rparr>)"

definition note_combat :: "combat_player \<Rightarrow> lifecycle_sim \<Rightarrow> lifecycle_sim" where
  "note_combat c s0 = (let s = lifecycle_ensure (pc_player_id c) s0 in
     case umap_find (lc_players s) (pc_player_id c) of
       None \<Rightarrow> s
     | Some r \<Rightarrow> if lcp_pending r = None
         then s\<lparr>lc_players := umap_put (pc_player_id c) (r\<lparr>lcp_alive := pc_alive c\<rparr>) (lc_players s)\<rparr>
         else s)"

definition note_inventory :: "inventory_summary \<Rightarrow> bool \<times> lifecycle_sim \<Rightarrow> bool \<times> lifecycle_sim" where
  "note_inventory i st = (case st of (changed, s0) \<Rightarrow>
     (let s = lifecycle_ensure (sum_player_id i) s0 in
     case umap_find (lc_players s) (sum_player_id i) of
       None \<Rightarrow> (changed, s)
     | Some r \<Rightarrow> if lcp_coins r \<noteq> sum_total_value i
         then (True, s\<lparr>lc_players := umap_put (sum_player_id i) (r\<lparr>lcp_coins := sum_total_value i\<rparr>) (lc_players s)\<rparr>)
         else (changed, s)))"

text \<open>The countdown before a match. The result: whether the state changed, whether the match started.\<close>

definition pre_match_step :: "u64 \<Rightarrow> lifecycle_sim \<Rightarrow> bool \<times> bool \<times> lifecycle_sim" where
  "pre_match_step tick s =
     (if lc_phase s = PreMatch then
        (if connected_count s < unat (min_players_to_start (lc_config s)) then
           (if lc_pre_ticks s \<noteq> pre_match_ticks (lc_config s)
            then (True, False, s\<lparr>lc_pre_ticks := pre_match_ticks (lc_config s)\<rparr>)
            else (False, False, s))
         else (let s1 = (if 0 < lc_pre_ticks s then s\<lparr>lc_pre_ticks := lc_pre_ticks s - 1\<rparr> else s)
           in if lc_pre_ticks s1 = 0 then (True, True, enter_in_match tick s1) else (False, False, s1)))
      else (False, False, s))"

function consume_seconds :: "int \<Rightarrow> u32 \<Rightarrow> int \<times> u32" where
  "consume_seconds acc seconds =
     (if 1000000000 \<le> acc \<and> 0 < seconds then consume_seconds (acc - 1000000000) (seconds - 1)
      else (acc, seconds))"
  by pat_completeness auto
termination
  by (relation "measure (\<lambda>(acc, seconds). unat seconds)") (auto simp: unat_sub word_le_nat_alt word_less_nat_alt measure_unat)

definition timer_step :: "int \<Rightarrow> bool \<Rightarrow> lifecycle_sim \<Rightarrow> bool \<times> lifecycle_sim" where
  "timer_step dt started s =
     (if lc_phase s = InMatch \<and> \<not> started then
        (if 0 < dt \<and> 0 < lc_seconds s then
           (case consume_seconds (lc_accumulator s + dt) (lc_seconds s) of (acc, seconds) \<Rightarrow>
             (seconds = 0, s\<lparr>lc_accumulator := acc, lc_seconds := seconds\<rparr>))
         else (False, s))
      else (False, s))"

definition count_death :: "u64 \<Rightarrow> lifecycle_sim \<Rightarrow> lifecycle_player \<Rightarrow> lifecycle_player" where
  "count_death tick s v =
     (if 0 < lcp_respawns_remaining v
      then v\<lparr>lcp_deaths := lcp_deaths v + 1, lcp_alive := False,
          lcp_respawns_remaining := lcp_respawns_remaining v - 1, lcp_eliminated := False,
          lcp_pending := Some (tick + ucast (respawn_delay_ticks (lc_config s)))\<rparr>
      else v\<lparr>lcp_deaths := lcp_deaths v + 1, lcp_alive := False, lcp_pending := None,
          lcp_eliminated := True\<rparr>)"

definition note_death :: "u64 \<Rightarrow> death_resolution \<Rightarrow> u32 list \<times> bool \<times> lifecycle_sim
    \<Rightarrow> u32 list \<times> bool \<times> lifecycle_sim" where
  "note_death tick d acc = (case acc of (handled, changed, s0) \<Rightarrow>
     if death_victim d \<in> set handled then acc
     else (let handled1 = death_victim d # handled;
               s = lifecycle_ensure (death_victim d) s0
       in case umap_find (lc_players s) (death_victim d) of
            None \<Rightarrow> (handled1, changed, s)
          | Some v \<Rightarrow>
              let s1 = s\<lparr>lc_players := umap_put (death_victim d) (count_death tick s v) (lc_players s)\<rparr>
              in if death_killer d \<noteq> 0 \<and> death_killer d \<noteq> death_victim d
                 then (let s2 = lifecycle_ensure (death_killer d) s1 in
                   case umap_find (lc_players s2) (death_killer d) of
                     None \<Rightarrow> (handled1, True, s2)
                   | Some k \<Rightarrow> (handled1, True, s2\<lparr>lc_players :=
                       umap_put (death_killer d) (k\<lparr>lcp_kills := lcp_kills k + 1\<rparr>) (lc_players s2)\<rparr>))
                 else (handled1, True, s1)))"

definition deaths_step :: "u64 \<Rightarrow> death_resolution list \<Rightarrow> bool \<times> lifecycle_sim \<Rightarrow> bool \<times> lifecycle_sim" where
  "deaths_step tick deaths st = (case st of (changed, s) \<Rightarrow>
     if lc_phase s = InMatch \<and> deaths \<noteq> []
     then (case fold (note_death tick) (std_sort death_less deaths) ([], changed, s) of
         (handled, changed1, s1) \<Rightarrow> (changed1, s1))
     else (changed, s))"

definition respawn_one :: "u64 \<Rightarrow> u32 \<Rightarrow> u32 list \<times> bool \<times> lifecycle_sim \<Rightarrow> u32 list \<times> bool \<times> lifecycle_sim" where
  "respawn_one tick p acc = (case acc of (respawned, changed, s) \<Rightarrow>
     (case umap_find (lc_players s) p of
        None \<Rightarrow> acc
      | Some r \<Rightarrow>
          (case lcp_pending r of
             None \<Rightarrow> acc
           | Some due \<Rightarrow>
               if tick < due then acc
               else if lcp_eliminated r
               then (respawned, changed, s\<lparr>lc_players := umap_put p (r\<lparr>lcp_pending := None\<rparr>) (lc_players s)\<rparr>)
               else (respawned @ [p], True,
                 s\<lparr>lc_players := umap_put p (r\<lparr>lcp_pending := None, lcp_alive := True\<rparr>) (lc_players s)\<rparr>))))"

definition contenders :: "lifecycle_sim \<Rightarrow> u32 list" where
  "contenders s = sort (List.map fst (filter (\<lambda>(p, r). \<not> (\<not> lcp_connected r \<or> lcp_eliminated r)) (lc_players s)))"

text \<open>Respawns and the last player standing. The result: who respawned, whether the scoreboard and
  the state changed.\<close>

definition in_match_step :: "u64 \<Rightarrow> bool \<times> lifecycle_sim \<Rightarrow> u32 list \<times> bool \<times> bool \<times> lifecycle_sim" where
  "in_match_step tick st = (case st of (changed, s) \<Rightarrow>
     if lc_phase s = InMatch then
       (case fold (respawn_one tick) (sort (umap_keys (lc_players s))) ([], changed, s) of
          (respawned, changed1, s1) \<Rightarrow>
            (case contenders s1 of
               [p] \<Rightarrow> (respawned, changed1, True, enter_post_match tick (Some p) s1)
             | _ \<Rightarrow> (respawned, changed1, False, s1)))
     else ([], changed, False, s))"

definition expiry_step :: "u64 \<Rightarrow> bool \<Rightarrow> lifecycle_sim \<Rightarrow> bool \<times> lifecycle_sim" where
  "expiry_step tick expired s =
     (if lc_phase s = InMatch \<and> expired
      then (True, enter_post_match tick (resolve_winner (build_scoreboard s)) s)
      else (False, s))"

definition lifecycle_resolve_tick :: "u64 \<Rightarrow> int \<Rightarrow> u32 list \<Rightarrow> combat_player list \<Rightarrow> death_resolution list
    \<Rightarrow> inventory_summary list \<Rightarrow> lifecycle_sim \<Rightarrow> lifecycle_result \<times> lifecycle_sim" where
  "lifecycle_resolve_tick tick dt active combat deaths inventory s =
     (let s1 = mark_connected active s;
          s2 = fold note_combat combat s1;
          (changed3, s3) = fold note_inventory inventory (False, s2);
          (state4, started, s4) = pre_match_step tick s3;
          (expired, s5) = timer_step dt started s4;
          (changed6, s6) = deaths_step tick deaths (changed3, s5);
          (respawned, changed7, state7, s7) = in_match_step tick (changed6, s6);
          (state8, s8) = expiry_step tick expired s7
      in (\<lparr>lr_state = build_state dt s8, lr_scoreboard = build_scoreboard s8, lr_respawned = respawned,
           lr_state_changed = (state4 \<or> state7 \<or> state8), lr_scoreboard_changed = changed7\<rparr>, s8))"

fun match_phase_to_string :: "match_phase \<Rightarrow> string" where
  "match_phase_to_string PreMatch = ''pre_match''"
| "match_phase_to_string InMatch = ''in_match''"
| "match_phase_to_string PostMatch = ''post_match''"

section \<open>The player records\<close>

interpretation ranking: key_order ranking_better
  "\<lambda>e. (- uint (sc_kills e), - sc_coins e, uint (sc_deaths e), sc_player_id e)"
proof unfold_locales
  fix x y
  have "ranking_better x y \<longleftrightarrow> (if - uint (sc_kills x) \<noteq> - uint (sc_kills y)
      then - uint (sc_kills x) < - uint (sc_kills y)
      else if - sc_coins x \<noteq> - sc_coins y then - sc_coins x < - sc_coins y
      else if uint (sc_deaths x) \<noteq> uint (sc_deaths y) then uint (sc_deaths x) < uint (sc_deaths y)
      else sc_player_id x < sc_player_id y)"
    by (simp add: ranking_better_def word_less_def word_uint_eq_iff)
  then show "ranking_better x y \<longleftrightarrow> (- uint (sc_kills x), - sc_coins x, uint (sc_deaths x), sc_player_id x)
      < (- uint (sc_kills y), - sc_coins y, uint (sc_deaths y), sc_player_id y)"
    by (simp only: lex_less_4)
qed

text \<open>What holds of every record between ticks, given the respawns per match.\<close>

definition record_ok :: "u32 \<Rightarrow> u32 \<Rightarrow> lifecycle_player \<Rightarrow> bool" where
  "record_ok budget p r \<longleftrightarrow> lcp_player_id r = p \<and> lcp_participated r
     \<and> lcp_respawns_remaining r \<le> budget
     \<and> (lcp_eliminated r \<longrightarrow> lcp_respawns_remaining r = 0 \<and> lcp_pending r = None)
     \<and> (lcp_pending r \<noteq> None \<longrightarrow> \<not> lcp_alive r)"

definition table_ok :: "lifecycle_sim \<Rightarrow> bool" where
  "table_ok s \<longleftrightarrow> umap_ok (lc_players s) \<and> (\<forall>p r. umap_find (lc_players s) p = Some r
     \<longrightarrow> record_ok (respawns_per_player (lc_config s)) p r)"

lemma table_okD:
  assumes "table_ok s"
  shows "umap_ok (lc_players s)"
    "umap_find (lc_players s) p = Some r \<Longrightarrow> record_ok (respawns_per_player (lc_config s)) p r"
  using assms by (auto simp: table_ok_def)

lemma table_put: "table_ok s \<Longrightarrow> record_ok (respawns_per_player (lc_config s)) p r
    \<Longrightarrow> table_ok (s\<lparr>lc_players := umap_put p r (lc_players s)\<rparr>)"
  by (simp add: table_ok_def find_put)

lemma table_update_all:
  assumes "table_ok s" and "\<And>p r. umap_find (lc_players s) p = Some r
      \<Longrightarrow> record_ok (respawns_per_player (lc_config s)) p r
      \<Longrightarrow> record_ok (respawns_per_player (lc_config s)) p (f p r)"
  shows "table_ok (s\<lparr>lc_players := umap_update_all f (lc_players s)\<rparr>)"
  using assms by (auto simp: table_ok_def find_update_all)

lemma table_cong: "table_ok s \<Longrightarrow> lc_players s' = lc_players s \<Longrightarrow> lc_config s' = lc_config s \<Longrightarrow> table_ok s'"
  by (simp add: table_ok_def)

text \<open>The part of the state that is not the table.\<close>

abbreviation lc_core :: "lifecycle_sim \<Rightarrow> lifecycle_sim" where
  "lc_core s \<equiv> s\<lparr>lc_players := []\<rparr>"

lemma core_fields:
  assumes "lc_core s' = lc_core s"
  shows "lc_config s' = lc_config s" "lc_phase s' = lc_phase s" "lc_pre_ticks s' = lc_pre_ticks s"
    "lc_seconds s' = lc_seconds s" "lc_accumulator s' = lc_accumulator s" "lc_winner s' = lc_winner s"
    "lc_started_tick s' = lc_started_tick s"
  using arg_cong [where f = lc_config, OF assms] arg_cong [where f = lc_phase, OF assms]
    arg_cong [where f = lc_pre_ticks, OF assms] arg_cong [where f = lc_seconds, OF assms]
    arg_cong [where f = lc_accumulator, OF assms] arg_cong [where f = lc_winner, OF assms]
    arg_cong [where f = lc_started_tick, OF assms]
  by simp_all

lemma ensure_found: "umap_find (lc_players (lifecycle_ensure p s)) p
    = Some ((case umap_find (lc_players s) p of None \<Rightarrow> fresh_record s p | Some r \<Rightarrow> r)
        \<lparr>lcp_participated := True, lcp_connected := True\<rparr>)"
  by (simp add: lifecycle_ensure_def Let_def find_put)

lemma ensure_other: "q \<noteq> p \<Longrightarrow> umap_find (lc_players (lifecycle_ensure p s)) q = umap_find (lc_players s) q"
  by (simp add: lifecycle_ensure_def Let_def find_put)

lemma ensure_core [simp]: "lc_core (lifecycle_ensure p s) = lc_core s"
  by (simp add: lifecycle_ensure_def Let_def)

lemma ensure_lifecycle_config [simp]: "lc_config (lifecycle_ensure p s) = lc_config s"
    "lc_phase (lifecycle_ensure p s) = lc_phase s"
  by (simp_all add: lifecycle_ensure_def Let_def)

lemma ensure_table [intro]: "table_ok s \<Longrightarrow> table_ok (lifecycle_ensure p s)"
  unfolding lifecycle_ensure_def Let_def
  by (rule table_put) (auto simp: record_ok_def fresh_record_def dest: table_okD(2) split: option.split)

text \<open>The connected players.\<close>

definition connected_ids :: "lifecycle_sim \<Rightarrow> u32 set" where
  "connected_ids s = {p. \<exists>r. umap_find (lc_players s) p = Some r \<and> lcp_connected r}"

lemma connected_ensure [simp]: "connected_ids (lifecycle_ensure p s) = insert p (connected_ids s)"
proof (rule set_eqI)
  fix q
  show "q \<in> connected_ids (lifecycle_ensure p s) \<longleftrightarrow> q \<in> insert p (connected_ids s)"
    by (cases "q = p") (simp_all add: connected_ids_def ensure_found ensure_other)
qed

lemma connected_put: "umap_find (lc_players s) p = Some r \<Longrightarrow> lcp_connected r' = lcp_connected r
    \<Longrightarrow> connected_ids (s\<lparr>lc_players := umap_put p r' (lc_players s)\<rparr>) = connected_ids s"
  by (auto simp: connected_ids_def find_put)

lemma connected_count_eq:
  assumes "table_ok s"
  shows "connected_count s = card (connected_ids s)"
proof -
  let ?m = "filter (\<lambda>(p, r). lcp_connected r) (lc_players s)"
  have ok: "umap_ok (lc_players s)" using assms by (rule table_okD)
  have "connected_ids s = set (List.map fst ?m)"
    by (force simp: connected_ids_def in_set_find [OF ok, symmetric])
  moreover have "distinct (List.map fst ?m)" using ok by (rule distinct_map_filter)
  ultimately show ?thesis by (simp only: connected_count_def distinct_card length_map)
qed

section \<open>The steps of a tick keep the records in order\<close>

lemma table_fold: "table_ok s \<Longrightarrow> (\<And>x s. table_ok s \<Longrightarrow> table_ok (f x s)) \<Longrightarrow> table_ok (fold f xs s)"
  by (rule fold_preserves [where P = table_ok])

lemma mark_connected_core [simp]: "lc_core (mark_connected active s) = lc_core s"
proof -
  have "lc_core (fold lifecycle_ensure active s) = lc_core s"
    by (rule fold_unchanged [where g = lc_core]) simp
  then show ?thesis by (simp add: mark_connected_def Let_def)
qed

lemma mark_connected_table [intro]: "table_ok s \<Longrightarrow> table_ok (mark_connected active s)"
  unfolding mark_connected_def Let_def
  by (rule table_update_all [OF table_fold]) (auto simp: record_ok_def)

lemma connected_fold_ensure: "connected_ids (fold lifecycle_ensure ps s) = connected_ids s \<union> set ps"
  by (induction ps arbitrary: s) auto

lemma mark_connected_ids: "connected_ids (mark_connected active s) = set active"
proof -
  let ?s = "fold lifecycle_ensure active s"
  have "p \<in> connected_ids ?s" if "p \<in> set active" for p using that by (simp add: connected_fold_ensure)
  then show ?thesis
    by (force simp: mark_connected_def Let_def connected_ids_def find_update_all)
qed

lemma note_combat_core [simp]: "lc_core (note_combat c s) = lc_core s"
  using ensure_core [of "pc_player_id c" s]
  by (simp add: note_combat_def Let_def split: option.split)

lemma note_combat_table [intro]: "table_ok s \<Longrightarrow> table_ok (note_combat c s)"
proof -
  assume "table_ok s"
  then have ok: "table_ok (lifecycle_ensure (pc_player_id c) s)" by blast
  then show ?thesis
    unfolding note_combat_def Let_def
    by (auto intro!: table_put dest: table_okD(2) simp: record_ok_def split: option.split)
qed

lemma note_combat_connected: "connected_ids (note_combat c s) = insert (pc_player_id c) (connected_ids s)"
proof -
  let ?s = "lifecycle_ensure (pc_player_id c) s"
  obtain r where r: "umap_find (lc_players ?s) (pc_player_id c) = Some r" using ensure_found by blast
  show ?thesis
    unfolding note_combat_def Let_def r option.case
    by (simp add: connected_put [OF r] del: connected_ensure)
      (simp add: connected_ensure)
qed

lemma note_inventory_core [simp]: "lc_core (snd (note_inventory i st)) = lc_core (snd st)"
  using ensure_core [of "sum_player_id i" "snd st"]
  by (simp add: note_inventory_def Let_def case_prod_beta split: option.split)

lemma note_inventory_table [intro]: "table_ok (snd st) \<Longrightarrow> table_ok (snd (note_inventory i st))"
proof -
  assume "table_ok (snd st)"
  then have ok: "table_ok (lifecycle_ensure (sum_player_id i) (snd st))" by blast
  obtain r where r: "umap_find (lc_players (lifecycle_ensure (sum_player_id i) (snd st))) (sum_player_id i) = Some r"
    using ensure_found by blast
  show ?thesis
    using ok table_put [OF ok, of "sum_player_id i" "r\<lparr>lcp_coins := sum_total_value i\<rparr>"] table_okD(2) [OF ok r]
    by (simp add: note_inventory_def Let_def case_prod_beta r record_ok_def)
qed

lemma note_inventory_connected:
  "connected_ids (snd (note_inventory i st)) = insert (sum_player_id i) (connected_ids (snd st))"
proof -
  let ?s = "lifecycle_ensure (sum_player_id i) (snd st)"
  obtain r where r: "umap_find (lc_players ?s) (sum_player_id i) = Some r" using ensure_found by blast
  have "connected_ids (?s\<lparr>lc_players := umap_put (sum_player_id i) (r\<lparr>lcp_coins := sum_total_value i\<rparr>) (lc_players ?s)\<rparr>)
      = connected_ids ?s" by (rule connected_put [OF r]) simp
  then show ?thesis by (simp add: note_inventory_def Let_def case_prod_beta r)
qed

text \<open>The state when the phase logic of a tick runs.\<close>

definition tick_table :: "u32 list \<Rightarrow> combat_player list \<Rightarrow> inventory_summary list \<Rightarrow> lifecycle_sim \<Rightarrow> bool \<times> lifecycle_sim" where
  "tick_table active combat inventory s =
     fold note_inventory inventory (False, fold note_combat combat (mark_connected active s))"

definition participants :: "u32 list \<Rightarrow> combat_player list \<Rightarrow> inventory_summary list \<Rightarrow> u32 set" where
  "participants active combat inventory = set active \<union> pc_player_id ` set combat \<union> sum_player_id ` set inventory"

lemma tick_table_core [simp]: "lc_core (snd (tick_table active combat inventory s)) = lc_core s"
proof -
  have "lc_core (snd (fold note_inventory inventory (False, s'))) = lc_core s'" for s'
    using fold_unchanged [where g = "lc_core \<circ> snd" and f = note_inventory and s = "(False, s')"] by simp
  moreover have "lc_core (fold note_combat combat s') = lc_core s'" for s'
    by (rule fold_unchanged [where g = lc_core]) simp
  ultimately show ?thesis by (simp add: tick_table_def)
qed

lemma tick_table_ok [intro]: "table_ok s \<Longrightarrow> table_ok (snd (tick_table active combat inventory s))"
  unfolding tick_table_def
  by (rule fold_preserves [where P = "table_ok \<circ> snd", unfolded comp_def])
    (auto intro: table_fold)

lemma tick_table_connected:
  "connected_ids (snd (tick_table active combat inventory s)) = participants active combat inventory"
proof -
  have "connected_ids (snd (fold note_inventory is st)) = connected_ids (snd st) \<union> sum_player_id ` set is" for "is" st
    by (induction "is" arbitrary: st) (auto simp: note_inventory_connected)
  moreover have "connected_ids (fold note_combat cs s') = connected_ids s' \<union> pc_player_id ` set cs" for cs s'
    by (induction cs arbitrary: s') (auto simp: note_combat_connected)
  ultimately show ?thesis by (simp add: tick_table_def participants_def mark_connected_ids)
qed

lemma count_death_ok: "record_ok (respawns_per_player (lc_config s)) p v
    \<Longrightarrow> record_ok (respawns_per_player (lc_config s)) p (count_death tick s v)"
proof -
  assume r: "record_ok (respawns_per_player (lc_config s)) p v"
  have "x - 1 \<le> b" if "0 < x" "x \<le> b" for x b :: u32
    using that by (simp add: word_le_nat_alt unat_minus_one word_neq_0_conv)
  with r show ?thesis by (auto simp: count_death_def record_ok_def word_neq_0_conv not_less)
qed

text \<open>A death: the victim's record, then the killer's.\<close>

lemma note_death_cases:
  obtains (skip) "death_victim d \<in> set handled" "note_death tick d (handled, changed, s) = (handled, changed, s)"
  | (self) v where "death_victim d \<notin> set handled"
      "umap_find (lc_players (lifecycle_ensure (death_victim d) s)) (death_victim d) = Some v"
      "note_death tick d (handled, changed, s) = (death_victim d # handled, True,
        (lifecycle_ensure (death_victim d) s)\<lparr>lc_players := umap_put (death_victim d)
          (count_death tick (lifecycle_ensure (death_victim d) s) v)
          (lc_players (lifecycle_ensure (death_victim d) s))\<rparr>)"
  | (killed) v s1 k where "death_victim d \<notin> set handled"
      "umap_find (lc_players (lifecycle_ensure (death_victim d) s)) (death_victim d) = Some v"
      "s1 = (lifecycle_ensure (death_victim d) s)\<lparr>lc_players := umap_put (death_victim d)
          (count_death tick (lifecycle_ensure (death_victim d) s) v)
          (lc_players (lifecycle_ensure (death_victim d) s))\<rparr>"
      "death_killer d \<noteq> death_victim d"
      "umap_find (lc_players (lifecycle_ensure (death_killer d) s1)) (death_killer d) = Some k"
      "note_death tick d (handled, changed, s) = (death_victim d # handled, True,
        (lifecycle_ensure (death_killer d) s1)\<lparr>lc_players := umap_put (death_killer d)
          (k\<lparr>lcp_kills := lcp_kills k + 1\<rparr>) (lc_players (lifecycle_ensure (death_killer d) s1))\<rparr>)"
proof -
  obtain v where v: "umap_find (lc_players (lifecycle_ensure (death_victim d) s)) (death_victim d) = Some v"
    using ensure_found by blast
  define s1 where "s1 = (lifecycle_ensure (death_victim d) s)\<lparr>lc_players := umap_put (death_victim d)
          (count_death tick (lifecycle_ensure (death_victim d) s) v)
          (lc_players (lifecycle_ensure (death_victim d) s))\<rparr>"
  obtain k where k: "umap_find (lc_players (lifecycle_ensure (death_killer d) s1)) (death_killer d) = Some k"
    using ensure_found by blast
  show thesis
  proof (cases "death_victim d \<in> set handled")
    case True
    then show ?thesis using skip by (simp add: note_death_def)
  next
    case False
    show ?thesis
    proof (cases "death_killer d \<noteq> 0 \<and> death_killer d \<noteq> death_victim d")
      case True
      then show ?thesis
        using killed [OF False v s1_def _ k] False unfolding note_death_def Let_def prod.case v option.case
        by (simp add: k flip: s1_def)
    next
      case no: False
      then show ?thesis
        using self [OF False v] False unfolding note_death_def Let_def prod.case v option.case by auto
    qed
  qed
qed

lemma note_death_keeps:
  assumes "table_ok s" and "note_death tick d (handled, changed, s) = (handled', changed', s')"
  shows "table_ok s'" "lc_core s' = lc_core s"
proof -
  let ?s = "lifecycle_ensure (death_victim d) s"
  have ok: "table_ok ?s" using assms(1) by blast
  have put: "table_ok (?s\<lparr>lc_players := umap_put (death_victim d) (count_death tick ?s v) (lc_players ?s)\<rparr>)"
    if "umap_find (lc_players ?s) (death_victim d) = Some v" for v
    by (rule table_put [OF ok count_death_ok [OF table_okD(2) [OF ok that]]])
  have "table_ok s' \<and> lc_core s' = lc_core s"
  proof (cases rule: note_death_cases [of d handled tick changed s])
    case skip
    with assms show ?thesis by simp
  next
    case (self v)
    with assms put [OF self(2)] show ?thesis using ensure_core [of "death_victim d" s] by auto
  next
    case (killed v s1 k)
    let ?s2 = "lifecycle_ensure (death_killer d) s1"
    have ok2: "table_ok ?s2" using put [OF killed(2)] killed(3) by blast
    have "table_ok (?s2\<lparr>lc_players := umap_put (death_killer d) (k\<lparr>lcp_kills := lcp_kills k + 1\<rparr>) (lc_players ?s2)\<rparr>)"
      using table_okD(2) [OF ok2 killed(5)] by (intro table_put [OF ok2]) (simp add: record_ok_def)
    moreover have "lc_core ?s2 = lc_core s"
      using ensure_core [of "death_killer d" s1] ensure_core [of "death_victim d" s] killed(3) by simp
    ultimately show ?thesis using assms(2) killed(6) by auto
  qed
  then show "table_ok s'" "lc_core s' = lc_core s" by auto
qed

lemma deaths_step_keeps:
  assumes "table_ok (snd st)"
  shows "table_ok (snd (deaths_step tick deaths st))" "lc_core (snd (deaths_step tick deaths st)) = lc_core (snd st)"
proof -
  have "table_ok (snd (snd (fold (note_death tick) ds acc))) \<and>
      lc_core (snd (snd (fold (note_death tick) ds acc))) = lc_core (snd st)"
    if "table_ok (snd (snd acc)) \<and> lc_core (snd (snd acc)) = lc_core (snd st)" for ds acc
    by (rule fold_preserves [where P = "\<lambda>a. table_ok (snd (snd a)) \<and> lc_core (snd (snd a)) = lc_core (snd st)", OF that])
      (metis note_death_keeps prod.collapse)
  from this [of "([], fst st, snd st)"] assms
  show "table_ok (snd (deaths_step tick deaths st))" "lc_core (snd (deaths_step tick deaths st)) = lc_core (snd st)"
    by (auto simp: deaths_step_def case_prod_beta)
qed

lemma respawn_one_cases:
  obtains (none) "respawn_one tick p (respawned, changed, s) = (respawned, changed, s)"
  | (cleared) r where "umap_find (lc_players s) p = Some r" "lcp_pending r \<noteq> None"
      "respawn_one tick p (respawned, changed, s) = (respawned, changed,
        s\<lparr>lc_players := umap_put p (r\<lparr>lcp_pending := None\<rparr>) (lc_players s)\<rparr>)"
  | (returned) r due where "umap_find (lc_players s) p = Some r" "lcp_pending r = Some due" "due \<le> tick"
      "\<not> lcp_eliminated r"
      "respawn_one tick p (respawned, changed, s) = (respawned @ [p], True,
        s\<lparr>lc_players := umap_put p (r\<lparr>lcp_pending := None, lcp_alive := True\<rparr>) (lc_players s)\<rparr>)"
proof (cases "umap_find (lc_players s) p")
  case None
  then show ?thesis using none by (simp add: respawn_one_def)
next
  case (Some r)
  note found = Some
  show ?thesis
  proof (cases "lcp_pending r")
    case None
    with found show ?thesis using none by (simp add: respawn_one_def)
  next
    case (Some due)
    show ?thesis
    proof (cases "tick < due")
      case True
      with found Some show ?thesis using none by (simp add: respawn_one_def)
    next
      case late: False
      show ?thesis
      proof (cases "lcp_eliminated r")
        case True
        with late found Some show ?thesis using cleared [OF found] by (simp add: respawn_one_def)
      next
        case False
        with late found Some show ?thesis using returned [OF found Some] by (simp add: respawn_one_def)
      qed
    qed
  qed
qed

lemma respawn_one_keeps:
  assumes "table_ok s" and "respawn_one tick p (respawned, changed, s) = (respawned', changed', s')"
  shows "table_ok s'" "lc_core s' = lc_core s" "connected_ids s' = connected_ids s"
proof -
  have "table_ok s' \<and> lc_core s' = lc_core s \<and> connected_ids s' = connected_ids s"
  proof (cases rule: respawn_one_cases [of tick p respawned changed s])
    case none
    with assms show ?thesis by simp
  next
    case (cleared r)
    with assms table_put [OF assms(1), of p "r\<lparr>lcp_pending := None\<rparr>"] table_okD(2) [OF assms(1) cleared(1)]
    show ?thesis by (auto simp: record_ok_def connected_put)
  next
    case (returned r due)
    with assms table_put [OF assms(1), of p "r\<lparr>lcp_pending := None, lcp_alive := True\<rparr>"] table_okD(2) [OF assms(1) returned(1)]
    show ?thesis by (auto simp: record_ok_def connected_put)
  qed
  then show "table_ok s'" "lc_core s' = lc_core s" "connected_ids s' = connected_ids s" by auto
qed

lemma respawns_keep:
  assumes "table_ok s" and "fold (respawn_one tick) ps (respawned, changed, s) = (respawned', changed', s')"
  shows "table_ok s'" "lc_core s' = lc_core s" "connected_ids s' = connected_ids s"
proof -
  let ?P = "\<lambda>a. table_ok (snd (snd a)) \<and> lc_core (snd (snd a)) = lc_core s \<and> connected_ids (snd (snd a)) = connected_ids s"
  have "?P (fold (respawn_one tick) ps (respawned, changed, s))"
    by (rule fold_preserves [where P = ?P]) (use assms(1) respawn_one_keeps in \<open>simp, metis prod.collapse\<close>)
  with assms(2) show "table_ok s'" "lc_core s' = lc_core s" "connected_ids s' = connected_ids s" by auto
qed

section \<open>The match clock: what the phase logic promises\<close>

text \<open>
  The abstract machine: a countdown of ticks before the match, the nanoseconds left of the match,
  the winner. A tick is told whether there are enough players, who is the only contender left, if
  anyone, and who leads the scoreboard.
\<close>

record match_clock =
  ck_phase :: match_phase
  ck_countdown :: nat
  ck_left :: int
  ck_winner :: "u32 option"

definition ck_finished :: "u32 option \<Rightarrow> match_clock" where
  "ck_finished w = \<lparr>ck_phase = PostMatch, ck_countdown = 0, ck_left = 0, ck_winner = w\<rparr>"

definition ck_started :: "lifecycle_config \<Rightarrow> match_clock" where
  "ck_started cfg = \<lparr>ck_phase = InMatch, ck_countdown = 0,
     ck_left = 1000000000 * uint (match_duration_seconds cfg), ck_winner = None\<rparr>"

definition clock_tick :: "lifecycle_config \<Rightarrow> int \<Rightarrow> bool \<Rightarrow> u32 option \<Rightarrow> u32 option \<Rightarrow> match_clock \<Rightarrow> match_clock" where
  "clock_tick cfg dt enough sole leader c = (case ck_phase c of
     PreMatch \<Rightarrow>
       if \<not> enough then c\<lparr>ck_countdown := unat (pre_match_ticks cfg)\<rparr>
       else if 1 < ck_countdown c then c\<lparr>ck_countdown := ck_countdown c - 1\<rparr>
       else (case sole of None \<Rightarrow> ck_started cfg | Some p \<Rightarrow> ck_finished (Some p))
   | InMatch \<Rightarrow>
       (case sole of
          Some p \<Rightarrow> ck_finished (Some p)
        | None \<Rightarrow> if ck_left c \<le> max 0 dt then ck_finished leader
            else c\<lparr>ck_left := ck_left c - max 0 dt\<rparr>)
   | PostMatch \<Rightarrow> c)"

definition clock_of :: "lifecycle_sim \<Rightarrow> match_clock" where
  "clock_of s = \<lparr>ck_phase = lc_phase s,
     ck_countdown = (if lc_phase s = PreMatch then unat (lc_pre_ticks s) else 0),
     ck_left = (if lc_phase s = InMatch then 1000000000 * uint (lc_seconds s) - lc_accumulator s else 0),
     ck_winner = lc_winner s\<rparr>"

definition sole_contender :: "lifecycle_sim \<Rightarrow> u32 option" where
  "sole_contender s = (case contenders s of [p] \<Rightarrow> Some p | _ \<Rightarrow> None)"

definition clock_ok :: "lifecycle_sim \<Rightarrow> bool" where
  "clock_ok s \<longleftrightarrow> 0 < match_duration_seconds (lc_config s) \<and> 0 < min_players_to_start (lc_config s)
     \<and> (case lc_phase s of
          PreMatch \<Rightarrow> lc_pre_ticks s \<le> pre_match_ticks (lc_config s) \<and> lc_winner s = None
        | InMatch \<Rightarrow> 0 < lc_seconds s \<and> lc_seconds s \<le> match_duration_seconds (lc_config s)
            \<and> 0 \<le> lc_accumulator s \<and> lc_accumulator s < 1000000000 \<and> lc_winner s = None
        | PostMatch \<Rightarrow> lc_seconds s = 0 \<and> lc_pre_ticks s = 0)"

definition lifecycle_inv :: "lifecycle_sim \<Rightarrow> bool" where
  "lifecycle_inv s \<longleftrightarrow> table_ok s \<and> clock_ok s"

lemma clock_core:
  assumes "lc_core s' = lc_core s"
  shows "clock_of s' = clock_of s" "clock_ok s' = clock_ok s"
  by (simp_all only: core_fields [OF assms] clock_of_def clock_ok_def)

lemma uint_pred:
  assumes "w \<noteq> 0"
  shows "uint (w - 1) = uint w - 1" "w - 1 \<le> w"
proof -
  have u: "unat (w - 1) = unat w - 1" "0 < unat w" using assms by (simp_all add: unat_minus_one unat_gt_0)
  then have "int (unat (w - 1)) = int (unat w) - 1" by simp
  then show "uint (w - 1) = uint w - 1" by simp
  show "w - 1 \<le> w" using u by (simp add: word_le_nat_alt)
qed

lemma consume_seconds_spec:
  "consume_seconds acc seconds = (acc', seconds') \<Longrightarrow> 0 \<le> acc \<Longrightarrow>
     1000000000 * uint seconds' - acc' = 1000000000 * uint seconds - acc \<and> 0 \<le> acc'
     \<and> seconds' \<le> seconds \<and> (seconds' = 0 \<or> acc' < 1000000000)"
proof (induction acc seconds rule: consume_seconds.induct)
  case (1 acc seconds)
  show ?case
  proof (cases "1000000000 \<le> acc \<and> 0 < seconds")
    case True
    then have r: "consume_seconds (acc - 1000000000) (seconds - 1) = (acc', seconds')"
      using 1(2) by (subst (asm) consume_seconds.simps) simp
    have nz: "seconds \<noteq> 0" using True by (simp add: word_neq_0_conv)
    show ?thesis using 1(1) [OF True r] True uint_pred [OF nz] by auto
  next
    case False
    then have "acc' = acc \<and> seconds' = seconds" using 1(2) by (subst (asm) consume_seconds.simps) auto
    with False 1(3) word_neq_0_conv [of seconds] show ?thesis by auto
  qed
qed

text \<open>The countdown and the start.\<close>

lemma enter_in_match_table: "table_ok s \<Longrightarrow> table_ok (enter_in_match tick s)"
  unfolding enter_in_match_def
  by (auto simp: table_ok_def find_update_all record_ok_def)

lemma enter_in_match_connected [simp]: "connected_ids (enter_in_match tick s) = connected_ids s"
  by (auto simp: enter_in_match_def connected_ids_def find_update_all)

lemma pre_match_cases:
  obtains (other) "lc_phase s \<noteq> PreMatch" "pre_match_step tick s = (False, False, s)"
  | (waiting) c where "lc_phase s = PreMatch" "connected_count s < unat (min_players_to_start (lc_config s))"
      "pre_match_step tick s = (c, False, s\<lparr>lc_pre_ticks := pre_match_ticks (lc_config s)\<rparr>)"
  | (counting) "lc_phase s = PreMatch" "\<not> connected_count s < unat (min_players_to_start (lc_config s))"
      "1 < unat (lc_pre_ticks s)" "pre_match_step tick s = (False, False, s\<lparr>lc_pre_ticks := lc_pre_ticks s - 1\<rparr>)"
  | (start) "lc_phase s = PreMatch" "\<not> connected_count s < unat (min_players_to_start (lc_config s))"
      "\<not> 1 < unat (lc_pre_ticks s)" "pre_match_step tick s = (True, True, enter_in_match tick (s\<lparr>lc_pre_ticks := 0\<rparr>))"
proof (cases "lc_phase s = PreMatch")
  case False
  then show ?thesis using other by (simp add: pre_match_step_def)
next
  case pre: True
  show ?thesis
  proof (cases "connected_count s < unat (min_players_to_start (lc_config s))")
    case few: True
    show ?thesis
    proof (cases "lc_pre_ticks s = pre_match_ticks (lc_config s)")
      case True
      then have "s\<lparr>lc_pre_ticks := pre_match_ticks (lc_config s)\<rparr> = s" by (cases s) simp
      then show ?thesis using waiting [OF pre few, of False] pre few True by (simp add: pre_match_step_def)
    next
      case False
      then show ?thesis using waiting [OF pre few, of True] pre few by (simp add: pre_match_step_def)
    qed
  next
    case enough: False
    show ?thesis
    proof (cases "lc_pre_ticks s = 0")
      case True
      then have "s\<lparr>lc_pre_ticks := 0\<rparr> = s" by (cases s) simp
      note st = start [OF pre enough, unfolded this]
      show ?thesis using st pre enough True by (simp add: pre_match_step_def)
    next
      case False
      note u = unat_minus_one [OF False]
      show ?thesis
      proof (cases "lc_pre_ticks s - 1 = 0")
        case True
        then have "\<not> 1 < unat (lc_pre_ticks s)" using u by simp
        then show ?thesis
          using start [OF pre enough] pre enough False True by (simp add: pre_match_step_def word_neq_0_conv)
      next
        case more: False
        then have "unat (lc_pre_ticks s - 1) \<noteq> 0" by (simp only: unat_eq_zero not_False_eq_True)
        then have "1 < unat (lc_pre_ticks s)" using u by simp
        then show ?thesis
          using counting [OF pre enough] pre enough False more by (simp add: pre_match_step_def word_neq_0_conv)
      qed
    qed
  qed
qed

lemma pre_match_keeps:
  assumes "table_ok s" and step: "pre_match_step tick s = (changed, started, s')"
  shows "table_ok s'" "connected_ids s' = connected_ids s" "lc_config s' = lc_config s"
proof -
  have t: "table_ok (s\<lparr>lc_pre_ticks := n\<rparr>)" "connected_ids (s\<lparr>lc_pre_ticks := n\<rparr>) = connected_ids s" for n
    using assms(1) by (simp_all add: table_ok_def connected_ids_def)
  have "table_ok s' \<and> connected_ids s' = connected_ids s \<and> lc_config s' = lc_config s"
  proof (cases rule: pre_match_cases [of s tick])
    case start
    then have "s' = enter_in_match tick (s\<lparr>lc_pre_ticks := 0\<rparr>)" using step by simp
    moreover have "lc_config (enter_in_match tick (s\<lparr>lc_pre_ticks := 0\<rparr>)) = lc_config s"
      by (simp add: enter_in_match_def)
    ultimately show ?thesis using t enter_in_match_table by simp
  qed (use step t assms(1) in auto)
  then show "table_ok s'" "connected_ids s' = connected_ids s" "lc_config s' = lc_config s" by auto
qed

lemma pre_match_clock:
  assumes ok: "clock_ok s" and step: "pre_match_step tick s = (changed, started, s')"
  shows "clock_of s' = (if lc_phase s \<noteq> PreMatch then clock_of s
      else if connected_count s < unat (min_players_to_start (lc_config s))
      then (clock_of s)\<lparr>ck_countdown := unat (pre_match_ticks (lc_config s))\<rparr>
      else if 1 < ck_countdown (clock_of s) then (clock_of s)\<lparr>ck_countdown := ck_countdown (clock_of s) - 1\<rparr>
      else ck_started (lc_config s))"
    and "clock_ok s'" and "started \<longleftrightarrow> lc_phase s = PreMatch \<and> lc_phase s' = InMatch"
proof -
  have "clock_of s' = (if lc_phase s \<noteq> PreMatch then clock_of s
      else if connected_count s < unat (min_players_to_start (lc_config s))
      then (clock_of s)\<lparr>ck_countdown := unat (pre_match_ticks (lc_config s))\<rparr>
      else if 1 < ck_countdown (clock_of s) then (clock_of s)\<lparr>ck_countdown := ck_countdown (clock_of s) - 1\<rparr>
      else ck_started (lc_config s)) \<and> clock_ok s' \<and> (started \<longleftrightarrow> lc_phase s = PreMatch \<and> lc_phase s' = InMatch)"
  proof (cases rule: pre_match_cases [of s tick])
    case other
    with ok step show ?thesis by simp
  next
    case (waiting c)
    with ok step show ?thesis by (auto simp: clock_of_def clock_ok_def)
  next
    case counting
    then have "lc_pre_ticks s \<noteq> 0" by auto
    with counting ok step show ?thesis
      using uint_pred(2) [of "lc_pre_ticks s"]
      by (auto simp: clock_of_def clock_ok_def unat_minus_one intro: order.trans)
  next
    case start
    with ok step show ?thesis by (auto simp: clock_of_def clock_ok_def enter_in_match_def ck_started_def)
  qed
  then show "clock_of s' = (if lc_phase s \<noteq> PreMatch then clock_of s
      else if connected_count s < unat (min_players_to_start (lc_config s))
      then (clock_of s)\<lparr>ck_countdown := unat (pre_match_ticks (lc_config s))\<rparr>
      else if 1 < ck_countdown (clock_of s) then (clock_of s)\<lparr>ck_countdown := ck_countdown (clock_of s) - 1\<rparr>
      else ck_started (lc_config s))"
    and "clock_ok s'" and "started \<longleftrightarrow> lc_phase s = PreMatch \<and> lc_phase s' = InMatch" by blast+
qed

text \<open>The timer.\<close>

lemma timer_step_cases:
  obtains (idle) "timer_step dt started s = (False, s)" "lc_phase s = InMatch \<longrightarrow> started \<or> dt \<le> 0 \<or> lc_seconds s = 0"
  | (runs) acc secs where "lc_phase s = InMatch" "\<not> started" "0 < dt"
      "consume_seconds (lc_accumulator s + dt) (lc_seconds s) = (acc, secs)"
      "timer_step dt started s = (secs = 0, s\<lparr>lc_accumulator := acc, lc_seconds := secs\<rparr>)"
proof (cases "lc_phase s = InMatch \<and> \<not> started \<and> 0 < dt \<and> 0 < lc_seconds s")
  case True
  obtain acc secs where "consume_seconds (lc_accumulator s + dt) (lc_seconds s) = (acc, secs)" by fastforce
  then show ?thesis using runs True by (simp add: timer_step_def del: consume_seconds.simps)
next
  case False
  then have "timer_step dt started s = (False, s)" by (auto simp: timer_step_def simp del: consume_seconds.simps)
  then show ?thesis using idle False word_neq_0_conv [of "lc_seconds s"] by auto
qed

lemma timer_keeps:
  assumes "timer_step dt started s = (expired, s')"
  shows "lc_players s' = lc_players s" "lc_config s' = lc_config s" "lc_phase s' = lc_phase s" "lc_winner s' = lc_winner s"
    "lc_pre_ticks s' = lc_pre_ticks s"
  by (cases rule: timer_step_cases [of dt started s]; use assms in auto)+

text \<open>What the timer leaves of the clock of a running match.\<close>

lemma timer_clock:
  assumes ok: "clock_ok s" and step: "timer_step dt started s = (expired, s')" and "lc_phase s = InMatch"
  shows "ck_left (clock_of s') = ck_left (clock_of s) - (if started then 0 else max 0 dt)"
    and "expired \<longleftrightarrow> ck_left (clock_of s') \<le> 0"
    and "\<not> expired \<longrightarrow> clock_ok s'"
proof -
  have pos: "0 < lc_seconds s" "0 \<le> lc_accumulator s" "lc_accumulator s < 1000000000"
    using ok assms(3) by (simp_all add: clock_ok_def)
  have secs: "1 \<le> uint (lc_seconds s)" using pos(1) by (simp add: word_less_def)
  have "ck_left (clock_of s') = ck_left (clock_of s) - (if started then 0 else max 0 dt)
    \<and> (expired \<longleftrightarrow> ck_left (clock_of s') \<le> 0) \<and> (\<not> expired \<longrightarrow> clock_ok s')"
  proof (cases rule: timer_step_cases [of dt started s])
    case idle
    then have "started \<or> dt \<le> 0" using assms(3) pos(1) word_neq_0_conv [of "lc_seconds s"] by auto
    with idle step assms(3) ok pos secs show ?thesis by (auto simp: clock_of_def)
  next
    case (runs acc secs')
    note c = consume_seconds_spec [OF runs(4)]
    have "0 \<le> lc_accumulator s + dt" using pos runs(3) by simp
    note c = c [OF this]
    have s': "s' = s\<lparr>lc_accumulator := acc, lc_seconds := secs'\<rparr>" "expired \<longleftrightarrow> secs' = 0" using runs(5) step by auto
    have left: "ck_left (clock_of s') = ck_left (clock_of s) - dt"
      using c assms(3) by (simp add: s' clock_of_def)
    have "secs' = 0 \<longleftrightarrow> 1000000000 * uint secs' - acc \<le> 0"
    proof (cases "secs' = 0")
      case False
      then have "1 \<le> uint secs'" using word_neq_0_conv [of secs'] by (simp add: word_less_def)
      moreover have "acc < 1000000000" using c False by simp
      ultimately show ?thesis using False by simp
    qed (use c in simp)
    moreover have "clock_ok s'" if "secs' \<noteq> 0"
      using that ok assms(3) c word_neq_0_conv [of secs'] by (auto simp: s' clock_ok_def intro: order.trans)
    moreover have "ck_left (clock_of s') = 1000000000 * uint secs' - acc"
      using assms(3) by (simp add: s' clock_of_def)
    ultimately show ?thesis using left runs(2,3) s' by (auto simp del: word_neq_0_conv)
  qed
  then show "ck_left (clock_of s') = ck_left (clock_of s) - (if started then 0 else max 0 dt)"
    and "expired \<longleftrightarrow> ck_left (clock_of s') \<le> 0" and "\<not> expired \<longrightarrow> clock_ok s'" by blast+
qed

text \<open>The end of a match.\<close>

lemma post_match_fields [simp]:
  "lc_players (enter_post_match tick w s) = lc_players s" "lc_config (enter_post_match tick w s) = lc_config s"
  "lc_phase (enter_post_match tick w s) = PostMatch" "clock_of (enter_post_match tick w s) = ck_finished w"
  by (simp_all add: enter_post_match_def clock_of_def ck_finished_def)

lemma post_match_ok: "clock_ok s \<Longrightarrow> clock_ok (enter_post_match tick w s)"
  by (simp add: clock_ok_def enter_post_match_def split: match_phase.splits)

lemma contenders_cong: "lc_players s' = lc_players s \<Longrightarrow> sole_contender s' = sole_contender s"
  by (simp add: sole_contender_def contenders_def)

lemma scoreboard_cong: "lc_players s' = lc_players s \<Longrightarrow> build_scoreboard s' = build_scoreboard s"
  by (simp add: build_scoreboard_def)

lemma in_match_step_cases:
  obtains (other) "lc_phase s \<noteq> InMatch" "in_match_step tick (changed, s) = ([], changed, False, s)"
  | (running) respawned changed1 s1 where "lc_phase s = InMatch"
      "fold (respawn_one tick) (sort (umap_keys (lc_players s))) ([], changed, s) = (respawned, changed1, s1)"
      "sole_contender s1 = None" "in_match_step tick (changed, s) = (respawned, changed1, False, s1)"
  | (won) respawned changed1 s1 p where "lc_phase s = InMatch"
      "fold (respawn_one tick) (sort (umap_keys (lc_players s))) ([], changed, s) = (respawned, changed1, s1)"
      "sole_contender s1 = Some p"
      "in_match_step tick (changed, s) = (respawned, changed1, True, enter_post_match tick (Some p) s1)"
proof (cases "lc_phase s = InMatch")
  case False
  then show ?thesis using other by (simp add: in_match_step_def)
next
  case True
  obtain respawned changed1 s1 where
    f: "fold (respawn_one tick) (sort (umap_keys (lc_players s))) ([], changed, s) = (respawned, changed1, s1)"
    by (metis prod.collapse)
  show ?thesis
  proof (cases "sole_contender s1")
    case None
    then show ?thesis using running [OF True f] True f
      by (auto simp: in_match_step_def sole_contender_def split: list.splits)
  next
    case (Some p)
    then have "contenders s1 = [p]" by (auto simp: sole_contender_def split: list.splits)
    then show ?thesis using won [OF True f Some] True f by (simp add: in_match_step_def)
  qed
qed

text \<open>The whole tick, cut at the intermediate states.\<close>

lemma lifecycle_tick_parts:
  assumes "lifecycle_resolve_tick tick dt active combat deaths inventory s = (out, s')"
  obtains changed3 s3 state4 started s4 expired s5 changed6 s6 changed7 state7 s7 state8 where
    "tick_table active combat inventory s = (changed3, s3)"
    "pre_match_step tick s3 = (state4, started, s4)" "timer_step dt started s4 = (expired, s5)"
    "deaths_step tick deaths (changed3, s5) = (changed6, s6)"
    "in_match_step tick (changed6, s6) = (lr_respawned out, changed7, state7, s7)"
    "expiry_step tick expired s7 = (state8, s')"
    "lr_state out = build_state dt s'" "lr_scoreboard out = build_scoreboard s'"
    "lr_state_changed out = (state4 \<or> state7 \<or> state8)" "lr_scoreboard_changed out = changed7"
proof -
  obtain changed3 s3 where 3: "tick_table active combat inventory s = (changed3, s3)" by fastforce
  obtain state4 started s4 where 4: "pre_match_step tick s3 = (state4, started, s4)" by (metis prod.collapse)
  obtain expired s5 where 5: "timer_step dt started s4 = (expired, s5)" by fastforce
  obtain changed6 s6 where 6: "deaths_step tick deaths (changed3, s5) = (changed6, s6)" by fastforce
  obtain respawned changed7 state7 s7 where 7: "in_match_step tick (changed6, s6) = (respawned, changed7, state7, s7)"
    by (metis prod.collapse)
  obtain state8 s8 where 8: "expiry_step tick expired s7 = (state8, s8)" by fastforce
  have "(out, s') = (\<lparr>lr_state = build_state dt s8, lr_scoreboard = build_scoreboard s8, lr_respawned = respawned,
      lr_state_changed = (state4 \<or> state7 \<or> state8), lr_scoreboard_changed = changed7\<rparr>, s8)"
    unfolding assms [symmetric] lifecycle_resolve_tick_def Let_def
    using 3 4 5 6 7 8 by (simp add: tick_table_def)
  then show thesis using that [OF 3 4 5 6] 7 8 by simp
qed

definition enough_players :: "lifecycle_config \<Rightarrow> u32 set \<Rightarrow> bool" where
  "enough_players cfg ps \<longleftrightarrow> unat (min_players_to_start cfg) \<le> card ps"

definition clock_countdown :: "lifecycle_config \<Rightarrow> bool \<Rightarrow> match_clock \<Rightarrow> match_clock" where
  "clock_countdown cfg enough c = (if ck_phase c \<noteq> PreMatch then c
     else if \<not> enough then c\<lparr>ck_countdown := unat (pre_match_ticks cfg)\<rparr>
     else if 1 < ck_countdown c then c\<lparr>ck_countdown := ck_countdown c - 1\<rparr>
     else ck_started cfg)"

lemma clock_tick_idle:
  assumes "ck_phase (clock_countdown cfg enough c) \<noteq> InMatch"
  shows "clock_tick cfg dt enough sole leader c = clock_countdown cfg enough c"
  using assms by (cases "ck_phase c") (auto simp: clock_countdown_def clock_tick_def ck_started_def split: if_split_asm)

lemma clock_tick_running:
  assumes "ck_phase (clock_countdown cfg enough c) = InMatch"
    and "c5 = (clock_countdown cfg enough c)\<lparr>ck_left := ck_left (clock_countdown cfg enough c)
      - (if ck_phase c = PreMatch then 0 else max 0 dt)\<rparr>"
    and "0 < ck_left (ck_started cfg)"
  shows "clock_tick cfg dt enough sole leader c = (case sole of Some p \<Rightarrow> ck_finished (Some p)
    | None \<Rightarrow> if ck_left c5 \<le> 0 then ck_finished leader else c5)"
proof (cases "ck_phase c")
  case PreMatch
  with assms have "clock_countdown cfg enough c = ck_started cfg" "enough" "\<not> 1 < ck_countdown c"
    by (auto simp: clock_countdown_def split: if_split_asm)
  moreover from this PreMatch assms have "c5 = ck_started cfg" by simp
  ultimately show ?thesis using PreMatch assms(3) by (simp add: clock_tick_def split: option.split)
next
  case InMatch
  then show ?thesis using assms by (auto simp: clock_countdown_def clock_tick_def split: option.split)
next
  case PostMatch
  then show ?thesis using assms by (simp add: clock_countdown_def)
qed

lemma tick_refines_clock:
  assumes inv: "lifecycle_inv s"
    and tick: "lifecycle_resolve_tick tick dt active combat deaths inventory s = (out, s')"
  shows "lifecycle_inv s' \<and> lc_config s' = lc_config s \<and> clock_of s' = clock_tick (lc_config s) dt
    (enough_players (lc_config s) (participants active combat inventory))
    (sole_contender s') (resolve_winner (build_scoreboard s')) (clock_of s)"
proof -
  obtain changed3 s3 state4 started s4 expired s5 changed6 s6 changed7 state7 s7 state8 where
    p3: "tick_table active combat inventory s = (changed3, s3)" and
    p4: "pre_match_step tick s3 = (state4, started, s4)" and p5: "timer_step dt started s4 = (expired, s5)" and
    p6: "deaths_step tick deaths (changed3, s5) = (changed6, s6)" and
    p7: "in_match_step tick (changed6, s6) = (lr_respawned out, changed7, state7, s7)" and
    p8: "expiry_step tick expired s7 = (state8, s')"
    by (rule lifecycle_tick_parts [OF tick])
  have t3: "table_ok s3" "lc_core s3 = lc_core s" "connected_ids s3 = participants active combat inventory"
    using tick_table_ok [of s active combat inventory] inv tick_table_core [of active combat inventory s]
      tick_table_connected [of active combat inventory s] by (simp_all add: p3 lifecycle_inv_def)
  have c3: "clock_ok s3" "clock_of s3 = clock_of s" "lc_config s3 = lc_config s" "lc_phase s3 = lc_phase s"
    using inv clock_core [OF t3(2)] core_fields [OF t3(2)] by (simp_all add: lifecycle_inv_def)
  have few: "connected_count s3 < unat (min_players_to_start (lc_config s)) \<longleftrightarrow>
      \<not> enough_players (lc_config s) (participants active combat inventory)"
    by (simp add: connected_count_eq [OF t3(1)] t3(3) enough_players_def not_le)
  note t4 = pre_match_keeps [OF t3(1) p4]
  note c4 = pre_match_clock [OF c3(1) p4]
  note k5 = timer_keeps [OF p5]
  have ph4: "ck_phase (clock_of s4) = lc_phase s4" "ck_phase (clock_of s) = lc_phase s"
    by (simp_all add: clock_of_def)
  have ck4: "clock_of s4 = clock_countdown (lc_config s)
      (enough_players (lc_config s) (participants active combat inventory)) (clock_of s)"
    using c4(1) by (simp only: clock_countdown_def c3 few ph4)
  have t5: "table_ok s5" by (rule table_cong [OF t4(1)]) (simp_all add: k5)
  have t6: "table_ok s6" "lc_core s6 = lc_core s5"
    using deaths_step_keeps [of "(changed3, s5)" tick deaths] t5 by (simp_all add: p6)
  note c6 = core_fields [OF t6(2)] clock_core [OF t6(2)]
  have cfg: "lc_config s5 = lc_config s" "lc_config s6 = lc_config s" using k5 c6 t4 c3 by simp_all
  show ?thesis
  proof (cases "lc_phase s4 = InMatch")
    case False
    then have i5: "expired = False \<and> s5 = s4" using p5 by (auto simp: timer_step_def)
    have i7: "s7 = s6" using p7 False c6(2) i5 by (simp add: in_match_step_def)
    have i8: "s' = s6" using p8 False c6(2) i5 by (auto simp: expiry_step_def i7)
    have "clock_of s' = clock_of s4" using i5 i8 c6 by simp
    then have "clock_of s' = clock_tick (lc_config s) dt
        (enough_players (lc_config s) (participants active combat inventory))
        (sole_contender s') (resolve_winner (build_scoreboard s')) (clock_of s)"
      using clock_tick_idle [OF False [folded ph4(1), unfolded ck4]] ck4 by simp
    then show ?thesis using t6 c6 c4(2) i5 i8 cfg by (simp add: lifecycle_inv_def)
  next
    case True
    then have ph: "lc_phase s5 = InMatch" "lc_phase s6 = InMatch" using k5 c6 by simp_all
    note tm = timer_clock [OF c4(2) p5 True]
    obtain respawned changed' s7' where
      f: "fold (respawn_one tick) (sort (umap_keys (lc_players s6))) ([], changed6, s6) = (respawned, changed', s7')"
      and s7: "s7 = (case sole_contender s7' of None \<Rightarrow> s7' | Some p \<Rightarrow> enter_post_match tick (Some p) s7')"
      by (cases rule: in_match_step_cases [of s6 tick changed6]) (use p7 ph in auto)
    note r7 = respawns_keep [OF t6(1) f]
    note c7 = core_fields [OF r7(2)] clock_core [OF r7(2)]
    have clock7: "clock_of s7' = clock_of s5" "clock_ok s7' = clock_ok s5" using c7 c6 by simp_all
    have s': "s' = (case sole_contender s7' of Some p \<Rightarrow> enter_post_match tick (Some p) s7'
        | None \<Rightarrow> if expired then enter_post_match tick (resolve_winner (build_scoreboard s7')) s7' else s7')"
      using p8 c7(2) ph(2) by (simp add: expiry_step_def s7 split: option.split_asm if_split_asm)
    have pl: "lc_players s' = lc_players s7'" "lc_config s' = lc_config s"
      using c7(1) cfg by (simp_all add: s' split: option.split)
    have same: "sole_contender s' = sole_contender s7'" "build_scoreboard s' = build_scoreboard s7'"
      using contenders_cong [OF pl(1)] scoreboard_cong [OF pl(1)] by simp_all
    have ok5: "clock_ok (enter_post_match tick w s7')" for w
    proof -
      have "0 < match_duration_seconds (lc_config s7')" "0 < min_players_to_start (lc_config s7')"
        using c3(1) c3(3) c7(1) cfg by (simp_all add: clock_ok_def)
      then show ?thesis by (simp add: clock_ok_def enter_post_match_def)
    qed
    have "lifecycle_inv s'"
    proof -
      have "table_ok s'" by (rule table_cong [OF r7(1)]) (use pl c7(1) cfg in simp_all)
      moreover have "clock_ok s'" using ok5 tm(3) clock7 by (auto simp: s' split: option.split)
      ultimately show ?thesis by (simp add: lifecycle_inv_def)
    qed
    moreover have "clock_of s' = (case sole_contender s' of Some p \<Rightarrow> ck_finished (Some p)
        | None \<Rightarrow> if expired then ck_finished (resolve_winner (build_scoreboard s')) else clock_of s5)"
      unfolding same by (simp add: s' clock7 split: option.split)
    moreover have "clock_of s5 = (clock_of s4)\<lparr>ck_left := ck_left (clock_of s4) - (if started then 0 else max 0 dt)\<rparr>"
      using tm(1) k5 True by (simp add: clock_of_def)
    moreover have "started \<longleftrightarrow> ck_phase (clock_of s) = PreMatch"
      using c4(3) True c3 by (simp add: clock_of_def)
    moreover have "0 < ck_left (ck_started (lc_config s))"
      using c3(1,3) by (simp add: ck_started_def clock_ok_def word_less_def)
    ultimately show ?thesis
      using clock_tick_running [OF True [folded ph4(1), unfolded ck4], of "clock_of s5"] tm(2) pl(2) ck4 by simp
  qed
qed

section \<open>The calls of the simulation\<close>

datatype lifecycle_call = MatchReset | MatchEnsure u32 | MatchRemove u32
  | MatchTick u64 int "u32 list" "combat_player list" "death_resolution list" "inventory_summary list"

primrec lifecycle_exec :: "lifecycle_call \<Rightarrow> lifecycle_sim \<Rightarrow> lifecycle_sim" where
  "lifecycle_exec MatchReset s = lifecycle_reset s"
| "lifecycle_exec (MatchEnsure p) s = lifecycle_ensure p s"
| "lifecycle_exec (MatchRemove p) s = lifecycle_remove p s"
| "lifecycle_exec (MatchTick tick dt active combat deaths inventory) s =
     snd (lifecycle_resolve_tick tick dt active combat deaths inventory s)"

lemma lifecycle_init_inv: "lifecycle_inv (lifecycle_init c)"
  by (simp add: lifecycle_inv_def lifecycle_init_def table_ok_def clock_ok_def Let_def
      sanitize_lifecycle_config_def word_neq_0_conv)

lemma lifecycle_reset_inv: "lifecycle_inv s \<Longrightarrow> lifecycle_inv (lifecycle_reset s)"
  by (auto simp: lifecycle_inv_def lifecycle_reset_def table_ok_def clock_ok_def record_ok_def find_update_all
      split: match_phase.splits)

lemma ensure_inv: "lifecycle_inv s \<Longrightarrow> lifecycle_inv (lifecycle_ensure p s)"
  using clock_core [OF ensure_core] by (auto simp: lifecycle_inv_def)

lemma remove_core [simp]: "lc_core (lifecycle_remove p s) = lc_core s"
  by (simp add: lifecycle_remove_def split: option.split)

lemma remove_inv: "lifecycle_inv s \<Longrightarrow> lifecycle_inv (lifecycle_remove p s)"
proof -
  assume inv: "lifecycle_inv s"
  then have ok: "table_ok s" by (simp add: lifecycle_inv_def)
  have "table_ok (lifecycle_remove p s)"
  proof (cases "umap_find (lc_players s) p")
    case (Some r)
    then show ?thesis
      using table_okD(2) [OF ok Some] table_put [OF ok, of p "r\<lparr>lcp_connected := False, lcp_pending := None\<rparr>"]
      by (simp add: lifecycle_remove_def record_ok_def)
  qed (simp add: lifecycle_remove_def ok)
  then show ?thesis using inv clock_core(2) [OF remove_core, of p s] by (simp add: lifecycle_inv_def)
qed

interpretation match_machine: component "\<lambda>s. \<exists>c. s = lifecycle_init c" lifecycle_exec "\<lambda>call. True" lifecycle_inv
proof unfold_locales
  show "lifecycle_inv s" if "\<exists>c. s = lifecycle_init c" for s
    using that lifecycle_init_inv by auto
  show "lifecycle_inv (lifecycle_exec call s)" if "lifecycle_inv s" for call s
  proof (cases call)
    case (MatchTick tick dt active combat deaths inventory)
    then show ?thesis using tick_refines_clock [OF that prod.collapse [symmetric]] by simp
  qed (simp_all add: that lifecycle_reset_inv ensure_inv remove_inv)
qed

section \<open>How long a match lasts\<close>

fun tick_interval_of :: "lifecycle_call \<Rightarrow> int" where
  "tick_interval_of (MatchTick tick dt active combat deaths inventory) = max 0 dt"
| "tick_interval_of _ = 0"

lemma tick_interval_nonneg [simp]: "0 \<le> tick_interval_of call"
  by (cases call) auto

text \<open>Whether a call is a tick that finds enough players.\<close>

fun well_attended :: "lifecycle_config \<Rightarrow> lifecycle_call \<Rightarrow> bool" where
  "well_attended cfg (MatchTick tick dt active combat deaths inventory) =
     enough_players cfg (participants active combat inventory)"
| "well_attended cfg _ = False"

lemma exec_config:
  assumes "lifecycle_inv s"
  shows "lc_config (lifecycle_exec call s) = lc_config s"
proof (cases call)
  case MatchReset
  then show ?thesis by (simp add: lifecycle_reset_def)
next
  case (MatchRemove p)
  then show ?thesis by (simp add: lifecycle_remove_def split: option.split)
next
  case (MatchTick tick dt active combat deaths inventory)
  then show ?thesis using tick_refines_clock [OF assms prod.collapse [symmetric]] by simp
qed simp

lemma exec_clock:
  assumes "lifecycle_inv s" and "call \<noteq> MatchReset"
  shows "(\<exists>tick dt active combat deaths inventory. call = MatchTick tick dt active combat deaths inventory
      \<and> clock_of (lifecycle_exec call s) = clock_tick (lc_config s) dt (well_attended (lc_config s) call)
          (sole_contender (lifecycle_exec call s))
          (resolve_winner (build_scoreboard (lifecycle_exec call s))) (clock_of s))
    \<or> clock_of (lifecycle_exec call s) = clock_of s \<and> tick_interval_of call = 0"
proof (cases call)
  case (MatchTick tick dt active combat deaths inventory)
  then show ?thesis using tick_refines_clock [OF assms(1) prod.collapse [symmetric]] by auto
next
  case (MatchEnsure p)
  then show ?thesis using clock_core(1) [OF ensure_core] by simp
next
  case (MatchRemove p)
  then show ?thesis using clock_core(1) [OF remove_core] by simp
qed (use assms in simp)

lemma phase_clock: "ck_phase (clock_of s) = lc_phase s"
  by (simp add: clock_of_def)

text \<open>A call without a reset never leaves the last phase, and in a match either ends it or spends the
  tick interval.\<close>

lemma exec_post:
  assumes "lifecycle_inv s" and "call \<noteq> MatchReset" and "lc_phase s = PostMatch"
  shows "lc_phase (lifecycle_exec call s) = PostMatch" "lc_winner (lifecycle_exec call s) = lc_winner s"
proof -
  have "clock_of (lifecycle_exec call s) = clock_of s"
    using exec_clock [OF assms(1,2)] assms(3) by (auto simp: clock_tick_def phase_clock)
  then show "lc_phase (lifecycle_exec call s) = PostMatch" "lc_winner (lifecycle_exec call s) = lc_winner s"
    using assms(3) by (auto simp: clock_of_def)
qed

lemma exec_in_match:
  assumes "lifecycle_inv s" and "call \<noteq> MatchReset" and "lc_phase s = InMatch"
  shows "lc_phase (lifecycle_exec call s) = PostMatch
    \<or> lc_phase (lifecycle_exec call s) = InMatch
      \<and> ck_left (clock_of (lifecycle_exec call s)) = ck_left (clock_of s) - tick_interval_of call
      \<and> 0 < ck_left (clock_of (lifecycle_exec call s))"
proof -
  have pos: "0 < ck_left (clock_of s)"
  proof -
    have "0 < lc_seconds s" "lc_accumulator s < 1000000000"
      using assms(1,3) by (simp_all add: lifecycle_inv_def clock_ok_def)
    moreover from this have "1 \<le> uint (lc_seconds s)" by (simp add: word_less_def)
    ultimately show ?thesis using assms(3) by (simp add: clock_of_def)
  qed
  from exec_clock [OF assms(1,2)] show ?thesis
  proof (elim disjE exE conjE)
    fix tick dt active combat deaths inventory
    assume call: "call = MatchTick tick dt active combat deaths inventory"
      and c: "clock_of (lifecycle_exec call s) = clock_tick (lc_config s) dt (well_attended (lc_config s) call)
          (sole_contender (lifecycle_exec call s))
          (resolve_winner (build_scoreboard (lifecycle_exec call s))) (clock_of s)"
    have "ck_phase (clock_of s) = InMatch" using assms(3) by (simp add: phase_clock)
    then have "ck_phase (clock_of (lifecycle_exec call s)) = PostMatch \<or>
        ck_phase (clock_of (lifecycle_exec call s)) = InMatch
        \<and> ck_left (clock_of (lifecycle_exec call s)) = ck_left (clock_of s) - max 0 dt
        \<and> 0 < ck_left (clock_of (lifecycle_exec call s))"
      unfolding c by (auto simp: clock_tick_def ck_finished_def split: option.split)
    then show ?thesis using call by (simp only: phase_clock tick_interval_of.simps)
  next
    assume "clock_of (lifecycle_exec call s) = clock_of s" "tick_interval_of call = 0"
    then show ?thesis using pos assms(3) by (metis diff_zero phase_clock)
  qed
qed

lemma left_bound: "lifecycle_inv s \<Longrightarrow> ck_left (clock_of s) \<le> 1000000000 * uint (match_duration_seconds (lc_config s))"
  by (auto simp: lifecycle_inv_def clock_ok_def clock_of_def word_le_def)

lemma run_config: "lifecycle_inv s \<Longrightarrow> lc_config (fold lifecycle_exec calls s) = lc_config s"
proof (induction calls arbitrary: s)
  case (Cons call calls)
  then show ?case using match_machine.exec_invar [of s call] exec_config [of s call] by simp
qed simp

lemma match_runs_out:
  "lifecycle_inv s \<Longrightarrow> MatchReset \<notin> set calls \<Longrightarrow> lc_phase s \<noteq> PreMatch
    \<Longrightarrow> ck_left (clock_of s) \<le> sum_list (List.map tick_interval_of calls) \<or> lc_phase s = PostMatch
    \<Longrightarrow> lc_phase (fold lifecycle_exec calls s) = PostMatch"
proof (induction calls arbitrary: s)
  case Nil
  have "0 < ck_left (clock_of s)" if "lc_phase s = InMatch"
    using exec_in_match [OF Nil.prems(1) _ that, of "MatchEnsure 0"] that
    using clock_core(1) [OF ensure_core, of 0 s] core_fields(2) [OF ensure_core, of 0 s] by auto
  with Nil show ?case by (cases "lc_phase s") auto
next
  case (Cons call calls)
  have inv: "lifecycle_inv (lifecycle_exec call s)" using match_machine.exec_invar [OF Cons.prems(1)] by simp
  have call: "call \<noteq> MatchReset" "MatchReset \<notin> set calls" using Cons.prems(2) by auto
  have "lc_phase (lifecycle_exec call s) \<noteq> PreMatch \<and>
      (ck_left (clock_of (lifecycle_exec call s)) \<le> sum_list (List.map tick_interval_of calls)
       \<or> lc_phase (lifecycle_exec call s) = PostMatch)"
  proof (cases "lc_phase s")
    case PostMatch
    then show ?thesis using exec_post [OF Cons.prems(1) call(1)] by simp
  next
    case InMatch
    then show ?thesis using exec_in_match [OF Cons.prems(1) call(1) InMatch] Cons.prems(4) by auto
  qed (use Cons.prems(3) in simp)
  then show ?case using Cons.IH [OF inv call(2)] by simp
qed

lemma countdown_runs:
  "lifecycle_inv s \<Longrightarrow> \<forall>call \<in> set calls. well_attended (lc_config s) call
    \<Longrightarrow> lc_phase (fold lifecycle_exec calls s) = PreMatch
    \<Longrightarrow> lc_phase s = PreMatch \<and> (calls \<noteq> [] \<longrightarrow> length calls < ck_countdown (clock_of s))"
proof (induction calls arbitrary: s)
  case (Cons call calls)
  have inv: "lifecycle_inv (lifecycle_exec call s)" using match_machine.exec_invar [OF Cons.prems(1)] by simp
  have att: "well_attended (lc_config s) call" "call \<noteq> MatchReset" using Cons.prems(2) by (auto elim: well_attended.elims)
  have ih: "lc_phase (lifecycle_exec call s) = PreMatch"
    "calls \<noteq> [] \<longrightarrow> length calls < ck_countdown (clock_of (lifecycle_exec call s))"
    using Cons.IH [OF inv] Cons.prems exec_config [OF Cons.prems(1), of call] by auto
  obtain tick dt active combat deaths inventory where
    call: "call = MatchTick tick dt active combat deaths inventory" using att(1) by (auto elim: well_attended.elims)
  have c: "clock_of (lifecycle_exec call s) = clock_tick (lc_config s) dt True
      (sole_contender (lifecycle_exec call s)) (resolve_winner (build_scoreboard (lifecycle_exec call s))) (clock_of s)"
    using tick_refines_clock [OF Cons.prems(1) prod.collapse [symmetric], of tick dt active combat deaths inventory]
      att(1) by (simp add: call)
  have "ck_phase (clock_of s) = PreMatch \<and> 1 < ck_countdown (clock_of s)
      \<and> ck_countdown (clock_of (lifecycle_exec call s)) = ck_countdown (clock_of s) - 1"
    using ih(1) unfolding phase_clock [symmetric] c
    by (auto simp: clock_tick_def ck_started_def ck_finished_def split: match_phase.splits if_splits option.splits)
  then show ?case using ih(2) by (auto simp: phase_clock)
qed simp

section \<open>The respawn budget\<close>

text \<open>How often a player can still come back: the respawns left, and the one that is pending.\<close>

definition record_credit :: "lifecycle_config \<Rightarrow> lifecycle_player option \<Rightarrow> nat" where
  "record_credit cfg v = (case v of None \<Rightarrow> unat (respawns_per_player cfg)
     | Some r \<Rightarrow> unat (lcp_respawns_remaining r) + (if lcp_pending r = None then 0 else 1))"

definition respawn_credit :: "lifecycle_sim \<Rightarrow> u32 \<Rightarrow> nat" where
  "respawn_credit s p = (if lc_phase s = PreMatch then unat (respawns_per_player (lc_config s))
     else record_credit (lc_config s) (umap_find (lc_players s) p))"

lemma record_credit_simps [simp]:
  "record_credit cfg None = unat (respawns_per_player cfg)"
  "record_credit cfg (Some r) = unat (lcp_respawns_remaining r) + (if lcp_pending r = None then 0 else 1)"
  by (simp_all add: record_credit_def)

lemma credit_ensure [simp]: "respawn_credit (lifecycle_ensure q s) p = respawn_credit s p"
proof (cases "p = q")
  case True
  then show ?thesis
    by (cases "umap_find (lc_players s) q") (simp_all add: respawn_credit_def ensure_found fresh_record_def)
qed (simp add: respawn_credit_def ensure_other)

lemma credit_put:
  assumes "umap_find (lc_players s) q = Some r"
    and "record_credit (lc_config s) (Some r') \<le> record_credit (lc_config s) (Some r)"
  shows "respawn_credit (s\<lparr>lc_players := umap_put q r' (lc_players s)\<rparr>) p \<le> respawn_credit s p"
  using assms by (simp add: respawn_credit_def find_put)

lemma credit_cong: "lc_players s' = lc_players s \<Longrightarrow> lc_config s' = lc_config s \<Longrightarrow> lc_phase s' = lc_phase s
    \<Longrightarrow> respawn_credit s' p = respawn_credit s p"
  by (simp add: respawn_credit_def)

lemma credit_fold: "(\<And>x s. respawn_credit (f x s) p \<le> respawn_credit s p)
    \<Longrightarrow> respawn_credit (fold f xs s) p \<le> respawn_credit s p"
  by (induction xs arbitrary: s) (auto intro: order.trans)

lemma credit_mark: "respawn_credit (mark_connected active s) p = respawn_credit s p"
proof -
  have "respawn_credit (fold lifecycle_ensure ps s') p = respawn_credit s' p" for ps s'
    by (induction ps arbitrary: s') simp_all
  moreover have "respawn_credit (s'\<lparr>lc_players := umap_update_all (\<lambda>p r. r\<lparr>lcp_connected := p \<in> set active\<rparr>)
      (lc_players s')\<rparr>) p = respawn_credit s' p" for s'
    by (cases "umap_find (lc_players s') p") (simp_all add: respawn_credit_def find_update_all)
  ultimately show ?thesis unfolding mark_connected_def Let_def by metis
qed

lemma credit_combat: "respawn_credit (note_combat c s) p \<le> respawn_credit s p"
proof -
  let ?s = "lifecycle_ensure (pc_player_id c) s"
  obtain r where r: "umap_find (lc_players ?s) (pc_player_id c) = Some r" using ensure_found by blast
  show ?thesis
    using credit_put [OF r, of "r\<lparr>lcp_alive := pc_alive c\<rparr>" p]
    by (simp add: note_combat_def Let_def r)
qed

lemma credit_inventory: "respawn_credit (snd (note_inventory i st)) p \<le> respawn_credit (snd st) p"
proof -
  let ?s = "lifecycle_ensure (sum_player_id i) (snd st)"
  obtain r where r: "umap_find (lc_players ?s) (sum_player_id i) = Some r" using ensure_found by blast
  show ?thesis
    using credit_put [OF r, of "r\<lparr>lcp_coins := sum_total_value i\<rparr>" p]
    by (simp add: note_inventory_def Let_def case_prod_beta r)
qed

lemma credit_tick_table: "respawn_credit (snd (tick_table active combat inventory s)) p \<le> respawn_credit s p"
proof -
  have "respawn_credit (snd (fold note_inventory is st)) p \<le> respawn_credit (snd st) p" for "is" st
  proof (induction "is" arbitrary: st)
    case (Cons i "is")
    from order.trans [OF Cons.IH credit_inventory] show ?case by simp
  qed simp
  moreover have "respawn_credit (fold note_combat combat (mark_connected active s)) p \<le> respawn_credit s p"
    using credit_fold [where f = note_combat, OF credit_combat] by (metis credit_mark)
  ultimately show ?thesis unfolding tick_table_def by (metis order.trans snd_conv)
qed

lemma credit_pre_match: "pre_match_step tick s = (c, started, s') \<Longrightarrow> respawn_credit s' p \<le> respawn_credit s p"
proof (cases rule: pre_match_cases [of s tick])
  case start
  assume "pre_match_step tick s = (c, started, s')"
  with start have s': "s' = enter_in_match tick (s\<lparr>lc_pre_ticks := 0\<rparr>)" by simp
  show ?thesis
    unfolding s' using start(1)
    by (cases "umap_find (lc_players s) p") (simp_all add: respawn_credit_def enter_in_match_def find_update_all)
qed (auto simp: respawn_credit_def)

lemma credit_count_death:
  "record_credit cfg (Some (count_death tick s v)) \<le> record_credit cfg (Some v)"
proof (cases "lcp_respawns_remaining v = 0")
  case False
  then have "unat (lcp_respawns_remaining v - 1) = unat (lcp_respawns_remaining v) - 1"
    "0 < unat (lcp_respawns_remaining v)" by (simp_all add: unat_minus_one unat_gt_0)
  with False show ?thesis by (simp add: count_death_def word_neq_0_conv)
qed (simp add: count_death_def)

lemma credit_death:
  assumes "note_death tick d (handled, changed, s) = (handled', changed', s')"
  shows "respawn_credit s' p \<le> respawn_credit s p"
proof -
  let ?s = "lifecycle_ensure (death_victim d) s"
  have put: "respawn_credit (?s\<lparr>lc_players := umap_put (death_victim d) (count_death tick ?s v) (lc_players ?s)\<rparr>) p
      \<le> respawn_credit s p" if "umap_find (lc_players ?s) (death_victim d) = Some v" for v
    using credit_put [OF that credit_count_death, of tick ?s p] by simp
  show ?thesis
  proof (cases rule: note_death_cases [of d handled tick changed s])
    case skip
    with assms show ?thesis by simp
  next
    case (self v)
    with assms put show ?thesis by auto
  next
    case (killed v s1 k)
    have "respawn_credit ((lifecycle_ensure (death_killer d) s1)\<lparr>lc_players := umap_put (death_killer d)
        (k\<lparr>lcp_kills := lcp_kills k + 1\<rparr>) (lc_players (lifecycle_ensure (death_killer d) s1))\<rparr>) p \<le> respawn_credit s1 p"
      using credit_put [OF killed(5), of "k\<lparr>lcp_kills := lcp_kills k + 1\<rparr>" p] by simp
    with assms put [OF killed(2)] killed(3,6) show ?thesis by auto
  qed
qed

lemma credit_deaths: "respawn_credit (snd (deaths_step tick deaths st)) p \<le> respawn_credit (snd st) p"
proof -
  have "respawn_credit (snd (snd (fold (note_death tick) ds acc))) p \<le> respawn_credit (snd (snd acc)) p" for ds acc
  proof (induction ds arbitrary: acc)
    case (Cons d ds)
    have "respawn_credit (snd (snd (note_death tick d acc))) p \<le> respawn_credit (snd (snd acc)) p"
      using credit_death [of tick d "fst acc" "fst (snd acc)" "snd (snd acc)"] by (metis prod.collapse)
    with Cons [of "note_death tick d acc"] show ?case by simp
  qed simp
  from this [of _ "([], fst st, snd st)"] show ?thesis by (simp add: deaths_step_def case_prod_beta)
qed

text \<open>Every respawn is paid from the credit.\<close>

lemma credit_respawn:
  assumes "lc_phase s = InMatch" and "respawn_one tick q (respawned, changed, s) = (respawned', changed', s')"
  shows "count_list respawned' p + respawn_credit s' p \<le> count_list respawned p + respawn_credit s p
    \<and> lc_phase s' = InMatch"
proof (cases rule: respawn_one_cases [of tick q respawned changed s])
  case none
  with assms show ?thesis by simp
next
  case (cleared r)
  with assms credit_put [OF cleared(1), of "r\<lparr>lcp_pending := None\<rparr>" p] show ?thesis by auto
next
  case (returned r due)
  with assms show ?thesis by (auto simp: respawn_credit_def find_put)
qed

lemma credit_respawns:
  assumes "lc_phase s = InMatch" and "fold (respawn_one tick) qs (respawned, changed, s) = (respawned', changed', s')"
  shows "count_list respawned' p + respawn_credit s' p \<le> count_list respawned p + respawn_credit s p
    \<and> lc_phase s' = InMatch"
  using assms
proof (induction qs arbitrary: respawned changed s)
  case (Cons q qs)
  obtain r1 c1 s1 where 1: "respawn_one tick q (respawned, changed, s) = (r1, c1, s1)" by (metis prod.collapse)
  from credit_respawn [OF Cons.prems(1) 1, of p] Cons.IH [of s1 r1 c1] Cons.prems(2) 1
  show ?case by auto
qed simp

lemma credit_post: "respawn_credit (enter_post_match tick w s) p \<le> respawn_credit s p" if "lc_phase s = InMatch"
  using that by (simp add: respawn_credit_def enter_post_match_def)

lemma tick_respawns:
  assumes tick: "lifecycle_resolve_tick tick dt active combat deaths inventory s = (out, s')"
  shows "count_list (lr_respawned out) p + respawn_credit s' p \<le> respawn_credit s p"
proof -
  obtain changed3 s3 state4 started s4 expired s5 changed6 s6 changed7 state7 s7 state8 where
    p3: "tick_table active combat inventory s = (changed3, s3)" and
    p4: "pre_match_step tick s3 = (state4, started, s4)" and p5: "timer_step dt started s4 = (expired, s5)" and
    p6: "deaths_step tick deaths (changed3, s5) = (changed6, s6)" and
    p7: "in_match_step tick (changed6, s6) = (lr_respawned out, changed7, state7, s7)" and
    p8: "expiry_step tick expired s7 = (state8, s')"
    by (rule lifecycle_tick_parts [OF tick])
  have 4: "respawn_credit s4 p \<le> respawn_credit s p"
    using credit_tick_table [of active combat inventory s p] credit_pre_match [OF p4, of p] p3 by simp
  have 5: "respawn_credit s5 p = respawn_credit s4 p" using timer_keeps [OF p5] by (intro credit_cong)
  have 6: "respawn_credit s6 p \<le> respawn_credit s5 p" using credit_deaths [of tick deaths "(changed3, s5)" p] p6 by simp
  have 7: "count_list (lr_respawned out) p + respawn_credit s7 p \<le> respawn_credit s6 p"
  proof (cases rule: in_match_step_cases [of s6 tick changed6])
    case other
    with p7 show ?thesis by simp
  next
    case (running respawned changed1 s1)
    with p7 credit_respawns [OF running(1,2), of p] show ?thesis by simp
  next
    case (won respawned changed1 s1 q)
    note r = credit_respawns [OF won(1,2), of p]
    with won(4) p7 credit_post [of s1 tick "Some q" p] show ?thesis by auto
  qed
  have 8: "respawn_credit s' p \<le> respawn_credit s7 p"
    using p8 credit_post [of s7 tick _ p] by (auto simp: expiry_step_def split: if_split_asm)
  from 4 5 6 7 8 show ?thesis by linarith
qed

text \<open>The ids that the ticks of a sequence of calls report as respawned.\<close>

primrec match_respawns :: "lifecycle_call list \<Rightarrow> lifecycle_sim \<Rightarrow> u32 list" where
  "match_respawns [] s = []"
| "match_respawns (call # calls) s = (case call of
       MatchTick tick dt active combat deaths inventory \<Rightarrow>
         lr_respawned (fst (lifecycle_resolve_tick tick dt active combat deaths inventory s))
     | _ \<Rightarrow> []) @ match_respawns calls (lifecycle_exec call s)"

lemma credit_remove: "respawn_credit (lifecycle_remove q s) p \<le> respawn_credit s p"
proof (cases "umap_find (lc_players s) q")
  case (Some r)
  then show ?thesis
    using credit_put [OF Some, of "r\<lparr>lcp_connected := False, lcp_pending := None\<rparr>" p]
    by (simp add: lifecycle_remove_def)
qed (simp add: lifecycle_remove_def)

lemma respawns_within_credit:
  "MatchReset \<notin> set calls \<Longrightarrow> count_list (match_respawns calls s) p \<le> respawn_credit s p"
proof (induction calls arbitrary: s)
  case (Cons call calls)
  have ih: "count_list (match_respawns calls (lifecycle_exec call s)) p \<le> respawn_credit (lifecycle_exec call s) p"
    using Cons by simp
  show ?case
  proof (cases call)
    case (MatchTick tick dt active combat deaths inventory)
    then show ?thesis
      using ih tick_respawns [OF prod.collapse [symmetric], of tick dt active combat deaths inventory s p]
      by (simp add: count_list_append)
  next
    case (MatchRemove q)
    then show ?thesis using ih credit_remove [of q s p] by simp
  next
    case (MatchEnsure q)
    then show ?thesis using ih by simp
  qed (use Cons.prems in auto)
qed simp

lemma scoreboard_all: "table_ok s \<Longrightarrow> build_scoreboard s = std_sort ranking_better (List.map (\<lambda>(p, r). to_score r) (lc_players s))"
proof -
  assume ok: "table_ok s"
  have "filter (\<lambda>(p, r). lcp_participated r) (lc_players s) = lc_players s"
    using table_okD(2) [OF ok] in_set_find [OF table_okD(1) [OF ok]] by (auto simp: filter_id_conv record_ok_def)
  then show ?thesis by (simp add: build_scoreboard_def)
qed

lemma scoreboard_ids: "table_ok s \<Longrightarrow> List.map sc_player_id (List.map (\<lambda>(p, r). to_score r) (lc_players s)) = umap_keys (lc_players s)"
  using table_okD(2) [of s] in_set_find [OF table_okD(1), of s]
  by (auto simp: to_score_def record_ok_def)

lemma scoreboard_sorted: "table_ok s \<Longrightarrow> sorted_wrt ranking_better (build_scoreboard s)"
proof -
  assume ok: "table_ok s"
  let ?xs = "List.map (\<lambda>(p, r). to_score r) (lc_players s)"
  have d: "distinct (List.map sc_player_id ?xs)" unfolding scoreboard_ids [OF ok] by (rule table_okD(1) [OF ok])
  have "inj_on (\<lambda>e. (- uint (sc_kills e), - sc_coins e, uint (sc_deaths e), sc_player_id e)) (set ?xs)"
    using d by (auto simp: distinct_map inj_on_def)
  moreover have "distinct ?xs" using d distinct_map [of sc_player_id ?xs] by blast
  ultimately show ?thesis unfolding scoreboard_all [OF ok] by (intro ranking.strict_sorted)
qed

lemma scoreboard_members: "table_ok s \<Longrightarrow> e \<in> set (build_scoreboard s) \<longleftrightarrow> (\<exists>p r. umap_find (lc_players s) p = Some r \<and> e = to_score r)"
proof -
  assume ok: "table_ok s"
  have "e \<in> set (build_scoreboard s) \<longleftrightarrow> (\<exists>p r. (p, r) \<in> set (lc_players s) \<and> e = to_score r)"
    unfolding scoreboard_all [OF ok] by force
  then show ?thesis by (simp only: in_set_find [OF table_okD(1) [OF ok]])
qed

lemma set_contenders: "table_ok s \<Longrightarrow> p \<in> set (contenders s) \<longleftrightarrow>
    (\<exists>r. umap_find (lc_players s) p = Some r \<and> lcp_connected r \<and> \<not> lcp_eliminated r)"
proof -
  assume ok: "table_ok s"
  have "p \<in> set (contenders s) \<longleftrightarrow> (\<exists>r. (p, r) \<in> set (lc_players s) \<and> lcp_connected r \<and> \<not> lcp_eliminated r)"
    by (force simp: contenders_def)
  then show ?thesis by (simp only: in_set_find [OF table_okD(1) [OF ok]])
qed

lemma sole_contender_iff:
  assumes "table_ok s"
  shows "sole_contender s = Some p \<longleftrightarrow> set (contenders s) = {p}"
proof -
  have "distinct (contenders s)"
    unfolding contenders_def using distinct_map_filter [OF table_okD(1) [OF assms]] by simp
  then have "set (contenders s) = {p} \<longleftrightarrow> contenders s = [p]"
    by (cases "contenders s" rule: remdups_adj.cases) auto
  then show ?thesis by (auto simp: sole_contender_def split: list.splits)
qed

lemma no_pending_respawns:
  assumes "\<And>q r. umap_find (lc_players s) q = Some r \<Longrightarrow> lcp_pending r = None"
  shows "fold (respawn_one tick) qs (respawned, changed, s) = (respawned, changed, s)"
proof (induction qs)
  case (Cons q qs)
  have "respawn_one tick q (respawned, changed, s) = (respawned, changed, s)"
    using assms by (cases "umap_find (lc_players s) q") (simp_all add: respawn_one_def)
  then show ?case using Cons by simp
qed simp

section \<open>Properties\<close>

text \<open>The state is well formed after any calls: every record belongs to its key, has at most the
  respawn budget left, is not alive while a respawn is pending, and is eliminated only with no respawn left and
  none pending; a running match has time left, a finished one has none, and only a finished one has a winner.\<close>

theorem lifecycle_well_formed:
  assumes "s = fold lifecycle_exec calls (lifecycle_init c)"
  shows "lc_config s = sanitize_lifecycle_config c
    \<and> (\<forall>p r. umap_find (lc_players s) p = Some r \<longrightarrow> record_ok (respawns_per_player (lc_config s)) p r)
    \<and> (lc_phase s = InMatch \<longrightarrow> 0 < lc_seconds s \<and> lc_seconds s \<le> match_duration_seconds (lc_config s)
        \<and> 0 \<le> lc_accumulator s \<and> lc_accumulator s < 1000000000)
    \<and> (lc_phase s = PostMatch \<longrightarrow> lc_seconds s = 0 \<and> lc_pre_ticks s = 0)
    \<and> (lc_phase s \<noteq> PostMatch \<longrightarrow> lc_winner s = None)"
proof -
  have inv: "lifecycle_inv s" unfolding assms by (rule match_machine.run) auto
  have "lc_config s = sanitize_lifecycle_config c"
    unfolding assms by (simp add: run_config lifecycle_init_inv) (simp add: lifecycle_init_def Let_def)
  then show ?thesis
    using inv by (cases "lc_phase s") (auto simp: lifecycle_inv_def table_ok_def clock_ok_def)
qed

text \<open>C5: The simulation refines the match clock: every tick acts on the phase, the countdown, the time
  left and the winner as the abstract clock does, which is told whether the participants of the tick are enough, who
  is the only contender left and who leads the scoreboard after it.\<close>

theorem match_tick_refines_clock:
  assumes "s = fold lifecycle_exec calls (lifecycle_init c)"
    and "lifecycle_resolve_tick tick dt active combat deaths inventory s = (out, s')"
  shows "clock_of s' = clock_tick (lc_config s) dt
    (enough_players (lc_config s) (participants active combat inventory))
    (sole_contender s') (resolve_winner (build_scoreboard s')) (clock_of s)
    \<and> st_phase (lr_state out) = lc_phase s' \<and> lr_scoreboard out = build_scoreboard s'"
proof -
  have inv: "lifecycle_inv s" unfolding assms(1) by (rule match_machine.run) auto
  from lifecycle_tick_parts [OF assms(2)] have "lr_state out = build_state dt s'" "lr_scoreboard out = build_scoreboard s'"
    by metis+
  then show ?thesis using tick_refines_clock [OF inv assms(2)] by (simp add: build_state_def)
qed

text \<open>C14: Every match ends: from any state before a match, after \<open>m\<close> ticks with enough players, where \<open>m\<close> covers
  the countdown, and \<open>n\<close> further ones that together last as long as the match, the phase is
  post match, whatever happens in them, and it stays so until a reset.\<close>

theorem match_ends:
  assumes "s = fold lifecycle_exec calls (lifecycle_init c)" and "lc_phase s = PreMatch"
    and "\<forall>call \<in> set (ticks1 @ ticks2). well_attended (lc_config s) call"
    and "\<forall>call \<in> set (ticks1 @ ticks2). tick_interval_of call = dt"
    and "max 1 (unat (pre_match_ticks (lc_config s))) \<le> length ticks1"
    and "1000000000 * uint (match_duration_seconds (lc_config s)) \<le> int (length ticks2) * dt"
    and "MatchReset \<notin> set later"
  shows "lc_phase (fold lifecycle_exec (ticks1 @ ticks2 @ later) s) = PostMatch"
proof -
  have inv: "lifecycle_inv s" unfolding assms(1) by (rule match_machine.run) auto
  define s1 where "s1 = fold lifecycle_exec ticks1 s"
  have inv1: "lifecycle_inv s1" unfolding s1_def by (rule match_machine.run_from [OF inv]) auto
  have "ck_countdown (clock_of s) \<le> unat (pre_match_ticks (lc_config s))"
    using inv assms(2) by (simp add: clock_of_def lifecycle_inv_def clock_ok_def word_le_nat_alt)
  moreover have "ticks1 \<noteq> []" using assms(5) by auto
  ultimately have ph: "lc_phase s1 \<noteq> PreMatch"
    using countdown_runs [OF inv, of ticks1] assms(3,5) by (auto simp: s1_def)
  have "sum_list (List.map tick_interval_of ticks2) = int (length ticks2) * dt"
    using assms(4) by (induction ticks2) (auto simp: algebra_simps)
  moreover have "0 \<le> sum_list (List.map tick_interval_of later)"
    by (rule sum_list_nonneg) auto
  ultimately have "ck_left (clock_of s1) \<le> sum_list (List.map tick_interval_of (ticks2 @ later))"
    using left_bound [OF inv1] run_config [OF inv, of ticks1] assms(6) by (simp add: s1_def)
  moreover have "call \<noteq> MatchReset" if "call \<in> set ticks2" for call
    using bspec [OF assms(3), of call] that by auto
  then have "MatchReset \<notin> set (ticks2 @ later)" using assms(7) by auto
  ultimately have "lc_phase (fold lifecycle_exec (ticks2 @ later) s1) = PostMatch"
    using match_runs_out [OF inv1 _ ph] by blast
  then show ?thesis by (simp add: s1_def)
qed

text \<open>C24: A player respawns at most as often per match as the configuration says: over any run without a reset
  the ticks report no player more often than the respawn budget.\<close>

theorem respawns_within_budget:
  assumes "MatchReset \<notin> set calls"
  shows "count_list (match_respawns calls (lifecycle_init c)) p \<le> unat (respawns_per_player c)"
proof -
  have "respawn_credit (lifecycle_init c) p = unat (respawns_per_player c)"
    by (simp add: respawn_credit_def lifecycle_init_def Let_def sanitize_lifecycle_config_def)
  then show ?thesis using respawns_within_credit [OF assms, of "lifecycle_init c" p] by simp
qed

text \<open>C25: When a tick ends a match, the winner is the only connected player that is not eliminated or, the time
  being over, the head of the scoreboard, and nobody on the scoreboard ranks better.\<close>

theorem match_winner_is_best:
  assumes "s = fold lifecycle_exec calls (lifecycle_init c)" and "lc_phase s = InMatch"
    and "lifecycle_resolve_tick tick dt active combat deaths inventory s = (out, s')"
    and "lc_phase s' = PostMatch"
  shows "(\<exists>p. lc_winner s' = Some p \<and> (\<forall>q. (\<exists>r. umap_find (lc_players s') q = Some r \<and> lcp_connected r
        \<and> \<not> lcp_eliminated r) \<longleftrightarrow> q = p))
    \<or> ck_left (clock_of s) \<le> max 0 dt \<and> lc_winner s' = resolve_winner (lr_scoreboard out)
      \<and> (\<forall>e \<in> set (lr_scoreboard out). case lr_scoreboard out of
           [] \<Rightarrow> False | best # rest \<Rightarrow> \<not> ranking_better e best)"
proof -
  have inv: "lifecycle_inv s" unfolding assms(1) by (rule match_machine.run) auto
  note r = tick_refines_clock [OF inv assms(3)]
  have ok: "table_ok s'" using r by (simp add: lifecycle_inv_def)
  have board: "lr_scoreboard out = build_scoreboard s'" using lifecycle_tick_parts [OF assms(3)] by metis
  have w: "ck_winner (clock_of s') = lc_winner s'" "ck_phase (clock_of s') = PostMatch" "ck_phase (clock_of s) = InMatch"
    using assms(2,4) by (simp_all add: clock_of_def)
  show ?thesis
  proof (cases "sole_contender s'")
    case (Some p)
    then have "lc_winner s' = Some p"
      using r w by (simp add: clock_tick_def ck_finished_def)
    then show ?thesis using Some sole_contender_iff [OF ok] set_contenders [OF ok] by blast
  next
    case None
    then have "ck_left (clock_of s) \<le> max 0 dt" "lc_winner s' = resolve_winner (build_scoreboard s')"
      using r w by (auto simp: clock_tick_def ck_finished_def split: if_split_asm)
    moreover have "\<not> ranking_better e best" if b: "build_scoreboard s' = best # rest" and e: "e \<in> set (build_scoreboard s')" for e best rest
    proof (cases "e = best")
      case True
      then show ?thesis using ranking.less_asym by blast
    next
      case False
      then have "ranking_better best e" using scoreboard_sorted [OF ok] b e by auto
      then show ?thesis by (rule ranking.less_asym)
    qed
    then have "\<forall>e \<in> set (build_scoreboard s'). case build_scoreboard s' of [] \<Rightarrow> False | best # rest \<Rightarrow> \<not> ranking_better e best"
      by (auto split: list.split)
    ultimately show ?thesis by (simp add: board)
  qed
qed

text \<open>With the default of one player to start, a single player wins at once: the tick that starts the
  match finds one contender and ends it, so no match with fewer than two participants is ever seen running.\<close>

theorem solo_match_ends_at_start:
  assumes "s = fold lifecycle_exec calls (lifecycle_init c)" and "lc_phase s = PreMatch"
    and "unat (lc_pre_ticks s) \<le> 1" and "min_players_to_start (lc_config s) = 1"
    and "participants active combat inventory = {p}"
    and "lifecycle_resolve_tick tick dt active combat [] inventory s = (out, s')"
  shows "lc_phase s' = PostMatch \<and> lc_winner s' = Some p"
proof -
  have inv: "lifecycle_inv s" unfolding assms(1) by (rule match_machine.run) auto
  obtain changed3 s3 state4 started s4 expired s5 changed6 s6 changed7 state7 s7 state8 where
    p3: "tick_table active combat inventory s = (changed3, s3)" and
    p4: "pre_match_step tick s3 = (state4, started, s4)" and p5: "timer_step dt started s4 = (expired, s5)" and
    p6: "deaths_step tick [] (changed3, s5) = (changed6, s6)" and
    p7: "in_match_step tick (changed6, s6) = (lr_respawned out, changed7, state7, s7)" and
    p8: "expiry_step tick expired s7 = (state8, s')"
    by (rule lifecycle_tick_parts [OF assms(6)])
  have t3: "table_ok s3" "lc_core s3 = lc_core s" "connected_ids s3 = {p}"
    using tick_table_ok [of s active combat inventory] inv tick_table_core [of active combat inventory s]
      tick_table_connected [of active combat inventory s] assms(5) by (simp_all add: p3 lifecycle_inv_def)
  note c3 = core_fields [OF t3(2)]
  have s4: "s4 = enter_in_match tick (s3\<lparr>lc_pre_ticks := 0\<rparr>)" "started"
    by (cases rule: pre_match_cases [of s3 tick];
        use p4 assms(2,3,4) c3 connected_count_eq [OF t3(1)] t3(3) in auto)+
  have s6: "s6 = s4"
    using p5 p6 s4(2) by (simp add: timer_step_def deaths_step_def)
  have fresh: "lcp_pending r = None \<and> \<not> lcp_eliminated r" if "umap_find (lc_players s4) q = Some r" for q r
    using that by (auto simp: s4(1) enter_in_match_def find_update_all)
  have t4: "table_ok s4" "connected_ids s4 = {p}" using pre_match_keeps [OF t3(1) p4] t3(3) by simp_all
  have "set (contenders s4) = {p}"
  proof -
    have "q \<in> set (contenders s4) \<longleftrightarrow> q \<in> connected_ids s4" for q
      using set_contenders [OF t4(1)] fresh by (auto simp: connected_ids_def)
    then show ?thesis using t4(2) by blast
  qed
  then have sole: "sole_contender s4 = Some p" using sole_contender_iff [OF t4(1)] by blast
  have ph: "lc_phase s6 = InMatch" by (simp add: s6 s4(1) enter_in_match_def)
  have none: "fold (respawn_one tick) qs ([], changed6, s6) = ([], changed6, s6)" for qs
    using fresh by (intro no_pending_respawns) (auto simp: s6)
  have "s7 = enter_post_match tick (Some p) s4"
    by (cases rule: in_match_step_cases [of s6 tick changed6])
      (use p7 ph none sole s6 in auto)
  then show ?thesis using p8 by (auto simp: expiry_step_def enter_post_match_def)
qed

section \<open>The properties at a concrete match\<close>

definition demo_match_config :: lifecycle_config where
  "demo_match_config = \<lparr>pre_match_ticks = 1, match_duration_seconds = 1, respawns_per_player = 1,
     respawn_delay_ticks = 1, min_players_to_start = 1\<rparr>"

definition demo_seen :: "u32 \<Rightarrow> bool \<Rightarrow> combat_player" where
  "demo_seen p living = \<lparr>pc_player_id = p, pc_health = (if living then 100 else 0), pc_alive = living, pc_last_shot_seq = 0\<rparr>"

definition demo_match_tick :: "u64 \<Rightarrow> death_resolution list \<Rightarrow> lifecycle_call" where
  "demo_match_tick tick deaths = MatchTick tick 600000000 [1, 2] [demo_seen 1 True, demo_seen 2 True] deaths []"

definition demo_match_death :: death_resolution where
  "demo_match_death = \<lparr>death_tick = 2, death_victim = 1, death_killer = 2, death_seq = 1, death_weapon_id = ''rifle''\<rparr>"

definition demo_match :: lifecycle_sim where
  "demo_match = fold lifecycle_exec [demo_match_tick 1 [], demo_match_tick 2 [demo_match_death]]
     (lifecycle_init demo_match_config)"

text \<open>The match after the two ticks, and the third tick, in which the time runs out.\<close>

definition demo_last_tick :: "lifecycle_result \<times> lifecycle_sim" where
  "demo_last_tick = lifecycle_resolve_tick 3 600000000 [1, 2] [demo_seen 1 True, demo_seen 2 True] [] [] demo_match"

lemma demo_match_values:
  "lc_phase demo_match = InMatch \<and> lc_seconds demo_match = 1 \<and> lc_accumulator demo_match = 600000000
   \<and> lc_phase (snd demo_last_tick) = PostMatch \<and> lc_winner (snd demo_last_tick) = Some 2
   \<and> lr_respawned (fst demo_last_tick) = [1]"
  by code_simp

lemma lifecycle_well_formed_witness:
  "0 < lc_seconds demo_match \<and> lc_accumulator demo_match < 1000000000 \<and> lc_winner demo_match = None"
  using lifecycle_well_formed [OF demo_match_def] demo_match_values by simp

lemma match_tick_refines_clock_witness:
  "lc_phase (snd demo_last_tick) = PostMatch \<and> clock_of (snd demo_last_tick)
     = clock_tick (lc_config demo_match) 600000000
        (enough_players (lc_config demo_match) (participants [1, 2] [demo_seen 1 True, demo_seen 2 True] []))
        (sole_contender (snd demo_last_tick)) (resolve_winner (build_scoreboard (snd demo_last_tick))) (clock_of demo_match)"
  using match_tick_refines_clock [OF demo_match_def, of 3 600000000 "[1, 2]" "[demo_seen 1 True, demo_seen 2 True]" "[]" "[]"
      "fst demo_last_tick" "snd demo_last_tick"] demo_match_values
  by (simp add: demo_last_tick_def [symmetric])

lemma match_ends_witness:
  "lc_phase (fold lifecycle_exec ([demo_match_tick 1 []] @ [demo_match_tick 2 [], demo_match_tick 3 []] @ [MatchRemove 1])
     (lifecycle_init demo_match_config)) = PostMatch"
proof (rule match_ends [where calls = "[]" and c = demo_match_config and dt = 600000000])
  show "\<forall>call \<in> set ([demo_match_tick 1 []] @ [demo_match_tick 2 [], demo_match_tick 3 []]).
      well_attended (lc_config (lifecycle_init demo_match_config)) call"
    by (simp add: demo_match_tick_def enough_players_def participants_def demo_seen_def lifecycle_init_def Let_def
        sanitize_lifecycle_config_def demo_match_config_def)
qed (simp_all add: lifecycle_init_def Let_def sanitize_lifecycle_config_def demo_match_config_def demo_match_tick_def)

lemma respawns_within_budget_witness:
  "count_list (match_respawns [demo_match_tick 1 [], demo_match_tick 2 [demo_match_death], demo_match_tick 3 []]
     (lifecycle_init demo_match_config)) 1 \<le> 1"
  using respawns_within_budget [of "[demo_match_tick 1 [], demo_match_tick 2 [demo_match_death], demo_match_tick 3 []]"
      demo_match_config 1]
  by (simp add: demo_match_tick_def demo_match_config_def del: match_respawns.simps)

lemma match_winner_is_best_witness:
  "lc_winner (snd demo_last_tick) = Some 2 \<and> ((\<exists>p. lc_winner (snd demo_last_tick) = Some p
      \<and> (\<forall>q. (\<exists>r. umap_find (lc_players (snd demo_last_tick)) q = Some r \<and> lcp_connected r \<and> \<not> lcp_eliminated r) \<longleftrightarrow> q = p))
    \<or> lc_winner (snd demo_last_tick) = resolve_winner (lr_scoreboard (fst demo_last_tick)))"
  using match_winner_is_best [OF demo_match_def, of 3 600000000 "[1, 2]" "[demo_seen 1 True, demo_seen 2 True]" "[]" "[]"
      "fst demo_last_tick" "snd demo_last_tick"] demo_match_values
  by (auto simp: demo_last_tick_def [symmetric])

lemma solo_match_ends_at_start_witness:
  "lc_winner (snd (lifecycle_resolve_tick 1 600000000 [7] [demo_seen 7 True] [] [] (lifecycle_init demo_match_config))) = Some 7"
  using solo_match_ends_at_start [of "lifecycle_init demo_match_config" "[]" demo_match_config "[7]" "[demo_seen 7 True]" "[]" 7
      1 600000000, OF _ _ _ _ _ prod.collapse [symmetric]]
  by (simp add: lifecycle_init_def Let_def sanitize_lifecycle_config_def demo_match_config_def participants_def demo_seen_def)

end
