(* ===== verification/Json_Api.thy ===== *)
theory Json_Api
  imports Floating
begin

text \<open>
  The interface of nlohmann::json, the third-party document type of the wire format and of the
  configuration. Its code is not part of the repository, so every definition that uses it takes the
  operations as a parameter, the record \<open>json_api\<close>: the type of a value, the accessors, the
  constructors, and the text form. The locale \<open>json_library\<close> states what the library documents of
  them; theory Json_Text gives a document type that satisfies it.

  \<^item> \<open>jelems\<close> are the elements of an array, or the values of an object in the order of their keys.
  \<^item> \<open>contains\<close>, \<open>operator[]\<close> of a key that is present and \<open>value(key, default)\<close> are all reads of \<open>jfind\<close>.
  \<^item> \<open>get<int64_t>()\<close> of an unsigned number reinterprets its 64 bits, and \<open>is_number_integer()\<close> is
    true of unsigned numbers too, as the library documents.
  \<^item> \<open>parse(text, nullptr, false)\<close> gives \<open>None\<close> where the library gives a discarded value.
\<close>

datatype json_type = J_Null | J_Object | J_Array | J_String | J_Boolean | J_Integer | J_Unsigned | J_Float

record 'j json_api =
  jtype :: "'j \<Rightarrow> json_type"
  jfind :: "'j \<Rightarrow> string \<Rightarrow> 'j option"
  jelems :: "'j \<Rightarrow> 'j list"
  jstring :: "'j \<Rightarrow> string"
  jbool :: "'j \<Rightarrow> bool"
  ji64 :: "'j \<Rightarrow> int"
  ju64 :: "'j \<Rightarrow> u64"
  jdouble :: "'j \<Rightarrow> fp"
  jnull :: 'j
  jof_string :: "string \<Rightarrow> 'j"
  jof_bool :: "bool \<Rightarrow> 'j"
  jof_int :: "int \<Rightarrow> 'j"
  jof_uint :: "u64 \<Rightarrow> 'j"
  jof_float :: "fp \<Rightarrow> 'j"
  jof_array :: "'j list \<Rightarrow> 'j"
  jof_object :: "(string \<times> 'j) list \<Rightarrow> 'j"
  jdump :: "'j \<Rightarrow> string"
  jparse :: "string \<Rightarrow> 'j option"

section \<open>The reads of the code\<close>

definition is_object :: "'j json_api \<Rightarrow> 'j \<Rightarrow> bool" where "is_object J v \<longleftrightarrow> jtype J v = J_Object"
definition is_array :: "'j json_api \<Rightarrow> 'j \<Rightarrow> bool" where "is_array J v \<longleftrightarrow> jtype J v = J_Array"
definition is_string :: "'j json_api \<Rightarrow> 'j \<Rightarrow> bool" where "is_string J v \<longleftrightarrow> jtype J v = J_String"
definition is_boolean :: "'j json_api \<Rightarrow> 'j \<Rightarrow> bool" where "is_boolean J v \<longleftrightarrow> jtype J v = J_Boolean"

definition is_number_unsigned :: "'j json_api \<Rightarrow> 'j \<Rightarrow> bool" where
  "is_number_unsigned J v \<longleftrightarrow> jtype J v = J_Unsigned"

definition is_number_integer :: "'j json_api \<Rightarrow> 'j \<Rightarrow> bool" where
  "is_number_integer J v \<longleftrightarrow> jtype J v = J_Integer \<or> jtype J v = J_Unsigned"

definition is_number :: "'j json_api \<Rightarrow> 'j \<Rightarrow> bool" where
  "is_number J v \<longleftrightarrow> is_number_integer J v \<or> jtype J v = J_Float"

lemmas json_types = is_object_def is_array_def is_string_def is_boolean_def is_number_unsigned_def
  is_number_integer_def is_number_def

definition contains :: "'j json_api \<Rightarrow> 'j \<Rightarrow> string \<Rightarrow> bool" where
  "contains J v key \<longleftrightarrow> jfind J v key \<noteq> None"

definition at_key :: "'j json_api \<Rightarrow> 'j \<Rightarrow> string \<Rightarrow> 'j" where
  "at_key J v key = (case jfind J v key of Some x \<Rightarrow> x | None \<Rightarrow> jnull J)"

text \<open>
  The helpers that several files of the code repeat word for word: a JSON number as a 32-bit integer
  or as a \<open>float\<close>, or nothing when it is no number or out of range.
\<close>

definition json_to_u32 :: "'j json_api \<Rightarrow> 'j \<Rightarrow> u32 option" where
  "json_to_u32 J v =
     (if is_number_unsigned J v then
        (let raw = ju64 J v in if raw \<le> 0xFFFFFFFF then Some (ucast raw) else None)
      else if is_number_integer J v then
        (let raw = ji64 J v in if 0 \<le> raw \<and> raw \<le> 4294967295 then Some (word_of_int raw) else None)
      else None)"

definition float_lowest :: rat where "float_lowest = - (340282346638528859811704183484516925440 :: rat)"
definition float_max :: rat where "float_max = 340282346638528859811704183484516925440"

definition json_to_float :: "'j json_api \<Rightarrow> 'j \<Rightarrow> fp option" where
  "json_to_float J v =
     (if \<not> is_number J v then None
      else let raw = jdouble J v in
        if fp_lt raw (Fin float_lowest) \<or> fp_lt (Fin float_max) raw then None
        else Some (fp_cast Single raw))"

text \<open>The largest \<open>float\<close> bounds every value of the format.\<close>

lemma fits_single_max:
  assumes "fits Single q"
  shows "q \<le> float_max"
proof (rule ccontr)
  assume "\<not> q \<le> float_max"
  then have big: "float_max < q" by simp
  obtain m e where q: "q = of_int m * 2 powi e" and m: "\<bar>m\<bar> \<le> 2 ^ 24"
    using fits_scaled [OF assms] by auto
  have top: "q < 2 ^ 128" using assms by (simp add: fits_iff abs_less_iff)
  have "(of_int m :: rat) \<le> 2 ^ 24"
    using m by (metis abs_le_D1 of_int_le_iff of_int_numeral of_int_power)
  then have upper: "q \<le> 2 ^ 24 * 2 powi e" unfolding q by (intro mult_right_mono) simp_all
  show False
  proof (cases "e \<le> 103")
    case True
    then have "(2::rat) powi e \<le> 2 powi 103" by (simp only: pow2_le_iff)
    with upper big show False by (simp add: float_max_def)
  next
    case False
    define k where "k = m * 2 ^ nat (e - 104)"
    have "(2::rat) powi e = 2 powi (104 + (e - 104))" by simp
    also have "\<dots> = 2 ^ 104 * 2 powi (e - 104)" by (simp only: pow2_add) simp
    also have "(2::rat) powi (e - 104) = 2 ^ nat (e - 104)" using False by (simp add: power_int_def)
    finally have qk: "q = of_int k * 2 ^ 104" by (simp add: q k_def)
    have "(of_int k :: rat) * 2 ^ 104 < 2 ^ 24 * 2 ^ 104" using top unfolding qk by simp
    then have "(of_int k :: rat) < of_int (2 ^ 24)" by simp
    then have "k < 2 ^ 24" by (simp only: of_int_less_iff)
    then have "of_int k \<le> (of_int (2 ^ 24 - 1) :: rat)" by (simp only: of_int_le_iff)
    then have "q \<le> of_int (2 ^ 24 - 1) * 2 ^ 104" unfolding qk by (intro mult_right_mono) simp_all
    with big show False by (simp add: float_max_def)
  qed
qed

lemma fits_single_range: "fits Single q \<Longrightarrow> float_lowest \<le> q \<and> q \<le> float_max"
  using fits_single_max [of q] fits_single_max [of "- q"] by (simp add: float_lowest_def float_max_def)

section \<open>What the library documents\<close>

text \<open>
  A value is textual when its text form loses nothing: strings, booleans, unsigned and negative numbers,
  and arrays and objects of such values. (A signed number that is not negative is read back as an
  unsigned one, a NaN as null.)
\<close>

text \<open>Printable ASCII that needs no escape.\<close>

definition json_plain :: "string \<Rightarrow> bool" where
  "json_plain s = list_all (\<lambda>c. c \<noteq> CHR 0x22 \<and> c \<noteq> CHR 0x5C \<and>
     32 \<le> (of_char c :: nat) \<and> (of_char c :: nat) < 127) s"

locale json_library =
  fixes J :: "'j json_api"
    and textual :: "'j \<Rightarrow> bool"
  assumes null_type: "jtype J (jnull J) = J_Null"
    and string_type: "jtype J (jof_string J s) = J_String"
    and string_get: "jstring J (jof_string J s) = s"
    and bool_type: "jtype J (jof_bool J b) = J_Boolean"
    and bool_get: "jbool J (jof_bool J b) = b"
    and int_type: "jtype J (jof_int J i) = J_Integer"
    and int_get: "- (2 ^ 63) \<le> i \<Longrightarrow> i < 2 ^ 63 \<Longrightarrow> ji64 J (jof_int J i) = i"
    and uint_type: "jtype J (jof_uint J n) = J_Unsigned"
    and uint_get: "ju64 J (jof_uint J n) = n"
    and uint_get_signed: "ji64 J (jof_uint J n) = sint n"
    and float_type: "jtype J (jof_float J x) = J_Float"
    and float_get: "jdouble J (jof_float J x) = x"
    and array_type: "jtype J (jof_array J vs) = J_Array"
    and array_get: "jelems J (jof_array J vs) = vs"
    and object_type: "jtype J (jof_object J kvs) = J_Object"
    and object_get: "distinct (List.map fst kvs) \<Longrightarrow> jfind J (jof_object J kvs) = map_of kvs"
    and text_get: "textual v \<Longrightarrow> jparse J (jdump J v) = Some v"
    and text_uint: "textual (jof_uint J n)"
    and text_object: "distinct (List.map fst kvs) \<Longrightarrow> list_all json_plain (List.map fst kvs) \<Longrightarrow>
      list_all textual (List.map snd kvs) \<Longrightarrow> textual (jof_object J kvs)"
begin

lemmas types = null_type string_type bool_type int_type uint_type float_type array_type object_type

lemmas gets = string_get bool_get uint_get uint_get_signed float_get array_get

lemma u32_of_uint: "json_to_u32 J (jof_uint J n) = (if n \<le> 0xFFFFFFFF then Some (ucast n) else None)"
  by (simp add: json_to_u32_def json_types types gets Let_def)

lemma u32_of_u32: "json_to_u32 J (jof_uint J (ucast (k :: u32))) = Some k"
proof -
  have "unat k < 2 ^ 32" using unsigned_less [of k] by simp
  then have "unat (ucast k :: u64) = unat k" by (simp add: unsigned_ucast_eq take_bit_nat_eq_self)
  with \<open>unat k < 2 ^ 32\<close> have "(ucast k :: u64) \<le> 0xFFFFFFFF" by (simp add: word_le_nat_alt)
  moreover have "(ucast (ucast k :: u64) :: u32) = k" by (transfer) (simp add: min_def)
  ultimately show ?thesis by (simp add: u32_of_uint)
qed

lemma at_object: "distinct (List.map fst kvs) \<Longrightarrow> map_of kvs key = Some v \<Longrightarrow> at_key J (jof_object J kvs) key = v"
  by (simp add: at_key_def object_get)

lemma contains_object:
  "distinct (List.map fst kvs) \<Longrightarrow> map_of kvs key = Some v \<Longrightarrow> contains J (jof_object J kvs) key"
  by (simp add: contains_def object_get)

lemma float_of_float:
  assumes "float_lowest \<le> q" and "q \<le> float_max" and "fits Single q"
  shows "json_to_float J (jof_float J (Fin q)) = Some (Fin q)"
  using assms by (simp add: json_to_float_def json_types types gets round_fits)

end

end
