(* ===== verification/Json_Text.thy ===== *)
theory Json_Text
  imports Json_Api
begin

text \<open>
  A document type that satisfies \<open>json_library\<close>: the values of JSON, and a printer and a parser of
  their text. The parser covers the compact text that \<open>dump()\<close> writes for textual values (no white
  space, no escapes, no fractions), and rejects the rest; its round trip with the printer is proved here.
  It serves as the concrete library at which the properties of the JSON readers and writers are
  evaluated. \<open>decimal\<close> is also \<open>std::to_string\<close> of an unsigned number.
\<close>

section \<open>Decimal numbers\<close>

definition digit :: "nat \<Rightarrow> char" where "digit d = char_of (48 + d)"

definition is_digit :: "char \<Rightarrow> bool" where
  "is_digit c \<longleftrightarrow> 48 \<le> (of_char c :: nat) \<and> (of_char c :: nat) \<le> 57"

fun decimal :: "nat \<Rightarrow> string" where
  "decimal n = (if n < 10 then [digit n] else decimal (n div 10) @ [digit (n mod 10)])"

definition undecimal :: "string \<Rightarrow> nat" where
  "undecimal s = foldl (\<lambda>n c. 10 * n + (of_char c - 48)) 0 s"

declare decimal.simps [simp del]

lemma digit_value: "d < 10 \<Longrightarrow> (of_char (digit d) :: nat) = 48 + d"
  by (simp add: digit_def)

lemma undecimal_decimal: "undecimal (decimal n) = n"
  by (induction n rule: decimal.induct) (subst decimal.simps, simp add: undecimal_def digit_value)

lemma digit_is_digit: "d < 10 \<Longrightarrow> is_digit (digit d)"
  by (simp add: is_digit_def digit_value)

lemma decimal_digits: "list_all is_digit (decimal n)"
proof (induction n rule: decimal.induct)
  case (1 n)
  then show ?case
    by (subst decimal.simps) (simp add: digit_is_digit)
qed

lemma decimal_not_empty: "decimal n \<noteq> []"
  by (subst decimal.simps) simp

lemma decimal_Cons: "\<exists>c cs. decimal n = c # cs \<and> is_digit c"
  using decimal_digits [of n] decimal_not_empty [of n] by (cases "decimal n") auto

section \<open>Documents and their text\<close>

datatype json_value =
    VNull
  | VBool bool
  | VInt int
  | VUint u64
  | VFloat fp
  | VString string
  | VArray "json_value list"
  | VObject "(string \<times> json_value) list"

definition quoted :: "string \<Rightarrow> string" where "quoted s = CHR 0x22 # s @ [CHR 0x22]"

fun join :: "string list \<Rightarrow> char \<Rightarrow> string" where
  "join [] close = [close]"
| "join [s] close = s @ [close]"
| "join (s # t # ts) close = s @ CHR '','' # join (t # ts) close"

fun print :: "json_value \<Rightarrow> string" where
  "print VNull = ''null''"
| "print (VBool b) = (if b then ''true'' else ''false'')"
| "print (VInt i) = (if i < 0 then CHR ''-'' # decimal (nat (- i)) else decimal (nat i))"
| "print (VUint n) = decimal (unat n)"
| "print (VFloat x) = ''null''"
| "print (VString s) = quoted s"
| "print (VArray vs) = CHR ''['' # join (List.map print vs) (CHR '']'')"
| "print (VObject kvs) =
     CHR ''{'' # join (List.map (\<lambda>(k, v). quoted k @ CHR '':'' # print v) kvs) (CHR ''}'')"

fun textual :: "json_value \<Rightarrow> bool" where
  "textual VNull = True"
| "textual (VBool b) = True"
| "textual (VInt i) = (i < 0)"
| "textual (VUint n) = True"
| "textual (VFloat x) = False"
| "textual (VString s) = json_plain s"
| "textual (VArray vs) = list_all textual vs"
| "textual (VObject kvs) = (distinct (List.map fst kvs) \<and> list_all (\<lambda>(k, v). json_plain k \<and> textual v) kvs)"

section \<open>The parser\<close>

text \<open>The longest run of digits, and a string up to its closing quote.\<close>

definition read_nat :: "string \<Rightarrow> nat \<times> string" where
  "read_nat s = (undecimal (takeWhile is_digit s), dropWhile is_digit s)"

definition read_string :: "string \<Rightarrow> (string \<times> string) option" where
  "read_string s = (let body = takeWhile (\<lambda>c. c \<noteq> CHR 0x22) s; rest = dropWhile (\<lambda>c. c \<noteq> CHR 0x22) s
     in if rest = [] \<or> \<not> json_plain body then None else Some (body, tl rest))"

definition read_word :: "string \<Rightarrow> 'a \<Rightarrow> string \<Rightarrow> ('a \<times> string) option" where
  "read_word w v s = (if take (length w) s = w then Some (v, drop (length w) s) else None)"

fun read_value :: "nat \<Rightarrow> string \<Rightarrow> (json_value \<times> string) option"
  and read_elems :: "nat \<Rightarrow> string \<Rightarrow> (json_value list \<times> string) option"
  and read_members :: "nat \<Rightarrow> string \<Rightarrow> ((string \<times> json_value) list \<times> string) option" where
  "read_value 0 s = None"
| "read_value (Suc n) [] = None"
| "read_value (Suc n) (c # s) =
     (if c = CHR ''n'' then read_word ''ull'' VNull s
      else if c = CHR ''t'' then read_word ''rue'' (VBool True) s
      else if c = CHR ''f'' then read_word ''alse'' (VBool False) s
      else if c = CHR 0x22 then map_option (apfst VString) (read_string s)
      else if c = CHR ''-'' then (case read_nat s of (m, r) \<Rightarrow> if 0 < m then Some (VInt (- int m), r) else None)
      else if is_digit c then (case read_nat (c # s) of (m, r) \<Rightarrow>
        if m < 2 ^ 64 then Some (VUint (word_of_nat m), r) else None)
      else if c = CHR ''['' then
        (if s \<noteq> [] \<and> hd s = CHR '']'' then Some (VArray [], tl s) else map_option (apfst VArray) (read_elems n s))
      else if c = CHR ''{'' then
        (if s \<noteq> [] \<and> hd s = CHR ''}'' then Some (VObject [], tl s) else map_option (apfst VObject) (read_members n s))
      else None)"
| "read_elems 0 s = None"
| "read_elems (Suc n) s = (case read_value n s of
      None \<Rightarrow> None
    | Some (v, r) \<Rightarrow>
        if r = [] then None
        else if hd r = CHR '']'' then Some ([v], tl r)
        else if hd r = CHR '','' then map_option (apfst (Cons v)) (read_elems n (tl r))
        else None)"
| "read_members 0 s = None"
| "read_members (Suc n) s =
     (if s = [] \<or> hd s \<noteq> CHR 0x22 then None
      else case read_string (tl s) of
        None \<Rightarrow> None
      | Some (k, r) \<Rightarrow>
        if r = [] \<or> hd r \<noteq> CHR '':'' then None
        else case read_value n (tl r) of
          None \<Rightarrow> None
        | Some (v, r) \<Rightarrow>
          if r = [] then None
          else if hd r = CHR ''}'' then Some ([(k, v)], tl r)
          else if hd r = CHR '','' then map_option (apfst (Cons (k, v))) (read_members n (tl r))
          else None)"

definition parse :: "string \<Rightarrow> json_value option" where
  "parse s = (case read_value (Suc (length s)) s of Some (v, r) \<Rightarrow> if r = [] then Some v else None | None \<Rightarrow> None)"

section \<open>Reading back what was printed\<close>

definition no_digit :: "string \<Rightarrow> bool" where
  "no_digit rest \<longleftrightarrow> rest = [] \<or> \<not> is_digit (hd rest)"

lemma no_digit_simps [simp]: "no_digit []" "no_digit (c # cs) = (\<not> is_digit c)"
  by (simp_all add: no_digit_def)

lemma is_digit_syntax [simp]:
  "\<not> is_digit CHR '',''" "\<not> is_digit (CHR '']'')" "\<not> is_digit (CHR ''}'')" "\<not> is_digit (CHR ''-'')"
  "\<not> is_digit (CHR ''['')" "\<not> is_digit (CHR ''{'')" "\<not> is_digit (CHR 0x22)" "\<not> is_digit (CHR ''n'')"
  "\<not> is_digit (CHR ''t'')" "\<not> is_digit (CHR ''f'')"
  by (simp_all add: is_digit_def)

lemma read_nat_decimal: "no_digit rest \<Longrightarrow> read_nat (decimal m @ rest) = (m, rest)"
  using decimal_digits [of m]
  by (cases rest)
    (simp_all add: read_nat_def list_all_iff undecimal_decimal
      takeWhile_append2 dropWhile_append2 takeWhile_eq_all_conv [THEN iffD2] dropWhile_eq_Nil_conv [THEN iffD2])

lemma read_string_quoted: "json_plain s \<Longrightarrow> read_string (s @ CHR 0x22 # rest) = Some (s, rest)"
proof -
  assume s: "json_plain s"
  then have "\<forall>c \<in> set s. c \<noteq> CHR 0x22" by (simp add: json_plain_def list_all_iff)
  with s show ?thesis
    by (simp add: read_string_def Let_def takeWhile_append2 dropWhile_append2)
qed

lemma read_value_digits:
  assumes "no_digit rest" and "m < 2 ^ 64"
  shows "read_value (Suc n) (decimal m @ rest) = Some (VUint (word_of_nat m), rest)"
proof -
  obtain c cs where d: "decimal m = c # cs" "is_digit c" using decimal_Cons by blast
  then have "c \<noteq> CHR ''n''" "c \<noteq> CHR ''t''" "c \<noteq> CHR ''f''" "c \<noteq> CHR 0x22" "c \<noteq> CHR ''-''" by auto
  with d assms read_nat_decimal [OF assms(1), of m] show ?thesis by simp
qed

lemma print_Cons:
  "textual v \<Longrightarrow> \<exists>c cs. print v = c # cs \<and> c \<noteq> CHR '']''"
  using decimal_Cons [of "unat n" for n]
  by (cases v) (fastforce simp: quoted_def)+

abbreviation print_member :: "string \<times> json_value \<Rightarrow> string" where
  "print_member \<equiv> \<lambda>(k, v). quoted k @ CHR '':'' # print v"

definition reads_back :: "json_value \<Rightarrow> bool" where
  "reads_back v \<longleftrightarrow> (\<forall>n rest. length (print v) < n \<longrightarrow> no_digit rest \<longrightarrow>
     read_value n (print v @ rest) = Some (v, rest))"

lemma read_elems_join:
  "\<forall>v \<in> set vs. reads_back v \<Longrightarrow> vs \<noteq> [] \<Longrightarrow> length (join (List.map print vs) (CHR '']'')) < n \<Longrightarrow>
     read_elems n (join (List.map print vs) (CHR '']'') @ rest) = Some (vs, rest)"
proof (induction vs arbitrary: n)
  case (Cons v vs)
  then obtain m where n: "n = Suc m" by (cases n) auto
  show ?case
  proof (cases vs)
    case Nil
    with Cons.prems n have "read_value m (print v @ CHR '']'' # rest) = Some (v, CHR '']'' # rest)"
      by (simp add: reads_back_def)
    with Nil n show ?thesis by simp
  next
    case (Cons w ws)
    let ?tail = "join (List.map print vs) (CHR '']'')"
    have j: "join (List.map print (v # vs)) (CHR '']'') = print v @ CHR '','' # ?tail"
      using Cons by simp
    have "read_value m (print v @ CHR '','' # ?tail @ rest) = Some (v, CHR '','' # ?tail @ rest)"
      using Cons.prems n j by (simp add: reads_back_def)
    moreover have "read_elems m (?tail @ rest) = Some (vs, rest)"
      using Cons.prems n j Cons by (intro Cons.IH) auto
    ultimately show ?thesis unfolding j n by simp
  qed
qed simp

lemma read_members_join:
  "\<forall>(k, v) \<in> set kvs. json_plain k \<and> reads_back v \<Longrightarrow> kvs \<noteq> [] \<Longrightarrow>
     length (join (List.map print_member kvs) (CHR ''}'')) < n \<Longrightarrow>
     read_members n (join (List.map print_member kvs) (CHR ''}'') @ rest) = Some (kvs, rest)"
proof (induction kvs arbitrary: n)
  case (Cons kv kvs)
  then obtain m where n: "n = Suc m" by (cases n) auto
  obtain k v where kv: "kv = (k, v)" by (cases kv)
  from Cons.prems(1) kv have k: "json_plain k" and v: "reads_back v" by auto
  have string: "read_string (k @ CHR 0x22 # r) = Some (k, r)" for r by (rule read_string_quoted [OF k])
  show ?case
  proof (cases kvs)
    case Nil
    with Cons.prems n kv v have "read_value m (print v @ CHR ''}'' # rest) = Some (v, CHR ''}'' # rest)"
      by (simp add: reads_back_def quoted_def)
    with Nil n kv show ?thesis by (simp add: quoted_def string)
  next
    case (Cons w ws)
    let ?tail = "join (List.map print_member kvs) (CHR ''}'')"
    have j: "join (List.map print_member (kv # kvs)) (CHR ''}'') = quoted k @ CHR '':'' # print v @ CHR '','' # ?tail"
      using Cons kv by simp
    have "read_value m (print v @ CHR '','' # ?tail @ rest) = Some (v, CHR '','' # ?tail @ rest)"
      using Cons.prems(3) n v unfolding j by (simp add: reads_back_def quoted_def)
    moreover have "read_members m (?tail @ rest) = Some (kvs, rest)"
      using Cons.prems n Cons unfolding j by (intro Cons.IH) (auto simp: quoted_def)
    ultimately show ?thesis unfolding j n by (simp add: kv quoted_def string)
  qed
qed simp

lemma join_hd: "ss \<noteq> [] \<Longrightarrow> hd ss = c # cs \<Longrightarrow> \<exists>r. join ss x = c # r"
  by (cases "(ss, x)" rule: join.cases) auto

lemma textual_reads_back: "textual v \<Longrightarrow> reads_back v"
proof (induction v)
  case (VUint m)
  have "unat m < 2 ^ 64" using unsigned_less [of m, where 'a = nat] by simp
  then have "read_value (Suc n) (decimal (unat m) @ rest) = Some (VUint m, rest)" if "no_digit rest" for n rest
    using read_value_digits [OF that, of "unat m" n] by simp
  then show ?case unfolding reads_back_def
    by (auto dest!: gr_implies_not0 not0_implies_Suc)
next
  case (VInt i)
  then show ?case unfolding reads_back_def
    by (auto simp: read_nat_decimal dest!: gr_implies_not0 not0_implies_Suc)
next
  case (VArray vs)
  then have vs: "\<forall>v \<in> set vs. reads_back v" by (simp add: list_all_iff)
  show ?case unfolding reads_back_def
  proof (intro allI impI)
    fix n rest
    assume n: "length (print (VArray vs)) < n"
    then obtain m where m: "n = Suc m" by (cases n) auto
    show "read_value n (print (VArray vs) @ rest) = Some (VArray vs, rest)"
    proof (cases "vs = []")
      case False
      then obtain c cs where "hd (List.map print vs) = c # cs" "c \<noteq> CHR '']''"
        using VArray.prems print_Cons [of "hd vs"] by (auto simp: hd_map list_all_iff)
      then obtain r where "join (List.map print vs) (CHR '']'') = c # r"
        using False join_hd [of "List.map print vs"] by blast
      with \<open>c \<noteq> CHR '']''\<close> False n m read_elems_join [OF vs False, of m rest] show ?thesis by simp
    qed (simp add: m)
  qed
next
  case (VObject kvs)
  then have kvs: "\<forall>(k, v) \<in> set kvs. json_plain k \<and> reads_back v" by (fastforce simp: list_all_iff)
  show ?case unfolding reads_back_def
  proof (intro allI impI)
    fix n rest
    assume n: "length (print (VObject kvs)) < n"
    then obtain m where m: "n = Suc m" by (cases n) auto
    show "read_value n (print (VObject kvs) @ rest) = Some (VObject kvs, rest)"
    proof (cases kvs)
      case (Cons kv kvs')
      then obtain r where "join (List.map print_member kvs) (CHR ''}'') = CHR 0x22 # r"
        using join_hd [of "List.map print_member kvs"] by (cases kv) (auto simp: quoted_def)
      with Cons n m read_members_join [OF kvs, of m rest] show ?thesis by simp
    qed (simp add: m)
  qed
next
  case (VString s)
  then show ?case unfolding reads_back_def
    by (auto simp: quoted_def read_string_quoted dest!: gr_implies_not0 not0_implies_Suc)
qed (auto simp: reads_back_def read_word_def dest!: gr_implies_not0 not0_implies_Suc)

lemma parse_print: "textual v \<Longrightarrow> parse (print v) = Some v"
proof -
  assume "textual v"
  then have "read_value (Suc (length (print v))) (print v @ []) = Some (v, [])"
    using textual_reads_back [of v] by (simp only: reads_back_def no_digit_simps lessI)
  then show ?thesis by (simp add: parse_def)
qed

section \<open>The library\<close>

fun value_type :: "json_value \<Rightarrow> json_type" where
  "value_type VNull = J_Null"
| "value_type (VBool b) = J_Boolean"
| "value_type (VInt i) = J_Integer"
| "value_type (VUint n) = J_Unsigned"
| "value_type (VFloat x) = J_Float"
| "value_type (VString s) = J_String"
| "value_type (VArray vs) = J_Array"
| "value_type (VObject kvs) = J_Object"

fun value_find :: "json_value \<Rightarrow> string \<Rightarrow> json_value option" where
  "value_find (VObject kvs) k = map_of kvs k"
| "value_find _ k = None"

fun value_elems :: "json_value \<Rightarrow> json_value list" where
  "value_elems (VArray vs) = vs"
| "value_elems (VObject kvs) = List.map snd kvs"
| "value_elems _ = []"

fun value_string :: "json_value \<Rightarrow> string" where
  "value_string (VString s) = s"
| "value_string _ = []"

fun value_bool :: "json_value \<Rightarrow> bool" where
  "value_bool (VBool b) = b"
| "value_bool _ = False"

fun value_i64 :: "json_value \<Rightarrow> int" where
  "value_i64 (VInt i) = i"
| "value_i64 (VUint n) = sint n"
| "value_i64 _ = 0"

fun value_u64 :: "json_value \<Rightarrow> u64" where
  "value_u64 (VInt i) = word_of_int i"
| "value_u64 (VUint n) = n"
| "value_u64 _ = 0"

fun value_double :: "json_value \<Rightarrow> fp" where
  "value_double (VInt i) = fp_of_int Double i"
| "value_double (VUint n) = fp_of_int Double (uint n)"
| "value_double (VFloat x) = x"
| "value_double _ = Fin 0"

definition text_json :: "json_value json_api" where
  "text_json = \<lparr>jtype = value_type, jfind = value_find, jelems = value_elems, jstring = value_string,
     jbool = value_bool, ji64 = value_i64, ju64 = value_u64, jdouble = value_double, jnull = VNull,
     jof_string = VString, jof_bool = VBool, jof_int = VInt, jof_uint = VUint, jof_float = VFloat,
     jof_array = VArray, jof_object = VObject, jdump = print, jparse = parse\<rparr>"

interpretation text_json: json_library text_json textual
proof unfold_locales
  show "jparse text_json (jdump text_json v) = Some v" if "textual v" for v
    using that by (simp add: text_json_def parse_print)
qed (auto simp: text_json_def fun_eq_iff list_all_iff)

lemma text_json_library: "json_library text_json textual"
  by (rule text_json.json_library_axioms)

end
