(* ===== verification/World_Profile.thy ===== *)
theory World_Profile
  imports Json_Text Game_Rules
begin

text \<open>
  The world generation profile (shared/voxel/WorldGenerationProfile.h,
  shared/src/voxel/WorldGenerationProfile.cpp): its data, the sanitizing that every entry point
  applies, and the JSON form in which the server sends it and the files store it. Shown: sanitizing
  gives a profile in which a point of interest cannot leave its cell, and writing and reading a
  profile gives back the sanitized profile.
\<close>

section \<open>Data\<close>

datatype poi_density = Low | Medium | High

record poi_type_toggles =
  tog_outpost :: bool
  tog_ruins :: bool
  tog_loot_shrine :: bool

record expansion_profile =
  exp_enabled :: bool
  exp_poi_density :: poi_density
  exp_cell_size_chunks :: int
  exp_jitter_units :: int
  exp_min_poi_spacing_units :: int
  exp_poi_types :: poi_type_toggles
  exp_loot_bias_multiplier :: fp

record generation_profile =
  gp_world_seed :: u32
  gp_expansion :: expansion_profile

definition default_expansion :: expansion_profile where
  "default_expansion = \<lparr>exp_enabled = True, exp_poi_density = Medium, exp_cell_size_chunks = 4,
     exp_jitter_units = 24, exp_min_poi_spacing_units = 96,
     exp_poi_types = \<lparr>tog_outpost = True, tog_ruins = True, tog_loot_shrine = True\<rparr>,
     exp_loot_bias_multiplier = litF (5 / 4)\<rparr>"

definition default_profile :: generation_profile where
  "default_profile = \<lparr>gp_world_seed = 1337, gp_expansion = default_expansion\<rparr>"

fun density_to_string :: "poi_density \<Rightarrow> string" where
  "density_to_string Low = ''low''"
| "density_to_string Medium = ''medium''"
| "density_to_string High = ''high''"

definition parse_poi_density :: "string \<Rightarrow> poi_density option" where
  "parse_poi_density value =
     (let lowered = lowercase value in
      if lowered = ''low'' then Some Low
      else if lowered = ''medium'' then Some Medium
      else if lowered = ''high'' then Some High
      else None)"

fun poi_density_spawn_probability :: "poi_density \<Rightarrow> fp" where
  "poi_density_spawn_probability Low = litF (18 / 100)"
| "poi_density_spawn_probability Medium = litF (32 / 100)"
| "poi_density_spawn_probability High = litF (52 / 100)"

section \<open>Sanitizing\<close>

definition max_jitter :: "int \<Rightarrow> int" where
  "max_jitter cell_size_chunks = max 0 (c_div (wrap_i32 (cell_size_chunks * 32)) 2 - 1)"

definition sanitize_toggles :: "poi_type_toggles \<Rightarrow> poi_type_toggles" where
  "sanitize_toggles t =
     (if \<not> tog_outpost t \<and> \<not> tog_ruins t \<and> \<not> tog_loot_shrine t then t\<lparr>tog_outpost := True\<rparr> else t)"

definition sanitize_expansion :: "expansion_profile \<Rightarrow> expansion_profile" where
  "sanitize_expansion e =
     (let cell = if exp_cell_size_chunks e \<le> 0 then 4 else exp_cell_size_chunks e;
          jitter = if exp_jitter_units e < 0 then 24 else exp_jitter_units e;
          spacing = if exp_min_poi_spacing_units e < 0 then 96 else exp_min_poi_spacing_units e;
          bias = exp_loot_bias_multiplier e
      in e\<lparr>exp_cell_size_chunks := cell,
           exp_jitter_units := clamp_int jitter 0 (max_jitter cell),
           exp_min_poi_spacing_units := spacing,
           exp_loot_bias_multiplier :=
             if \<not> fp_is_finite bias \<or> fp_le bias (Fin 0) then litF (5 / 4) else bias,
           exp_poi_types := sanitize_toggles (exp_poi_types e)\<rparr>)"

definition sanitize_profile :: "generation_profile \<Rightarrow> generation_profile" where
  "sanitize_profile p = p\<lparr>gp_expansion := sanitize_expansion (gp_expansion p)\<rparr>"

section \<open>The JSON form\<close>

definition json_to_i64 :: "'j json_api \<Rightarrow> 'j \<Rightarrow> int option" where
  "json_to_i64 J v =
     (if is_number_integer J v then Some (ji64 J v)
      else if is_number_unsigned J v then
        (let raw = ju64 J v in if 9223372036854775807 < raw then None else Some (uint raw))
      else None)"

definition json_to_finite_float :: "'j json_api \<Rightarrow> 'j \<Rightarrow> fp option" where
  "json_to_finite_float J v =
     (if \<not> is_number J v then None
      else let raw = jdouble J v in
        if fp_lt raw (Fin float_lowest) \<or> fp_lt (Fin float_max) raw \<or> \<not> fp_is_finite raw then None
        else Some (fp_cast Single raw))"

definition toggles_to_json :: "'j json_api \<Rightarrow> poi_type_toggles \<Rightarrow> 'j" where
  "toggles_to_json J t = jof_object J
     [(''outpost'', jof_bool J (tog_outpost t)),
      (''ruins'', jof_bool J (tog_ruins t)),
      (''loot_shrine'', jof_bool J (tog_loot_shrine t))]"

definition profile_fields :: "'j json_api \<Rightarrow> generation_profile \<Rightarrow> (string \<times> 'j) list" where
  "profile_fields J p = (let e = gp_expansion p in
     [(''seed'', jof_uint J (ucast (gp_world_seed p))),
      (''expansion_enabled'', jof_bool J (exp_enabled e)),
      (''poi_density'', jof_string J (density_to_string (exp_poi_density e))),
      (''cell_size_chunks'', jof_int J (exp_cell_size_chunks e)),
      (''jitter_units'', jof_int J (exp_jitter_units e)),
      (''min_poi_spacing_units'', jof_int J (exp_min_poi_spacing_units e)),
      (''poi_types'', toggles_to_json J (exp_poi_types e)),
      (''loot_bias_multiplier'', jof_float J (fp_cast Double (exp_loot_bias_multiplier e)))])"

definition profile_to_json :: "'j json_api \<Rightarrow> generation_profile \<Rightarrow> 'j" where
  "profile_to_json J raw = jof_object J (profile_fields J (sanitize_profile raw))"

text \<open>One optional member: left alone when absent, rejected when the reader rejects its value.\<close>

definition optional :: "'j json_api \<Rightarrow> 'j \<Rightarrow> string \<Rightarrow> ('j \<Rightarrow> 'a \<Rightarrow> 'a option) \<Rightarrow> 'a \<Rightarrow> 'a option" where
  "optional J v key reader a = (if contains J v key then reader (at_key J v key) a else Some a)"

definition read_seed :: "'j json_api \<Rightarrow> 'j \<Rightarrow> generation_profile \<Rightarrow> generation_profile option" where
  "read_seed J v p = (case json_to_i64 J v of None \<Rightarrow> None
     | Some n \<Rightarrow> if n < 0 \<or> 4294967295 < n then None else Some (p\<lparr>gp_world_seed := word_of_int n\<rparr>))"

definition read_enabled :: "'j json_api \<Rightarrow> 'j \<Rightarrow> expansion_profile \<Rightarrow> expansion_profile option" where
  "read_enabled J v e = (if \<not> is_boolean J v then None else Some (e\<lparr>exp_enabled := jbool J v\<rparr>))"

definition read_density :: "'j json_api \<Rightarrow> 'j \<Rightarrow> expansion_profile \<Rightarrow> expansion_profile option" where
  "read_density J v e = (if \<not> is_string J v then None
     else case parse_poi_density (jstring J v) of None \<Rightarrow> None
       | Some d \<Rightarrow> Some (e\<lparr>exp_poi_density := d\<rparr>))"

text \<open>An integer from \<open>lo\<close> to the largest \<open>int\<close>.\<close>

definition read_int :: "'j json_api \<Rightarrow> int \<Rightarrow> 'j \<Rightarrow> int option" where
  "read_int J lo v = (case json_to_i64 J v of None \<Rightarrow> None
     | Some n \<Rightarrow> if n < lo \<or> 2147483647 < n then None else Some n)"

definition read_cell_size :: "'j json_api \<Rightarrow> 'j \<Rightarrow> expansion_profile \<Rightarrow> expansion_profile option" where
  "read_cell_size J v e = map_option (\<lambda>n. e\<lparr>exp_cell_size_chunks := n\<rparr>) (read_int J 1 v)"

definition read_jitter :: "'j json_api \<Rightarrow> 'j \<Rightarrow> expansion_profile \<Rightarrow> expansion_profile option" where
  "read_jitter J v e = map_option (\<lambda>n. e\<lparr>exp_jitter_units := n\<rparr>) (read_int J 0 v)"

definition read_spacing :: "'j json_api \<Rightarrow> 'j \<Rightarrow> expansion_profile \<Rightarrow> expansion_profile option" where
  "read_spacing J v e = map_option (\<lambda>n. e\<lparr>exp_min_poi_spacing_units := n\<rparr>) (read_int J 0 v)"

definition read_toggle :: "'j json_api \<Rightarrow> (bool \<Rightarrow> poi_type_toggles \<Rightarrow> poi_type_toggles) \<Rightarrow> 'j \<Rightarrow>
    poi_type_toggles \<Rightarrow> poi_type_toggles option" where
  "read_toggle J assign v t = (if \<not> is_boolean J v then None else Some (assign (jbool J v) t))"

definition read_poi_types :: "'j json_api \<Rightarrow> 'j \<Rightarrow> expansion_profile \<Rightarrow> expansion_profile option" where
  "read_poi_types J v e = (if \<not> is_object J v then None
     else Option.bind (optional J v ''outpost'' (read_toggle J (\<lambda>b. tog_outpost_update (\<lambda>_. b))) (exp_poi_types e))
       (\<lambda>t. Option.bind (optional J v ''ruins'' (read_toggle J (\<lambda>b. tog_ruins_update (\<lambda>_. b))) t)
       (\<lambda>t. Option.bind (optional J v ''loot_shrine'' (read_toggle J (\<lambda>b. tog_loot_shrine_update (\<lambda>_. b))) t)
       (\<lambda>t. Some (e\<lparr>exp_poi_types := t\<rparr>)))))"

definition read_bias :: "'j json_api \<Rightarrow> 'j \<Rightarrow> expansion_profile \<Rightarrow> expansion_profile option" where
  "read_bias J v e = (case json_to_finite_float J v of None \<Rightarrow> None
     | Some x \<Rightarrow> if fp_le x (Fin 0) then None else Some (e\<lparr>exp_loot_bias_multiplier := x\<rparr>))"

definition read_expansion :: "'j json_api \<Rightarrow> 'j \<Rightarrow> expansion_profile \<Rightarrow> expansion_profile option" where
  "read_expansion J v e =
     Option.bind (optional J v ''expansion_enabled'' (read_enabled J) e) (\<lambda>e.
     Option.bind (optional J v ''poi_density'' (read_density J) e) (\<lambda>e.
     Option.bind (optional J v ''cell_size_chunks'' (read_cell_size J) e) (\<lambda>e.
     Option.bind (optional J v ''jitter_units'' (read_jitter J) e) (\<lambda>e.
     Option.bind (optional J v ''min_poi_spacing_units'' (read_spacing J) e) (\<lambda>e.
     Option.bind (optional J v ''poi_types'' (read_poi_types J) e) (\<lambda>e.
     optional J v ''loot_bias_multiplier'' (read_bias J) e))))))"

definition profile_from_json :: "'j json_api \<Rightarrow> 'j \<Rightarrow> generation_profile option" where
  "profile_from_json J v = (if \<not> is_object J v then None
     else Option.bind (optional J v ''seed'' (read_seed J) default_profile) (\<lambda>p.
       Option.bind (read_expansion J v (gp_expansion p)) (\<lambda>e.
       Some (sanitize_profile (p\<lparr>gp_expansion := e\<rparr>)))))"

section \<open>Sanitized profiles\<close>

text \<open>What sanitizing promises, as a predicate, and that it promises it.\<close>

definition expansion_sane :: "expansion_profile \<Rightarrow> bool" where
  "expansion_sane e \<longleftrightarrow> 0 < exp_cell_size_chunks e
     \<and> 0 \<le> exp_jitter_units e \<and> exp_jitter_units e \<le> max_jitter (exp_cell_size_chunks e)
     \<and> 0 \<le> exp_min_poi_spacing_units e
     \<and> (\<exists>q > 0. exp_loot_bias_multiplier e = Fin q)
     \<and> (tog_outpost (exp_poi_types e) \<or> tog_ruins (exp_poi_types e) \<or> tog_loot_shrine (exp_poi_types e))"

lemma fits_multiplier: "fits Single (5 / 4)"
  by (rule fitsI [of _ 5 "- 2"]) simp_all

lemma default_multiplier: "litF (5 / 4) = Fin (5 / 4)"
  by (simp add: fp_lit_def round_fits [OF fits_multiplier])

lemma sane_toggles:
  "tog_outpost (sanitize_toggles t) \<or> tog_ruins (sanitize_toggles t) \<or> tog_loot_shrine (sanitize_toggles t)"
  by (simp add: sanitize_toggles_def)

lemma sane_bias:
  "\<exists>q > 0. (if \<not> fp_is_finite b \<or> fp_le b (Fin 0) then litF (5 / 4) else b) = Fin q"
proof (cases "\<not> fp_is_finite b \<or> fp_le b (Fin 0)")
  case True
  then show ?thesis by (intro exI [of _ "5 / 4"]) (simp add: default_multiplier)
next
  case False
  then show ?thesis by (cases b) (auto simp: fp_le_def)
qed

lemma max_jitter_nonneg [simp]: "0 \<le> max_jitter c"
  by (simp add: max_jitter_def)

lemma sane_sanitize: "expansion_sane (sanitize_expansion e)"
  unfolding expansion_sane_def sanitize_expansion_def Let_def
  using sane_toggles [of "exp_poi_types e"] sane_bias [of "exp_loot_bias_multiplier e"]
  by (simp add: clamp_int_bounds)

lemma sanitize_sane: "expansion_sane e \<Longrightarrow> sanitize_expansion e = e"
  unfolding expansion_sane_def sanitize_expansion_def Let_def sanitize_toggles_def
  by (cases e) (auto simp: clamp_int_id fp_le_def)

lemma sanitize_idem: "sanitize_profile (sanitize_profile p) = sanitize_profile p"
  by (simp add: sanitize_profile_def sanitize_sane [OF sane_sanitize])

text \<open>A jitter that sanitizing lets through keeps a point of interest inside its cell.\<close>

lemma max_jitter_small: "0 < c \<Longrightarrow> c < 2 ^ 26 \<Longrightarrow> max_jitter c = 16 * c - 1"
  by (simp add: max_jitter_def in_i32_def)

section \<open>Round trip\<close>

text \<open>The C++ types of the members: \<open>int\<close> members are 32-bit, the multiplier is a \<open>float\<close>.\<close>

definition expansion_typed :: "expansion_profile \<Rightarrow> bool" where
  "expansion_typed e \<longleftrightarrow> in_i32 (exp_cell_size_chunks e) \<and> in_i32 (exp_jitter_units e)
     \<and> in_i32 (exp_min_poi_spacing_units e)
     \<and> (\<forall>q. exp_loot_bias_multiplier e = Fin q \<longrightarrow> fits Single q)"

lemma in_i32_wrap_half: "in_i32 (c_div (wrap_i32 x) 2 - 1)"
proof -
  have "in_i32 (wrap_i32 x)" by simp
  then show ?thesis
    by (cases "0 \<le> wrap_i32 x") (simp_all add: in_i32_def c_div_neg, linarith+)
qed

lemma in_i32_max_jitter: "in_i32 (max_jitter c)"
  using in_i32_wrap_half [of "c * 32"] by (simp add: max_jitter_def max_def in_i32_def)

lemma typed_sanitize: "expansion_typed e \<Longrightarrow> expansion_typed (sanitize_expansion e)"
proof -
  assume e: "expansion_typed e"
  have "in_i32 (clamp_int j 0 (max_jitter c))" if "in_i32 j" for j c
    using that in_i32_max_jitter [of c] by (simp add: clamp_int_def in_i32_def)
  moreover have "in_i32 4" "in_i32 24" "in_i32 96" by (simp_all add: in_i32_def)
  moreover have "fits Single q" if "(if \<not> fp_is_finite b \<or> fp_le b (Fin 0) then litF (5 / 4) else b) = Fin q"
    "\<forall>q. b = Fin q \<longrightarrow> fits Single q" for b q
  proof (cases "\<not> fp_is_finite b \<or> fp_le b (Fin 0)")
    case True
    with that(1) have "q = 5 / 4" by (simp only: default_multiplier if_True fp.inject)
    then show ?thesis by (simp only: fits_multiplier)
  qed (use that in simp)
  ultimately show ?thesis
    using e unfolding expansion_typed_def sanitize_expansion_def Let_def by simp
qed

lemma parse_density: "parse_poi_density (density_to_string d) = Some d"
  by (cases d) (simp_all add: parse_poi_density_def lowercase_def lowercase_char_def)

lemma profile_field:
  "map_of (profile_fields J p) ''seed'' = Some (jof_uint J (ucast (gp_world_seed p)))"
  "map_of (profile_fields J p) ''expansion_enabled'' = Some (jof_bool J (exp_enabled (gp_expansion p)))"
  "map_of (profile_fields J p) ''poi_density'' =
     Some (jof_string J (density_to_string (exp_poi_density (gp_expansion p))))"
  "map_of (profile_fields J p) ''cell_size_chunks'' = Some (jof_int J (exp_cell_size_chunks (gp_expansion p)))"
  "map_of (profile_fields J p) ''jitter_units'' = Some (jof_int J (exp_jitter_units (gp_expansion p)))"
  "map_of (profile_fields J p) ''min_poi_spacing_units'' =
     Some (jof_int J (exp_min_poi_spacing_units (gp_expansion p)))"
  "map_of (profile_fields J p) ''poi_types'' = Some (toggles_to_json J (exp_poi_types (gp_expansion p)))"
  "map_of (profile_fields J p) ''loot_bias_multiplier'' =
     Some (jof_float J (fp_cast Double (exp_loot_bias_multiplier (gp_expansion p))))"
  by (simp_all add: profile_fields_def Let_def)

lemma distinct_profile_fields: "distinct (List.map fst (profile_fields J p))"
  by (simp add: profile_fields_def Let_def)

context json_library
begin

lemma json_i64_of_int: "in_i32 i \<Longrightarrow> json_to_i64 J (jof_int J i) = Some i"
  by (simp add: json_to_i64_def json_types types int_get in_i32_def)

lemma json_i64_of_u32: "json_to_i64 J (jof_uint J (ucast (k :: u32))) = Some (uint k)"
proof -
  have "uint k < 2 ^ 32" using unsigned_less [of k] by simp
  then have "sint (ucast k :: u64) = uint k"
    by (simp add: sint_uint unsigned_ucast_eq take_bit_int_eq_self)
      (rule signed_take_bit_int_eq_self, simp_all add: order_trans [of _ 0])
  then show ?thesis by (simp add: json_to_i64_def json_types types gets)
qed

lemma read_int_of_int: "in_i32 i \<Longrightarrow> lo \<le> i \<Longrightarrow> read_int J lo (jof_int J i) = Some i"
  using json_i64_of_int [of i] by (simp add: read_int_def in_i32_def)

lemma finite_float_back:
  assumes "fits Single q" and "0 < q"
  shows "json_to_finite_float J (jof_float J (fp_cast Double (Fin q))) = Some (Fin q)"
proof -
  have "fp_cast Double (Fin q) = Fin q" using assms by (simp add: round_fits fits_Single_Double)
  moreover have "\<not> q < float_lowest" using assms(2) by (simp add: float_lowest_def)
  ultimately show ?thesis
    using fits_single_max [OF assms(1)] assms
    by (simp add: json_to_finite_float_def json_types types gets round_fits)
qed

lemma optional_of_object:
  "distinct (List.map fst kvs) \<Longrightarrow> map_of kvs key = Some v \<Longrightarrow>
     optional J (jof_object J kvs) key reader a = reader v a"
  by (simp add: optional_def contains_def at_key_def object_get)

lemma toggles_back:
  "read_poi_types J (toggles_to_json J t) e = Some (e\<lparr>exp_poi_types := t\<rparr>)"
  unfolding toggles_to_json_def read_poi_types_def
  by (simp add: optional_of_object read_toggle_def json_types types gets)

lemma expansion_back:
  assumes "expansion_typed (gp_expansion p)" and "expansion_sane (gp_expansion p)"
  shows "read_expansion J (jof_object J (profile_fields J p)) e0 = Some (gp_expansion p)"
proof -
  obtain q where q: "0 < q" "exp_loot_bias_multiplier (gp_expansion p) = Fin q" "fits Single q"
    using assms by (auto simp: expansion_sane_def expansion_typed_def)
  note field = optional_of_object [OF distinct_profile_fields]
  show ?thesis
    using assms q finite_float_back [OF q(3,1)]
    unfolding read_expansion_def expansion_sane_def expansion_typed_def
    by (simp add: field profile_field read_enabled_def read_density_def read_cell_size_def
        read_jitter_def read_spacing_def toggles_back read_bias_def read_int_of_int parse_density
        json_types types gets fp_le_def)
qed

lemma profile_back:
  assumes "expansion_typed (gp_expansion p)"
  shows "profile_from_json J (profile_to_json J p) = Some (sanitize_profile p)"
proof -
  let ?s = "sanitize_profile p"
  have typed: "expansion_typed (gp_expansion ?s)" and sane: "expansion_sane (gp_expansion ?s)"
    using typed_sanitize [OF assms] by (simp_all add: sanitize_profile_def sane_sanitize)
  have "uint (gp_world_seed ?s) \<le> 4294967295" using unsigned_less [of "gp_world_seed ?s", where 'a = int] by simp
  then have seed: "optional J (profile_to_json J p) ''seed'' (read_seed J) default_profile =
      Some (default_profile\<lparr>gp_world_seed := gp_world_seed ?s\<rparr>)"
    unfolding profile_to_json_def
    by (simp add: optional_of_object [OF distinct_profile_fields] profile_field read_seed_def json_i64_of_u32)
  have "sanitize_profile (default_profile\<lparr>gp_world_seed := gp_world_seed ?s, gp_expansion := gp_expansion ?s\<rparr>) = ?s"
    using sane by (cases p) (simp add: sanitize_profile_def sanitize_sane default_profile_def)
  then show ?thesis
    unfolding profile_from_json_def seed
    using expansion_back [OF typed sane] by (simp add: profile_to_json_def json_types types)
qed

end

text \<open>Writing a generation profile as JSON and reading it back gives the sanitized profile: every member
  survives, the 32-bit seed, the \<open>int\<close> members and the \<open>float\<close> multiplier that travels as a
  \<open>double\<close> included. What is read back is sane: a positive cell size, a jitter that keeps a point of
  interest in its cell, a positive finite multiplier, and at least one kind of point of interest.\<close>

theorem profile_json_roundtrip:
  assumes "json_library J good" and "expansion_typed (gp_expansion p)"
  shows "profile_from_json J (profile_to_json J p) = Some (sanitize_profile p)
    \<and> expansion_sane (gp_expansion (sanitize_profile p))"
  using json_library.profile_back [OF assms] by (simp add: sanitize_profile_def sane_sanitize)

text \<open>A profile whose jitter is too large for its cells of one chunk: it comes back with the jitter cut to 15.\<close>

definition wide_profile :: generation_profile where
  "wide_profile = default_profile\<lparr>gp_expansion := default_expansion\<lparr>exp_cell_size_chunks := 1, exp_jitter_units := 40\<rparr>\<rparr>"

theorem profile_json_roundtrip_witness:
  "map_option (\<lambda>p. exp_jitter_units (gp_expansion p))
     (profile_from_json text_json (profile_to_json text_json wide_profile)) = Some 15"
proof -
  have "\<forall>q. litF (5 / 4) = Fin q \<longrightarrow> fits Single q"
    by (metis default_multiplier fits_multiplier fp.inject)
  then have "expansion_typed (gp_expansion wide_profile)"
    by (simp add: expansion_typed_def wide_profile_def default_profile_def default_expansion_def in_i32_def)
  from profile_json_roundtrip [OF text_json_library this]
  show ?thesis
    by (simp add: wide_profile_def default_profile_def default_expansion_def sanitize_profile_def
        sanitize_expansion_def Let_def clamp_int_def max_jitter_small)
qed

end
