(* ===== verification/Voxel_Chunk.thy ===== *)
theory Voxel_Chunk
  imports Floating
begin

text \<open>
  One chunk of 32 x 32 x 32 blocks (shared/voxel/Chunk.h, shared/src/voxel/Chunk.cpp): the flat array
  behind \<open>get\<close> and \<open>set\<close>, and the mesh of the visible faces. The \<open>std::array\<close> is the function from
  positions to values; \<open>index_bound\<close> shows that no access leaves the array. The mesh is proved equal
  to a declarative one: a quad for each face between a block and air.
\<close>

section \<open>The block array\<close>

type_synonym block_id = u8

definition chunk_size :: int where "chunk_size = 32"
definition chunk_volume :: nat where "chunk_volume = 32768"

record chunk =
  block_array :: "nat \<Rightarrow> block_id"

definition empty_chunk :: chunk where
  "empty_chunk = \<lparr>block_array = (\<lambda>_. 0)\<rparr>"

definition index :: "int \<Rightarrow> int \<Rightarrow> int \<Rightarrow> nat" where
  "index x y z = nat (x + y * chunk_size + z * chunk_size * chunk_size)"

definition is_inside :: "int \<Rightarrow> int \<Rightarrow> int \<Rightarrow> bool" where
  "is_inside x y z \<longleftrightarrow> 0 \<le> x \<and> x < chunk_size \<and> 0 \<le> y \<and> y < chunk_size \<and> 0 \<le> z \<and> z < chunk_size"

definition chunk_get :: "chunk \<Rightarrow> int \<Rightarrow> int \<Rightarrow> int \<Rightarrow> block_id" where
  "chunk_get c x y z = (if \<not> is_inside x y z then 0 else block_array c (index x y z))"

definition chunk_set :: "chunk \<Rightarrow> int \<Rightarrow> int \<Rightarrow> int \<Rightarrow> block_id \<Rightarrow> chunk" where
  "chunk_set c x y z b = (if \<not> is_inside x y z then c
     else c\<lparr>block_array := (block_array c)(index x y z := b)\<rparr>)"

text \<open>Every access is inside the array, and no two positions share a cell.\<close>

lemma index_bound: "is_inside x y z \<Longrightarrow> index x y z < chunk_volume"
  by (simp add: is_inside_def index_def chunk_size_def chunk_volume_def nat_less_iff)

lemma index_decode:
  assumes "is_inside x y z"
  shows "int (index x y z) mod 32 = x" and "int (index x y z) div 32 mod 32 = y"
    and "int (index x y z) div 1024 = z"
proof -
  from assms have r: "0 \<le> x" "x < 32" "0 \<le> y" "y < 32" "0 \<le> z" "z < 32"
    by (simp_all add: is_inside_def chunk_size_def)
  then have i: "int (index x y z) = x + y * 32 + z * 1024"
    by (simp add: index_def chunk_size_def)
  have split: "x + y * 32 + z * 1024 = x + (y + z * 32) * 32" by simp
  have q: "(x + (y + z * 32) * 32) div 32 = y + z * 32"
    using r(1,2) by (subst div_mult_self1) simp_all
  have "(x + (y + z * 32) * 32) mod 32 = x" using r(1,2) by (subst mod_mult_self1) simp
  moreover have "(x + (y + z * 32) * 32) div 32 mod 32 = y"
    unfolding q using r(3,4) by (subst mod_mult_self1) simp
  moreover have "(x + (y + z * 32) * 32) div 1024 = z"
    using r(3,4) zdiv_zmult2_eq [of 32 "x + (y + z * 32) * 32" 32] unfolding q by simp
  ultimately show "int (index x y z) mod 32 = x" and "int (index x y z) div 32 mod 32 = y"
    and "int (index x y z) div 1024 = z"
    unfolding i split by simp_all
qed

lemma index_eq_iff:
  assumes "is_inside x y z" and "is_inside x' y' z'"
  shows "index x y z = index x' y' z' \<longleftrightarrow> x = x' \<and> y = y' \<and> z = z'"
  using index_decode [OF assms(1)] index_decode [OF assms(2)] by metis

lemma index_surj: "i < chunk_volume \<Longrightarrow> \<exists>x y z. is_inside x y z \<and> index x y z = i"
proof -
  assume i: "i < chunk_volume"
  let ?i = "int i"
  have "0 \<le> ?i" and "?i < 32768" using i by (simp_all add: chunk_volume_def)
  then have "?i div 1024 < 32" and "0 \<le> ?i div 1024" by linarith+
  then have "is_inside (?i mod 32) (?i div 32 mod 32) (?i div 1024)"
    by (simp add: is_inside_def chunk_size_def)
  moreover have "?i mod 32 + ?i div 32 mod 32 * 32 + ?i div 1024 * 1024 = ?i"
    using mult_div_mod_eq [of 32 ?i] mult_div_mod_eq [of 32 "?i div 32"] zdiv_zmult2_eq [of 32 ?i 32, simplified]
    by linarith
  then have "index (?i mod 32) (?i div 32 mod 32) (?i div 1024) = i"
    by (simp add: index_def chunk_size_def)
  ultimately show ?thesis by blast
qed

lemma get_set:
  "chunk_get (chunk_set c x y z b) x' y' z' =
     (if is_inside x y z \<and> x' = x \<and> y' = y \<and> z' = z then b else chunk_get c x' y' z')"
  by (auto simp: chunk_get_def chunk_set_def index_eq_iff)

lemma get_outside: "\<not> is_inside x y z \<Longrightarrow> chunk_get c x y z = 0"
  by (simp add: chunk_get_def)

lemma get_empty [simp]: "chunk_get empty_chunk x y z = 0"
  by (simp add: chunk_get_def empty_chunk_def)

text \<open>Nothing is ever written past the array, so that a chunk is its blocks.\<close>

definition chunk_wf :: "chunk \<Rightarrow> bool" where
  "chunk_wf c \<longleftrightarrow> (\<forall>i \<ge> chunk_volume. block_array c i = 0)"

lemma wf_empty [simp]: "chunk_wf empty_chunk"
  by (simp add: chunk_wf_def empty_chunk_def)

lemma wf_set [simp]: "chunk_wf c \<Longrightarrow> chunk_wf (chunk_set c x y z b)"
  using index_bound [of x y z] by (auto simp: chunk_wf_def chunk_set_def leD)

lemma chunk_eqI:
  assumes "chunk_wf c" and "chunk_wf d" and "\<And>x y z. is_inside x y z \<Longrightarrow> chunk_get c x y z = chunk_get d x y z"
  shows "c = d"
proof -
  have "block_array c i = block_array d i" for i
  proof (cases "i < chunk_volume")
    case True
    then obtain x y z where "is_inside x y z" and "index x y z = i" using index_surj by blast
    with assms(3) [of x y z] show ?thesis by (simp add: chunk_get_def)
  next
    case False
    with assms(1,2) show ?thesis by (simp add: chunk_wf_def)
  qed
  then show ?thesis by (simp add: fun_eq_iff)
qed

section \<open>The mesh\<close>

record vertex =
  v_x :: fp
  v_y :: fp
  v_z :: fp
  v_r :: u8
  v_g :: u8
  v_b :: u8
  v_a :: u8
  v_nx :: fp
  v_ny :: fp
  v_nz :: fp

record mesh_data =
  mesh_vertices :: "vertex list"
  mesh_indices :: "u32 list"

record color =
  col_r :: u8
  col_g :: u8
  col_b :: u8
  col_a :: u8

definition block_color :: "block_id \<Rightarrow> color" where
  "block_color b =
     (if b = 1 then \<lparr>col_r = 0x7A, col_g = 0x5C, col_b = 0x3A, col_a = 0xFF\<rparr>
      else if b = 2 then \<lparr>col_r = 0x88, col_g = 0x88, col_b = 0x88, col_a = 0xFF\<rparr>
      else if b = 3 then \<lparr>col_r = 0x2E, col_g = 0x8B, col_b = 0x57, col_a = 0xFF\<rparr>
      else \<lparr>col_r = 0, col_g = 0, col_b = 0, col_a = 0\<rparr>)"

record face =
  corners :: "(int \<times> int \<times> int) list"
  normal :: "rat \<times> rat \<times> rat"

definition faces :: "face list" where
  "faces =
    [\<lparr>corners = [(1, 0, 0), (1, 1, 0), (1, 1, 1), (1, 0, 1)], normal = (1, 0, 0)\<rparr>,
     \<lparr>corners = [(0, 0, 1), (0, 1, 1), (0, 1, 0), (0, 0, 0)], normal = (- 1, 0, 0)\<rparr>,
     \<lparr>corners = [(0, 1, 1), (1, 1, 1), (1, 1, 0), (0, 1, 0)], normal = (0, 1, 0)\<rparr>,
     \<lparr>corners = [(0, 0, 0), (1, 0, 0), (1, 0, 1), (0, 0, 1)], normal = (0, - 1, 0)\<rparr>,
     \<lparr>corners = [(0, 0, 1), (1, 0, 1), (1, 1, 1), (0, 1, 1)], normal = (0, 0, 1)\<rparr>,
     \<lparr>corners = [(1, 0, 0), (0, 0, 0), (0, 1, 0), (1, 1, 0)], normal = (0, 0, - 1)\<rparr>]"

definition neighbor_offsets :: "(int \<times> int \<times> int) list" where
  "neighbor_offsets = [(1, 0, 0), (- 1, 0, 0), (0, 1, 0), (0, - 1, 0), (0, 0, 1), (0, 0, - 1)]"

definition corner_vertex :: "int \<Rightarrow> int \<Rightarrow> int \<Rightarrow> color \<Rightarrow> rat \<times> rat \<times> rat \<Rightarrow> int \<times> int \<times> int \<Rightarrow> vertex" where
  "corner_vertex x y z col n corner =
     \<lparr>v_x = fp_of_int Single (x + fst corner),
      v_y = fp_of_int Single (y + fst (snd corner)),
      v_z = fp_of_int Single (z + snd (snd corner)),
      v_r = col_r col, v_g = col_g col, v_b = col_b col, v_a = col_a col,
      v_nx = litF (fst n), v_ny = litF (fst (snd n)), v_nz = litF (snd (snd n))\<rparr>"

definition quad_indices :: "u32 \<Rightarrow> u32 list" where
  "quad_indices base = [base, base + 1, base + 2, base + 2, base + 3, base]"

definition face_hidden :: "chunk \<Rightarrow> int \<Rightarrow> int \<Rightarrow> int \<Rightarrow> nat \<Rightarrow> bool" where
  "face_hidden c x y z f = (let offset = neighbor_offsets ! f
     in chunk_get c (x + fst offset) (y + fst (snd offset)) (z + snd (snd offset)) \<noteq> 0)"

definition quad :: "int \<Rightarrow> int \<Rightarrow> int \<Rightarrow> color \<Rightarrow> nat \<Rightarrow> vertex list" where
  "quad x y z col f = List.map (corner_vertex x y z col (normal (faces ! f))) (corners (faces ! f))"

definition mesh_face :: "chunk \<Rightarrow> int \<Rightarrow> int \<Rightarrow> int \<Rightarrow> color \<Rightarrow> nat \<Rightarrow> mesh_data \<Rightarrow> mesh_data" where
  "mesh_face c x y z col f mesh =
     (if face_hidden c x y z f then mesh
      else let base_index = word_of_nat (length (mesh_vertices mesh)) in
        \<lparr>mesh_vertices = mesh_vertices mesh @ quad x y z col f,
         mesh_indices = mesh_indices mesh @ quad_indices base_index\<rparr>)"

definition mesh_block :: "chunk \<Rightarrow> int \<Rightarrow> int \<Rightarrow> int \<Rightarrow> mesh_data \<Rightarrow> mesh_data" where
  "mesh_block c x y z mesh =
     (let b = chunk_get c x y z in
      if b = 0 then mesh
      else let col = block_color b in fold (mesh_face c x y z col) [0..<length faces] mesh)"

definition axis :: "int list" where "axis = [0..chunk_size - 1]"

definition build_mesh :: "chunk \<Rightarrow> mesh_data" where
  "build_mesh c =
     fold (\<lambda>z. fold (\<lambda>y. fold (\<lambda>x. mesh_block c x y z) axis) axis) axis
       \<lparr>mesh_vertices = [], mesh_indices = []\<rparr>"

section \<open>The mesh is the visible faces\<close>

text \<open>The faces between a block and air (or the outside of the chunk), in the order of the loops.\<close>

definition visible_of_block :: "chunk \<Rightarrow> int \<Rightarrow> int \<Rightarrow> int \<Rightarrow> (int \<times> int \<times> int \<times> nat) list" where
  "visible_of_block c x y z = (if chunk_get c x y z = 0 then []
     else List.map (\<lambda>f. (x, y, z, f)) (filter (\<lambda>f. \<not> face_hidden c x y z f) [0..<length faces]))"

definition visible_faces :: "chunk \<Rightarrow> (int \<times> int \<times> int \<times> nat) list" where
  "visible_faces c =
     concat (List.map (\<lambda>z. concat (List.map (\<lambda>y. concat (List.map (\<lambda>x. visible_of_block c x y z) axis)) axis)) axis)"

definition face_quad :: "chunk \<Rightarrow> int \<times> int \<times> int \<times> nat \<Rightarrow> vertex list" where
  "face_quad c = (\<lambda>(x, y, z, f). quad x y z (block_color (chunk_get c x y z)) f)"

definition add_quad :: "vertex list \<Rightarrow> mesh_data \<Rightarrow> mesh_data" where
  "add_quad q mesh =
     \<lparr>mesh_vertices = mesh_vertices mesh @ q,
      mesh_indices = mesh_indices mesh @ quad_indices (word_of_nat (length (mesh_vertices mesh)))\<rparr>"

lemma fold_concat_map: "fold (\<lambda>x. fold f (g x)) xs = fold f (concat (List.map g xs))"
  by (induction xs) (simp_all add: fun_eq_iff)

lemma mesh_block_faces: "mesh_block c x y z = fold (add_quad \<circ> face_quad c) (visible_of_block c x y z)"
proof -
  let ?col = "block_color (chunk_get c x y z)"
  have step: "mesh_face c x y z ?col f mesh =
      fold (add_quad \<circ> face_quad c) (if face_hidden c x y z f then [] else [(x, y, z, f)]) mesh" for f mesh
    by (simp add: mesh_face_def add_quad_def face_quad_def Let_def)
  have "fold (mesh_face c x y z ?col) fs =
      fold (add_quad \<circ> face_quad c) (List.map (\<lambda>f. (x, y, z, f)) (filter (\<lambda>f. \<not> face_hidden c x y z f) fs))" for fs
    by (induction fs) (simp_all add: step [abs_def] fun_eq_iff)
  then show ?thesis
    by (simp add: fun_eq_iff mesh_block_def visible_of_block_def Let_def)
qed

lemma build_mesh_fold:
  "build_mesh c = fold add_quad (List.map (face_quad c) (visible_faces c)) \<lparr>mesh_vertices = [], mesh_indices = []\<rparr>"
  by (simp add: build_mesh_def visible_faces_def mesh_block_faces fold_concat_map [abs_def] fold_map)

lemma length_face_quad: "(x, y, z, f) \<in> set (visible_faces c) \<Longrightarrow> length (face_quad c (x, y, z, f)) = 4"
proof -
  assume "(x, y, z, f) \<in> set (visible_faces c)"
  then have "f < length faces" by (auto simp: visible_faces_def visible_of_block_def split: if_splits)
  then have "faces ! f \<in> set faces" by simp
  then have "length (corners (faces ! f)) = 4" unfolding faces_def by auto
  then show ?thesis by (simp add: face_quad_def quad_def)
qed

lemma fold_add_quad:
  assumes "\<forall>q \<in> set qs. length q = 4"
  shows "fold add_quad qs mesh =
    \<lparr>mesh_vertices = mesh_vertices mesh @ concat qs,
     mesh_indices = mesh_indices mesh @
       concat (List.map (\<lambda>i. quad_indices (word_of_nat (length (mesh_vertices mesh) + 4 * i))) [0..<length qs])\<rparr>"
  using assms
proof (induction qs arbitrary: mesh)
  case (Cons q qs)
  have "[0..<Suc (length qs)] = 0 # List.map Suc [0..<length qs]"
    by (simp only: upt_conv_Cons map_Suc_upt zero_less_Suc)
  with Cons show ?case
    by (simp add: add_quad_def comp_def algebra_simps del: upt_Suc)
qed simp

lemma length_axis: "length axis = 32"
  by (simp add: axis_def chunk_size_def)

lemma length_concat_bound: "\<forall>x \<in> set xs. length (g x) \<le> n \<Longrightarrow> length (concat (List.map g xs)) \<le> length xs * n"
  by (induction xs) auto

lemma length_faces: "length faces = 6"
  by (simp add: faces_def)

lemma length_visible: "length (visible_faces c) \<le> 6 * chunk_volume"
proof -
  have b: "length (visible_of_block c x y z) \<le> 6" for x y z
    using length_filter_le [of "\<lambda>f. \<not> face_hidden c x y z f" "[0..<length faces]"]
    by (simp add: visible_of_block_def length_faces del: upt_Suc)
  have "length (concat (List.map (\<lambda>x. visible_of_block c x y z) axis)) \<le> length axis * 6" for y z
    by (rule length_concat_bound) (simp add: b)
  then have "length (concat (List.map (\<lambda>y. concat (List.map (\<lambda>x. visible_of_block c x y z) axis)) axis))
      \<le> length axis * (length axis * 6)" for z
    by (intro length_concat_bound) simp
  then have "length (visible_faces c) \<le> length axis * (length axis * (length axis * 6))"
    unfolding visible_faces_def by (intro length_concat_bound) simp
  then show ?thesis by (simp add: length_axis chunk_volume_def)
qed

lemma length_concat_quads: "\<forall>q \<in> set qs. length q = 4 \<Longrightarrow> length (concat qs) = 4 * length qs"
  by (induction qs) auto

lemma quads_four: "\<forall>q \<in> set (List.map (face_quad c) (visible_faces c)). length q = 4"
  using length_face_quad by fastforce

section \<open>What a mesh has to show\<close>

text \<open>
  Independent of the tables of the code: a face is a block and one of the six unit directions; it is
  exposed if the neighbour in this direction is air or outside of the chunk.
\<close>

type_synonym triple = "int \<times> int \<times> int"

definition exposed_faces :: "chunk \<Rightarrow> (triple \<times> triple) set" where
  "exposed_faces c = {((x, y, z), (dx, dy, dz)). is_inside x y z \<and> chunk_get c x y z \<noteq> 0
     \<and> \<bar>dx\<bar> + \<bar>dy\<bar> + \<bar>dz\<bar> = 1 \<and> chunk_get c (x + dx) (y + dy) (z + dz) = 0}"

text \<open>The corners of the unit cube at \<open>(x, y, z)\<close> that lie on the side of a direction.\<close>

definition side_corners :: "triple \<Rightarrow> triple \<Rightarrow> triple set" where
  "side_corners = (\<lambda>(x, y, z) (dx, dy, dz). {(x + i, y + j, z + k) | i j k. {i, j, k} \<subseteq> {0, 1}
     \<and> (dx \<noteq> 0 \<longrightarrow> 2 * i - 1 = dx) \<and> (dy \<noteq> 0 \<longrightarrow> 2 * j - 1 = dy) \<and> (dz \<noteq> 0 \<longrightarrow> 2 * k - 1 = dz)})"

text \<open>The normal of a triangle: the cross product of two of its edges.\<close>

definition triangle_normal :: "triple \<Rightarrow> triple \<Rightarrow> triple \<Rightarrow> triple" where
  "triangle_normal = (\<lambda>(x0, y0, z0) (x1, y1, z1) (x2, y2, z2).
     ((y1 - y0) * (z2 - z0) - (z1 - z0) * (y2 - y0), (z1 - z0) * (x2 - x0) - (x1 - x0) * (z2 - z0),
      (x1 - x0) * (y2 - y0) - (y1 - y0) * (x2 - x0)))"

definition painted_vertex :: "block_id \<Rightarrow> triple \<Rightarrow> triple \<Rightarrow> vertex" where
  "painted_vertex b = (\<lambda>(dx, dy, dz) (x, y, z).
     \<lparr>v_x = Fin (of_int x), v_y = Fin (of_int y), v_z = Fin (of_int z),
      v_r = (if b = 1 then 0x7A else if b = 2 then 0x88 else if b = 3 then 0x2E else 0),
      v_g = (if b = 1 then 0x5C else if b = 2 then 0x88 else if b = 3 then 0x8B else 0),
      v_b = (if b = 1 then 0x3A else if b = 2 then 0x88 else if b = 3 then 0x57 else 0),
      v_a = (if b = 1 \<or> b = 2 \<or> b = 3 then 0xFF else 0),
      v_nx = Fin (of_int dx), v_ny = Fin (of_int dy), v_nz = Fin (of_int dz)\<rparr>)"

text \<open>Four vertices show a face: its corners, in an order in which both triangles face outwards.\<close>

definition shows_face :: "chunk \<Rightarrow> triple \<times> triple \<Rightarrow> vertex list \<Rightarrow> bool" where
  "shows_face c = (\<lambda>((x, y, z), d) q. \<exists>p0 p1 p2 p3.
     {p0, p1, p2, p3} = side_corners (x, y, z) d \<and> distinct [p0, p1, p2, p3]
     \<and> triangle_normal p0 p1 p2 = d \<and> triangle_normal p2 p3 p0 = d
     \<and> q = List.map (painted_vertex (chunk_get c x y z) d) [p0, p1, p2, p3])"

lemma small_coordinate: "0 \<le> k \<Longrightarrow> k \<le> 32 \<Longrightarrow> fp_of_int Single k = Fin (of_int k)"
  by (simp add: fp_of_int_def round_fits fits_of_int)

lemma unit_normals: "litF 1 = Fin 1" "litF 0 = Fin 0" "litF (- 1) = Fin (- 1)"
  by code_simp+

lemma side_corners_unit:
  "side_corners (x, y, z) (1, 0, 0) = {(x + 1, y, z), (x + 1, y + 1, z), (x + 1, y + 1, z + 1), (x + 1, y, z + 1)}"
  "side_corners (x, y, z) (- 1, 0, 0) = {(x, y, z + 1), (x, y + 1, z + 1), (x, y + 1, z), (x, y, z)}"
  "side_corners (x, y, z) (0, 1, 0) = {(x, y + 1, z + 1), (x + 1, y + 1, z + 1), (x + 1, y + 1, z), (x, y + 1, z)}"
  "side_corners (x, y, z) (0, - 1, 0) = {(x, y, z), (x + 1, y, z), (x + 1, y, z + 1), (x, y, z + 1)}"
  "side_corners (x, y, z) (0, 0, 1) = {(x, y, z + 1), (x + 1, y, z + 1), (x + 1, y + 1, z + 1), (x, y + 1, z + 1)}"
  "side_corners (x, y, z) (0, 0, - 1) = {(x + 1, y, z), (x, y, z), (x, y + 1, z), (x + 1, y + 1, z)}"
  by (auto simp: side_corners_def)

lemma quad_shows_face:
  assumes "is_inside x y z" and "f < length faces"
  shows "shows_face c ((x, y, z), neighbor_offsets ! f) (face_quad c (x, y, z, f))"
proof -
  have r: "0 \<le> x" "x \<le> 31" "0 \<le> y" "y \<le> 31" "0 \<le> z" "z \<le> 31"
    using assms(1) by (simp_all add: is_inside_def chunk_size_def)
  have "f \<in> {0, 1, 2, 3, 4, 5}" using assms(2) by (auto simp: length_faces)
  then show ?thesis
    using r by (elim insertE emptyE; hypsubst)
      (simp add: shows_face_def neighbor_offsets_def face_quad_def quad_def faces_def corner_vertex_def painted_vertex_def
        block_color_def small_coordinate unit_normals side_corners_unit;
       (rule exI)+; (intro conjI; (rule refl)?); simp add: triangle_normal_def)+
qed

text \<open>The faces of the loops as blocks with directions.\<close>

definition directed :: "int \<times> int \<times> int \<times> nat \<Rightarrow> triple \<times> triple" where
  "directed = (\<lambda>(x, y, z, f). ((x, y, z), neighbor_offsets ! f))"

lemma set_axis: "k \<in> set axis \<longleftrightarrow> 0 \<le> k \<and> k < 32"
  by (auto simp: axis_def chunk_size_def)

lemma in_visible_faces: "(x, y, z, f) \<in> set (visible_faces c) \<longleftrightarrow>
    is_inside x y z \<and> f < 6 \<and> chunk_get c x y z \<noteq> 0 \<and> \<not> face_hidden c x y z f"
proof -
  have block: "(x, y, z, f) \<in> set (visible_of_block c x' y' z') \<longleftrightarrow>
      x' = x \<and> y' = y \<and> z' = z \<and> f < 6 \<and> chunk_get c x y z \<noteq> 0 \<and> \<not> face_hidden c x y z f" for x' y' z'
    by (auto simp: visible_of_block_def length_faces)
  show ?thesis
    by (simp add: visible_faces_def block is_inside_def chunk_size_def conj_ac set_axis)
qed

lemma length_offsets: "length neighbor_offsets = 6"
  by (simp add: neighbor_offsets_def)

lemma unit_direction: "\<bar>dx\<bar> + \<bar>dy\<bar> + \<bar>dz\<bar> = (1 :: int) \<longleftrightarrow> (\<exists>f < 6. (dx, dy, dz) = neighbor_offsets ! f)"
proof
  assume "\<bar>dx\<bar> + \<bar>dy\<bar> + \<bar>dz\<bar> = 1"
  then have "(dx, dy, dz) \<in> set neighbor_offsets" by (auto simp: neighbor_offsets_def abs_if split: if_splits)
  then show "\<exists>f < 6. (dx, dy, dz) = neighbor_offsets ! f"
    by (metis in_set_conv_nth length_offsets)
next
  assume "\<exists>f < 6. (dx, dy, dz) = neighbor_offsets ! f"
  then have "(dx, dy, dz) \<in> set neighbor_offsets" by (metis nth_mem length_offsets)
  then show "\<bar>dx\<bar> + \<bar>dy\<bar> + \<bar>dz\<bar> = 1" by (auto simp: neighbor_offsets_def)
qed

lemma directed_exposed: "directed ` set (visible_faces c) = exposed_faces c"
proof (intro equalityI subsetI)
  fix e assume "e \<in> directed ` set (visible_faces c)"
  then obtain x y z f where v: "(x, y, z, f) \<in> set (visible_faces c)" and e: "e = ((x, y, z), neighbor_offsets ! f)"
    by (auto simp: directed_def)
  obtain dx dy dz where d: "neighbor_offsets ! f = (dx, dy, dz)" by (metis prod_cases3)
  with v have "\<bar>dx\<bar> + \<bar>dy\<bar> + \<bar>dz\<bar> = 1" unfolding unit_direction in_visible_faces by force
  with v show "e \<in> exposed_faces c" by (simp add: e d exposed_faces_def in_visible_faces face_hidden_def)
next
  fix e assume "e \<in> exposed_faces c"
  then obtain x y z dx dy dz where e: "e = ((x, y, z), (dx, dy, dz))" and b: "is_inside x y z" "chunk_get c x y z \<noteq> 0"
    and u: "\<bar>dx\<bar> + \<bar>dy\<bar> + \<bar>dz\<bar> = 1" and a: "chunk_get c (x + dx) (y + dy) (z + dz) = 0"
    by (auto simp: exposed_faces_def)
  obtain f where f: "f < 6" "(dx, dy, dz) = neighbor_offsets ! f" using u unit_direction by blast
  with b a have "(x, y, z, f) \<in> set (visible_faces c)"
    by (simp add: in_visible_faces face_hidden_def flip: f(2))
  then show "e \<in> directed ` set (visible_faces c)" unfolding e f(2) by (force simp: directed_def)
qed

lemma distinct_concat_keys:
  assumes "distinct xs" and "\<And>x. distinct (g x)" and "\<And>x y. y \<in> set (g x) \<Longrightarrow> key y = x"
  shows "distinct (concat (List.map g xs))"
  using assms(1)
proof (induction xs)
  case (Cons x xs)
  have "set (g x) \<inter> set (concat (List.map g xs)) = {}" using Cons.prems by (auto dest!: assms(3))
  with Cons assms(2) show ?case by simp
qed simp

lemma distinct_directed: "distinct (List.map directed (visible_faces c))"
proof -
  have axis: "distinct axis" by (simp add: axis_def)
  have block: "distinct (visible_of_block c x y z)" for x y z
    by (simp add: visible_of_block_def distinct_map inj_on_def)
  have row: "distinct (concat (List.map (\<lambda>x. visible_of_block c x y z) axis))" for y z
    by (rule distinct_concat_keys [where key = fst, OF axis block]) (auto simp: visible_of_block_def split: if_splits)
  have plane: "distinct (concat (List.map (\<lambda>y. concat (List.map (\<lambda>x. visible_of_block c x y z) axis)) axis))" for z
    by (rule distinct_concat_keys [where key = "\<lambda>p. fst (snd p)", OF axis row])
      (auto simp: visible_of_block_def split: if_splits)
  have "distinct (visible_faces c)"
    unfolding visible_faces_def
    by (rule distinct_concat_keys [where key = "\<lambda>p. fst (snd (snd p))", OF axis plane])
      (auto simp: visible_of_block_def split: if_splits)
  moreover have "distinct neighbor_offsets" "length neighbor_offsets = 6" by (simp_all add: neighbor_offsets_def)
  then have "inj_on directed (set (visible_faces c))"
    by (auto simp: inj_on_def directed_def in_visible_faces nth_eq_iff_index_eq)
  ultimately show ?thesis by (simp add: distinct_map)
qed

text \<open>C19: The mesh of a chunk shows each face of a block towards air or the outside of the chunk by one quad and
  nothing else: the four corners of this side of the block, both triangles facing outwards, with the
  normal of the side and the colour of the block. Its index list is the two triangles of each quad, and
  every index points at a vertex of the mesh: the 32-bit base index never wraps.\<close>

theorem mesh_of_visible_faces:
  "\<exists>fs qs. distinct fs \<and> set fs = exposed_faces c \<and> list_all2 (shows_face c) fs qs
    \<and> mesh_vertices (build_mesh c) = concat qs
    \<and> mesh_indices (build_mesh c) =
        concat (List.map (\<lambda>i. let b = word_of_nat (4 * i) in [b, b + 1, b + 2, b + 2, b + 3, b]) [0..<length fs])
    \<and> list_all (\<lambda>i. unat i < length (mesh_vertices (build_mesh c))) (mesh_indices (build_mesh c))"
proof -
  let ?qs = "List.map (face_quad c) (visible_faces c)"
  have m: "build_mesh c = \<lparr>mesh_vertices = concat ?qs,
      mesh_indices = concat (List.map (\<lambda>i. quad_indices (word_of_nat (4 * i))) [0..<length (visible_faces c)])\<rparr>"
    unfolding build_mesh_fold by (subst fold_add_quad [OF quads_four]) simp
  have len: "length (concat ?qs) = 4 * length (visible_faces c)"
    using length_concat_quads [OF quads_four] by simp
  have "unat j < 4 * length (visible_faces c)"
    if "i < length (visible_faces c)" and j: "j \<in> set (quad_indices (word_of_nat (4 * i)))" for i j
  proof -
    have "4 * i + 3 < 2 ^ 32" using that(1) length_visible [of c] by (simp add: chunk_volume_def)
    then have "unat (word_of_nat (4 * i) + of_nat k :: u32) = 4 * i + k" if "k \<le> 3" for k
      using that unat_of_nat [where 'a = 32, of "4 * i + k"] by simp
    from this [of 0] this [of 1] this [of 2] this [of 3] j that(1) show ?thesis
      by (auto simp: quad_indices_def)
  qed
  then have bound: "list_all (\<lambda>i. unat i < length (mesh_vertices (build_mesh c))) (mesh_indices (build_mesh c))"
    by (auto simp: m len list_all_iff)
  have shown: "list_all2 (shows_face c) (List.map directed (visible_faces c)) ?qs"
    by (auto simp: list_all2_map1 list_all2_map2 list.rel_refl_strong directed_def in_visible_faces length_faces
      intro!: list.rel_refl_strong quad_shows_face)
  have "set (List.map directed (visible_faces c)) = exposed_faces c" by (simp add: directed_exposed)
  then show ?thesis
    using shown bound distinct_directed [of c] by (intro exI [of _ "List.map directed (visible_faces c)"] exI [of _ ?qs])
      (simp add: m quad_indices_def Let_def)
qed

end
