(* ===== verification/World_Gen.thy ===== *)
theory World_Gen
  imports Voxel_Chunk World_Profile
begin

unbundle bit_operations_syntax

text \<open>
  Terrain and points of interest, the anonymous namespace of shared/src/voxel/World.cpp: the height
  noise, the hashes of a cell, the candidate of a cell, the spacing test between candidates, the
  candidates that concern a chunk, and the blocks that each kind of point of interest writes.

  An \<open>int\<close> product that can leave the 32 bits is written with \<open>wrap_i32\<close> or as a word; the standard
  leaves it undefined. The writes of a stamp are listed in the order of its loops; the stamp is the fold
  of the list.
\<close>

section \<open>Height\<close>

definition hash_noise :: "int \<Rightarrow> int \<Rightarrow> fp" where
  "hash_noise x z =
     (let n = word_of_int (x * 73856093) XOR word_of_int (z * 19349663) :: u32;
          n = push_bit 13 n XOR n;
          masked = (n * (n * n * 15731 + 789221) + 1376312589) AND 0x7fffffff
      in subF (Fin 1) (divF (fp_of_int Single (uint masked)) (litF 1073741824)))"

definition smooth_noise :: "int \<Rightarrow> int \<Rightarrow> fp" where
  "smooth_noise x z =
     (let corners = mulF (addF (addF (addF (hash_noise (x - 1) (z - 1)) (hash_noise (x + 1) (z - 1)))
            (hash_noise (x - 1) (z + 1))) (hash_noise (x + 1) (z + 1))) (litF (1 / 16));
          sides = mulF (addF (addF (addF (hash_noise (x - 1) z) (hash_noise (x + 1) z))
            (hash_noise x (z - 1))) (hash_noise x (z + 1))) (litF (1 / 8));
          center = mulF (hash_noise x z) (litF (1 / 4))
      in addF (addF corners sides) center)"

definition interpolated_noise :: "fp \<Rightarrow> fp \<Rightarrow> fp" where
  "interpolated_noise x z =
     (let int_x = fp_to_i32 (fp_floor x);
          int_z = fp_to_i32 (fp_floor z);
          frac_x = subF x (fp_of_int Single int_x);
          frac_z = subF z (fp_of_int Single int_z);
          v1 = smooth_noise int_x int_z;
          v2 = smooth_noise (int_x + 1) int_z;
          v3 = smooth_noise int_x (int_z + 1);
          v4 = smooth_noise (int_x + 1) (int_z + 1);
          i1 = addF v1 (mulF (subF v2 v1) frac_x);
          i2 = addF v3 (mulF (subF v4 v3) frac_x)
      in addF i1 (mulF (subF i2 i1) frac_z))"

text \<open>One octave, on the total, the frequency and the amplitude.\<close>

definition octave :: "fp \<Rightarrow> fp \<Rightarrow> fp \<times> fp \<times> fp \<Rightarrow> fp \<times> fp \<times> fp" where
  "octave x z acc = (let total = fst acc; frequency = fst (snd acc); amplitude = snd (snd acc) in
     (addF total (mulF (interpolated_noise (mulF x frequency) (mulF z frequency)) amplitude),
      mulF frequency (litF 2), mulF amplitude (litF (1 / 2))))"

definition perlin :: "fp \<Rightarrow> fp \<Rightarrow> fp" where
  "perlin x z = fst ((octave x z ^^ 4) (Fin 0, litF (4 / 100), Fin 1))"

definition sample_height :: "int \<Rightarrow> int \<Rightarrow> int \<Rightarrow> int" where
  "sample_height world_x world_z max_height =
     (if max_height \<le> 0 then 0
      else let height_noise = perlin (fp_of_int Single world_x) (fp_of_int Single world_z);
               height = fp_to_i32 (mulF (mulF (addF height_noise (Fin 1)) (litF (1 / 2))) (fp_of_int Single max_height))
        in clamp_int height 1 max_height)"

section \<open>Hashes\<close>

definition splitmix64 :: "u64 \<Rightarrow> u64" where
  "splitmix64 value =
     (let z = value + 0x9E3779B97F4A7C15;
          z = (z XOR drop_bit 30 z) * 0xBF58476D1CE4E5B9;
          z = (z XOR drop_bit 27 z) * 0x94D049BB133111EB
      in z XOR drop_bit 31 z)"

definition hash_world :: "u32 \<Rightarrow> int \<Rightarrow> int \<Rightarrow> u64 \<Rightarrow> u64" where
  "hash_world world_seed x z salt =
     (let ux = ucast (word_of_int x :: u32) :: u64;
          uz = ucast (word_of_int z :: u32) :: u64;
          mixed = ucast world_seed XOR push_bit 1 ux XOR push_bit 33 uz XOR salt
      in splitmix64 mixed)"

definition hash_unit_float :: "u64 \<Rightarrow> fp" where
  "hash_unit_float h =
     (let inv = divD (Fin 1) (fp_of_int Double 4294967295);
          lower = ucast (h AND 0xFFFFFFFF) :: u32
      in fp_cast Single (mulD (fp_of_int Double (uint lower)) inv))"

definition hash_signed_range :: "u64 \<Rightarrow> int \<Rightarrow> int \<Rightarrow> int" where
  "hash_signed_range h min_value max_value =
     (if max_value \<le> min_value then min_value
      else let span = word_of_int (wrap_i32 (max_value - min_value + 1)) :: u64
        in min_value + wrap_i32 (uint (h mod span)))"

definition floor_div :: "int \<Rightarrow> int \<Rightarrow> int" where
  "floor_div value divisor =
     (if divisor \<le> 0 then 0
      else let quotient = c_div value divisor; remainder = c_mod value divisor in
        if remainder = 0 then quotient
        else if (value < 0) \<noteq> (divisor < 0) then quotient - 1
        else quotient)"

section \<open>Candidates\<close>

datatype poi_type = Outpost | Ruins | LootShrine

record poi_candidate =
  pc_type :: poi_type
  pc_center_x :: int
  pc_center_z :: int
  pc_cell_x :: int
  pc_cell_z :: int
  pc_radius_units :: int
  pc_rank :: u64
  pc_valid :: bool

definition no_candidate :: poi_candidate where
  "no_candidate = \<lparr>pc_type = Outpost, pc_center_x = 0, pc_center_z = 0, pc_cell_x = 0, pc_cell_z = 0,
     pc_radius_units = 0, pc_rank = 0, pc_valid = False\<rparr>"

fun poi_radius_units :: "poi_type \<Rightarrow> int" where
  "poi_radius_units Outpost = 8"
| "poi_radius_units Ruins = 7"
| "poi_radius_units LootShrine = 5"

fun poi_ordinal :: "poi_type \<Rightarrow> int" where
  "poi_ordinal Outpost = 0"
| "poi_ordinal Ruins = 1"
| "poi_ordinal LootShrine = 2"

definition candidate_rank_less :: "poi_candidate \<Rightarrow> poi_candidate \<Rightarrow> bool" where
  "candidate_rank_less lhs rhs =
     (if pc_rank lhs \<noteq> pc_rank rhs then pc_rank lhs < pc_rank rhs
      else if pc_cell_x lhs \<noteq> pc_cell_x rhs then pc_cell_x lhs < pc_cell_x rhs
      else pc_cell_z lhs < pc_cell_z rhs)"

definition intersects_chunk :: "poi_candidate \<Rightarrow> int \<Rightarrow> int \<Rightarrow> bool" where
  "intersects_chunk candidate chunk_x chunk_z =
     (let chunk_min_x = chunk_x * chunk_size; chunk_max_x = chunk_min_x + (chunk_size - 1);
          chunk_min_z = chunk_z * chunk_size; chunk_max_z = chunk_min_z + (chunk_size - 1);
          nearest_x = clamp_int (pc_center_x candidate) chunk_min_x chunk_max_x;
          nearest_z = clamp_int (pc_center_z candidate) chunk_min_z chunk_max_z;
          dx = pc_center_x candidate - nearest_x;
          dz = pc_center_z candidate - nearest_z;
          radius = pc_radius_units candidate
      in wrap_i32 (dx * dx + dz * dz) \<le> radius * radius)"

definition enabled_types :: "poi_type_toggles \<Rightarrow> poi_type list" where
  "enabled_types t = (if tog_outpost t then [Outpost] else []) @ (if tog_ruins t then [Ruins] else [])
     @ (if tog_loot_shrine t then [LootShrine] else [])"

definition cell_size_units :: "generation_profile \<Rightarrow> int" where
  "cell_size_units p = wrap_i32 (max 1 (exp_cell_size_chunks (gp_expansion p)) * chunk_size)"

text \<open>The coordinate of the candidate of a cell along one axis: the middle of the cell, moved by the jitter.\<close>

definition cell_center :: "generation_profile \<Rightarrow> int \<Rightarrow> int" where
  "cell_center p cell = wrap_i32 (cell * cell_size_units p + c_div (cell_size_units p) 2)"

definition cell_offset :: "generation_profile \<Rightarrow> int \<Rightarrow> int \<Rightarrow> u64 \<Rightarrow> int" where
  "cell_offset p cell_x cell_z salt =
     (let jitter = max 0 (exp_jitter_units (gp_expansion p))
      in hash_signed_range (hash_world (gp_world_seed p) cell_x cell_z salt) (- jitter) jitter)"

definition build_candidate :: "int \<Rightarrow> int \<Rightarrow> generation_profile \<Rightarrow> poi_candidate" where
  "build_candidate cell_x cell_z p =
     (if \<not> exp_enabled (gp_expansion p) then no_candidate
      else let types = enabled_types (exp_poi_types (gp_expansion p)) in
      if types = [] then no_candidate
      else if fp_lt (poi_density_spawn_probability (exp_poi_density (gp_expansion p)))
                (hash_unit_float (hash_world (gp_world_seed p) cell_x cell_z 0xA7F4C53D)) then no_candidate
      else let type_hash = hash_world (gp_world_seed p) cell_x cell_z 0x7F4A7C15;
               type = types ! unat (type_hash mod word_of_nat (length types));
               center_x = cell_center p cell_x + cell_offset p cell_x cell_z 0x1B7A0D11;
               center_z = cell_center p cell_z + cell_offset p cell_x cell_z 0x52A8749B in
        if center_x < 0 \<or> center_z < 0 then no_candidate
        else \<lparr>pc_type = type, pc_center_x = center_x, pc_center_z = center_z, pc_cell_x = cell_x,
               pc_cell_z = cell_z, pc_radius_units = poi_radius_units type,
               pc_rank = hash_world (gp_world_seed p) cell_x cell_z 0x93D76517, pc_valid = True\<rparr>)"

text \<open>One step of the spacing loop: the candidate at this offset leaves room, or ranks behind.\<close>

definition gives_way :: "poi_candidate \<Rightarrow> generation_profile \<Rightarrow> int \<Rightarrow> int \<Rightarrow> bool" where
  "gives_way candidate p dx dz =
     (if dx = 0 \<and> dz = 0 then True
      else let other = build_candidate (pc_cell_x candidate + dx) (pc_cell_z candidate + dz) p in
      if \<not> pc_valid other then True
      else let distance_x = pc_center_x other - pc_center_x candidate;
               distance_z = pc_center_z other - pc_center_z candidate;
               spacing = exp_min_poi_spacing_units (gp_expansion p) in
        if wrap_i32 (spacing * spacing) \<le> wrap_i32 (distance_x * distance_x + distance_z * distance_z) then True
        else \<not> candidate_rank_less other candidate)"

definition spacing_radius :: "generation_profile \<Rightarrow> int" where
  "spacing_radius p =
     max 1 (c_div (exp_min_poi_spacing_units (gp_expansion p)) (max 1 (cell_size_units p)) + 2)"

definition survives_spacing :: "poi_candidate \<Rightarrow> generation_profile \<Rightarrow> bool" where
  "survives_spacing candidate p =
     (if \<not> pc_valid candidate then False
      else if exp_min_poi_spacing_units (gp_expansion p) \<le> 0 then True
      else let r = spacing_radius p in
        list_all (\<lambda>dz. list_all (\<lambda>dx. gives_way candidate p dx dz) [- r..r]) [- r..r])"

section \<open>Stamps\<close>

type_synonym block_write = "int \<times> int \<times> int \<times> block_id"

definition set_block_if_in_chunk :: "int \<Rightarrow> int \<Rightarrow> int \<Rightarrow> int \<Rightarrow> block_write \<Rightarrow> chunk \<Rightarrow> chunk" where
  "set_block_if_in_chunk chunk_x chunk_y chunk_z max_height = (\<lambda>(world_x, world_y, world_z, block_id) chunk.
     if world_x < 0 \<or> world_y < 0 \<or> world_z < 0 \<or> max_height \<le> world_y then chunk
     else if c_div world_x chunk_size \<noteq> chunk_x \<or> c_div world_y chunk_size \<noteq> chunk_y
          \<or> c_div world_z chunk_size \<noteq> chunk_z then chunk
     else chunk_set chunk (c_mod world_x chunk_size) (c_mod world_y chunk_size) (c_mod world_z chunk_size) block_id)"

definition stamp_floor :: "int \<Rightarrow> int \<Rightarrow> int" where
  "stamp_floor base_height max_height = clamp_int (base_height - 1) 0 (max 0 (max_height - 1))"

definition outpost_writes :: "int \<Rightarrow> int \<Rightarrow> int \<Rightarrow> block_write list" where
  "outpost_writes center_x center_z floor_y =
     concat (List.map (\<lambda>dz. concat (List.map (\<lambda>dx.
         (center_x + dx, floor_y, center_z + dz, 2) #
         (if \<bar>dx\<bar> = 6 \<or> \<bar>dz\<bar> = 6
          then List.map (\<lambda>h. (center_x + dx, floor_y + h, center_z + dz, 2)) [1..3] else [])) [- 6..6])) [- 6..6])
     @ concat (List.map (\<lambda>gate_x. List.map (\<lambda>h. (center_x + gate_x, floor_y + h, center_z - 6, 0)) [1..2]) [- 1..1])
     @ List.map (\<lambda>h. (center_x + 5, floor_y + h, center_z + 5, 2)) [1..6]
     @ [(center_x + 5, floor_y + 7, center_z + 5, 3)]"

definition ruins_writes :: "u32 \<Rightarrow> int \<Rightarrow> int \<Rightarrow> int \<Rightarrow> block_write list" where
  "ruins_writes world_seed center_x center_z floor_y =
     concat (List.map (\<lambda>dz. concat (List.map (\<lambda>dx.
         let world_x = center_x + dx; world_z = center_z + dz in
         if \<not> (\<bar>dx\<bar> = 5 \<or> \<bar>dz\<bar> = 5)
         then [(world_x, floor_y, world_z, if (dx + dz) AND 1 = 0 then 2 else 1)]
         else if hash_world world_seed world_x world_z 0xC2B2AE3D mod 4 = 0 then []
         else List.map (\<lambda>h. (world_x, floor_y + h, world_z, 2)) [1..2]) [- 5..5])) [- 5..5])"

definition shrine_writes :: "int \<Rightarrow> int \<Rightarrow> int \<Rightarrow> block_write list" where
  "shrine_writes center_x center_z floor_y =
     concat (List.map (\<lambda>dz. concat (List.map (\<lambda>dx.
         if dx * dx + dz * dz \<le> 10 then [(center_x + dx, floor_y, center_z + dz, 2)] else []) [- 3..3])) [- 3..3])
     @ List.map (\<lambda>h. (center_x, floor_y + h, center_z, 2)) [1..3]
     @ [(center_x, floor_y + 4, center_z, 3)]
     @ List.map (\<lambda>(ox, oz). (center_x + ox, floor_y + 1, center_z + oz, 3)) [(3, 0), (- 3, 0), (0, 3), (0, - 3)]"

definition stamp_outpost :: "int \<Rightarrow> int \<Rightarrow> int \<Rightarrow> poi_candidate \<Rightarrow> int \<Rightarrow> int \<Rightarrow> chunk \<Rightarrow> chunk" where
  "stamp_outpost chunk_x chunk_y chunk_z candidate base_height max_height chunk =
     fold (set_block_if_in_chunk chunk_x chunk_y chunk_z max_height)
       (outpost_writes (pc_center_x candidate) (pc_center_z candidate) (stamp_floor base_height max_height)) chunk"

definition stamp_ruins :: "int \<Rightarrow> int \<Rightarrow> int \<Rightarrow> poi_candidate \<Rightarrow> int \<Rightarrow> int \<Rightarrow> u32 \<Rightarrow> chunk \<Rightarrow> chunk" where
  "stamp_ruins chunk_x chunk_y chunk_z candidate base_height max_height world_seed chunk =
     fold (set_block_if_in_chunk chunk_x chunk_y chunk_z max_height)
       (ruins_writes world_seed (pc_center_x candidate) (pc_center_z candidate) (stamp_floor base_height max_height)) chunk"

definition stamp_loot_shrine :: "int \<Rightarrow> int \<Rightarrow> int \<Rightarrow> poi_candidate \<Rightarrow> int \<Rightarrow> int \<Rightarrow> chunk \<Rightarrow> chunk" where
  "stamp_loot_shrine chunk_x chunk_y chunk_z candidate base_height max_height chunk =
     fold (set_block_if_in_chunk chunk_x chunk_y chunk_z max_height)
       (shrine_writes (pc_center_x candidate) (pc_center_z candidate) (stamp_floor base_height max_height)) chunk"

section \<open>The candidates of a chunk\<close>

definition candidate_less :: "poi_candidate \<Rightarrow> poi_candidate \<Rightarrow> bool" where
  "candidate_less lhs rhs =
     (if pc_center_x lhs \<noteq> pc_center_x rhs then pc_center_x lhs < pc_center_x rhs
      else if pc_center_z lhs \<noteq> pc_center_z rhs then pc_center_z lhs < pc_center_z rhs
      else poi_ordinal (pc_type lhs) < poi_ordinal (pc_type rhs))"

definition cell_range :: "generation_profile \<Rightarrow> int \<Rightarrow> int list" where
  "cell_range p chunk_axis =
     (let margin_units = 8 + max 0 (exp_jitter_units (gp_expansion p)) + cell_size_units p;
          chunk_min = chunk_axis * chunk_size;
          chunk_max = chunk_min + (chunk_size - 1)
      in [floor_div (chunk_min - margin_units) (cell_size_units p)
          ..floor_div (chunk_max + margin_units) (cell_size_units p)])"

definition concerns_chunk :: "generation_profile \<Rightarrow> int \<Rightarrow> int \<Rightarrow> poi_candidate \<Rightarrow> bool" where
  "concerns_chunk p chunk_x chunk_z candidate \<longleftrightarrow>
     \<not> (\<not> pc_valid candidate \<or> \<not> survives_spacing candidate p \<or> \<not> intersects_chunk candidate chunk_x chunk_z)"

definition gather_chunk_candidates :: "int \<Rightarrow> int \<Rightarrow> generation_profile \<Rightarrow> poi_candidate list" where
  "gather_chunk_candidates chunk_x chunk_z p =
     (if \<not> exp_enabled (gp_expansion p) then []
      else std_sort candidate_less (filter (concerns_chunk p chunk_x chunk_z)
        (concat (List.map (\<lambda>cell_z. List.map (\<lambda>cell_x. build_candidate cell_x cell_z p) (cell_range p chunk_x))
          (cell_range p chunk_z)))))"

section \<open>Arithmetic of the cells\<close>

lemma chunk_size_simp: "chunk_size = 32"
  by (simp add: chunk_size_def)

text \<open>The hand-written floor division is the mathematical one.\<close>

lemma floor_div_eq: "0 < b \<Longrightarrow> floor_div a b = a div b"
proof -
  assume b: "0 < b"
  show ?thesis
  proof (cases "0 \<le> a")
    case True
    with b show ?thesis by (simp add: floor_div_def Let_def)
  next
    case False
    define q where "q = (- a) div b"
    define r where "r = (- a) mod b"
    have a: "a = - (q * b) - r" using div_mult_mod_eq [of "- a" b] unfolding q_def r_def by linarith
    have r: "0 \<le> r" "r < b" using b by (simp_all add: r_def)
    have c: "c_div a b = - q" using b False by (simp add: c_div_neg q_def)
    then have m: "c_mod a b = - r" by (simp add: c_mod_def a)
    show ?thesis
    proof (cases "r = 0")
      case True
      then have "a div b = - q" using b r by (intro int_div_pos_eq [of _ _ _ 0]) (simp_all add: a)
      with True b show ?thesis by (simp add: floor_div_def Let_def c m)
    next
      case nz: False
      then have "a div b = - q - 1"
        using r by (intro int_div_pos_eq [of _ _ _ "b - r"]) (simp_all add: a algebra_simps)
      with nz b False show ?thesis by (simp add: floor_div_def Let_def c m)
    qed
  qed
qed

lemma small_in_i32: "0 \<le> k \<Longrightarrow> k \<le> 2147483647 \<Longrightarrow> in_i32 k"
  by (simp add: in_i32_def)

lemma signed_range_bounds:
  assumes "0 \<le> j" and "j < 2 ^ 30"
  shows "- j \<le> hash_signed_range h (- j) j \<and> hash_signed_range h (- j) j \<le> j"
proof (cases "j = 0")
  case False
  with assms have j: "0 < j" by simp
  have w: "wrap_i32 (2 * j + 1) = 2 * j + 1" using assms by (simp add: in_i32_def)
  have u: "uint (word_of_int (2 * j + 1) :: u64) = 2 * j + 1"
    using assms by (simp only: uint_word_of_int) simp
  have "uint (h mod word_of_int (2 * j + 1)) = uint h mod (2 * j + 1)" by (simp only: uint_mod u)
  moreover have "0 \<le> uint h mod (2 * j + 1)" and "uint h mod (2 * j + 1) < 2 * j + 1"
    using j by (intro pos_mod_sign pos_mod_bound, simp)+
  moreover from this have "in_i32 (uint h mod (2 * j + 1))"
    using assms(2) small_in_i32 [of "uint h mod (2 * j + 1)"] by simp
  moreover have "hash_signed_range h (- j) j = - j + wrap_i32 (uint (h mod word_of_int (wrap_i32 (j - - j + 1))))"
    using j by (simp only: hash_signed_range_def Let_def) simp
  moreover have "j - - j + 1 = 2 * j + 1" by simp
  ultimately have "hash_signed_range h (- j) j = - j + uint h mod (2 * j + 1)" by (simp only: w wrap_i32_id)
  then show ?thesis using \<open>0 \<le> uint h mod (2 * j + 1)\<close> \<open>uint h mod (2 * j + 1) < 2 * j + 1\<close> by linarith
qed (simp add: hash_signed_range_def)

text \<open>Profiles for which no product overflows: cells of at most 256 chunks, a spacing whose square fits.\<close>

definition gen_ok :: "generation_profile \<Rightarrow> bool" where
  "gen_ok p \<longleftrightarrow> expansion_sane (gp_expansion p) \<and> exp_cell_size_chunks (gp_expansion p) \<le> 256
     \<and> exp_min_poi_spacing_units (gp_expansion p) \<le> 46340"

definition cell_ok :: "generation_profile \<Rightarrow> int \<Rightarrow> bool" where
  "cell_ok p cell \<longleftrightarrow> \<bar>cell * cell_size_units p\<bar> \<le> 2 ^ 30"

lemma gen_ok_cell_size:
  assumes "gen_ok p"
  obtains n where "cell_size_units p = 32 * n" "1 \<le> n" "n \<le> 256"
    "0 \<le> exp_jitter_units (gp_expansion p)" "exp_jitter_units (gp_expansion p) \<le> 16 * n - 1"
proof -
  let ?n = "exp_cell_size_chunks (gp_expansion p)"
  from assms have "1 \<le> ?n" "?n \<le> 256" by (simp_all add: gen_ok_def expansion_sane_def)
  moreover from this have "cell_size_units p = 32 * ?n"
    by (simp add: cell_size_units_def chunk_size_simp max_def in_i32_def)
  moreover have "0 \<le> exp_jitter_units (gp_expansion p)" "exp_jitter_units (gp_expansion p) \<le> 16 * ?n - 1"
    using assms max_jitter_small [of ?n] \<open>?n \<le> 256\<close> by (auto simp: gen_ok_def expansion_sane_def)
  ultimately show ?thesis using that by blast
qed

lemma cell_center_eq:
  assumes "gen_ok p" and "cell_ok p c"
  shows "cell_center p c = c * cell_size_units p + cell_size_units p div 2"
proof -
  obtain n where n: "cell_size_units p = 32 * n" "1 \<le> n" "n \<le> 256" using gen_ok_cell_size [OF assms(1)] .
  have "\<bar>c * (32 * n)\<bar> \<le> 1073741824" using assms(2) by (simp add: cell_ok_def n(1))
  then have "- 1073741824 \<le> c * (32 * n)" "c * (32 * n) \<le> 1073741824" by linarith+
  then have "- 2147483648 \<le> c * (32 * n) + 16 * n" "c * (32 * n) + 16 * n < 2147483648"
    using n by linarith+
  then have "in_i32 (c * (32 * n) + 16 * n)" by (simp add: in_i32_def)
  then show ?thesis using n by (simp add: cell_center_def)
qed

text \<open>A candidate lies strictly inside its cell.\<close>

lemma offset_bounds:
  assumes "gen_ok p"
  shows "\<bar>cell_offset p x z salt\<bar> < cell_size_units p div 2"
proof -
  obtain n where n: "cell_size_units p = 32 * n" "1 \<le> n" "n \<le> 256"
    "0 \<le> exp_jitter_units (gp_expansion p)" "exp_jitter_units (gp_expansion p) \<le> 16 * n - 1"
    using gen_ok_cell_size [OF assms] .
  then show ?thesis
    using signed_range_bounds [of "exp_jitter_units (gp_expansion p)" "hash_world (gp_world_seed p) x z salt"]
    unfolding cell_offset_def Let_def by (simp add: abs_less_iff)
qed

lemma valid_fields:
  assumes "pc_valid (build_candidate x z p)"
  shows "pc_cell_x (build_candidate x z p) = x" and "pc_cell_z (build_candidate x z p) = z"
    and "pc_center_x (build_candidate x z p) = cell_center p x + cell_offset p x z 0x1B7A0D11"
    and "pc_center_z (build_candidate x z p) = cell_center p z + cell_offset p x z 0x52A8749B"
    and "pc_radius_units (build_candidate x z p) \<le> 8" and "0 \<le> pc_radius_units (build_candidate x z p)"
proof -
  have r: "poi_radius_units t \<le> 8 \<and> 0 \<le> poi_radius_units t" for t by (cases t) simp_all
  show "pc_cell_x (build_candidate x z p) = x" "pc_cell_z (build_candidate x z p) = z"
    "pc_center_x (build_candidate x z p) = cell_center p x + cell_offset p x z 0x1B7A0D11"
    "pc_center_z (build_candidate x z p) = cell_center p z + cell_offset p x z 0x52A8749B"
    "pc_radius_units (build_candidate x z p) \<le> 8" "0 \<le> pc_radius_units (build_candidate x z p)"
    using assms r unfolding build_candidate_def Let_def
    by (simp_all add: no_candidate_def split: if_splits)
qed

lemma center_in_cell:
  assumes "gen_ok p" and "cell_ok p x" and "cell_ok p z" and "pc_valid (build_candidate x z p)"
  shows "x * cell_size_units p < pc_center_x (build_candidate x z p)"
    and "pc_center_x (build_candidate x z p) < (x + 1) * cell_size_units p"
    and "z * cell_size_units p < pc_center_z (build_candidate x z p)"
    and "pc_center_z (build_candidate x z p) < (z + 1) * cell_size_units p"
proof -
  obtain n where n: "cell_size_units p = 32 * n" using gen_ok_cell_size [OF assms(1)] .
  have "\<bar>cell_offset p x z 0x1B7A0D11\<bar> < 16 * n" "\<bar>cell_offset p x z 0x52A8749B\<bar> < 16 * n"
    using offset_bounds [OF assms(1)] by (simp_all add: n)
  then show "x * cell_size_units p < pc_center_x (build_candidate x z p)"
    "pc_center_x (build_candidate x z p) < (x + 1) * cell_size_units p"
    "z * cell_size_units p < pc_center_z (build_candidate x z p)"
    "pc_center_z (build_candidate x z p) < (z + 1) * cell_size_units p"
    using assms by (simp_all add: valid_fields cell_center_eq n algebra_simps)
qed

section \<open>Spacing\<close>

lemma rank_total:
  "(pc_cell_x a, pc_cell_z a) \<noteq> (pc_cell_x b, pc_cell_z b) \<Longrightarrow> candidate_rank_less a b \<or> candidate_rank_less b a"
  by (auto simp: candidate_rank_less_def)

text \<open>Centers closer than the spacing lie in cells that the loop of \<open>survives_spacing\<close> visits.\<close>

lemma close_cells:
  fixes cs a b x y s :: int
  assumes "0 < cs" and "x * cs < a" and "a < (x + 1) * cs" and "y * cs < b" and "b < (y + 1) * cs"
    and "\<bar>b - a\<bar> < s"
  shows "\<bar>y - x\<bar> \<le> s div cs + 1"
proof -
  have "\<bar>y - x\<bar> * cs < s + cs"
    using assms by (cases "x \<le> y") (auto simp: algebra_simps abs_less_iff)
  then have "(\<bar>y - x\<bar> - 1) * cs < s" by (simp add: algebra_simps)
  then have "\<bar>y - x\<bar> - 1 \<le> s div cs"
    using assms(1) by (metis less_imp_le nonzero_mult_div_cancel_right not_less zdiv_mono1 less_irrefl)
  then show ?thesis by simp
qed

lemma square_abs_less: "a * a + b * b < s * s \<Longrightarrow> 0 \<le> s \<Longrightarrow> \<bar>a\<bar> < s" for a b s :: int
proof (rule ccontr)
  assume "a * a + b * b < s * s" "0 \<le> s" "\<not> \<bar>a\<bar> < s"
  then have "s * s \<le> \<bar>a\<bar> * \<bar>a\<bar>" by (intro mult_mono) simp_all
  moreover have "\<bar>a\<bar> * \<bar>a\<bar> = a * a" by (simp add: abs_mult_self_eq)
  moreover have "0 \<le> b * b" by simp
  ultimately show False using \<open>a * a + b * b < s * s\<close> by linarith
qed

lemma survivor_not_beaten:
  assumes "gen_ok p" and cells: "cell_ok p x" "cell_ok p z" "cell_ok p x'" "cell_ok p z'"
    and "pc_valid (build_candidate x z p)" "pc_valid (build_candidate x' z' p)" and "(x, z) \<noteq> (x', z')"
    and "survives_spacing (build_candidate x z p) p"
    and close: "(pc_center_x (build_candidate x' z' p) - pc_center_x (build_candidate x z p))\<^sup>2
       + (pc_center_z (build_candidate x' z' p) - pc_center_z (build_candidate x z p))\<^sup>2
       < (exp_min_poi_spacing_units (gp_expansion p))\<^sup>2"
  shows "\<not> candidate_rank_less (build_candidate x' z' p) (build_candidate x z p)"
proof -
  let ?c = "build_candidate x z p" and ?d = "build_candidate x' z' p"
  let ?s = "exp_min_poi_spacing_units (gp_expansion p)" and ?cs = "cell_size_units p"
  let ?dx = "pc_center_x ?d - pc_center_x ?c" and ?dz = "pc_center_z ?d - pc_center_z ?c"
  have s: "0 \<le> ?s" "?s \<le> 46340" using assms(1) by (simp_all add: gen_ok_def expansion_sane_def)
  obtain n where n: "?cs = 32 * n" "1 \<le> n" using gen_ok_cell_size [OF assms(1)] .
  have sq: "?dx * ?dx + ?dz * ?dz < ?s * ?s" using close by (simp add: power2_eq_square)
  have nonneg: "0 \<le> ?dx * ?dx + ?dz * ?dz" by (intro add_nonneg_nonneg) simp_all
  then have "0 < ?s * ?s" using sq by linarith
  then have "?s \<noteq> 0" by auto
  note loc = center_in_cell [OF assms(1) cells(1,2) assms(6)] and loc' = center_in_cell [OF assms(1) cells(3,4) assms(7)]
  have "\<bar>?dx\<bar> < ?s" "\<bar>?dz\<bar> < ?s"
    using square_abs_less [OF sq s(1)] square_abs_less [of ?dz ?dx, OF _ s(1)] sq by (simp_all add: add.commute)
  then have near: "\<bar>x' - x\<bar> \<le> ?s div ?cs + 1" "\<bar>z' - z\<bar> \<le> ?s div ?cs + 1"
    using close_cells [of ?cs x _ x'] close_cells [of ?cs z _ z'] loc loc' n by simp_all
  have "0 \<le> ?s div ?cs" using s n by (simp add: pos_imp_zdiv_nonneg_iff)
  then have "spacing_radius p = ?s div ?cs + 2"
    using s n by (simp add: spacing_radius_def max_def)
  then have visit: "x' - x \<in> set [- spacing_radius p..spacing_radius p]" "z' - z \<in> set [- spacing_radius p..spacing_radius p]"
    using near by auto
  then have "gives_way ?c p (x' - x) (z' - z)"
    using assms(6,9) \<open>?s \<noteq> 0\<close> s(1) by (simp add: survives_spacing_def Let_def list_all_iff)
  moreover have "?s * ?s \<le> 46340 * 46340" using s by (intro mult_mono) simp_all
  then have "in_i32 (?s * ?s)" "in_i32 (?dx * ?dx + ?dz * ?dz)"
    using small_in_i32 [of "?s * ?s"] small_in_i32 [of "?dx * ?dx + ?dz * ?dz"] sq nonneg by linarith+
  moreover from this have wrap: "wrap_i32 (?s * ?s) = ?s * ?s" "wrap_i32 (?dx * ?dx + ?dz * ?dz) = ?dx * ?dx + ?dz * ?dz"
    by simp_all
  have cell: "pc_cell_x ?c + (x' - x) = x'" "pc_cell_z ?c + (z' - z) = z'"
    using valid_fields(1,2) [OF assms(6)] by simp_all
  have "\<not> (x' - x = 0 \<and> z' - z = 0)" using assms(8) by auto
  moreover have "\<not> ?s * ?s \<le> ?dx * ?dx + ?dz * ?dz" using sq by simp
  ultimately show ?thesis
    using assms(7) by (simp only: gives_way_def Let_def cell wrap if_False not_True_eq_False not_False_eq_True)
qed

lemma survivors_spaced:
  assumes "gen_ok p" and cells: "cell_ok p x" "cell_ok p z" "cell_ok p x'" "cell_ok p z'"
    and valid: "pc_valid (build_candidate x z p)" "pc_valid (build_candidate x' z' p)" and "(x, z) \<noteq> (x', z')"
    and "survives_spacing (build_candidate x z p) p" and "survives_spacing (build_candidate x' z' p) p"
  shows "(exp_min_poi_spacing_units (gp_expansion p))\<^sup>2
      \<le> (pc_center_x (build_candidate x' z' p) - pc_center_x (build_candidate x z p))\<^sup>2
       + (pc_center_z (build_candidate x' z' p) - pc_center_z (build_candidate x z p))\<^sup>2"
proof (rule ccontr)
  assume c: "\<not> ?thesis"
  have "\<not> candidate_rank_less (build_candidate x' z' p) (build_candidate x z p)"
    by (rule survivor_not_beaten [OF assms(1) cells valid assms(8,9)]) (use c in simp)
  moreover have "\<not> candidate_rank_less (build_candidate x z p) (build_candidate x' z' p)"
    by (rule survivor_not_beaten [OF assms(1) cells(3,4,1,2) valid(2,1) _ assms(10)])
      (use c assms(8) in \<open>auto simp: power2_commute\<close>)
  ultimately show False
    using rank_total [of "build_candidate x z p" "build_candidate x' z' p"] assms(8) valid
    by (simp add: valid_fields)
qed

section \<open>The candidates of a chunk are all that touch it\<close>

text \<open>The distance, along one axis, of a coordinate from the chunk.\<close>

definition axis_gap :: "int \<Rightarrow> int \<Rightarrow> int" where
  "axis_gap chunk_axis center =
     center - clamp_int center (chunk_axis * chunk_size) (chunk_axis * chunk_size + (chunk_size - 1))"

definition poi_touches :: "poi_candidate \<Rightarrow> int \<Rightarrow> int \<Rightarrow> bool" where
  "poi_touches c chunk_x chunk_z \<longleftrightarrow>
     (axis_gap chunk_x (pc_center_x c))\<^sup>2 + (axis_gap chunk_z (pc_center_z c))\<^sup>2 \<le> (pc_radius_units c)\<^sup>2"

lemma intersects_gap:
  "intersects_chunk c chunk_x chunk_z \<longleftrightarrow>
     wrap_i32 ((axis_gap chunk_x (pc_center_x c))\<^sup>2 + (axis_gap chunk_z (pc_center_z c))\<^sup>2) \<le> (pc_radius_units c)\<^sup>2"
  by (simp add: intersects_chunk_def axis_gap_def Let_def power2_eq_square)

definition chunk_ok :: "int \<Rightarrow> bool" where "chunk_ok c \<longleftrightarrow> \<bar>c\<bar> \<le> 2 ^ 20"

lemma cell_range_iff:
  assumes "gen_ok p"
  shows "cell \<in> set (cell_range p chunk_axis) \<longleftrightarrow>
    chunk_axis * 32 - (8 + exp_jitter_units (gp_expansion p) + cell_size_units p)
      < (cell + 1) * cell_size_units p \<and>
    cell * cell_size_units p \<le> chunk_axis * 32 + 31 + (8 + exp_jitter_units (gp_expansion p) + cell_size_units p)"
proof -
  obtain n where n: "cell_size_units p = 32 * n" "1 \<le> n" "0 \<le> exp_jitter_units (gp_expansion p)"
    using gen_ok_cell_size [OF assms] .
  have high: "k \<le> a div cs \<longleftrightarrow> k * cs \<le> a" if "0 < cs" for a cs k :: int
  proof
    assume "k \<le> a div cs"
    then have "k * cs \<le> a div cs * cs" using that by (intro mult_right_mono) simp_all
    also have "\<dots> \<le> a" using div_mult_mod_eq [of a cs] pos_mod_sign [OF that, of a] by linarith
    finally show "k * cs \<le> a" .
  next
    assume "k * cs \<le> a"
    then have "k * cs div cs \<le> a div cs" using that by (rule zdiv_mono1)
    then show "k \<le> a div cs" using that by simp
  qed
  have low: "a div cs \<le> k \<longleftrightarrow> a < (k + 1) * cs" if "0 < cs" for a cs k :: int
    using high [OF that, of "k + 1" a] by linarith
  have pos: "0 < cell_size_units p" using n by simp
  have jitter: "max 0 (exp_jitter_units (gp_expansion p)) = exp_jitter_units (gp_expansion p)" using n(3) by simp
  have last: "chunk_axis * 32 + (32 - 1) = chunk_axis * 32 + 31" by simp
  show ?thesis
    by (simp only: cell_range_def Let_def set_upto atLeastAtMost_iff floor_div_eq [OF pos] chunk_size_simp
        low [OF pos] high [OF pos] jitter last)
qed

lemma cell_range_near:
  assumes "gen_ok p" and "chunk_ok chunk_axis" and "cell \<in> set (cell_range p chunk_axis)"
    and "cell * cell_size_units p < center" and "center < (cell + 1) * cell_size_units p"
  shows "\<bar>axis_gap chunk_axis center\<bar> \<le> 20488"
proof -
  obtain n where n: "cell_size_units p = 32 * n" "1 \<le> n" "n \<le> 256" "exp_jitter_units (gp_expansion p) \<le> 16 * n - 1"
    using gen_ok_cell_size [OF assms(1)] .
  let ?M = "8 + exp_jitter_units (gp_expansion p) + cell_size_units p"
  have "chunk_axis * 32 - ?M < (cell + 1) * cell_size_units p" and "cell * cell_size_units p \<le> chunk_axis * 32 + 31 + ?M"
    using assms(3) by (simp_all add: cell_range_iff [OF assms(1)])
  moreover have "(cell + 1) * cell_size_units p = cell * cell_size_units p + cell_size_units p" by (simp add: algebra_simps)
  ultimately have "chunk_axis * 32 - 20488 \<le> center" "center \<le> chunk_axis * 32 + 31 + 20488"
    using assms(4,5) n by linarith+
  then show ?thesis by (simp add: axis_gap_def clamp_int_def chunk_size_simp)
qed

lemma cell_range_ok:
  assumes "gen_ok p" and "chunk_ok chunk_axis" and "cell \<in> set (cell_range p chunk_axis)"
  shows "cell_ok p cell"
proof -
  obtain n where n: "cell_size_units p = 32 * n" "1 \<le> n" "n \<le> 256" "exp_jitter_units (gp_expansion p) \<le> 16 * n - 1"
    using gen_ok_cell_size [OF assms(1)] .
  have "\<bar>chunk_axis\<bar> \<le> 1048576" using assms(2) by (simp add: chunk_ok_def)
  moreover have "(cell + 1) * cell_size_units p = cell * cell_size_units p + cell_size_units p" by (simp add: algebra_simps)
  ultimately have "\<bar>cell * cell_size_units p\<bar> \<le> 1073741824"
    using assms(3) n unfolding cell_range_iff [OF assms(1)] by linarith
  then show ?thesis by (simp add: cell_ok_def)
qed

lemma touching_cell_in_range:
  assumes "gen_ok p" and "cell * cell_size_units p < center" and "center < (cell + 1) * cell_size_units p"
    and "\<bar>axis_gap chunk_axis center\<bar> \<le> 8"
  shows "cell \<in> set (cell_range p chunk_axis)"
proof -
  obtain n where n: "cell_size_units p = 32 * n" "1 \<le> n" "0 \<le> exp_jitter_units (gp_expansion p)"
    using gen_ok_cell_size [OF assms(1)] .
  have "chunk_axis * 32 - 8 \<le> center" "center \<le> chunk_axis * 32 + 31 + 8"
    using assms(4) by (auto simp: axis_gap_def clamp_int_def chunk_size_simp split: if_splits)
  then show ?thesis
    using assms(2,3) n unfolding cell_range_iff [OF assms(1)] by linarith
qed

lemma touches_gaps:
  assumes "poi_touches c chunk_x chunk_z" and "0 \<le> pc_radius_units c" and "pc_radius_units c \<le> 8"
  shows "\<bar>axis_gap chunk_x (pc_center_x c)\<bar> \<le> 8" and "\<bar>axis_gap chunk_z (pc_center_z c)\<bar> \<le> 8"
proof -
  let ?a = "axis_gap chunk_x (pc_center_x c)" and ?b = "axis_gap chunk_z (pc_center_z c)"
  have "(pc_radius_units c)\<^sup>2 \<le> 8\<^sup>2" using assms(2,3) by (rule power_mono [rotated])
  then have "?a\<^sup>2 + ?b\<^sup>2 \<le> 8\<^sup>2" using assms(1) by (simp add: poi_touches_def)
  moreover have "0 \<le> ?a\<^sup>2" "0 \<le> ?b\<^sup>2" by simp_all
  ultimately have "?a\<^sup>2 \<le> 8\<^sup>2" "?b\<^sup>2 \<le> 8\<^sup>2" by linarith+
  then show "\<bar>?a\<bar> \<le> 8" "\<bar>?b\<bar> \<le> 8" 
    using power2_le_iff_abs_le [of 8 ?a] power2_le_iff_abs_le [of 8 ?b] by simp_all
qed

lemma concerns_iff_touches:
  assumes "gen_ok p" and chunks: "chunk_ok chunk_x" "chunk_ok chunk_z"
    and range: "x \<in> set (cell_range p chunk_x)" "z \<in> set (cell_range p chunk_z)"
  shows "concerns_chunk p chunk_x chunk_z (build_candidate x z p) \<longleftrightarrow>
    pc_valid (build_candidate x z p) \<and> survives_spacing (build_candidate x z p) p
    \<and> poi_touches (build_candidate x z p) chunk_x chunk_z"
proof (cases "pc_valid (build_candidate x z p)")
  case True
  let ?c = "build_candidate x z p"
  note cells = cell_range_ok [OF assms(1) chunks(1) range(1)] cell_range_ok [OF assms(1) chunks(2) range(2)]
  note inside = center_in_cell [OF assms(1) cells True]
  let ?a = "axis_gap chunk_x (pc_center_x ?c)" and ?b = "axis_gap chunk_z (pc_center_z ?c)"
  have gaps: "\<bar>?a\<bar> \<le> \<bar>20488\<bar>" "\<bar>?b\<bar> \<le> \<bar>20488\<bar>"
    using cell_range_near [OF assms(1) chunks(1) range(1) inside(1,2)]
      cell_range_near [OF assms(1) chunks(2) range(2) inside(3,4)] by simp_all
  have "?a\<^sup>2 \<le> 20488\<^sup>2" "?b\<^sup>2 \<le> 20488\<^sup>2"
    using gaps by (simp_all only: power2_le_iff_abs_le)
  moreover have "0 \<le> ?a\<^sup>2" "0 \<le> ?b\<^sup>2" by simp_all
  ultimately have "in_i32 (?a\<^sup>2 + ?b\<^sup>2)"
    by (intro small_in_i32 add_nonneg_nonneg) simp_all
  then show ?thesis by (auto simp: concerns_chunk_def intersects_gap poi_touches_def)
qed (simp add: concerns_chunk_def)

lemma set_gather:
  "exp_enabled (gp_expansion p) \<Longrightarrow> set (gather_chunk_candidates chunk_x chunk_z p) =
     {build_candidate x z p |x z. x \<in> set (cell_range p chunk_x) \<and> z \<in> set (cell_range p chunk_z)
       \<and> concerns_chunk p chunk_x chunk_z (build_candidate x z p)}"
  by (auto simp: gather_chunk_candidates_def)

lemma gather_complete:
  assumes "gen_ok p" and "chunk_ok chunk_x" and "chunk_ok chunk_z"
  shows "set (gather_chunk_candidates chunk_x chunk_z p) =
    {build_candidate x z p |x z. cell_ok p x \<and> cell_ok p z \<and> pc_valid (build_candidate x z p)
       \<and> survives_spacing (build_candidate x z p) p \<and> poi_touches (build_candidate x z p) chunk_x chunk_z}"
    (is "_ = ?spec")
proof (cases "exp_enabled (gp_expansion p)")
  case True
  have "x \<in> set (cell_range p chunk_x) \<and> z \<in> set (cell_range p chunk_z)
      \<and> concerns_chunk p chunk_x chunk_z (build_candidate x z p) \<longleftrightarrow>
    cell_ok p x \<and> cell_ok p z \<and> pc_valid (build_candidate x z p)
       \<and> survives_spacing (build_candidate x z p) p \<and> poi_touches (build_candidate x z p) chunk_x chunk_z" for x z
  proof (intro iffI; elim conjE)
    assume r: "x \<in> set (cell_range p chunk_x)" "z \<in> set (cell_range p chunk_z)"
      and "concerns_chunk p chunk_x chunk_z (build_candidate x z p)"
    then show "cell_ok p x \<and> cell_ok p z \<and> pc_valid (build_candidate x z p)
       \<and> survives_spacing (build_candidate x z p) p \<and> poi_touches (build_candidate x z p) chunk_x chunk_z"
      using assms by (simp add: concerns_iff_touches cell_range_ok)
  next
    assume cells: "cell_ok p x" "cell_ok p z" and valid: "pc_valid (build_candidate x z p)"
      and spec: "survives_spacing (build_candidate x z p) p" "poi_touches (build_candidate x z p) chunk_x chunk_z"
    note inside = center_in_cell [OF assms(1) cells valid]
    note gaps = touches_gaps [OF spec(2) valid_fields(6,5) [OF valid]]
    have "x \<in> set (cell_range p chunk_x)" "z \<in> set (cell_range p chunk_z)"
      using touching_cell_in_range [OF assms(1) inside(1,2) gaps(1)]
        touching_cell_in_range [OF assms(1) inside(3,4) gaps(2)] by simp_all
    then show "x \<in> set (cell_range p chunk_x) \<and> z \<in> set (cell_range p chunk_z)
      \<and> concerns_chunk p chunk_x chunk_z (build_candidate x z p)"
      using assms valid spec by (simp add: concerns_iff_touches)
  qed
  then show ?thesis unfolding set_gather [OF True] by blast
next
  case False
  then have "\<not> pc_valid (build_candidate x z p)" for x z by (simp add: build_candidate_def no_candidate_def)
  with False show ?thesis by (simp add: gather_chunk_candidates_def)
qed

definition poi_key :: "poi_candidate \<Rightarrow> int \<times> int \<times> int" where
  "poi_key c = (pc_center_x c, pc_center_z c, poi_ordinal (pc_type c))"

interpretation poi_order: key_order candidate_less poi_key
  by unfold_locales (simp add: candidate_less_def poi_key_def lex_less_3)

lemma gather_sorted: "sorted (List.map poi_key (gather_chunk_candidates chunk_x chunk_z p))"
  by (simp add: gather_chunk_candidates_def poi_order.sorted_std_sort)

definition poi_spaced :: "generation_profile \<Rightarrow> poi_candidate \<Rightarrow> poi_candidate \<Rightarrow> bool" where
  "poi_spaced p c d \<longleftrightarrow> (exp_min_poi_spacing_units (gp_expansion p))\<^sup>2
     \<le> (pc_center_x d - pc_center_x c)\<^sup>2 + (pc_center_z d - pc_center_z c)\<^sup>2"

lemma gathered_spaced:
  assumes "gen_ok p" and chunks: "chunk_ok chunk_x" "chunk_ok chunk_z" "chunk_ok chunk_x'" "chunk_ok chunk_z'"
    and c: "c \<in> set (gather_chunk_candidates chunk_x chunk_z p)"
    and d: "d \<in> set (gather_chunk_candidates chunk_x' chunk_z' p)" and "c \<noteq> d"
  shows "poi_spaced p c d"
proof -
  obtain x z where x: "c = build_candidate x z p" "cell_ok p x" "cell_ok p z" "pc_valid c" "survives_spacing c p"
    using c gather_complete [OF assms(1) chunks(1,2)] by auto
  obtain x' z' where x': "d = build_candidate x' z' p" "cell_ok p x'" "cell_ok p z'" "pc_valid d" "survives_spacing d p"
    using d gather_complete [OF assms(1) chunks(3,4)] by auto
  have "(x, z) \<noteq> (x', z')" using assms(8) x(1) x'(1) by auto
  then show ?thesis
    using survivors_spaced [OF assms(1) x(2,3) x'(2,3)] x x' by (simp add: poi_spaced_def)
qed

text \<open>C8: Terrain generation per chunk agrees on the points of interest. The candidates that a chunk
  gathers are exactly the valid candidates of the whole grid of cells that survive the spacing test
  and whose circle touches the chunk: the margin of the cell range never loses one, and a candidate
  that reaches into several chunks is seen by each of them. They are sorted by position, so that the
  result does not depend on the scan. And any two of them, from whichever chunks, keep the minimum
  spacing.\<close>

theorem chunk_pois:
  assumes "gen_ok p" and "chunk_ok chunk_x" and "chunk_ok chunk_z" and "chunk_ok chunk_x'" and "chunk_ok chunk_z'"
  shows "set (gather_chunk_candidates chunk_x chunk_z p) =
      {build_candidate x z p |x z. cell_ok p x \<and> cell_ok p z \<and> pc_valid (build_candidate x z p)
         \<and> survives_spacing (build_candidate x z p) p \<and> poi_touches (build_candidate x z p) chunk_x chunk_z}
    \<and> sorted (List.map poi_key (gather_chunk_candidates chunk_x chunk_z p))
    \<and> (\<forall>c \<in> set (gather_chunk_candidates chunk_x chunk_z p). \<forall>d \<in> set (gather_chunk_candidates chunk_x' chunk_z' p).
         c \<noteq> d \<longrightarrow> poi_spaced p c d)"
  using gather_complete [OF assms(1-3)] gather_sorted gathered_spaced [OF assms] by blast

text \<open>The loot shrine of cell (0, 0) of seed 1337, in the middle of its chunk.\<close>

definition dense_profile :: generation_profile where
  "dense_profile = default_profile\<lparr>gp_expansion := default_expansion\<lparr>exp_min_poi_spacing_units := 0\<rparr>\<rparr>"

lemma dense_candidate:
  "(let c = build_candidate 0 0 dense_profile
    in (pc_valid c, pc_type c, pc_center_x c, pc_center_z c, pc_radius_units c)) = (True, LootShrine, 57, 79, 5)"
  by code_simp

theorem chunk_pois_witness:
  "\<exists>c \<in> set (gather_chunk_candidates 1 2 dense_profile). pc_type c = LootShrine \<and> pc_center_x c = 57 \<and> pc_center_z c = 79"
proof -
  let ?c = "build_candidate 0 0 dense_profile"
  have "gen_ok dense_profile"
    by (simp add: gen_ok_def expansion_sane_def dense_profile_def default_profile_def default_expansion_def
        max_jitter_small default_multiplier) (rule exI [of _ "5 / 4"], simp)
  note all = chunk_pois [OF this, of 1 2 1 2, THEN conjunct1]
  have c: "pc_valid ?c" "pc_type ?c = LootShrine" "pc_center_x ?c = 57" "pc_center_z ?c = 79" "pc_radius_units ?c = 5"
    using dense_candidate by (simp_all add: Let_def)
  have "survives_spacing ?c dense_profile" using c by (simp add: survives_spacing_def dense_profile_def)
  moreover have "poi_touches ?c 1 2" using c by (simp add: poi_touches_def axis_gap_def clamp_int_def chunk_size_simp)
  moreover have "cell_ok dense_profile 0" by (simp add: cell_ok_def)
  ultimately have "?c \<in> set (gather_chunk_candidates 1 2 dense_profile)"
    using c(1) by (subst all) (auto simp: chunk_ok_def)
  with c show ?thesis by blast
qed

lemma in_concat_map: "x \<in> set xs \<Longrightarrow> w \<in> set (f x) \<Longrightarrow> w \<in> set (concat (List.map f xs))"
  by auto

text \<open>
  The circle of an outpost is smaller than its square: with its far corner as the first column of a
  chunk, that chunk is not among those it concerns, so the corner of its wall is never built. The same
  happens to ruins.
\<close>

theorem poi_corner_cut:
  assumes "pc_center_x c = 32 * chunk_x - 6" and "pc_center_z c = 32 * chunk_z - 6"
    and "pc_radius_units c = poi_radius_units Outpost"
  shows "\<not> intersects_chunk c chunk_x chunk_z
    \<and> (32 * chunk_x, y + 3, 32 * chunk_z, 2) \<in> set (outpost_writes (pc_center_x c) (pc_center_z c) y)"
proof
  have "axis_gap chunk_x (pc_center_x c) = - 6" "axis_gap chunk_z (pc_center_z c) = - 6"
    using assms by (simp_all add: axis_gap_def clamp_int_def chunk_size_simp)
  then show "\<not> intersects_chunk c chunk_x chunk_z"
    using assms(3) by (simp add: intersects_gap wrap_i32_id in_i32_def)
  show "(32 * chunk_x, y + 3, 32 * chunk_z, 2) \<in> set (outpost_writes (pc_center_x c) (pc_center_z c) y)"
    unfolding outpost_writes_def set_append assms(1,2)
    by (rule UnI1, rule in_concat_map [of 6], simp, rule in_concat_map [of 6], simp)
      (simp add: image_iff)
qed

end
