(* ===== verification/Voxel_World.thy ===== *)
theory Voxel_World
  imports World_Gen
begin

text \<open>
  The world, class World of shared/voxel/World.h and shared/src/voxel/World.cpp: a map from chunk
  coordinates to chunks, generated on demand, with block reads and writes. Shown: what a generated
  chunk contains, which chunks \<open>generate\<close> makes and what it reports, and that a block write is read
  back and touches nothing else.
\<close>

section \<open>State\<close>

datatype chunk_coord = Coord (cc_x: int) (cc_y: int) (cc_z: int)

text \<open>The order in which replication sorts chunks: by \<open>x\<close>, then \<open>z\<close>, then \<open>y\<close>.\<close>

instantiation chunk_coord :: linorder
begin

definition less_eq_chunk_coord :: "chunk_coord \<Rightarrow> chunk_coord \<Rightarrow> bool" where
  "less_eq_chunk_coord a b \<longleftrightarrow> (cc_x a, cc_z a, cc_y a) \<le> (cc_x b, cc_z b, cc_y b)"

definition less_chunk_coord :: "chunk_coord \<Rightarrow> chunk_coord \<Rightarrow> bool" where
  "less_chunk_coord a b \<longleftrightarrow> (cc_x a, cc_z a, cc_y a) < (cc_x b, cc_z b, cc_y b)"

instance
proof
  fix a b c :: chunk_coord
  show "(a < b) = (a \<le> b \<and> \<not> b \<le> a)"
    by (simp only: less_eq_chunk_coord_def less_chunk_coord_def less_le_not_le)
  show "a \<le> a" by (simp add: less_eq_chunk_coord_def)
  show "a \<le> b \<Longrightarrow> b \<le> c \<Longrightarrow> a \<le> c" unfolding less_eq_chunk_coord_def by (rule order_trans)
  show "a \<le> b \<or> b \<le> a" unfolding less_eq_chunk_coord_def by (rule linear)
  assume "a \<le> b" "b \<le> a"
  then have "(cc_x a, cc_z a, cc_y a) = (cc_x b, cc_z b, cc_y b)"
    unfolding less_eq_chunk_coord_def by (rule antisym)
  then show "a = b" by (cases a, cases b) simp
qed

end

record world =
  w_chunks :: "(chunk_coord, chunk) umap"
  w_max_height :: int
  w_profile :: generation_profile

definition new_world :: world where
  "new_world = \<lparr>w_chunks = [], w_max_height = 0, w_profile = default_profile\<rparr>"

definition world_clear :: "world \<Rightarrow> world" where
  "world_clear w = w\<lparr>w_chunks := []\<rparr>"

definition set_generation_profile :: "generation_profile \<Rightarrow> world \<Rightarrow> world" where
  "set_generation_profile p w = w\<lparr>w_profile := sanitize_profile p\<rparr>"

section \<open>Generating a chunk\<close>

definition terrain_block :: "int \<Rightarrow> int \<Rightarrow> block_id" where
  "terrain_block world_y height =
     (if world_y < height - 3 then 2 else if world_y < height - 1 then 1 else if world_y < height then 3 else 0)"

definition terrain_column :: "int \<Rightarrow> int \<Rightarrow> int \<Rightarrow> int \<Rightarrow> chunk \<Rightarrow> chunk" where
  "terrain_column chunk_y height x z chunk =
     fold (\<lambda>y c. chunk_set c x y z (terrain_block (chunk_y * chunk_size + y) height)) axis chunk"

definition terrain_chunk :: "int \<Rightarrow> chunk_coord \<Rightarrow> chunk" where
  "terrain_chunk max_height coord =
     fold (\<lambda>z. fold (\<lambda>x. terrain_column (cc_y coord)
         (sample_height (cc_x coord * chunk_size + x) (cc_z coord * chunk_size + z) max_height) x z) axis) axis
       empty_chunk"

definition stamp_poi :: "generation_profile \<Rightarrow> int \<Rightarrow> chunk_coord \<Rightarrow> poi_candidate \<Rightarrow> chunk \<Rightarrow> chunk" where
  "stamp_poi p max_height coord poi chunk =
     (let base_height = sample_height (pc_center_x poi) (pc_center_z poi) max_height in
      case pc_type poi of
        Outpost \<Rightarrow> stamp_outpost (cc_x coord) (cc_y coord) (cc_z coord) poi base_height max_height chunk
      | Ruins \<Rightarrow> stamp_ruins (cc_x coord) (cc_y coord) (cc_z coord) poi base_height max_height (gp_world_seed p) chunk
      | LootShrine \<Rightarrow> stamp_loot_shrine (cc_x coord) (cc_y coord) (cc_z coord) poi base_height max_height chunk)"

definition generated_chunk :: "generation_profile \<Rightarrow> int \<Rightarrow> chunk_coord \<Rightarrow> chunk" where
  "generated_chunk p max_height coord =
     fold (stamp_poi p max_height coord) (gather_chunk_candidates (cc_x coord) (cc_z coord) p)
       (terrain_chunk max_height coord)"

definition ensure_generated_chunk :: "chunk_coord \<Rightarrow> int \<Rightarrow> world \<Rightarrow> world" where
  "ensure_generated_chunk coord max_height w =
     (let w = (if 0 < max_height then w\<lparr>w_max_height := max (w_max_height w) max_height\<rparr> else w) in
      case umap_find (w_chunks w) coord of
        Some _ \<Rightarrow> w
      | None \<Rightarrow> w\<lparr>w_chunks := umap_put coord (generated_chunk (w_profile w) (w_max_height w) coord) (w_chunks w)\<rparr>)"

definition remove_chunk :: "chunk_coord \<Rightarrow> world \<Rightarrow> bool \<times> world" where
  "remove_chunk coord w =
     (umap_find (w_chunks w) coord \<noteq> None, w\<lparr>w_chunks := umap_erase coord (w_chunks w)\<rparr>)"

section \<open>Generating the world\<close>

definition chunk_rows :: "int \<Rightarrow> int" where
  "chunk_rows max_height = c_div (wrap_i32 (wrap_i32 (max_height + chunk_size) - 1)) chunk_size"

text \<open>The coordinates in the order of the loops over \<open>cy\<close>, \<open>cz\<close> and \<open>cx\<close>.\<close>

definition box_coords :: "int \<Rightarrow> int \<Rightarrow> int \<Rightarrow> chunk_coord list" where
  "box_coords chunks_x chunks_y chunks_z =
     concat (List.map (\<lambda>cy. concat (List.map (\<lambda>cz. List.map (\<lambda>cx. Coord cx cy cz)
       [0..chunks_x - 1]) [0..chunks_z - 1])) [0..chunks_y - 1])"

text \<open>
  \<open>generate\<close> with the calls of the progress callback, each the chunks done and the total. Both are of
  type \<open>size_t\<close>, so the total is a product of 64 bits; if it wraps to zero, nothing is generated.
\<close>

definition generate :: "int \<Rightarrow> int \<Rightarrow> int \<Rightarrow> generation_profile \<Rightarrow> world \<Rightarrow> world \<times> (nat \<times> nat) list" where
  "generate chunks_x chunks_z max_height p w =
     (let w = world_clear w;
          w = w\<lparr>w_profile := sanitize_profile p, w_max_height := max_height\<rparr>;
          chunks_y = chunk_rows max_height;
          total = (nat chunks_x * nat chunks_z mod 2 ^ 64) * nat chunks_y mod 2 ^ 64
      in if total = 0 then (w, [(0, total)])
         else fold (\<lambda>coord (w, reports).
             (ensure_generated_chunk coord max_height w, reports @ [(length reports mod 2 ^ 64, total)]))
           (box_coords chunks_x chunks_y chunks_z) (w, [(0, total)]))"

definition height_at :: "int \<Rightarrow> int \<Rightarrow> world \<Rightarrow> int" where
  "height_at world_x world_z w = sample_height world_x world_z (w_max_height w)"

section \<open>Blocks\<close>

definition get_chunk :: "chunk_coord \<Rightarrow> world \<Rightarrow> chunk option" where
  "get_chunk coord w = umap_find (w_chunks w) coord"

definition world_to_chunk_local :: "int \<Rightarrow> (int \<times> int) option" where
  "world_to_chunk_local world_axis =
     (if world_axis < 0 then None else Some (c_div world_axis chunk_size, c_mod world_axis chunk_size))"

definition locate :: "int \<Rightarrow> int \<Rightarrow> int \<Rightarrow> (chunk_coord \<times> int \<times> int \<times> int) option" where
  "locate world_x world_y world_z =
     (case (world_to_chunk_local world_x, world_to_chunk_local world_y, world_to_chunk_local world_z) of
        (Some (cx, x), Some (cy, y), Some (cz, z)) \<Rightarrow> Some (Coord cx cy cz, x, y, z)
      | _ \<Rightarrow> None)"

definition block_at :: "int \<Rightarrow> int \<Rightarrow> int \<Rightarrow> world \<Rightarrow> block_id option" where
  "block_at world_x world_y world_z w =
     (case locate world_x world_y world_z of None \<Rightarrow> None
      | Some (coord, x, y, z) \<Rightarrow>
          (case get_chunk coord w of None \<Rightarrow> None | Some c \<Rightarrow> Some (chunk_get c x y z)))"

definition set_block :: "int \<Rightarrow> int \<Rightarrow> int \<Rightarrow> block_id \<Rightarrow> world \<Rightarrow> bool \<times> world" where
  "set_block world_x world_y world_z b w =
     (case locate world_x world_y world_z of None \<Rightarrow> (False, w)
      | Some (coord, x, y, z) \<Rightarrow>
          (case get_chunk coord w of None \<Rightarrow> (False, w)
           | Some c \<Rightarrow> (True, w\<lparr>w_chunks := umap_put coord (chunk_set c x y z b) (w_chunks w)\<rparr>)))"

section \<open>Reading and writing blocks\<close>

lemma locate_eq:
  "locate x y z = (if x < 0 \<or> y < 0 \<or> z < 0 then None
     else Some (Coord (x div 32) (y div 32) (z div 32), x mod 32, y mod 32, z mod 32))"
  by (simp add: locate_def world_to_chunk_local_def chunk_size_simp)

lemma locate_inside: "locate x y z = Some (coord, lx, ly, lz) \<Longrightarrow> is_inside lx ly lz"
  by (auto simp: locate_eq is_inside_def chunk_size_simp split: if_splits)

lemma locate_inj: "locate x y z = Some r \<Longrightarrow> locate x' y' z' = Some r \<Longrightarrow> x' = x \<and> y' = y \<and> z' = z"
  by (clarsimp simp: locate_eq split: if_splits) (metis div_mult_mod_eq)

lemma set_block_ok: "fst (set_block x y z b w) \<longleftrightarrow> block_at x y z w \<noteq> None"
  by (auto simp: set_block_def block_at_def split: option.split)

lemma set_block_fails: "\<not> fst (set_block x y z b w) \<Longrightarrow> snd (set_block x y z b w) = w"
  by (auto simp: set_block_def split: option.splits)

lemma block_at_set_block:
  "block_at x' y' z' (snd (set_block x y z b w)) =
     (if fst (set_block x y z b w) \<and> x' = x \<and> y' = y \<and> z' = z then Some b else block_at x' y' z' w)"
proof (cases "fst (set_block x y z b w)")
  case True
  then obtain coord lx ly lz c where l: "locate x y z = Some (coord, lx, ly, lz)" and c: "get_chunk coord w = Some c"
    by (auto simp: set_block_def split: option.splits)
  have w: "snd (set_block x y z b w) = w\<lparr>w_chunks := umap_put coord (chunk_set c lx ly lz b) (w_chunks w)\<rparr>"
    by (simp add: set_block_def l c)
  show ?thesis
  proof (cases "locate x' y' z'")
    case None
    with l show ?thesis by (auto simp: block_at_def)
  next
    case (Some r)
    obtain coord' lx' ly' lz' where r: "r = (coord', lx', ly', lz')" by (cases r)
    have same: "x' = x \<and> y' = y \<and> z' = z \<longleftrightarrow> coord' = coord \<and> lx' = lx \<and> ly' = ly \<and> lz' = lz"
      using Some r l locate_inj [OF l, of x' y' z'] by auto
    show ?thesis
      using True Some r l c locate_inside [OF l] unfolding same w
      by (auto simp: block_at_def get_chunk_def umap_simps get_set)
  qed
qed (simp add: set_block_fails)

lemma set_block_chunks_ok: "umap_ok (w_chunks w) \<Longrightarrow> umap_ok (w_chunks (snd (set_block x y z b w)))"
  by (auto simp: set_block_def split: option.splits)

section \<open>What a generated chunk contains\<close>

lemma axis_iff: "k \<in> set axis \<longleftrightarrow> 0 \<le> k \<and> k < 32"
  by (auto simp: axis_def chunk_size_simp)

lemma inside_iff: "is_inside x y z \<longleftrightarrow> x \<in> set axis \<and> y \<in> set axis \<and> z \<in> set axis"
  by (auto simp: is_inside_def axis_iff chunk_size_simp)

lemma get_fold_column:
  "chunk_get (fold (\<lambda>y c. chunk_set c x y z (f y)) ys c) x' y' z' =
     (if is_inside x' y' z' \<and> x' = x \<and> z' = z \<and> y' \<in> set ys then f y' else chunk_get c x' y' z')"
  by (induction ys arbitrary: c) (auto simp: get_set)

lemma get_fold_row:
  "chunk_get (fold (\<lambda>x. terrain_column cy (h x) x z) xs c) x' y' z' =
     (if is_inside x' y' z' \<and> z' = z \<and> x' \<in> set xs then terrain_block (cy * chunk_size + y') (h x')
      else chunk_get c x' y' z')"
  by (induction xs arbitrary: c) (auto simp: terrain_column_def get_fold_column inside_iff)

lemma get_fold_plane:
  "chunk_get (fold (\<lambda>z. fold (\<lambda>x. terrain_column cy (h x z) x z) axis) zs c) x' y' z' =
     (if is_inside x' y' z' \<and> z' \<in> set zs then terrain_block (cy * chunk_size + y') (h x' z') else chunk_get c x' y' z')"
  by (induction zs arbitrary: c) (auto simp: get_fold_row inside_iff)

lemma terrain_get:
  "is_inside x y z \<Longrightarrow> chunk_get (terrain_chunk max_height coord) x y z =
     terrain_block (cc_y coord * chunk_size + y)
       (sample_height (cc_x coord * chunk_size + x) (cc_z coord * chunk_size + z) max_height)"
  unfolding terrain_chunk_def by (subst get_fold_plane) (simp add: inside_iff)

text \<open>Only air and the three materials occur.\<close>

definition known_block :: "block_id \<Rightarrow> bool" where "known_block b \<longleftrightarrow> b \<le> 3"

definition known_chunk :: "chunk \<Rightarrow> bool" where
  "known_chunk c \<longleftrightarrow> chunk_wf c \<and> (\<forall>x y z. known_block (chunk_get c x y z))"

lemma known_set: "known_chunk c \<Longrightarrow> known_block b \<Longrightarrow> known_chunk (chunk_set c x y z b)"
  by (simp add: known_chunk_def get_set)

lemma known_terrain: "known_block (terrain_block y h)"
  by (simp add: known_block_def terrain_block_def)

lemma known_terrain_chunk: "known_chunk (terrain_chunk h coord)"
  unfolding terrain_chunk_def terrain_column_def
proof (intro fold_preserves [where P = known_chunk] known_set known_terrain)
  show "known_chunk empty_chunk" by (simp add: known_chunk_def known_block_def)
qed

definition known_write :: "block_write \<Rightarrow> bool" where
  "known_write wr \<longleftrightarrow> known_block (snd (snd (snd wr)))"

lemma known_after_write:
  "known_chunk c \<Longrightarrow> known_write wr \<Longrightarrow> known_chunk (set_block_if_in_chunk cx cy cz h wr c)"
  by (cases wr) (simp add: set_block_if_in_chunk_def known_set known_write_def)

lemma all_concat_map: "(\<And>x. list_all P (f x)) \<Longrightarrow> list_all P (concat (List.map f xs))"
  by (induction xs) simp_all

lemma all_map: "(\<And>x. P (f x)) \<Longrightarrow> list_all P (List.map f xs)"
  by (induction xs) simp_all

lemma list_all_map_iff: "list_all P (List.map f xs) \<longleftrightarrow> (\<forall>x \<in> set xs. P (f x))"
  by (simp add: list_all_iff)

lemma known_stamp:
  assumes "known_chunk c"
  shows "known_chunk (stamp_poi p h coord poi c)"
proof -
  have o: "list_all known_write (outpost_writes a b y)" for a b y
    unfolding outpost_writes_def list_all_append
    by (intro conjI all_concat_map all_map) (simp_all add: known_write_def known_block_def list_all_map_iff)
  have r: "list_all known_write (ruins_writes s a b y)" for s a b y
    unfolding ruins_writes_def Let_def
    by (intro all_concat_map) (simp add: known_write_def known_block_def list_all_map_iff)
  have l: "list_all known_write (shrine_writes a b y)" for a b y
    unfolding shrine_writes_def list_all_append
    by (intro conjI all_concat_map all_map) (simp_all add: known_write_def known_block_def split: prod.split)
  have f: "known_chunk (fold (set_block_if_in_chunk cx cy cz h) ws c)"
    if "list_all known_write ws" for ws cx cy cz
    by (rule fold_preserves [where P = known_chunk]) (use assms that known_after_write in \<open>auto simp: list_all_iff\<close>)
  show ?thesis
    unfolding stamp_poi_def Let_def stamp_outpost_def stamp_ruins_def stamp_loot_shrine_def
    by (cases "pc_type poi") (simp_all add: f [OF o] f [OF r] f [OF l])
qed

lemma known_generated: "known_chunk (generated_chunk p h coord)"
  unfolding generated_chunk_def
  by (rule fold_preserves [where P = known_chunk]) (simp_all add: known_terrain_chunk known_stamp)

section \<open>Generating the world\<close>

lemma find_ensure:
  "umap_find (w_chunks (ensure_generated_chunk coord h w)) c =
     (case umap_find (w_chunks w) c of Some k \<Rightarrow> Some k
      | None \<Rightarrow> if c = coord then Some (generated_chunk (w_profile w) (if 0 < h then max (w_max_height w) h else w_max_height w) c)
          else None)"
  by (auto simp: ensure_generated_chunk_def Let_def umap_simps split: option.split)

lemma ensure_rest [simp]:
  "w_profile (ensure_generated_chunk coord h w) = w_profile w"
  "w_max_height (ensure_generated_chunk coord h w) = (if 0 < h then max (w_max_height w) h else w_max_height w)"
  "umap_ok (w_chunks w) \<Longrightarrow> umap_ok (w_chunks (ensure_generated_chunk coord h w))"
  by (auto simp: ensure_generated_chunk_def Let_def split: option.split)

lemma ensure_same_height: "w_max_height w = h \<Longrightarrow> (if 0 < h then max (w_max_height w) h else w_max_height w) = h"
  by simp

lemma generate_loop:
  assumes "w_max_height w = h"
  shows "let r = fold (\<lambda>coord (w, reports). (ensure_generated_chunk coord h w, reports @ [(length reports mod 2 ^ 64, tot)])) coords (w, reports)
    in (\<forall>c. umap_find (w_chunks (fst r)) c = (case umap_find (w_chunks w) c of Some k \<Rightarrow> Some k
          | None \<Rightarrow> if c \<in> set coords then Some (generated_chunk (w_profile w) h c) else None))
      \<and> snd r = reports @ List.map (\<lambda>i. ((length reports + i) mod 2 ^ 64, tot)) [0..<length coords]
      \<and> w_profile (fst r) = w_profile w \<and> w_max_height (fst r) = h"
  using assms
proof (induction coords arbitrary: w reports)
  case (Cons a coords)
  let ?w = "ensure_generated_chunk a h w"
  have h: "w_max_height ?w = h" using Cons.prems by simp
  have e: "umap_find (w_chunks ?w) c = (case umap_find (w_chunks w) c of Some k \<Rightarrow> Some k
      | None \<Rightarrow> if c = a then Some (generated_chunk (w_profile w) h c) else None)" for c
    using find_ensure [of a h w c] unfolding ensure_same_height [OF Cons.prems] .
  have u: "[0..<Suc (length coords)] = 0 # List.map Suc [0..<length coords]"
    by (simp only: upt_conv_Cons map_Suc_upt zero_less_Suc)
  show ?case
    using Cons.IH [OF h, of "reports @ [(length reports mod 2 ^ 64, tot)]"]
    by (auto simp: Let_def e u comp_def simp del: upt_Suc split: option.split)
qed (simp split: option.split)

lemma set_box: "c \<in> set (box_coords nx ny nz) \<longleftrightarrow>
    0 \<le> cc_x c \<and> cc_x c < nx \<and> 0 \<le> cc_y c \<and> cc_y c < ny \<and> 0 \<le> cc_z c \<and> cc_z c < nz"
  by (cases c) (auto simp: box_coords_def image_iff)

lemma length_concat_const: "\<forall>x \<in> set xs. length (g x) = n \<Longrightarrow> length (concat (List.map g xs)) = length xs * n"
  by (induction xs) auto

lemma length_box: "length (box_coords nx ny nz) = nat nx * nat nz * nat ny"
proof -
  have "length (concat (List.map (\<lambda>cz. List.map (\<lambda>cx. Coord cx cy cz) [0..nx - 1]) [0..nz - 1])) = nat nz * nat nx" for cy
    by (subst length_concat_const [of _ _ "nat nx"]) simp_all
  then show ?thesis
    unfolding box_coords_def by (subst length_concat_const [of _ _ "nat nz * nat nx"]) simp_all
qed

definition total_chunks :: "int \<Rightarrow> int \<Rightarrow> int \<Rightarrow> nat" where
  "total_chunks nx nz h = nat nx * nat nz * nat (chunk_rows h) mod 2 ^ 64"

lemma generated_box:
  "get_chunk c (fst (generate nx nz h p w)) =
     (if total_chunks nx nz h \<noteq> 0
        \<and> 0 \<le> cc_x c \<and> cc_x c < nx \<and> 0 \<le> cc_y c \<and> cc_y c < chunk_rows h \<and> 0 \<le> cc_z c \<and> cc_z c < nz
      then Some (generated_chunk (sanitize_profile p) h c) else None)
   \<and> snd (generate nx nz h p w) = List.map (\<lambda>i. (i mod 2 ^ 64, total_chunks nx nz h))
       [0..<Suc (if total_chunks nx nz h = 0 then 0 else nat nx * nat nz * nat (chunk_rows h))]"
proof -
  let ?n = "nat nx * nat nz * nat (chunk_rows h)"
  let ?total = "total_chunks nx nz h"
  let ?w = "(world_clear w)\<lparr>w_profile := sanitize_profile p, w_max_height := h\<rparr>"
  let ?coords = "box_coords nx (chunk_rows h) nz"
  let ?r = "fold (\<lambda>coord (w, reports). (ensure_generated_chunk coord h w, reports @ [(length reports mod 2 ^ 64, ?total)]))
      ?coords (?w, [(0, ?total)])"
  have total: "(nat nx * nat nz mod 2 ^ 64) * nat (chunk_rows h) mod 2 ^ 64 = ?total"
    by (simp add: total_chunks_def mod_mult_left_eq)
  show ?thesis
  proof (cases "?total = 0")
    case True
    then have "generate nx nz h p w = (?w, [(0, ?total)])" by (simp only: generate_def Let_def total refl if_True)
    with True show ?thesis by (simp add: get_chunk_def world_clear_def)
  next
    case False
    then have "generate nx nz h p w = ?r" by (simp only: generate_def Let_def total if_False)
    moreover have "[0..<Suc ?n] = 0 # List.map Suc [0..<?n]"
      by (simp only: upt_conv_Cons map_Suc_upt zero_less_Suc)
    ultimately show ?thesis
      using False generate_loop [where w = ?w and h = h and tot = ?total and coords = ?coords and reports = "[(0, ?total)]"]
      by (simp add: Let_def get_chunk_def world_clear_def set_box length_box comp_def del: upt_Suc)
  qed
qed

text \<open>C18: Generating the world, whatever it held before, makes exactly the chunks of the requested box, each
  the chunk that the sanitized profile and the height determine (the same that a client generates on
  demand for the same coordinates), made of air and the three known materials only; except that no
  chunk is made when the number of chunks is a multiple of \<open>2 ^ 64\<close>. The progress callback is called
  once per chunk and once before the first, with the counts 0, 1, 2 and so on and the total, both modulo
  \<open>2 ^ 64\<close>.\<close>

theorem generate_world:
  "get_chunk c (fst (generate nx nz h p w)) =
     (if total_chunks nx nz h \<noteq> 0
        \<and> 0 \<le> cc_x c \<and> cc_x c < nx \<and> 0 \<le> cc_y c \<and> cc_y c < chunk_rows h \<and> 0 \<le> cc_z c \<and> cc_z c < nz
      then Some (generated_chunk (sanitize_profile p) h c) else None)
   \<and> snd (generate nx nz h p w) = List.map (\<lambda>i. (i mod 2 ^ 64, total_chunks nx nz h))
       [0..<Suc (if total_chunks nx nz h = 0 then 0 else nat nx * nat nz * nat (chunk_rows h))]
   \<and> known_chunk (generated_chunk (sanitize_profile p) h c)"
  using generated_box [of c nx nz h p w] known_generated by simp

text \<open>
  Up to the largest height that fits, the number of rows is the height in chunks, rounded up; beyond, the
  sum of the code wraps and there are none. A map of \<open>2 ^ 64\<close> chunks is not generated at all.
\<close>

lemma rows_of_height: "0 \<le> h \<Longrightarrow> h < 2 ^ 31 - 32 \<Longrightarrow> chunk_rows h = (h + 31) div 32"
  by (simp add: chunk_rows_def chunk_size_simp in_i32_def)

lemma too_high: "chunk_rows (2 ^ 31 - 1) \<le> 0"
  by code_simp

lemma too_many_chunks: "fst (generate (2 ^ 30) (2 ^ 30) 512 p w) =
    (world_clear w)\<lparr>w_profile := sanitize_profile p, w_max_height := 512\<rparr>"
proof -
  have "chunk_rows 512 = 16" by code_simp
  then show ?thesis by (simp add: generate_def Let_def)
qed

end
