(* ===== verification/Protocol.thy ===== *)
theory Protocol
  imports Json_Text
begin

text \<open>
  The wire format (shared/net/Protocol.h, shared/src/net/Protocol.cpp): message types with their payload
  schemas, the envelope of version, type and payload, and its parser with every error branch. The
  JSON library is the parameter \<open>J\<close>. Shown: the field loop accepts exactly the payloads that conform to
  the schema, an accepted text always holds a conforming packet of a supported version, and
  serializing and parsing gives back every such packet and rejects every other.
\<close>

section \<open>Message types and schemas\<close>

text \<open>
  The enumeration, and the cast of a \<open>uint8_t\<close> to it. A byte without an enumerator is cast to a value
  that the code only looks up among the schemas, where it has none: \<open>None\<close>.
\<close>

datatype message_type = Invalid | JoinRequest | JoinAccept | PlayerInput | StateSnapshot | BlockUpdate
  | InventoryUpdate | DamageEvent | MatchState | Heartbeat | WeaponFire | TreasurePickup

definition named_types :: "(message_type \<times> u8) list" where
  "named_types = [(Invalid, 0), (JoinRequest, 1), (JoinAccept, 2), (PlayerInput, 3), (StateSnapshot, 4),
     (BlockUpdate, 5), (InventoryUpdate, 6), (DamageEvent, 7), (MatchState, 8), (Heartbeat, 9),
     (WeaponFire, 10), (TreasurePickup, 11)]"

definition type_to_u8 :: "message_type \<Rightarrow> u8" where
  "type_to_u8 t = the (map_of named_types t)"

definition type_of_u8 :: "u8 \<Rightarrow> message_type option" where
  "type_of_u8 n = map_of (List.map (\<lambda>(t, n). (n, t)) named_types) n"

datatype protocol_error = No_Error | Invalid_Json | Missing_Envelope_Field | Invalid_Envelope_Field_Type
  | Unsupported_Version | Unknown_Message_Type | Invalid_Payload_Type | Missing_Payload_Field
  | Invalid_Payload_Field_Type

datatype payload_field_type = F_Number | F_Integer | F_Boolean | F_String | F_Object | F_Array

record field_rule =
  fr_name :: string
  fr_type :: payload_field_type
  fr_required :: bool

abbreviation rule :: "string \<Rightarrow> payload_field_type \<Rightarrow> bool \<Rightarrow> field_rule" where
  "rule n t r \<equiv> \<lparr>fr_name = n, fr_type = t, fr_required = r\<rparr>"

record message_schema =
  ms_type :: message_type
  ms_name :: string
  ms_fields :: "field_rule list"

definition join_request_fields :: "field_rule list" where
  "join_request_fields = [rule ''player_name'' F_String True, rule ''client_build'' F_String False,
     rule ''feature_flags'' F_Array False]"

definition join_accept_fields :: "field_rule list" where
  "join_accept_fields = [rule ''message'' F_String True, rule ''max_players'' F_Integer True,
     rule ''protocol_version'' F_Integer True, rule ''feature_flags'' F_Array False]"

definition player_input_fields :: "field_rule list" where
  "player_input_fields = [rule ''player_id'' F_Integer True, rule ''input_seq'' F_Integer True,
     rule ''move_x'' F_Number True, rule ''move_y'' F_Number True, rule ''jump'' F_Boolean True,
     rule ''sprint'' F_Boolean True, rule ''crouch'' F_Boolean True, rule ''fire'' F_Boolean True]"

definition state_snapshot_fields :: "field_rule list" where
  "state_snapshot_fields = [rule ''tick'' F_Integer True, rule ''players'' F_Array True,
     rule ''events'' F_Array False]"

definition block_update_fields :: "field_rule list" where
  "block_update_fields = [rule ''player_id'' F_Integer False, rule ''x'' F_Integer True,
     rule ''y'' F_Integer True, rule ''z'' F_Integer True, rule ''block_id'' F_Integer True]"

definition inventory_update_fields :: "field_rule list" where
  "inventory_update_fields = [rule ''player_id'' F_Integer True, rule ''coins'' F_Integer True]"

definition damage_event_fields :: "field_rule list" where
  "damage_event_fields = [rule ''attacker_id'' F_Integer True, rule ''victim_id'' F_Integer True,
     rule ''damage'' F_Integer True, rule ''lethal'' F_Boolean True]"

definition match_state_fields :: "field_rule list" where
  "match_state_fields = [rule ''state'' F_String True, rule ''remaining_seconds'' F_Number True,
     rule ''scoreboard'' F_Array False]"

definition heartbeat_fields :: "field_rule list" where
  "heartbeat_fields = [rule ''player_id'' F_Integer True, rule ''client_time_ms'' F_Integer False]"

definition weapon_fire_fields :: "field_rule list" where
  "weapon_fire_fields = [rule ''player_id'' F_Integer True, rule ''shot_seq'' F_Integer True,
     rule ''weapon_id'' F_String True, rule ''origin'' F_Object True, rule ''direction'' F_Object True,
     rule ''client_fire_time_ms'' F_Integer False]"

definition treasure_pickup_fields :: "field_rule list" where
  "treasure_pickup_fields = [rule ''player_id'' F_Integer True, rule ''pickup_seq'' F_Integer True,
     rule ''spawn_id'' F_Integer True]"

definition message_schemas :: "message_schema list" where
  "message_schemas =
    [\<lparr>ms_type = JoinRequest, ms_name = ''join_request'', ms_fields = join_request_fields\<rparr>,
     \<lparr>ms_type = JoinAccept, ms_name = ''join_accept'', ms_fields = join_accept_fields\<rparr>,
     \<lparr>ms_type = PlayerInput, ms_name = ''player_input'', ms_fields = player_input_fields\<rparr>,
     \<lparr>ms_type = StateSnapshot, ms_name = ''state_snapshot'', ms_fields = state_snapshot_fields\<rparr>,
     \<lparr>ms_type = BlockUpdate, ms_name = ''block_update'', ms_fields = block_update_fields\<rparr>,
     \<lparr>ms_type = InventoryUpdate, ms_name = ''inventory_update'', ms_fields = inventory_update_fields\<rparr>,
     \<lparr>ms_type = DamageEvent, ms_name = ''damage_event'', ms_fields = damage_event_fields\<rparr>,
     \<lparr>ms_type = MatchState, ms_name = ''match_state'', ms_fields = match_state_fields\<rparr>,
     \<lparr>ms_type = Heartbeat, ms_name = ''heartbeat'', ms_fields = heartbeat_fields\<rparr>,
     \<lparr>ms_type = WeaponFire, ms_name = ''weapon_fire'', ms_fields = weapon_fire_fields\<rparr>,
     \<lparr>ms_type = TreasurePickup, ms_name = ''treasure_pickup'', ms_fields = treasure_pickup_fields\<rparr>]"

definition schema_for :: "message_type \<Rightarrow> message_schema option" where
  "schema_for t = List.find (\<lambda>s. ms_type s = t) message_schemas"

definition message_type_to_string :: "message_type \<Rightarrow> string" where
  "message_type_to_string t = (case schema_for t of Some s \<Rightarrow> ms_name s | None \<Rightarrow> ''invalid'')"

fun protocol_error_to_string :: "protocol_error \<Rightarrow> string" where
  "protocol_error_to_string No_Error = ''none''"
| "protocol_error_to_string Invalid_Json = ''invalid_json''"
| "protocol_error_to_string Missing_Envelope_Field = ''missing_envelope_field''"
| "protocol_error_to_string Invalid_Envelope_Field_Type = ''invalid_envelope_field_type''"
| "protocol_error_to_string Unsupported_Version = ''unsupported_version''"
| "protocol_error_to_string Unknown_Message_Type = ''unknown_message_type''"
| "protocol_error_to_string Invalid_Payload_Type = ''invalid_payload_type''"
| "protocol_error_to_string Missing_Payload_Field = ''missing_payload_field''"
| "protocol_error_to_string Invalid_Payload_Field_Type = ''invalid_payload_field_type''"

section \<open>Packets\<close>

definition protocol_version :: u32 where "protocol_version = 1"
definition min_supported_version :: u32 where "min_supported_version = 1"
definition max_supported_version :: u32 where "max_supported_version = 1"

definition is_supported_version :: "u32 \<Rightarrow> bool" where
  "is_supported_version v \<longleftrightarrow> min_supported_version \<le> v \<and> v \<le> max_supported_version"

record 'j packet =
  pk_type :: message_type
  pk_payload :: 'j
  pk_version :: u32

definition default_packet :: "'j json_api \<Rightarrow> 'j packet" where
  "default_packet J = \<lparr>pk_type = Invalid, pk_payload = jnull J, pk_version = protocol_version\<rparr>"

record 'j parse_result =
  pr_packet :: "'j packet"
  pr_error :: protocol_error
  pr_detail :: string

definition make_error :: "'j json_api \<Rightarrow> protocol_error \<Rightarrow> string \<Rightarrow> 'j parse_result" where
  "make_error J e detail = \<lparr>pr_packet = default_packet J, pr_error = e, pr_detail = detail\<rparr>"

fun matches_type :: "'j json_api \<Rightarrow> 'j \<Rightarrow> payload_field_type \<Rightarrow> bool" where
  "matches_type J v F_Number = is_number J v"
| "matches_type J v F_Integer = (is_number_integer J v \<or> is_number_unsigned J v)"
| "matches_type J v F_Boolean = is_boolean J v"
| "matches_type J v F_String = is_string J v"
| "matches_type J v F_Object = is_object J v"
| "matches_type J v F_Array = is_array J v"

text \<open>The loop over the fields: the first violation, as error and detail.\<close>

fun check_fields :: "'j json_api \<Rightarrow> string \<Rightarrow> 'j \<Rightarrow> field_rule list \<Rightarrow> (protocol_error \<times> string) option" where
  "check_fields J schema payload [] = None"
| "check_fields J schema payload (f # fs) =
     (if \<not> contains J payload (fr_name f) then
        (if fr_required f then Some (Missing_Payload_Field,
           ''Missing payload field `'' @ fr_name f @ ''` for `'' @ schema @ ''`.'')
         else check_fields J schema payload fs)
      else if \<not> matches_type J (at_key J payload (fr_name f)) (fr_type f) then
        Some (Invalid_Payload_Field_Type,
          ''Invalid payload field type for `'' @ fr_name f @ ''` in `'' @ schema @ ''`.'')
      else check_fields J schema payload fs)"

definition validate_payload :: "'j json_api \<Rightarrow> 'j packet \<Rightarrow> (protocol_error \<times> string) option" where
  "validate_payload J packet =
     (case schema_for (pk_type packet) of
        None \<Rightarrow> Some (Unknown_Message_Type, ''Unknown message type.'')
      | Some schema \<Rightarrow>
          if \<not> is_object J (pk_payload packet)
          then Some (Invalid_Payload_Type, ''Payload must be a JSON object.'')
          else check_fields J (ms_name schema) (pk_payload packet) (ms_fields schema))"

definition serialize :: "'j json_api \<Rightarrow> 'j packet \<Rightarrow> string" where
  "serialize J packet = jdump J (jof_object J
     [(''version'', jof_uint J (ucast (pk_version packet))),
      (''type'', jof_uint J (ucast (type_to_u8 (pk_type packet)))),
      (''payload'', pk_payload packet)])"

text \<open>The envelope fields, each with its errors on the left.\<close>

definition read_version :: "'j json_api \<Rightarrow> 'j \<Rightarrow> (protocol_error \<times> string) + u32" where
  "read_version J doc =
     (if \<not> contains J doc ''version'' then Inr protocol_version
      else let v = at_key J doc ''version'' in
        if \<not> is_number_integer J v \<and> \<not> is_number_unsigned J v then
          Inl (Invalid_Envelope_Field_Type, ''Envelope field `version` must be an integer.'')
        else if is_number_unsigned J v then
          (if ju64 J v = 0 \<or> 4294967295 < ju64 J v then
             Inl (Invalid_Envelope_Field_Type, ''Envelope field `version` is out of range.'')
           else Inr (ucast (ju64 J v)))
        else if ji64 J v \<le> 0 \<or> 4294967295 < ji64 J v then
          Inl (Invalid_Envelope_Field_Type, ''Envelope field `version` is out of range.'')
        else Inr (word_of_int (ji64 J v)))"

definition read_type :: "'j json_api \<Rightarrow> 'j \<Rightarrow> (protocol_error \<times> string) + u8" where
  "read_type J doc =
     (if \<not> contains J doc ''type'' then
        Inl (Missing_Envelope_Field, ''Envelope field `type` is required.'')
      else let v = at_key J doc ''type'' in
        if \<not> is_number_integer J v \<and> \<not> is_number_unsigned J v then
          Inl (Invalid_Envelope_Field_Type, ''Envelope field `type` must be an integer.'')
        else if is_number_unsigned J v then
          (if 255 < ju64 J v then Inl (Unknown_Message_Type, ''Envelope field `type` is out of valid range.'')
           else Inr (ucast (ju64 J v)))
        else if ji64 J v < 0 \<or> 255 < ji64 J v then
          Inl (Unknown_Message_Type, ''Envelope field `type` is out of valid range.'')
        else Inr (word_of_int (ji64 J v)))"

definition read_envelope :: "'j json_api \<Rightarrow> 'j \<Rightarrow> (protocol_error \<times> string) + 'j packet" where
  "read_envelope J doc =
     (case read_version J doc of Inl e \<Rightarrow> Inl e
      | Inr version \<Rightarrow>
        if \<not> is_supported_version version then
          Inl (Unsupported_Version, ''Unsupported protocol version: '' @ decimal (unat version) @ ''.'')
        else case read_type J doc of Inl e \<Rightarrow> Inl e
        | Inr n \<Rightarrow>
          (case Option.bind (type_of_u8 n) schema_for of
             None \<Rightarrow> Inl (Unknown_Message_Type, ''Unknown message type: '' @ decimal (unat n) @ ''.'')
           | Some schema \<Rightarrow>
             if \<not> contains J doc ''payload'' then
               Inl (Missing_Envelope_Field, ''Envelope field `payload` is required.'')
             else Inr \<lparr>pk_type = ms_type schema, pk_payload = at_key J doc ''payload'', pk_version = version\<rparr>))"

definition try_deserialize :: "'j json_api \<Rightarrow> string \<Rightarrow> 'j parse_result" where
  "try_deserialize J data =
     (case jparse J data of None \<Rightarrow> make_error J Invalid_Json ''Failed to parse JSON packet.''
      | Some doc \<Rightarrow>
        if \<not> is_object J doc
        then make_error J Invalid_Envelope_Field_Type ''Packet envelope must be a JSON object.''
        else case read_envelope J doc of Inl (e, detail) \<Rightarrow> make_error J e detail
        | Inr packet \<Rightarrow>
          (case validate_payload J packet of Some (e, detail) \<Rightarrow> make_error J e detail
           | None \<Rightarrow> \<lparr>pr_packet = packet, pr_error = No_Error, pr_detail = []\<rparr>))"

definition deserialize :: "'j json_api \<Rightarrow> string \<Rightarrow> 'j packet" where
  "deserialize J data = (let r = try_deserialize J data in
     if pr_error r = No_Error then pr_packet r else default_packet J)"

section \<open>Conforming packets\<close>

text \<open>What the schemas promise, without the loop and its early exits.\<close>

definition field_conforms :: "'j json_api \<Rightarrow> 'j \<Rightarrow> field_rule \<Rightarrow> bool" where
  "field_conforms J payload f = (case jfind J payload (fr_name f) of
     None \<Rightarrow> \<not> fr_required f | Some v \<Rightarrow> matches_type J v (fr_type f))"

definition packet_conforms :: "'j json_api \<Rightarrow> 'j packet \<Rightarrow> bool" where
  "packet_conforms J p = (case schema_for (pk_type p) of None \<Rightarrow> False
     | Some s \<Rightarrow> is_object J (pk_payload p) \<and> list_all (field_conforms J (pk_payload p)) (ms_fields s))"

definition packet_valid :: "'j json_api \<Rightarrow> 'j packet \<Rightarrow> bool" where
  "packet_valid J p \<longleftrightarrow> is_supported_version (pk_version p) \<and> packet_conforms J p"

lemma check_fields_iff: "check_fields J s payload fs = None \<longleftrightarrow> list_all (field_conforms J payload) fs"
  by (induction fs) (auto simp: field_conforms_def contains_def at_key_def split: option.split)

lemma validate_iff: "validate_payload J p = None \<longleftrightarrow> packet_conforms J p"
  by (auto simp: validate_payload_def packet_conforms_def check_fields_iff split: option.split)

lemma check_fields_error: "check_fields J s payload fs = Some (e, d) \<Longrightarrow> e \<noteq> No_Error"
  by (induction fs) (auto split: if_splits)

lemma validate_error: "validate_payload J p = Some (e, d) \<Longrightarrow> e \<noteq> No_Error"
  by (auto simp: validate_payload_def dest: check_fields_error split: option.splits if_splits)

lemma envelope_error: "read_envelope J doc = Inl (e, d) \<Longrightarrow> e \<noteq> No_Error"
  by (auto simp: read_envelope_def read_version_def read_type_def Let_def
      split: sum.splits option.splits if_splits)

lemma envelope_supported: "read_envelope J doc = Inr p \<Longrightarrow> is_supported_version (pk_version p)"
  by (auto simp: read_envelope_def split: sum.splits option.splits if_splits)

text \<open>Every parse ends in a valid packet without error, or in an error with the default packet.\<close>

lemma parse_cases:
  "(pr_error (try_deserialize J data) = No_Error \<and> packet_valid J (pr_packet (try_deserialize J data)))
   \<or> (pr_error (try_deserialize J data) \<noteq> No_Error \<and> pr_packet (try_deserialize J data) = default_packet J)"
proof (cases "jparse J data")
  case (Some doc)
  show ?thesis
  proof (cases "read_envelope J doc")
    case (Inl e)
    then show ?thesis
      using Some envelope_error [of J doc] by (cases e) (auto simp: try_deserialize_def make_error_def)
  next
    case (Inr p)
    show ?thesis
    proof (cases "validate_payload J p")
      case None
      then have "packet_conforms J p" by (simp add: validate_iff)
      then show ?thesis
        using Some Inr None envelope_supported [OF Inr]
        by (auto simp: try_deserialize_def make_error_def packet_valid_def)
    next
      case (Some e)
      then show ?thesis
        using \<open>jparse J data = Some doc\<close> Inr validate_error [of J p]
        by (cases e) (auto simp: try_deserialize_def make_error_def)
    qed
  qed
qed (simp add: try_deserialize_def make_error_def)

section \<open>Round trip\<close>

lemma type_of_to_u8: "type_of_u8 (type_to_u8 t) = Some t"
  by (cases t) (simp_all add: type_of_u8_def type_to_u8_def named_types_def)

lemma schema_type: "schema_for t = Some s \<Longrightarrow> ms_type s = t"
  by (simp add: schema_for_def find_Some_iff) metis

lemma small_ucast_64: "uint (x :: 'a::len word) < 2 ^ 64 \<Longrightarrow> uint (ucast x :: u64) = uint x"
  by (simp add: unsigned_ucast_eq take_bit_int_eq_self)

lemma u32_up_down: "(ucast (ucast (k :: u32) :: u64) :: u32) = k"
  by transfer (simp add: min_def)

lemma u8_up_down: "(ucast (ucast (k :: u8) :: u64) :: u8) = k"
  by transfer (simp add: min_def)

definition envelope_fields :: "'j json_api \<Rightarrow> 'j packet \<Rightarrow> (string \<times> 'j) list" where
  "envelope_fields J p = [(''version'', jof_uint J (ucast (pk_version p))),
     (''type'', jof_uint J (ucast (type_to_u8 (pk_type p)))), (''payload'', pk_payload p)]"

lemma envelope_distinct: "distinct (List.map fst (envelope_fields J p))"
  by (simp add: envelope_fields_def)

lemma serialize_fields: "serialize J p = jdump J (jof_object J (envelope_fields J p))"
  by (simp add: serialize_def envelope_fields_def)

context json_library
begin

lemma envelope_find:
  "jfind J (jof_object J (envelope_fields J p)) ''version'' = Some (jof_uint J (ucast (pk_version p)))"
  "jfind J (jof_object J (envelope_fields J p)) ''type'' = Some (jof_uint J (ucast (type_to_u8 (pk_type p))))"
  "jfind J (jof_object J (envelope_fields J p)) ''payload'' = Some (pk_payload p)"
  by (simp_all only: object_get [OF envelope_distinct]) (simp_all add: envelope_fields_def)

lemma envelope_textual: "textual (pk_payload p) \<Longrightarrow> textual (jof_object J (envelope_fields J p))"
  by (intro text_object envelope_distinct)
    (simp_all add: envelope_fields_def json_plain_def text_uint)

lemma version_back:
  "read_version J (jof_object J (envelope_fields J p)) =
     (if pk_version p = 0 then Inl (Invalid_Envelope_Field_Type, ''Envelope field `version` is out of range.'')
      else Inr (pk_version p))"
proof -
  have v: "uint (pk_version p) < 2 ^ 32" using unsigned_less [of "pk_version p", where 'a = int] by simp
  then have u: "uint (ucast (pk_version p) :: u64) = uint (pk_version p)" by (intro small_ucast_64) simp
  have "(ucast (pk_version p) :: u64) = 0 \<longleftrightarrow> pk_version p = 0"
    using u by (metis uint_0_iff)
  moreover have "\<not> 4294967295 < (ucast (pk_version p) :: u64)"
    using v by (simp add: word_less_def u)
  moreover have "(ucast (ucast (pk_version p) :: u64) :: u32) = pk_version p"
    by (rule u32_up_down)
  ultimately show ?thesis
    by (simp add: read_version_def contains_def at_key_def envelope_find json_types types gets Let_def)
qed

lemma type_back: "read_type J (jof_object J (envelope_fields J p)) = Inr (type_to_u8 (pk_type p))"
proof -
  have v: "uint (type_to_u8 (pk_type p)) < 2 ^ 8"
    using unsigned_less [of "type_to_u8 (pk_type p)", where 'a = int] by simp
  then have u: "uint (ucast (type_to_u8 (pk_type p)) :: u64) = uint (type_to_u8 (pk_type p))"
    by (intro small_ucast_64) simp
  have "\<not> 255 < (ucast (type_to_u8 (pk_type p)) :: u64)"
    using v by (simp add: word_less_def u)
  moreover have "(ucast (ucast (type_to_u8 (pk_type p)) :: u64) :: u8) = type_to_u8 (pk_type p)"
    by (rule u8_up_down)
  ultimately show ?thesis
    by (simp add: read_type_def contains_def at_key_def envelope_find json_types types gets Let_def)
qed

lemma packet_back:
  assumes "textual (pk_payload p)" and "packet_valid J p"
  shows "try_deserialize J (serialize J p) = \<lparr>pr_packet = p, pr_error = No_Error, pr_detail = []\<rparr>"
proof -
  have supported: "is_supported_version (pk_version p)" and conforms: "packet_conforms J p"
    using assms(2) by (simp_all add: packet_valid_def)
  then obtain s where s: "schema_for (pk_type p) = Some s" by (auto simp: packet_conforms_def split: option.splits)
  have "pk_version p \<noteq> 0"
    using supported by (auto simp: is_supported_version_def min_supported_version_def)
  then have "read_envelope J (jof_object J (envelope_fields J p)) = Inr p"
    using supported s schema_type [OF s]
    by (simp add: read_envelope_def version_back type_back type_of_to_u8 contains_def at_key_def envelope_find)
  then show ?thesis
    using conforms text_get [OF envelope_textual [OF assms(1)]]
    by (simp add: try_deserialize_def serialize_fields validate_iff [symmetric] json_types types)
qed

lemma packet_refused:
  assumes "textual (pk_payload p)" and "\<not> packet_valid J p"
  shows "pr_error (try_deserialize J (serialize J p)) \<noteq> No_Error"
proof
  assume ok: "pr_error (try_deserialize J (serialize J p)) = No_Error"
  have "jparse J (serialize J p) = Some (jof_object J (envelope_fields J p))"
    using text_get [OF envelope_textual [OF assms(1)]] by (simp add: serialize_fields)
  then obtain q where q: "read_envelope J (jof_object J (envelope_fields J p)) = Inr q"
      "pr_packet (try_deserialize J (serialize J p)) = q"
    using ok by (auto simp: try_deserialize_def make_error_def json_types types
        dest: envelope_error validate_error split: sum.splits option.splits)
  have "q = p"
    using q(1) schema_type [of "pk_type p"]
    by (auto simp: read_envelope_def version_back type_back type_of_to_u8 contains_def at_key_def envelope_find
        split: option.splits if_splits)
  with q(2) ok parse_cases [of J "serialize J p"] assms(2) show False by simp
qed

end

text \<open>C11: Serializing a packet and parsing the text gives back the packet, when its version is supported and
  its payload conforms to the schema of its type, and an error otherwise. And whatever the text, a
  parse without error yields such a packet, and a parse with an error makes \<open>deserialize\<close> return the
  invalid packet: no malformed packet reaches a handler.\<close>

theorem packet_roundtrip:
  assumes "json_library J good" and "good (pk_payload p)"
  shows "(pr_error (try_deserialize J (serialize J p)) = No_Error \<longleftrightarrow> packet_valid J p)
    \<and> (packet_valid J p \<longrightarrow> deserialize J (serialize J p) = p)
    \<and> (packet_valid J (deserialize J data) \<or> deserialize J data = default_packet J)"
  using json_library.packet_back [OF assms] json_library.packet_refused [OF assms] parse_cases [of J data]
  by (auto simp: deserialize_def Let_def)

definition inventory_packet :: "json_value packet" where
  "inventory_packet = \<lparr>pk_type = InventoryUpdate,
     pk_payload = VObject [(''player_id'', VUint 4), (''coins'', VUint 250)], pk_version = 1\<rparr>"

theorem packet_roundtrip_witness:
  "deserialize text_json (serialize text_json inventory_packet) = inventory_packet
    \<and> serialize text_json inventory_packet =
        CHR ''{'' # quoted ''version'' @ '':1,'' @ quoted ''type'' @ '':6,'' @ quoted ''payload'' @ '':{''
          @ quoted ''player_id'' @ '':4,'' @ quoted ''coins'' @ '':250}}''"
proof
  have "textual (pk_payload inventory_packet)"
    by (simp add: inventory_packet_def json_plain_def)
  moreover have "packet_valid text_json inventory_packet"
    by code_simp
  ultimately show "deserialize text_json (serialize text_json inventory_packet) = inventory_packet"
    using packet_roundtrip [OF text_json_library, of inventory_packet] by simp
  show "serialize text_json inventory_packet =
        CHR ''{'' # quoted ''version'' @ '':1,'' @ quoted ''type'' @ '':6,'' @ quoted ''payload'' @ '':{''
          @ quoted ''player_id'' @ '':4,'' @ quoted ''coins'' @ '':250}}''"
    by code_simp
qed

end
