(* ===== verification/Block_Edit.thy ===== *)
theory Block_Edit
  imports Voxel_World
begin

text \<open>
  Validated block edits on the authoritative world (server/BlockInteraction.h,
  server/src/BlockInteraction.cpp): a block may be placed only into air and removed only from a solid
  place. Shown: which status a command gets, what it changes, and that an applied edit can be undone.
\<close>

definition air_block_id :: block_id where "air_block_id = 0"

datatype block_update_status = Applied | OutOfBounds | InvalidBlockId | ConflictAlreadyEmpty
  | ConflictAlreadyOccupied | NoChange

record block_update_command =
  bc_player_id :: u32
  bc_world_x :: int
  bc_world_y :: int
  bc_world_z :: int
  bc_block_id :: block_id

record block_update_outcome =
  bo_status :: block_update_status
  bo_previous_block_id :: block_id
  bo_chunk :: chunk_coord

definition default_outcome :: block_update_outcome where
  "default_outcome = \<lparr>bo_status = OutOfBounds, bo_previous_block_id = 0, bo_chunk = Coord 0 0 0\<rparr>"

text \<open>The set of valid ids, with the defaults of \<open>sanitize_config\<close>.\<close>

definition sanitize_block_ids :: "block_id set \<Rightarrow> block_id set" where
  "sanitize_block_ids ids = (if ids = {} then {0, 1, 2, 3} else insert air_block_id ids)"

definition world_to_chunk_axis :: "int \<Rightarrow> int option" where
  "world_to_chunk_axis world_axis = (if world_axis < 0 then None else Some (c_div world_axis chunk_size))"

definition edit_conflict :: "block_id \<Rightarrow> block_id \<Rightarrow> block_update_status option" where
  "edit_conflict wanted previous =
     (if wanted = air_block_id \<and> previous = air_block_id then Some ConflictAlreadyEmpty
      else if wanted \<noteq> air_block_id \<and> previous \<noteq> air_block_id then
        (if previous = wanted then Some NoChange else Some ConflictAlreadyOccupied)
      else None)"

definition apply_block_update ::
    "block_id set \<Rightarrow> block_update_command \<Rightarrow> world \<Rightarrow> block_update_outcome \<times> world" where
  "apply_block_update valid_ids cmd w =
     (let x = bc_world_x cmd; y = bc_world_y cmd; z = bc_world_z cmd; b = bc_block_id cmd;
          outcome = default_outcome in
      if b \<notin> valid_ids then (outcome\<lparr>bo_status := InvalidBlockId\<rparr>, w)
      else case block_at x y z w of None \<Rightarrow> (outcome\<lparr>bo_status := OutOfBounds\<rparr>, w)
      | Some current \<Rightarrow>
        let outcome = outcome\<lparr>bo_previous_block_id := current\<rparr> in
        case edit_conflict b current of Some status \<Rightarrow> (outcome\<lparr>bo_status := status\<rparr>, w)
        | None \<Rightarrow>
          case set_block x y z b w of (ok, w') \<Rightarrow>
            if \<not> ok then (outcome\<lparr>bo_status := OutOfBounds\<rparr>, w')
            else case (world_to_chunk_axis x, world_to_chunk_axis y, world_to_chunk_axis z) of
              (Some cx, Some cy, Some cz) \<Rightarrow> (outcome\<lparr>bo_status := Applied, bo_chunk := Coord cx cy cz\<rparr>, w')
            | _ \<Rightarrow> (outcome\<lparr>bo_status := OutOfBounds\<rparr>, w'))"

fun block_update_status_to_string :: "block_update_status \<Rightarrow> string" where
  "block_update_status_to_string Applied = ''applied''"
| "block_update_status_to_string OutOfBounds = ''out_of_bounds''"
| "block_update_status_to_string InvalidBlockId = ''invalid_block_id''"
| "block_update_status_to_string ConflictAlreadyEmpty = ''conflict_already_empty''"
| "block_update_status_to_string ConflictAlreadyOccupied = ''conflict_already_occupied''"
| "block_update_status_to_string NoChange = ''no_change''"

section \<open>Statuses and effects\<close>

text \<open>The status as a table over the wanted block and the present one.\<close>

definition edit_status :: "block_id set \<Rightarrow> block_id \<Rightarrow> block_id option \<Rightarrow> block_update_status" where
  "edit_status valid_ids wanted present =
     (if wanted \<notin> valid_ids then InvalidBlockId
      else case present of None \<Rightarrow> OutOfBounds
      | Some b \<Rightarrow> if wanted = 0 \<and> b = 0 then ConflictAlreadyEmpty
          else if wanted = 0 \<or> b = 0 then Applied
          else if wanted = b then NoChange else ConflictAlreadyOccupied)"

lemma edit_cases:
  fixes ids cmd w
  defines "r \<equiv> apply_block_update ids cmd w"
    and "present \<equiv> block_at (bc_world_x cmd) (bc_world_y cmd) (bc_world_z cmd) w"
  shows "bo_status (fst r) = edit_status ids (bc_block_id cmd) present
    \<and> snd r = (if bo_status (fst r) = Applied
        then snd (set_block (bc_world_x cmd) (bc_world_y cmd) (bc_world_z cmd) (bc_block_id cmd) w) else w)
    \<and> (bo_status (fst r) = Applied \<longrightarrow> present = Some (bo_previous_block_id (fst r))
        \<and> (\<exists>l. locate (bc_world_x cmd) (bc_world_y cmd) (bc_world_z cmd) = Some (bo_chunk (fst r), l)))"
proof (cases "bc_block_id cmd \<in> ids")
  case False
  then show ?thesis by (simp add: r_def apply_block_update_def edit_status_def Let_def)
next
  case valid: True
  show ?thesis
  proof (cases present)
    case None
    with valid show ?thesis
      by (simp add: r_def present_def apply_block_update_def edit_status_def Let_def)
  next
    case (Some b)
    note here = this [unfolded present_def]
    show ?thesis
    proof (cases "edit_conflict (bc_block_id cmd) b")
      case conflict: (Some s)
      then have "edit_status ids (bc_block_id cmd) (Some b) = s \<and> s \<noteq> Applied"
        using valid by (auto simp: edit_conflict_def edit_status_def air_block_id_def split: if_splits)
      with valid Some here conflict show ?thesis by (simp add: r_def apply_block_update_def Let_def)
    next
      case free: None
      let ?s = "set_block (bc_world_x cmd) (bc_world_y cmd) (bc_world_z cmd) (bc_block_id cmd) w"
      have ok: "?s = (True, snd ?s)" using set_block_ok [of _ _ _ "bc_block_id cmd" w] here
        by (metis option.distinct(1) prod.collapse)
      obtain c l where c: "locate (bc_world_x cmd) (bc_world_y cmd) (bc_world_z cmd) = Some (c, l)"
        using here by (auto simp: block_at_def split: option.splits)
      then have "0 \<le> bc_world_x cmd" "0 \<le> bc_world_y cmd" "0 \<le> bc_world_z cmd"
        "c = Coord (bc_world_x cmd div 32) (bc_world_y cmd div 32) (bc_world_z cmd div 32)"
        by (auto simp: locate_eq split: if_splits)
      moreover have "edit_status ids (bc_block_id cmd) (Some b) = Applied"
        using valid free by (auto simp: edit_conflict_def edit_status_def air_block_id_def split: if_splits)
      moreover have "case_prod f ?s = f True (snd ?s)" for f :: "bool \<Rightarrow> world \<Rightarrow> block_update_outcome \<times> world"
        by (subst ok) simp
      ultimately have "r = (default_outcome\<lparr>bo_previous_block_id := b, bo_status := Applied, bo_chunk := c\<rparr>, snd ?s)"
        using valid here free
        by (simp add: r_def apply_block_update_def Let_def world_to_chunk_axis_def chunk_size_simp)
      then show ?thesis using Some c \<open>edit_status ids (bc_block_id cmd) (Some b) = Applied\<close> by (cases l) simp
    qed
  qed
qed

lemma edit_status_effect:
  "bo_status (fst (apply_block_update ids cmd w)) =
     edit_status ids (bc_block_id cmd) (block_at (bc_world_x cmd) (bc_world_y cmd) (bc_world_z cmd) w)"
  using edit_cases [of ids cmd w] by simp

lemma edit_applied_iff:
  "edit_status ids b present = Applied \<longleftrightarrow> b \<in> ids \<and> (\<exists>p. present = Some p \<and> (b = 0) \<noteq> (p = 0))"
  by (auto simp: edit_status_def split: option.split)

lemma edit_blocks:
  "block_at x y z (snd (apply_block_update ids cmd w)) =
     (if bo_status (fst (apply_block_update ids cmd w)) = Applied
         \<and> x = bc_world_x cmd \<and> y = bc_world_y cmd \<and> z = bc_world_z cmd
      then Some (bc_block_id cmd) else block_at x y z w)"
proof (cases "bo_status (fst (apply_block_update ids cmd w)) = Applied")
  case True
  then have "block_at (bc_world_x cmd) (bc_world_y cmd) (bc_world_z cmd) w \<noteq> None"
    by (auto simp: edit_status_effect edit_applied_iff)
  with True show ?thesis
    using edit_cases [of ids cmd w] by (simp add: block_at_set_block set_block_ok)
next
  case False
  with edit_cases [of ids cmd w] show ?thesis by simp
qed

lemma edit_undo:
  assumes "bo_status (fst (apply_block_update ids cmd w)) = Applied"
    and "bo_previous_block_id (fst (apply_block_update ids cmd w)) \<in> ids"
  defines "undo \<equiv> cmd\<lparr>bc_block_id := bo_previous_block_id (fst (apply_block_update ids cmd w))\<rparr>"
  shows "bo_status (fst (apply_block_update ids undo (snd (apply_block_update ids cmd w)))) = Applied
    \<and> (\<forall>x y z. block_at x y z (snd (apply_block_update ids undo (snd (apply_block_update ids cmd w)))) = block_at x y z w)"
proof -
  let ?w = "snd (apply_block_update ids cmd w)"
  let ?p = "bo_previous_block_id (fst (apply_block_update ids cmd w))"
  have p: "block_at (bc_world_x cmd) (bc_world_y cmd) (bc_world_z cmd) w = Some ?p"
    using edit_cases [of ids cmd w] assms(1) by simp
  have "bo_status (fst (apply_block_update ids undo ?w)) = Applied"
    using assms(1,2) p by (auto simp: edit_status_effect edit_applied_iff edit_blocks undo_def)
  then show ?thesis
    using p by (auto simp: edit_blocks undo_def)
qed


text \<open>A stone into the air of an empty chunk, and back.\<close>

definition edit_world :: world where
  "edit_world = new_world\<lparr>w_chunks := [(Coord 0 0 0, empty_chunk)], w_max_height := 32\<rparr>"

definition place_stone :: block_update_command where
  "place_stone = \<lparr>bc_player_id = 1, bc_world_x = 3, bc_world_y = 4, bc_world_z = 5, bc_block_id = 2\<rparr>"


end
