(* ===== verification/Replication.thy ===== *)
theory Replication
  imports Voxel_World
begin

text \<open>
  Which chunks a player is told about (server/WorldReplication.h, server/src/WorldReplication.cpp): per
  player the subscribed chunks and the revision last sent of each, and per chunk a revision that
  block edits raise. \<open>build_player_update\<close> compares the chunks in reach with what the player knows and
  emits additions, removals and changes. Shown: after an update the server's record of the player is
  exactly the chunks in reach at their current revisions, as long as no revision has wrapped.
\<close>

section \<open>State\<close>

record replication_config =
  rep_chunks_x :: int
  rep_chunks_y :: int
  rep_chunks_z :: int
  rep_interest_radius :: int

record chunk_revision =
  cr_coord :: chunk_coord
  cr_revision :: u32

record player_world_update =
  pu_player_id :: u32
  pu_added :: "chunk_revision list"
  pu_removed :: "chunk_revision list"
  pu_deltas :: "chunk_revision list"

text \<open>The subscribed chunks are an unordered set: a list without repetition.\<close>

record player_replication =
  pr_subscribed :: "chunk_coord list"
  pr_known :: "(chunk_coord, u32) umap"

record replication =
  rep_config :: replication_config
  rep_players :: "(u32, player_replication) umap"
  rep_revisions :: "(chunk_coord, u32) umap"

definition new_player_replication :: player_replication where
  "new_player_replication = \<lparr>pr_subscribed = [], pr_known = []\<rparr>"

definition sanitize_replication_config :: "replication_config \<Rightarrow> replication_config" where
  "sanitize_replication_config c =
     \<lparr>rep_chunks_x = (if rep_chunks_x c \<le> 0 then 64 else rep_chunks_x c),
      rep_chunks_y = (if rep_chunks_y c \<le> 0 then 8 else rep_chunks_y c),
      rep_chunks_z = (if rep_chunks_z c \<le> 0 then 64 else rep_chunks_z c),
      rep_interest_radius = (if rep_interest_radius c < 0 then 2 else rep_interest_radius c)\<rparr>"

definition replication_init :: "replication_config \<Rightarrow> replication" where
  "replication_init c = \<lparr>rep_config = sanitize_replication_config c, rep_players = [], rep_revisions = []\<rparr>"

definition replication_reset :: "replication \<Rightarrow> replication" where
  "replication_reset s = s\<lparr>rep_players := [], rep_revisions := []\<rparr>"

definition replication_remove_player :: "u32 \<Rightarrow> replication \<Rightarrow> replication" where
  "replication_remove_player p s = s\<lparr>rep_players := umap_erase p (rep_players s)\<rparr>"

definition mark_chunk_dirty :: "chunk_coord \<Rightarrow> replication \<Rightarrow> replication" where
  "mark_chunk_dirty coord s =
     (case umap_find (rep_revisions s) coord of
        None \<Rightarrow> s\<lparr>rep_revisions := umap_put coord 1 (rep_revisions s)\<rparr>
      | Some r \<Rightarrow> s\<lparr>rep_revisions := umap_put coord (r + 1) (rep_revisions s)\<rparr>)"

definition revision_for :: "chunk_coord \<Rightarrow> replication \<Rightarrow> u32" where
  "revision_for coord s = (case umap_find (rep_revisions s) coord of None \<Rightarrow> 0 | Some r \<Rightarrow> r)"

section \<open>The chunks in reach\<close>

definition floor_div_chunk :: "fp \<Rightarrow> int" where
  "floor_div_chunk world_axis =
     (if \<not> fp_is_finite world_axis then 0
      else fp_to_i32 (fp_floor (divF world_axis (fp_of_int Single chunk_size))))"

definition chunk_coord_less :: "chunk_coord \<Rightarrow> chunk_coord \<Rightarrow> bool" where
  "chunk_coord_less a b =
     (if cc_x a \<noteq> cc_x b then cc_x a < cc_x b
      else if cc_z a \<noteq> cc_z b then cc_z a < cc_z b
      else cc_y a < cc_y b)"

definition chunk_entry_less :: "chunk_revision \<Rightarrow> chunk_revision \<Rightarrow> bool" where
  "chunk_entry_less a b = chunk_coord_less (cr_coord a) (cr_coord b)"

text \<open>
  The offsets of a disc. The squares are \<open>int\<close> products: above a radius of 46340 they wrap. (At the largest
  \<open>int\<close> the loop variable itself would overflow; this radius is left out.)
\<close>

definition disc_offsets :: "int \<Rightarrow> (int \<times> int) list" where
  "disc_offsets radius =
     filter (\<lambda>(dx, dz). \<not> wrap_i32 (radius * radius) < wrap_i32 (wrap_i32 (dx * dx) + wrap_i32 (dz * dz)))
       (concat (List.map (\<lambda>dz. List.map (\<lambda>dx. (dx, dz)) [- radius..radius]) [- radius..radius]))"

definition column_chunks :: "replication_config \<Rightarrow> world \<Rightarrow> int \<Rightarrow> int \<Rightarrow> chunk_coord list" where
  "column_chunks c w cx cz =
     (if cx < 0 \<or> rep_chunks_x c \<le> cx \<or> cz < 0 \<or> rep_chunks_z c \<le> cz then []
      else filter (\<lambda>coord. get_chunk coord w \<noteq> None)
        (List.map (\<lambda>cy. Coord cx cy cz) [0..rep_chunks_y c - 1]))"

definition gather_relevant_chunks :: "replication_config \<Rightarrow> fp \<Rightarrow> fp \<Rightarrow> world \<Rightarrow> chunk_coord list" where
  "gather_relevant_chunks c world_x world_z w =
     (if rep_chunks_x c \<le> 0 \<or> rep_chunks_y c \<le> 0 \<or> rep_chunks_z c \<le> 0 then []
      else let center_x = clamp_int (floor_div_chunk world_x) 0 (max 0 (rep_chunks_x c - 1));
               center_z = clamp_int (floor_div_chunk world_z) 0 (max 0 (rep_chunks_z c - 1))
        in std_sort chunk_coord_less
          (concat (List.map (\<lambda>(dx, dz). column_chunks c w (wrap_i32 (center_x + dx)) (wrap_i32 (center_z + dz)))
            (disc_offsets (rep_interest_radius c)))))"

text \<open>
  Up to a radius of 32767 no square wraps and the offsets are those of the disc. A radius of 65536 passes
  the validation of the settings, but its square wraps to zero: the neighbouring chunk is out of reach.
\<close>

lemma disc_iff: "(dx, dz) \<in> set (disc_offsets radius) \<longleftrightarrow>
    (- radius \<le> dx \<and> dx \<le> radius) \<and> (- radius \<le> dz \<and> dz \<le> radius)
    \<and> wrap_i32 (wrap_i32 (dx * dx) + wrap_i32 (dz * dz)) \<le> wrap_i32 (radius * radius)"
  by (auto simp: disc_offsets_def not_less image_iff)

lemma disc_exact:
  assumes "0 \<le> radius" and "radius < 2 ^ 15"
  shows "(dx, dz) \<in> set (disc_offsets radius) \<longleftrightarrow> dx * dx + dz * dz \<le> radius * radius"
proof -
  have le: "r * r \<le> radius * radius" if "- radius \<le> r" "r \<le> radius" for r
    using that abs_le_square_iff [of r radius] assms(1) by (simp add: abs_le_iff power2_eq_square)
  have "radius * radius \<le> (2 ^ 15 - 1) * (2 ^ 15 - 1)" using assms by (intro mult_mono) simp_all
  then have small: "r * r + s * s < 2 ^ 31" if "- radius \<le> r" "r \<le> radius" "- radius \<le> s" "s \<le> radius" for r s
    using le [of r] le [of s] that by simp
  have inside: "- radius \<le> r \<and> r \<le> radius" if "r * r \<le> radius * radius" for r
    using that abs_le_square_iff [of r radius] assms(1) by (simp add: abs_le_iff power2_eq_square)
  have zero: "0 \<le> r * r" for r :: int by simp
  have fit: "wrap_i32 (r * r) = r * r" "wrap_i32 (r * r + s * s) = r * r + s * s"
    if "- radius \<le> r" "r \<le> radius" "- radius \<le> s" "s \<le> radius" for r s
  proof -
    have "in_i32 (r * r)" "in_i32 (r * r + s * s)"
      unfolding in_i32_def using small [OF that] zero [of r] zero [of s] by linarith+
    then show "wrap_i32 (r * r) = r * r" "wrap_i32 (r * r + s * s) = r * r + s * s" by simp_all
  qed
  have "- radius \<le> radius" using assms(1) by simp
  then have "wrap_i32 (radius * radius) = radius * radius" using fit(1) [of radius radius] by simp
  moreover have "- radius \<le> dx \<and> dx \<le> radius" "- radius \<le> dz \<and> dz \<le> radius" if "dx * dx + dz * dz \<le> radius * radius"
    using inside [of dx] inside [of dz] zero [of dx] zero [of dz] that by linarith+
  ultimately show ?thesis
    using fit [of dx dz] fit(1) [of dz dx] unfolding disc_iff by metis
qed

lemma wide_disc_misses_neighbour: "(1, 0) \<notin> set (disc_offsets 65536)"
  by (simp add: disc_iff wrap_i32_def)

section \<open>The update of one player\<close>

definition drop_chunk :: "chunk_coord \<Rightarrow> player_replication \<Rightarrow> player_replication" where
  "drop_chunk coord p =
     p\<lparr>pr_subscribed := removeAll coord (pr_subscribed p), pr_known := umap_erase coord (pr_known p)\<rparr>"

text \<open>One target chunk: the player's record, the additions and the changes so far.\<close>

definition offer_chunk :: "(chunk_coord \<Rightarrow> u32) \<Rightarrow> chunk_coord \<Rightarrow>
    player_replication \<times> chunk_revision list \<times> chunk_revision list \<Rightarrow>
    player_replication \<times> chunk_revision list \<times> chunk_revision list" where
  "offer_chunk revision_of coord = (\<lambda>(p, added, deltas).
     let revision = revision_of coord; entry = \<lparr>cr_coord = coord, cr_revision = revision\<rparr> in
     if coord \<notin> set (pr_subscribed p) then
       (p\<lparr>pr_subscribed := coord # pr_subscribed p, pr_known := umap_put coord revision (pr_known p)\<rparr>,
        added @ [entry], deltas)
     else
       let known = (case umap_find (pr_known p) coord of None \<Rightarrow> 0 | Some r \<Rightarrow> r) in
       if known < revision then (p\<lparr>pr_known := umap_put coord revision (pr_known p)\<rparr>, added, deltas @ [entry])
       else (p, added, deltas))"

definition update_player :: "(chunk_coord \<Rightarrow> u32) \<Rightarrow> chunk_coord list \<Rightarrow> player_replication \<Rightarrow>
    player_replication \<times> chunk_revision list \<times> chunk_revision list \<times> chunk_revision list" where
  "update_player revision_of targets p =
     (let removed = filter (\<lambda>coord. coord \<notin> set targets) (pr_subscribed p);
          p = fold drop_chunk removed p;
          r = fold (offer_chunk revision_of) targets (p, [], [])
      in (fst r, std_sort chunk_entry_less (fst (snd r)),
          std_sort chunk_entry_less (List.map (\<lambda>coord. \<lparr>cr_coord = coord, cr_revision = 0\<rparr>) removed),
          std_sort chunk_entry_less (snd (snd r))))"

definition player_replication_of :: "u32 \<Rightarrow> replication \<Rightarrow> player_replication" where
  "player_replication_of pid s =
     (case umap_find (rep_players s) pid of None \<Rightarrow> new_player_replication | Some p \<Rightarrow> p)"

definition build_player_update :: "u32 \<Rightarrow> fp \<Rightarrow> fp \<Rightarrow> world \<Rightarrow> replication \<Rightarrow> player_world_update \<times> replication" where
  "build_player_update pid world_x world_z w s =
     (let targets = gather_relevant_chunks (rep_config s) world_x world_z w;
          r = update_player (\<lambda>coord. revision_for coord s) targets (player_replication_of pid s)
      in (\<lparr>pu_player_id = pid, pu_added = fst (snd r), pu_removed = fst (snd (snd r)), pu_deltas = snd (snd (snd r))\<rparr>,
          s\<lparr>rep_players := umap_put pid (fst r) (rep_players s)\<rparr>))"

section \<open>The record of a player after an update\<close>

interpretation coord_order: key_order chunk_coord_less "\<lambda>c. c"
  by unfold_locales (simp add: chunk_coord_less_def less_chunk_coord_def lex_less_3)

interpretation entry_order: key_order chunk_entry_less cr_coord
  by unfold_locales (simp add: chunk_entry_less_def coord_order.less_iff)

text \<open>A record is consistent: it knows the subscribed chunks and no others.\<close>

definition known_ok :: "player_replication \<Rightarrow> bool" where
  "known_ok p \<longleftrightarrow> umap_ok (pr_known p) \<and> set (pr_subscribed p) = set (map fst (pr_known p))"

lemma find_iff_key: "umap_find m k = None \<longleftrightarrow> k \<notin> set (map fst m)"
  by (simp add: map_of_eq_None_iff)

lemma known_find: "known_ok p \<Longrightarrow> umap_find (pr_known p) c = None \<longleftrightarrow> c \<notin> set (pr_subscribed p)"
  by (simp add: known_ok_def find_iff_key)

lemma drop_ok: "known_ok p \<Longrightarrow> known_ok (drop_chunk c p)"
  by (auto simp: known_ok_def drop_chunk_def keys_erase simp del: set_map)

lemma drops:
  "known_ok p \<Longrightarrow> known_ok (fold drop_chunk cs p)
     \<and> umap_find (pr_known (fold drop_chunk cs p)) c = (if c \<in> set cs then None else umap_find (pr_known p) c)"
proof (induction cs arbitrary: p)
  case (Cons a cs)
  then show ?case using drop_ok [of p a] by (auto simp: drop_chunk_def umap_simps)
qed simp

text \<open>What a target chunk must know before it is offered: nothing newer than its revision.\<close>

definition not_newer :: "(chunk_coord \<Rightarrow> u32) \<Rightarrow> player_replication \<Rightarrow> bool" where
  "not_newer revision_of p \<longleftrightarrow> (\<forall>c r. umap_find (pr_known p) c = Some r \<longrightarrow> r \<le> revision_of c)"

definition after_offer :: "(chunk_coord \<Rightarrow> u32) \<Rightarrow> chunk_coord \<Rightarrow> player_replication \<Rightarrow> player_replication" where
  "after_offer rv c p = p\<lparr>pr_subscribed := List.insert c (pr_subscribed p),
     pr_known := if umap_find (pr_known p) c = Some (rv c) then pr_known p else umap_put c (rv c) (pr_known p)\<rparr>"

text \<open>The entries that an offer emits: for a new chunk an addition, for an outdated one a change.\<close>

lemma offer_step:
  assumes "known_ok p" and "not_newer rv p"
  shows "offer_chunk rv c (p, added, deltas) =
    (after_offer rv c p,
     if umap_find (pr_known p) c = None then added @ [\<lparr>cr_coord = c, cr_revision = rv c\<rparr>] else added,
     if umap_find (pr_known p) c = None \<or> umap_find (pr_known p) c = Some (rv c) then deltas
     else deltas @ [\<lparr>cr_coord = c, cr_revision = rv c\<rparr>])"
proof (cases "umap_find (pr_known p) c")
  case None
  then have "c \<notin> set (pr_subscribed p)" using known_find [OF assms(1)] by simp
  with None show ?thesis by (simp add: offer_chunk_def after_offer_def Let_def List.insert_def)
next
  case (Some r)
  then have "c \<in> set (pr_subscribed p)" using known_find [OF assms(1), of c] by auto
  moreover have "r \<le> rv c" using Some assms(2) by (simp add: not_newer_def)
  ultimately show ?thesis
    using Some by (cases p) (auto simp: offer_chunk_def after_offer_def Let_def List.insert_def)
qed

lemma after_offer_ok:
  assumes "known_ok p" and "not_newer rv p"
  shows "known_ok (after_offer rv c p)" and "not_newer rv (after_offer rv c p)"
    and "umap_find (pr_known (after_offer rv c p)) d = (if d = c then Some (rv c) else umap_find (pr_known p) d)"
proof -
  show known: "umap_find (pr_known (after_offer rv c p)) d = (if d = c then Some (rv c) else umap_find (pr_known p) d)" for d
    by (simp add: after_offer_def umap_simps)
  show "not_newer rv (after_offer rv c p)"
    using assms(2) by (auto simp: not_newer_def known)
  have "umap_find (pr_known p) c = Some (rv c) \<Longrightarrow> c \<in> set (map fst (pr_known p))"
    using find_iff_key [of "pr_known p" c] by auto
  with assms(1) show "known_ok (after_offer rv c p)"
    by (auto simp: known_ok_def after_offer_def keys_put insert_absorb simp del: set_map)
qed

text \<open>The entries of the chunks of a list, each at its current revision.\<close>

abbreviation entry_of :: "(chunk_coord \<Rightarrow> u32) \<Rightarrow> chunk_coord \<Rightarrow> chunk_revision" where
  "entry_of rv c \<equiv> \<lparr>cr_coord = c, cr_revision = rv c\<rparr>"

lemma offers:
  assumes "known_ok p" and "not_newer rv p"
  shows "let r = fold (offer_chunk rv) cs (p, added, deltas) in
    known_ok (fst r) \<and> not_newer rv (fst r)
    \<and> (\<forall>c. umap_find (pr_known (fst r)) c = (if c \<in> set cs then Some (rv c) else umap_find (pr_known p) c))
    \<and> set (fst (snd r)) = set added \<union> entry_of rv ` {c \<in> set cs. umap_find (pr_known p) c = None}
    \<and> set (snd (snd r)) = set deltas \<union>
        entry_of rv ` {c \<in> set cs. umap_find (pr_known p) c \<notin> {None, Some (rv c)}}"
  using assms
proof (induction cs arbitrary: p added deltas)
  case (Cons a cs)
  note after = after_offer_ok [OF Cons.prems, of a]
  note IH = Cons.IH [OF after(1,2)]
  show ?case
    using IH by (auto simp: Let_def offer_step [OF Cons.prems] after(3))
qed simp

definition zero_entry :: "chunk_coord \<Rightarrow> chunk_revision" where
  "zero_entry c = \<lparr>cr_coord = c, cr_revision = 0\<rparr>"

lemma update_player_spec:
  fixes targets
  assumes "known_ok p" and "not_newer rv p"
  defines "r \<equiv> update_player rv targets p"
  shows "known_ok (fst r)" and "not_newer rv (fst r)"
    and "umap_find (pr_known (fst r)) c = (if c \<in> set targets then Some (rv c) else None)"
    and "set (fst (snd r)) = entry_of rv ` {c \<in> set targets. umap_find (pr_known p) c = None}"
    and "set (fst (snd (snd r))) = zero_entry ` {c. umap_find (pr_known p) c \<noteq> None \<and> c \<notin> set targets}"
    and "set (snd (snd (snd r))) =
      entry_of rv ` {c \<in> set targets. umap_find (pr_known p) c \<notin> {None, Some (rv c)}}"
proof -
  let ?removed = "filter (\<lambda>coord. coord \<notin> set targets) (pr_subscribed p)"
  let ?p = "fold drop_chunk ?removed p"
  have ok: "known_ok ?p"
    and known: "umap_find (pr_known ?p) c = (if c \<in> set ?removed then None else umap_find (pr_known p) c)" for c
    using drops [OF assms(1), of ?removed] by blast+
  have keep: "c \<in> set targets \<Longrightarrow> umap_find (pr_known ?p) c = umap_find (pr_known p) c" for c
    by (simp add: known)
  have nn: "not_newer rv ?p" using assms(2) by (simp add: not_newer_def known)
  note o = offers [OF ok nn, of targets "[]" "[]", unfolded Let_def]
  show "known_ok (fst r)" and "not_newer rv (fst r)"
    using o by (simp_all add: r_def update_player_def Let_def)
  show "umap_find (pr_known (fst r)) c = (if c \<in> set targets then Some (rv c) else None)"
    using o known_find [OF assms(1), of c] by (auto simp: r_def update_player_def Let_def known)
  show "set (fst (snd r)) = entry_of rv ` {c \<in> set targets. umap_find (pr_known p) c = None}"
    using o by (auto simp: r_def update_player_def Let_def keep)
  show "set (snd (snd (snd r))) =
      entry_of rv ` {c \<in> set targets. umap_find (pr_known p) c \<notin> {None, Some (rv c)}}"
    using o by (auto simp: r_def update_player_def Let_def keep)
  show "set (fst (snd (snd r))) = zero_entry ` {c. umap_find (pr_known p) c \<noteq> None \<and> c \<notin> set targets}"
    using known_find [OF assms(1)] by (auto simp: r_def update_player_def Let_def zero_entry_def)
qed

section \<open>The invariant of the server's replication state\<close>

text \<open>After at most \<open>n\<close> edits: no revision exceeds \<open>n\<close>, and no player knows more than the chunks have.\<close>

definition replication_ok :: "nat \<Rightarrow> replication \<Rightarrow> bool" where
  "replication_ok n s \<longleftrightarrow> (\<forall>c. unat (revision_for c s) \<le> n)
     \<and> (\<forall>pid p. umap_find (rep_players s) pid = Some p \<longrightarrow>
          known_ok p \<and> not_newer (\<lambda>c. revision_for c s) p)"

lemma record_ok_new [simp]: "known_ok new_player_replication"
  by (simp add: known_ok_def new_player_replication_def)

lemma not_newer_new [simp]: "not_newer rv new_player_replication"
  by (simp add: not_newer_def new_player_replication_def)

lemma replication_ok_init: "replication_ok 0 (replication_init c)"
  by (simp add: replication_ok_def replication_init_def revision_for_def)

lemma replication_ok_reset: "replication_ok 0 (replication_reset s)"
  by (simp add: replication_ok_def replication_reset_def revision_for_def)

lemma player_record:
  assumes "replication_ok n s"
  shows "known_ok (player_replication_of pid s)" and "not_newer (\<lambda>c. revision_for c s) (player_replication_of pid s)"
  using assms by (auto simp: replication_ok_def player_replication_of_def split: option.split)

lemma revision_after_mark:
  "revision_for c (mark_chunk_dirty coord s) = (if c = coord then revision_for c s + 1 else revision_for c s)"
  by (simp add: revision_for_def mark_chunk_dirty_def umap_simps split: option.split)

lemma players_after_mark [simp]: "rep_players (mark_chunk_dirty coord s) = rep_players s"
  by (simp add: mark_chunk_dirty_def split: option.split)

lemma config_after_mark [simp]: "rep_config (mark_chunk_dirty coord s) = rep_config s"
  by (simp add: mark_chunk_dirty_def split: option.split)

lemma raised: "unat (r :: u32) \<le> n \<Longrightarrow> n + 1 < 2 ^ 32 \<Longrightarrow> unat (r + 1) = unat r + 1"
  by (simp add: unat_word_ariths)

lemma replication_ok_mark:
  assumes "replication_ok n s" and "n + 1 < 2 ^ 32"
  shows "replication_ok (n + 1) (mark_chunk_dirty coord s)"
proof -
  have r: "unat (revision_for c (mark_chunk_dirty coord s)) =
      (if c = coord then unat (revision_for c s) + 1 else unat (revision_for c s))" for c
    using raised [OF _ assms(2), of "revision_for c s"] assms(1)
    by (auto simp: revision_after_mark replication_ok_def)
  have le: "unat (revision_for c s) \<le> n" for c using assms(1) by (simp add: replication_ok_def)
  have "revision_for c s \<le> revision_for c (mark_chunk_dirty coord s)" for c
    unfolding word_le_nat_alt r by simp
  then have "not_newer (\<lambda>c. revision_for c s) p \<Longrightarrow> not_newer (\<lambda>c. revision_for c (mark_chunk_dirty coord s)) p" for p
    unfolding not_newer_def by (meson order_trans)
  then show ?thesis
    using assms(1) le by (auto simp: replication_ok_def r le_SucI)
qed

lemma replication_ok_mono: "replication_ok n s \<Longrightarrow> n \<le> m \<Longrightarrow> replication_ok m s"
  by (auto simp: replication_ok_def intro: order_trans)

lemma replication_ok_remove: "replication_ok n s \<Longrightarrow> replication_ok n (replication_remove_player pid s)"
  by (simp add: replication_ok_def replication_remove_player_def revision_for_def umap_simps)

text \<open>The update of one player, in terms of the chunks in reach.\<close>

abbreviation in_reach :: "fp \<Rightarrow> fp \<Rightarrow> world \<Rightarrow> replication \<Rightarrow> chunk_coord set" where
  "in_reach x z w s \<equiv> set (gather_relevant_chunks (rep_config s) x z w)"

lemma update_rest [simp]:
  "revision_for c (snd (build_player_update pid x z w s)) = revision_for c s"
  "rep_config (snd (build_player_update pid x z w s)) = rep_config s"
  by (simp_all add: build_player_update_def Let_def revision_for_def)

lemma other_players:
  "pid' \<noteq> pid \<Longrightarrow> player_replication_of pid' (snd (build_player_update pid x z w s)) = player_replication_of pid' s"
  by (simp add: build_player_update_def player_replication_of_def Let_def umap_simps)

lemma replication_ok_update:
  assumes "replication_ok n s"
  shows "replication_ok n (snd (build_player_update pid x z w s))"
proof -
  note new = update_player_spec(1,2) [OF player_record [OF assms, of pid]]
  show ?thesis
    using assms new by (simp add: replication_ok_def build_player_update_def Let_def umap_simps revision_for_def)
qed

lemma update_spec:
  fixes pid x z w
  assumes "replication_ok n s"
  defines "r \<equiv> build_player_update pid x z w s" and "old \<equiv> pr_known (player_replication_of pid s)"
    and "rv \<equiv> (\<lambda>c. revision_for c s)"
  shows "umap_find (pr_known (player_replication_of pid (snd r))) c = (if c \<in> in_reach x z w s then Some (rv c) else None)"
    and "set (pu_added (fst r)) = entry_of rv ` {c \<in> in_reach x z w s. umap_find old c = None}"
    and "set (pu_removed (fst r)) = zero_entry ` {c. umap_find old c \<noteq> None \<and> c \<notin> in_reach x z w s}"
    and "set (pu_deltas (fst r)) = entry_of rv ` {c \<in> in_reach x z w s. umap_find old c \<notin> {None, Some (rv c)}}"
  using update_player_spec(3-6) [OF player_record [OF assms(1), of pid]]
  unfolding r_def old_def rv_def
  by (simp_all add: build_player_update_def player_replication_of_def Let_def umap_simps)

end
