(* ===== verification/Chunk_Sync.thy ===== *)
theory Chunk_Sync
  imports Replication Block_Edit Json_Text
begin

text \<open>
  Chunk synchronisation, from the server's edits to the client's world: the server's handling of an
  accepted block update and its \<open>chunk_sync\<close> document (server/src/main.cpp), the client's reader and
  applier (client/ChunkSyncApplier.h, client/src/ChunkSyncApplier.cpp), and what the client does when
  it has joined (client/src/main.cpp). Shown: whatever edits, other players and re-joins come between,
  after each snapshot the client holds exactly the chunks in reach of its player at the server's
  revisions, each as first generated, and an unedited chunk is the server's own.
\<close>

section \<open>The server's side\<close>

definition chunk_revision_to_json :: "'j json_api \<Rightarrow> chunk_revision \<Rightarrow> 'j" where
  "chunk_revision_to_json J e = jof_object J
     [(''x'', jof_int J (cc_x (cr_coord e))), (''y'', jof_int J (cc_y (cr_coord e))),
      (''z'', jof_int J (cc_z (cr_coord e))), (''revision'', jof_uint J (ucast (cr_revision e)))]"

definition chunk_revisions_to_json :: "'j json_api \<Rightarrow> chunk_revision list \<Rightarrow> 'j" where
  "chunk_revisions_to_json J entries = jof_array J (List.map (chunk_revision_to_json J) entries)"

definition chunk_sync_to_json :: "'j json_api \<Rightarrow> player_world_update \<Rightarrow> 'j" where
  "chunk_sync_to_json J u = jof_object J
     [(''added'', chunk_revisions_to_json J (pu_added u)),
      (''removed'', chunk_revisions_to_json J (pu_removed u)),
      (''deltas'', chunk_revisions_to_json J (pu_deltas u))]"

text \<open>The payload of a snapshot; the other members are built elsewhere.\<close>

record 'j snapshot_parts =
  sp_tick :: u64
  sp_players :: 'j
  sp_events :: 'j
  sp_treasure_spawns :: 'j
  sp_match_state :: 'j

definition snapshot_payload :: "'j json_api \<Rightarrow> 'j snapshot_parts \<Rightarrow> player_world_update \<Rightarrow> 'j" where
  "snapshot_payload J parts u = jof_object J
     [(''tick'', jof_uint J (sp_tick parts)), (''players'', sp_players parts), (''events'', sp_events parts),
      (''chunk_sync'', chunk_sync_to_json J u), (''treasure_spawns'', sp_treasure_spawns parts),
      (''match_state'', sp_match_state parts)]"

text \<open>An edit that was applied marks its chunk.\<close>

definition server_block_update ::
    "block_id set \<Rightarrow> block_update_command \<Rightarrow> world \<times> replication \<Rightarrow> world \<times> replication" where
  "server_block_update valid_ids cmd = (\<lambda>(w, s).
     case apply_block_update valid_ids cmd w of (outcome, w') \<Rightarrow>
       (w', if bo_status outcome = Applied then mark_chunk_dirty (bo_chunk outcome) s else s))"

section \<open>The client's reader\<close>

record chunk_sync_delta =
  sd_added :: "chunk_revision list"
  sd_removed :: "chunk_revision list"
  sd_deltas :: "chunk_revision list"

definition json_to_i32 :: "'j json_api \<Rightarrow> 'j \<Rightarrow> int option" where
  "json_to_i32 J v =
     (if is_number_integer J v then
        (let raw = ji64 J v in if raw < - 2147483648 \<or> 2147483647 < raw then None else Some raw)
      else if is_number_unsigned J v then
        (let raw = ju64 J v in if 2147483647 < raw then None else Some (uint raw))
      else None)"

definition parse_revision :: "'j json_api \<Rightarrow> 'j \<Rightarrow> chunk_revision option" where
  "parse_revision J v =
     (if \<not> is_object J v then None
      else case (json_to_i32 J (at_key J v ''x''), json_to_i32 J (at_key J v ''y''),
                 json_to_i32 J (at_key J v ''z''), json_to_u32 J (at_key J v ''revision'')) of
        (Some x, Some y, Some z, Some revision) \<Rightarrow>
          if x < 0 \<or> y < 0 \<or> z < 0 then None
          else Some \<lparr>cr_coord = Coord x y z, cr_revision = revision\<rparr>
      | _ \<Rightarrow> None)"

definition parse_array :: "'j json_api \<Rightarrow> 'j \<Rightarrow> string \<Rightarrow> chunk_revision list" where
  "parse_array J doc field =
     (if \<not> contains J doc field \<or> \<not> is_array J (at_key J doc field) then []
      else List.map_filter (parse_revision J) (jelems J (at_key J doc field)))"

definition parse_chunk_sync :: "'j json_api \<Rightarrow> 'j \<Rightarrow> chunk_sync_delta option" where
  "parse_chunk_sync J payload =
     (if \<not> is_object J payload \<or> \<not> contains J payload ''chunk_sync''
         \<or> \<not> is_object J (at_key J payload ''chunk_sync'') then None
      else let sync = at_key J payload ''chunk_sync'' in
        Some \<lparr>sd_added = parse_array J sync ''added'', sd_removed = parse_array J sync ''removed'',
              sd_deltas = parse_array J sync ''deltas''\<rparr>)"

section \<open>The client's applier\<close>

record chunk_sync_result =
  sr_changed :: bool
  sr_added_or_updated :: nat
  sr_removed :: nat

type_synonym sync_progress = "world \<times> (chunk_coord, u32) umap \<times> chunk_sync_result"

definition apply_removed :: "chunk_revision \<Rightarrow> sync_progress \<Rightarrow> sync_progress" where
  "apply_removed entry = (\<lambda>(w, revisions, result).
     case remove_chunk (cr_coord entry) w of (removed, w') \<Rightarrow>
       (w', umap_erase (cr_coord entry) revisions,
        if removed \<or> umap_find revisions (cr_coord entry) \<noteq> None
        then result\<lparr>sr_changed := True, sr_removed := sr_removed result + 1\<rparr> else result))"

definition apply_added_like :: "int \<Rightarrow> chunk_revision \<Rightarrow> sync_progress \<Rightarrow> sync_progress" where
  "apply_added_like world_height entry = (\<lambda>(w, known, result).
     if umap_find known (cr_coord entry) = Some (cr_revision entry) then (w, known, result)
     else (ensure_generated_chunk (cr_coord entry) world_height w,
           umap_put (cr_coord entry) (cr_revision entry) known,
           result\<lparr>sr_changed := True, sr_added_or_updated := sr_added_or_updated result + 1\<rparr>))"

definition apply_chunk_sync ::
    "int \<Rightarrow> chunk_sync_delta \<Rightarrow> world \<Rightarrow> (chunk_coord, u32) umap \<Rightarrow> sync_progress" where
  "apply_chunk_sync world_height delta w revisions =
     fold (apply_added_like world_height) (sd_deltas delta)
       (fold (apply_added_like world_height) (sd_added delta)
         (fold apply_removed (sd_removed delta)
           (w, revisions, \<lparr>sr_changed = False, sr_added_or_updated = 0, sr_removed = 0\<rparr>)))"

section \<open>The client's chunks\<close>

record client_view =
  cv_world :: world
  cv_revisions :: "(chunk_coord, u32) umap"
  cv_profile :: generation_profile

text \<open>The join is accepted: the client forgets its chunks and adopts the server's profile.\<close>

definition client_join :: "'j json_api \<Rightarrow> 'j \<Rightarrow> client_view \<Rightarrow> client_view" where
  "client_join J payload v =
     (let profile =
        (if contains J payload ''world_gen''
         then case profile_from_json J (at_key J payload ''world_gen'') of
             Some parsed \<Rightarrow> parsed | None \<Rightarrow> cv_profile v
         else cv_profile v);
          profile = sanitize_profile profile
      in \<lparr>cv_world = world_clear (set_generation_profile profile (cv_world v)), cv_revisions = [],
          cv_profile = profile\<rparr>)"

definition client_snapshot :: "'j json_api \<Rightarrow> int \<Rightarrow> 'j \<Rightarrow> client_view \<Rightarrow> client_view" where
  "client_snapshot J world_height payload v =
     (case parse_chunk_sync J payload of None \<Rightarrow> v
      | Some delta \<Rightarrow>
          (case apply_chunk_sync world_height delta (cv_world v) (cv_revisions v) of
             (w, revisions, _) \<Rightarrow> v\<lparr>cv_world := w, cv_revisions := revisions\<rparr>))"

section \<open>Server and client together\<close>

text \<open>
  What can happen between a server and one client, whose player is \<open>pid\<close>. \<open>Rejoined\<close> is a disconnect, at
  which the server forgets the player's record, and a new accepted join. Packets of a connection are
  delivered in order (all are sent with the flag \<open>ENET_PACKET_FLAG_RELIABLE\<close>).
\<close>

datatype 'j sync_event =
    Edited block_update_command
  | Other_update u32 fp fp
  | Other_left u32
  | Rejoined
  | Snapshot fp fp "'j snapshot_parts"

record sync_setup =
  su_player :: u32
  su_valid_ids :: "block_id set"
  su_profile :: generation_profile
  su_height :: int

record sync_state =
  ss_world :: world
  ss_replication :: replication
  ss_client :: client_view

fun sync_step :: "'j json_api \<Rightarrow> sync_setup \<Rightarrow> 'j sync_event \<Rightarrow> sync_state \<Rightarrow> sync_state" where
  "sync_step J u (Edited cmd) st =
     (case server_block_update (su_valid_ids u) cmd (ss_world st, ss_replication st) of
        (w, s) \<Rightarrow> st\<lparr>ss_world := w, ss_replication := s\<rparr>)"
| "sync_step J u (Other_update pid x z) st =
     (if pid = su_player u then st
      else st\<lparr>ss_replication := snd (build_player_update pid x z (ss_world st) (ss_replication st))\<rparr>)"
| "sync_step J u (Other_left pid) st =
     (if pid = su_player u then st
      else st\<lparr>ss_replication := replication_remove_player pid (ss_replication st)\<rparr>)"
| "sync_step J u Rejoined st =
     st\<lparr>ss_replication := replication_remove_player (su_player u) (ss_replication st),
        ss_client := client_join J (jof_object J [(''world_gen'', profile_to_json J (su_profile u))]) (ss_client st)\<rparr>"
| "sync_step J u (Snapshot x z parts) st =
     (case build_player_update (su_player u) x z (ss_world st) (ss_replication st) of
        (update, s) \<Rightarrow> st\<lparr>ss_replication := s,
          ss_client := client_snapshot J (su_height u) (snapshot_payload J parts update) (ss_client st)\<rparr>)"

definition sync_run :: "'j json_api \<Rightarrow> sync_setup \<Rightarrow> 'j sync_event list \<Rightarrow> sync_state \<Rightarrow> sync_state" where
  "sync_run J u events st = fold (sync_step J u) events st"

text \<open>The server has generated its world and nobody has played; the client has just started.\<close>

definition sync_start :: "sync_setup \<Rightarrow> int \<Rightarrow> int \<Rightarrow> replication_config \<Rightarrow> generation_profile \<Rightarrow> sync_state" where
  "sync_start u chunks_x chunks_z config client_profile =
     \<lparr>ss_world = fst (generate chunks_x chunks_z (su_height u) (su_profile u) new_world),
      ss_replication = replication_init config,
      ss_client = \<lparr>cv_world = new_world, cv_revisions = [], cv_profile = client_profile\<rparr>\<rparr>"

section \<open>The document survives\<close>

text \<open>The coordinates that the client's reader accepts.\<close>

definition coord_fits :: "chunk_coord \<Rightarrow> bool" where
  "coord_fits c \<longleftrightarrow> 0 \<le> cc_x c \<and> cc_x c < 2147483648 \<and> 0 \<le> cc_y c \<and> cc_y c < 2147483648
     \<and> 0 \<le> cc_z c \<and> cc_z c < 2147483648"

context json_library begin

lemma i32_of_int: "0 \<le> i \<Longrightarrow> i < 2147483648 \<Longrightarrow> json_to_i32 J (jof_int J i) = Some i"
  by (simp add: json_to_i32_def json_types types int_get Let_def)

lemma revision_back: "coord_fits (cr_coord e) \<Longrightarrow> parse_revision J (chunk_revision_to_json J e) = Some e"
  by (simp add: parse_revision_def chunk_revision_to_json_def at_object i32_of_int u32_of_u32
      coord_fits_def json_types types)

lemma revisions_back:
  assumes "list_all (\<lambda>e. coord_fits (cr_coord e)) es" and "distinct (List.map fst kvs)"
    and "map_of kvs field = Some (chunk_revisions_to_json J es)"
  shows "parse_array J (jof_object J kvs) field = es"
proof -
  have "List.map_filter (parse_revision J) (List.map (chunk_revision_to_json J) es) = es"
    using assms(1) by (induction es) (simp_all add: map_filter_simps revision_back)
  with assms(2,3) show ?thesis
    by (simp add: parse_array_def at_object contains_object chunk_revisions_to_json_def json_types types gets)
qed

lemma sync_back:
  assumes "list_all (\<lambda>e. coord_fits (cr_coord e)) (pu_added upd)"
    and "list_all (\<lambda>e. coord_fits (cr_coord e)) (pu_removed upd)"
    and "list_all (\<lambda>e. coord_fits (cr_coord e)) (pu_deltas upd)"
  shows "parse_chunk_sync J (snapshot_payload J parts upd) =
    Some \<lparr>sd_added = pu_added upd, sd_removed = pu_removed upd, sd_deltas = pu_deltas upd\<rparr>"
  using revisions_back [OF assms(1)] revisions_back [OF assms(2)] revisions_back [OF assms(3)]
  by (simp add: parse_chunk_sync_def snapshot_payload_def chunk_sync_to_json_def at_object contains_object
      json_types types)

end

section \<open>The applier\<close>

text \<open>The client's chunks are those it has a revision of, each as generated.\<close>

definition mirrors :: "generation_profile \<Rightarrow> int \<Rightarrow> world \<Rightarrow> (chunk_coord, u32) umap \<Rightarrow> bool" where
  "mirrors p h w known \<longleftrightarrow> w_profile w = p \<and> w_max_height w \<le> h
     \<and> (\<forall>c. get_chunk c w = map_option (\<lambda>_. generated_chunk p h c) (umap_find known c))"

lemma removed_loop:
  assumes "mirrors p h w known"
  shows "case fold apply_removed es (w, known, result) of (w', known', _) \<Rightarrow>
    mirrors p h w' known'
    \<and> (\<forall>c. umap_find known' c = (if c \<in> cr_coord ` set es then None else umap_find known c))"
  using assms
proof (induction es arbitrary: w known result)
  case (Cons e es)
  have "mirrors p h (snd (remove_chunk (cr_coord e) w)) (umap_erase (cr_coord e) known)"
    using Cons.prems by (simp add: mirrors_def remove_chunk_def get_chunk_def umap_simps)
  note IH = Cons.IH [OF this]
  show ?case
    using IH [of "snd (snd (apply_removed e (w, known, result)))"]
    by (auto simp: apply_removed_def remove_chunk_def umap_simps split: prod.splits)
qed simp

lemma added_step:
  assumes "mirrors p h w known" and "0 < h"
  shows "case apply_added_like h e (w, known, result) of (w', known', _) \<Rightarrow>
    mirrors p h w' known'
    \<and> (\<forall>c. umap_find known' c = (if c = cr_coord e then Some (cr_revision e) else umap_find known c))"
proof (cases "umap_find known (cr_coord e) = Some (cr_revision e)")
  case False
  have "mirrors p h (ensure_generated_chunk (cr_coord e) h w) (umap_put (cr_coord e) (cr_revision e) known)"
    using assms by (auto simp: mirrors_def get_chunk_def find_ensure umap_simps max_def split: option.split)
  with False show ?thesis by (simp add: apply_added_like_def umap_simps)
qed (use assms in \<open>auto simp: apply_added_like_def\<close>)

lemma added_loop:
  assumes "mirrors p h w known" and "0 < h" and "\<forall>e \<in> set es. cr_revision e = rv (cr_coord e)"
  shows "case fold (apply_added_like h) es (w, known, result) of (w', known', _) \<Rightarrow>
    mirrors p h w' known'
    \<and> (\<forall>c. umap_find known' c = (if c \<in> cr_coord ` set es then Some (rv c) else umap_find known c))"
  using assms(1,3)
proof (induction es arbitrary: w known result)
  case (Cons e es)
  obtain w1 known1 result1 where s: "apply_added_like h e (w, known, result) = (w1, known1, result1)"
    by (metis prod_cases3)
  with added_step [OF Cons.prems(1) assms(2), of e result] have "mirrors p h w1 known1"
    and known1: "\<forall>c. umap_find known1 c = (if c = cr_coord e then Some (cr_revision e) else umap_find known c)"
    by simp_all
  from Cons.IH [OF this(1), of result1] Cons.prems(2) known1 s show ?case
    by (auto split: prod.splits)
qed simp

section \<open>One snapshot\<close>

lemma sync_applied:
  assumes "mirrors p h w known" and "0 < h"
    and removed: "cr_coord ` set (sd_removed d) = {c. umap_find known c \<noteq> None \<and> c \<notin> R}"
    and added: "set (sd_added d) = entry_of rv ` {c \<in> R. umap_find known c = None}"
    and deltas: "set (sd_deltas d) = entry_of rv ` {c \<in> R. umap_find known c \<notin> {None, Some (rv c)}}"
  shows "case apply_chunk_sync h d w known of (w', known', _) \<Rightarrow>
    mirrors p h w' known' \<and> (\<forall>c. umap_find known' c = (if c \<in> R then Some (rv c) else None))"
proof -
  obtain w1 k1 r1 where s1: "fold apply_removed (sd_removed d)
      (w, known, \<lparr>sr_changed = False, sr_added_or_updated = 0, sr_removed = 0\<rparr>) = (w1, k1, r1)"
    by (metis prod_cases3)
  then have m1: "mirrors p h w1 k1"
    and k1: "\<forall>c. umap_find k1 c = (if c \<in> cr_coord ` set (sd_removed d) then None else umap_find known c)"
    using removed_loop [OF assms(1), of "sd_removed d" "\<lparr>sr_changed = False, sr_added_or_updated = 0, sr_removed = 0\<rparr>"]
    by simp_all
  obtain w2 k2 r2 where s2: "fold (apply_added_like h) (sd_added d) (w1, k1, r1) = (w2, k2, r2)"
    by (metis prod_cases3)
  have "\<forall>e \<in> set (sd_added d). cr_revision e = rv (cr_coord e)" by (auto simp: added)
  from added_loop [OF m1 assms(2) this, of r1] have m2: "mirrors p h w2 k2"
    and k2: "\<forall>c. umap_find k2 c = (if c \<in> cr_coord ` set (sd_added d) then Some (rv c) else umap_find k1 c)"
    by (simp_all add: s2)
  obtain w3 k3 r3 where s3: "fold (apply_added_like h) (sd_deltas d) (w2, k2, r2) = (w3, k3, r3)"
    by (metis prod_cases3)
  have "\<forall>e \<in> set (sd_deltas d). cr_revision e = rv (cr_coord e)" by (auto simp: deltas)
  from added_loop [OF m2 assms(2) this, of r2] have m3: "mirrors p h w3 k3"
    and k3: "\<forall>c. umap_find k3 c = (if c \<in> cr_coord ` set (sd_deltas d) then Some (rv c) else umap_find k2 c)"
    by (simp_all add: s3)
  have a: "cr_coord ` set (sd_added d) = {c \<in> R. umap_find known c = None}"
    and e: "cr_coord ` set (sd_deltas d) = {c \<in> R. umap_find known c \<notin> {None, Some (rv c)}}"
    by (simp_all add: added deltas image_image)
  have "umap_find k3 c = (if c \<in> R then Some (rv c) else None)" for c
    unfolding k3 [rule_format] k2 [rule_format] k1 [rule_format] a e removed by auto
  with m3 show ?thesis by (simp add: apply_chunk_sync_def s1 s2 s3)
qed

text \<open>The chunks in reach lie in the configured box, so their coordinates survive the document.\<close>

definition config_fits :: "replication_config \<Rightarrow> bool" where
  "config_fits c \<longleftrightarrow> rep_chunks_x c < 2147483648 \<and> rep_chunks_y c < 2147483648 \<and> rep_chunks_z c < 2147483648"

lemma reach_column:
  "c \<in> in_reach x z w s \<Longrightarrow> \<exists>cx cz. c \<in> set (column_chunks (rep_config s) w cx cz)"
  by (auto simp: gather_relevant_chunks_def Let_def split: if_splits)

lemma reach_inside:
  "c \<in> in_reach x z w s \<Longrightarrow> config_fits (rep_config s) \<Longrightarrow> coord_fits c \<and> get_chunk c w \<noteq> None"
  by (drule reach_column) (auto simp: column_chunks_def coord_fits_def config_fits_def split: if_splits)

section \<open>The invariant of a run\<close>

definition sync_ok :: "sync_setup \<Rightarrow> nat \<Rightarrow> sync_state \<Rightarrow> bool" where
  "sync_ok u n st \<longleftrightarrow> replication_ok n (ss_replication st) \<and> config_fits (rep_config (ss_replication st))
     \<and> (\<forall>c k. get_chunk c (ss_world st) = Some k \<and> revision_for c (ss_replication st) = 0
          \<longrightarrow> k = generated_chunk (sanitize_profile (su_profile u)) (su_height u) c)"

definition view_ok :: "sync_setup \<Rightarrow> sync_state \<Rightarrow> bool" where
  "view_ok u st \<longleftrightarrow>
     (let known = umap_find (pr_known (player_replication_of (su_player u) (ss_replication st))) in
      umap_find (cv_revisions (ss_client st)) = known
      \<and> (\<forall>c. known c \<noteq> None \<longrightarrow> coord_fits c)
      \<and> mirrors (sanitize_profile (su_profile u)) (su_height u) (cv_world (ss_client st)) (cv_revisions (ss_client st)))"

lemma get_chunk_set_block:
  "get_chunk c (snd (set_block x y z b w)) \<noteq> get_chunk c w \<Longrightarrow> \<exists>l. locate x y z = Some (c, l)"
  by (auto simp: set_block_def get_chunk_def umap_simps split: option.splits if_splits)

lemma edit_world:
  fixes ids cmd w
  defines "r \<equiv> apply_block_update ids cmd w"
  shows "get_chunk c (snd r) \<noteq> get_chunk c w \<Longrightarrow> bo_status (fst r) = Applied \<and> c = bo_chunk (fst r)"
  using edit_cases [of ids cmd w] get_chunk_set_block [of c] unfolding r_def
  by (metis option.inject prod.inject)

lemma nonzero_after_raise: "unat (r :: u32) \<le> n \<Longrightarrow> n + 1 < 2 ^ 32 \<Longrightarrow> r + 1 \<noteq> 0"
  using raised [of r n] by (metis Suc_eq_plus1 nat.distinct(1) unsigned_0)

lemma sync_ok_edit:
  assumes "sync_ok u n st" and "n + 1 < 2 ^ 32"
  shows "sync_ok u (n + 1) (sync_step J u (Edited cmd) st)"
proof -
  define r where "r = apply_block_update (su_valid_ids u) cmd (ss_world st)"
  let ?s = "ss_replication st"
  have ok: "replication_ok n ?s" using assms(1) by (simp add: sync_ok_def)
  have step: "sync_step J u (Edited cmd) st = st\<lparr>ss_world := snd r,
      ss_replication := if bo_status (fst r) = Applied then mark_chunk_dirty (bo_chunk (fst r)) ?s else ?s\<rparr>"
    by (cases r) (simp add: server_block_update_def flip: r_def)
  have old: "get_chunk c (ss_world st) = Some k \<Longrightarrow> revision_for c ?s = 0 \<Longrightarrow>
      k = generated_chunk (sanitize_profile (su_profile u)) (su_height u) c" for c k
    using assms(1) by (simp add: sync_ok_def)
  have same: "get_chunk c (snd r) = get_chunk c (ss_world st)"
    if "bo_status (fst r) \<noteq> Applied \<or> c \<noteq> bo_chunk (fst r)" for c
    using that edit_world [of c "su_valid_ids u" cmd "ss_world st"] by (auto simp: r_def)
  show ?thesis
  proof (cases "bo_status (fst r) = Applied")
    case True
    have "k = generated_chunk (sanitize_profile (su_profile u)) (su_height u) c"
      if k: "get_chunk c (snd r) = Some k" and z: "revision_for c (mark_chunk_dirty (bo_chunk (fst r)) ?s) = 0" for c k
    proof -
      have "c \<noteq> bo_chunk (fst r)"
        using z ok nonzero_after_raise [OF _ assms(2), of "revision_for c ?s"]
        by (auto simp: replication_ok_def revision_after_mark)
      with k z show ?thesis using old same by (simp add: revision_after_mark)
    qed
    with True show ?thesis
      using assms(1) replication_ok_mark [OF ok assms(2)] unfolding step by (simp add: sync_ok_def)
  next
    case False
    with same have "get_chunk c (snd r) = get_chunk c (ss_world st)" for c by simp
    with False show ?thesis
      using assms(1) replication_ok_mono [OF ok, of "n + 1"] unfolding step by (simp add: sync_ok_def)
  qed
qed

lemma sync_ok_other:
  assumes "sync_ok u n st" and "replication_ok n s" and "rep_config s = rep_config (ss_replication st)"
    and "\<And>c. revision_for c s = revision_for c (ss_replication st)"
  shows "sync_ok u (n + 1) (st\<lparr>ss_replication := s, ss_client := v\<rparr>)"
  using assms replication_ok_mono [of n s "n + 1"] by (simp add: sync_ok_def)

lemma remove_rest [simp]:
  "revision_for c (replication_remove_player pid s) = revision_for c s"
  "rep_config (replication_remove_player pid s) = rep_config s"
  by (simp_all add: replication_remove_player_def revision_for_def)

text \<open>Every other step changes the replication state and the client only.\<close>

definition step_replication :: "sync_setup \<Rightarrow> 'j sync_event \<Rightarrow> sync_state \<Rightarrow> replication" where
  "step_replication u ev st = (let s = ss_replication st; w = ss_world st in case ev of
     Edited _ \<Rightarrow> s
   | Other_update pid x z \<Rightarrow> if pid = su_player u then s else snd (build_player_update pid x z w s)
   | Other_left pid \<Rightarrow> if pid = su_player u then s else replication_remove_player pid s
   | Rejoined \<Rightarrow> replication_remove_player (su_player u) s
   | Snapshot x z _ \<Rightarrow> snd (build_player_update (su_player u) x z w s))"

lemma step_other:
  "\<nexists>cmd. ev = Edited cmd \<Longrightarrow> sync_step J u ev st =
     st\<lparr>ss_replication := step_replication u ev st, ss_client := ss_client (sync_step J u ev st)\<rparr>"
  by (cases ev) (simp_all add: step_replication_def Let_def split: prod.split)

lemma step_replication_ok:
  assumes "replication_ok n (ss_replication st)"
  shows "replication_ok n (step_replication u ev st)"
    and "rep_config (step_replication u ev st) = rep_config (ss_replication st)"
    and "revision_for c (step_replication u ev st) = revision_for c (ss_replication st)"
  using assms replication_ok_update [OF assms] replication_ok_remove [OF assms]
  by (cases ev; simp add: step_replication_def Let_def)+

lemma sync_ok_step:
  assumes "sync_ok u n st" and "n + 1 < 2 ^ 32"
  shows "sync_ok u (n + 1) (sync_step J u ev st)"
proof (cases "\<exists>cmd. ev = Edited cmd")
  case True
  then show ?thesis using sync_ok_edit [OF assms] by blast
next
  case False
  have ok: "replication_ok n (ss_replication st)" using assms(1) by (simp add: sync_ok_def)
  from False have "sync_step J u ev st =
      st\<lparr>ss_replication := step_replication u ev st, ss_client := ss_client (sync_step J u ev st)\<rparr>"
    by (rule step_other)
  then show ?thesis using sync_ok_other [OF assms(1) step_replication_ok [OF ok]] by metis
qed

section \<open>The client's view\<close>

lemma removed_player_record [simp]:
  "player_replication_of pid (replication_remove_player pid s) = new_player_replication"
  "pid' \<noteq> pid \<Longrightarrow> player_replication_of pid' (replication_remove_player pid s) = player_replication_of pid' s"
  by (simp_all add: player_replication_of_def replication_remove_player_def umap_simps)

lemma known_after_mark [simp]:
  "player_replication_of pid (mark_chunk_dirty c s) = player_replication_of pid s"
  by (simp add: player_replication_of_def)

lemma record_after_edit:
  "player_replication_of pid (ss_replication (sync_step J u (Edited cmd) st)) = player_replication_of pid (ss_replication st)"
  "ss_client (sync_step J u (Edited cmd) st) = ss_client st"
  by (simp_all add: server_block_update_def split: prod.split)

context json_library begin

lemma view_ok_rejoined:
  assumes "expansion_typed (gp_expansion (su_profile u))" and "0 < su_height u"
    and "w_max_height (cv_world (ss_client st)) \<le> su_height u"
  shows "view_ok u (sync_step J u Rejoined st)"
proof -
  have "client_join J (jof_object J [(''world_gen'', profile_to_json J (su_profile u))]) v =
    \<lparr>cv_world = world_clear (set_generation_profile (sanitize_profile (su_profile u)) (cv_world v)),
     cv_revisions = [], cv_profile = sanitize_profile (su_profile u)\<rparr>" for v
    by (simp add: client_join_def contains_object at_object profile_back [OF assms(1)] sanitize_idem Let_def)
  then show ?thesis
    using assms(2,3)
    by (simp add: view_ok_def new_player_replication_def mirrors_def world_clear_def set_generation_profile_def
        sanitize_idem get_chunk_def)
qed

text \<open>What a snapshot leaves: the server's record and the client's chunks are those in reach.\<close>

lemma snapshot_result:
  fixes x z parts
  assumes "sync_ok u n st" and "view_ok u st" and "0 < su_height u"
  defines "st' \<equiv> sync_step J u (Snapshot x z parts) st"
    and "R \<equiv> in_reach x z (ss_world st) (ss_replication st)"
  shows "umap_find (pr_known (player_replication_of (su_player u) (ss_replication st'))) c =
      (if c \<in> R then Some (revision_for c (ss_replication st)) else None)"
    and "umap_find (cv_revisions (ss_client st')) c =
      (if c \<in> R then Some (revision_for c (ss_replication st)) else None)"
    and "mirrors (sanitize_profile (su_profile u)) (su_height u) (cv_world (ss_client st')) (cv_revisions (ss_client st'))"
proof -
  let ?s = "ss_replication st" and ?pid = "su_player u" and ?p = "sanitize_profile (su_profile u)"
  let ?rv = "\<lambda>c. revision_for c ?s" and ?v = "ss_client st"
  define b where "b = build_player_update ?pid x z (ss_world st) ?s"
  define old where "old = pr_known (player_replication_of ?pid ?s)"
  have ok: "replication_ok n ?s" and cfg: "config_fits (rep_config ?s)" using assms(1) by (simp_all add: sync_ok_def)
  have view: "umap_find (cv_revisions ?v) = umap_find old" and fit: "\<And>c. umap_find old c \<noteq> None \<Longrightarrow> coord_fits c"
    and m: "mirrors ?p (su_height u) (cv_world ?v) (cv_revisions ?v)"
    using assms(2) by (simp_all add: view_ok_def old_def Let_def)
  note spec = update_spec [OF ok, of ?pid x z "ss_world st", folded b_def old_def R_def]
  have reach: "c \<in> R \<Longrightarrow> coord_fits c" for c using reach_inside [OF _ cfg] by (simp add: R_def)
  have fits: "list_all (\<lambda>e. coord_fits (cr_coord e)) (pu_added (fst b))"
    "list_all (\<lambda>e. coord_fits (cr_coord e)) (pu_removed (fst b))"
    "list_all (\<lambda>e. coord_fits (cr_coord e)) (pu_deltas (fst b))"
    using reach fit by (auto simp: list_all_iff spec(2-4) zero_entry_def)
  let ?d = "\<lparr>sd_added = pu_added (fst b), sd_removed = pu_removed (fst b), sd_deltas = pu_deltas (fst b)\<rparr>"
  obtain w k r where a: "apply_chunk_sync (su_height u) ?d (cv_world ?v) (cv_revisions ?v) = (w, k, r)"
    by (metis prod_cases3)
  have "cr_coord ` set (sd_removed ?d) = {c. umap_find (cv_revisions ?v) c \<noteq> None \<and> c \<notin> R}"
    by (simp add: spec(3) view image_image zero_entry_def)
  moreover have "set (sd_added ?d) = entry_of ?rv ` {c \<in> R. umap_find (cv_revisions ?v) c = None}"
    and "set (sd_deltas ?d) = entry_of ?rv ` {c \<in> R. umap_find (cv_revisions ?v) c \<notin> {None, Some (?rv c)}}"
    by (simp_all add: spec(2,4) view)
  ultimately have applied: "mirrors ?p (su_height u) w k"
    "\<forall>c. umap_find k c = (if c \<in> R then Some (?rv c) else None)"
    using sync_applied [OF m assms(3), of ?d R ?rv] a by simp_all
  have st': "ss_replication st' = snd b" "cv_world (ss_client st') = w" "cv_revisions (ss_client st') = k"
    using sync_back [OF fits, of parts] a
    by (cases b; simp add: st'_def client_snapshot_def flip: b_def)+
  show "umap_find (pr_known (player_replication_of ?pid (ss_replication st'))) c = (if c \<in> R then Some (?rv c) else None)"
    by (simp add: st' spec(1))
  show "umap_find (cv_revisions (ss_client st')) c = (if c \<in> R then Some (?rv c) else None)"
    by (simp add: st' applied(2))
  show "mirrors ?p (su_height u) (cv_world (ss_client st')) (cv_revisions (ss_client st'))"
    using applied(1) by (simp add: st')
qed

lemma view_ok_step:
  assumes "sync_ok u n st" and "view_ok u st" and "0 < su_height u"
    and "expansion_typed (gp_expansion (su_profile u))"
  shows "view_ok u (sync_step J u ev st)"
proof (cases ev)
  case (Edited cmd)
  then show ?thesis using assms(2) by (simp only: view_ok_def record_after_edit)
next
  case (Other_update pid x z)
  then show ?thesis using assms(2) by (simp add: view_ok_def other_players)
next
  case (Other_left pid)
  then show ?thesis using assms(2) by (simp add: view_ok_def)
next
  case Rejoined
  have "w_max_height (cv_world (ss_client st)) \<le> su_height u"
    using assms(2) by (simp add: view_ok_def mirrors_def Let_def)
  then show ?thesis unfolding Rejoined by (rule view_ok_rejoined [OF assms(4,3)])
next
  case (Snapshot x z parts)
  have "config_fits (rep_config (ss_replication st))" using assms(1) by (simp add: sync_ok_def)
  then show ?thesis
    using snapshot_result [OF assms(1-3), of x z parts] reach_inside
    unfolding Snapshot view_ok_def Let_def by (auto simp: fun_eq_iff split: if_splits)
qed

lemma run_ok:
  assumes "sync_ok u n st" and "view_ok u st" and "0 < su_height u"
    and "expansion_typed (gp_expansion (su_profile u))" and "n + length events < 2 ^ 32"
  shows "sync_ok u (n + length events) (sync_run J u events st) \<and> view_ok u (sync_run J u events st)"
  using assms(1,2,5)
proof (induction events arbitrary: n st)
  case (Cons ev events)
  have "n + 1 < 2 ^ 32" using Cons.prems(3) by simp
  from Cons.IH [OF sync_ok_step [OF Cons.prems(1) this] view_ok_step [OF Cons.prems(1,2) assms(3,4)]] Cons.prems(3)
  show ?case by (simp add: sync_run_def)
qed (simp add: sync_run_def)

end

section \<open>Every snapshot\<close>

lemma sync_start_ok:
  assumes "config_fits (sanitize_replication_config config)"
  shows "sync_ok u 0 (sync_start u chunks_x chunks_z config client_profile)"
  using assms replication_ok_init [of config] generated_box
  by (simp add: sync_ok_def sync_start_def replication_init_def split: if_splits)

context json_library begin

lemma last_snapshot:
  fixes u config events nx nz client_profile
  assumes "expansion_typed (gp_expansion (su_profile u))" and "0 < su_height u"
    and "config_fits (sanitize_replication_config config)" and "length events + 1 < 2 ^ 32"
  defines "st \<equiv> sync_run J u (Rejoined # events) (sync_start u nx nz config client_profile)"
  shows "sync_ok u (length events + 1) st \<and> view_ok u st"
proof -
  let ?start = "sync_start u nx nz config client_profile"
  have "w_max_height (cv_world (ss_client ?start)) \<le> su_height u"
    using assms(2) by (simp add: sync_start_def new_world_def)
  from view_ok_rejoined [OF assms(1,2) this] have v: "view_ok u (sync_step J u Rejoined ?start)" .
  have s: "sync_ok u 1 (sync_step J u Rejoined ?start)"
    using sync_ok_step [OF sync_start_ok [OF assms(3)], of u J Rejoined] by simp
  have "sync_run J u (Rejoined # events) ?start = sync_run J u events (sync_step J u Rejoined ?start)"
    by (simp add: sync_run_def)
  then show ?thesis
    using run_ok [OF s v assms(2,1), of events] assms(4) by (simp add: st_def)
qed

end

text \<open>C2: However the edits of the world, the updates and departures of other players, the snapshots and
  the re-joins of a client interleave, after each snapshot the client's record of revisions is the
  server's record of the player: exactly the chunks in reach of the player's position, each at its
  current revision. The client's world holds exactly those chunks, each as the server first
  generated it, and it is the server's own chunk when that was never edited. (Revisions of edited
  chunks arrive, their blocks do not: the client generates the terrain anew.) The server's JSON is
  what the client reads; the configured box has \<open>int\<close> dimensions, both sides use the same world
  height, and fewer than \<open>2 ^ 32\<close> steps keep the revisions from wrapping.\<close>

theorem client_mirrors_reach:
  fixes u config events x z J nx nz client_profile parts
  defines "before \<equiv> sync_run J u (Rejoined # events) (sync_start u nx nz config client_profile)"
    and "after \<equiv> sync_run J u (Rejoined # events @ [Snapshot x z parts]) (sync_start u nx nz config client_profile)"
  assumes "json_library J good" and "expansion_typed (gp_expansion (su_profile u))" and "0 < su_height u"
    and "config_fits (sanitize_replication_config config)" and "length events + 1 < 2 ^ 32"
  shows "umap_find (cv_revisions (ss_client after)) c =
      (if c \<in> in_reach x z (ss_world before) (ss_replication before)
       then Some (revision_for c (ss_replication after)) else None)
    \<and> umap_find (pr_known (player_replication_of (su_player u) (ss_replication after))) c =
        umap_find (cv_revisions (ss_client after)) c
    \<and> get_chunk c (cv_world (ss_client after)) =
      (if c \<in> in_reach x z (ss_world before) (ss_replication before)
       then Some (generated_chunk (sanitize_profile (su_profile u)) (su_height u) c) else None)
    \<and> (c \<in> in_reach x z (ss_world before) (ss_replication before) \<and> revision_for c (ss_replication after) = 0
       \<longrightarrow> get_chunk c (cv_world (ss_client after)) = get_chunk c (ss_world after))"
proof -
  have after: "after = sync_step J u (Snapshot x z parts) before"
    by (simp add: before_def after_def sync_run_def)
  have ok: "sync_ok u (length events + 1) before" and "view_ok u before"
    using json_library.last_snapshot [OF assms(3-7)] by (simp_all add: before_def)
  note snap = json_library.snapshot_result [OF assms(3) this assms(5), of x z parts, folded after]
  have rest: "ss_world after = ss_world before"
    "revision_for c (ss_replication after) = revision_for c (ss_replication before)"
    by (simp_all add: after build_player_update_def revision_for_def Let_def)
  have "config_fits (rep_config (ss_replication before))" using ok by (simp add: sync_ok_def)
  note inside = reach_inside [OF _ this, of c x z "ss_world before"]
  show ?thesis
    using snap(1-3) inside ok unfolding rest by (auto simp: mirrors_def sync_ok_def)
qed

text \<open>One chunk, a player standing in it.\<close>

definition one_chunk_setup :: sync_setup where
  "one_chunk_setup = \<lparr>su_player = 1, su_valid_ids = {0, 1, 2, 3}, su_profile = default_profile, su_height = 32\<rparr>"

definition one_chunk_config :: replication_config where
  "one_chunk_config = \<lparr>rep_chunks_x = 1, rep_chunks_y = 1, rep_chunks_z = 1, rep_interest_radius = 0\<rparr>"

definition empty_parts :: "json_value snapshot_parts" where
  "empty_parts = \<lparr>sp_tick = 0, sp_players = VArray [], sp_events = VArray [], sp_treasure_spawns = VArray [],
     sp_match_state = VNull\<rparr>"

theorem client_mirrors_reach_witness:
  "umap_find (cv_revisions (ss_client (sync_run text_json one_chunk_setup
      [Rejoined, Snapshot (Fin 0) (Fin 0) empty_parts]
      (sync_start one_chunk_setup 1 1 one_chunk_config default_profile)))) (Coord 0 0 0) = Some 0"
proof -
  let ?start = "sync_start one_chunk_setup 1 1 one_chunk_config default_profile"
  let ?before = "sync_run text_json one_chunk_setup [Rejoined] ?start"
  let ?after = "sync_run text_json one_chunk_setup [Rejoined, Snapshot (Fin 0) (Fin 0) empty_parts] ?start"
  have "\<forall>q. litF (5 / 4) = Fin q \<longrightarrow> fits Single q"
    by (metis default_multiplier fits_multiplier fp.inject)
  then have "expansion_typed (gp_expansion (su_profile one_chunk_setup))"
    by (simp add: expansion_typed_def one_chunk_setup_def default_profile_def default_expansion_def in_i32_def)
  moreover have "0 < su_height one_chunk_setup" by (simp add: one_chunk_setup_def)
  moreover have "config_fits (sanitize_replication_config one_chunk_config)"
    by (simp add: config_fits_def sanitize_replication_config_def one_chunk_config_def)
  ultimately have "umap_find (cv_revisions (ss_client ?after)) (Coord 0 0 0) =
      (if Coord 0 0 0 \<in> in_reach (Fin 0) (Fin 0) (ss_world ?before) (ss_replication ?before)
       then Some (revision_for (Coord 0 0 0) (ss_replication ?after)) else None)"
    using client_mirrors_reach [OF text_json_library, of one_chunk_setup one_chunk_config "[]"
        "Fin 0" "Fin 0" empty_parts 1 1 default_profile "Coord 0 0 0"] by simp
  moreover have "Coord 0 0 0 \<in> in_reach (Fin 0) (Fin 0) (ss_world ?before) (ss_replication ?before)"
  proof -
    have "get_chunk (Coord 0 0 0) (ss_world ?before) \<noteq> None"
      using generated_box [of "Coord 0 0 0" 1 1 32 default_profile new_world] rows_of_height [of 32]
      by (simp add: sync_run_def sync_start_def one_chunk_setup_def total_chunks_def)
    moreover have "rep_config (ss_replication ?before) = one_chunk_config"
      by (simp add: sync_run_def sync_start_def replication_init_def sanitize_replication_config_def one_chunk_config_def)
    moreover have "floor_div_chunk (Fin 0) = 0" by code_simp
    ultimately show ?thesis
      by (simp add: gather_relevant_chunks_def one_chunk_config_def column_chunks_def disc_offsets_def clamp_int_def
        in_i32_def)
  qed
  moreover have "revision_for (Coord 0 0 0) (ss_replication ?after) = 0"
    by (simp add: sync_run_def sync_start_def replication_init_def revision_for_def replication_remove_player_def
        build_player_update_def Let_def)
  ultimately show ?thesis by simp
qed

end
