(* ===== verification/Prediction.thy ===== *)
theory Prediction
  imports Movement_Sim Json_Text
begin

text \<open>
  The client's prediction (client/PredictionReconciler.h, client/src/PredictionReconciler.cpp): local
  inputs are applied at once with the shared movement step and kept until a snapshot acknowledges
  them; a snapshot replaces the state by the server's and the rest is replayed. With it, the entry of a
  player in the server's snapshot (server/src/main.cpp), which the client reads its state from. Shown:
  when the server runs one tick per input, prediction is exact; the client is always where the server
  will be, and no snapshot corrects it.
\<close>

section \<open>Data\<close>

record prediction_config =
  pc_movement_tuning :: movement_tuning
  pc_max_pending_inputs :: nat

record predicted_motion =
  pm_position_x :: fp
  pm_position_y :: fp
  pm_velocity_x :: fp
  pm_velocity_y :: fp
  pm_speed :: fp
  pm_grounded :: bool
  pm_move_state :: move_state
  pm_vertical_position :: fp
  pm_vertical_velocity :: fp
  pm_last_input_seq :: u32

definition default_predicted :: predicted_motion where
  "default_predicted = \<lparr>pm_position_x = Fin 0, pm_position_y = Fin 0, pm_velocity_x = Fin 0, pm_velocity_y = Fin 0,
     pm_speed = Fin 0, pm_grounded = True, pm_move_state = Idle, pm_vertical_position = Fin 0,
     pm_vertical_velocity = Fin 0, pm_last_input_seq = 0\<rparr>"

text \<open>\<open>SnapshotMotionState\<close> has the members of the server's motion state.\<close>

type_synonym snapshot_motion = motion_state

record reconciliation_result =
  rr_applied :: bool
  rr_acked_input_seq :: u32
  rr_replayed_inputs :: nat
  rr_correction_distance :: fp

record pending_input =
  pi_input_seq :: u32
  pi_move_x :: fp
  pi_move_y :: fp
  pi_jump :: bool
  pi_fire :: bool
  pi_sprint :: bool
  pi_crouch :: bool
  pi_dt :: int

record reconciler =
  pr_config :: prediction_config
  pr_next_input_seq :: u32
  pr_state :: predicted_motion
  pr_pending :: "pending_input list"

section \<open>Operations\<close>

definition sanitize_prediction_config :: "prediction_config \<Rightarrow> prediction_config" where
  "sanitize_prediction_config c =
     \<lparr>pc_movement_tuning = sanitize_movement_tuning (pc_movement_tuning c),
      pc_max_pending_inputs = (if pc_max_pending_inputs c = 0 then 256 else pc_max_pending_inputs c)\<rparr>"

definition reconciler_init :: "prediction_config \<Rightarrow> reconciler" where
  "reconciler_init c = \<lparr>pr_config = sanitize_prediction_config c, pr_next_input_seq = 1,
     pr_state = default_predicted, pr_pending = []\<rparr>"

definition reconciler_reset :: "reconciler \<Rightarrow> reconciler" where
  "reconciler_reset r = r\<lparr>pr_next_input_seq := 1, pr_state := default_predicted, pr_pending := []\<rparr>"

definition predict_input :: "movement_tuning \<Rightarrow> pending_input \<Rightarrow> predicted_motion \<Rightarrow> predicted_motion" where
  "predict_input tuning i s =
     (let k = step_movement
        \<lparr>kin_position_x = pm_position_x s, kin_position_y = pm_position_y s,
         kin_velocity_x = pm_velocity_x s, kin_velocity_y = pm_velocity_y s,
         kin_vertical_position = pm_vertical_position s, kin_vertical_velocity = pm_vertical_velocity s,
         kin_grounded = pm_grounded s, kin_move_state = pm_move_state s\<rparr>
        \<lparr>int_move_x = pi_move_x i, int_move_y = pi_move_y i, int_jump = pi_jump i,
         int_sprint = pi_sprint i, int_crouch = pi_crouch i\<rparr>
        (tick_seconds_float (pi_dt i)) tuning
      in \<lparr>pm_position_x = kin_position_x k, pm_position_y = kin_position_y k,
          pm_velocity_x = kin_velocity_x k, pm_velocity_y = kin_velocity_y k, pm_speed = horizontal_speed k,
          pm_grounded = kin_grounded k, pm_move_state = kin_move_state k,
          pm_vertical_position = kin_vertical_position k, pm_vertical_velocity = kin_vertical_velocity k,
          pm_last_input_seq = max (pm_last_input_seq s) (pi_input_seq i)\<rparr>)"

definition queue_local_input ::
    "fp \<Rightarrow> fp \<Rightarrow> bool \<Rightarrow> bool \<Rightarrow> bool \<Rightarrow> bool \<Rightarrow> int \<Rightarrow> reconciler \<Rightarrow> u32 \<times> reconciler" where
  "queue_local_input move_x move_y jump sprint crouch fire dt r =
     (let i = \<lparr>pi_input_seq = pr_next_input_seq r, pi_move_x = move_x, pi_move_y = move_y, pi_jump = jump,
                pi_fire = fire, pi_sprint = sprint, pi_crouch = crouch, pi_dt = dt\<rparr>;
          pending = (if pc_max_pending_inputs (pr_config r) \<le> length (pr_pending r) then tl (pr_pending r)
                     else pr_pending r)
      in (pi_input_seq i, r\<lparr>pr_next_input_seq := pr_next_input_seq r + 1, pr_pending := pending @ [i],
            pr_state := predict_input (pc_movement_tuning (pr_config r)) i (pr_state r)\<rparr>))"

definition predicted_of :: "snapshot_motion \<Rightarrow> predicted_motion" where
  "predicted_of m = \<lparr>pm_position_x = mot_position_x m, pm_position_y = mot_position_y m,
     pm_velocity_x = mot_velocity_x m, pm_velocity_y = mot_velocity_y m, pm_speed = mot_speed m,
     pm_grounded = mot_grounded m, pm_move_state = mot_move_state m,
     pm_vertical_position = mot_vertical_position m, pm_vertical_velocity = mot_vertical_velocity m,
     pm_last_input_seq = mot_last_input_seq m\<rparr>"

definition correction :: "fp \<Rightarrow> fp \<Rightarrow> predicted_motion \<Rightarrow> fp" where
  "correction before_x before_y s =
     (let dx = fp_cast Double (subF (pm_position_x s) before_x);
          dy = fp_cast Double (subF (pm_position_y s) before_y)
      in fp_cast Single (fp_sqrt Double (addD (mulD dx dx) (mulD dy dy))))"

definition reconcile :: "snapshot_motion \<Rightarrow> reconciler \<Rightarrow> reconciliation_result \<times> reconciler" where
  "reconcile m r =
     (let before_x = pm_position_x (pr_state r); before_y = pm_position_y (pr_state r);
          pending = dropWhile (\<lambda>i. pi_input_seq i \<le> mot_last_input_seq m) (pr_pending r);
          s = fold (predict_input (pc_movement_tuning (pr_config r))) pending (predicted_of m)
      in (\<lparr>rr_applied = True, rr_acked_input_seq = mot_last_input_seq m, rr_replayed_inputs = length pending,
           rr_correction_distance = correction before_x before_y s\<rparr>,
          r\<lparr>pr_pending := pending, pr_state := s\<rparr>))"

section \<open>Reading the snapshot\<close>

definition parse_move_state :: "'j json_api \<Rightarrow> 'j \<Rightarrow> move_state" where
  "parse_move_state J player =
     (if \<not> contains J player ''move_state'' \<or> \<not> is_string J (at_key J player ''move_state'') then Idle
      else let s = jstring J (at_key J player ''move_state'') in
        if s = ''walk'' then Walk else if s = ''sprint'' then Sprint else if s = ''crouch'' then Crouch
        else if s = ''air'' then Air else Idle)"

definition value_or :: "'a option \<Rightarrow> 'a \<Rightarrow> 'a" where
  "value_or x d = (case x of None \<Rightarrow> d | Some v \<Rightarrow> v)"

text \<open>The body of the loop for the entry that has the player's id.\<close>

definition read_motion :: "'j json_api \<Rightarrow> u32 \<Rightarrow> 'j \<Rightarrow> snapshot_motion option" where
  "read_motion J pid player =
     (let position = at_key J player ''position''; velocity = at_key J player ''velocity'' in
      if \<not> is_object J position \<or> \<not> is_object J velocity then None
      else if \<not> contains J position ''x'' \<or> \<not> contains J position ''y''
        \<or> \<not> contains J velocity ''x'' \<or> \<not> contains J velocity ''y'' then None
      else case (json_to_float J (at_key J position ''x''), json_to_float J (at_key J position ''y''),
                 json_to_float J (at_key J velocity ''x''), json_to_float J (at_key J velocity ''y''),
                 json_to_u32 J (at_key J player ''last_processed_input_seq'')) of
        (Some px, Some py, Some vx, Some vy, Some seq) \<Rightarrow>
          Some \<lparr>mot_player_id = pid, mot_position_x = px, mot_position_y = py, mot_velocity_x = vx,
            mot_velocity_y = vy,
            mot_speed = value_or (json_to_float J (at_key J player ''speed''))
              (sqrtF (addF (mulF vx vx) (mulF vy vy))),
            mot_grounded = (if contains J player ''grounded'' \<and> is_boolean J (at_key J player ''grounded'')
              then jbool J (at_key J player ''grounded'') else True),
            mot_move_state = parse_move_state J player,
            mot_vertical_position = value_or (json_to_float J (at_key J player ''vertical_position'')) (Fin 0),
            mot_vertical_velocity = value_or (json_to_float J (at_key J player ''vertical_velocity'')) (Fin 0),
            mot_last_input_seq = seq\<rparr>
      | _ \<Rightarrow> None)"

definition skips_entry :: "'j json_api \<Rightarrow> u32 \<Rightarrow> 'j \<Rightarrow> bool" where
  "skips_entry J pid player \<longleftrightarrow>
     \<not> is_object J player
     \<or> (\<not> contains J player ''player_id'' \<or> \<not> contains J player ''position''
        \<or> \<not> contains J player ''velocity'' \<or> \<not> contains J player ''last_processed_input_seq'')
     \<or> json_to_u32 J (at_key J player ''player_id'') \<noteq> Some pid"

definition extract_player_state :: "'j json_api \<Rightarrow> 'j \<Rightarrow> u32 \<Rightarrow> snapshot_motion option" where
  "extract_player_state J payload pid =
     (if \<not> is_object J payload \<or> \<not> contains J payload ''players''
         \<or> \<not> is_array J (at_key J payload ''players'') then None
      else case dropWhile (skips_entry J pid) (jelems J (at_key J payload ''players'')) of
        [] \<Rightarrow> None
      | player # _ \<Rightarrow> read_motion J pid player)"

definition consume_snapshot ::
    "'j json_api \<Rightarrow> 'j \<Rightarrow> u32 \<Rightarrow> reconciler \<Rightarrow> reconciliation_result option \<times> reconciler" where
  "consume_snapshot J payload pid r =
     (case extract_player_state J payload pid of None \<Rightarrow> (None, r)
      | Some m \<Rightarrow> (case reconcile m r of (result, r') \<Rightarrow> (Some result, r')))"

section \<open>The entry that the server writes\<close>

record snapshot_player_view =
  sv_motion :: motion_state
  sv_player_name :: string
  sv_health :: int
  sv_alive :: bool
  sv_last_shot_seq :: u32
  sv_coins :: int
  sv_inventory_weight :: int
  sv_inventory_items :: u32
  sv_last_pickup_seq :: u32
  sv_respawns_remaining :: u32
  sv_eliminated :: bool

text \<open>A \<open>float\<close> is stored as a \<open>double\<close>.\<close>

definition jof_single :: "'j json_api \<Rightarrow> fp \<Rightarrow> 'j" where
  "jof_single J x = jof_float J (fp_cast Double x)"

definition jof_u32 :: "'j json_api \<Rightarrow> u32 \<Rightarrow> 'j" where
  "jof_u32 J n = jof_uint J (ucast n)"

definition snapshot_player_fields :: "'j json_api \<Rightarrow> snapshot_player_view \<Rightarrow> (string \<times> 'j) list" where
  "snapshot_player_fields J v = (let m = sv_motion v in
     [(''player_id'', jof_u32 J (mot_player_id m)), (''player_name'', jof_string J (sv_player_name v)),
      (''position'', jof_object J [(''x'', jof_single J (mot_position_x m)), (''y'', jof_single J (mot_position_y m))]),
      (''velocity'', jof_object J [(''x'', jof_single J (mot_velocity_x m)), (''y'', jof_single J (mot_velocity_y m))]),
      (''speed'', jof_single J (mot_speed m)), (''grounded'', jof_bool J (mot_grounded m)),
      (''move_state'', jof_string J (move_state_to_string (mot_move_state m))),
      (''vertical_position'', jof_single J (mot_vertical_position m)),
      (''vertical_velocity'', jof_single J (mot_vertical_velocity m)),
      (''last_processed_input_seq'', jof_u32 J (mot_last_input_seq m)),
      (''health'', jof_int J (sv_health v)), (''alive'', jof_bool J (sv_alive v)),
      (''last_shot_seq'', jof_u32 J (sv_last_shot_seq v)), (''coins'', jof_int J (sv_coins v)),
      (''inventory_weight'', jof_int J (sv_inventory_weight v)),
      (''inventory_items'', jof_u32 J (sv_inventory_items v)),
      (''last_pickup_seq'', jof_u32 J (sv_last_pickup_seq v)),
      (''respawns_remaining'', jof_u32 J (sv_respawns_remaining v)),
      (''eliminated'', jof_bool J (sv_eliminated v))])"

definition snapshot_players_to_json :: "'j json_api \<Rightarrow> snapshot_player_view list \<Rightarrow> 'j" where
  "snapshot_players_to_json J vs = jof_array J (List.map (\<lambda>v. jof_object J (snapshot_player_fields J v)) vs)"

section \<open>The snapshot is read back\<close>

text \<open>The values of a \<open>float\<close> that JSON can carry.\<close>

fun sendable :: "fp \<Rightarrow> bool" where
  "sendable (Fin q) = fits Single q"
| "sendable _ = False"

definition motion_sendable :: "motion_state \<Rightarrow> bool" where
  "motion_sendable m \<longleftrightarrow> sendable (mot_position_x m) \<and> sendable (mot_position_y m)
     \<and> sendable (mot_velocity_x m) \<and> sendable (mot_velocity_y m) \<and> sendable (mot_speed m)
     \<and> sendable (mot_vertical_position m) \<and> sendable (mot_vertical_velocity m)"

lemma distinct_player_fields: "distinct (List.map fst (snapshot_player_fields J v))"
  by (simp add: snapshot_player_fields_def Let_def)

lemma player_field:
  "map_of (snapshot_player_fields J v) ''player_id'' = Some (jof_u32 J (mot_player_id (sv_motion v)))"
  "map_of (snapshot_player_fields J v) ''position'' = Some (jof_object J
     [(''x'', jof_single J (mot_position_x (sv_motion v))), (''y'', jof_single J (mot_position_y (sv_motion v)))])"
  "map_of (snapshot_player_fields J v) ''velocity'' = Some (jof_object J
     [(''x'', jof_single J (mot_velocity_x (sv_motion v))), (''y'', jof_single J (mot_velocity_y (sv_motion v)))])"
  "map_of (snapshot_player_fields J v) ''speed'' = Some (jof_single J (mot_speed (sv_motion v)))"
  "map_of (snapshot_player_fields J v) ''grounded'' = Some (jof_bool J (mot_grounded (sv_motion v)))"
  "map_of (snapshot_player_fields J v) ''move_state'' = Some (jof_string J (move_state_to_string (mot_move_state (sv_motion v))))"
  "map_of (snapshot_player_fields J v) ''vertical_position'' = Some (jof_single J (mot_vertical_position (sv_motion v)))"
  "map_of (snapshot_player_fields J v) ''vertical_velocity'' = Some (jof_single J (mot_vertical_velocity (sv_motion v)))"
  "map_of (snapshot_player_fields J v) ''last_processed_input_seq'' = Some (jof_u32 J (mot_last_input_seq (sv_motion v)))"
  by (simp_all add: snapshot_player_fields_def Let_def)

context json_library begin

lemma single_back: "sendable x \<Longrightarrow> json_to_float J (jof_single J x) = Some x"
proof (cases x)
  case (Fin q)
  assume "sendable x"
  with Fin have q: "fits Single q" by simp
  then have "fp_cast Double (Fin q) = Fin q" by (simp add: round_fits fits_Single_Double)
  then show ?thesis
    using q Fin float_of_float [of q] fits_single_range [OF q] by (simp add: jof_single_def)
qed simp_all

lemmas entry_read = at_object [OF distinct_player_fields] contains_object [OF distinct_player_fields]

lemma u32_back: "json_to_u32 J (jof_u32 J n) = Some n"
  by (simp add: jof_u32_def u32_of_u32)

lemma entry_move_state:
  "parse_move_state J (jof_object J (snapshot_player_fields J v)) = mot_move_state (sv_motion v)"
  by (cases "mot_move_state (sv_motion v)")
    (simp_all add: parse_move_state_def entry_read player_field json_types types gets)

lemma read_back:
  assumes "motion_sendable (sv_motion v)"
  shows "read_motion J (mot_player_id (sv_motion v)) (jof_object J (snapshot_player_fields J v)) = Some (sv_motion v)"
  using assms
  by (simp add: read_motion_def motion_sendable_def entry_move_state entry_read player_field at_object contains_object
      json_types types gets single_back u32_back value_or_def Let_def)

lemma skip_entry:
  "skips_entry J pid (jof_object J (snapshot_player_fields J v)) \<longleftrightarrow> mot_player_id (sv_motion v) \<noteq> pid"
  by (simp add: skips_entry_def entry_read player_field json_types types u32_back)

text \<open>Among the entries of all players the client finds its own.\<close>

lemma extract_back:
  assumes "find (\<lambda>v. mot_player_id (sv_motion v) = pid) vs = Some v" and "motion_sendable (sv_motion v)"
    and "distinct (List.map fst kvs)" and "map_of kvs ''players'' = Some (snapshot_players_to_json J vs)"
  shows "extract_player_state J (jof_object J kvs) pid = Some (sv_motion v)"
proof -
  have "\<exists>rest. dropWhile (skips_entry J pid) (List.map (\<lambda>v. jof_object J (snapshot_player_fields J v)) vs) =
      jof_object J (snapshot_player_fields J v) # rest \<and> mot_player_id (sv_motion v) = pid"
    using assms(1) by (induction vs) (auto simp: skip_entry split: if_splits)
  then obtain rest where "dropWhile (skips_entry J pid) (List.map (\<lambda>v. jof_object J (snapshot_player_fields J v)) vs) =
      jof_object J (snapshot_player_fields J v) # rest" and pid: "mot_player_id (sv_motion v) = pid"
    by blast
  then show ?thesis
    using read_back [OF assms(2)] at_object [OF assms(3,4)] contains_object [OF assms(3,4)]
    by (simp add: extract_player_state_def snapshot_players_to_json_def json_types types gets)
qed

end

section \<open>Client and server together\<close>

text \<open>The input of one client frame, as queued locally and as it arrives at the server.\<close>

record local_input =
  li_move_x :: fp
  li_move_y :: fp
  li_jump :: bool
  li_sprint :: bool
  li_crouch :: bool
  li_fire :: bool

definition sent_input :: "u32 \<Rightarrow> local_input list \<Rightarrow> nat \<Rightarrow> player_input" where
  "sent_input pid inputs j = (let i = inputs ! j in
     \<lparr>inp_player_id = pid, inp_seq = word_of_nat (Suc j), inp_move_x = li_move_x i, inp_move_y = li_move_y i,
      inp_jump = li_jump i, inp_fire = li_fire i, inp_received_at = 0, inp_sprint = li_sprint i,
      inp_crouch = li_crouch i\<rparr>)"

text \<open>
  The server after \<open>k\<close> ticks, each with the player's next input among those of other players
  (\<open>others\<close>, from which inputs that carry the player's id are left out).
\<close>

definition server_ticks ::
    "int \<Rightarrow> u32 \<Rightarrow> local_input list \<Rightarrow> (nat \<Rightarrow> player_input list) \<Rightarrow> nat \<Rightarrow> movement_sim \<Rightarrow> movement_sim" where
  "server_ticks t pid inputs others k s =
     fold (\<lambda>j. apply_inputs t (sent_input pid inputs j # filter (\<lambda>i. inp_player_id i \<noteq> pid) (others j))) [0..<k] s"

definition server_motion ::
    "int \<Rightarrow> u32 \<Rightarrow> local_input list \<Rightarrow> (nat \<Rightarrow> player_input list) \<Rightarrow> movement_sim \<Rightarrow> nat \<Rightarrow> motion_state" where
  "server_motion t pid inputs others s k =
     (case movement_state_for (server_ticks t pid inputs others k s) pid of
        None \<Rightarrow> fresh_motion pid | Some m \<Rightarrow> m)"

text \<open>
  What the client experiences: a local frame, or the arrival of the snapshot that the server made after
  \<open>k\<close> ticks, with the rest of the player's view and the views of the players listed before and after.
\<close>

datatype predict_event =
    Frame local_input
  | Arrival nat snapshot_player_view "snapshot_player_view list" "snapshot_player_view list"

definition frames :: "predict_event list \<Rightarrow> local_input list" where
  "frames events = List.map_filter (\<lambda>e. case e of Frame i \<Rightarrow> Some i | _ \<Rightarrow> None) events"

definition arrival_payload :: "'j json_api \<Rightarrow> u32 \<Rightarrow> motion_state \<Rightarrow> snapshot_player_view \<Rightarrow>
    snapshot_player_view list \<Rightarrow> snapshot_player_view list \<Rightarrow> 'j" where
  "arrival_payload J pid m view before after =
     jof_object J [(''players'', snapshot_players_to_json J
       (filter (\<lambda>v. mot_player_id (sv_motion v) \<noteq> pid) before @ view\<lparr>sv_motion := m\<rparr> # after))]"

definition predict_step :: "'j json_api \<Rightarrow> int \<Rightarrow> u32 \<Rightarrow> (nat \<Rightarrow> motion_state) \<Rightarrow> predict_event \<Rightarrow>
    reconciler \<times> reconciliation_result list \<Rightarrow> reconciler \<times> reconciliation_result list" where
  "predict_step J t pid server ev = (\<lambda>(r, results). case ev of
     Frame i \<Rightarrow>
       (snd (queue_local_input (li_move_x i) (li_move_y i) (li_jump i) (li_sprint i) (li_crouch i) (li_fire i) t r), results)
   | Arrival k view before after \<Rightarrow>
       (case consume_snapshot J (arrival_payload J pid (server k) view before after) pid r of
          (None, r') \<Rightarrow> (r', results)
        | (Some result, r') \<Rightarrow> (r', results @ [result])))"

text \<open>
  The network as the protocol promises it: snapshots arrive in the order they were made, none before
  the inputs it acknowledges, and never are more than \<open>limit\<close> inputs under way.
\<close>

fun arrivals_ok :: "nat \<Rightarrow> nat \<Rightarrow> nat \<Rightarrow> predict_event list \<Rightarrow> bool" where
  "arrivals_ok limit queued acked [] = True"
| "arrivals_ok limit queued acked (Frame i # es) = (queued < acked + limit \<and> arrivals_ok limit (Suc queued) acked es)"
| "arrivals_ok limit queued acked (Arrival k _ _ _ # es) = (acked \<le> k \<and> k \<le> queued \<and> arrivals_ok limit queued k es)"

fun last_ack :: "nat \<Rightarrow> predict_event list \<Rightarrow> nat" where
  "last_ack acked [] = acked"
| "last_ack acked (Frame i # es) = last_ack acked es"
| "last_ack acked (Arrival k _ _ _ # es) = last_ack k es"

section \<open>The server's motion is a fold of the shared step\<close>

definition true_motion :: "movement_tuning \<Rightarrow> int \<Rightarrow> u32 \<Rightarrow> local_input list \<Rightarrow> nat \<Rightarrow> motion_state" where
  "true_motion tuning t pid inputs k =
     fold (\<lambda>j. step_player tuning (tick_seconds_float t) (Some (sent_input pid inputs j))) [0..<k] (fresh_motion pid)"

lemma true_motion_simps [simp]:
  "true_motion tuning t pid inputs 0 = fresh_motion pid"
  "true_motion tuning t pid inputs (Suc k) =
     step_player tuning (tick_seconds_float t) (Some (sent_input pid inputs k)) (true_motion tuning t pid inputs k)"
  by (simp_all add: true_motion_def)

lemma tuning_apply: "ms_tuning (apply_inputs t inputs s) = ms_tuning s"
  by (simp add: apply_inputs_def Let_def fold_ensure_inputs ensure_tuning)

lemma last_input_mine:
  "last_input_of pid (sent_input pid inputs j # filter (\<lambda>i. inp_player_id i \<noteq> pid) others) = Some (sent_input pid inputs j)"
proof -
  have "filter (\<lambda>i. inp_player_id i = pid) (filter (\<lambda>i. inp_player_id i \<noteq> pid) others) = []"
    by (simp add: filter_empty_conv)
  then show ?thesis by (simp add: last_input_of_def sent_input_def Let_def)
qed

lemma server_ticks_motion:
  assumes "0 < t" and "t < 2 ^ 63" and "movement_state_for s pid = Some (fresh_motion pid)"
  shows "movement_state_for (server_ticks t pid inputs others k s) pid = Some (true_motion (ms_tuning s) t pid inputs k)
    \<and> ms_tuning (server_ticks t pid inputs others k s) = ms_tuning s"
proof (induction k)
  case (Suc k)
  then show ?case
    using apply_inputs_find [OF assms(1) tick_seconds_positive [OF assms(1,2)], of
        "sent_input pid inputs k # filter (\<lambda>i. inp_player_id i \<noteq> pid) (others k)"
        "server_ticks t pid inputs others k s" pid]
    by (simp add: server_ticks_def tuning_apply stepped_motion_def last_input_mine)
qed (simp add: server_ticks_def assms(3))

lemma server_motion_eq:
  assumes "0 < t" and "t < 2 ^ 63" and "movement_state_for s pid = Some (fresh_motion pid)"
  shows "server_motion t pid inputs others s k = true_motion (ms_tuning s) t pid inputs k"
  using server_ticks_motion [OF assms] by (simp add: server_motion_def)

section \<open>Prediction is exact\<close>

definition pending_at :: "int \<Rightarrow> local_input list \<Rightarrow> nat \<Rightarrow> pending_input" where
  "pending_at t inputs j = (let i = inputs ! j in
     \<lparr>pi_input_seq = word_of_nat (Suc j), pi_move_x = li_move_x i, pi_move_y = li_move_y i, pi_jump = li_jump i,
      pi_fire = li_fire i, pi_sprint = li_sprint i, pi_crouch = li_crouch i, pi_dt = t\<rparr>)"

lemma predict_step_player:
  "predict_input tuning (pending_at t inputs j) (predicted_of m) =
     predicted_of (step_player tuning (tick_seconds_float t) (Some (sent_input pid inputs j)) m)"
  by (cases "mot_last_input_seq m < word_of_nat (Suc j)")
    (simp_all add: predict_input_def predicted_of_def step_player_def pending_at_def sent_input_def Let_def
      intent_of_input_def kinematics_of_def max_def order.order_iff_strict del: of_nat_Suc)

lemma seq_of_nat: "n < 2 ^ 32 \<Longrightarrow> unat (word_of_nat n :: u32) = n"
  by (simp add: unat_of_nat take_bit_nat_eq_self)

lemma true_motion_seq:
  "k < 2 ^ 32 \<Longrightarrow> mot_last_input_seq (true_motion tuning t pid inputs k) = word_of_nat k"
proof (induction k)
  case (Suc k)
  then have "(word_of_nat k :: u32) < word_of_nat (Suc k)"
    using seq_of_nat [of k] seq_of_nat [of "Suc k"] by (simp add: word_less_nat_alt del: of_nat_Suc)
  with Suc show ?case by (simp add: step_player_def sent_input_def Let_def del: of_nat_Suc)
qed (simp add: fresh_motion_def)

lemma true_motion_id: "mot_player_id (true_motion tuning t pid inputs k) = pid"
  by (induction k) (simp_all add: fresh_motion_def step_player_def Let_def)

lemma replay:
  "k \<le> q \<Longrightarrow> fold (predict_input tuning) (map (pending_at t inputs) [k..<q]) (predicted_of (true_motion tuning t pid inputs k)) =
     predicted_of (true_motion tuning t pid inputs q)"
proof (induction q rule: dec_induct)
  case (step q)
  then show ?case by (simp add: predict_step_player [where pid = pid])
qed simp

lemma dropWhile_split: "(\<And>x. x \<in> set xs \<Longrightarrow> P x) \<Longrightarrow> list_all (\<lambda>x. \<not> P x) ys \<Longrightarrow> dropWhile P (xs @ ys) = ys"
  by (induction xs) (auto simp: dropWhile_eq_self_iff list_all_iff)

lemma acked_dropped:
  assumes "a \<le> k" and "k \<le> q" and "q < 2 ^ 32"
  shows "dropWhile (\<lambda>i. pi_input_seq i \<le> word_of_nat k) (map (pending_at t inputs) [a..<q]) =
    map (pending_at t inputs) [k..<q]"
proof -
  have "[a..<q] = [a..<k] @ [k..<q]" using assms(1,2) upt_add_eq_append [OF assms(1), of "q - k"] by simp
  moreover have le: "(word_of_nat (Suc j) :: u32) \<le> word_of_nat k \<longleftrightarrow> Suc j \<le> k" if "Suc j \<le> q" for j
    using that assms(2,3) seq_of_nat [of "Suc j"] seq_of_nat [of k] by (simp add: word_le_nat_alt del: of_nat_Suc)
  have "dropWhile (\<lambda>i. pi_input_seq i \<le> word_of_nat k)
      (map (pending_at t inputs) [a..<k] @ map (pending_at t inputs) [k..<q]) = map (pending_at t inputs) [k..<q]"
  proof (rule dropWhile_split)
    show "pi_input_seq i \<le> word_of_nat k" if "i \<in> set (map (pending_at t inputs) [a..<k])" for i
      using that assms(2) le by (auto simp: pending_at_def Let_def simp del: of_nat_Suc)
    show "list_all (\<lambda>i. \<not> pi_input_seq i \<le> word_of_nat k) (map (pending_at t inputs) [k..<q])"
      using le by (auto simp: list_all_iff pending_at_def Let_def simp del: of_nat_Suc)
  qed
  ultimately show ?thesis by simp
qed

lemma no_correction:
  assumes "sendable (pm_position_x s)" and "sendable (pm_position_y s)"
  shows "correction (pm_position_x s) (pm_position_y s) s = Fin 0"
  using assms
  by (cases "pm_position_x s"; cases "pm_position_y s") (simp_all add: correction_def fp_sub_def Let_def round_fits [OF fits_zero])

text \<open>The reconciler with \<open>q\<close> inputs queued and \<open>a\<close> acknowledged.\<close>

definition tracks :: "prediction_config \<Rightarrow> int \<Rightarrow> local_input list \<Rightarrow> u32 \<Rightarrow> nat \<Rightarrow> nat \<Rightarrow> reconciler \<Rightarrow> bool" where
  "tracks c t inputs pid a q r \<longleftrightarrow>
     r = \<lparr>pr_config = c, pr_next_input_seq = word_of_nat (Suc q),
          pr_state = predicted_of (true_motion (pc_movement_tuning c) t pid inputs q),
          pr_pending = map (pending_at t inputs) [a..<q]\<rparr>"

lemma tracks_frame:
  assumes "tracks c t inputs pid a q r" and "a \<le> q" and "q < a + pc_max_pending_inputs c" and "inputs ! q = i"
  shows "tracks c t inputs pid a (Suc q)
    (snd (queue_local_input (li_move_x i) (li_move_y i) (li_jump i) (li_sprint i) (li_crouch i) (li_fire i) t r))"
proof -
  have p: "\<lparr>pi_input_seq = word_of_nat (Suc q), pi_move_x = li_move_x i, pi_move_y = li_move_y i, pi_jump = li_jump i,
      pi_fire = li_fire i, pi_sprint = li_sprint i, pi_crouch = li_crouch i, pi_dt = t\<rparr> = pending_at t inputs q"
    by (simp add: pending_at_def assms(4))
  have "r = \<lparr>pr_config = c, pr_next_input_seq = word_of_nat (Suc q),
          pr_state = predicted_of (true_motion (pc_movement_tuning c) t pid inputs q),
          pr_pending = map (pending_at t inputs) [a..<q]\<rparr>"
    using assms(1) by (simp only: tracks_def)
  then show ?thesis
    using assms(2,3)
    by (simp add: tracks_def queue_local_input_def Let_def p predict_step_player [where pid = pid] del: of_nat_Suc)
      (simp add: add.commute)
qed

lemma tracks_reconcile:
  fixes k t inputs pid c
  defines "m \<equiv> true_motion (pc_movement_tuning c) t pid inputs"
  assumes "tracks c t inputs pid a q r" and "a \<le> k" and "k \<le> q" and "q < 2 ^ 32" and "motion_sendable (m q)"
  shows "tracks c t inputs pid k q (snd (reconcile (m k) r))"
    and "rr_correction_distance (fst (reconcile (m k) r)) = Fin 0"
proof -
  have r: "r = \<lparr>pr_config = c, pr_next_input_seq = word_of_nat (Suc q), pr_state = predicted_of (m q),
      pr_pending = map (pending_at t inputs) [a..<q]\<rparr>"
    using assms(2) by (simp only: tracks_def m_def)
  have seq: "mot_last_input_seq (m k) = word_of_nat k"
    unfolding m_def by (rule true_motion_seq) (use assms(4,5) in simp)
  have rep: "fold (predict_input (pc_movement_tuning c)) (map (pending_at t inputs) [k..<q]) (predicted_of (m k)) =
      predicted_of (m q)"
    unfolding m_def by (rule replay [OF assms(4)])
  note d = acked_dropped [OF assms(3-5), of t inputs]
  show "tracks c t inputs pid k q (snd (reconcile (m k) r))"
    by (simp only: reconcile_def r Let_def seq reconciler.simps d rep snd_conv tracks_def flip: m_def)
  have "sendable (pm_position_x (predicted_of (m q)))" "sendable (pm_position_y (predicted_of (m q)))"
    using assms(6) by (simp_all add: motion_sendable_def predicted_of_def)
  from no_correction [OF this] show "rr_correction_distance (fst (reconcile (m k) r)) = Fin 0"
    by (simp only: reconcile_def r Let_def seq reconciler.simps d rep fst_conv reconciliation_result.simps)
qed

lemma tracks_init:
  "tracks (sanitize_prediction_config c) t inputs pid 0 0 (reconciler_init c)"
  by (simp add: tracks_def reconciler_init_def predicted_of_def fresh_motion_def default_predicted_def)

lemma tracks_reset: "tracks c t inputs pid a q r \<Longrightarrow> tracks c t inputs pid 0 0 (reconciler_reset r)"
  by (simp add: tracks_def reconciler_reset_def predicted_of_def fresh_motion_def default_predicted_def)

lemma frames_simps [simp]:
  "frames [] = []"
  "frames (Frame i # es) = i # frames es"
  "frames (Arrival k view before after # es) = frames es"
  by (simp_all add: frames_def map_filter_simps)

context json_library begin

lemma arrival_extract:
  assumes "motion_sendable m" and "mot_player_id m = pid"
  shows "extract_player_state J (arrival_payload J pid m view before after) pid = Some m"
proof -
  let ?vs = "filter (\<lambda>v. mot_player_id (sv_motion v) \<noteq> pid) before @ view\<lparr>sv_motion := m\<rparr> # after"
  have "find (\<lambda>v. mot_player_id (sv_motion v) = pid) ?vs = Some (view\<lparr>sv_motion := m\<rparr>)"
    using assms(2) by (induction before) simp_all
  from extract_back [OF this, of "[(''players'', snapshot_players_to_json J ?vs)]"] assms(1) show ?thesis
    by (simp add: arrival_payload_def)
qed

lemma drop_next: "drop q xs = y # ys \<Longrightarrow> q < length xs \<and> xs ! q = y \<and> drop (Suc q) xs = ys"
  by (cases "q < length xs") (auto simp flip: Cons_nth_drop_Suc)

lemma predict_run:
  fixes c t inputs pid
  defines "m \<equiv> true_motion (pc_movement_tuning c) t pid inputs"
  assumes "tracks c t inputs pid a q r" and "a \<le> q" and "arrivals_ok (pc_max_pending_inputs c) q a events"
    and "drop q inputs = frames events" and "length inputs < 2 ^ 32" and "q \<le> length inputs"
    and "list_all (\<lambda>k. motion_sendable (m k)) [0..<Suc (length inputs)]"
    and "list_all (\<lambda>result. rr_correction_distance result = Fin 0) results"
  shows "tracks c t inputs pid (last_ack a events) (length inputs) (fst (fold (predict_step J t pid m) events (r, results)))
    \<and> list_all (\<lambda>result. rr_correction_distance result = Fin 0) (snd (fold (predict_step J t pid m) events (r, results)))"
  using assms(2-5,7,9)
proof (induction events arbitrary: a q r results)
  case (Cons e events)
  show ?case
  proof (cases e)
    case (Frame i)
    with Cons.prems(4,5) have q: "q < length inputs" and i: "inputs ! q = i" and rest: "drop (Suc q) inputs = frames events"
      using drop_next [of q inputs i "frames events"] by simp_all
    show ?thesis
      using Cons.IH [OF tracks_frame [OF Cons.prems(1,2) _ i] _ _ rest, of results] Cons.prems(2,3,6) q Frame
      by (simp add: predict_step_def)
  next
    case (Arrival k view before after)
    with Cons.prems(3) have k: "a \<le> k" "k \<le> q" and ok: "arrivals_ok (pc_max_pending_inputs c) q k events" by simp_all
    have s: "motion_sendable (m k)" "motion_sendable (m q)"
      using assms(8) k Cons.prems(5) by (simp_all add: list_all_iff del: upt_Suc)
    have "q < 2 ^ 32" using assms(6) Cons.prems(5) by simp
    note rec = tracks_reconcile [OF Cons.prems(1) k this s(2) [unfolded m_def], folded m_def]
    obtain result r' where rr: "reconcile (m k) r = (result, r')" by (cases "reconcile (m k) r")
    have id: "mot_player_id (m k) = pid" by (simp add: m_def true_motion_id)
    have step: "predict_step J t pid m (Arrival k view before after) (r, results) = (r', results @ [result])"
      by (simp add: predict_step_def consume_snapshot_def arrival_extract [OF s(1) id] rr)
    show ?thesis
      using Cons.IH [OF rec(1) k(2) ok, of "results @ [result]"] rec(2) Cons.prems(4,5,6) Arrival
      by (simp add: step rr)
  qed
qed simp

end

text \<open>C1: Client prediction is exact. Let the server run one tick per input of the player, whatever other
  players send in the same ticks, and let the client apply each input when it is made and consume the
  server's snapshots as they arrive, in any interleaving in which snapshots keep their order, none
  acknowledges an input not yet made, and no more inputs are under way than the client keeps. Then at
  every moment the client's predicted motion, every member of it, is the motion that the server will
  have after all inputs made so far; what is pending are exactly the inputs not acknowledged; and every
  snapshot that was consumed reports a correction of zero. Both sides use the same tuning and step, the
  sequence numbers do not wrap, and the server's floats stay finite, as JSON requires.\<close>

theorem prediction_exact:
  fixes t pid others s config events J
  defines "inputs \<equiv> frames events" and "c \<equiv> sanitize_prediction_config config"
  defines "server \<equiv> server_motion t pid inputs others s"
  defines "final \<equiv> fold (predict_step J t pid server) events (reconciler_init config, [])"
  assumes "json_library J good" and "0 < t" and "t < 2 ^ 63"
    and "movement_state_for s pid = Some (fresh_motion pid)" and "ms_tuning s = pc_movement_tuning c"
    and "arrivals_ok (pc_max_pending_inputs c) 0 0 events" and "length inputs < 2 ^ 32"
    and "list_all (\<lambda>k. motion_sendable (server k)) [0..<Suc (length inputs)]"
  shows "pr_state (fst final) = predicted_of (server (length inputs))
    \<and> pr_pending (fst final) = map (pending_at t inputs) [last_ack 0 events..<length inputs]
    \<and> list_all (\<lambda>result. rr_correction_distance result = Fin 0) (snd final)"
proof -
  have server: "server = true_motion (pc_movement_tuning c) t pid inputs"
    using server_motion_eq [OF assms(6-8)] assms(9) by (simp add: server_def fun_eq_iff)
  have "tracks c t inputs pid 0 0 (reconciler_init config)" by (simp add: c_def tracks_init)
  from json_library.predict_run [OF assms(5) this _ assms(10), of "[]"]
  show ?thesis
    using assms(11,12) unfolding server final_def by (simp add: inputs_def tracks_def del: upt_Suc)
qed

text \<open>Two frames standing still; the snapshot of the first arrives between another player's entries.\<close>

definition still_frame :: local_input where
  "still_frame = \<lparr>li_move_x = Fin 0, li_move_y = Fin 0, li_jump = False, li_sprint = False, li_crouch = False, li_fire = False\<rparr>"

definition plain_view :: "u32 \<Rightarrow> snapshot_player_view" where
  "plain_view p = \<lparr>sv_motion = fresh_motion p, sv_player_name = ''p'', sv_health = 100, sv_alive = True,
     sv_last_shot_seq = 0, sv_coins = 0, sv_inventory_weight = 0, sv_inventory_items = 0, sv_last_pickup_seq = 0,
     sv_respawns_remaining = 0, sv_eliminated = False\<rparr>"

lemma epsilons:
  "fp_le (Fin 0) (fp_cast Double input_magnitude_epsilon)" "\<not> fp_lt input_magnitude_epsilon (Fin 0)"
  "\<not> fp_lt float_epsilon (Fin 0)" "\<not> fp_lt speed_epsilon (Fin 0)" "fp_le (Fin 0) speed_epsilon"
  by code_simp+

lemma zero_round [simp]: "fp_round f 0 = Fin 0"
  by (rule round_fits [OF fits_zero])

text \<open>A player at rest that gives no input stays at rest.\<close>

lemma rest_step:
  assumes "fp_is_finite (mulF (max_speed_walk (sanitize_movement_tuning tuning)) (Fin 1))"
  shows "step_movement default_kinematics default_intent dt tuning = default_kinematics"
proof -
  let ?k = default_kinematics and ?t = "sanitize_movement_tuning tuning"
  have input: "sanitize_movement_input default_intent = default_intent"
    using epsilons(1)
    by (simp add: sanitize_movement_input_def default_intent_def sanitize_axis_def fp_clamp_def normalize_or_zero_def Let_def)
  have a: "accelerate default_intent dt ?t ?k = ?k"
    using assms epsilons(3)
    by (simp add: accelerate_def default_intent_def default_kinematics_def Let_def mulF_zero_finite fp_sub_def)
  have speed: "horizontal_speed ?k = Fin 0"
    by (simp add: horizontal_speed_def speed_of_def default_kinematics_def Let_def)
  have f: "apply_friction default_intent dt ?t ?k = ?k"
    using epsilons(4) unfolding apply_friction_def Let_def speed by (simp add: default_kinematics_def)
  have v: "integrate_vertical dt ?t ?k = ?k"
    by (simp add: integrate_vertical_def default_kinematics_def Let_def)
  have j: "start_jump default_intent ?t ?k = ?k" by (simp add: start_jump_def default_intent_def)
  have p: "fp_is_finite dt \<Longrightarrow> integrate_position dt ?k = ?k"
    by (simp add: integrate_position_def default_kinematics_def mulF_zero_finite)
  have m: "update_move_state default_intent ?k = ?k"
    using epsilons(5) unfolding update_move_state_def classify_state_def speed by (simp add: default_kinematics_def)
  show ?thesis
    by (simp add: step_movement_def input Let_def a f j v p m)
qed

definition lone_sim :: movement_sim where
  "lone_sim = movement_ensure 7 (movement_sim_init default_tuning)"

lemma rest_motion:
  assumes "inputs = [still_frame, still_frame]" and "k \<le> 2"
  shows "true_motion (sanitize_movement_tuning default_tuning) t 7 inputs k =
    (fresh_motion 7)\<lparr>mot_last_input_seq := word_of_nat k\<rparr>"
  using assms(2)
proof (induction k)
  case (Suc k)
  let ?m = "(fresh_motion 7)\<lparr>mot_last_input_seq := word_of_nat (Suc k)\<rparr>"
  have "inputs ! k = still_frame" using Suc.prems assms(1) by (cases k) auto
  moreover have "kinematics_of ?m = default_kinematics"
    by (simp add: kinematics_of_def fresh_motion_def default_kinematics_def)
  moreover have "fp_is_finite (mulF (max_speed_walk (sanitize_movement_tuning (sanitize_movement_tuning default_tuning))) (Fin 1))"
    by code_simp
  moreover have "(word_of_nat k :: u32) < word_of_nat (Suc k)"
    using Suc.prems seq_of_nat [of k] seq_of_nat [of "Suc k"] by (simp add: word_less_nat_alt del: of_nat_Suc)
  ultimately have "step_player (sanitize_movement_tuning default_tuning) (tick_seconds_float t) (Some (sent_input 7 inputs k))
      ((fresh_motion 7)\<lparr>mot_last_input_seq := word_of_nat k\<rparr>) = ?m"
    by (simp add: step_player_def sent_input_def intent_of_input_def still_frame_def Let_def rest_step
        default_intent_def [symmetric] del: of_nat_Suc)
      (simp add: fresh_motion_def default_kinematics_def horizontal_speed_def speed_of_def Let_def)
  with Suc show ?case by (simp del: of_nat_Suc)
qed (simp add: fresh_motion_def)

theorem prediction_exact_witness:
  "pr_pending (fst (fold (predict_step text_json 16666666 7
      (server_motion 16666666 7 [still_frame, still_frame] (\<lambda>_. [demo_input 2 4]) lone_sim))
      [Frame still_frame, Frame still_frame, Arrival 1 (plain_view 7) [plain_view 2] [plain_view 9]]
      (reconciler_init \<lparr>pc_movement_tuning = default_tuning, pc_max_pending_inputs = 0\<rparr>, [])))
   = [pending_at 16666666 [still_frame, still_frame] 1]"
proof -
  let ?inputs = "[still_frame, still_frame]" and ?t = "16666666 :: int"
  let ?server = "server_motion ?t 7 ?inputs (\<lambda>_. [demo_input 2 4]) lone_sim"
  let ?events = "[Frame still_frame, Frame still_frame, Arrival 1 (plain_view 7) [plain_view 2] [plain_view 9]]"
  let ?config = "\<lparr>pc_movement_tuning = default_tuning, pc_max_pending_inputs = 0\<rparr>"
  have start: "movement_state_for lone_sim 7 = Some (fresh_motion 7)"
    and tuning: "ms_tuning lone_sim = sanitize_movement_tuning default_tuning"
    by (simp_all add: lone_sim_def movement_state_for_def movement_ensure_def movement_sim_init_def)
  have server: "?server k = (fresh_motion 7)\<lparr>mot_last_input_seq := word_of_nat k\<rparr>" if "k \<le> 2" for k
    using server_motion_eq [OF _ _ start] rest_motion [OF refl that] by (simp add: tuning)
  have "list_all (\<lambda>k. motion_sendable (?server k)) [0..<Suc (length (frames ?events))]"
    by (simp add: list_all_iff server motion_sendable_def fresh_motion_def fits_zero)
  moreover have "arrivals_ok (pc_max_pending_inputs (sanitize_prediction_config ?config)) 0 0 ?events"
    by (simp add: sanitize_prediction_config_def)
  ultimately have "pr_pending (fst (fold (predict_step text_json ?t 7 ?server) ?events (reconciler_init ?config, []))) =
      map (pending_at ?t ?inputs) [last_ack 0 ?events..<length ?inputs]"
    using prediction_exact [OF text_json_library _ _ start, of ?t ?config ?events "\<lambda>_. [demo_input 2 4]"] tuning
    by (simp add: sanitize_prediction_config_def)
  then show ?thesis by simp
qed

section \<open>The frame time of the client\<close>

text \<open>
  The client makes inputs for steps of \<open>1.0F / 60.0F\<close> seconds, in nanoseconds; the server divides a
  second by its configured rate. At none of the rates of the shipped configurations, 60 per second
  included, do the two steps take the same time, so the hypothesis of \<open>prediction_exact\<close> that both
  sides step by the same time holds for no shipped configuration.
\<close>

definition fixed_dt_seconds :: fp where "fixed_dt_seconds = divF (Fin 1) (Fin 60)"

definition fixed_dt_ns :: int where
  "fixed_dt_ns = (case mulF fixed_dt_seconds (Fin 1000000000) of Fin q \<Rightarrow> trunc_rat q | _ \<Rightarrow> 0)"

lemma fixed_dt_ns_eq: "fixed_dt_ns = 16666668"
  by code_simp

lemma server_interval:
  "tick_rate_hz c \<noteq> 0 \<Longrightarrow> al_tick_interval (auth_loop_init c start) =
     (let interval = c_div 1000000000 (uint (tick_rate_hz c)) in if interval \<le> 0 then 1 else interval)"
  by (simp add: auth_loop_init_def auth_loop_reset_def sanitize_runtime_config_def Let_def)

lemma client_step_differs:
  assumes "tick_rate_hz c \<in> {20, 30, 60}"
  shows "tick_seconds_float fixed_dt_ns \<noteq> tick_seconds_float (al_tick_interval (auth_loop_init c start))"
proof -
  have "tick_seconds_float 16666668 \<noteq> tick_seconds_float 50000000"
    "tick_seconds_float 16666668 \<noteq> tick_seconds_float 33333333"
    "tick_seconds_float 16666668 \<noteq> tick_seconds_float 16666666"
    by code_simp+
  then show ?thesis using assms by (auto simp: server_interval fixed_dt_ns_eq)
qed

end
