(* ===== verification/Server_Packets.thy ===== *)
theory Server_Packets
  imports Protocol Sessions Lifecycle Prediction
begin

text \<open>
  The documents the server sends: the match state (server/MatchStatePayload.h and .cpp), the events and
  packets of a combat tick (server/CombatEvents.h and .cpp), and the inventory, treasure and join
  documents of server/src/main.cpp. Shown: each of these packets conforms to the schema of its type.
\<close>

section \<open>The match state\<close>

definition score_to_json :: "'j json_api \<Rightarrow> match_score \<Rightarrow> 'j" where
  "score_to_json J e = jof_object J
     [(''player_id'', jof_u32 J (sc_player_id e)), (''kills'', jof_u32 J (sc_kills e)),
      (''deaths'', jof_u32 J (sc_deaths e)), (''coins'', jof_int J (sc_coins e)),
      (''respawns_remaining'', jof_u32 J (sc_respawns_remaining e)), (''alive'', jof_bool J (sc_alive e)),
      (''eliminated'', jof_bool J (sc_eliminated e)), (''connected'', jof_bool J (sc_connected e))]"

definition scoreboard_to_json :: "'j json_api \<Rightarrow> match_score list \<Rightarrow> 'j" where
  "scoreboard_to_json J scoreboard = jof_array J (List.map (score_to_json J) scoreboard)"

definition build_match_state_payload :: "'j json_api \<Rightarrow> lifecycle_state \<Rightarrow> match_score list \<Rightarrow> bool \<Rightarrow> 'j" where
  "build_match_state_payload J st scoreboard include_scoreboard = jof_object J
     ([(''state'', jof_string J (match_phase_to_string (st_phase st))),
       (''remaining_seconds'', jof_u32 J (st_remaining_seconds st)),
       (''phase_started_tick'', jof_uint J (st_phase_started_tick st))]
      @ (if include_scoreboard then [(''scoreboard'', scoreboard_to_json J scoreboard)] else [])
      @ (case st_winner st of None \<Rightarrow> [] | Some w \<Rightarrow> [(''winner_player_id'', jof_u32 J w)]))"

definition build_match_state_packet :: "'j json_api \<Rightarrow> lifecycle_state \<Rightarrow> match_score list \<Rightarrow> 'j packet" where
  "build_match_state_packet J st scoreboard =
     \<lparr>pk_type = MatchState, pk_payload = build_match_state_payload J st scoreboard True,
      pk_version = protocol_version\<rparr>"

section \<open>The events of a combat tick\<close>

definition damage_snapshot_event :: "'j json_api \<Rightarrow> damage_resolution \<Rightarrow> 'j" where
  "damage_snapshot_event J d = jof_object J
     [(''type'', jof_string J ''damage_event''), (''tick'', jof_uint J (dmg_tick d)),
      (''attacker_id'', jof_u32 J (dmg_attacker d)), (''victim_id'', jof_u32 J (dmg_victim d)),
      (''shot_seq'', jof_u32 J (dmg_seq d)), (''weapon_id'', jof_string J (dmg_weapon_id d)),
      (''damage'', jof_int J (dmg_damage d)), (''victim_health'', jof_int J (dmg_victim_health d)),
      (''lethal'', jof_bool J (dmg_lethal d))]"

definition death_snapshot_event :: "'j json_api \<Rightarrow> death_resolution \<Rightarrow> 'j" where
  "death_snapshot_event J d = jof_object J
     [(''type'', jof_string J ''death_event''), (''tick'', jof_uint J (death_tick d)),
      (''victim_id'', jof_u32 J (death_victim d)), (''killer_id'', jof_u32 J (death_killer d)),
      (''shot_seq'', jof_u32 J (death_seq d)), (''weapon_id'', jof_string J (death_weapon_id d))]"

definition to_damage_packet :: "'j json_api \<Rightarrow> damage_resolution \<Rightarrow> 'j packet" where
  "to_damage_packet J d = \<lparr>pk_type = DamageEvent, pk_payload = jof_object J
     [(''attacker_id'', jof_u32 J (dmg_attacker d)), (''victim_id'', jof_u32 J (dmg_victim d)),
      (''damage'', jof_int J (dmg_damage d)), (''lethal'', jof_bool J (dmg_lethal d)),
      (''weapon_id'', jof_string J (dmg_weapon_id d)), (''shot_seq'', jof_u32 J (dmg_seq d)),
      (''victim_health'', jof_int J (dmg_victim_health d)), (''tick'', jof_uint J (dmg_tick d))],
      pk_version = protocol_version\<rparr>"

text \<open>The pending snapshot events are an array from the start; the code's guard for another type is dropped.\<close>

definition append_combat_outputs :: "'j json_api \<Rightarrow> combat_result \<Rightarrow> 'j list \<Rightarrow> 'j list \<times> 'j packet list" where
  "append_combat_outputs J r snapshot_events =
     (snapshot_events @ List.map (damage_snapshot_event J) (damage_events r)
        @ List.map (death_snapshot_event J) (death_events r),
      List.map (to_damage_packet J) (damage_events r))"

section \<open>Inventory and treasure\<close>

definition inventory_update_packet :: "'j json_api \<Rightarrow> inventory_summary \<Rightarrow> 'j packet" where
  "inventory_update_packet J s = \<lparr>pk_type = InventoryUpdate, pk_payload = jof_object J
     [(''player_id'', jof_u32 J (sum_player_id s)), (''coins'', jof_int J (sum_total_value s)),
      (''total_weight'', jof_int J (sum_total_weight s)), (''item_count'', jof_u32 J (sum_item_count s)),
      (''last_pickup_seq'', jof_u32 J (sum_last_pickup_seq s))], pk_version = protocol_version\<rparr>"

definition position_to_json :: "'j json_api \<Rightarrow> fp \<Rightarrow> fp \<Rightarrow> 'j" where
  "position_to_json J x y = jof_object J [(''x'', jof_single J x), (''y'', jof_single J y)]"

definition spawn_snapshot_event :: "'j json_api \<Rightarrow> u64 \<Rightarrow> spawn_instance \<Rightarrow> 'j" where
  "spawn_snapshot_event J tick s = jof_object J
     [(''type'', jof_string J ''treasure_spawned''), (''tick'', jof_uint J tick),
      (''spawn_id'', jof_uint J (spn_id s)), (''treasure_id'', jof_string J (spn_treasure_id s)),
      (''value'', jof_int J (spn_value s)), (''weight'', jof_int J (spn_weight s)),
      (''position'', position_to_json J (spn_x s) (spn_y s)),
      (''source'', jof_string J (spawn_source_to_string (spn_source s)))]"

definition pickup_snapshot_event :: "'j json_api \<Rightarrow> u64 \<Rightarrow> pickup_resolution \<Rightarrow> 'j" where
  "pickup_snapshot_event J tick r = jof_object J
     [(''type'', jof_string J ''treasure_pickup''), (''tick'', jof_uint J tick),
      (''player_id'', jof_u32 J (res_player_id r)), (''pickup_seq'', jof_u32 J (res_seq r)),
      (''spawn_id'', jof_uint J (res_spawn_id r)), (''status'', jof_string J (pickup_status_to_string (res_status r))),
      (''treasure_id'', jof_string J (res_treasure_id r)), (''total_value'', jof_int J (res_total_value r)),
      (''total_weight'', jof_int J (res_total_weight r)), (''item_count'', jof_u32 J (res_item_count r))]"

definition spawns_to_json :: "'j json_api \<Rightarrow> spawn_instance list \<Rightarrow> 'j" where
  "spawns_to_json J spawns = jof_array J (List.map (\<lambda>s. jof_object J
     [(''spawn_id'', jof_uint J (spn_id s)), (''treasure_id'', jof_string J (spn_treasure_id s)),
      (''value'', jof_int J (spn_value s)), (''weight'', jof_int J (spn_weight s)),
      (''position'', position_to_json J (spn_x s) (spn_y s)),
      (''source'', jof_string J (spawn_source_to_string (spn_source s))),
      (''spawned_tick'', jof_uint J (spn_tick s))]) spawns)"

definition respawn_event :: "'j json_api \<Rightarrow> u64 \<Rightarrow> u32 \<Rightarrow> 'j" where
  "respawn_event J tick p = jof_object J
     [(''type'', jof_string J ''respawn_event''), (''tick'', jof_uint J tick), (''player_id'', jof_u32 J p)]"

definition match_state_changed_event :: "'j json_api \<Rightarrow> u64 \<Rightarrow> lifecycle_state \<Rightarrow> 'j" where
  "match_state_changed_event J tick st = jof_object J
     ([(''type'', jof_string J ''match_state_changed''), (''tick'', jof_uint J tick),
       (''state'', jof_string J (match_phase_to_string (st_phase st))),
       (''remaining_seconds'', jof_u32 J (st_remaining_seconds st))]
      @ (case st_winner st of None \<Rightarrow> [] | Some w \<Rightarrow> [(''winner_player_id'', jof_u32 J w)]))"

section \<open>The answer to a join\<close>

definition join_error_message :: "join_error \<Rightarrow> string" where
  "join_error_message e = (case e of
     InvalidPlayerName \<Rightarrow> ''Invalid player name.''
   | NameInUse \<Rightarrow> ''Player name is already in use.''
   | ServerFull \<Rightarrow> ''Server is full.''
   | JoinErrorNone \<Rightarrow> ''Join rejected.'')"

definition join_feature_flags :: "string list" where
  "join_feature_flags = [''handshake_v1'', ''heartbeat_v1'', ''movement_snapshot_v1'', ''input_ack_v1'',
     ''world_replication_v1'', ''block_interaction_v1'', ''weapon_fire_v1'', ''damage_pipeline_v1'',
     ''death_event_v1'', ''inventory_loot_v1'', ''match_lifecycle_v1'']"

definition join_common :: "'j json_api \<Rightarrow> string \<Rightarrow> int \<Rightarrow> 'j \<Rightarrow> bool \<Rightarrow> (string \<times> 'j) list" where
  "join_common J message player_limit world_gen accepted =
     [(''message'', jof_string J message), (''max_players'', jof_int J player_limit),
      (''protocol_version'', jof_u32 J protocol_version),
      (''feature_flags'', jof_array J (List.map (jof_string J) join_feature_flags)),
      (''world_gen'', world_gen), (''accepted'', jof_bool J accepted)]"

definition join_accept_packet :: "'j json_api \<Rightarrow> int \<Rightarrow> 'j \<Rightarrow> join_result \<Rightarrow> 'j packet" where
  "join_accept_packet J player_limit world_gen r = \<lparr>pk_type = JoinAccept, pk_payload = jof_object J
     (join_common J ''Welcome to Devy FPS'' player_limit world_gen True @
       [(''player_id'', jof_u32 J (sess_player_id (join_result_session r))),
        (''player_name'', jof_string J (sess_player_name (join_result_session r))),
        (''join_status'', jof_string J (join_status_to_string (join_result_status r)))]),
     pk_version = protocol_version\<rparr>"

definition join_reject_packet :: "'j json_api \<Rightarrow> int \<Rightarrow> 'j \<Rightarrow> join_result \<Rightarrow> 'j packet" where
  "join_reject_packet J player_limit world_gen r = \<lparr>pk_type = JoinAccept, pk_payload = jof_object J
     (join_common J (join_error_message (join_result_error r)) player_limit world_gen False @
       [(''reason'', jof_string J (join_error_to_string (join_result_error r)))]),
     pk_version = protocol_version\<rparr>"

section \<open>The packets conform to the protocol\<close>

context json_library
begin

lemma object_valid:
  assumes "distinct (List.map fst kvs)" and "schema_for t = Some s"
    and "list_all (\<lambda>f. case map_of kvs (fr_name f) of None \<Rightarrow> \<not> fr_required f | Some v \<Rightarrow> matches_type J v (fr_type f)) (ms_fields s)"
  shows "packet_valid J \<lparr>pk_type = t, pk_payload = jof_object J kvs, pk_version = protocol_version\<rparr>"
  using assms by (simp add: packet_valid_def packet_conforms_def field_conforms_def [abs_def] object_get json_types types
    is_supported_version_def min_supported_version_def max_supported_version_def protocol_version_def)

lemma u32_types: "jtype J (jof_u32 J n) = J_Unsigned"
  by (simp add: jof_u32_def types)

lemmas valid_simps = schema_for_def message_schemas_def json_types types u32_types

lemma match_state_valid: "packet_valid J (build_match_state_packet J st scoreboard)"
  unfolding build_match_state_packet_def build_match_state_payload_def
  by (rule object_valid [where s = "\<lparr>ms_type = MatchState, ms_name = ''match_state'', ms_fields = match_state_fields\<rparr>"])
    (simp_all add: valid_simps match_state_fields_def scoreboard_to_json_def split: option.split)

lemma damage_valid: "packet_valid J (to_damage_packet J d)"
  unfolding to_damage_packet_def
  by (rule object_valid [where s = "\<lparr>ms_type = DamageEvent, ms_name = ''damage_event'', ms_fields = damage_event_fields\<rparr>"])
    (simp_all add: valid_simps damage_event_fields_def)

lemma inventory_valid: "packet_valid J (inventory_update_packet J s)"
  unfolding inventory_update_packet_def
  by (rule object_valid [where s = "\<lparr>ms_type = InventoryUpdate, ms_name = ''inventory_update'', ms_fields = inventory_update_fields\<rparr>"])
    (simp_all add: valid_simps inventory_update_fields_def)

lemma join_accept_valid: "packet_valid J (join_accept_packet J player_limit world_gen r)"
  unfolding join_accept_packet_def
  by (rule object_valid [where s = "\<lparr>ms_type = JoinAccept, ms_name = ''join_accept'', ms_fields = join_accept_fields\<rparr>"])
    (simp_all add: valid_simps join_accept_fields_def join_common_def)

lemma join_reject_valid: "packet_valid J (join_reject_packet J player_limit world_gen r)"
  unfolding join_reject_packet_def
  by (rule object_valid [where s = "\<lparr>ms_type = JoinAccept, ms_name = ''join_accept'', ms_fields = join_accept_fields\<rparr>"])
    (simp_all add: valid_simps join_accept_fields_def join_common_def)

end

end
