(* ===== verification/Server.thy ===== *)
theory Server
  imports Server_Packets Chunk_Sync
begin

text \<open>
  The authoritative server, the main loop of server/src/main.cpp: the handling of every message of a
  peer, of disconnects and timeouts, and the tick that runs the simulations in order and sends their
  results. Every component of the server is a member of the state. What holds of it is shown in
  Server_Invariant and Server_Output.
\<close>

section \<open>State\<close>

record server_settings =
  gc_max_players :: int
  gc_valid_block_ids :: "block_id set"
  gc_profile :: generation_profile
  gc_starting_health :: int
  gc_respawns_per_player :: int
  gc_broadcast_on_snapshot :: bool
  gc_include_scoreboard :: bool

record 'j server =
  gs_settings :: server_settings
  gs_peers :: "u64 list"
  gs_sessions :: session_manager
  gs_loop :: auth_loop
  gs_movement :: movement_sim
  gs_combat :: combat_sim
  gs_loot :: loot_sim
  gs_match :: lifecycle_sim
  gs_replication :: replication
  gs_world :: world
  gs_events :: "'j list"

text \<open>What the server does to the network: a packet to a peer, or the peer is disconnected.\<close>

datatype 'j server_output = Send u64 "'j packet" | Kick u64

text \<open>A handler gives the new state, whether the message was dropped or rejected, and its output.\<close>

type_synonym 'j handled = "'j server \<times> bool \<times> 'j server_output list"

section \<open>Messages\<close>

definition heartbeat :: "u64 \<Rightarrow> int \<Rightarrow> 'j server \<Rightarrow> 'j server" where
  "heartbeat token now s = s\<lparr>gs_sessions := snd (handle_heartbeat token now (gs_sessions s))\<rparr>"

definition handle_join :: "'j json_api \<Rightarrow> u64 \<Rightarrow> int \<Rightarrow> 'j \<Rightarrow> 'j server \<Rightarrow> 'j handled" where
  "handle_join J token now payload s =
     (let name = jstring J (at_key J payload ''player_name'');
          world_gen = profile_to_json J (gc_profile (gs_settings s));
          limit = gc_max_players (gs_settings s)
      in case handle_join_request token name now (gs_sessions s) of (r, sm) \<Rightarrow>
        let s1 = s\<lparr>gs_sessions := sm\<rparr> in
        if join_accepted r then
          (let p = sess_player_id (join_result_session r);
               s2 = s1\<lparr>gs_movement := movement_ensure p (gs_movement s1),
                       gs_combat := combat_ensure p (gs_combat s1),
                       gs_loot := loot_ensure p (gs_loot s1),
                       gs_match := lifecycle_ensure p (gs_match s1)\<rparr>
           in (s2, False,
               [Send token (join_accept_packet J limit world_gen r),
                Send token (build_match_state_packet J
                  (build_state (al_tick_interval (gs_loop s2)) (gs_match s2)) (build_scoreboard (gs_match s2)))]))
        else (s1, True, [Send token (join_reject_packet J limit world_gen r), Kick token]))"

definition handle_heartbeat_message :: "'j json_api \<Rightarrow> u64 \<Rightarrow> int \<Rightarrow> 'j \<Rightarrow> session_record \<Rightarrow> 'j server \<Rightarrow> 'j handled" where
  "handle_heartbeat_message J token now payload session s =
     (case json_to_u32 J (at_key J payload ''player_id'') of
        None \<Rightarrow> (s, True, [])
      | Some p \<Rightarrow> if p \<noteq> sess_player_id session then (s, True, []) else (heartbeat token now s, False, []))"

definition handle_player_input :: "'j json_api \<Rightarrow> u64 \<Rightarrow> int \<Rightarrow> 'j \<Rightarrow> session_record \<Rightarrow> 'j server \<Rightarrow> 'j handled" where
  "handle_player_input J token now payload session s =
     (case (json_to_u32 J (at_key J payload ''player_id''), json_to_u32 J (at_key J payload ''input_seq''),
            json_to_float J (at_key J payload ''move_x''), json_to_float J (at_key J payload ''move_y'')) of
        (Some p, Some seq, Some move_x, Some move_y) \<Rightarrow>
          if p \<noteq> sess_player_id session then (s, True, [])
          else (let input = \<lparr>inp_player_id = p, inp_seq = seq, inp_move_x = move_x, inp_move_y = move_y,
                    inp_jump = jbool J (at_key J payload ''jump''), inp_fire = jbool J (at_key J payload ''fire''),
                    inp_received_at = now, inp_sprint = jbool J (at_key J payload ''sprint''),
                    inp_crouch = jbool J (at_key J payload ''crouch'')\<rparr>
            in case enqueue_input input (gs_loop s) of (status, l) \<Rightarrow>
              (heartbeat token now (s\<lparr>gs_loop := l\<rparr>), status \<noteq> InputAccepted, []))
      | _ \<Rightarrow> (s, True, []))"

definition json_to_u8 :: "'j json_api \<Rightarrow> 'j \<Rightarrow> u8 option" where
  "json_to_u8 J v = (case json_to_u32 J v of None \<Rightarrow> None | Some n \<Rightarrow> if 255 < n then None else Some (ucast n))"

definition handle_block_update :: "'j json_api \<Rightarrow> u64 \<Rightarrow> int \<Rightarrow> 'j \<Rightarrow> session_record \<Rightarrow> 'j server \<Rightarrow> 'j handled" where
  "handle_block_update J token now payload session s =
     (let claimed = (if contains J payload ''player_id'' then json_to_u32 J (at_key J payload ''player_id'')
                     else Some (sess_player_id session)) in
      case claimed of
        None \<Rightarrow> (s, True, [])
      | Some p \<Rightarrow>
        (case (json_to_i32 J (at_key J payload ''x''), json_to_i32 J (at_key J payload ''y''),
               json_to_i32 J (at_key J payload ''z''), json_to_u8 J (at_key J payload ''block_id'')) of
          (Some x, Some y, Some z, Some b) \<Rightarrow>
            if p \<noteq> sess_player_id session then (s, True, [])
            else (let cmd = \<lparr>bc_player_id = p, bc_world_x = x, bc_world_y = y, bc_world_z = z, bc_block_id = b\<rparr>;
                      outcome = fst (apply_block_update (gc_valid_block_ids (gs_settings s)) cmd (gs_world s))
              in case server_block_update (gc_valid_block_ids (gs_settings s)) cmd (gs_world s, gs_replication s) of
                (w, r) \<Rightarrow> (heartbeat token now (s\<lparr>gs_world := w, gs_replication := r\<rparr>), bo_status outcome \<noteq> Applied, []))
        | _ \<Rightarrow> (s, True, [])))"

definition match_phase_now :: "'j server \<Rightarrow> match_phase" where
  "match_phase_now s = st_phase (build_state (al_tick_interval (gs_loop s)) (gs_match s))"

definition read_pair :: "'j json_api \<Rightarrow> 'j \<Rightarrow> fp option \<times> fp option" where
  "read_pair J v =
     (if is_object J v then (json_to_float J (at_key J v ''x''), json_to_float J (at_key J v ''y'')) else (None, None))"

definition handle_weapon_fire :: "'j json_api \<Rightarrow> u64 \<Rightarrow> int \<Rightarrow> 'j \<Rightarrow> session_record \<Rightarrow> 'j server \<Rightarrow> 'j handled" where
  "handle_weapon_fire J token now payload session s =
     (if match_phase_now s \<noteq> InMatch then (heartbeat token now s, True, [])
      else case (json_to_u32 J (at_key J payload ''player_id''), json_to_u32 J (at_key J payload ''shot_seq''),
                 read_pair J (at_key J payload ''origin''), read_pair J (at_key J payload ''direction'')) of
        (Some p, Some seq, (Some ox, Some oy), (Some dx, Some dy)) \<Rightarrow>
          if \<not> is_string J (at_key J payload ''weapon_id'') then (s, True, [])
          else if p \<noteq> sess_player_id session then (s, True, [])
          else (let fire = \<lparr>fire_attacker = p, fire_seq = seq, fire_weapon_id = jstring J (at_key J payload ''weapon_id''),
                    fire_origin_x = ox, fire_origin_y = oy, fire_direction_x = dx, fire_direction_y = dy,
                    fire_received_at = now\<rparr>
            in case enqueue_fire fire (gs_combat s) of (status, c) \<Rightarrow>
              (heartbeat token now (s\<lparr>gs_combat := c\<rparr>), status \<noteq> FireAccepted, []))
      | _ \<Rightarrow> (s, True, []))"

definition json_to_u64 :: "'j json_api \<Rightarrow> 'j \<Rightarrow> u64 option" where
  "json_to_u64 J v =
     (if is_number_unsigned J v then Some (ju64 J v)
      else if is_number_integer J v then
        (let raw = ji64 J v in if raw < 0 then None else Some (word_of_int raw))
      else None)"

definition handle_treasure_pickup :: "'j json_api \<Rightarrow> u64 \<Rightarrow> int \<Rightarrow> 'j \<Rightarrow> session_record \<Rightarrow> 'j server \<Rightarrow> 'j handled" where
  "handle_treasure_pickup J token now payload session s =
     (if match_phase_now s \<noteq> InMatch then (heartbeat token now s, True, [])
      else case (json_to_u32 J (at_key J payload ''player_id''), json_to_u32 J (at_key J payload ''pickup_seq''),
                 json_to_u64 J (at_key J payload ''spawn_id'')) of
        (Some p, Some seq, Some spawn) \<Rightarrow>
          if p \<noteq> sess_player_id session then (s, True, [])
          else (case enqueue_pickup \<lparr>pick_player_id = p, pick_seq = seq, pick_spawn_id = spawn, pick_received_at = now\<rparr>
                  (gs_loot s) of (status, l) \<Rightarrow>
              (heartbeat token now (s\<lparr>gs_loot := l\<rparr>), status \<noteq> PickupAccepted, []))
      | _ \<Rightarrow> (s, True, []))"

text \<open>A message of a type that needs a session, from a peer that has none, is rejected.\<close>

definition handle_message :: "'j json_api \<Rightarrow> u64 \<Rightarrow> int \<Rightarrow> 'j packet \<Rightarrow> 'j server \<Rightarrow> 'j handled" where
  "handle_message J token now pkt s =
     (let payload = pk_payload pkt;
          in_session = (\<lambda>handler. case session_for_peer (gs_sessions s) token of
            None \<Rightarrow> (s, True, []) | Some session \<Rightarrow> handler J token now payload session s)
      in case pk_type pkt of
        JoinRequest \<Rightarrow> handle_join J token now payload s
      | Heartbeat \<Rightarrow> in_session handle_heartbeat_message
      | PlayerInput \<Rightarrow> in_session handle_player_input
      | BlockUpdate \<Rightarrow> in_session handle_block_update
      | WeaponFire \<Rightarrow> in_session handle_weapon_fire
      | TreasurePickup \<Rightarrow> in_session handle_treasure_pickup
      | _ \<Rightarrow> (case handle_heartbeat token now (gs_sessions s) of (known, sm) \<Rightarrow>
          (s\<lparr>gs_sessions := sm\<rparr>, \<not> known, [])))"

definition receive :: "'j json_api \<Rightarrow> u64 \<Rightarrow> int \<Rightarrow> string \<Rightarrow> 'j server \<Rightarrow> 'j handled" where
  "receive J token now data s =
     (let parsed = try_deserialize J data in
      if pr_error parsed \<noteq> No_Error then (s, True, [])
      else handle_message J token now (pr_packet parsed) s)"

section \<open>Connections\<close>

definition peer_connected :: "u64 \<Rightarrow> 'j server \<Rightarrow> 'j server" where
  "peer_connected token s = s\<lparr>gs_peers := List.insert token (gs_peers s)\<rparr>"

definition remove_player :: "u32 \<Rightarrow> 'j server \<Rightarrow> 'j server" where
  "remove_player p s = s\<lparr>gs_loop := clear_player p (gs_loop s),
     gs_movement := movement_remove p (gs_movement s),
     gs_replication := replication_remove_player p (gs_replication s),
     gs_combat := combat_remove p (gs_combat s),
     gs_loot := loot_remove p (gs_loot s),
     gs_match := lifecycle_remove p (gs_match s)\<rparr>"

definition peer_disconnected :: "u64 \<Rightarrow> 'j server \<Rightarrow> 'j server" where
  "peer_disconnected token s =
     (case handle_disconnect token (gs_sessions s) of (session, sm) \<Rightarrow>
       let s1 = s\<lparr>gs_peers := removeAll token (gs_peers s), gs_sessions := sm\<rparr> in
       case session of None \<Rightarrow> s1 | Some r \<Rightarrow> remove_player (sess_player_id r) s1)"

definition expel :: "session_record \<Rightarrow> 'j server \<times> 'j server_output list \<Rightarrow> 'j server \<times> 'j server_output list" where
  "expel r = (\<lambda>(s, out).
     let s1 = remove_player (sess_player_id r) s; token = sess_peer_token r in
     if token \<in> set (gs_peers s1) then (s1\<lparr>gs_peers := removeAll token (gs_peers s1)\<rparr>, out @ [Kick token])
     else (s1, out))"

definition expire_sessions :: "int \<Rightarrow> 'j server \<Rightarrow> 'j server \<times> 'j server_output list" where
  "expire_sessions now s =
     (case collect_timed_out now (gs_sessions s) of (gone, sm) \<Rightarrow>
       fold expel gone (s\<lparr>gs_sessions := sm\<rparr>, []))"

section \<open>A tick\<close>

definition send_to :: "'j server \<Rightarrow> 'j packet \<Rightarrow> session_record \<Rightarrow> 'j server_output list" where
  "send_to s pkt session = (if sess_peer_token session \<in> set (gs_peers s) then [Send (sess_peer_token session) pkt] else [])"

text \<open>An inventory update goes to the last listed session of the player whose peer is connected.\<close>

definition send_inventory :: "'j json_api \<Rightarrow> 'j server \<Rightarrow> session_record list \<Rightarrow> inventory_summary \<Rightarrow> 'j server_output list" where
  "send_inventory J s sessions summary =
     (case List.find (\<lambda>r. sess_player_id r = sum_player_id summary \<and> sess_peer_token r \<in> set (gs_peers s)) (rev sessions) of
        None \<Rightarrow> []
      | Some r \<Rightarrow> [Send (sess_peer_token r) (inventory_update_packet J summary)])"

text \<open>Where the views of a snapshot are stored: the last session of each player id up to the limit.\<close>

definition view_index :: "int \<Rightarrow> session_record list \<Rightarrow> u32 \<Rightarrow> nat option" where
  "view_index limit sessions p =
     (if nat limit + 1 \<le> unat p then None
      else List.find (\<lambda>i. sess_player_id (sessions ! i) = p) (rev [0..<length sessions]))"

definition update_view :: "int \<Rightarrow> session_record list \<Rightarrow> u32 \<Rightarrow> (snapshot_player_view \<Rightarrow> snapshot_player_view) \<Rightarrow>
    snapshot_player_view list \<Rightarrow> snapshot_player_view list" where
  "update_view limit sessions p f views =
     (case view_index limit sessions p of None \<Rightarrow> views | Some i \<Rightarrow> views[i := f (views ! i)])"

definition fresh_view :: "server_settings \<Rightarrow> session_record \<Rightarrow> snapshot_player_view" where
  "fresh_view c session = \<lparr>sv_motion = fresh_motion (sess_player_id session), sv_player_name = sess_player_name session,
     sv_health = gc_starting_health c, sv_alive = True, sv_last_shot_seq = 0, sv_coins = 0, sv_inventory_weight = 0,
     sv_inventory_items = 0, sv_last_pickup_seq = 0, sv_respawns_remaining = word_of_int (gc_respawns_per_player c),
     sv_eliminated = False\<rparr>"

definition snapshot_views :: "server_settings \<Rightarrow> session_record list \<Rightarrow> motion_state list \<Rightarrow> combat_player list \<Rightarrow>
    inventory_summary list \<Rightarrow> match_score list \<Rightarrow> snapshot_player_view list" where
  "snapshot_views c sessions movement combat inventory scoreboard =
     (let update = update_view (gc_max_players c) sessions;
          views = List.map (fresh_view c) sessions;
          views = fold (\<lambda>m. update (mot_player_id m) (\<lambda>v. v\<lparr>sv_motion := m\<rparr>)) movement views;
          views = fold (\<lambda>p. update (pc_player_id p) (\<lambda>v. v\<lparr>sv_health := pc_health p, sv_alive := pc_alive p,
            sv_last_shot_seq := pc_last_shot_seq p\<rparr>)) combat views;
          views = fold (\<lambda>i. update (sum_player_id i) (\<lambda>v. v\<lparr>sv_coins := sum_total_value i,
            sv_inventory_weight := sum_total_weight i, sv_inventory_items := sum_item_count i,
            sv_last_pickup_seq := sum_last_pickup_seq i\<rparr>)) inventory views
      in fold (\<lambda>e. update (sc_player_id e) (\<lambda>v. v\<lparr>sv_respawns_remaining := sc_respawns_remaining e,
            sv_eliminated := sc_eliminated e\<rparr>)) scoreboard views)"

text \<open>One player's snapshot: the chunks of its surroundings (the planar \<open>y\<close> is the world's \<open>z\<close>).\<close>

definition send_snapshot :: "'j json_api \<Rightarrow> 'j snapshot_parts \<Rightarrow> session_record \<times> snapshot_player_view \<Rightarrow>
    'j server \<times> 'j server_output list \<Rightarrow> 'j server \<times> 'j server_output list" where
  "send_snapshot J parts = (\<lambda>(session, view) (s, out).
     if sess_peer_token session \<notin> set (gs_peers s) then (s, out)
     else (case build_player_update (sess_player_id session) (mot_position_x (sv_motion view))
              (mot_position_y (sv_motion view)) (gs_world s) (gs_replication s) of
        (update, r) \<Rightarrow> (s\<lparr>gs_replication := r\<rparr>,
          out @ [Send (sess_peer_token session) \<lparr>pk_type = StateSnapshot,
            pk_payload = snapshot_payload J parts update, pk_version = protocol_version\<rparr>])))"

text \<open>The simulations of a tick, in their order, and what they report.\<close>

record tick_report =
  tr_movement :: "motion_state list"
  tr_combat_result :: combat_result
  tr_loot_result :: loot_result
  tr_inventory :: "inventory_summary list"
  tr_match_result :: lifecycle_result

definition simulate_tick :: "tick_frame \<Rightarrow> 'j server \<Rightarrow> tick_report \<times> 'j server" where
  "simulate_tick frame s =
     (let tick = frame_tick frame; interval = al_tick_interval (gs_loop s);
          mv = apply_inputs interval (frame_inputs frame) (gs_movement s);
          movement = movement_snapshot mv;
          (combat_result, cb) = combat_resolve_tick tick interval (set_player_positions movement (gs_combat s));
          combat = combat_snapshot cb; deaths = death_events combat_result;
          (loot_result, lt) = loot_resolve_tick tick movement combat deaths (gs_loot s);
          inventory = inventory_snapshot lt;
          active = List.map sess_player_id (active_sessions (gs_sessions s));
          (match_result, mt) = lifecycle_resolve_tick tick interval active combat deaths inventory (gs_match s);
          cb = fold combat_respawn (lr_respawned match_result) cb
      in (\<lparr>tr_movement = movement, tr_combat_result = combat_result, tr_loot_result = loot_result,
           tr_inventory = inventory, tr_match_result = match_result\<rparr>,
          s\<lparr>gs_movement := mv, gs_combat := cb, gs_loot := lt, gs_match := mt\<rparr>))"

definition tick_events :: "'j json_api \<Rightarrow> u64 \<Rightarrow> tick_report \<Rightarrow> 'j list \<Rightarrow> 'j list" where
  "tick_events J tick r events =
     (let m = tr_match_result r;
          events = events @ List.map (respawn_event J tick) (lr_respawned m);
          events = (if lr_state_changed m then events @ [match_state_changed_event J tick (lr_state m)] else events);
          events = fst (append_combat_outputs J (tr_combat_result r) events);
          events = events @ List.map (spawn_snapshot_event J tick) (spawned (tr_loot_result r))
      in events @ List.map (pickup_snapshot_event J tick) (pickup_results (tr_loot_result r)))"

definition tick_packets :: "'j json_api \<Rightarrow> bool \<Rightarrow> tick_report \<Rightarrow> 'j server \<Rightarrow> 'j server_output list" where
  "tick_packets J snapshot_due r s =
     (let sessions = active_sessions (gs_sessions s); m = tr_match_result r;
          broadcast = (\<lambda>pkt. concat (List.map (send_to s pkt) sessions))
      in concat (List.map broadcast (snd (append_combat_outputs J (tr_combat_result r) [])))
         @ concat (List.map (send_inventory J s sessions) (inventory_deltas (tr_loot_result r)))
         @ (if lr_state_changed m \<or> (snapshot_due \<and> gc_broadcast_on_snapshot (gs_settings s))
            then broadcast (build_match_state_packet J (lr_state m) (lr_scoreboard m)) else []))"

definition tick_snapshots :: "'j json_api \<Rightarrow> u64 \<Rightarrow> tick_report \<Rightarrow> 'j server \<Rightarrow> 'j server \<times> 'j server_output list" where
  "tick_snapshots J tick r s =
     (let sessions = active_sessions (gs_sessions s); c = gs_settings s; m = tr_match_result r;
          views = snapshot_views c sessions (tr_movement r) (combat_snapshot (gs_combat s)) (tr_inventory r) (lr_scoreboard m);
          parts = \<lparr>sp_tick = tick, sp_players = snapshot_players_to_json J views, sp_events = jof_array J (gs_events s),
            sp_treasure_spawns = spawns_to_json J (active_spawn_list (gs_loot s)),
            sp_match_state = build_match_state_payload J (lr_state m) (lr_scoreboard m) (gc_include_scoreboard c)\<rparr>;
          (s', out) = fold (send_snapshot J parts) (zip sessions views) (s, [])
      in (s'\<lparr>gs_events := []\<rparr>, out))"

definition server_tick :: "'j json_api \<Rightarrow> tick_frame \<Rightarrow> 'j server \<times> 'j server_output list \<Rightarrow> 'j server \<times> 'j server_output list" where
  "server_tick J frame = (\<lambda>(s, out).
     case simulate_tick frame s of (r, s1) \<Rightarrow>
       let s2 = s1\<lparr>gs_events := tick_events J (frame_tick frame) r (gs_events s1)\<rparr>;
           out = out @ tick_packets J (frame_snapshot_due frame) r s2
       in if \<not> frame_snapshot_due frame then (s2, out)
          else (case tick_snapshots J (frame_tick frame) r s2 of (s3, snapshots) \<Rightarrow> (s3, out @ snapshots)))"

text \<open>One round of the main loop after the network events: timeouts, then the ticks that are due.\<close>

definition server_round :: "'j json_api \<Rightarrow> int \<Rightarrow> int \<Rightarrow> 'j server \<Rightarrow> ('j server \<times> 'j server_output list) option" where
  "server_round J timeout_now tick_now s =
     (case expire_sessions timeout_now s of (s1, out) \<Rightarrow>
        (case advance tick_now (gs_loop s1) of None \<Rightarrow> None
         | Some (ticks, l) \<Rightarrow> Some (fold (server_tick J) ticks (s1\<lparr>gs_loop := l\<rparr>, out))))"

section \<open>The server as a state machine\<close>

text \<open>A token is the address of a peer, so it is never null.\<close>

inductive server_step :: "'j json_api \<Rightarrow> 'j server \<Rightarrow> 'j server \<Rightarrow> bool" for J where
  connect: "server_step J s (peer_connected token s)"
| message: "token \<noteq> 0 \<Longrightarrow> receive J token now data s = (s', rejected, out) \<Longrightarrow> server_step J s s'"
| disconnect: "server_step J s (peer_disconnected token s)"
| "round": "server_round J timeout_now tick_now s = Some (s', out) \<Longrightarrow> server_step J s s'"

text \<open>The server as constructed from its settings and components' configurations.\<close>

record server_config =
  vc_settings :: server_settings
  vc_session :: session_config
  vc_runtime :: runtime_config
  vc_tuning :: movement_tuning
  vc_weapons :: "weapon_definition list"
  vc_combat :: combat_config
  vc_treasures :: "treasure_definition list"
  vc_loot :: loot_config
  vc_match :: lifecycle_config
  vc_replication :: replication_config
  vc_chunks_x :: int
  vc_chunks_z :: int
  vc_world_height :: int

definition server_init :: "server_config \<Rightarrow> int \<Rightarrow> 'j server" where
  "server_init c start = \<lparr>gs_settings = vc_settings c, gs_peers = [],
     gs_sessions = session_manager_init (vc_session c), gs_loop = auth_loop_init (vc_runtime c) start,
     gs_movement = movement_sim_init (vc_tuning c), gs_combat = combat_init (vc_weapons c) (vc_combat c),
     gs_loot = loot_init (vc_treasures c) (vc_loot c), gs_match = lifecycle_init (vc_match c),
     gs_replication = replication_init (vc_replication c),
     gs_world = fst (generate (vc_chunks_x c) (vc_chunks_z c) (vc_world_height c) (gc_profile (vc_settings c)) new_world),
     gs_events = []\<rparr>"

definition server_reachable :: "'j json_api \<Rightarrow> server_config \<Rightarrow> int \<Rightarrow> 'j server \<Rightarrow> bool" where
  "server_reachable J c start s \<longleftrightarrow> (server_step J)\<^sup>*\<^sup>* (server_init c start) s"

end
