(* ===== verification/Server_Players.thy ===== *)
theory Server_Players
  imports Server
begin

text \<open>
  Which players each component of the server is about: what every operation of the movement, combat,
  loot and match simulations and of the queues does to the set of player ids it holds. The invariant of
  the server (Server_Invariant) puts these together.
\<close>

section \<open>Domains of the player tables\<close>

abbreviation listed :: "('k, 'v) umap \<Rightarrow> 'k set" where
  "listed m \<equiv> dom (umap_find m)"

lemma listed_put [simp]: "listed (umap_put k v m) = insert k (listed m)"
  by (auto simp: dom_def umap_simps)

lemma listed_erase [simp]: "listed (umap_erase k m) = listed m - {k}"
  by (auto simp: dom_def umap_simps)

lemma listed_update_all [simp]: "listed (umap_update_all f m) = listed m"
  by (auto simp: dom_def umap_simps)

lemma listedI: "umap_find m k = Some v \<Longrightarrow> k \<in> listed m"
  by auto

lemma fold_inv: "P s \<Longrightarrow> list_all Q xs \<Longrightarrow> (\<And>x s. Q x \<Longrightarrow> P s \<Longrightarrow> P (f x s)) \<Longrightarrow> P (fold f xs s)"
  by (induction xs arbitrary: s) auto

lemma fold_insert: "(\<And>x s. D (f x s) = insert (g x) (D s)) \<Longrightarrow> D (fold f xs s) = D s \<union> g ` set xs"
  by (induction xs arbitrary: s) auto

context player_listing begin

lemma listing_listed: "reg_ok s \<Longrightarrow> view_id ` set (listing s) = dom (umap_find (players s))"
proof -
  assume ok: "reg_ok s"
  have "view_id ` set (listing s) = set (map view_id (map (view s \<circ> snd) (players s)))"
    by (simp only: listing_eq set_std_sort set_map)
  also have "\<dots> = dom (umap_find (players s))" unfolding listing_ids [OF ok] by (simp add: dom_map_of_conv_image_fst)
  finally show ?thesis .
qed

end

section \<open>Movement\<close>

lemma listed_movement_ensure [simp]: "listed (ms_states (movement_ensure p s)) = insert p (listed (ms_states s))"
  by (auto simp: movement_ensure_def split: option.split)

lemma listed_apply_inputs:
  assumes "inp_player_id ` set inputs \<subseteq> listed (ms_states s)"
  shows "listed (ms_states (apply_inputs t inputs s)) = listed (ms_states s)"
proof -
  have "listed (ms_states (fold (\<lambda>i. movement_ensure (inp_player_id i)) inputs s)) =
      listed (ms_states s) \<union> inp_player_id ` set inputs"
    by (rule fold_insert) simp
  with assms show ?thesis by (auto simp: apply_inputs_def Let_def)
qed

section \<open>Combat\<close>

lemma listed_combat_ensure [simp]: "listed (cs_players (combat_ensure p s)) = insert p (listed (cs_players s))"
  by (auto simp: combat_ensure_def split: option.split)

lemma listed_positions:
  "listed (cs_players (set_player_positions ms s)) = listed (cs_players s) \<union> mot_player_id ` set ms"
  unfolding set_player_positions_def
  by (rule fold_insert [where D = "\<lambda>s. listed (cs_players s)"]) (simp add: set_player_position_def Let_def)

lemma listed_respawn [simp]: "listed (cs_players (combat_respawn p s)) = insert p (listed (cs_players s))"
  using listed_combat_ensure [of p s]
  by (auto simp: combat_respawn_def Let_def simp del: listed_combat_ensure split: option.split)

lemma listed_fire: "listed (cs_players (snd (enqueue_fire f s))) \<subseteq> insert (fire_attacker f) (listed (cs_players s))"
  by (auto simp: enqueue_fire_def Let_def simp del: domIff)

text \<open>Everybody who attacks, is hit or dies is one of the players \<open>D\<close>.\<close>

definition duels_within :: "u32 set \<Rightarrow> combat_result \<times> combat_sim \<Rightarrow> bool" where
  "duels_within D st \<longleftrightarrow> listed (cs_players (snd st)) = D
     \<and> list_all (\<lambda>h. ph_attacker h \<in> D) (cs_pending (snd st))
     \<and> list_all (\<lambda>k. death_victim k \<in> D \<and> death_killer k \<in> D) (death_events (fst st))"

lemma damage_within:
  assumes "duels_within D st" and "ph_attacker hit \<in> D"
  shows "duels_within D (apply_damage tick hit st)"
proof (cases "umap_find (cs_players (snd st)) (ph_victim hit)")
  case None
  with assms show ?thesis by (simp add: apply_damage_def case_prod_beta)
next
  case (Some v)
  then have "ph_victim hit \<in> D" using assms(1) by (auto simp: duels_within_def)
  with assms Some show ?thesis
    by (auto simp: apply_damage_def case_prod_beta Let_def duels_within_def)
qed

lemma fire_within:
  assumes "duels_within D st"
  shows "duels_within D (resolve_fire tick dt fire st)"
proof -
  obtain f weapon out s where eq: "fire = (f, weapon)" "st = (out, s)" by (cases fire; cases st)
  show ?thesis
  proof (cases "\<exists>a w. umap_find (cs_players s) (fire_attacker f) = Some a \<and> pc_alive a \<and> weapon = Some w
      \<and> \<not> tick < next_allowed_tick s (fire_attacker f)")
    case False
    then have "resolve_fire tick dt fire st = st"
      by (auto simp: resolve_fire_def eq split: option.split)
    then show ?thesis using assms by simp
  next
    case True
    then obtain a w where a: "umap_find (cs_players s) (fire_attacker f) = Some a" "pc_alive a" "weapon = Some w"
      "\<not> tick < next_allowed_tick s (fire_attacker f)" by blast
    define s2 where "s2 = s\<lparr>cs_next_fire := umap_put (fire_attacker f)
        (tick + cooldown_ticks (wr_rate_of_fire w) dt) (cs_next_fire s),
      cs_players := umap_put (fire_attacker f)
        (a\<lparr>pc_last_shot_seq := max (pc_last_shot_seq a) (fire_seq f)\<rparr>) (cs_players s)\<rparr>"
    have D: "fire_attacker f \<in> D" using a(1) assms by (auto simp: duels_within_def eq)
    then have s2: "duels_within D (out, s2)"
      using assms by (auto simp: duels_within_def s2_def eq simp del: domIff)
    let ?hit = "\<lambda>t hit. \<lparr>ph_resolve_tick = t, ph_attacker = fire_attacker f, ph_victim = ray_victim hit,
      ph_seq = fire_seq f, ph_weapon_id = wr_id w, ph_damage = wr_damage w\<rparr>"
    have step: "resolve_fire tick dt fire st = (case raycast_victim s2 f weapon of
        None \<Rightarrow> (out, s2)
      | Some hit \<Rightarrow> (case wr_class w of
            Hitscan \<Rightarrow> apply_damage tick (?hit tick hit) (out, s2)
          | Projectile \<Rightarrow> (out, s2\<lparr>cs_pending := cs_pending s2 @
              [?hit (tick + travel_delay_ticks (ray_distance hit) (wr_projectile_speed w) dt) hit]\<rparr>)))"
      using a by (cases "raycast_victim s2 f weapon"; cases "wr_class w")
        (simp_all add: resolve_fire_def eq s2_def Let_def)
    have "duels_within D (out, s2\<lparr>cs_pending := cs_pending s2 @ [?hit t hit]\<rparr>)" for t hit
      using s2 D by (simp add: duels_within_def)
    moreover have "duels_within D (apply_damage tick (?hit t hit) (out, s2))" for t hit
      using damage_within [OF s2] D by simp
    ultimately show ?thesis using s2 unfolding step
      by (cases "raycast_victim s2 f weapon"; cases "wr_class w") simp_all
  qed
qed

lemma combat_tick_within:
  assumes "listed (cs_players s) = D" and "list_all (\<lambda>h. ph_attacker h \<in> D) (cs_pending s)"
  shows "duels_within D (combat_resolve_tick tick dt s)"
proof -
  let ?none = "\<lparr>damage_events = [], death_events = []\<rparr>"
  define due where "due = std_sort pending_less (filter (\<lambda>h. ph_resolve_tick h \<le> tick) (cs_pending s))"
  define rest where "rest = filter (\<lambda>h. \<not> ph_resolve_tick h \<le> tick) (cs_pending s)"
  define st where "st = fold (apply_damage tick) due (?none, s\<lparr>cs_pending := rest\<rparr>)"
  have "duels_within D (?none, s\<lparr>cs_pending := rest\<rparr>)"
    using assms by (auto simp: duels_within_def list_all_iff rest_def)
  then have st: "duels_within D st"
    unfolding st_def
    by (rule fold_inv [where Q = "\<lambda>h. ph_attacker h \<in> D"]) (use assms(2) damage_within in \<open>auto simp: list_all_iff due_def\<close>)
  define drained where "drained = drain_fire_commands (snd st)"
  have "duels_within D (fst st, snd drained)"
    using st by (auto simp: drained_def drain_fire_commands_def duels_within_def case_prod_beta)
  then have "duels_within D (fold (resolve_fire tick dt) (fst drained) (fst st, snd drained))"
    by (rule fold_inv [where Q = "\<lambda>_. True"]) (simp_all add: fire_within list_all_iff)
  then show ?thesis
    by (simp add: combat_resolve_tick_def resolve_projectiles_def Let_def case_prod_beta drained_def st_def due_def rest_def)
qed

section \<open>Queues\<close>

text \<open>Every queued command belongs to the player it is queued for, and that player is one of \<open>D\<close>.\<close>

definition owned :: "('c \<Rightarrow> u32) \<Rightarrow> u32 set \<Rightarrow> 'c queues \<Rightarrow> bool" where
  "owned owner D q \<longleftrightarrow> umap_ok q \<and> (\<forall>p. \<forall>c \<in> set (queue_for q p). owner c = p \<and> p \<in> D)"

lemma owned_mono: "owned owner D q \<Longrightarrow> D \<subseteq> D' \<Longrightarrow> owned owner D' q"
  by (auto simp: owned_def)

lemma owned_put:
  assumes "owned owner D q" and "\<And>c. c \<in> set cs \<Longrightarrow> owner c = p \<and> p \<in> D"
  shows "owned owner D (umap_put p cs q)"
  using assms by (auto simp: owned_def queue_for_put)

lemma owned_erase: "owned owner D q \<Longrightarrow> owned owner (D - {p}) (umap_erase p q)"
  by (auto simp: owned_def queue_for_erase split: if_split_asm)

lemma owned_drain:
  assumes "owned owner D q"
  shows "owned owner D (snd (drain_by_player q))" and "owner ` set (fst (drain_by_player q)) \<subseteq> D"
proof -
  have ok: "umap_ok q" using assms by (simp add: owned_def)
  show "owned owner D (snd (drain_by_player q))"
    using ok by (simp add: owned_def drain_by_player_rest drain_by_player_ok)
  show "owner ` set (fst (drain_by_player q)) \<subseteq> D"
    using assms unfolding drain_by_player_out [OF ok] by (auto simp: owned_def)
qed

lemma owned_inputs:
  assumes "owned inp_player_id D (al_queues l)" and "inp_player_id i \<in> D"
  shows "owned inp_player_id D (al_queues (snd (enqueue_input i l)))"
proof -
  obtain st l' where e: "enqueue_input i l = (st, l')" by fastforce
  then have "owned inp_player_id D (al_queues l')"
  proof (cases rule: enqueue_input_cases)
    case accepted
    have "owned inp_player_id D (umap_put (inp_player_id i) (queue_for (al_queues l) (inp_player_id i) @ [i]) (al_queues l))"
      by (rule owned_put [OF assms(1)]) (use assms in \<open>auto simp: owned_def\<close>)
    with accepted show ?thesis by simp
  qed (use assms in simp)
  with e show ?thesis by simp
qed

lemma owned_fires:
  assumes "owned fire_attacker D (cs_queues s)" and "fire_attacker f \<in> D"
  shows "owned fire_attacker D (cs_queues (snd (enqueue_fire f s)))"
proof -
  obtain st s' where e: "enqueue_fire f s = (st, s')" by fastforce
  then have "owned fire_attacker D (cs_queues s')"
  proof (cases rule: enqueue_fire_cases)
    case rejected
    have "owned fire_attacker D (umap_put (fire_attacker f) (queue_for (cs_queues s) (fire_attacker f)) (cs_queues s))"
      by (rule owned_put [OF assms(1)]) (use assms in \<open>auto simp: owned_def\<close>)
    with rejected assms show ?thesis by auto
  next
    case accepted
    then show ?thesis using assms by (auto simp: owned_def)
  qed
  with e show ?thesis by simp
qed

lemma loot_ensure_queues [simp]: "ls_queues (loot_ensure p s) = ls_queues s"
  by (simp add: loot_ensure_def split: option.split)

lemma owned_pickups:
  assumes "owned pick_player_id D (ls_queues s)" and "pick_player_id c \<in> D"
  shows "owned pick_player_id D (ls_queues (snd (enqueue_pickup c s)))"
proof -
  let ?p = "pick_player_id c" and ?q = "queue_for (ls_queues s) (pick_player_id c)"
  have same: "owned pick_player_id D (umap_put ?p ?q (ls_queues s))"
    by (rule owned_put [OF assms(1)]) (use assms in \<open>auto simp: owned_def\<close>)
  have more: "owned pick_player_id D (umap_put ?p (?q @ [c]) (umap_put ?p ?q (ls_queues s)))"
    by (rule owned_put [OF same]) (use assms in \<open>auto simp: owned_def\<close>)
  show ?thesis using assms same more by (auto simp: enqueue_pickup_def Let_def split: option.split)
qed

lemma owned_clear: "owned inp_player_id D (al_queues l) \<Longrightarrow> owned inp_player_id (D - {p}) (al_queues (clear_player p l))"
proof -
  assume own: "owned inp_player_id D (al_queues l)"
  have "owned inp_player_id (D - {p}) (al_queues l)" if "umap_find (al_queues l) p = None"
  proof -
    have "queue_for (al_queues l) p = []" using that by (simp add: queue_for_def)
    with own show ?thesis unfolding owned_def by (metis empty_iff insert_Diff_single insert_iff list.set(1) Diff_iff)
  qed
  with owned_erase [OF own, of p] show ?thesis
    by (simp add: clear_player_def Let_def split: option.split)
qed

lemma owned_loot_remove:
  assumes "owned pick_player_id D (ls_queues s)"
  shows "owned pick_player_id (D - {p}) (ls_queues (loot_remove p s))"
proof (cases "umap_find (ls_queues s) p")
  case None
  then have "queue_for (ls_queues s) p = []" by (simp add: queue_for_def)
  with assms have "owned pick_player_id (D - {p}) (ls_queues s)"
    unfolding owned_def by (metis empty_iff insert_Diff_single insert_iff list.set(1) Diff_iff)
  with None show ?thesis by (simp add: loot_remove_def split: option.split)
next
  case (Some q)
  with owned_erase [OF assms, of p] show ?thesis by (simp add: loot_remove_def Let_def split: option.split)
qed

text \<open>The inputs of the frames of an advance.\<close>

lemma advance_owned:
  "loop_inv l \<Longrightarrow> owned inp_player_id D (al_queues l) \<Longrightarrow> advance now l = Some (ticks, l') \<Longrightarrow>
     owned inp_player_id D (al_queues l') \<and> list_all (\<lambda>f. inp_player_id ` set (frame_inputs f) \<subseteq> D) ticks"
proof (induction "due_ticks now l" arbitrary: l ticks)
  case 0
  then have "now < al_next_deadline l" by (simp add: due_ticks_def split: if_split_asm)
  with 0 show ?case by (simp add: advance.simps)
next
  case (Suc n)
  have due: "al_next_deadline l \<le> now" using Suc.hyps by (simp add: due_ticks_def split: if_split_asm)
  have pos: "1 \<le> al_tick_interval l" using Suc.prems by (simp add: loop_inv_def)
  obtain f l1 where t: "run_tick l = (f, l1)" by fastforce
  note fields = run_tick_fields [OF t]
  from Suc.prems(3) due t obtain rest where rest: "advance now l1 = Some (rest, l')" "ticks = f # rest"
    by (subst (asm) advance.simps) (auto simp: bind_eq_Some_conv)
  have "owned inp_player_id D (al_queues l1)" "inp_player_id ` set (frame_inputs f) \<subseteq> D"
    using owned_drain [OF Suc.prems(2)] fields by simp_all
  moreover have "n = due_ticks now l1" using due_ticks_run_tick [OF pos due] Suc.hyps(2) t by simp
  moreover have "loop_inv l1" using loop_inv_run_tick(1) [OF Suc.prems(1)] t by simp
  ultimately show ?case using Suc.hyps(1) [of l1 rest] rest by simp
qed

section \<open>Loot\<close>

lemma listed_loot_ensure [simp]: "listed (ls_players (loot_ensure p s)) = insert p (listed (ls_players s))"
  by (auto simp: loot_ensure_def split: option.split)

lemma listed_loot_remove [simp]: "listed (ls_players (loot_remove p s)) = listed (ls_players s)"
  by (auto simp: loot_remove_def Let_def split: option.split)

lemma listed_enqueue_pickup:
  "listed (ls_players (snd (enqueue_pickup c s))) = insert (pick_player_id c) (listed (ls_players s))"
  using listed_loot_ensure [of "pick_player_id c" s]
  by (auto simp: enqueue_pickup_def Let_def simp del: listed_loot_ensure domIff split: option.split)

lemma listed_update_position: "listed (ls_players (update_position m s)) = insert (mot_player_id m) (listed (ls_players s))"
  using listed_loot_ensure [of "mot_player_id m" s]
  by (auto simp: update_position_def Let_def simp del: listed_loot_ensure domIff split: option.split)

lemma listed_update_alive: "listed (ls_players (update_alive c s)) = insert (pc_player_id c) (listed (ls_players s))"
  using listed_loot_ensure [of "pc_player_id c" s]
  by (auto simp: update_alive_def Let_def simp del: listed_loot_ensure domIff split: option.split)

lemma drop_items_players: "ls_players (snd (drop_items tick x y n is st)) = ls_players (snd st)"
proof (induction tick x y n "is" st rule: drop_items.induct)
  case (2 tick x y n i "is" st)
  then show ?case
    by (cases st) (simp add: create_death_drop_spawn_def activate_spawn_def Let_def)
qed simp

lemma listed_process_death: "listed (ls_players (snd (snd (process_death tick d acc)))) = listed (ls_players (snd (snd acc)))"
proof (cases "umap_find (ls_players (snd (snd acc))) (death_victim d)")
  case None
  then show ?thesis by (simp add: process_death_def case_prod_beta)
next
  case (Some p)
  then have "death_victim d \<in> listed (ls_players (snd (snd acc)))" by blast
  with Some show ?thesis
    using drop_items_players [of tick "lp_x p" "lp_y p" 0 "lp_items p" "snd acc"]
    by (auto simp: process_death_def case_prod_beta simp del: domIff)
qed

lemma listed_process_deaths: "listed (ls_players (snd (snd (process_deaths tick deaths st)))) = listed (ls_players (snd st))"
proof -
  have "listed (ls_players (snd (snd (fold (process_death tick) ds acc)))) = listed (ls_players (snd (snd acc)))" for ds acc
    by (rule fold_unchanged [where g = "\<lambda>acc. listed (ls_players (snd (snd acc)))"]) (rule listed_process_death)
  then show ?thesis by (simp add: process_deaths_def)
qed

lemma listed_process_pickup: "listed (ls_players (snd (snd (process_pickup c acc)))) = listed (ls_players (snd (snd acc)))"
proof (cases "umap_find (ls_players (snd (snd acc))) (pick_player_id c)")
  case None
  then show ?thesis by (simp add: process_pickup_def case_prod_beta)
next
  case (Some p)
  then have "pick_player_id c \<in> listed (ls_players (snd (snd acc)))" by blast
  with Some show ?thesis
    by (auto simp: process_pickup_def case_prod_beta Let_def simp del: domIff split: sum.split)
qed

lemma listed_loot_tick:
  "listed (ls_players (snd (loot_resolve_tick tick ms cs ds s))) =
     listed (ls_players s) \<union> mot_player_id ` set ms \<union> pc_player_id ` set cs"
proof -
  let ?none = "\<lparr>spawned = [], pickup_results = [], inventory_deltas = []\<rparr>"
  define s2 where "s2 = fold update_alive cs (fold update_position ms s)"
  define st3 where "st3 = schedule_spawn tick (?none, s2)"
  define st4 where "st4 = process_deaths tick ds st3"
  define d where "d = drain_pickups (snd (snd st4))"
  define st6 where "st6 = fold process_pickup (fst d) (fst st4, fst (snd st4), snd d)"
  have "listed (ls_players s2) = listed (ls_players s) \<union> mot_player_id ` set ms \<union> pc_player_id ` set cs"
    unfolding s2_def
    by (simp only: fold_insert [where D = "\<lambda>s. listed (ls_players s)", OF listed_update_position]
      fold_insert [where D = "\<lambda>s. listed (ls_players s)", OF listed_update_alive])
  moreover have "ls_players (snd st3) = ls_players s2"
    by (simp add: st3_def schedule_spawn_def create_scheduled_spawn_def activate_spawn_def Let_def case_prod_beta)
  moreover have "listed (ls_players (snd (snd st4))) = listed (ls_players (snd st3))"
    unfolding st4_def by (rule listed_process_deaths)
  moreover have "ls_players (snd d) = ls_players (snd (snd st4))"
    by (simp add: d_def drain_pickups_def case_prod_beta)
  moreover have "listed (ls_players (snd (snd st6))) = listed (ls_players (snd d))"
    unfolding st6_def using fold_unchanged [where f = process_pickup and g = "\<lambda>acc. listed (ls_players (snd (snd acc)))",
      OF listed_process_pickup] by simp
  moreover have "snd (loot_resolve_tick tick ms cs ds s) = snd (snd st6)"
    by (simp add: loot_resolve_tick_def Let_def case_prod_beta st6_def d_def st4_def st3_def s2_def)
  ultimately show ?thesis by simp
qed

lemma pickup_queues: "ls_queues (snd (snd (process_pickup c acc))) = ls_queues (snd (snd acc))"
  by (simp add: process_pickup_def case_prod_beta Let_def split: option.split sum.split)

lemma drop_items_queues: "ls_queues (snd (drop_items tick x y n is st)) = ls_queues (snd st)"
proof (induction tick x y n "is" st rule: drop_items.induct)
  case (2 tick x y n i "is" st)
  then show ?case
    by (cases st) (simp add: create_death_drop_spawn_def activate_spawn_def Let_def)
qed simp

lemma death_queues: "ls_queues (snd (snd (process_death tick d acc))) = ls_queues (snd (snd acc))"
  by (simp add: process_death_def case_prod_beta drop_items_queues split: option.split)

lemma loot_tick_queues: "ls_queues (snd (loot_resolve_tick tick ms cs ds s)) = snd (drain_by_player (ls_queues s))"
proof -
  let ?q = "\<lambda>acc. ls_queues (snd (snd acc))"
  have a: "ls_queues (fold update_position ms s) = ls_queues s" for s
    by (rule fold_unchanged [where g = ls_queues]) (simp add: update_position_def Let_def split: option.split)
  have b: "ls_queues (fold update_alive cs s) = ls_queues s" for s
    by (rule fold_unchanged [where g = ls_queues]) (simp add: update_alive_def Let_def split: option.split)
  have c: "ls_queues (snd (schedule_spawn tick (out, s))) = ls_queues s" for out s
    by (simp add: schedule_spawn_def create_scheduled_spawn_def activate_spawn_def Let_def case_prod_beta)
  have d: "?q (process_deaths tick ds st) = ls_queues (snd st)" for st
    using fold_unchanged [where f = "process_death tick" and g = ?q, OF death_queues]
    by (simp add: process_deaths_def)
  have e: "?q (fold process_pickup ps acc) = ?q acc" for ps acc
    by (rule fold_unchanged [where g = ?q]) (rule pickup_queues)
  show ?thesis
    by (simp add: loot_resolve_tick_def Let_def case_prod_beta drain_pickups_def e [of _ "(_, _, _)", simplified]
      a b c d)
qed

section \<open>The match\<close>

text \<open>The players whose respawn is pending.\<close>

definition awaiting :: "lifecycle_sim \<Rightarrow> u32 set" where
  "awaiting s = {p. \<exists>r. umap_find (lc_players s) p = Some r \<and> lcp_pending r \<noteq> None}"

lemma awaitingI: "umap_find (lc_players s) p = Some r \<Longrightarrow> lcp_pending r = Some due \<Longrightarrow> p \<in> awaiting s"
  by (simp add: awaiting_def)

lemma awaiting_cong: "lc_players s' = lc_players s \<Longrightarrow> awaiting s' = awaiting s"
  by (simp add: awaiting_def)

lemma awaiting_put:
  "awaiting (s\<lparr>lc_players := umap_put p r (lc_players s)\<rparr>) =
     (if lcp_pending r = None then awaiting s - {p} else insert p (awaiting s))"
  by (auto simp: awaiting_def find_put)

lemma awaiting_same:
  assumes "umap_find (lc_players s) p = Some r" and "lcp_pending r' = lcp_pending r"
  shows "awaiting (s\<lparr>lc_players := umap_put p r' (lc_players s)\<rparr>) = awaiting s"
  using assms by (auto simp: awaiting_def find_put)

lemma awaiting_clear: "awaiting (s\<lparr>lc_players := umap_update_all f (lc_players s)\<rparr>) \<subseteq> awaiting s"
  if "\<And>p r. lcp_pending (f p r) = None \<or> lcp_pending (f p r) = lcp_pending r"
proof
  fix q
  assume "q \<in> awaiting (s\<lparr>lc_players := umap_update_all f (lc_players s)\<rparr>)"
  then obtain r where r: "umap_find (lc_players s) q = Some r" "lcp_pending (f q r) \<noteq> None"
    by (auto simp: awaiting_def find_update_all)
  with that [of q r] show "q \<in> awaiting s" by (auto simp: awaiting_def)
qed

lemma awaiting_ensure [simp]: "awaiting (lifecycle_ensure p s) = awaiting s"
  by (auto simp: awaiting_def lifecycle_ensure_def Let_def find_put fresh_record_def split: option.split)

lemma awaiting_fold: "(\<And>x s. awaiting (f x s) \<subseteq> awaiting s) \<Longrightarrow> awaiting (fold f xs s) \<subseteq> awaiting s"
  by (rule fold_preserves [where P = "\<lambda>t. awaiting t \<subseteq> awaiting s"]) auto

lemma awaiting_mark: "awaiting (mark_connected active s) \<subseteq> awaiting s"
proof -
  have "awaiting (fold lifecycle_ensure active s) \<subseteq> awaiting s" by (rule awaiting_fold) simp
  then show ?thesis unfolding mark_connected_def Let_def
    by (intro subset_trans [OF awaiting_clear]) simp_all
qed

lemma awaiting_note_combat: "awaiting (note_combat c s) = awaiting s"
proof -
  let ?s = "lifecycle_ensure (pc_player_id c) s"
  obtain r where r: "umap_find (lc_players ?s) (pc_player_id c) = Some r" using ensure_found by blast
  show ?thesis
    using awaiting_same [OF r, of "r\<lparr>lcp_alive := pc_alive c\<rparr>"] by (simp add: note_combat_def Let_def r)
qed

lemma awaiting_note_inventory: "awaiting (snd (note_inventory i st)) = awaiting (snd st)"
proof -
  let ?s = "lifecycle_ensure (sum_player_id i) (snd st)"
  obtain r where r: "umap_find (lc_players ?s) (sum_player_id i) = Some r" using ensure_found by blast
  show ?thesis
    using awaiting_same [OF r, of "r\<lparr>lcp_coins := sum_total_value i\<rparr>"]
    by (simp add: note_inventory_def Let_def case_prod_beta r)
qed

lemma awaiting_tick_table: "awaiting (snd (tick_table active combat inventory s)) \<subseteq> awaiting s"
proof -
  have "awaiting (snd (fold note_inventory inventory (b, t))) = awaiting t" for b t
    using fold_unchanged [where g = "awaiting \<circ> snd" and f = note_inventory and s = "(b, t)"]
    by (simp add: awaiting_note_inventory)
  moreover have "awaiting (fold note_combat combat t) = awaiting t" for t
    by (rule fold_unchanged) (rule awaiting_note_combat)
  ultimately show ?thesis using awaiting_mark by (simp add: tick_table_def)
qed

lemma awaiting_enter [simp]: "awaiting (enter_in_match tick s) = {}"
  by (auto simp: awaiting_def enter_in_match_def find_update_all)

lemma awaiting_pre_match: "awaiting (snd (snd (pre_match_step tick s))) \<subseteq> awaiting s"
  by (cases rule: pre_match_cases [of s tick]) (simp_all add: awaiting_def [of "s\<lparr>lc_pre_ticks := _\<rparr>"] awaiting_def [of s])

lemma awaiting_timer: "awaiting (snd (timer_step dt started s)) = awaiting s"
  by (rule awaiting_cong) (simp add: timer_step_def case_prod_beta)

lemma awaiting_note_death:
  "awaiting (snd (snd (note_death tick d (handled, changed, s)))) \<subseteq> insert (death_victim d) (awaiting s)"
proof (cases rule: note_death_cases [of d handled tick changed s])
  case skip
  then show ?thesis by auto
next
  case (self v)
  then show ?thesis
    by (auto simp: awaiting_put)
next
  case (killed v s1 k)
  have "awaiting (snd (snd (note_death tick d (handled, changed, s)))) = awaiting s1"
    using killed(6) awaiting_same [OF killed(5), of "k\<lparr>lcp_kills := lcp_kills k + 1\<rparr>"] by simp
  also have "\<dots> \<subseteq> insert (death_victim d) (awaiting s)"
    by (auto simp: killed(3) awaiting_put)
  finally show ?thesis .
qed

lemma awaiting_deaths:
  "awaiting (snd (deaths_step tick deaths st)) \<subseteq> awaiting (snd st) \<union> death_victim ` set deaths"
proof -
  let ?W = "awaiting (snd st) \<union> death_victim ` set deaths"
  have "awaiting (snd (snd (fold (note_death tick) (std_sort death_less deaths) ([], fst st, snd st)))) \<subseteq> ?W"
  proof (rule fold_preserves [where P = "\<lambda>a. awaiting (snd (snd a)) \<subseteq> ?W"])
    show "awaiting (snd (snd (note_death tick d a))) \<subseteq> ?W"
      if "d \<in> set (std_sort death_less deaths)" "awaiting (snd (snd a)) \<subseteq> ?W" for d a
      using awaiting_note_death [of tick d "fst a" "fst (snd a)" "snd (snd a)"] that by auto
  qed simp
  then show ?thesis by (auto simp: deaths_step_def case_prod_beta)
qed

lemma awaiting_respawns:
  assumes "fold (respawn_one tick) ps ([], changed, s) = (respawned, changed', s')"
  shows "set respawned \<subseteq> awaiting s" and "awaiting s' \<subseteq> awaiting s"
proof -
  let ?P = "\<lambda>a. set (fst a) \<subseteq> awaiting s \<and> awaiting (snd (snd a)) \<subseteq> awaiting s"
  have "?P (fold (respawn_one tick) ps ([], changed, s))"
  proof (rule fold_preserves [where P = ?P])
    show "?P (respawn_one tick p a)" if "?P a" for p a
    proof -
      obtain out c t where a: "a = (out, c, t)" by (cases a)
      show ?thesis
        using that unfolding a
        by (cases rule: respawn_one_cases [of tick p out c t])
          (auto simp: awaiting_put dest: awaitingI)
    qed
  qed simp
  with assms show "set respawned \<subseteq> awaiting s" "awaiting s' \<subseteq> awaiting s" by simp_all
qed

lemma awaiting_tick:
  assumes "lifecycle_resolve_tick tick dt active combat deaths inventory s = (out, s')"
  shows "set (lr_respawned out) \<subseteq> awaiting s \<union> death_victim ` set deaths"
    and "awaiting s' \<subseteq> awaiting s \<union> death_victim ` set deaths"
proof -
  obtain changed3 s3 state4 started s4 expired s5 changed6 s6 changed7 state7 s7 state8 where
    p3: "tick_table active combat inventory s = (changed3, s3)" and
    p4: "pre_match_step tick s3 = (state4, started, s4)" and p5: "timer_step dt started s4 = (expired, s5)" and
    p6: "deaths_step tick deaths (changed3, s5) = (changed6, s6)" and
    p7: "in_match_step tick (changed6, s6) = (lr_respawned out, changed7, state7, s7)" and
    p8: "expiry_step tick expired s7 = (state8, s')"
    by (rule lifecycle_tick_parts [OF assms])
  have six: "awaiting s6 \<subseteq> awaiting s \<union> death_victim ` set deaths"
    using awaiting_tick_table [of active combat inventory s] awaiting_pre_match [of tick s3]
      awaiting_timer [of dt started s4] awaiting_deaths [of tick deaths "(changed3, s5)"]
    by (auto simp: p3 p4 p5 p6)
  have seven: "set (lr_respawned out) \<subseteq> awaiting s6 \<and> awaiting s7 \<subseteq> awaiting s6"
  proof (cases "lc_phase s6 = InMatch")
    case True
    obtain respawned changed' s7' where
      f: "fold (respawn_one tick) (sort (umap_keys (lc_players s6))) ([], changed6, s6) = (respawned, changed', s7')"
      by (cases "fold (respawn_one tick) (sort (umap_keys (lc_players s6))) ([], changed6, s6)")
    have "lr_respawned out = respawned \<and> lc_players s7 = lc_players s7'"
      using p7 True f by (auto simp: in_match_step_def enter_post_match_def split: list.split_asm)
    with awaiting_respawns [OF f] show ?thesis by (auto simp: awaiting_def)
  next
    case False
    with p7 show ?thesis by (simp add: in_match_step_def)
  qed
  have "lc_players s' = lc_players s7"
    using p8 by (auto simp: expiry_step_def enter_post_match_def split: if_split_asm)
  then have "awaiting s' = awaiting s7" by (rule awaiting_cong)
  with six seven show "set (lr_respawned out) \<subseteq> awaiting s \<union> death_victim ` set deaths"
    and "awaiting s' \<subseteq> awaiting s \<union> death_victim ` set deaths" by auto
qed

end
