(* ===== verification/Server_Invariant.thy ===== *)
theory Server_Invariant
  imports Server_Players
begin

text \<open>
  The invariant of the authoritative server as a state machine: in every reachable state the tables of
  the movement and the combat simulation list exactly the players with an active session, and every
  queued command belongs to one of them. The loot table keeps everybody who ever joined, and the match
  counts all of these as connected.
\<close>

section \<open>The tables agree with a set of players\<close>

definition tables_ok :: "u32 set \<Rightarrow> 'j server \<Rightarrow> bool" where
  "tables_ok D s \<longleftrightarrow> loop_inv (gs_loop s) \<and> movement_inv (gs_movement s) \<and> combat_inv (gs_combat s)
     \<and> loot_inv (gs_loot s) \<and> lifecycle_inv (gs_match s)
     \<and> listed (ms_states (gs_movement s)) = D \<and> listed (cs_players (gs_combat s)) = D
     \<and> D \<subseteq> listed (ls_players (gs_loot s))
     \<and> owned inp_player_id D (al_queues (gs_loop s)) \<and> owned fire_attacker D (cs_queues (gs_combat s))
     \<and> owned pick_player_id D (ls_queues (gs_loot s))
     \<and> list_all (\<lambda>h. ph_attacker h \<in> D) (cs_pending (gs_combat s)) \<and> awaiting (gs_match s) \<subseteq> D"

lemma tables_okI [intro?]:
  assumes "loop_inv (gs_loop s)" and "movement_inv (gs_movement s)" and "combat_inv (gs_combat s)"
    and "loot_inv (gs_loot s)" and "lifecycle_inv (gs_match s)"
    and "listed (ms_states (gs_movement s)) = D" and "listed (cs_players (gs_combat s)) = D"
    and "D \<subseteq> listed (ls_players (gs_loot s))"
    and "owned inp_player_id D (al_queues (gs_loop s))" and "owned fire_attacker D (cs_queues (gs_combat s))"
    and "owned pick_player_id D (ls_queues (gs_loot s))"
    and "list_all (\<lambda>h. ph_attacker h \<in> D) (cs_pending (gs_combat s))" and "awaiting (gs_match s) \<subseteq> D"
  shows "tables_ok D s"
  using assms unfolding tables_ok_def by blast

lemma tables_okD:
  assumes "tables_ok D s"
  shows "loop_inv (gs_loop s)" and "movement_inv (gs_movement s)" and "combat_inv (gs_combat s)"
    and "loot_inv (gs_loot s)" and "lifecycle_inv (gs_match s)"
    and "listed (ms_states (gs_movement s)) = D" and "listed (cs_players (gs_combat s)) = D"
    and "D \<subseteq> listed (ls_players (gs_loot s))"
    and "owned inp_player_id D (al_queues (gs_loop s))" and "owned fire_attacker D (cs_queues (gs_combat s))"
    and "owned pick_player_id D (ls_queues (gs_loot s))"
    and "list_all (\<lambda>h. ph_attacker h \<in> D) (cs_pending (gs_combat s))" and "awaiting (gs_match s) \<subseteq> D"
  using assms unfolding tables_ok_def by blast+

lemma tables_cong:
  assumes "tables_ok D s" and "gs_loop s' = gs_loop s" and "gs_movement s' = gs_movement s"
    and "gs_combat s' = gs_combat s" and "gs_loot s' = gs_loot s" and "gs_match s' = gs_match s"
  shows "tables_ok D s'"
  using assms unfolding tables_ok_def by simp

lemma tables_other [simp]:
  "tables_ok D (s\<lparr>gs_events := e\<rparr>) = tables_ok D s" "tables_ok D (s\<lparr>gs_sessions := sm\<rparr>) = tables_ok D s"
  "tables_ok D (s\<lparr>gs_peers := ps\<rparr>) = tables_ok D s" "tables_ok D (s\<lparr>gs_replication := rp\<rparr>) = tables_ok D s"
  "tables_ok D (s\<lparr>gs_world := w\<rparr>) = tables_ok D s"
  by (simp_all add: tables_ok_def)

lemma combat_ensure_rest [simp]: "cs_pending (combat_ensure p s) = cs_pending s"
  by (simp add: combat_ensure_def split: option.split)

definition ensure_player :: "u32 \<Rightarrow> 'j server \<Rightarrow> 'j server" where
  "ensure_player p s = s\<lparr>gs_movement := movement_ensure p (gs_movement s), gs_combat := combat_ensure p (gs_combat s),
     gs_loot := loot_ensure p (gs_loot s), gs_match := lifecycle_ensure p (gs_match s)\<rparr>"

lemma tables_join:
  assumes "tables_ok D s"
  shows "tables_ok (insert p D) (ensure_player p s)"
proof
  note d = tables_okD [OF assms]
  have sub: "D \<subseteq> insert p D" by blast
  show "movement_inv (gs_movement (ensure_player p s))"
    using movement_machine.exec_invar [OF d(2), of "MovEnsure p"] by (simp add: ensure_player_def)
  show "combat_inv (gs_combat (ensure_player p s))"
    using combat_machine.exec_invar [OF d(3), of "CombEnsure p"] by (simp add: ensure_player_def)
  show "loot_inv (gs_loot (ensure_player p s))"
    using loot_machine.exec_invar [OF d(4), of "LootEnsure p"] by (simp add: ensure_player_def)
  show "lifecycle_inv (gs_match (ensure_player p s))"
    using match_machine.exec_invar [OF d(5), of "MatchEnsure p"] by (simp add: ensure_player_def)
  show "owned inp_player_id (insert p D) (al_queues (gs_loop (ensure_player p s)))"
    using owned_mono [OF d(9) sub] by (simp add: ensure_player_def)
  show "owned fire_attacker (insert p D) (cs_queues (gs_combat (ensure_player p s)))"
    using owned_mono [OF d(10) sub] by (simp add: ensure_player_def)
  show "owned pick_player_id (insert p D) (ls_queues (gs_loot (ensure_player p s)))"
    using owned_mono [OF d(11) sub] by (simp add: ensure_player_def)
qed (use tables_okD [OF assms] in \<open>auto simp: ensure_player_def list_all_iff simp del: domIff\<close>)

lemma tables_remove:
  assumes "tables_ok D s"
  shows "tables_ok (D - {p}) (remove_player p s)"
proof
  note d = tables_okD [OF assms]
  show "loop_inv (gs_loop (remove_player p s))" by (simp add: remove_player_def loop_inv_clear d)
  show "movement_inv (gs_movement (remove_player p s))"
    using movement_machine.exec_invar [OF d(2), of "MovRemove p"] by (simp add: remove_player_def)
  show "combat_inv (gs_combat (remove_player p s))"
    using combat_machine.exec_invar [OF d(3), of "CombRemove p"] by (simp add: remove_player_def)
  show "loot_inv (gs_loot (remove_player p s))"
    using loot_machine.exec_invar [OF d(4), of "LootRemove p"] by (simp add: remove_player_def)
  show "lifecycle_inv (gs_match (remove_player p s))"
    using match_machine.exec_invar [OF d(5), of "MatchRemove p"] by (simp add: remove_player_def)
  show "listed (ms_states (gs_movement (remove_player p s))) = D - {p}"
    using d(6) by (simp add: remove_player_def movement_remove_def)
  show "listed (cs_players (gs_combat (remove_player p s))) = D - {p}"
    using d(7) by (simp add: remove_player_def combat_remove_def)
  show "D - {p} \<subseteq> listed (ls_players (gs_loot (remove_player p s)))"
    using d(8) by (auto simp: remove_player_def simp del: domIff)
  show "owned inp_player_id (D - {p}) (al_queues (gs_loop (remove_player p s)))"
    using owned_clear [OF d(9)] by (simp add: remove_player_def)
  show "owned fire_attacker (D - {p}) (cs_queues (gs_combat (remove_player p s)))"
    using owned_erase [OF d(10)] by (simp add: remove_player_def combat_remove_def)
  show "owned pick_player_id (D - {p}) (ls_queues (gs_loot (remove_player p s)))"
    using owned_loot_remove [OF d(11)] by (simp add: remove_player_def)
  show "list_all (\<lambda>h. ph_attacker h \<in> D - {p}) (cs_pending (gs_combat (remove_player p s)))"
    using d(12) by (auto simp: remove_player_def combat_remove_def list_all_iff)
  have "awaiting (lifecycle_remove p (gs_match s)) \<subseteq> awaiting (gs_match s) - {p}"
    by (auto simp: lifecycle_remove_def awaiting_put awaiting_def [of "gs_match s"] split: option.split)
  with d(13) show "awaiting (gs_match (remove_player p s)) \<subseteq> D - {p}"
    by (auto simp: remove_player_def)
qed

section \<open>The sessions\<close>

definition session_ids :: "session_manager \<Rightarrow> u32 set" where
  "session_ids sm = {sess_player_id r | r t. session_for_peer sm t = Some r}"

lemma session_idsI: "session_for_peer sm t = Some r \<Longrightarrow> sess_player_id r \<in> session_ids sm"
  by (auto simp: session_ids_def)

lemma session_ids_iff:
  "p \<in> session_ids sm \<longleftrightarrow> (\<exists>t r. umap_find (sessions_by_peer sm) t = Some r \<and> sess_player_id r = p)"
  by (auto simp: session_ids_def session_for_peer_def)

lemma active_session_ids:
  assumes "sessions_inv sm"
  shows "sess_player_id ` set (active_sessions sm) = session_ids sm"
proof -
  have ok: "umap_ok (sessions_by_peer sm)" by (rule sessions_invD(3) [OF assms])
  have "sess_player_id ` set (active_sessions sm) = (\<lambda>p. sess_player_id (snd p)) ` set (sessions_by_peer sm)"
    by (simp add: active_sessions_def image_image case_prod_beta)
  also have "\<dots> = session_ids sm"
    by (force simp: session_ids_def session_for_peer_def in_set_find [OF ok, symmetric])
  finally show ?thesis .
qed

lemma touch_ids:
  assumes "umap_find (sessions_by_peer sm) t = Some r" and "sess_player_id r' = sess_player_id r"
  shows "session_ids (sm\<lparr>sessions_by_peer := umap_put t r' (sessions_by_peer sm)\<rparr>) = session_ids sm"
proof -
  have "(\<exists>u x. umap_find (umap_put t r' (sessions_by_peer sm)) u = Some x \<and> sess_player_id x = p) \<longleftrightarrow>
      (\<exists>u x. umap_find (sessions_by_peer sm) u = Some x \<and> sess_player_id x = p)" for p
    using assms by (metis find_put option.inject)
  then show ?thesis by (intro set_eqI) (simp add: session_ids_iff)
qed

lemma heartbeat_ids [simp]: "session_ids (snd (handle_heartbeat t now sm)) = session_ids sm"
  by (auto simp: handle_heartbeat_def touch_ids split: option.split)

lemma admit_ids:
  assumes "admit st k t n now sm = (r, sm')" and "umap_find (sessions_by_peer sm) t = None"
  shows "session_ids sm' = insert (sess_player_id (join_result_session r)) (session_ids sm)"
  using admit_fields [OF assms(1)] assms(2)
  by (force simp: session_ids_def session_for_peer_def find_put)

lemma join_ids:
  assumes "handle_join_request t n now sm = (r, sm')"
  shows "session_ids sm' = (if join_accepted r then insert (sess_player_id (join_result_session r)) (session_ids sm)
    else session_ids sm)"
  using assms
proof (cases rule: join_request_cases)
  case (already s)
  then have "session_ids sm' = session_ids sm" by (simp add: touch_ids)
  moreover have "sess_player_id s \<in> session_ids sm"
    using already by (intro session_idsI [of _ t]) (simp add: session_for_peer_def)
  ultimately show ?thesis using already by (auto simp: join_accepted_def)
next
  case (reconnected k)
  then show ?thesis using admit_ids [OF reconnected(5,2)] admit_fields [OF reconnected(5)] by (simp add: join_accepted_def)
next
  case (accepted k)
  then show ?thesis using admit_ids [OF accepted(5,2)] admit_fields [OF accepted(5)] by (simp add: join_accepted_def)
qed (auto simp: reject_def join_accepted_def)

lemma without_session_ids:
  assumes "sessions_inv sm" and "\<And>t. umap_find m t = (if t \<in> T then None else umap_find (sessions_by_peer sm) t)"
  shows "session_ids (sm'\<lparr>sessions_by_peer := m\<rparr>) =
    session_ids sm - {sess_player_id r | r t. t \<in> T \<and> session_for_peer sm t = Some r}"
  using session_ids_unique [OF assms(1)]
  by (auto simp: session_ids_def session_for_peer_def assms(2) split: if_splits) metis

lemma disconnect_ids:
  assumes "sessions_inv sm" and "handle_disconnect t sm = (removed, sm')"
  shows "session_ids sm' = (case removed of None \<Rightarrow> session_ids sm | Some r \<Rightarrow> session_ids sm - {sess_player_id r})"
proof (cases "umap_find (sessions_by_peer sm) t")
  case None
  with assms(2) show ?thesis by (auto simp: handle_disconnect_def)
next
  case (Some r)
  note f = disconnect_fields [OF assms(1) Some]
  have "session_ids (sm\<lparr>slot_owners := os, sessions_by_peer := umap_erase t (sessions_by_peer sm)\<rparr>)
      = session_ids sm - {sess_player_id r | r t'. t' \<in> {t} \<and> session_for_peer sm t' = Some r}" for os
    using without_session_ids [OF assms(1), of "umap_erase t (sessions_by_peer sm)" "{t}" "sm\<lparr>slot_owners := os\<rparr>"]
    by (simp add: find_erase)
  with f assms(2) Some show ?thesis by (simp add: session_for_peer_def)
qed

lemma collect_ids:
  assumes "sessions_inv sm" and "collect_timed_out now sm = (gone, sm')"
  shows "session_ids sm' = session_ids sm - sess_player_id ` set gone"
proof -
  note c = collect_timed_out_sessions [OF assms(1), of now, unfolded assms(2) fst_conv snd_conv]
  have ok: "umap_ok (sessions_by_peer sm)" by (rule sessions_invD(3) [OF assms(1)])
  have ok': "umap_ok (sessions_by_peer sm')" unfolding c(2) using ok by (rule distinct_map_filter)
  have "session_for_peer sm' t = Some r \<longleftrightarrow> session_for_peer sm t = Some r \<and> \<not> timed_out now sm r" for t r
    by (simp only: session_for_peer_def in_set_find [OF ok, symmetric] in_set_find [OF ok', symmetric])
      (simp add: c(2))
  note kept = this
  have gone: "r \<in> set gone \<longleftrightarrow> timed_out now sm r \<and> (\<exists>t. session_for_peer sm t = Some r)" for r
    by (force simp: session_for_peer_def c(1) in_set_find [OF ok, symmetric])
  show ?thesis
  proof (intro set_eqI iffI)
    fix p
    assume "p \<in> session_ids sm'"
    then obtain t r where "session_for_peer sm' t = Some r" and p: "sess_player_id r = p"
      by (auto simp: session_ids_def)
    then have r: "session_for_peer sm t = Some r" "\<not> timed_out now sm r" "sess_player_id r = p"
      using kept by blast+
    have "r' = r" if "session_for_peer sm t' = Some r'" "sess_player_id r' = p" for t' r'
      using session_ids_unique [OF assms(1), of t r t' r'] r that by (simp add: session_for_peer_def)
    then have "p \<notin> sess_player_id ` set gone" using gone r(2) by blast
    then show "p \<in> session_ids sm - sess_player_id ` set gone" using session_idsI [OF r(1)] r(3) by simp
  next
    fix p
    assume "p \<in> session_ids sm - sess_player_id ` set gone"
    then obtain t r where r: "session_for_peer sm t = Some r" "sess_player_id r = p" "r \<notin> set gone"
      by (auto simp: session_ids_def)
    then have "session_for_peer sm' t = Some r" using gone kept by blast
    then show "p \<in> session_ids sm'" using session_idsI r(2) by blast
  qed
qed

section \<open>A tick\<close>

lemma summary_ids: "loot_inv s \<Longrightarrow> sum_player_id ` set (inventory_snapshot s) = listed (ls_players s)"
  using loot_players.listing_listed [of s] loot_invD(1) [of s] by simp

text \<open>The stages of \<open>simulate_tick\<close>, named.\<close>

lemma simulate_parts:
  assumes "simulate_tick frame s = (r, s')"
  obtains mv cr cb lr lt mr mt where
    "mv = apply_inputs (al_tick_interval (gs_loop s)) (frame_inputs frame) (gs_movement s)"
    "combat_resolve_tick (frame_tick frame) (al_tick_interval (gs_loop s))
       (set_player_positions (movement_snapshot mv) (gs_combat s)) = (cr, cb)"
    "loot_resolve_tick (frame_tick frame) (movement_snapshot mv) (combat_snapshot cb) (death_events cr) (gs_loot s) = (lr, lt)"
    "lifecycle_resolve_tick (frame_tick frame) (al_tick_interval (gs_loop s))
       (List.map sess_player_id (active_sessions (gs_sessions s))) (combat_snapshot cb) (death_events cr)
       (inventory_snapshot lt) (gs_match s) = (mr, mt)"
    "r = \<lparr>tr_movement = movement_snapshot mv, tr_combat_result = cr, tr_loot_result = lr,
       tr_inventory = inventory_snapshot lt, tr_match_result = mr\<rparr>"
    "s' = s\<lparr>gs_movement := mv, gs_combat := fold combat_respawn (lr_respawned mr) cb, gs_loot := lt, gs_match := mt\<rparr>"
  using assms by (fastforce simp: simulate_tick_def Let_def split: prod.splits)

lemma respawns_listed:
  "listed (cs_players (fold combat_respawn ps s)) = listed (cs_players s) \<union> set ps"
  using fold_insert [where D = "\<lambda>s. listed (cs_players s)" and f = combat_respawn and g = "\<lambda>p. p", OF listed_respawn]
  by simp

lemma respawn_queues: "cs_queues (combat_respawn p s) = cs_queues s"
    "set (cs_pending (combat_respawn p s)) \<subseteq> set (cs_pending s)"
  by (auto simp: combat_respawn_def Let_def split: option.split)

lemma resolve_fire_queues: "cs_queues (snd (resolve_fire tick dt fire st)) = cs_queues (snd st)"
proof -
  have damage: "cs_queues (snd (apply_damage tick hit st)) = cs_queues (snd st)" for hit st
    by (simp add: apply_damage_def case_prod_beta Let_def split: option.split)
  show ?thesis
    by (auto simp: resolve_fire_def damage Let_def case_prod_beta split: option.split weapon_class.split)
qed

lemma combat_tick_queues: "cs_queues (snd (combat_resolve_tick tick dt s)) = snd (drain_by_player (cs_queues s))"
proof -
  have damage: "cs_queues (snd (apply_damage tick hit st)) = cs_queues (snd st)" for hit st
    by (simp add: apply_damage_def case_prod_beta Let_def split: option.split)
  have "cs_queues (snd (fold (apply_damage tick) hits st)) = cs_queues (snd st)" for hits st
    by (rule fold_unchanged [where g = "\<lambda>st. cs_queues (snd st)"]) (rule damage)
  then have "cs_queues (snd (resolve_projectiles tick (out, s))) = cs_queues s" for out
    by (simp add: resolve_projectiles_def Let_def)
  moreover have "cs_queues (snd (fold (resolve_fire tick dt) fires st)) = cs_queues (snd st)" for fires st
    by (rule fold_unchanged [where g = "\<lambda>st. cs_queues (snd st)"]) (rule resolve_fire_queues)
  ultimately show ?thesis
    by (simp add: combat_resolve_tick_def Let_def case_prod_beta drain_fire_commands_def)
qed

lemma positions_rest: "cs_queues (set_player_positions ms s) = cs_queues s"
    "cs_pending (set_player_positions ms s) = cs_pending s"
  unfolding set_player_positions_def
  by (rule fold_unchanged [where g = cs_queues], simp add: set_player_position_def Let_def)
    (rule fold_unchanged [where g = cs_pending], simp add: set_player_position_def Let_def)

lemma tables_simulate:
  assumes ok: "tables_ok D s" and inputs: "inp_player_id ` set (frame_inputs frame) \<subseteq> D"
    and step: "simulate_tick frame s = (r, s')"
  shows "tables_ok D s'"
proof -
  note d = tables_okD [OF ok]
  obtain mv cr cb lr lt mr mt where
    mv: "mv = apply_inputs (al_tick_interval (gs_loop s)) (frame_inputs frame) (gs_movement s)" and
    cb: "combat_resolve_tick (frame_tick frame) (al_tick_interval (gs_loop s))
       (set_player_positions (movement_snapshot mv) (gs_combat s)) = (cr, cb)" and
    lt: "loot_resolve_tick (frame_tick frame) (movement_snapshot mv) (combat_snapshot cb) (death_events cr) (gs_loot s) = (lr, lt)" and
    mt: "lifecycle_resolve_tick (frame_tick frame) (al_tick_interval (gs_loop s))
       (List.map sess_player_id (active_sessions (gs_sessions s))) (combat_snapshot cb) (death_events cr)
       (inventory_snapshot lt) (gs_match s) = (mr, mt)" and
    s': "s' = s\<lparr>gs_movement := mv, gs_combat := fold combat_respawn (lr_respawned mr) cb, gs_loot := lt, gs_match := mt\<rparr>"
    by (rule simulate_parts [OF step])
  have mv_inv: "movement_inv mv"
    unfolding mv using movement_machine.exec_invar [OF d(2), of "MovApply (al_tick_interval (gs_loop s)) (frame_inputs frame)"]
    by simp
  have mv_listed: "listed (ms_states mv) = D" unfolding mv using listed_apply_inputs inputs d(6) by simp
  have moved: "mot_player_id ` set (movement_snapshot mv) = D"
    using motions.listing_listed [of mv] mv_inv mv_listed by (simp add: movement_inv_def)
  let ?c = "set_player_positions (movement_snapshot mv) (gs_combat s)"
  have "listed (cs_players ?c) = D" using d(7) moved by (simp add: listed_positions)
  moreover have "list_all (\<lambda>h. ph_attacker h \<in> D) (cs_pending ?c)" using d(12) by (simp add: positions_rest)
  ultimately have duel: "duels_within D (cr, cb)" using combat_tick_within cb by metis
  have cb_inv: "combat_inv cb"
    using combat_machine.exec_invar [of ?c "CombTick (frame_tick frame) (al_tick_interval (gs_loop s))"]
      combat_machine.exec_invar [OF d(3), of "CombPositions (movement_snapshot mv)"] cb by simp
  have fought: "pc_player_id ` set (combat_snapshot cb) = D"
    using combat_players.listing_listed [of cb] cb_inv duel by (simp add: combat_inv_def duels_within_def)
  have lt_inv: "loot_inv lt"
    using loot_machine.exec_invar [OF d(4), of "LootTick (frame_tick frame) (movement_snapshot mv) (combat_snapshot cb) (death_events cr)"]
      lt by simp
  have lt_listed: "listed (ls_players lt) = listed (ls_players (gs_loot s))"
    using listed_loot_tick [of "frame_tick frame" "movement_snapshot mv" "combat_snapshot cb" "death_events cr" "gs_loot s"]
      d(8) lt moved fought by auto
  have died: "death_victim ` set (death_events cr) \<subseteq> D" using duel by (auto simp: duels_within_def list_all_iff)
  note respawn = awaiting_tick [OF mt]
  have mt_inv: "lifecycle_inv mt"
    using match_machine.exec_invar [OF d(5), of "MatchTick (frame_tick frame) (al_tick_interval (gs_loop s))
       (List.map sess_player_id (active_sessions (gs_sessions s))) (combat_snapshot cb) (death_events cr) (inventory_snapshot lt)"]
      mt by simp
  let ?cb = "fold combat_respawn (lr_respawned mr) cb"
  have "combat_inv ?cb"
    by (rule fold_preserves [where P = combat_inv, OF cb_inv]) (use combat_machine.exec_invar [of _ "CombRespawn _"] in simp)
  moreover have "listed (cs_players ?cb) = D"
  proof -
    have "set (lr_respawned mr) \<subseteq> D" using respawn(1) died d(13) by blast
    moreover have "listed (cs_players cb) = D" using duel by (simp add: duels_within_def)
    ultimately show ?thesis unfolding respawns_listed by blast
  qed
  moreover have "cs_queues ?cb = snd (drain_by_player (cs_queues (gs_combat s)))"
    using fold_unchanged [where g = cs_queues and f = combat_respawn, OF respawn_queues(1)]
      combat_tick_queues [of "frame_tick frame" "al_tick_interval (gs_loop s)" ?c] cb by (simp add: positions_rest)
  moreover have "set (cs_pending ?cb) \<subseteq> set (cs_pending cb)"
    by (rule fold_preserves [where P = "\<lambda>c. set (cs_pending c) \<subseteq> set (cs_pending cb)"])
      (use respawn_queues(2) in \<open>auto dest!: subsetD\<close>)
  ultimately show ?thesis
    using d mv_inv mv_listed lt_inv lt_listed mt_inv respawn(2) died owned_drain(1) [OF d(10)] owned_drain(1) [OF d(11)]
      loot_tick_queues [of "frame_tick frame" "movement_snapshot mv" "combat_snapshot cb" "death_events cr" "gs_loot s"] lt duel
    by (intro tables_okI) (auto simp: s' duels_within_def list_all_iff simp del: domIff)
qed

text \<open>The snapshots change the chunk bookkeeping only.\<close>

lemma snapshot_keeps: "tables_ok D (fst st) \<Longrightarrow> tables_ok D (fst (send_snapshot J parts x st))
    \<and> gs_sessions (fst (send_snapshot J parts x st)) = gs_sessions (fst st)"
  by (simp add: send_snapshot_def case_prod_beta)

lemma tick_snapshots_keep:
  assumes "tables_ok D s"
  shows "tables_ok D (fst (tick_snapshots J tick r s)) \<and> gs_sessions (fst (tick_snapshots J tick r s)) = gs_sessions s"
proof -
  let ?P = "\<lambda>st. tables_ok D (fst st) \<and> gs_sessions (fst st) = gs_sessions s"
  have "?P (fold (send_snapshot J parts) xs (s, []))" for parts xs
    by (rule fold_preserves [where P = ?P]) (use assms snapshot_keeps in \<open>simp, metis\<close>)
  then show ?thesis by (simp add: tick_snapshots_def Let_def case_prod_beta)
qed

lemma tables_tick:
  assumes "tables_ok D (fst st)" and "inp_player_id ` set (frame_inputs frame) \<subseteq> D"
  shows "tables_ok D (fst (server_tick J frame st)) \<and> gs_sessions (fst (server_tick J frame st)) = gs_sessions (fst st)"
proof -
  obtain r s1 where sim: "simulate_tick frame (fst st) = (r, s1)" by fastforce
  have ses: "gs_sessions s1 = gs_sessions (fst st)" by (rule simulate_parts [OF sim]) simp
  define s2 where "s2 = s1\<lparr>gs_events := tick_events J (frame_tick frame) r (gs_events s1)\<rparr>"
  have "tables_ok D s2"
    by (rule tables_cong [OF tables_simulate [OF assms sim]]) (simp_all add: s2_def)
  moreover have "gs_sessions s2 = gs_sessions (fst st)" by (simp add: s2_def ses)
  ultimately show ?thesis
    using tick_snapshots_keep [of D s2 J "frame_tick frame" r] sim
    by (auto simp: server_tick_def Let_def case_prod_beta simp flip: s2_def)
qed

section \<open>Messages and connections\<close>

definition server_inv :: "'j server \<Rightarrow> bool" where
  "server_inv s \<longleftrightarrow> sessions_inv (gs_sessions s) \<and> tables_ok (session_ids (gs_sessions s)) s"

lemma tables_input:
  assumes "tables_ok D s" and "inp_player_id i \<in> D"
  shows "tables_ok D (s\<lparr>gs_loop := snd (enqueue_input i (gs_loop s))\<rparr>)"
  using tables_okD [OF assms(1)] owned_inputs [OF tables_okD(9) [OF assms(1)] assms(2)] loop_inv_enqueue
  by (intro tables_okI) simp_all

lemma tables_fire:
  assumes "tables_ok D s" and "fire_attacker f \<in> D"
  shows "tables_ok D (s\<lparr>gs_combat := snd (enqueue_fire f (gs_combat s))\<rparr>)"
proof -
  note d = tables_okD [OF assms(1)]
  have "fire_attacker f \<in> listed (cs_players (gs_combat s))" using assms(2) d(7) by simp
  then have "listed (cs_players (snd (enqueue_fire f (gs_combat s)))) = D"
    using d(7) by (auto simp: enqueue_fire_def Let_def simp del: domIff)
  moreover have "cs_pending (snd (enqueue_fire f (gs_combat s))) = cs_pending (gs_combat s)"
    by (simp add: enqueue_fire_def Let_def)
  ultimately show ?thesis
    using d combat_machine.exec_invar [OF d(3), of "CombFire f"] owned_fires [OF d(10) assms(2)]
    by (intro tables_okI) simp_all
qed

lemma tables_pickup:
  assumes "tables_ok D s" and "pick_player_id c \<in> D"
  shows "tables_ok D (s\<lparr>gs_loot := snd (enqueue_pickup c (gs_loot s))\<rparr>)"
proof -
  note d = tables_okD [OF assms(1)]
  have "D \<subseteq> listed (ls_players (snd (enqueue_pickup c (gs_loot s))))"
    using d(8) unfolding listed_enqueue_pickup by blast
  then show ?thesis
    using d loot_machine.exec_invar [OF d(4), of "LootEnqueue c"] owned_pickups [OF d(11) assms(2)]
    by (intro tables_okI) simp_all
qed

lemma inv_heartbeat: "server_inv s \<Longrightarrow> server_inv (heartbeat token now s)"
  by (simp add: server_inv_def heartbeat_def sessions_inv_heartbeat)

lemma inv_tables: "server_inv s \<Longrightarrow> tables_ok (session_ids (gs_sessions s)) s' \<Longrightarrow> gs_sessions s' = gs_sessions s \<Longrightarrow> server_inv s'"
  by (simp add: server_inv_def)

lemma inv_join:
  assumes "server_inv s" and "token \<noteq> 0"
  shows "server_inv (fst (handle_join J token now payload s))"
proof -
  obtain r sm where j: "handle_join_request token (jstring J (at_key J payload ''player_name'')) now (gs_sessions s) = (r, sm)"
    by fastforce
  have sm: "sessions_inv sm" using sessions_inv_join [OF _ assms(2)] assms(1) j by (metis server_inv_def snd_conv)
  have ids: "session_ids sm = (if join_accepted r then insert (sess_player_id (join_result_session r)) (session_ids (gs_sessions s))
    else session_ids (gs_sessions s))" by (rule join_ids [OF j])
  have "tables_ok (insert p (session_ids (gs_sessions s))) (ensure_player p (s\<lparr>gs_sessions := sm\<rparr>))" for p
    by (rule tables_join) (use assms(1) in \<open>simp add: server_inv_def\<close>)
  moreover have "fst (handle_join J token now payload s) = (if join_accepted r
      then ensure_player (sess_player_id (join_result_session r)) (s\<lparr>gs_sessions := sm\<rparr>) else s\<lparr>gs_sessions := sm\<rparr>)"
    by (simp add: handle_join_def j Let_def ensure_player_def)
  moreover have "gs_sessions (ensure_player p (s\<lparr>gs_sessions := sm\<rparr>)) = sm" for p by (simp add: ensure_player_def)
  ultimately show ?thesis using assms(1) sm ids by (simp add: server_inv_def)
qed

text \<open>A handler that needs a session gets the sender's.\<close>

lemma inv_handlers:
  assumes inv: "server_inv s" and session: "session_for_peer (gs_sessions s) token = Some session"
  shows "server_inv (fst (handle_heartbeat_message J token now payload session s))"
    and "server_inv (fst (handle_player_input J token now payload session s))"
    and "server_inv (fst (handle_block_update J token now payload session s))"
    and "server_inv (fst (handle_weapon_fire J token now payload session s))"
    and "server_inv (fst (handle_treasure_pickup J token now payload session s))"
proof -
  have p: "sess_player_id session \<in> session_ids (gs_sessions s)" by (rule session_idsI [OF session])
  have t: "tables_ok (session_ids (gs_sessions s)) s" using inv by (simp add: server_inv_def)
  show "server_inv (fst (handle_heartbeat_message J token now payload session s))"
    using inv by (auto simp: handle_heartbeat_message_def intro!: inv_heartbeat split: option.split)
  show "server_inv (fst (handle_player_input J token now payload session s))"
    using inv p by (auto simp: handle_player_input_def Let_def case_prod_beta split: option.split
      intro!: inv_heartbeat inv_tables [OF inv tables_input [OF t]])
  show "server_inv (fst (handle_block_update J token now payload session s))"
    using inv t by (auto simp: handle_block_update_def Let_def case_prod_beta split: option.split
      intro!: inv_heartbeat inv_tables [OF inv])
  show "server_inv (fst (handle_weapon_fire J token now payload session s))"
    using inv p by (auto simp: handle_weapon_fire_def Let_def case_prod_beta split: option.split
      intro!: inv_heartbeat inv_tables [OF inv tables_fire [OF t]])
  show "server_inv (fst (handle_treasure_pickup J token now payload session s))"
    using inv p by (auto simp: handle_treasure_pickup_def Let_def case_prod_beta split: option.split
      intro!: inv_heartbeat inv_tables [OF inv tables_pickup [OF t]])
qed

lemma inv_receive:
  assumes "server_inv s" and "token \<noteq> 0"
  shows "server_inv (fst (receive J token now data s))"
proof -
  have "server_inv (fst (handle_message J token now pkt s))" for pkt
    using assms inv_join [OF assms] inv_handlers [OF assms(1)] inv_heartbeat [OF assms(1)]
    by (auto simp: handle_message_def Let_def heartbeat_def case_prod_beta split: message_type.split option.split)
  with assms(1) show ?thesis by (simp add: receive_def Let_def)
qed

lemma inv_disconnected:
  assumes "server_inv s"
  shows "server_inv (peer_disconnected token s)"
proof -
  obtain removed sm where d: "handle_disconnect token (gs_sessions s) = (removed, sm)" by fastforce
  have inv: "sessions_inv (gs_sessions s)" "tables_ok (session_ids (gs_sessions s)) s"
    using assms by (simp_all add: server_inv_def)
  have sm: "sessions_inv sm" using sessions_inv_disconnect [OF inv(1), of token] d by simp
  have "gs_sessions (remove_player p s') = gs_sessions s'" for p and s' :: "'a server" by (simp add: remove_player_def)
  then show ?thesis
    using sm disconnect_ids [OF inv(1) d] inv(2)
    by (auto simp: server_inv_def peer_disconnected_def d Let_def intro!: tables_remove split: option.split)
qed

lemma tables_expel:
  assumes "tables_ok D (fst st)"
  shows "tables_ok (D - {sess_player_id r}) (fst (expel r st))" and "gs_sessions (fst (expel r st)) = gs_sessions (fst st)"
  using tables_remove [OF assms] by (simp_all add: expel_def case_prod_beta Let_def remove_player_def)

lemma tables_expel_all:
  "tables_ok D (fst st) \<Longrightarrow> tables_ok (D - sess_player_id ` set gone) (fst (fold expel gone st))
     \<and> gs_sessions (fst (fold expel gone st)) = gs_sessions (fst st)"
proof (induction gone arbitrary: D st)
  case (Cons r gone)
  note e = tables_expel [OF Cons.prems, of r]
  have "D - sess_player_id ` set (r # gone) = (D - {sess_player_id r}) - sess_player_id ` set gone" by auto
  with Cons.IH [OF e(1)] e(2) show ?case by simp
qed simp

lemma inv_expire:
  assumes "server_inv s"
  shows "server_inv (fst (expire_sessions now s))"
proof -
  obtain gone sm where c: "collect_timed_out now (gs_sessions s) = (gone, sm)" by fastforce
  have inv: "sessions_inv (gs_sessions s)" "tables_ok (session_ids (gs_sessions s)) s"
    using assms by (simp_all add: server_inv_def)
  have sm: "sessions_inv sm" using sessions_inv_collect [OF inv(1), of now] c by simp
  have "tables_ok (session_ids (gs_sessions s)) (fst (s\<lparr>gs_sessions := sm\<rparr>, []))" using inv(2) by simp
  from tables_expel_all [OF this, of gone] sm collect_ids [OF inv(1) c] show ?thesis
    by (simp add: server_inv_def expire_sessions_def c)
qed

lemma inv_round:
  assumes "server_inv s" and "server_round J timeout_now tick_now s = Some (s', out)"
  shows "server_inv s'"
proof -
  define s1 where "s1 = fst (expire_sessions timeout_now s)"
  let ?D = "session_ids (gs_sessions s1)"
  have inv: "server_inv s1" unfolding s1_def by (rule inv_expire [OF assms(1)])
  then have t: "tables_ok ?D s1" by (simp add: server_inv_def)
  obtain ts l where a: "advance tick_now (gs_loop s1) = Some (ts, l)"
    and s': "s' = fst (fold (server_tick J) ts (s1\<lparr>gs_loop := l\<rparr>, snd (expire_sessions timeout_now s)))"
    using assms(2) by (auto simp: server_round_def s1_def case_prod_beta split: option.split_asm prod.split_asm)
  have own: "owned inp_player_id ?D (al_queues l)" "list_all (\<lambda>f. inp_player_id ` set (frame_inputs f) \<subseteq> ?D) ts"
    using advance_owned [OF tables_okD(1) [OF t] tables_okD(9) [OF t] a] by simp_all
  have "loop_inv l" using advance_expected [OF tables_okD(1) [OF t] refl, of tick_now] a by auto
  then have "tables_ok ?D (s1\<lparr>gs_loop := l\<rparr>)" using tables_okD [OF t] own(1) by (intro tables_okI) simp_all
  then have start: "tables_ok ?D (fst (s1\<lparr>gs_loop := l\<rparr>, out)) \<and> gs_sessions (fst (s1\<lparr>gs_loop := l\<rparr>, out)) = gs_sessions s1"
    for out :: "'a server_output list" by simp
  have "tables_ok ?D s' \<and> gs_sessions s' = gs_sessions s1"
    unfolding s'
    by (rule fold_inv [where P = "\<lambda>st. tables_ok ?D (fst st) \<and> gs_sessions (fst st) = gs_sessions s1", OF start own(2)])
      (use tables_tick in metis)
  with inv show ?thesis by (simp add: server_inv_def)
qed

lemma inv_init: "max_players (vc_session c) < 2 ^ 32 - 1 \<Longrightarrow> server_inv (server_init c start)"
proof -
  assume "max_players (vc_session c) < 2 ^ 32 - 1"
  then have "sessions_inv (session_manager_init (vc_session c))" by (rule sessions_inv_init)
  moreover have "session_ids (session_manager_init (vc_session c)) = {}"
    by (simp add: session_ids_def session_for_peer_def session_manager_init_def)
  moreover have "movement_inv (movement_sim_init (vc_tuning c))" by (rule movement_machine.start_invar) blast
  moreover have "combat_inv (combat_init (vc_weapons c) (vc_combat c))" by (rule combat_inv_init)
  moreover have "tables_ok {} (server_init c start)"
    by (rule tables_okI)
      (use \<open>movement_inv _\<close> loop_inv_init combat_inv_init loot_inv_init lifecycle_init_inv in
        \<open>simp_all add: server_init_def movement_sim_init_def combat_init_def loot_init_def auth_loop_init_def
          auth_loop_reset_def lifecycle_init_def Let_def owned_def awaiting_def\<close>)
  ultimately show ?thesis by (simp add: server_inv_def) (simp add: server_init_def)
qed

lemma inv_step: "server_step J s s' \<Longrightarrow> server_inv s \<Longrightarrow> server_inv s'"
proof (induction rule: server_step.induct)
  case (connect s token)
  then show ?case by (simp add: server_inv_def peer_connected_def)
next
  case (message token now data s s' rejected out)
  then show ?case using inv_receive [of s token J now data] by simp
next
  case (disconnect s token)
  then show ?case by (rule inv_disconnected)
next
  case (round timeout_now tick_now s s' out)
  then show ?case using inv_round by blast
qed

lemma inv_reachable: "server_reachable J c start s \<Longrightarrow> max_players (vc_session c) < 2 ^ 32 - 1 \<Longrightarrow> server_inv s"
  unfolding server_reachable_def by (induction rule: rtranclp_induct) (auto intro: inv_init inv_step)

section \<open>Who the match counts as connected\<close>

lemma connected_note_death:
  "connected_ids s \<subseteq> connected_ids (snd (snd (note_death tick d (handled, changed, s))))"
proof (cases rule: note_death_cases [of d handled tick changed s])
  case (self v)
  have "connected_ids (snd (snd (note_death tick d (handled, changed, s)))) = insert (death_victim d) (connected_ids s)"
    using self(3) connected_put [OF self(2), of "count_death tick (lifecycle_ensure (death_victim d) s) v"]
    by (simp add: count_death_def)
  then show ?thesis by blast
next
  case (killed v s1 k)
  have "connected_ids s1 = insert (death_victim d) (connected_ids s)"
    using killed(3) connected_put [OF killed(2), of "count_death tick (lifecycle_ensure (death_victim d) s) v"]
    by (simp add: count_death_def)
  moreover have "connected_ids (snd (snd (note_death tick d (handled, changed, s)))) = insert (death_killer d) (connected_ids s1)"
    using killed(6) connected_put [OF killed(5), of "k\<lparr>lcp_kills := lcp_kills k + 1\<rparr>"] by simp
  ultimately show ?thesis by blast
qed simp

lemma connected_deaths: "connected_ids (snd st) \<subseteq> connected_ids (snd (deaths_step tick deaths st))"
proof -
  let ?P = "\<lambda>a. connected_ids (snd st) \<subseteq> connected_ids (snd (snd a))"
  have step: "?P (note_death tick d a)" if "?P a" for d a
    using that connected_note_death [of "snd (snd a)" tick d "fst a" "fst (snd a)"] by simp
  have "?P (fold (note_death tick) ds ([], fst st, snd st))" for ds
    by (rule fold_preserves [where P = ?P]) (simp, rule step)
  then show ?thesis by (auto simp: deaths_step_def case_prod_beta)
qed

lemma connected_tick:
  assumes "lifecycle_inv s" and "lifecycle_resolve_tick tick dt active combat deaths inventory s = (out, s')"
  shows "participants active combat inventory \<subseteq> connected_ids s'"
proof -
  obtain changed3 s3 state4 started s4 expired s5 changed6 s6 changed7 state7 s7 state8 where
    p3: "tick_table active combat inventory s = (changed3, s3)" and
    p4: "pre_match_step tick s3 = (state4, started, s4)" and p5: "timer_step dt started s4 = (expired, s5)" and
    p6: "deaths_step tick deaths (changed3, s5) = (changed6, s6)" and
    p7: "in_match_step tick (changed6, s6) = (lr_respawned out, changed7, state7, s7)" and
    p8: "expiry_step tick expired s7 = (state8, s')"
    by (rule lifecycle_tick_parts [OF assms(2)])
  have t3: "table_ok s3" "connected_ids s3 = participants active combat inventory"
    using tick_table_ok [of s active combat inventory] assms(1)
      tick_table_connected [of active combat inventory s] by (simp_all add: p3 lifecycle_inv_def)
  note t4 = pre_match_keeps [OF t3(1) p4] and k5 = timer_keeps [OF p5]
  have t5: "table_ok s5" "connected_ids s5 = connected_ids s4"
    using table_cong [OF t4(1)] k5 by (simp_all add: connected_ids_def)
  have t6: "table_ok s6" "connected_ids s5 \<subseteq> connected_ids s6"
    using deaths_step_keeps(1) [of "(changed3, s5)" tick deaths] connected_deaths [of "(changed3, s5)" tick deaths] t5(1) p6
    by simp_all
  have "connected_ids s7 = connected_ids s6"
  proof (cases "lc_phase s6 = InMatch")
    case True
    obtain respawned changed' s7' where
      f: "fold (respawn_one tick) (sort (umap_keys (lc_players s6))) ([], changed6, s6) = (respawned, changed', s7')"
      by (cases "fold (respawn_one tick) (sort (umap_keys (lc_players s6))) ([], changed6, s6)")
    have "lc_players s7 = lc_players s7'"
      using p7 True f by (auto simp: in_match_step_def enter_post_match_def split: list.split_asm)
    with respawns_keep(3) [OF t6(1) f] show ?thesis by (simp add: connected_ids_def)
  next
    case False
    with p7 show ?thesis by (simp add: in_match_step_def)
  qed
  moreover have "lc_players s' = lc_players s7"
    using p8 by (auto simp: expiry_step_def enter_post_match_def split: if_split_asm)
  then have "connected_ids s' = connected_ids s7" by (simp add: connected_ids_def)
  ultimately show ?thesis using t3 t4 t5 t6 by simp
qed

lemma counted_contender:
  assumes ok: "table_ok m" and p: "p \<in> connected_ids m" and q: "sole_contender m = Some q"
  shows "q = p \<or> (\<exists>e. score_for m p = Some e \<and> sc_eliminated e)"
proof -
  obtain r where r: "umap_find (lc_players m) p = Some r" "lcp_connected r" using p by (auto simp: connected_ids_def)
  have score: "score_for m p = Some (to_score r)"
    using table_okD(2) [OF ok r(1)] r(1) by (simp add: score_for_def record_ok_def)
  show ?thesis
  proof (cases "lcp_eliminated r")
    case False
    have "(p, r) \<in> set (lc_players m)" using r(1) by (rule map_of_SomeD)
    then have "p \<in> set (contenders m)" using r(2) False by (force simp: contenders_def)
    moreover have "contenders m = [q]" using q by (simp add: sole_contender_def split: list.split_asm)
    ultimately show ?thesis by simp
  qed (use score in \<open>simp add: to_score_def\<close>)
qed

text \<open>The loot table never shrinks.\<close>

lemma listed_loot_exec: "call \<noteq> LootReset \<Longrightarrow> listed (ls_players s) \<subseteq> listed (ls_players (loot_exec call s))"
  by (cases call) (auto simp: listed_enqueue_pickup listed_loot_tick simp del: domIff)

lemma loot_grows_simulate:
  "simulate_tick frame s = (r, s') \<Longrightarrow> listed (ls_players (gs_loot s)) \<subseteq> listed (ls_players (gs_loot s'))"
  using listed_loot_exec [of "LootTick _ _ _ _" "gs_loot s"]
  by (elim simulate_parts) (simp, metis loot_call.distinct(7) loot_exec.simps(5) snd_conv)

abbreviation known_ids :: "'j server \<Rightarrow> u32 set" where
  "known_ids s \<equiv> listed (ls_players (gs_loot s))"

lemma known_remove [simp]: "known_ids (remove_player p s) = known_ids s"
  by (simp add: remove_player_def del: domIff)

lemma known_receive: "known_ids s \<subseteq> known_ids (fst (receive J token now data s))"
proof -
  have "known_ids s \<subseteq> known_ids (fst (handle_join J token now payload s))" for payload
    by (auto simp: handle_join_def Let_def case_prod_beta simp del: domIff)
  moreover have "known_ids s \<subseteq> known_ids (fst (handle_treasure_pickup J token now payload session s))" for payload session
    by (auto simp: handle_treasure_pickup_def heartbeat_def Let_def case_prod_beta listed_enqueue_pickup simp del: domIff
      split: option.split)
  moreover have "gs_loot (fst (handle_heartbeat_message J token now payload session s)) = gs_loot s"
      "gs_loot (fst (handle_player_input J token now payload session s)) = gs_loot s"
      "gs_loot (fst (handle_block_update J token now payload session s)) = gs_loot s"
      "gs_loot (fst (handle_weapon_fire J token now payload session s)) = gs_loot s" for payload session
    by (simp_all add: handle_heartbeat_message_def handle_player_input_def handle_block_update_def handle_weapon_fire_def
      heartbeat_def Let_def case_prod_beta split: option.split)
  ultimately have "known_ids s \<subseteq> known_ids (fst (handle_message J token now pkt s))" for pkt
    by (simp add: handle_message_def Let_def case_prod_beta del: domIff split: message_type.split option.split)
  then show ?thesis by (simp add: receive_def Let_def del: domIff)
qed

lemma known_tick: "known_ids (fst st) \<subseteq> known_ids (fst (server_tick J frame st))"
proof -
  obtain r s1 where sim: "simulate_tick frame (fst st) = (r, s1)" by fastforce
  have "gs_loot (fst (fold (send_snapshot J parts) xs st)) = gs_loot (fst st)" for parts xs and st :: "'a server \<times> 'a server_output list"
    by (rule fold_unchanged [where g = "\<lambda>st. gs_loot (fst st)"]) (simp add: send_snapshot_def case_prod_beta)
  then have "gs_loot (fst (tick_snapshots J tick r s)) = gs_loot s" for tick r and s :: "'a server"
    by (simp add: tick_snapshots_def Let_def case_prod_beta)
  with loot_grows_simulate [OF sim] show ?thesis
    by (simp add: server_tick_def case_prod_beta sim Let_def del: domIff)
qed

lemma known_round:
  assumes "server_round J timeout_now tick_now s = Some (s', out)"
  shows "known_ids s \<subseteq> known_ids s'"
proof -
  have expel: "known_ids (fst (expel r st)) = known_ids (fst st)" for r and st :: "'a server \<times> 'a server_output list"
    by (simp add: expel_def case_prod_beta Let_def del: domIff)
  have "known_ids (fst (fold expel gone st)) = known_ids (fst st)" for gone and st :: "'a server \<times> 'a server_output list"
    by (rule fold_unchanged [where g = "\<lambda>st. known_ids (fst st)"]) (rule expel)
  then have expired: "known_ids (fst (expire_sessions timeout_now s)) = known_ids s"
    by (simp add: expire_sessions_def case_prod_beta del: domIff)
  obtain ts l where s': "s' = fst (fold (server_tick J) ts
      ((fst (expire_sessions timeout_now s))\<lparr>gs_loop := l\<rparr>, snd (expire_sessions timeout_now s)))"
    using assms by (auto simp: server_round_def case_prod_beta split: option.split_asm prod.split_asm) (metis fst_conv)
  have "known_ids (fst st) \<subseteq> known_ids (fst (fold (server_tick J) ts st))" for st
    by (rule fold_preserves [where P = "\<lambda>st'. known_ids (fst st) \<subseteq> known_ids (fst st')"]) (use known_tick in blast)+
  from this [of "((fst (expire_sessions timeout_now s))\<lparr>gs_loop := l\<rparr>, snd (expire_sessions timeout_now s))"]
  show ?thesis unfolding s' using expired by simp
qed

lemma known_step: "server_step J s s' \<Longrightarrow> known_ids s \<subseteq> known_ids s'"
proof (induction rule: server_step.induct)
  case (message token now data s s' rejected out)
  then show ?case using known_receive [of s J token now data] by simp
next
  case (disconnect s token)
  show ?case
    by (simp add: peer_disconnected_def case_prod_beta Let_def del: domIff split: option.split)
next
  case (round timeout_now tick_now s s' out)
  then show ?case by (rule known_round)
qed (simp add: peer_connected_def)

lemma known_steps: "(server_step J)\<^sup>*\<^sup>* s s' \<Longrightarrow> known_ids s \<subseteq> known_ids s'"
  by (induction rule: rtranclp_induct) (use known_step in blast)+

section \<open>A message acts for the sender's player\<close>

text \<open>What the server holds about one player.\<close>

record player_part =
  pp_inputs :: "player_input list"
  pp_last_input :: "u32 option"
  pp_motion :: "motion_state option"
  pp_combat :: "combat_player option"
  pp_fires :: "fire_command list"
  pp_last_fire :: "u32 option"
  pp_next_fire :: u64
  pp_loot :: "loot_player option"
  pp_pickups :: "pickup_command list"
  pp_match :: "lifecycle_player option"

definition part_of :: "'j server \<Rightarrow> u32 \<Rightarrow> player_part" where
  "part_of s q = \<lparr>pp_inputs = queue_for (al_queues (gs_loop s)) q, pp_last_input = umap_find (al_last_seq (gs_loop s)) q,
     pp_motion = umap_find (ms_states (gs_movement s)) q, pp_combat = umap_find (cs_players (gs_combat s)) q,
     pp_fires = queue_for (cs_queues (gs_combat s)) q, pp_last_fire = umap_find (cs_last_seq (gs_combat s)) q,
     pp_next_fire = next_allowed_tick (gs_combat s) q, pp_loot = umap_find (ls_players (gs_loot s)) q,
     pp_pickups = queue_for (ls_queues (gs_loot s)) q, pp_match = umap_find (lc_players (gs_match s)) q\<rparr>"

lemma part_other [simp]:
  "part_of (s\<lparr>gs_events := e\<rparr>) = part_of s" "part_of (s\<lparr>gs_sessions := sm\<rparr>) = part_of s"
  "part_of (s\<lparr>gs_peers := ps\<rparr>) = part_of s" "part_of (s\<lparr>gs_replication := rp\<rparr>) = part_of s"
  "part_of (s\<lparr>gs_world := w\<rparr>) = part_of s" "part_of (heartbeat token now s) = part_of s"
  by (simp_all add: part_of_def heartbeat_def fun_eq_iff)

lemma part_input:
  assumes "inp_player_id i \<noteq> q"
  shows "part_of (s\<lparr>gs_loop := snd (enqueue_input i (gs_loop s))\<rparr>) q = part_of s q"
  using assms by (simp add: part_of_def enqueue_input_def queue_for_put find_put)

lemma ensure_other_players:
  "q \<noteq> p \<Longrightarrow> umap_find (cs_players (combat_ensure p c)) q = umap_find (cs_players c) q"
  "q \<noteq> p \<Longrightarrow> umap_find (ls_players (loot_ensure p l)) q = umap_find (ls_players l) q"
  "q \<noteq> p \<Longrightarrow> umap_find (ms_states (movement_ensure p m)) q = umap_find (ms_states m) q"
  by (simp_all add: combat_players.ensure_find loot_players.ensure_find motions.ensure_find)

lemma part_fire:
  assumes "fire_attacker f \<noteq> q"
  shows "part_of (s\<lparr>gs_combat := snd (enqueue_fire f (gs_combat s))\<rparr>) q = part_of s q"
proof -
  have "cs_next_fire (combat_ensure p c) = cs_next_fire c" for p c
    by (simp add: combat_ensure_def split: option.split)
  then show ?thesis
    using assms by (simp add: part_of_def enqueue_fire_def Let_def queue_for_put find_put ensure_other_players
      next_allowed_tick_def)
qed

lemma part_pickup:
  assumes "pick_player_id c \<noteq> q"
  shows "part_of (s\<lparr>gs_loot := snd (enqueue_pickup c (gs_loot s))\<rparr>) q = part_of s q"
  using assms by (simp add: part_of_def enqueue_pickup_def Let_def queue_for_put find_put ensure_other_players
    split: option.split)

lemma part_ensure:
  assumes "p \<noteq> q"
  shows "part_of (ensure_player p s) q = part_of s q"
proof -
  have "cs_next_fire (combat_ensure p c) = cs_next_fire c" for c
    by (simp add: combat_ensure_def split: option.split)
  then show ?thesis
    using assms by (simp add: part_of_def ensure_player_def ensure_other_players ensure_other next_allowed_tick_def)
qed

text \<open>The effect of a handler on the sender's player \<open>p\<close> and on nobody else.\<close>

definition acts_for :: "u32 \<Rightarrow> u64 \<Rightarrow> int \<Rightarrow> 'j server \<Rightarrow> 'j handled \<Rightarrow> bool" where
  "acts_for p token now s res \<longleftrightarrow> snd (snd res) = []
     \<and> (fst res = s \<or> (\<exists>s0. fst res = heartbeat token now s0 \<and> gs_sessions s0 = gs_sessions s
          \<and> (\<forall>q. q \<noteq> p \<longrightarrow> part_of s0 q = part_of s q)))"

lemma acts_for_nothing: "acts_for p token now s (s, rejected, [])"
  by (simp add: acts_for_def)

lemma acts_for_step: "gs_sessions s0 = gs_sessions s \<Longrightarrow> (\<And>q. q \<noteq> p \<Longrightarrow> part_of s0 q = part_of s q)
    \<Longrightarrow> acts_for p token now s (heartbeat token now s0, rejected, [])"
  unfolding acts_for_def by auto

lemma handlers_act:
  assumes "sess_player_id session = p"
  shows "acts_for p token now s (handle_heartbeat_message J token now payload session s)"
    and "acts_for p token now s (handle_player_input J token now payload session s)"
    and "acts_for p token now s (handle_block_update J token now payload session s)"
    and "acts_for p token now s (handle_weapon_fire J token now payload session s)"
    and "acts_for p token now s (handle_treasure_pickup J token now payload session s)"
proof -
  show "acts_for p token now s (handle_heartbeat_message J token now payload session s)"
    by (auto simp: handle_heartbeat_message_def intro!: acts_for_nothing acts_for_step split: option.split)
  show "acts_for p token now s (handle_player_input J token now payload session s)"
    using assms by (auto simp: handle_player_input_def Let_def case_prod_beta part_input
      intro!: acts_for_nothing acts_for_step split: option.split)
  show "acts_for p token now s (handle_block_update J token now payload session s)"
    using assms by (auto simp: handle_block_update_def Let_def case_prod_beta
      intro!: acts_for_nothing acts_for_step split: option.split)
  show "acts_for p token now s (handle_weapon_fire J token now payload session s)"
    using assms by (auto simp: handle_weapon_fire_def Let_def case_prod_beta part_fire
      intro!: acts_for_nothing acts_for_step split: option.split)
  show "acts_for p token now s (handle_treasure_pickup J token now payload session s)"
    using assms by (auto simp: handle_treasure_pickup_def Let_def case_prod_beta part_pickup
      intro!: acts_for_nothing acts_for_step split: option.split)
qed

text \<open>What a message from \<open>token\<close> may do.\<close>

definition to_peer :: "u64 \<Rightarrow> 'j server_output \<Rightarrow> bool" where
  "to_peer token e \<longleftrightarrow> (case e of Send t pkt \<Rightarrow> t = token | Kick t \<Rightarrow> t = token)"

definition confined :: "u64 \<Rightarrow> 'j server \<Rightarrow> 'j handled \<Rightarrow> bool" where
  "confined token s res \<longleftrightarrow> (case session_for_peer (gs_sessions (fst res)) token of
       None \<Rightarrow> fst res = s \<and> fst (snd res)
     | Some r \<Rightarrow> (\<forall>q. q \<noteq> sess_player_id r \<longrightarrow> part_of (fst res) q = part_of s q))
     \<and> (\<forall>t. t \<noteq> token \<longrightarrow> session_for_peer (gs_sessions (fst res)) t = session_for_peer (gs_sessions s) t)
     \<and> list_all (to_peer token) (snd (snd res))"

lemma heartbeat_sessions: "session_for_peer (gs_sessions (heartbeat token now s)) t =
    (if t = token then map_option (\<lambda>r. r\<lparr>sess_last_heartbeat := now\<rparr>) (session_for_peer (gs_sessions s) t)
     else session_for_peer (gs_sessions s) t)"
  by (simp add: heartbeat_def handle_heartbeat_def session_for_peer_def find_put split: option.split)

lemma confined_handler:
  assumes "session_for_peer (gs_sessions s) token = Some r" and "acts_for (sess_player_id r) token now s res"
  shows "confined token s res"
proof -
  consider "fst res = s" | s0 where "fst res = heartbeat token now s0" "gs_sessions s0 = gs_sessions s"
      "\<forall>q. q \<noteq> sess_player_id r \<longrightarrow> part_of s0 q = part_of s q"
    using assms(2) by (auto simp: acts_for_def)
  then show ?thesis
    using assms by cases (simp_all add: confined_def acts_for_def heartbeat_sessions)
qed

lemma confined_nothing: "confined token s (s, True, [])"
  by (simp add: confined_def split: option.split)

lemma confined_join: "confined token s (handle_join J token now payload s)"
proof -
  obtain r sm where j: "handle_join_request token (jstring J (at_key J payload ''player_name'')) now (gs_sessions s) = (r, sm)"
    by fastforce
  have shape: "handle_join J token now payload s = (if join_accepted r
      then (ensure_player (sess_player_id (join_result_session r)) (s\<lparr>gs_sessions := sm\<rparr>), False,
        snd (snd (handle_join J token now payload s)))
      else (s\<lparr>gs_sessions := sm\<rparr>, True, snd (snd (handle_join J token now payload s))))"
    by (simp add: handle_join_def j Let_def ensure_player_def)
  have out: "list_all (to_peer token) (snd (snd (handle_join J token now payload s)))"
    by (simp add: handle_join_def j Let_def to_peer_def)
  have sm: "session_for_peer sm t = session_for_peer (gs_sessions s) t" if "t \<noteq> token" for t
    using j that by (cases rule: join_request_cases) (auto simp: session_for_peer_def find_put dest!: admit_fields)
  show ?thesis
  proof (cases "join_accepted r")
    case True
    have own: "\<exists>x. session_for_peer sm token = Some x \<and> sess_player_id x = sess_player_id (join_result_session r)"
      using j True by (cases rule: join_request_cases)
        (auto simp: session_for_peer_def find_put join_accepted_def reject_def dest!: admit_fields)
    have "gs_sessions (ensure_player p (s\<lparr>gs_sessions := sm\<rparr>)) = sm" for p by (simp add: ensure_player_def)
    moreover have "part_of (ensure_player p (s\<lparr>gs_sessions := sm\<rparr>)) q = part_of s q" if "q \<noteq> p" for p q
      using part_ensure [of p q "s\<lparr>gs_sessions := sm\<rparr>"] that by simp
    ultimately show ?thesis
      using True out own sm by (subst shape) (auto simp: confined_def)
  next
    case False
    have same: "sm = gs_sessions s"
      using j False by (cases rule: join_request_cases) (auto simp: join_accepted_def dest!: admit_fields)
    then show ?thesis
      using False out by (subst shape) (auto simp: confined_def split: option.split)
  qed
qed

lemma confined_receive: "confined token s (receive J token now data s)"
proof -
  have other: "confined token s (case handle_heartbeat token now (gs_sessions s) of (known, sm) \<Rightarrow>
          (s\<lparr>gs_sessions := sm\<rparr>, \<not> known, []))"
  proof (cases "session_for_peer (gs_sessions s) token")
    case None
    then show ?thesis by (simp add: handle_heartbeat_def session_for_peer_def confined_nothing)
  next
    case (Some r)
    have "(case handle_heartbeat token now (gs_sessions s) of (known, sm) \<Rightarrow> (s\<lparr>gs_sessions := sm\<rparr>, \<not> known, []))
        = (heartbeat token now s, False, [] :: 'a server_output list)"
      using Some by (simp add: handle_heartbeat_def heartbeat_def session_for_peer_def)
    moreover have "confined token s (heartbeat token now s, False, [])"
      by (rule confined_handler [OF Some]) (rule acts_for_step, simp_all)
    ultimately show ?thesis by simp
  qed
  have "confined token s (handle_message J token now pkt s)" for pkt
    using other by (auto simp: handle_message_def Let_def intro: confined_join confined_nothing
      confined_handler handlers_act [OF refl] split: message_type.split option.split)
  then show ?thesis by (simp add: receive_def Let_def confined_nothing)
qed

section \<open>Properties\<close>

text \<open>C3: In every state the server can reach, the movement and the combat table list exactly the players
  with an active session, every such player has a loot record, and queued inputs, shots and pickups
  belong to such players and are filed under the player who sent them.\<close>

theorem tables_follow_sessions:
  assumes "server_reachable J c start s" and "max_players (vc_session c) < 2 ^ 32 - 1"
  shows "(movement_state_for (gs_movement s) p \<noteq> None \<longleftrightarrow> p \<in> session_ids (gs_sessions s))
    \<and> (combat_state_for (gs_combat s) p \<noteq> None \<longleftrightarrow> p \<in> session_ids (gs_sessions s))
    \<and> (p \<in> session_ids (gs_sessions s) \<longrightarrow> summary_for (gs_loot s) p \<noteq> None)
    \<and> (i \<in> set (queue_for (al_queues (gs_loop s)) p) \<longrightarrow> inp_player_id i = p \<and> p \<in> session_ids (gs_sessions s))
    \<and> (f \<in> set (queue_for (cs_queues (gs_combat s)) p) \<longrightarrow> fire_attacker f = p \<and> p \<in> session_ids (gs_sessions s))
    \<and> (k \<in> set (queue_for (ls_queues (gs_loot s)) p) \<longrightarrow> pick_player_id k = p \<and> p \<in> session_ids (gs_sessions s))"
proof -
  have "tables_ok (session_ids (gs_sessions s)) s" using inv_reachable [OF assms] by (simp add: server_inv_def)
  note d = tables_okD [OF this]
  have "movement_state_for (gs_movement s) p \<noteq> None \<longleftrightarrow> p \<in> session_ids (gs_sessions s)"
    unfolding d(6) [symmetric] by (simp add: movement_state_for_def domIff)
  moreover have "combat_state_for (gs_combat s) p \<noteq> None \<longleftrightarrow> p \<in> session_ids (gs_sessions s)"
    unfolding d(7) [symmetric] by (simp add: combat_state_for_def domIff)
  moreover have "summary_for (gs_loot s) p \<noteq> None" if "p \<in> session_ids (gs_sessions s)"
    using subsetD [OF d(8) that] by (auto simp: summary_for_def)
  ultimately show ?thesis using d(9,10,11) unfolding owned_def by blast
qed

text \<open>Whoever joined once is counted as connected by the match for ever. After every tick of every
  later state the player is one of the connected players, whether the session still exists or not; so
  as long as the player has not been eliminated, no other player is the last one standing.\<close>

theorem departed_counted_connected:
  assumes "server_reachable J c start s" and "max_players (vc_session c) < 2 ^ 32 - 1"
    and "p \<in> session_ids (gs_sessions s)" and "(server_step J)\<^sup>*\<^sup>* s s1"
    and "simulate_tick frame s1 = (r, s2)"
  shows "p \<in> connected_ids (gs_match s2)
    \<and> (\<forall>q. sole_contender (gs_match s2) = Some q \<longrightarrow> q = p \<or>
        (\<exists>e. score_for (gs_match s2) p = Some e \<and> sc_eliminated e))"
proof -
  have "server_reachable J c start s1"
    using assms(1,4) unfolding server_reachable_def by (rule rtranclp_trans)
  then have inv: "server_inv s1" by (rule inv_reachable) (rule assms(2))
  have "tables_ok (session_ids (gs_sessions s)) s" using inv_reachable [OF assms(1,2)] by (simp add: server_inv_def)
  then have "p \<in> known_ids s" using tables_okD(8) assms(3) by blast
  then have known: "p \<in> known_ids s1" using known_steps [OF assms(4)] by blast
  have t: "lifecycle_inv (gs_match s1)" using inv tables_okD(5) by (auto simp: server_inv_def)
  obtain mv cr cb lr lt mr mt where
    "mv = apply_inputs (al_tick_interval (gs_loop s1)) (frame_inputs frame) (gs_movement s1)" and
    "combat_resolve_tick (frame_tick frame) (al_tick_interval (gs_loop s1))
       (set_player_positions (movement_snapshot mv) (gs_combat s1)) = (cr, cb)" and
    lt: "loot_resolve_tick (frame_tick frame) (movement_snapshot mv) (combat_snapshot cb) (death_events cr) (gs_loot s1) = (lr, lt)" and
    mt: "lifecycle_resolve_tick (frame_tick frame) (al_tick_interval (gs_loop s1))
       (List.map sess_player_id (active_sessions (gs_sessions s1))) (combat_snapshot cb) (death_events cr)
       (inventory_snapshot lt) (gs_match s1) = (mr, mt)" and
    s2: "s2 = s1\<lparr>gs_movement := mv, gs_combat := fold combat_respawn (lr_respawned mr) cb, gs_loot := lt, gs_match := mt\<rparr>"
    by (rule simulate_parts [OF assms(5)])
  have lt_inv: "loot_inv lt"
    using loot_machine.exec_invar [of "gs_loot s1" "LootTick (frame_tick frame) (movement_snapshot mv) (combat_snapshot cb) (death_events cr)"]
      lt inv tables_okD(4) by (auto simp: server_inv_def)
  have "p \<in> listed (ls_players lt)"
    using known loot_grows_simulate [OF assms(5)] unfolding s2 by auto
  then have "p \<in> sum_player_id ` set (inventory_snapshot lt)" by (simp only: summary_ids [OF lt_inv])
  then have "p \<in> connected_ids mt" using connected_tick [OF t mt] by (auto simp: participants_def)
  moreover have "table_ok mt" using tick_refines_clock [OF t mt] by (simp add: lifecycle_inv_def)
  ultimately show ?thesis
    unfolding s2 using counted_contender by fastforce
qed

text \<open>C9: A message acts for its sender only. From a peer that has no session afterwards, the message
  changes nothing at all and counts as rejected; otherwise the inputs, shots, pickups and records of
  every player other than the sender's own stay as they are. The sessions of other peers are
  untouched, and every answer goes to the sender.\<close>

theorem message_acts_for_sender:
  assumes "receive J token now data s = (s', rejected, out)"
  shows "(session_for_peer (gs_sessions s') token = None \<longrightarrow> s' = s \<and> rejected)
    \<and> (\<forall>r q. session_for_peer (gs_sessions s') token = Some r \<longrightarrow> q \<noteq> sess_player_id r \<longrightarrow> part_of s' q = part_of s q)
    \<and> (\<forall>t. t \<noteq> token \<longrightarrow> session_for_peer (gs_sessions s') t = session_for_peer (gs_sessions s) t)
    \<and> list_all (to_peer token) out"
  using confined_receive [of token s J now data] unfolding assms confined_def
  by (auto split: option.splits)

section \<open>The properties at a concrete server\<close>

definition demo_settings :: server_settings where
  "demo_settings = \<lparr>gc_max_players = 2, gc_valid_block_ids = {0, 1, 2}, gc_profile = default_profile,
     gc_starting_health = 100, gc_respawns_per_player = 1, gc_broadcast_on_snapshot = True, gc_include_scoreboard = True\<rparr>"

definition demo_server_config :: server_config where
  "demo_server_config = \<lparr>vc_settings = demo_settings, vc_session = \<lparr>max_players = 2, heartbeat_timeout = 3\<rparr>,
     vc_runtime = \<lparr>tick_rate_hz = 20, input_queue_capacity = 8, snapshot_interval_ticks = 2\<rparr>, vc_tuning = default_tuning,
     vc_weapons = [demo_rifle], vc_combat = demo_config, vc_treasures = [demo_coin], vc_loot = demo_loot_config,
     vc_match = demo_match_config, vc_replication = one_chunk_config, vc_chunks_x = 1, vc_chunks_z = 1, vc_world_height = 32\<rparr>"

definition join_text :: "string \<Rightarrow> string" where
  "join_text name = serialize text_json \<lparr>pk_type = JoinRequest,
     pk_payload = VObject [(''player_name'', VString name)], pk_version = 1\<rparr>"

definition empty_server :: "json_value server" where
  "empty_server = server_init demo_server_config 0"

definition one_player_server :: "json_value server" where
  "one_player_server = fst (receive text_json 7 0 (join_text ''ann'') empty_server)"

definition join_packet :: "string \<Rightarrow> json_value packet" where
  "join_packet name = \<lparr>pk_type = JoinRequest, pk_payload = VObject [(''player_name'', VString name)], pk_version = 1\<rparr>"

lemma join_parsed:
  assumes "json_plain name"
  shows "try_deserialize text_json (join_text name) = \<lparr>pr_packet = join_packet name, pr_error = No_Error, pr_detail = []\<rparr>"
proof -
  have "textual (pk_payload (join_packet name))" using assms by (simp add: join_packet_def json_plain_def)
  moreover have "packet_valid text_json (join_packet name)"
    by (simp add: packet_valid_def packet_conforms_def join_packet_def is_supported_version_def min_supported_version_def
      max_supported_version_def schema_for_def message_schemas_def join_request_fields_def field_conforms_def
      text_json_def contains_def at_key_def json_types)
  ultimately show ?thesis
    using json_library.packet_back [OF text_json_library, of "join_packet name"]
    by (simp add: join_text_def join_packet_def)
qed

definition ann :: session_record where
  "ann = \<lparr>sess_player_id = 1, sess_player_name = ''ann'', sess_peer_token = 7, sess_last_heartbeat = 0\<rparr>"

definition ann_sessions :: session_manager where
  "ann_sessions = \<lparr>sm_config = \<lparr>max_players = 2, heartbeat_timeout = 3\<rparr>, slot_owners = [0, 7, 0],
     sessions_by_peer = [(7, ann)], slot_by_player_name = [(''ann'', 1)]\<rparr>"

lemma ann_joins:
  "handle_join_request 7 ''ann'' 0 (session_manager_init \<lparr>max_players = 2, heartbeat_timeout = 3\<rparr>) =
     (\<lparr>join_result_status = JoinAccepted, join_result_error = JoinErrorNone, join_result_session = ann\<rparr>, ann_sessions)"
  by code_simp

lemma one_player: "gs_sessions one_player_server = ann_sessions"
    "fst (snd (receive text_json 7 0 (join_text ''ann'') empty_server)) = False"
    "snd (snd (receive text_json 7 0 (join_text ''ann'') empty_server)) \<noteq> []"
proof -
  have "json_plain ''ann''" by code_simp
  note parsed = join_parsed [OF this]
  have name: "jstring text_json (at_key text_json (VObject [(''player_name'', VString ''ann'')]) ''player_name'') = ''ann''"
    by code_simp
  have "gs_sessions empty_server = session_manager_init \<lparr>max_players = 2, heartbeat_timeout = 3\<rparr>"
    by (simp add: empty_server_def server_init_def demo_server_config_def)
  then show "gs_sessions one_player_server = ann_sessions"
    "fst (snd (receive text_json 7 0 (join_text ''ann'') empty_server)) = False"
    "snd (snd (receive text_json 7 0 (join_text ''ann'') empty_server)) \<noteq> []"
    by (simp_all add: one_player_server_def receive_def parsed handle_message_def join_packet_def handle_join_def name
      ann_joins join_accepted_def Let_def)
qed

lemma ann_received:
  "receive text_json 7 0 (join_text ''ann'') empty_server =
     (one_player_server, False, snd (snd (receive text_json 7 0 (join_text ''ann'') empty_server)))"
  using one_player(2) by (simp add: one_player_server_def prod_eq_iff)

lemma one_player_reachable: "server_reachable text_json demo_server_config 0 one_player_server"
proof -
  have "server_step text_json empty_server one_player_server"
    by (rule server_step.message [OF _ ann_received]) simp
  then show ?thesis unfolding server_reachable_def empty_server_def by blast
qed

lemma one_player_ids: "session_ids (gs_sessions one_player_server) = {1}"
  by (simp add: one_player ann_sessions_def session_ids_def session_for_peer_def ann_def)

text \<open>The peer of the only player disconnects.\<close>

definition deserted_server :: "json_value server" where
  "deserted_server = peer_disconnected 7 one_player_server"

lemma deserted: "session_ids (gs_sessions deserted_server) = {}"
proof -
  have "handle_disconnect 7 ann_sessions = (Some ann, ann_sessions\<lparr>slot_owners := [0, 0, 0], sessions_by_peer := []\<rparr>)"
    by code_simp
  then have "gs_sessions deserted_server = ann_sessions\<lparr>slot_owners := [0, 0, 0], sessions_by_peer := []\<rparr>"
    by (simp add: deserted_server_def peer_disconnected_def one_player remove_player_def)
  then show ?thesis by (simp add: session_ids_def session_for_peer_def)
qed

definition idle_frame :: tick_frame where
  "idle_frame = \<lparr>frame_tick = 1, frame_inputs = [], frame_snapshot_due = False\<rparr>"

lemma demo_capacity: "max_players (vc_session demo_server_config) < 2 ^ 32 - 1"
  by (simp add: demo_server_config_def)

theorem tables_follow_sessions_witness:
  "movement_state_for (gs_movement one_player_server) 1 \<noteq> None \<and> combat_state_for (gs_combat one_player_server) 1 \<noteq> None
    \<and> movement_state_for (gs_movement one_player_server) 2 = None"
  using tables_follow_sessions [OF one_player_reachable demo_capacity, of 1]
    tables_follow_sessions [OF one_player_reachable demo_capacity, of 2]
  unfolding one_player_ids by simp

theorem departed_counted_connected_witness:
  "session_ids (gs_sessions deserted_server) = {}
    \<and> 1 \<in> connected_ids (gs_match (snd (simulate_tick idle_frame deserted_server)))"
proof
  show "session_ids (gs_sessions deserted_server) = {}" by (rule deserted)
  have "server_step text_json one_player_server deserted_server"
    unfolding deserted_server_def by (rule server_step.disconnect)
  then have "(server_step text_json)\<^sup>*\<^sup>* one_player_server deserted_server" by blast
  from departed_counted_connected [OF one_player_reachable demo_capacity _ this prod.collapse [symmetric], of 1 idle_frame]
  show "1 \<in> connected_ids (gs_match (snd (simulate_tick idle_frame deserted_server)))"
    by (simp add: one_player_ids)
qed

theorem message_acts_for_sender_witness:
  "part_of one_player_server 2 = part_of empty_server 2 \<and> session_for_peer (gs_sessions one_player_server) 7 = Some ann"
proof -
  have s: "session_for_peer (gs_sessions one_player_server) 7 = Some ann"
    by (simp add: one_player ann_sessions_def session_for_peer_def)
  with message_acts_for_sender [OF ann_received] show ?thesis by (simp add: ann_def)
qed

end
