(* ===== verification/Server_Output.thy ===== *)
theory Server_Output
  imports Server_Invariant
begin

text \<open>
  Everything the server sends (server/src/main.cpp) conforms to the protocol: the answer to a message,
  the packets and the snapshots of a tick. A client that parses what the server serialized accepts it.
\<close>

definition output_valid :: "'j json_api \<Rightarrow> 'j server_output \<Rightarrow> bool" where
  "output_valid J e \<longleftrightarrow> (case e of Send token pkt \<Rightarrow> packet_valid J pkt | Kick token \<Rightarrow> True)"

lemma output_valid_simps [simp]: "output_valid J (Send token pkt) = packet_valid J pkt" "output_valid J (Kick token)"
  by (simp_all add: output_valid_def)

context json_library
begin

lemma receive_valid: "list_all (output_valid J) (snd (snd (receive J token now data s)))"
proof -
  have "list_all (output_valid J) (snd (snd (handle_join J token now payload s)))" for payload
    by (simp add: handle_join_def Let_def case_prod_beta join_accept_valid join_reject_valid match_state_valid)
  moreover have "snd (snd (handler J token now payload session s)) = []"
    if "handler \<in> {handle_heartbeat_message, handle_player_input, handle_block_update, handle_weapon_fire, handle_treasure_pickup}"
    for handler payload session
    using that handlers_act [OF refl, of session token now s J payload] unfolding acts_for_def by auto
  ultimately have "list_all (output_valid J) (snd (snd (handle_message J token now pkt s)))" for pkt
    by (simp add: handle_message_def Let_def case_prod_beta split: message_type.split option.split)
  then show ?thesis by (simp add: receive_def Let_def)
qed

lemma tick_packets_valid: "list_all (output_valid J) (tick_packets J due r s)"
  by (auto simp: tick_packets_def Let_def list_all_iff send_to_def append_combat_outputs_def send_inventory_def
      damage_valid inventory_valid match_state_valid split: option.splits if_splits)

lemma snapshot_valid:
  assumes "jtype J (sp_players parts) = J_Array" and "jtype J (sp_events parts) = J_Array"
  shows "packet_valid J \<lparr>pk_type = StateSnapshot, pk_payload = snapshot_payload J parts u, pk_version = protocol_version\<rparr>"
  unfolding snapshot_payload_def
  by (rule object_valid [where s = "\<lparr>ms_type = StateSnapshot, ms_name = ''state_snapshot'', ms_fields = state_snapshot_fields\<rparr>"])
    (simp_all add: valid_simps state_snapshot_fields_def assms)

lemma snapshots_valid: "list_all (output_valid J) (snd (tick_snapshots J tick r s))"
proof -
  have "list_all (output_valid J) (snd (fold (send_snapshot J parts) xs st))"
    if "jtype J (sp_players parts) = J_Array" "jtype J (sp_events parts) = J_Array" "list_all (output_valid J) (snd st)"
    for parts xs st
    by (rule fold_preserves [where P = "\<lambda>st. list_all (output_valid J) (snd st)"])
      (simp_all add: that send_snapshot_def case_prod_beta snapshot_valid)
  then show ?thesis
    by (simp add: tick_snapshots_def Let_def case_prod_beta snapshot_players_to_json_def types)
qed

lemma server_tick_valid: "list_all (output_valid J) (snd st) \<Longrightarrow> list_all (output_valid J) (snd (server_tick J frame st))"
  by (simp add: server_tick_def case_prod_beta Let_def tick_packets_valid snapshots_valid)

lemma round_valid:
  assumes "server_round J timeout_now tick_now s = Some (s', out)"
  shows "list_all (output_valid J) out"
proof -
  have "list_all (output_valid J) (snd (expire_sessions timeout_now s))"
    unfolding expire_sessions_def case_prod_beta
    by (rule fold_preserves [where P = "\<lambda>st. list_all (output_valid J) (snd st)"]) (simp_all add: expel_def case_prod_beta Let_def)
  then have "list_all (output_valid J) (snd (fold (server_tick J) ts (s1, snd (expire_sessions timeout_now s))))" for ts s1
    by (intro fold_preserves [where P = "\<lambda>st. list_all (output_valid J) (snd st)"]) (simp_all add: server_tick_valid)
  then show ?thesis
    using assms by (auto simp: server_round_def case_prod_beta split: option.split_asm prod.split_asm) (metis snd_conv)
qed

end

text \<open>C29: Every packet the server sends conforms to the protocol: in answer to a message, whatever its
  bytes are, and in every round of its loop, with a supported version, a known type and every field
  the type requires, of the right JSON type.\<close>

theorem server_sends_valid_packets:
  assumes "json_library J textual"
  shows "list_all (output_valid J) (snd (snd (receive J token now data s)))
    \<and> (server_round J timeout_now tick_now s = Some (s', out) \<longrightarrow> list_all (output_valid J) out)"
  using json_library.receive_valid [OF assms] json_library.round_valid [OF assms] by blast

theorem server_sends_valid_packets_witness:
  "list_all (output_valid text_json) (snd (snd (receive text_json 7 0 (join_text ''ann'') empty_server)))
    \<and> snd (snd (receive text_json 7 0 (join_text ''ann'') empty_server)) \<noteq> []"
proof
  show "list_all (output_valid text_json) (snd (snd (receive text_json 7 0 (join_text ''ann'') empty_server)))"
    using server_sends_valid_packets [OF text_json_library] by blast
  show "snd (snd (receive text_json 7 0 (join_text ''ann'') empty_server)) \<noteq> []"
    by (rule one_player(3))
qed

end
