(* ===== verification/Json_Reads.thy ===== *)
theory Json_Reads
  imports Json_Api
begin

text \<open>
  Reads of a JSON document that may throw: \<open>value(key, default)\<close> gives the default for a key that is
  missing; a value that cannot be read as the default's type throws \<open>type_error\<close>. Any number is read
  as an \<open>int\<close>, a \<open>float\<close> or a \<open>double\<close>, by the C++ conversion of the number that the document holds; an
  \<open>int\<close> and a \<open>float\<close> also of a boolean. Exceptions are the left values of a sum.
\<close>

datatype json_error = Type_Error

named_theorems returns_iff \<open>when a sequence of reads returns\<close>

definition and_then :: "'e + 'a \<Rightarrow> ('a \<Rightarrow> 'e + 'b) \<Rightarrow> 'e + 'b" where
  "and_then m f = (case m of Inl e \<Rightarrow> Inl e | Inr x \<Rightarrow> f x)"

lemma and_then_simps [simp]: "and_then (Inl e) f = Inl e" "and_then (Inr x) f = f x"
  by (simp_all add: and_then_def)

lemma and_then_returns [returns_iff]: "and_then m f = Inr y \<longleftrightarrow> (\<exists>x. m = Inr x \<and> f x = Inr y)"
  by (simp add: and_then_def split: sum.split)

text \<open>A read returns.\<close>

definition returns :: "'e + 'a \<Rightarrow> bool" where
  "returns m \<longleftrightarrow> (\<exists>x. m = Inr x)"

lemma returns_Inr [simp]: "returns (Inr x)"
  by (simp add: returns_def)

lemma returnsE: "returns m \<Longrightarrow> (\<And>x. m = Inr x \<Longrightarrow> P) \<Longrightarrow> P"
  by (auto simp: returns_def)

lemma returns_and_then [intro]: "returns m \<Longrightarrow> (\<And>x. m = Inr x \<Longrightarrow> returns (f x)) \<Longrightarrow> returns (and_then m f)"
  by (auto simp: returns_def)

text \<open>A read returns a value with a property.\<close>

definition yields :: "'e + 'a \<Rightarrow> ('a \<Rightarrow> bool) \<Rightarrow> bool" where
  "yields m P \<longleftrightarrow> (\<exists>x. m = Inr x \<and> P x)"

lemma yields_and_then: "yields m P \<Longrightarrow> (\<And>x. P x \<Longrightarrow> yields (f x) Q) \<Longrightarrow> yields (and_then m f) Q"
  by (auto simp: yields_def)

lemma yields_Inr: "P x \<Longrightarrow> yields (Inr x) P"
  by (simp add: yields_def)

lemma yields_returned: "yields m P \<Longrightarrow> m = Inr x \<Longrightarrow> P x"
  by (auto simp: yields_def)

definition get_or :: "'j json_api \<Rightarrow> ('j \<Rightarrow> json_error + 'a) \<Rightarrow> 'j \<Rightarrow> string \<Rightarrow> 'a \<Rightarrow> json_error + 'a" where
  "get_or J get v key dflt = (case jfind J v key of None \<Rightarrow> Inr dflt | Some x \<Rightarrow> get x)"

definition get_string :: "'j json_api \<Rightarrow> 'j \<Rightarrow> json_error + string" where
  "get_string J v = (if is_string J v then Inr (jstring J v) else Inl Type_Error)"

definition get_bool :: "'j json_api \<Rightarrow> 'j \<Rightarrow> json_error + bool" where
  "get_bool J v = (if is_boolean J v then Inr (jbool J v) else Inl Type_Error)"

definition get_int :: "'j json_api \<Rightarrow> 'j \<Rightarrow> json_error + int" where
  "get_int J v =
     (if is_number_unsigned J v then Inr (wrap_i32 (uint (ju64 J v)))
      else if is_number_integer J v then Inr (wrap_i32 (ji64 J v))
      else if is_number J v then Inr (fp_to_i32 (jdouble J v))
      else if is_boolean J v then Inr (if jbool J v then 1 else 0)
      else Inl Type_Error)"

definition get_float :: "'j json_api \<Rightarrow> 'j \<Rightarrow> json_error + fp" where
  "get_float J v =
     (if is_number_unsigned J v then Inr (fp_of_int Single (uint (ju64 J v)))
      else if is_number_integer J v then Inr (fp_of_int Single (ji64 J v))
      else if is_number J v then Inr (fp_cast Single (jdouble J v))
      else if is_boolean J v then Inr (if jbool J v then Fin 1 else Fin 0)
      else Inl Type_Error)"

definition get_double :: "'j json_api \<Rightarrow> 'j \<Rightarrow> json_error + fp" where
  "get_double J v = (if is_number J v then Inr (jdouble J v) else Inl Type_Error)"

lemma get_returns:
  "returns (get_string J v) \<longleftrightarrow> is_string J v" "returns (get_bool J v) \<longleftrightarrow> is_boolean J v"
  "is_number J v \<Longrightarrow> returns (get_int J v)" "is_number J v \<Longrightarrow> returns (get_float J v)"
  "is_number J v \<Longrightarrow> returns (get_double J v)"
  by (auto simp: get_string_def get_bool_def get_int_def get_float_def get_double_def returns_def)

text \<open>A member that has to be an object to be read.\<close>

definition section_or :: "'j json_api \<Rightarrow> 'j \<Rightarrow> string \<Rightarrow> 'a \<Rightarrow> ('j \<Rightarrow> 'e + 'a) \<Rightarrow> 'e + 'a" where
  "section_or J v key dflt read =
     (if contains J v key \<and> is_object J (at_key J v key) then read (at_key J v key) else Inr dflt)"

end
