(* ===== verification/Config_Check.thy ===== *)
theory Config_Check
  imports Json_Reads World_Profile Game_Rules
begin

text \<open>
  The validation of the server's configuration document (server/ServerConfigValidation.h and .cpp): a
  sequence of checks of single fields, each of which adds its messages to a list. Shown: the list is
  empty exactly for the documents that conform to a table of the fields, with their types and ranges.
\<close>

section \<open>Reading a field\<close>

text \<open>A field is absent, of a wrong type (and then reported), or has a value.\<close>

datatype 'a field_read = Absent | Invalid_Field | Value 'a

type_synonym 'a reported = "'a field_read \<times> string list"

definition add_error :: "string \<Rightarrow> string \<Rightarrow> string" where
  "add_error path detail = path @ '': '' @ detail"

definition to_i64 :: "'j json_api \<Rightarrow> 'j \<Rightarrow> int option" where
  "to_i64 J v =
     (if is_number_integer J v then Some (ji64 J v)
      else if is_number_unsigned J v then
        (let raw = ju64 J v in if 9223372036854775807 < raw then None else Some (uint raw))
      else None)"

definition read_integer_field :: "'j json_api \<Rightarrow> 'j \<Rightarrow> string \<Rightarrow> string \<Rightarrow> int reported" where
  "read_integer_field J parent key path =
     (if \<not> contains J parent key then (Absent, [])
      else case to_i64 J (at_key J parent key) of
        None \<Rightarrow> (Invalid_Field, [add_error path ''expected integer value.''])
      | Some n \<Rightarrow> (Value n, []))"

definition read_number_field :: "'j json_api \<Rightarrow> 'j \<Rightarrow> string \<Rightarrow> string \<Rightarrow> fp reported" where
  "read_number_field J parent key path =
     (if \<not> contains J parent key then (Absent, [])
      else if \<not> is_number J (at_key J parent key)
      then (Invalid_Field, [add_error path ''expected numeric value.''])
      else let value = jdouble J (at_key J parent key) in
        if \<not> fp_is_finite value then (Invalid_Field, [add_error path ''expected finite numeric value.''])
        else (Value value, []))"

definition read_bool_field :: "'j json_api \<Rightarrow> 'j \<Rightarrow> string \<Rightarrow> string \<Rightarrow> bool reported" where
  "read_bool_field J parent key path =
     (if \<not> contains J parent key then (Absent, [])
      else if \<not> is_boolean J (at_key J parent key)
      then (Invalid_Field, [add_error path ''expected boolean value.''])
      else (Value (jbool J (at_key J parent key)), []))"

definition read_string_field :: "'j json_api \<Rightarrow> 'j \<Rightarrow> string \<Rightarrow> string \<Rightarrow> string reported" where
  "read_string_field J parent key path =
     (if \<not> contains J parent key then (Absent, [])
      else if \<not> is_string J (at_key J parent key)
      then (Invalid_Field, [add_error path ''expected string value.''])
      else (Value (jstring J (at_key J parent key)), []))"

text \<open>The checks of an object's members, or its error.\<close>

definition read_object_field :: "'j json_api \<Rightarrow> 'j \<Rightarrow> string \<Rightarrow> string \<Rightarrow> ('j \<Rightarrow> string list) \<Rightarrow> string list" where
  "read_object_field J parent key path checks =
     (if \<not> contains J parent key then []
      else if \<not> is_object J (at_key J parent key) then [add_error path ''expected object.'']
      else checks (at_key J parent key))"

text \<open>The value of a valid field has to pass a test.\<close>

definition require :: "('a \<Rightarrow> bool) \<Rightarrow> string \<Rightarrow> string \<Rightarrow> 'a reported \<Rightarrow> string list" where
  "require test path detail = (\<lambda>(r, errors). errors @
     (case r of Value x \<Rightarrow> if test x then [] else [add_error path detail] | _ \<Rightarrow> []))"

definition validate_positive_integer :: "'j json_api \<Rightarrow> 'j \<Rightarrow> string \<Rightarrow> string \<Rightarrow> string list" where
  "validate_positive_integer J parent key path =
     require (\<lambda>n. 0 < n) path ''must be greater than zero.'' (read_integer_field J parent key path)"

definition validate_non_negative_integer :: "'j json_api \<Rightarrow> 'j \<Rightarrow> string \<Rightarrow> string \<Rightarrow> string list" where
  "validate_non_negative_integer J parent key path =
     require (\<lambda>n. 0 \<le> n) path ''must be zero or greater.'' (read_integer_field J parent key path)"

definition validate_positive_number :: "'j json_api \<Rightarrow> 'j \<Rightarrow> string \<Rightarrow> string \<Rightarrow> string list" where
  "validate_positive_number J parent key path =
     require (\<lambda>x. \<not> fp_le x (Fin 0)) path ''must be greater than zero.'' (read_number_field J parent key path)"

definition validate_non_negative_number :: "'j json_api \<Rightarrow> 'j \<Rightarrow> string \<Rightarrow> string \<Rightarrow> string list" where
  "validate_non_negative_number J parent key path =
     require (\<lambda>x. \<not> fp_lt x (Fin 0)) path ''must be zero or greater.'' (read_number_field J parent key path)"

definition validate_ratio_number :: "'j json_api \<Rightarrow> 'j \<Rightarrow> string \<Rightarrow> string \<Rightarrow> string list" where
  "validate_ratio_number J parent key path =
     require (\<lambda>x. \<not> (fp_lt x (Fin 0) \<or> fp_lt (Fin 1) x)) path ''must be between 0.0 and 1.0.''
       (read_number_field J parent key path)"

text \<open>A boolean that is read for its error only.\<close>

definition validate_bool :: "'j json_api \<Rightarrow> 'j \<Rightarrow> string \<Rightarrow> string \<Rightarrow> string list" where
  "validate_bool J parent key path = snd (read_bool_field J parent key path)"

section \<open>The sections of the document\<close>

definition check_connection :: "'j json_api \<Rightarrow> 'j \<Rightarrow> string list" where
  "check_connection J connection =
     validate_bool J connection ''port_auto_discovery'' ''connection.port_auto_discovery''
     @ require (\<lambda>s. s \<noteq> []) ''connection.runtime_port_file'' ''must not be empty.''
         (read_string_field J connection ''runtime_port_file'' ''connection.runtime_port_file'')"

definition check_session :: "'j json_api \<Rightarrow> 'j \<Rightarrow> string list" where
  "check_session J session =
     validate_positive_integer J session ''heartbeat_timeout_ms'' ''session.heartbeat_timeout_ms''"

definition check_movement :: "'j json_api \<Rightarrow> 'j \<Rightarrow> string list" where
  "check_movement J movement =
     validate_positive_number J movement ''accel_ground'' ''runtime.movement.accel_ground''
     @ validate_positive_number J movement ''accel_air'' ''runtime.movement.accel_air''
     @ validate_non_negative_number J movement ''friction_ground'' ''runtime.movement.friction_ground''
     @ validate_positive_number J movement ''max_speed_walk'' ''runtime.movement.max_speed_walk''
     @ validate_positive_number J movement ''sprint_multiplier'' ''runtime.movement.sprint_multiplier''
     @ validate_positive_number J movement ''crouch_multiplier'' ''runtime.movement.crouch_multiplier''
     @ validate_positive_number J movement ''jump_velocity'' ''runtime.movement.jump_velocity''
     @ validate_positive_number J movement ''gravity'' ''runtime.movement.gravity''"

definition check_camera :: "'j json_api \<Rightarrow> 'j \<Rightarrow> string list" where
  "check_camera J camera =
     validate_positive_number J camera ''mouse_sensitivity'' ''runtime.camera.mouse_sensitivity''
     @ validate_positive_number J camera ''base_fov_degrees'' ''runtime.camera.base_fov_degrees''
     @ validate_non_negative_number J camera ''sprint_fov_bonus_degrees'' ''runtime.camera.sprint_fov_bonus_degrees''
     @ validate_positive_number J camera ''height_smoothing'' ''runtime.camera.height_smoothing''"

definition check_alerts :: "'j json_api \<Rightarrow> 'j \<Rightarrow> string list" where
  "check_alerts J alerts =
     validate_ratio_number J alerts ''max_tick_lag_rate'' ''runtime.profiling.alerts.max_tick_lag_rate''
     @ validate_ratio_number J alerts ''max_packet_drop_rate'' ''runtime.profiling.alerts.max_packet_drop_rate''
     @ validate_ratio_number J alerts ''max_parse_error_rate'' ''runtime.profiling.alerts.max_parse_error_rate''
     @ validate_non_negative_integer J alerts ''min_active_players'' ''runtime.profiling.alerts.min_active_players''"

text \<open>The value of a valid field, or a default.\<close>

definition value_or_default :: "'a reported \<Rightarrow> 'a \<Rightarrow> 'a" where
  "value_or_default r d = (case fst r of Value x \<Rightarrow> x | _ \<Rightarrow> d)"

definition check_profiling :: "'j json_api \<Rightarrow> 'j \<Rightarrow> string list" where
  "check_profiling J profiling =
     (let report = read_integer_field J profiling ''report_interval_ticks'' ''runtime.profiling.report_interval_ticks'';
          history = read_integer_field J profiling ''history_size_ticks'' ''runtime.profiling.history_size_ticks'';
          report_interval_ticks = value_or_default report 300;
          history_size_ticks = value_or_default history 600
      in validate_bool J profiling ''enabled'' ''runtime.profiling.enabled''
         @ require (\<lambda>n. 0 < n) ''runtime.profiling.report_interval_ticks'' ''must be greater than zero.'' report
         @ require (\<lambda>n. 0 < n) ''runtime.profiling.history_size_ticks'' ''must be greater than zero.'' history
         @ validate_non_negative_number J profiling ''tick_lag_tolerance_ms'' ''runtime.profiling.tick_lag_tolerance_ms''
         @ read_object_field J profiling ''alerts'' ''runtime.profiling.alerts'' (check_alerts J)
         @ (if 0 < history_size_ticks \<and> 0 < report_interval_ticks \<and> history_size_ticks < report_interval_ticks
            then [add_error ''runtime.profiling.history_size_ticks''
              ''must be greater than or equal to report_interval_ticks.''] else []))"

definition check_runtime :: "'j json_api \<Rightarrow> 'j \<Rightarrow> string list" where
  "check_runtime J runtime =
     validate_positive_integer J runtime ''tick_rate_hz'' ''runtime.tick_rate_hz''
     @ validate_positive_integer J runtime ''snapshot_interval_ticks'' ''runtime.snapshot_interval_ticks''
     @ validate_positive_integer J runtime ''input_queue_capacity'' ''runtime.input_queue_capacity''
     @ validate_positive_number J runtime ''movement_speed_units_per_second'' ''runtime.movement_speed_units_per_second''
     @ read_object_field J runtime ''movement'' ''runtime.movement'' (check_movement J)
     @ read_object_field J runtime ''camera'' ''runtime.camera'' (check_camera J)
     @ validate_bool J runtime ''match_state_broadcast_on_snapshot'' ''runtime.match_state_broadcast_on_snapshot''
     @ validate_bool J runtime ''snapshot_include_match_scoreboard'' ''runtime.snapshot_include_match_scoreboard''
     @ read_object_field J runtime ''profiling'' ''runtime.profiling'' (check_profiling J)"

definition check_combat :: "'j json_api \<Rightarrow> 'j \<Rightarrow> string list" where
  "check_combat J combat =
     validate_positive_integer J combat ''starting_health'' ''combat.starting_health''
     @ validate_positive_number J combat ''hitscan_range_units'' ''combat.hitscan_range_units''
     @ validate_positive_number J combat ''projectile_range_units'' ''combat.projectile_range_units''
     @ validate_positive_number J combat ''projectile_speed_units_per_second'' ''combat.projectile_speed_units_per_second''
     @ validate_positive_number J combat ''hit_radius_units'' ''combat.hit_radius_units''"

definition check_inventory :: "'j json_api \<Rightarrow> 'j \<Rightarrow> string list" where
  "check_inventory J inventory =
     validate_positive_integer J inventory ''spawn_interval_ticks'' ''inventory.spawn_interval_ticks''
     @ validate_positive_integer J inventory ''max_active_spawns'' ''inventory.max_active_spawns''
     @ validate_positive_integer J inventory ''pickup_queue_capacity'' ''inventory.pickup_queue_capacity''
     @ validate_positive_number J inventory ''pickup_radius_units'' ''inventory.pickup_radius_units''
     @ validate_positive_integer J inventory ''max_items_per_player'' ''inventory.max_items_per_player''
     @ validate_positive_integer J inventory ''max_weight_per_player'' ''inventory.max_weight_per_player''
     @ validate_non_negative_number J inventory ''death_drop_spread_units'' ''inventory.death_drop_spread_units''"

definition check_match :: "'j json_api \<Rightarrow> 'j \<Rightarrow> string list" where
  "check_match J match =
     validate_non_negative_integer J match ''pre_match_seconds'' ''match.pre_match_seconds''
     @ validate_positive_integer J match ''duration_seconds'' ''match.duration_seconds''
     @ validate_non_negative_integer J match ''respawns_per_player'' ''match.respawns_per_player''
     @ validate_positive_integer J match ''respawn_delay_seconds'' ''match.respawn_delay_seconds''
     @ validate_positive_integer J match ''min_players_to_start'' ''match.min_players_to_start''"

definition check_placement :: "'j json_api \<Rightarrow> 'j \<Rightarrow> string list" where
  "check_placement J placement =
     validate_positive_integer J placement ''cell_size_chunks'' ''map.world_expansion.placement.cell_size_chunks''
     @ validate_non_negative_integer J placement ''jitter_units'' ''map.world_expansion.placement.jitter_units''
     @ validate_non_negative_integer J placement ''min_poi_spacing_units''
         ''map.world_expansion.placement.min_poi_spacing_units''"

definition check_poi_types :: "'j json_api \<Rightarrow> 'j \<Rightarrow> string list" where
  "check_poi_types J poi_types =
     validate_bool J poi_types ''outpost'' ''map.world_expansion.poi_types.outpost''
     @ validate_bool J poi_types ''ruins'' ''map.world_expansion.poi_types.ruins''
     @ validate_bool J poi_types ''loot_shrine'' ''map.world_expansion.poi_types.loot_shrine''"

definition check_expansion :: "'j json_api \<Rightarrow> 'j \<Rightarrow> string list" where
  "check_expansion J expansion =
     validate_bool J expansion ''enabled'' ''map.world_expansion.enabled''
     @ require (\<lambda>s. parse_poi_density s \<noteq> None) ''map.world_expansion.poi_density''
         ''must be one of: low, medium, high.''
         (read_string_field J expansion ''poi_density'' ''map.world_expansion.poi_density'')
     @ read_object_field J expansion ''placement'' ''map.world_expansion.placement'' (check_placement J)
     @ read_object_field J expansion ''poi_types'' ''map.world_expansion.poi_types'' (check_poi_types J)
     @ validate_positive_number J expansion ''loot_bias_multiplier'' ''map.world_expansion.loot_bias_multiplier''"

definition check_map :: "'j json_api \<Rightarrow> 'j \<Rightarrow> string list" where
  "check_map J m =
     validate_positive_integer J m ''chunks_x'' ''map.chunks_x''
     @ validate_positive_integer J m ''chunks_z'' ''map.chunks_z''
     @ validate_positive_integer J m ''world_height'' ''map.world_height''
     @ validate_non_negative_integer J m ''draw_distance_chunks'' ''map.draw_distance_chunks''
     @ require (\<lambda>n. \<not> (n < 0 \<or> 4294967295 < n)) ''map.world_seed'' ''must be between 0 and 4294967295.''
         (read_integer_field J m ''world_seed'' ''map.world_seed'')
     @ read_object_field J m ''world_expansion'' ''map.world_expansion'' (check_expansion J)"

definition validate_server_config :: "'j json_api \<Rightarrow> 'j \<Rightarrow> string list" where
  "validate_server_config J config =
     (if \<not> is_object J config then [add_error ''<root>'' ''expected top-level JSON object.'']
      else validate_positive_integer J config ''max_players'' ''max_players''
        @ require (\<lambda>n. \<not> (n \<le> 0 \<or> 65535 < n)) ''port'' ''must be between 1 and 65535.''
            (read_integer_field J config ''port'' ''port'')
        @ read_object_field J config ''connection'' ''connection'' (check_connection J)
        @ require (\<lambda>s. lowercase s = ''all'' \<or> lowercase s = ''none'') ''loot_drop'' ''must be one of: all, none.''
            (read_string_field J config ''loot_drop'' ''loot_drop'')
        @ read_object_field J config ''session'' ''session'' (check_session J)
        @ read_object_field J config ''runtime'' ''runtime'' (check_runtime J)
        @ read_object_field J config ''combat'' ''combat'' (check_combat J)
        @ read_object_field J config ''inventory'' ''inventory'' (check_inventory J)
        @ require (\<lambda>n. 0 < n) ''match_time_minutes'' ''must be greater than zero.''
            (read_integer_field J config ''match_time_minutes'' ''match_time_minutes'')
        @ require (\<lambda>n. 0 \<le> n) ''respawns'' ''must be zero or greater.''
            (read_integer_field J config ''respawns'' ''respawns'')
        @ read_object_field J config ''match'' ''match'' (check_match J)
        @ read_object_field J config ''map'' ''map'' (check_map J))"

section \<open>The table of the fields\<close>

text \<open>
  The reference: what a document may say, as data. A field is optional; if it is there its value has a
  type and passes a test. A group is an optional object. The tests of the table are the ranges that the
  server needs.
\<close>

datatype field_kind =
    Int_Where "int \<Rightarrow> bool"
  | Number_Where "fp \<Rightarrow> bool"
  | Text_Where "string \<Rightarrow> bool"
  | Boolean

datatype schema = Field string field_kind | Group string "schema list"

fun has_kind :: "'j json_api \<Rightarrow> 'j \<Rightarrow> field_kind \<Rightarrow> bool" where
  "has_kind J v (Int_Where test) = (case to_i64 J v of None \<Rightarrow> False | Some n \<Rightarrow> test n)"
| "has_kind J v (Number_Where test) = (is_number J v \<and> fp_is_finite (jdouble J v) \<and> test (jdouble J v))"
| "has_kind J v (Text_Where test) = (is_string J v \<and> test (jstring J v))"
| "has_kind J v Boolean = is_boolean J v"

fun conforms :: "'j json_api \<Rightarrow> 'j \<Rightarrow> schema \<Rightarrow> bool" where
  "conforms J v (Field key kind) = (case jfind J v key of None \<Rightarrow> True | Some x \<Rightarrow> has_kind J x kind)"
| "conforms J v (Group key rules) =
     (case jfind J v key of None \<Rightarrow> True | Some x \<Rightarrow> is_object J x \<and> list_all (conforms J x) rules)"

abbreviation positive_int :: field_kind where "positive_int \<equiv> Int_Where (\<lambda>n. 0 < n)"
abbreviation natural_int :: field_kind where "natural_int \<equiv> Int_Where (\<lambda>n. 0 \<le> n)"
abbreviation positive_number :: field_kind where "positive_number \<equiv> Number_Where (fp_lt (Fin 0))"
abbreviation natural_number :: field_kind where "natural_number \<equiv> Number_Where (fp_le (Fin 0))"
abbreviation ratio_number :: field_kind where "ratio_number \<equiv> Number_Where (\<lambda>x. fp_le (Fin 0) x \<and> fp_le x (Fin 1))"

definition profiling_schema :: "schema list" where
  "profiling_schema = [Field ''enabled'' Boolean, Field ''report_interval_ticks'' positive_int,
     Field ''history_size_ticks'' positive_int, Field ''tick_lag_tolerance_ms'' natural_number,
     Group ''alerts'' [Field ''max_tick_lag_rate'' ratio_number, Field ''max_packet_drop_rate'' ratio_number,
       Field ''max_parse_error_rate'' ratio_number, Field ''min_active_players'' natural_int]]"

definition runtime_schema :: "schema list" where
  "runtime_schema = [Field ''tick_rate_hz'' positive_int, Field ''snapshot_interval_ticks'' positive_int,
     Field ''input_queue_capacity'' positive_int, Field ''movement_speed_units_per_second'' positive_number,
     Group ''movement'' [Field ''accel_ground'' positive_number, Field ''accel_air'' positive_number,
       Field ''friction_ground'' natural_number, Field ''max_speed_walk'' positive_number,
       Field ''sprint_multiplier'' positive_number, Field ''crouch_multiplier'' positive_number,
       Field ''jump_velocity'' positive_number, Field ''gravity'' positive_number],
     Group ''camera'' [Field ''mouse_sensitivity'' positive_number, Field ''base_fov_degrees'' positive_number,
       Field ''sprint_fov_bonus_degrees'' natural_number, Field ''height_smoothing'' positive_number],
     Field ''match_state_broadcast_on_snapshot'' Boolean, Field ''snapshot_include_match_scoreboard'' Boolean,
     Group ''profiling'' profiling_schema]"

definition combat_schema :: "schema list" where
  "combat_schema = [Field ''starting_health'' positive_int, Field ''hitscan_range_units'' positive_number,
     Field ''projectile_range_units'' positive_number, Field ''projectile_speed_units_per_second'' positive_number,
     Field ''hit_radius_units'' positive_number]"

definition inventory_schema :: "schema list" where
  "inventory_schema = [Field ''spawn_interval_ticks'' positive_int, Field ''max_active_spawns'' positive_int,
     Field ''pickup_queue_capacity'' positive_int, Field ''pickup_radius_units'' positive_number,
     Field ''max_items_per_player'' positive_int, Field ''max_weight_per_player'' positive_int,
     Field ''death_drop_spread_units'' natural_number]"

definition match_schema :: "schema list" where
  "match_schema = [Field ''pre_match_seconds'' natural_int, Field ''duration_seconds'' positive_int,
     Field ''respawns_per_player'' natural_int, Field ''respawn_delay_seconds'' positive_int,
     Field ''min_players_to_start'' positive_int]"

definition expansion_schema :: "schema list" where
  "expansion_schema = [Field ''enabled'' Boolean, Field ''poi_density'' (Text_Where (\<lambda>s. parse_poi_density s \<noteq> None)),
     Group ''placement'' [Field ''cell_size_chunks'' positive_int, Field ''jitter_units'' natural_int,
       Field ''min_poi_spacing_units'' natural_int],
     Group ''poi_types'' [Field ''outpost'' Boolean, Field ''ruins'' Boolean, Field ''loot_shrine'' Boolean],
     Field ''loot_bias_multiplier'' positive_number]"

definition map_schema :: "schema list" where
  "map_schema = [Field ''chunks_x'' positive_int, Field ''chunks_z'' positive_int, Field ''world_height'' positive_int,
     Field ''draw_distance_chunks'' natural_int, Field ''world_seed'' (Int_Where (\<lambda>n. 0 \<le> n \<and> n < 2 ^ 32)),
     Group ''world_expansion'' expansion_schema]"

definition config_schema :: "schema list" where
  "config_schema = [Field ''max_players'' positive_int, Field ''port'' (Int_Where (\<lambda>n. 0 < n \<and> n < 2 ^ 16)),
     Group ''connection'' [Field ''port_auto_discovery'' Boolean, Field ''runtime_port_file'' (Text_Where (\<lambda>s. s \<noteq> []))],
     Field ''loot_drop'' (Text_Where (\<lambda>s. lowercase s \<in> {''all'', ''none''})),
     Group ''session'' [Field ''heartbeat_timeout_ms'' positive_int],
     Group ''runtime'' runtime_schema, Group ''combat'' combat_schema, Group ''inventory'' inventory_schema,
     Field ''match_time_minutes'' positive_int, Field ''respawns'' natural_int,
     Group ''match'' match_schema, Group ''map'' map_schema]"

text \<open>The one condition on two fields: a report needs a history at least as long as its interval.\<close>

definition int_member :: "'j json_api \<Rightarrow> 'j \<Rightarrow> string \<Rightarrow> int \<Rightarrow> int" where
  "int_member J v key d = (case jfind J v key of None \<Rightarrow> d | Some x \<Rightarrow> (case to_i64 J x of None \<Rightarrow> d | Some n \<Rightarrow> n))"

definition history_long_enough :: "'j json_api \<Rightarrow> 'j \<Rightarrow> bool" where
  "history_long_enough J profiling \<longleftrightarrow>
     int_member J profiling ''report_interval_ticks'' 300 \<le> int_member J profiling ''history_size_ticks'' 600"

definition config_valid :: "'j json_api \<Rightarrow> 'j \<Rightarrow> bool" where
  "config_valid J config \<longleftrightarrow> is_object J config \<and> list_all (conforms J config) config_schema
     \<and> (\<forall>runtime profiling. jfind J config ''runtime'' = Some runtime \<longrightarrow> jfind J runtime ''profiling'' = Some profiling
          \<longrightarrow> history_long_enough J profiling)"

section \<open>Validation is exact\<close>

named_theorems no_errors \<open>when a check adds no message\<close>

lemma require_empty:
  "require test path detail r = [] \<longleftrightarrow> snd r = [] \<and> (case fst r of Value x \<Rightarrow> test x | _ \<Rightarrow> True)"
  by (auto simp: require_def case_prod_beta split: field_read.split)

lemma finite_order: "fp_is_finite x \<Longrightarrow> \<not> fp_le x (Fin 0) \<longleftrightarrow> fp_lt (Fin 0) x" "fp_is_finite x \<Longrightarrow> \<not> fp_lt x (Fin q) \<longleftrightarrow> fp_le (Fin q) x"
  "fp_is_finite x \<Longrightarrow> \<not> fp_lt (Fin q) x \<longleftrightarrow> fp_le x (Fin q)"
  by (cases x; auto simp: fp_le_def)+

lemma integer_no_error [no_errors]:
  "require test path detail (read_integer_field J v key path) = [] \<longleftrightarrow> conforms J v (Field key (Int_Where test))"
  by (auto simp: require_empty read_integer_field_def contains_def at_key_def split: option.split)

lemma number_no_error:
  "require test path detail (read_number_field J v key path) = [] \<longleftrightarrow> conforms J v (Field key (Number_Where test))"
  by (auto simp: require_empty read_number_field_def contains_def at_key_def Let_def split: option.split)

lemma string_no_error [no_errors]:
  "require test path detail (read_string_field J v key path) = [] \<longleftrightarrow> conforms J v (Field key (Text_Where test))"
  by (auto simp: require_empty read_string_field_def contains_def at_key_def split: option.split)

lemma bool_no_error [no_errors]: "validate_bool J v key path = [] \<longleftrightarrow> conforms J v (Field key Boolean)"
  by (auto simp: validate_bool_def read_bool_field_def contains_def at_key_def split: option.split)

lemma number_test_cong:
  "(\<And>x. fp_is_finite x \<Longrightarrow> test x = test' x) \<Longrightarrow>
    conforms J v (Field key (Number_Where test)) = conforms J v (Field key (Number_Where test'))"
  by (auto split: option.split)

lemma ranges_no_error [no_errors]:
  "validate_positive_integer J v key path = [] \<longleftrightarrow> conforms J v (Field key positive_int)"
  "validate_non_negative_integer J v key path = [] \<longleftrightarrow> conforms J v (Field key natural_int)"
  "validate_positive_number J v key path = [] \<longleftrightarrow> conforms J v (Field key positive_number)"
  "validate_non_negative_number J v key path = [] \<longleftrightarrow> conforms J v (Field key natural_number)"
  "validate_ratio_number J v key path = [] \<longleftrightarrow> conforms J v (Field key ratio_number)"
  unfolding validate_positive_integer_def validate_non_negative_integer_def validate_positive_number_def
    validate_non_negative_number_def validate_ratio_number_def integer_no_error number_no_error
  by (rule refl number_test_cong, simp add: finite_order)+

lemma object_no_error:
  "read_object_field J v key path checks = [] \<longleftrightarrow>
     (case jfind J v key of None \<Rightarrow> True | Some x \<Rightarrow> is_object J x \<and> checks x = [])"
  by (auto simp: read_object_field_def contains_def at_key_def split: option.split)

lemma sections_no_error [no_errors]:
  "check_connection J v = [] \<longleftrightarrow> list_all (conforms J v) [Field ''port_auto_discovery'' Boolean,
     Field ''runtime_port_file'' (Text_Where (\<lambda>s. s \<noteq> []))]"
  "check_session J v = [] \<longleftrightarrow> list_all (conforms J v) [Field ''heartbeat_timeout_ms'' positive_int]"
  "check_movement J v = [] \<longleftrightarrow> list_all (conforms J v) [Field ''accel_ground'' positive_number,
     Field ''accel_air'' positive_number, Field ''friction_ground'' natural_number, Field ''max_speed_walk'' positive_number,
     Field ''sprint_multiplier'' positive_number, Field ''crouch_multiplier'' positive_number,
     Field ''jump_velocity'' positive_number, Field ''gravity'' positive_number]"
  "check_camera J v = [] \<longleftrightarrow> list_all (conforms J v) [Field ''mouse_sensitivity'' positive_number,
     Field ''base_fov_degrees'' positive_number, Field ''sprint_fov_bonus_degrees'' natural_number,
     Field ''height_smoothing'' positive_number]"
  "check_alerts J v = [] \<longleftrightarrow> list_all (conforms J v) [Field ''max_tick_lag_rate'' ratio_number,
     Field ''max_packet_drop_rate'' ratio_number, Field ''max_parse_error_rate'' ratio_number,
     Field ''min_active_players'' natural_int]"
  "check_combat J v = [] \<longleftrightarrow> list_all (conforms J v) combat_schema"
  "check_inventory J v = [] \<longleftrightarrow> list_all (conforms J v) inventory_schema"
  "check_match J v = [] \<longleftrightarrow> list_all (conforms J v) match_schema"
  "check_placement J v = [] \<longleftrightarrow> list_all (conforms J v) [Field ''cell_size_chunks'' positive_int,
     Field ''jitter_units'' natural_int, Field ''min_poi_spacing_units'' natural_int]"
  "check_poi_types J v = [] \<longleftrightarrow> list_all (conforms J v) [Field ''outpost'' Boolean, Field ''ruins'' Boolean,
     Field ''loot_shrine'' Boolean]"
  by (simp_all only: check_connection_def check_session_def check_movement_def check_camera_def check_alerts_def check_combat_def check_inventory_def
      check_match_def check_placement_def check_poi_types_def combat_schema_def inventory_schema_def match_schema_def
      append_is_Nil_conv no_errors list.pred_inject simp_thms)

lemma group_no_error:
  "(\<And>x. checks x = [] \<longleftrightarrow> list_all (conforms J x) rules) \<Longrightarrow>
    read_object_field J v key path checks = [] \<longleftrightarrow> conforms J v (Group key rules)"
  by (simp add: object_no_error split: option.split)

lemmas groups_no_error [no_errors] = sections_no_error [THEN group_no_error]

lemma expansion_no_error [no_errors]: "check_expansion J v = [] \<longleftrightarrow> list_all (conforms J v) expansion_schema"
  by (simp only: check_expansion_def expansion_schema_def append_is_Nil_conv no_errors list.pred_inject simp_thms)

lemmas expansion_group [no_errors] = expansion_no_error [THEN group_no_error]

lemma map_no_error [no_errors]: "check_map J v = [] \<longleftrightarrow> list_all (conforms J v) map_schema"
proof -
  have seed: "(\<lambda>n. \<not> (n < 0 \<or> 4294967295 < n)) = (\<lambda>n::int. 0 \<le> n \<and> n < 2 ^ 32)" by auto
  show ?thesis
    unfolding check_map_def map_schema_def seed
    by (simp only: append_is_Nil_conv no_errors list.pred_inject simp_thms)
qed

lemmas map_group [no_errors] = map_no_error [THEN group_no_error]

lemma value_or_default_member: "value_or_default (read_integer_field J v key path) d = int_member J v key d"
  by (auto simp: value_or_default_def read_integer_field_def int_member_def contains_def at_key_def split: option.split)

lemma positive_member: "0 < d \<Longrightarrow> conforms J v (Field key positive_int) \<Longrightarrow> 0 < int_member J v key d"
  by (auto simp: int_member_def split: option.splits)

lemma profiling_no_error [no_errors]:
  "check_profiling J v = [] \<longleftrightarrow> list_all (conforms J v) profiling_schema \<and> history_long_enough J v"
proof -
  have cross: "(if 0 < h \<and> 0 < r \<and> h < r then [e] else []) = [] \<longleftrightarrow> r \<le> h" if "0 < h" "0 < r" for h r :: int and e :: string
    using that by auto
  note member = positive_member [of 300 J v "''report_interval_ticks''"] positive_member [of 600 J v "''history_size_ticks''"]
  show ?thesis
  proof (cases "conforms J v (Field ''report_interval_ticks'' positive_int)
      \<and> conforms J v (Field ''history_size_ticks'' positive_int)")
    case True
    with member have "0 < int_member J v ''report_interval_ticks'' 300" "0 < int_member J v ''history_size_ticks'' 600"
      by simp_all
    note crossed = cross [OF this(2,1)]
    show ?thesis
      unfolding check_profiling_def profiling_schema_def value_or_default_member Let_def history_long_enough_def
      by (simp only: append_is_Nil_conv no_errors list.pred_inject simp_thms crossed conj_assoc)
  next
    case False
    then show ?thesis
      unfolding check_profiling_def profiling_schema_def value_or_default_member Let_def
      by (simp only: append_is_Nil_conv no_errors list.pred_inject simp_thms) blast
  qed
qed

lemma profiling_group:
  "read_object_field J v key path (check_profiling J) = [] \<longleftrightarrow> conforms J v (Group key profiling_schema)
     \<and> (\<forall>profiling. jfind J v key = Some profiling \<longrightarrow> history_long_enough J profiling)"
  by (auto simp: object_no_error profiling_no_error split: option.split)

lemma runtime_no_error:
  "check_runtime J v = [] \<longleftrightarrow> list_all (conforms J v) runtime_schema
     \<and> (\<forall>profiling. jfind J v ''profiling'' = Some profiling \<longrightarrow> history_long_enough J profiling)"
  unfolding check_runtime_def runtime_schema_def
  by (simp only: append_is_Nil_conv no_errors list.pred_inject simp_thms profiling_group conj_assoc)

lemma runtime_group [no_errors]:
  "read_object_field J v key path (check_runtime J) = [] \<longleftrightarrow> conforms J v (Group key runtime_schema)
     \<and> (\<forall>runtime profiling. jfind J v key = Some runtime \<longrightarrow> jfind J runtime ''profiling'' = Some profiling
          \<longrightarrow> history_long_enough J profiling)"
  by (auto simp: object_no_error runtime_no_error split: option.split)

lemma no_errors_iff_valid: "validate_server_config J config = [] \<longleftrightarrow> config_valid J config"
proof (cases "is_object J config")
  case True
  have ranges: "(\<lambda>n. \<not> (n \<le> 0 \<or> 65535 < n)) = (\<lambda>n::int. 0 < n \<and> n < 2 ^ 16)"
    "(\<lambda>s. lowercase s = ''all'' \<or> lowercase s = ''none'') = (\<lambda>s. lowercase s \<in> {''all'', ''none''})"
    by auto
  show ?thesis
    using True unfolding validate_server_config_def config_valid_def config_schema_def ranges
    by (simp only: append_is_Nil_conv no_errors list.pred_inject simp_thms if_False) blast
qed (simp add: validate_server_config_def config_valid_def)

text \<open>C31: The validation reports no error exactly for the documents that conform to the table: an object whose
  fields, where present, have their type and range, in sections that are objects, and whose profiling
  history is at least as long as its report interval.\<close>

theorem validation_exact: "validate_server_config J config = [] \<longleftrightarrow> config_valid J config"
  by (rule no_errors_iff_valid)

end
