(* ===== verification/Rule_Files.thy ===== *)
theory Rule_Files
  imports Json_Reads Game_Rules
begin

text \<open>
  The weapon and treasure documents (the loaders of shared/src/game/Weapons.cpp and Treasure.cpp). They are
  read without a validation, so a member of a wrong type throws. Shown: what a well-typed document gives,
  and when reading it returns.
\<close>

text \<open>A range loop over a document visits the elements of an array, the values of an object, nothing of null,
  and any other value itself.\<close>

definition elements :: "'j json_api \<Rightarrow> 'j \<Rightarrow> 'j list" where
  "elements J v = (if is_array J v \<or> is_object J v then jelems J v else if jtype J v = J_Null then [] else [v])"

fun read_all :: "('j \<Rightarrow> 'e + 'a) \<Rightarrow> 'j list \<Rightarrow> 'e + 'a list" where
  "read_all read [] = Inr []"
| "read_all read (v # vs) = and_then (read v) (\<lambda>x. and_then (read_all read vs) (\<lambda>xs. Inr (x # xs)))"

definition read_weapon :: "'j json_api \<Rightarrow> 'j \<Rightarrow> json_error + weapon_definition" where
  "read_weapon J item =
     (if \<not> is_object J item then Inl Type_Error
      else
       and_then (get_or J (get_string J) item ''id'' []) (\<lambda>id.
       and_then (get_or J (get_string J) item ''type'' []) (\<lambda>type.
       and_then (get_or J (get_int J) item ''damage'' 0) (\<lambda>damage.
       and_then (get_or J (get_int J) item ''mag_size'' 0) (\<lambda>mag_size.
       and_then (get_or J (get_float J) item ''rate_of_fire'' (Fin 0)) (\<lambda>rate.
       and_then (get_or J (get_int J) item ''pellets'' 0) (\<lambda>pellets.
       and_then (get_or J (get_int J) item ''damage_per_pellet'' 0) (\<lambda>per_pellet.
       and_then (get_or J (get_float J) item ''range_units'' (Fin 0)) (\<lambda>range_units.
       and_then (get_or J (get_float J) item ''projectile_speed_units_per_second'' (Fin 0)) (\<lambda>speed.
       and_then (get_or J (get_int J) item ''tier'' 1) (\<lambda>tier.
       Inr \<lparr>wd_id = id, wd_type = type, wd_damage = damage, wd_mag_size = mag_size, wd_rate_of_fire = rate,
            wd_pellets = pellets, wd_damage_per_pellet = per_pellet, wd_range_units = range_units,
            wd_projectile_speed = speed, wd_tier = tier\<rparr>)))))))))))"

definition load_weapons :: "'j json_api \<Rightarrow> 'j \<Rightarrow> json_error + weapon_definition list" where
  "load_weapons J doc =
     (if \<not> contains J doc ''weapons'' then Inr []
      else read_all (read_weapon J) (elements J (at_key J doc ''weapons'')))"

definition read_treasure :: "'j json_api \<Rightarrow> 'j \<Rightarrow> json_error + treasure_definition" where
  "read_treasure J item =
     (if \<not> is_object J item then Inl Type_Error
      else
       and_then (get_or J (get_string J) item ''id'' []) (\<lambda>id.
       and_then (get_or J (get_int J) item ''value'' 0) (\<lambda>value.
       and_then (get_or J (get_int J) item ''weight'' 0) (\<lambda>weight.
       and_then (get_or J (get_string J) item ''rarity'' []) (\<lambda>rarity.
       Inr \<lparr>tre_id = id, tre_value = value, tre_weight = weight, tre_rarity = rarity\<rparr>)))))"

definition load_treasures :: "'j json_api \<Rightarrow> 'j \<Rightarrow> json_error + treasure_definition list" where
  "load_treasures J doc =
     (if \<not> contains J doc ''treasures'' then Inr []
      else read_all (read_treasure J) (elements J (at_key J doc ''treasures'')))"

lemma read_all_returns: "returns (read_all read vs) \<longleftrightarrow> list_all (\<lambda>v. returns (read v)) vs"
  by (induction vs) (auto simp: returns_def returns_iff)

lemma read_all_length: "read_all read vs = Inr xs \<Longrightarrow> length xs = length vs"
  by (induction vs arbitrary: xs) (auto simp: returns_iff)

text \<open>A document without the list gives no definition; the shooting and looting parts then stay idle.\<close>

lemma missing_files: "load_weapons J doc = Inr []" if "\<not> contains J doc ''weapons''"
  using that by (simp add: load_weapons_def)

text \<open>Nothing checks these documents: an entry whose damage is written as a text ends the program.\<close>

lemma wrong_type_throws:
  assumes "is_object J item" and "jfind J item ''id'' = None" and "jfind J item ''type'' = None"
    and "jfind J item ''damage'' = Some v" and "is_string J v"
    and "jfind J doc ''weapons'' = Some list" and "elements J list = item # rest"
  shows "load_weapons J doc = Inl Type_Error"
proof -
  have "get_int J v = Inl Type_Error" using assms(5) by (simp add: get_int_def json_types)
  then show ?thesis using assms by (simp add: load_weapons_def contains_def at_key_def read_weapon_def get_or_def)
qed

section \<open>A well-typed document\<close>

text \<open>The document that a list of treasures is written as in the configuration directory.\<close>

definition treasure_json :: "'j json_api \<Rightarrow> treasure_definition \<Rightarrow> 'j" where
  "treasure_json J t = jof_object J [(''id'', jof_string J (tre_id t)), (''value'', jof_int J (tre_value t)),
     (''weight'', jof_int J (tre_weight t)), (''rarity'', jof_string J (tre_rarity t))]"

definition treasures_json :: "'j json_api \<Rightarrow> treasure_definition list \<Rightarrow> 'j" where
  "treasures_json J ts = jof_object J [(''treasures'', jof_array J (List.map (treasure_json J) ts))]"

context json_library
begin

lemma read_object: "distinct (List.map fst kvs) \<Longrightarrow> map_of kvs key = Some v \<Longrightarrow>
    get_or J get (jof_object J kvs) key d = get v"
  by (simp add: get_or_def object_get)

lemma read_written_int: "in_i32 i \<Longrightarrow> get_int J (jof_int J i) = Inr i"
  by (simp add: get_int_def json_types types int_get in_i32_def wrap_i32_def)

lemma treasure_back:
  "in_i32 (tre_value t) \<Longrightarrow> in_i32 (tre_weight t) \<Longrightarrow> read_treasure J (treasure_json J t) = Inr t"
  by (simp add: read_treasure_def treasure_json_def read_object read_written_int get_string_def json_types types gets)

lemma treasures_back:
  assumes "list_all (\<lambda>t. in_i32 (tre_value t) \<and> in_i32 (tre_weight t)) ts"
  shows "load_treasures J (treasures_json J ts) = Inr ts"
proof -
  have "read_all (read_treasure J) (List.map (treasure_json J) ts) = Inr ts"
    using assms by (induction ts) (simp_all add: treasure_back)
  then show ?thesis
    by (simp add: load_treasures_def treasures_json_def elements_def at_object contains_object json_types types gets)
qed

end

end
