(* ===== verification/Server_Config.thy ===== *)
theory Server_Config
  imports Config_Check Rule_Files Server
begin

text \<open>
  How the server comes to its settings (the first part of server/src/main.cpp): the configuration
  document is loaded and validated, its values are read with defaults for what is missing, unusable
  values fall back, and the components are configured by what remains. Shown: a document that passes the
  validation is read without an exception, and used as it is written as far as its integers fit an \<open>int\<close>.
\<close>

section \<open>The values\<close>

record connection_values =
  nv_auto_discovery :: bool
  nv_port_file :: string

record profiling_values =
  pv_enabled :: bool
  pv_report_interval :: int
  pv_history_size :: int
  pv_lag_tolerance :: fp
  pv_max_lag_rate :: fp
  pv_max_drop_rate :: fp
  pv_max_parse_error_rate :: fp
  pv_min_active :: int

record runtime_values =
  rv_tick_rate :: int
  rv_snapshot_interval :: int
  rv_input_capacity :: int
  rv_tuning :: movement_tuning
  rv_broadcast_match_state :: bool
  rv_include_scoreboard :: bool
  rv_profiling :: profiling_values

record combat_values =
  cv_health :: int
  cv_hitscan_range :: fp
  cv_projectile_range :: fp
  cv_projectile_speed :: fp
  cv_hit_radius :: fp

record inventory_values =
  iv_spawn_interval :: int
  iv_max_spawns :: int
  iv_queue_capacity :: int
  iv_pickup_radius :: fp
  iv_max_items :: int
  iv_max_weight :: int
  iv_drop_spread :: fp

record match_values =
  mv_duration :: int
  mv_respawns :: int
  mv_pre_match :: int
  mv_respawn_delay :: int
  mv_min_players :: int

record map_values =
  wv_chunks_x :: int
  wv_chunks_z :: int
  wv_height :: int
  wv_draw_distance :: int
  wv_profile :: generation_profile

record server_values =
  srv_max_players :: int
  srv_port :: int
  srv_connection :: connection_values
  srv_heartbeat_ms :: int
  srv_runtime :: runtime_values
  srv_combat :: combat_values
  srv_inventory :: inventory_values
  srv_loot_drop :: string
  srv_match :: match_values
  srv_map :: map_values

text \<open>A \<open>double\<close> literal.\<close>

abbreviation litD :: "rat \<Rightarrow> fp" where "litD \<equiv> fp_lit Double"

definition default_profiling :: profiling_values where
  "default_profiling = \<lparr>pv_enabled = True, pv_report_interval = 300, pv_history_size = 600, pv_lag_tolerance = litD (1 / 2),
     pv_max_lag_rate = litD 1, pv_max_drop_rate = litD 1, pv_max_parse_error_rate = litD 1, pv_min_active = 0\<rparr>"

definition default_runtime :: runtime_values where
  "default_runtime = \<lparr>rv_tick_rate = 30, rv_snapshot_interval = 2, rv_input_capacity = 2048, rv_tuning = default_tuning,
     rv_broadcast_match_state = False, rv_include_scoreboard = False, rv_profiling = default_profiling\<rparr>"

definition default_combat :: combat_values where
  "default_combat = \<lparr>cv_health = 100, cv_hitscan_range = litD 128, cv_projectile_range = litD 96,
     cv_projectile_speed = litD 40, cv_hit_radius = litD (3 / 4)\<rparr>"

definition default_inventory :: inventory_values where
  "default_inventory = \<lparr>iv_spawn_interval = 90, iv_max_spawns = 64, iv_queue_capacity = 2048, iv_pickup_radius = litD (5 / 2),
     iv_max_items = 16, iv_max_weight = 40, iv_drop_spread = litD (3 / 4)\<rparr>"

definition default_map :: map_values where
  "default_map = \<lparr>wv_chunks_x = 64, wv_chunks_z = 64, wv_height = 256, wv_draw_distance = 2, wv_profile = default_profile\<rparr>"

section \<open>Reading the document\<close>

abbreviation value_int :: "'j json_api \<Rightarrow> 'j \<Rightarrow> string \<Rightarrow> int \<Rightarrow> json_error + int" where
  "value_int J \<equiv> get_or J (get_int J)"

abbreviation value_bool :: "'j json_api \<Rightarrow> 'j \<Rightarrow> string \<Rightarrow> bool \<Rightarrow> json_error + bool" where
  "value_bool J \<equiv> get_or J (get_bool J)"

abbreviation value_float :: "'j json_api \<Rightarrow> 'j \<Rightarrow> string \<Rightarrow> fp \<Rightarrow> json_error + fp" where
  "value_float J \<equiv> get_or J (get_float J)"

abbreviation value_double :: "'j json_api \<Rightarrow> 'j \<Rightarrow> string \<Rightarrow> fp \<Rightarrow> json_error + fp" where
  "value_double J \<equiv> get_or J (get_double J)"

abbreviation value_string :: "'j json_api \<Rightarrow> 'j \<Rightarrow> string \<Rightarrow> string \<Rightarrow> json_error + string" where
  "value_string J \<equiv> get_or J (get_string J)"

definition read_connection :: "'j json_api \<Rightarrow> 'j \<Rightarrow> json_error + connection_values" where
  "read_connection J c =
     and_then (value_bool J c ''port_auto_discovery'' False) (\<lambda>auto_discovery.
     and_then (value_string J c ''runtime_port_file'' []) (\<lambda>port_file.
     Inr \<lparr>nv_auto_discovery = auto_discovery, nv_port_file = port_file\<rparr>))"

definition read_tuning :: "'j json_api \<Rightarrow> 'j \<Rightarrow> movement_tuning \<Rightarrow> json_error + movement_tuning" where
  "read_tuning J m t =
     and_then (value_float J m ''accel_ground'' (accel_ground t)) (\<lambda>ag.
     and_then (value_float J m ''accel_air'' (accel_air t)) (\<lambda>aa.
     and_then (value_float J m ''friction_ground'' (friction_ground t)) (\<lambda>fg.
     and_then (value_float J m ''max_speed_walk'' (max_speed_walk t)) (\<lambda>msw.
     and_then (value_float J m ''sprint_multiplier'' (sprint_multiplier t)) (\<lambda>sm.
     and_then (value_float J m ''crouch_multiplier'' (crouch_multiplier t)) (\<lambda>cm.
     and_then (value_float J m ''jump_velocity'' (jump_velocity t)) (\<lambda>jv.
     and_then (value_float J m ''gravity'' (gravity t)) (\<lambda>g.
     Inr \<lparr>accel_ground = ag, accel_air = aa, friction_ground = fg, max_speed_walk = msw, sprint_multiplier = sm,
          crouch_multiplier = cm, jump_velocity = jv, gravity = g\<rparr>))))))))"

definition read_alerts :: "'j json_api \<Rightarrow> 'j \<Rightarrow> profiling_values \<Rightarrow> json_error + profiling_values" where
  "read_alerts J a p =
     and_then (value_double J a ''max_tick_lag_rate'' (pv_max_lag_rate p)) (\<lambda>lag.
     and_then (value_double J a ''max_packet_drop_rate'' (pv_max_drop_rate p)) (\<lambda>drop.
     and_then (value_double J a ''max_parse_error_rate'' (pv_max_parse_error_rate p)) (\<lambda>parse_error.
     and_then (value_int J a ''min_active_players'' (pv_min_active p)) (\<lambda>min_active.
     Inr (p\<lparr>pv_max_lag_rate := lag, pv_max_drop_rate := drop, pv_max_parse_error_rate := parse_error,
            pv_min_active := min_active\<rparr>)))))"

definition read_profiling :: "'j json_api \<Rightarrow> 'j \<Rightarrow> profiling_values \<Rightarrow> json_error + profiling_values" where
  "read_profiling J c p =
     and_then (value_bool J c ''enabled'' (pv_enabled p)) (\<lambda>enabled.
     and_then (value_int J c ''report_interval_ticks'' (pv_report_interval p)) (\<lambda>report_interval.
     and_then (value_int J c ''history_size_ticks'' (pv_history_size p)) (\<lambda>history.
     and_then (value_double J c ''tick_lag_tolerance_ms'' (pv_lag_tolerance p)) (\<lambda>tolerance.
     let p1 = p\<lparr>pv_enabled := enabled, pv_report_interval := report_interval, pv_history_size := history,
                pv_lag_tolerance := tolerance\<rparr>
     in section_or J c ''alerts'' p1 (\<lambda>a. read_alerts J a p1)))))"

text \<open>The older name of the walking speed is read first.\<close>

definition legacy_speed :: "fp \<Rightarrow> movement_tuning \<Rightarrow> movement_tuning" where
  "legacy_speed x t =
     (if fp_is_finite x \<and> fp_lt (Fin 0) x then t\<lparr>max_speed_walk := fp_cast Single x\<rparr> else t)"

definition read_runtime :: "'j json_api \<Rightarrow> 'j \<Rightarrow> json_error + runtime_values" where
  "read_runtime J c = (let d = default_runtime in
     and_then (value_int J c ''tick_rate_hz'' (rv_tick_rate d)) (\<lambda>rate.
     and_then (value_int J c ''snapshot_interval_ticks'' (rv_snapshot_interval d)) (\<lambda>interval.
     and_then (value_int J c ''input_queue_capacity'' (rv_input_capacity d)) (\<lambda>capacity.
     and_then (value_double J c ''movement_speed_units_per_second'' (fp_cast Double (max_speed_walk (rv_tuning d)))) (\<lambda>speed.
     let t = legacy_speed speed (rv_tuning d) in
     and_then (section_or J c ''movement'' t (\<lambda>m. read_tuning J m t)) (\<lambda>tuning.
     and_then (value_bool J c ''match_state_broadcast_on_snapshot'' (rv_broadcast_match_state d)) (\<lambda>on_snapshot.
     and_then (value_bool J c ''snapshot_include_match_scoreboard'' (rv_include_scoreboard d)) (\<lambda>scoreboard.
     and_then (section_or J c ''profiling'' (rv_profiling d) (\<lambda>p. read_profiling J p (rv_profiling d))) (\<lambda>profiling.
     Inr \<lparr>rv_tick_rate = rate, rv_snapshot_interval = interval, rv_input_capacity = capacity, rv_tuning = tuning,
          rv_broadcast_match_state = on_snapshot, rv_include_scoreboard = scoreboard, rv_profiling = profiling\<rparr>)))))))))"

definition read_combat :: "'j json_api \<Rightarrow> 'j \<Rightarrow> json_error + combat_values" where
  "read_combat J c = (let d = default_combat in
     and_then (value_int J c ''starting_health'' (cv_health d)) (\<lambda>health.
     and_then (value_double J c ''hitscan_range_units'' (cv_hitscan_range d)) (\<lambda>hitscan.
     and_then (value_double J c ''projectile_range_units'' (cv_projectile_range d)) (\<lambda>projectile.
     and_then (value_double J c ''projectile_speed_units_per_second'' (cv_projectile_speed d)) (\<lambda>speed.
     and_then (value_double J c ''hit_radius_units'' (cv_hit_radius d)) (\<lambda>radius.
     Inr \<lparr>cv_health = health, cv_hitscan_range = hitscan, cv_projectile_range = projectile,
          cv_projectile_speed = speed, cv_hit_radius = radius\<rparr>))))))"

definition read_inventory :: "'j json_api \<Rightarrow> 'j \<Rightarrow> json_error + inventory_values" where
  "read_inventory J c = (let d = default_inventory in
     and_then (value_int J c ''spawn_interval_ticks'' (iv_spawn_interval d)) (\<lambda>interval.
     and_then (value_int J c ''max_active_spawns'' (iv_max_spawns d)) (\<lambda>spawns.
     and_then (value_int J c ''pickup_queue_capacity'' (iv_queue_capacity d)) (\<lambda>capacity.
     and_then (value_double J c ''pickup_radius_units'' (iv_pickup_radius d)) (\<lambda>radius.
     and_then (value_int J c ''max_items_per_player'' (iv_max_items d)) (\<lambda>items.
     and_then (value_int J c ''max_weight_per_player'' (iv_max_weight d)) (\<lambda>weight.
     and_then (value_double J c ''death_drop_spread_units'' (iv_drop_spread d)) (\<lambda>spread.
     Inr \<lparr>iv_spawn_interval = interval, iv_max_spawns = spawns, iv_queue_capacity = capacity, iv_pickup_radius = radius,
          iv_max_items = items, iv_max_weight = weight, iv_drop_spread = spread\<rparr>))))))))"

definition read_match :: "'j json_api \<Rightarrow> 'j \<Rightarrow> match_values \<Rightarrow> json_error + match_values" where
  "read_match J c d =
     and_then (value_int J c ''pre_match_seconds'' (mv_pre_match d)) (\<lambda>pre_match.
     and_then (value_int J c ''respawn_delay_seconds'' (mv_respawn_delay d)) (\<lambda>delay.
     and_then (value_int J c ''min_players_to_start'' (mv_min_players d)) (\<lambda>min_players.
     and_then (value_int J c ''respawns_per_player'' (mv_respawns d)) (\<lambda>respawns.
     and_then (value_int J c ''duration_seconds'' (mv_duration d)) (\<lambda>duration.
     Inr \<lparr>mv_duration = duration, mv_respawns = respawns, mv_pre_match = pre_match, mv_respawn_delay = delay,
          mv_min_players = min_players\<rparr>)))))"

definition read_placement :: "'j json_api \<Rightarrow> 'j \<Rightarrow> expansion_profile \<Rightarrow> json_error + expansion_profile" where
  "read_placement J c e =
     and_then (value_int J c ''cell_size_chunks'' (exp_cell_size_chunks e)) (\<lambda>cell.
     and_then (value_int J c ''jitter_units'' (exp_jitter_units e)) (\<lambda>jitter.
     and_then (value_int J c ''min_poi_spacing_units'' (exp_min_poi_spacing_units e)) (\<lambda>spacing.
     Inr (e\<lparr>exp_cell_size_chunks := cell, exp_jitter_units := jitter, exp_min_poi_spacing_units := spacing\<rparr>))))"

definition read_toggles :: "'j json_api \<Rightarrow> 'j \<Rightarrow> expansion_profile \<Rightarrow> json_error + expansion_profile" where
  "read_toggles J c e =
     and_then (value_bool J c ''outpost'' (tog_outpost (exp_poi_types e))) (\<lambda>outpost.
     and_then (value_bool J c ''ruins'' (tog_ruins (exp_poi_types e))) (\<lambda>ruins.
     and_then (value_bool J c ''loot_shrine'' (tog_loot_shrine (exp_poi_types e))) (\<lambda>loot_shrine.
     Inr (e\<lparr>exp_poi_types := \<lparr>tog_outpost = outpost, tog_ruins = ruins, tog_loot_shrine = loot_shrine\<rparr>\<rparr>))))"

definition density_member :: "'j json_api \<Rightarrow> 'j \<Rightarrow> poi_density \<Rightarrow> poi_density" where
  "density_member J c d =
     (if contains J c ''poi_density'' \<and> is_string J (at_key J c ''poi_density'')
      then (case parse_poi_density (jstring J (at_key J c ''poi_density'')) of Some x \<Rightarrow> x | None \<Rightarrow> d) else d)"

definition read_config_expansion :: "'j json_api \<Rightarrow> 'j \<Rightarrow> expansion_profile \<Rightarrow> json_error + expansion_profile" where
  "read_config_expansion J c e =
     and_then (value_bool J c ''enabled'' (exp_enabled e)) (\<lambda>enabled.
     let e1 = e\<lparr>exp_enabled := enabled, exp_poi_density := density_member J c (exp_poi_density e)\<rparr> in
     and_then (section_or J c ''placement'' e1 (\<lambda>p. read_placement J p e1)) (\<lambda>e2.
     and_then (section_or J c ''poi_types'' e2 (\<lambda>p. read_toggles J p e2)) (\<lambda>e3.
     and_then (value_float J c ''loot_bias_multiplier'' (exp_loot_bias_multiplier e3)) (\<lambda>bias.
     Inr (e3\<lparr>exp_loot_bias_multiplier := bias\<rparr>)))))"

definition read_map :: "'j json_api \<Rightarrow> 'j \<Rightarrow> json_error + map_values" where
  "read_map J c = (let d = default_map in
     and_then (value_int J c ''chunks_x'' (wv_chunks_x d)) (\<lambda>x.
     and_then (value_int J c ''chunks_z'' (wv_chunks_z d)) (\<lambda>z.
     and_then (value_int J c ''world_height'' (wv_height d)) (\<lambda>height.
     and_then (value_int J c ''draw_distance_chunks'' (wv_draw_distance d)) (\<lambda>distance.
     let seed = (case json_to_u32 J (at_key J c ''world_seed'') of Some n \<Rightarrow> n | None \<Rightarrow> gp_world_seed (wv_profile d));
         e = gp_expansion (wv_profile d) in
     and_then (section_or J c ''world_expansion'' e (\<lambda>w. read_config_expansion J w e)) (\<lambda>expansion.
     Inr \<lparr>wv_chunks_x = x, wv_chunks_z = z, wv_height = height, wv_draw_distance = distance,
          wv_profile = \<lparr>gp_world_seed = seed, gp_expansion = expansion\<rparr>\<rparr>))))))"

definition read_server_fields :: "'j json_api \<Rightarrow> 'j \<Rightarrow> json_error + server_values" where
  "read_server_fields J config =
      (and_then (value_int J config ''max_players'' 64) (\<lambda>limit.
       and_then (value_int J config ''port'' 7777) (\<lambda>port.
       and_then (section_or J config ''connection'' \<lparr>nv_auto_discovery = False, nv_port_file = []\<rparr>
         (read_connection J)) (\<lambda>connection.
       and_then (section_or J config ''session'' 10000 (\<lambda>s. value_int J s ''heartbeat_timeout_ms'' 10000)) (\<lambda>heartbeat_ms.
       and_then (section_or J config ''runtime'' default_runtime (read_runtime J)) (\<lambda>runtime.
       and_then (section_or J config ''combat'' default_combat (read_combat J)) (\<lambda>combat.
       and_then (section_or J config ''inventory'' default_inventory (read_inventory J)) (\<lambda>inventory.
       and_then (value_string J config ''loot_drop'' ''all'') (\<lambda>loot_drop.
       and_then (value_int J config ''match_time_minutes'' 60) (\<lambda>minutes.
       and_then (value_int J config ''respawns'' 2) (\<lambda>respawns.
       let d = \<lparr>mv_duration = wrap_i32 (minutes * 60), mv_respawns = respawns, mv_pre_match = 5, mv_respawn_delay = 3,
                mv_min_players = 1\<rparr> in
       and_then (section_or J config ''match'' d (\<lambda>m. read_match J m d)) (\<lambda>match.
       and_then (section_or J config ''map'' default_map (read_map J)) (\<lambda>m.
       Inr \<lparr>srv_max_players = limit, srv_port = port, srv_connection = connection, srv_heartbeat_ms = heartbeat_ms,
            srv_runtime = runtime, srv_combat = combat, srv_inventory = inventory, srv_loot_drop = loot_drop,
            srv_match = match, srv_map = m\<rparr>)))))))))))))"

text \<open>\<open>value\<close> throws on anything but an object.\<close>

definition read_server_values :: "'j json_api \<Rightarrow> 'j \<Rightarrow> json_error + server_values" where
  "read_server_values J config = (if \<not> is_object J config then Inl Type_Error else read_server_fields J config)"

section \<open>Unusable values\<close>

definition at_least :: "int \<Rightarrow> int \<Rightarrow> int \<Rightarrow> int" where
  "at_least lowest dflt x = (if x < lowest then dflt else x)"

definition usable_positive :: "fp \<Rightarrow> fp \<Rightarrow> fp" where
  "usable_positive dflt x = (if \<not> fp_is_finite x \<or> fp_le x (Fin 0) then dflt else x)"

definition usable_natural :: "fp \<Rightarrow> fp \<Rightarrow> fp" where
  "usable_natural dflt x = (if \<not> fp_is_finite x \<or> fp_lt x (Fin 0) then dflt else x)"

definition usable_ratio :: "fp \<Rightarrow> fp" where
  "usable_ratio x = (if \<not> fp_is_finite x \<or> fp_lt x (Fin 0) \<or> fp_lt (Fin 1) x then fp_clamp x (Fin 0) (Fin 1) else x)"

definition usable_connection :: "connection_values \<Rightarrow> connection_values" where
  "usable_connection c =
     (if nv_auto_discovery c \<and> nv_port_file c = [] then c\<lparr>nv_port_file := ''runtime/active-server.json''\<rparr> else c)"

definition usable_profiling :: "profiling_values \<Rightarrow> profiling_values" where
  "usable_profiling p =
     (let report_interval = at_least 1 300 (pv_report_interval p);
          history = at_least 1 report_interval (pv_history_size p)
      in p\<lparr>pv_report_interval := report_interval, pv_history_size := max history report_interval,
           pv_lag_tolerance := usable_natural (litD (1 / 2)) (pv_lag_tolerance p),
           pv_max_lag_rate := usable_ratio (pv_max_lag_rate p), pv_max_drop_rate := usable_ratio (pv_max_drop_rate p),
           pv_max_parse_error_rate := usable_ratio (pv_max_parse_error_rate p),
           pv_min_active := at_least 0 0 (pv_min_active p)\<rparr>)"

definition usable_runtime :: "runtime_values \<Rightarrow> runtime_values" where
  "usable_runtime r = r\<lparr>rv_tick_rate := at_least 1 30 (rv_tick_rate r),
     rv_snapshot_interval := at_least 1 2 (rv_snapshot_interval r),
     rv_input_capacity := at_least 1 2048 (rv_input_capacity r),
     rv_tuning := sanitize_movement_tuning (rv_tuning r), rv_profiling := usable_profiling (rv_profiling r)\<rparr>"

definition usable_combat :: "combat_values \<Rightarrow> combat_values" where
  "usable_combat c = \<lparr>cv_health = at_least 1 100 (cv_health c),
     cv_hitscan_range = usable_positive (litD 128) (cv_hitscan_range c),
     cv_projectile_range = usable_positive (litD 96) (cv_projectile_range c),
     cv_projectile_speed = usable_positive (litD 40) (cv_projectile_speed c),
     cv_hit_radius = usable_positive (litD (3 / 4)) (cv_hit_radius c)\<rparr>"

definition usable_inventory :: "inventory_values \<Rightarrow> inventory_values" where
  "usable_inventory i = \<lparr>iv_spawn_interval = at_least 1 90 (iv_spawn_interval i), iv_max_spawns = at_least 1 64 (iv_max_spawns i),
     iv_queue_capacity = at_least 1 2048 (iv_queue_capacity i),
     iv_pickup_radius = usable_positive (litD (5 / 2)) (iv_pickup_radius i),
     iv_max_items = at_least 1 16 (iv_max_items i), iv_max_weight = at_least 1 40 (iv_max_weight i),
     iv_drop_spread = usable_natural (litD (3 / 4)) (iv_drop_spread i)\<rparr>"

definition usable_match :: "match_values \<Rightarrow> match_values" where
  "usable_match m = \<lparr>mv_duration = at_least 1 3600 (mv_duration m), mv_respawns = at_least 0 2 (mv_respawns m),
     mv_pre_match = at_least 0 5 (mv_pre_match m), mv_respawn_delay = at_least 1 3 (mv_respawn_delay m),
     mv_min_players = at_least 1 1 (mv_min_players m)\<rparr>"

definition usable_map :: "map_values \<Rightarrow> map_values" where
  "usable_map m = \<lparr>wv_chunks_x = at_least 1 64 (wv_chunks_x m), wv_chunks_z = at_least 1 64 (wv_chunks_z m),
     wv_height = at_least 1 256 (wv_height m), wv_draw_distance = at_least 0 2 (wv_draw_distance m),
     wv_profile = sanitize_profile (wv_profile m)\<rparr>"

definition usable_values :: "server_values \<Rightarrow> server_values" where
  "usable_values v = v\<lparr>srv_max_players := at_least 1 64 (srv_max_players v),
     srv_connection := usable_connection (srv_connection v),
     srv_heartbeat_ms := at_least 1 10000 (srv_heartbeat_ms v), srv_runtime := usable_runtime (srv_runtime v),
     srv_combat := usable_combat (srv_combat v), srv_inventory := usable_inventory (srv_inventory v),
     srv_match := usable_match (srv_match v), srv_map := usable_map (srv_map v)\<rparr>"

section \<open>The components' configuration\<close>

definition seconds_to_ticks :: "int \<Rightarrow> int \<Rightarrow> u32 \<Rightarrow> u32" where
  "seconds_to_ticks rate seconds floor_ticks =
     (if seconds \<le> 0 \<or> rate \<le> 0 then floor_ticks
      else let raw = seconds * rate in
        if raw \<le> 0 then floor_ticks
        else if 4294967295 < raw then 4294967295
        else word_of_int raw)"

definition chunks_of_height :: "int \<Rightarrow> int" where
  "chunks_of_height height = (let n = c_div (wrap_i32 (height + 32 - 1)) 32 in if n \<le> 0 then 1 else n)"

text \<open>The block ids of the block document; block 0 is air and always valid.\<close>

definition read_block_ids :: "'j json_api \<Rightarrow> 'j \<Rightarrow> block_id set" where
  "read_block_ids J blocks =
     (let entries = (if contains J blocks ''blocks'' \<and> is_array J (at_key J blocks ''blocks'')
            then jelems J (at_key J blocks ''blocks'') else []);
          ids = insert 0 (set (List.map_filter (\<lambda>e. if \<not> is_object J e \<or> \<not> contains J e ''id'' then None
            else json_to_u8 J (at_key J e ''id'')) entries))
      in if card ids \<le> 1 then insert 1 (insert 2 (insert 3 ids)) else ids)"

definition server_config_of :: "server_values \<Rightarrow> block_id set \<Rightarrow> weapon_definition list \<Rightarrow> treasure_definition list
    \<Rightarrow> server_config" where
  "server_config_of v block_ids weapon_defs treasure_defs =
     (let r = srv_runtime v; c = srv_combat v; i = srv_inventory v; m = srv_match v; w = srv_map v in
      \<lparr>vc_settings = \<lparr>gc_max_players = srv_max_players v, gc_valid_block_ids = block_ids, gc_profile = wv_profile w,
         gc_starting_health = cv_health c, gc_respawns_per_player = mv_respawns m,
         gc_broadcast_on_snapshot = rv_broadcast_match_state r, gc_include_scoreboard = rv_include_scoreboard r\<rparr>,
       vc_session = \<lparr>max_players = nat (srv_max_players v), heartbeat_timeout = srv_heartbeat_ms v * 1000000\<rparr>,
       vc_runtime = \<lparr>tick_rate_hz = word_of_int (rv_tick_rate r), input_queue_capacity = nat (rv_input_capacity r),
         snapshot_interval_ticks = word_of_int (rv_snapshot_interval r)\<rparr>,
       vc_tuning = rv_tuning r,
       vc_weapons = weapon_defs,
       vc_combat = \<lparr>starting_health = cv_health c, default_hitscan_range = fp_cast Single (cv_hitscan_range c),
         default_projectile_range = fp_cast Single (cv_projectile_range c),
         default_projectile_speed = fp_cast Single (cv_projectile_speed c), hit_radius = fp_cast Single (cv_hit_radius c)\<rparr>,
       vc_treasures = treasure_defs,
       vc_loot = \<lparr>spawn_interval_ticks = word_of_int (iv_spawn_interval i), max_active_spawns = nat (iv_max_spawns i),
         pickup_queue_capacity = nat (iv_queue_capacity i), pickup_radius = fp_cast Single (iv_pickup_radius i),
         max_items_per_player = nat (iv_max_items i), max_weight_per_player = iv_max_weight i,
         loot_mode = parse_loot_drop_mode (srv_loot_drop v), world_size_x = wrap_i32 (wv_chunks_x w * 32),
         world_size_y = wrap_i32 (wv_chunks_z w * 32), death_drop_spread = fp_cast Single (iv_drop_spread i)\<rparr>,
       vc_match = \<lparr>pre_match_ticks = seconds_to_ticks (rv_tick_rate r) (mv_pre_match m) 0,
         match_duration_seconds = word_of_int (mv_duration m), respawns_per_player = word_of_int (mv_respawns m),
         respawn_delay_ticks = seconds_to_ticks (rv_tick_rate r) (mv_respawn_delay m) 1,
         min_players_to_start = word_of_int (mv_min_players m)\<rparr>,
       vc_replication = \<lparr>rep_chunks_x = wv_chunks_x w, rep_chunks_y = chunks_of_height (wv_height w),
         rep_chunks_z = wv_chunks_z w, rep_interest_radius = wv_draw_distance w\<rparr>,
       vc_chunks_x = wv_chunks_x w, vc_chunks_z = wv_chunks_z w, vc_world_height = wv_height w\<rparr>)"

text \<open>
  The start of the program up to the network: no document (it is missing or no JSON), errors in it, an
  exception while a document is read, or the values and the configuration of the server. The other
  documents, of blocks, weapons and treasures, are null when their file is missing or no JSON.
\<close>

datatype startup = Not_Loaded | Rejected_Config "string list" | Crashed json_error | Configured server_values server_config

definition server_startup :: "'j json_api \<Rightarrow> 'j option \<Rightarrow> 'j \<Rightarrow> 'j \<Rightarrow> 'j \<Rightarrow> startup" where
  "server_startup J loaded blocks_doc weapons_doc treasures_doc =
     (case loaded of None \<Rightarrow> Not_Loaded
      | Some config \<Rightarrow>
          (let errors = validate_server_config J config in
           if errors \<noteq> [] then Rejected_Config errors
           else case and_then (read_server_values J config) (\<lambda>raw.
               let v = usable_values raw in
               and_then (load_weapons J weapons_doc) (\<lambda>weapon_defs.
               and_then (load_treasures J treasures_doc) (\<lambda>treasure_defs.
               Inr (v, server_config_of v (read_block_ids J blocks_doc) weapon_defs treasure_defs)))) of
             Inl e \<Rightarrow> Crashed e
           | Inr (v, c) \<Rightarrow> Configured v c))"

section \<open>A valid document is read\<close>

lemma to_i64_number: "to_i64 J x = Some n \<Longrightarrow> is_number J x"
  by (auto simp: to_i64_def json_types split: if_splits)

lemma int_field_returns: "conforms J v (Field key (Int_Where test)) \<Longrightarrow> returns (value_int J v key d)"
  by (auto simp: get_or_def get_returns dest: to_i64_number split: option.splits)

lemma number_field_returns:
  "conforms J v (Field key (Number_Where test)) \<Longrightarrow> returns (value_double J v key d)"
  "conforms J v (Field key (Number_Where test)) \<Longrightarrow> returns (value_float J v key d)"
  by (auto simp: get_or_def get_returns split: option.splits)

lemma text_field_returns: "conforms J v (Field key (Text_Where test)) \<Longrightarrow> returns (value_string J v key d)"
  by (auto simp: get_or_def get_returns split: option.splits)

lemma bool_field_returns: "conforms J v (Field key Boolean) \<Longrightarrow> returns (value_bool J v key d)"
  by (auto simp: get_or_def get_returns split: option.splits)

lemma section_returns:
  assumes "conforms J v (Group key rules)" and "\<And>x. list_all (conforms J x) rules \<Longrightarrow> returns (read x)"
  shows "returns (section_or J v key d read)"
  using assms by (auto simp: section_or_def contains_def at_key_def split: option.splits)

lemmas fields_return = int_field_returns number_field_returns text_field_returns bool_field_returns

lemma read_sections_return:
  "list_all (conforms J c) combat_schema \<Longrightarrow> returns (read_combat J c)"
  "list_all (conforms J c) inventory_schema \<Longrightarrow> returns (read_inventory J c)"
  "list_all (conforms J c) match_schema \<Longrightarrow> returns (read_match J c d)"
  unfolding read_combat_def combat_schema_def read_inventory_def inventory_schema_def read_match_def match_schema_def Let_def
    list.pred_inject
  by (elim conjE, intro returns_and_then returns_Inr; rule fields_return, assumption)+

lemma read_connection_returns:
  "list_all (conforms J c) [Field ''port_auto_discovery'' Boolean, Field ''runtime_port_file'' (Text_Where test)]
    \<Longrightarrow> returns (read_connection J c)"
  unfolding read_connection_def list.pred_inject
  by (elim conjE, intro returns_and_then returns_Inr; rule fields_return, assumption)

lemma read_tuning_returns:
  "list_all (conforms J c) [Field ''accel_ground'' positive_number, Field ''accel_air'' positive_number,
     Field ''friction_ground'' natural_number, Field ''max_speed_walk'' positive_number,
     Field ''sprint_multiplier'' positive_number, Field ''crouch_multiplier'' positive_number,
     Field ''jump_velocity'' positive_number, Field ''gravity'' positive_number]
    \<Longrightarrow> returns (read_tuning J c t)"
  unfolding read_tuning_def list.pred_inject
  by (elim conjE, intro returns_and_then returns_Inr; rule fields_return, assumption)

lemma read_alerts_returns:
  "list_all (conforms J c) [Field ''max_tick_lag_rate'' ratio_number, Field ''max_packet_drop_rate'' ratio_number,
     Field ''max_parse_error_rate'' ratio_number, Field ''min_active_players'' natural_int]
    \<Longrightarrow> returns (read_alerts J c p)"
  unfolding read_alerts_def list.pred_inject
  by (elim conjE, intro returns_and_then returns_Inr; rule fields_return, assumption)

lemma read_profiling_returns: "list_all (conforms J c) profiling_schema \<Longrightarrow> returns (read_profiling J c p)"
  unfolding read_profiling_def profiling_schema_def list.pred_inject Let_def
  by (elim conjE, intro returns_and_then returns_Inr; (rule fields_return, assumption)?)
    (erule section_returns, erule read_alerts_returns)

lemma read_runtime_returns: "list_all (conforms J c) runtime_schema \<Longrightarrow> returns (read_runtime J c)"
  unfolding read_runtime_def runtime_schema_def list.pred_inject Let_def
  by (elim conjE, intro returns_and_then returns_Inr; (rule fields_return, assumption)?)
    (erule section_returns, erule read_tuning_returns read_profiling_returns)+

lemma read_toggles_returns:
  "list_all (conforms J c) [Field ''outpost'' Boolean, Field ''ruins'' Boolean, Field ''loot_shrine'' Boolean]
    \<Longrightarrow> returns (read_toggles J c e)"
  unfolding read_toggles_def list.pred_inject
  by (elim conjE, intro returns_and_then returns_Inr; rule fields_return, assumption)

lemma read_placement_returns:
  "list_all (conforms J c) [Field ''cell_size_chunks'' positive_int, Field ''jitter_units'' natural_int,
     Field ''min_poi_spacing_units'' natural_int] \<Longrightarrow> returns (read_placement J c e)"
  unfolding read_placement_def list.pred_inject
  by (elim conjE, intro returns_and_then returns_Inr; rule fields_return, assumption)

lemma read_expansion_returns: "list_all (conforms J c) expansion_schema \<Longrightarrow> returns (read_config_expansion J c e)"
  unfolding read_config_expansion_def expansion_schema_def list.pred_inject Let_def
  by (elim conjE, intro returns_and_then returns_Inr; (rule fields_return, assumption)?)
    (erule section_returns, erule read_placement_returns read_toggles_returns)+

lemma read_map_returns: "list_all (conforms J c) map_schema \<Longrightarrow> returns (read_map J c)"
  unfolding read_map_def map_schema_def list.pred_inject Let_def
  by (elim conjE, intro returns_and_then returns_Inr; (rule fields_return, assumption)?)
    (erule section_returns, erule read_expansion_returns)

lemma read_session_returns:
  "list_all (conforms J s) [Field ''heartbeat_timeout_ms'' positive_int] \<Longrightarrow>
    returns (value_int J s ''heartbeat_timeout_ms'' d)"
  unfolding list.pred_inject by (elim conjE) (rule fields_return)

lemma read_fields_return: "list_all (conforms J config) config_schema \<Longrightarrow> returns (read_server_fields J config)"
  unfolding read_server_fields_def config_schema_def list.pred_inject Let_def
  by (elim conjE, intro returns_and_then returns_Inr; (rule fields_return, assumption)?)
    (erule section_returns, erule read_connection_returns read_session_returns read_runtime_returns
      read_sections_return read_map_returns)+

lemma valid_config_read: "config_valid J config \<Longrightarrow> returns (read_server_values J config)"
  by (simp add: config_valid_def read_server_values_def read_fields_return)

text \<open>C32: The configuration alone decides how the server starts, if the weapon and treasure documents can be
  read: an invalid configuration is refused with its errors, a valid one always leads to a configured
  server. No value of a valid document makes the reading throw, whatever its other members are.\<close>

theorem startup_outcome:
  assumes "load_weapons J weapons_doc = Inr weapon_defs" and "load_treasures J treasures_doc = Inr treasure_defs"
  shows "(\<not> config_valid J config \<and> validate_server_config J config \<noteq> []
       \<and> server_startup J (Some config) blocks_doc weapons_doc treasures_doc = Rejected_Config (validate_server_config J config))
    \<or> (config_valid J config \<and> (\<exists>raw. read_server_values J config = Inr raw
       \<and> server_startup J (Some config) blocks_doc weapons_doc treasures_doc
         = Configured (usable_values raw)
            (server_config_of (usable_values raw) (read_block_ids J blocks_doc) weapon_defs treasure_defs)))"
proof (cases "config_valid J config")
  case True
  then obtain raw where "read_server_values J config = Inr raw" by (rule valid_config_read [THEN returnsE])
  then show ?thesis using True assms by (simp add: server_startup_def no_errors_iff_valid Let_def)
next
  case False
  then show ?thesis by (simp add: server_startup_def no_errors_iff_valid)
qed

section \<open>A valid document is used as it is written\<close>

text \<open>
  The validation reads integers of 64 bits, the program then reads them as \<open>int\<close>. The integers of a
  document fit if this makes no difference.
\<close>

fun int_fits :: "'j json_api \<Rightarrow> 'j \<Rightarrow> schema \<Rightarrow> bool" where
  "int_fits J v (Field key (Int_Where test)) =
     (case jfind J v key of None \<Rightarrow> True | Some x \<Rightarrow> (case to_i64 J x of None \<Rightarrow> True | Some n \<Rightarrow> get_int J x = Inr n))"
| "int_fits J v (Field key kind) = True"
| "int_fits J v (Group key rules) =
     (case jfind J v key of None \<Rightarrow> True | Some x \<Rightarrow> is_object J x \<longrightarrow> list_all (int_fits J x) rules)"

lemma yields_section:
  assumes "conforms J v (Group key rules)" and "int_fits J v (Group key rules)"
    and "\<And>x. list_all (conforms J x) rules \<Longrightarrow> list_all (int_fits J x) rules \<Longrightarrow> yields (read x) P" and "P d"
  shows "yields (section_or J v key d read) P"
  using assms by (auto simp: section_or_def contains_def at_key_def yields_def split: option.splits)

lemma written_int:
  assumes "conforms J v (Field key (Int_Where test))" and "int_fits J v (Field key (Int_Where test))" and "test d"
  shows "yields (value_int J v key d) (\<lambda>n. n = int_member J v key d \<and> test n)"
  using assms by (auto simp: get_or_def int_member_def yields_def split: option.splits)

lemma written_number:
  assumes "conforms J v (Field key (Number_Where test))" and "fp_is_finite d \<and> test d"
  shows "yields (value_double J v key d) (\<lambda>x. fp_is_finite x \<and> test x)"
  using assms by (auto simp: get_or_def get_double_def yields_def split: option.splits)

lemma written_other: "returns m \<Longrightarrow> yields m (\<lambda>x. True)"
  by (auto simp: yields_def returns_def)

text \<open>Usable values stay.\<close>

lemma positive_usable: "fp_is_finite x \<and> fp_lt (Fin 0) x \<Longrightarrow> usable_positive e x = x"
  and natural_usable: "fp_is_finite x \<and> fp_le (Fin 0) x \<Longrightarrow> usable_natural e x = x"
  and ratio_usable: "fp_is_finite x \<and> fp_le (Fin 0) x \<and> fp_le x (Fin 1) \<Longrightarrow> usable_ratio x = x"
  by (cases x; auto simp: usable_positive_def usable_natural_def usable_ratio_def fp_le_def)+

lemmas usable = positive_usable natural_usable ratio_usable at_least_def

lemma double_literals: "litD 128 = Fin 128" "litD 96 = Fin 96" "litD 40 = Fin 40" "litD (3 / 4) = Fin (3 / 4)"
  "litD (5 / 2) = Fin (5 / 2)" "litD (1 / 2) = Fin (1 / 2)" "litD 1 = Fin 1"
  by code_simp+

lemma combat_as_written:
  assumes "list_all (conforms J c) combat_schema" and "list_all (int_fits J c) combat_schema"
  shows "yields (read_combat J c) (\<lambda>v. usable_combat v = v)"
  using assms unfolding combat_schema_def list.pred_inject read_combat_def Let_def
  by (elim conjE)
    ((rule yields_and_then, (rule written_int written_number, assumption+, simp add: default_combat_def double_literals fp_le_def))+,
      rule yields_Inr, simp add: usable_combat_def usable)

lemma inventory_as_written:
  assumes "list_all (conforms J c) inventory_schema" and "list_all (int_fits J c) inventory_schema"
  shows "yields (read_inventory J c) (\<lambda>v. usable_inventory v = v)"
  using assms unfolding inventory_schema_def list.pred_inject read_inventory_def Let_def
  by (elim conjE)
    ((rule yields_and_then, (rule written_int written_number, assumption+, simp add: default_inventory_def double_literals fp_le_def))+,
      rule yields_Inr, simp add: usable_inventory_def usable)

lemma match_as_written:
  assumes "list_all (conforms J c) match_schema" and "list_all (int_fits J c) match_schema"
    and "0 < mv_duration d" "0 \<le> mv_respawns d" "0 \<le> mv_pre_match d" "0 < mv_respawn_delay d" "0 < mv_min_players d"
  shows "yields (read_match J c d) (\<lambda>v. usable_match v = v)"
  using assms unfolding match_schema_def list.pred_inject read_match_def
  by (elim conjE)
    ((rule yields_and_then, (rule written_int, assumption+))+, rule yields_Inr, simp add: usable_match_def usable)

lemma alerts_as_written:
  assumes "list_all (conforms J c) [Field ''max_tick_lag_rate'' ratio_number, Field ''max_packet_drop_rate'' ratio_number,
      Field ''max_parse_error_rate'' ratio_number, Field ''min_active_players'' natural_int]"
    and "list_all (int_fits J c) [Field ''max_tick_lag_rate'' ratio_number, Field ''max_packet_drop_rate'' ratio_number,
      Field ''max_parse_error_rate'' ratio_number, Field ''min_active_players'' natural_int]"
    and "0 < pv_report_interval p" "pv_report_interval p \<le> pv_history_size p"
    and "fp_is_finite (pv_lag_tolerance p) \<and> fp_le (Fin 0) (pv_lag_tolerance p)"
    and "pv_max_lag_rate p = Fin 1" "pv_max_drop_rate p = Fin 1" "pv_max_parse_error_rate p = Fin 1" "pv_min_active p = 0"
  shows "yields (read_alerts J c p) (\<lambda>v. usable_profiling v = v)"
  using assms unfolding list.pred_inject read_alerts_def
  by (elim conjE)
    ((rule yields_and_then, (rule written_number written_int, assumption+, simp add: fp_le_def))+,
      rule yields_Inr, simp add: usable_profiling_def usable Let_def)

lemma profiling_as_written:
  assumes "list_all (conforms J c) profiling_schema" and "list_all (int_fits J c) profiling_schema"
    and "history_long_enough J c"
  shows "yields (read_profiling J c default_profiling) (\<lambda>v. usable_profiling v = v)"
  using assms unfolding profiling_schema_def list.pred_inject read_profiling_def Let_def history_long_enough_def
  by (elim conjE)
    (rule yields_and_then, rule written_other, rule fields_return, assumption,
      (rule yields_and_then, (rule written_int written_number, assumption+, simp add: default_profiling_def double_literals fp_le_def))+,
      erule (1) yields_section, rule alerts_as_written,
      simp_all add: default_profiling_def double_literals usable_profiling_def usable fp_le_def Let_def)

text \<open>The tuning of the movement is sanitized by the movement's own rules, the rest stays.\<close>

lemma runtime_as_written:
  assumes "list_all (conforms J c) runtime_schema" and "list_all (int_fits J c) runtime_schema"
    and "\<And>p. jfind J c ''profiling'' = Some p \<Longrightarrow> history_long_enough J p"
  shows "yields (read_runtime J c) (\<lambda>v. usable_runtime v = v\<lparr>rv_tuning := sanitize_movement_tuning (rv_tuning v)\<rparr>)"
proof -
  have default: "rv_profiling default_runtime = default_profiling" by (simp add: default_runtime_def)
  have profiling: "yields (section_or J c ''profiling'' default_profiling (\<lambda>p. read_profiling J p default_profiling))
      (\<lambda>v. usable_profiling v = v)"
  proof (cases "jfind J c ''profiling''")
    case None
    then show ?thesis
      by (simp add: section_or_def contains_def yields_def default_profiling_def double_literals usable_profiling_def usable
          fp_le_def Let_def)
  next
    case (Some p)
    then have "list_all (conforms J p) profiling_schema" "list_all (int_fits J p) profiling_schema"
      and "section_or J c ''profiling'' default_profiling (\<lambda>p. read_profiling J p default_profiling)
        = read_profiling J p default_profiling"
      using assms(1,2) by (simp_all add: runtime_schema_def section_or_def contains_def at_key_def)
    with profiling_as_written assms(3) [OF Some] show ?thesis by simp
  qed
  have tuning: "yields (section_or J c ''movement'' t (\<lambda>m. read_tuning J m t)) (\<lambda>v. True)" for t
    using assms(1) unfolding runtime_schema_def list.pred_inject
    by (elim conjE) (rule written_other, erule section_returns, erule read_tuning_returns)
  show ?thesis
    using assms(1,2) unfolding runtime_schema_def list.pred_inject read_runtime_def Let_def
    by (elim conjE)
      ((rule yields_and_then, rule written_int, assumption, assumption, simp add: default_runtime_def)+,
        rule yields_and_then, rule written_other, rule fields_return(2), assumption,
        rule yields_and_then, rule tuning,
        (rule yields_and_then, rule written_other, rule fields_return(5), assumption)+,
        rule yields_and_then, rule profiling [folded default], rule yields_Inr, simp add: usable_runtime_def usable)
qed

lemma map_as_written:
  assumes "list_all (conforms J c) map_schema" and "list_all (int_fits J c) map_schema"
  shows "yields (read_map J c) (\<lambda>v. usable_map v = v\<lparr>wv_profile := sanitize_profile (wv_profile v)\<rparr>)"
  using assms unfolding map_schema_def list.pred_inject read_map_def Let_def
  by (elim conjE)
    ((rule yields_and_then, rule written_int, assumption, assumption, simp add: default_map_def)+,
      rule yields_and_then, rule written_other, erule section_returns, erule read_expansion_returns,
      rule yields_Inr, simp add: usable_map_def usable)

lemma runtime_section_as_written:
  assumes "config_valid J config" and "list_all (int_fits J config) config_schema"
  shows "yields (section_or J config ''runtime'' default_runtime (read_runtime J))
      (\<lambda>v. usable_runtime v = v\<lparr>rv_tuning := sanitize_movement_tuning (rv_tuning v)\<rparr>)"
proof (cases "jfind J config ''runtime''")
  case None
  then show ?thesis
    by (simp add: section_or_def contains_def yields_def default_runtime_def usable_runtime_def default_profiling_def
        double_literals usable_profiling_def usable fp_le_def Let_def)
next
  case (Some r)
  then have "list_all (conforms J r) runtime_schema" "list_all (int_fits J r) runtime_schema"
    and "section_or J config ''runtime'' default_runtime (read_runtime J) = read_runtime J r"
    and "\<And>p. jfind J r ''profiling'' = Some p \<Longrightarrow> history_long_enough J p"
    using assms by (simp_all add: config_valid_def config_schema_def section_or_def contains_def at_key_def)
  with runtime_as_written [of J r] show ?thesis by simp
qed

lemma wrap_minutes: "0 < n \<Longrightarrow> n * 60 < 2 ^ 31 \<Longrightarrow> 0 < wrap_i32 (n * 60)"
  by (simp add: wrap_i32_def)

lemma defaults_usable: "usable_combat default_combat = default_combat" "usable_inventory default_inventory = default_inventory"
  "usable_map default_map = default_map\<lparr>wv_profile := sanitize_profile (wv_profile default_map)\<rparr>"
  by (simp_all add: usable_combat_def default_combat_def usable_inventory_def default_inventory_def usable_map_def
      default_map_def double_literals usable fp_le_def)

lemma session_as_written:
  "list_all (conforms J s) [Field ''heartbeat_timeout_ms'' positive_int] \<Longrightarrow>
    list_all (int_fits J s) [Field ''heartbeat_timeout_ms'' positive_int] \<Longrightarrow> 0 < d \<Longrightarrow>
    yields (value_int J s ''heartbeat_timeout_ms'' d) (\<lambda>n. 0 < n)"
  using written_int [of J s "''heartbeat_timeout_ms''" "\<lambda>n. 0 < n" d] by (auto simp: yields_def)

lemma fields_as_written:
  assumes "config_valid J config" and "list_all (int_fits J config) config_schema"
    and "int_member J config ''match_time_minutes'' 60 * 60 < 2 ^ 31"
  shows "yields (read_server_fields J config) (\<lambda>v. usable_values v =
    v\<lparr>srv_connection := usable_connection (srv_connection v),
      srv_runtime := (srv_runtime v)\<lparr>rv_tuning := sanitize_movement_tuning (rv_tuning (srv_runtime v))\<rparr>,
      srv_map := (srv_map v)\<lparr>wv_profile := sanitize_profile (wv_profile (srv_map v))\<rparr>\<rparr>
    \<and> srv_max_players v = int_member J config ''max_players'' 64 \<and> srv_port v = int_member J config ''port'' 7777)"
proof -
  have c: "list_all (conforms J config) config_schema" using assms(1) by (simp add: config_valid_def)
  note runtime = runtime_section_as_written [OF assms(1,2)]
  note member = c assms(2)
  have limit: "yields (value_int J config ''max_players'' 64) (\<lambda>n. n = int_member J config ''max_players'' 64 \<and> 0 < n)"
    using member unfolding config_schema_def list.pred_inject
    by (elim conjE) (rule written_int, assumption, assumption, simp)
  have port: "yields (value_int J config ''port'' 7777) (\<lambda>n. n = int_member J config ''port'' 7777 \<and> (0 < n \<and> n < 2 ^ 16))"
    using member unfolding config_schema_def list.pred_inject
    by (elim conjE) (rule written_int, assumption, assumption, simp)
  have minutes: "yields (value_int J config ''match_time_minutes'' 60)
      (\<lambda>n. n = int_member J config ''match_time_minutes'' 60 \<and> 0 < n)"
    using member unfolding config_schema_def list.pred_inject
    by (elim conjE) (rule written_int, assumption, assumption, simp)
  have respawns: "yields (value_int J config ''respawns'' 2) (\<lambda>n. n = int_member J config ''respawns'' 2 \<and> 0 \<le> n)"
    using member unfolding config_schema_def list.pred_inject
    by (elim conjE) (rule written_int, assumption, assumption, simp)
  have drop: "yields (value_string J config ''loot_drop'' ''all'') (\<lambda>s. True)"
    using c unfolding config_schema_def list.pred_inject by (elim conjE) (rule written_other, rule fields_return(4))
  have connection: "yields (section_or J config ''connection'' d (read_connection J)) (\<lambda>v. True)" for d
    using c unfolding config_schema_def list.pred_inject
    by (elim conjE) (rule written_other, erule section_returns, erule read_connection_returns)
  have heartbeat: "yields (section_or J config ''session'' 10000 (\<lambda>s. value_int J s ''heartbeat_timeout_ms'' 10000)) (\<lambda>n. 0 < n)"
    using member unfolding config_schema_def list.pred_inject
    by (elim conjE) (erule (1) yields_section, erule (1) session_as_written, simp_all)
  have combat: "yields (section_or J config ''combat'' default_combat (read_combat J)) (\<lambda>v. usable_combat v = v)"
    using member unfolding config_schema_def list.pred_inject
    by (elim conjE) (erule (1) yields_section, erule (1) combat_as_written, rule defaults_usable)
  have inventory: "yields (section_or J config ''inventory'' default_inventory (read_inventory J)) (\<lambda>v. usable_inventory v = v)"
    using member unfolding config_schema_def list.pred_inject
    by (elim conjE) (erule (1) yields_section, erule (1) inventory_as_written, rule defaults_usable)
  have map: "yields (section_or J config ''map'' default_map (read_map J))
      (\<lambda>v. usable_map v = v\<lparr>wv_profile := sanitize_profile (wv_profile v)\<rparr>)"
    using member unfolding config_schema_def list.pred_inject
    by (elim conjE) (erule (1) yields_section, erule (1) map_as_written, rule defaults_usable)
  have match: "yields (section_or J config ''match'' d (\<lambda>m. read_match J m d)) (\<lambda>v. usable_match v = v)"
    if "0 < mv_duration d" "0 \<le> mv_respawns d" "0 \<le> mv_pre_match d" "0 < mv_respawn_delay d" "0 < mv_min_players d" for d
    using member that unfolding config_schema_def list.pred_inject
    by (elim conjE) (erule (1) yields_section, erule (1) match_as_written, simp_all add: usable_match_def usable)
  show ?thesis
    unfolding read_server_fields_def Let_def
    by (rule yields_and_then, rule limit, rule yields_and_then, rule port, rule yields_and_then, rule connection,
        rule yields_and_then, rule heartbeat, rule yields_and_then, rule runtime, rule yields_and_then, rule combat,
        rule yields_and_then, rule inventory, rule yields_and_then, rule drop, rule yields_and_then, rule minutes,
        rule yields_and_then, rule respawns, rule yields_and_then, rule match,
        (simp add: wrap_minutes [simplified] assms(3) [simplified]; fail)+,
        rule yields_and_then, rule map, rule yields_Inr, simp add: usable_values_def usable)
qed

section \<open>What a document says\<close>

text \<open>
  Independent of the program's reads: the member of a document at a path of keys, and the value that is
  written there, or a default. From these the table below gives the configuration that a document means,
  with the path and the default of every field.
\<close>

fun doc_at :: "'j json_api \<Rightarrow> 'j option \<Rightarrow> string list \<Rightarrow> 'j option" where
  "doc_at J v [] = v"
| "doc_at J v (key # keys) = doc_at J (case v of None \<Rightarrow> None | Some x \<Rightarrow> jfind J x key) keys"

definition doc_int :: "'j json_api \<Rightarrow> 'j option \<Rightarrow> string list \<Rightarrow> int \<Rightarrow> int" where
  "doc_int J v path d = (case doc_at J v path of None \<Rightarrow> d | Some x \<Rightarrow> (case to_i64 J x of None \<Rightarrow> d | Some n \<Rightarrow> n))"

definition doc_double :: "'j json_api \<Rightarrow> 'j option \<Rightarrow> string list \<Rightarrow> fp \<Rightarrow> fp" where
  "doc_double J v path d = (case doc_at J v path of None \<Rightarrow> d | Some x \<Rightarrow> jdouble J x)"

definition doc_single :: "'j json_api \<Rightarrow> 'j option \<Rightarrow> string list \<Rightarrow> fp \<Rightarrow> fp" where
  "doc_single J v path d = (case doc_at J v path of None \<Rightarrow> d
     | Some x \<Rightarrow> (case get_float J x of Inl e \<Rightarrow> d | Inr y \<Rightarrow> y))"

definition doc_bool :: "'j json_api \<Rightarrow> 'j option \<Rightarrow> string list \<Rightarrow> bool \<Rightarrow> bool" where
  "doc_bool J v path d = (case doc_at J v path of None \<Rightarrow> d | Some x \<Rightarrow> jbool J x)"

definition doc_text :: "'j json_api \<Rightarrow> 'j option \<Rightarrow> string list \<Rightarrow> string \<Rightarrow> string" where
  "doc_text J v path d = (case doc_at J v path of None \<Rightarrow> d | Some x \<Rightarrow> jstring J x)"

lemmas doc_defs = doc_int_def doc_double_def doc_single_def doc_bool_def doc_text_def

definition written_connection :: "'j json_api \<Rightarrow> 'j \<Rightarrow> connection_values" where
  "written_connection J config =
     (let discover = doc_bool J (Some config) [''connection'', ''port_auto_discovery''] False;
          file = doc_text J (Some config) [''connection'', ''runtime_port_file''] []
      in \<lparr>nv_auto_discovery = discover,
          nv_port_file = (if discover \<and> file = [] then ''runtime/active-server.json'' else file)\<rparr>)"

definition written_profiling :: "'j json_api \<Rightarrow> 'j \<Rightarrow> profiling_values" where
  "written_profiling J config = (let sub = (\<lambda>path. [''runtime'', ''profiling''] @ path); c = Some config in
     \<lparr>pv_enabled = doc_bool J c (sub [''enabled'']) True,
      pv_report_interval = doc_int J c (sub [''report_interval_ticks'']) 300,
      pv_history_size = doc_int J c (sub [''history_size_ticks'']) 600,
      pv_lag_tolerance = doc_double J c (sub [''tick_lag_tolerance_ms'']) (Fin (1 / 2)),
      pv_max_lag_rate = doc_double J c (sub [''alerts'', ''max_tick_lag_rate'']) (Fin 1),
      pv_max_drop_rate = doc_double J c (sub [''alerts'', ''max_packet_drop_rate'']) (Fin 1),
      pv_max_parse_error_rate = doc_double J c (sub [''alerts'', ''max_parse_error_rate'']) (Fin 1),
      pv_min_active = doc_int J c (sub [''alerts'', ''min_active_players'']) 0\<rparr>)"

text \<open>The walking speed has an older name, which the newer one overrides.\<close>

definition written_tuning :: "'j json_api \<Rightarrow> 'j \<Rightarrow> movement_tuning" where
  "written_tuning J config = (let c = Some config; sub = (\<lambda>key. [''runtime'', ''movement'', key]);
       legacy = fp_cast Single (doc_double J c [''runtime'', ''movement_speed_units_per_second''] (Fin 6)) in
     \<lparr>accel_ground = doc_single J c (sub ''accel_ground'') (Fin 48),
      accel_air = doc_single J c (sub ''accel_air'') (Fin 16),
      friction_ground = doc_single J c (sub ''friction_ground'') (Fin 20),
      max_speed_walk = doc_single J c (sub ''max_speed_walk'') legacy,
      sprint_multiplier = doc_single J c (sub ''sprint_multiplier'') (Fin (3 / 2)),
      crouch_multiplier = doc_single J c (sub ''crouch_multiplier'') (litF (55 / 100)),
      jump_velocity = doc_single J c (sub ''jump_velocity'') (Fin (15 / 2)),
      gravity = doc_single J c (sub ''gravity'') (Fin 22)\<rparr>)"

definition written_profile :: "'j json_api \<Rightarrow> 'j \<Rightarrow> generation_profile" where
  "written_profile J config = (let c = Some config; sub = (\<lambda>path. [''map'', ''world_expansion''] @ path);
       density = doc_text J c (sub [''poi_density'']) ''medium'' in
     \<lparr>gp_world_seed = (case doc_at J c [''map'', ''world_seed''] of None \<Rightarrow> 1337
        | Some x \<Rightarrow> (case json_to_u32 J x of None \<Rightarrow> 1337 | Some n \<Rightarrow> n)),
      gp_expansion = \<lparr>exp_enabled = doc_bool J c (sub [''enabled'']) True,
        exp_poi_density = (case parse_poi_density density of None \<Rightarrow> Medium | Some d \<Rightarrow> d),
        exp_cell_size_chunks = doc_int J c (sub [''placement'', ''cell_size_chunks'']) 4,
        exp_jitter_units = doc_int J c (sub [''placement'', ''jitter_units'']) 24,
        exp_min_poi_spacing_units = doc_int J c (sub [''placement'', ''min_poi_spacing_units'']) 96,
        exp_poi_types = \<lparr>tog_outpost = doc_bool J c (sub [''poi_types'', ''outpost'']) True,
          tog_ruins = doc_bool J c (sub [''poi_types'', ''ruins'']) True,
          tog_loot_shrine = doc_bool J c (sub [''poi_types'', ''loot_shrine'']) True\<rparr>,
        exp_loot_bias_multiplier = doc_single J c (sub [''loot_bias_multiplier'']) (Fin (5 / 4))\<rparr>\<rparr>)"

text \<open>
  The configuration of the components. Seconds count in ticks of the configured rate, at most the largest
  32-bit number; world sizes are in blocks; an omitted number of the \<open>match\<close> section comes from the older
  members \<open>match_time_minutes\<close> and \<open>respawns\<close>.
\<close>

definition written_config :: "'j json_api \<Rightarrow> 'j \<Rightarrow> block_id set \<Rightarrow> weapon_definition list \<Rightarrow> treasure_definition list
    \<Rightarrow> server_config" where
  "written_config J config block_ids weapon_defs treasure_defs =
     (let number = doc_int J (Some config); real = doc_double J (Some config); flag = doc_bool J (Some config);
          limit = number [''max_players''] 64;
          rate = number [''runtime'', ''tick_rate_hz''] 30;
          ticks = (\<lambda>seconds. word_of_int (min (2 ^ 32 - 1) (seconds * rate)));
          respawns = number [''match'', ''respawns_per_player''] (number [''respawns''] 2);
          health = number [''combat'', ''starting_health''] 100;
          chunks_x = number [''map'', ''chunks_x''] 64; chunks_z = number [''map'', ''chunks_z''] 64;
          height = number [''map'', ''world_height''] 256;
          profile = sanitize_profile (written_profile J config)
      in \<lparr>vc_settings = \<lparr>gc_max_players = limit, gc_valid_block_ids = block_ids, gc_profile = profile,
            gc_starting_health = health, gc_respawns_per_player = respawns,
            gc_broadcast_on_snapshot = flag [''runtime'', ''match_state_broadcast_on_snapshot''] False,
            gc_include_scoreboard = flag [''runtime'', ''snapshot_include_match_scoreboard''] False\<rparr>,
          vc_session = \<lparr>max_players = nat limit,
            heartbeat_timeout = number [''session'', ''heartbeat_timeout_ms''] 10000 * 1000000\<rparr>,
          vc_runtime = \<lparr>tick_rate_hz = word_of_int rate,
            input_queue_capacity = nat (number [''runtime'', ''input_queue_capacity''] 2048),
            snapshot_interval_ticks = word_of_int (number [''runtime'', ''snapshot_interval_ticks''] 2)\<rparr>,
          vc_tuning = sanitize_movement_tuning (written_tuning J config),
          vc_weapons = weapon_defs,
          vc_combat = \<lparr>starting_health = health,
            default_hitscan_range = fp_cast Single (real [''combat'', ''hitscan_range_units''] (Fin 128)),
            default_projectile_range = fp_cast Single (real [''combat'', ''projectile_range_units''] (Fin 96)),
            default_projectile_speed = fp_cast Single (real [''combat'', ''projectile_speed_units_per_second''] (Fin 40)),
            hit_radius = fp_cast Single (real [''combat'', ''hit_radius_units''] (Fin (3 / 4)))\<rparr>,
          vc_treasures = treasure_defs,
          vc_loot = \<lparr>spawn_interval_ticks = word_of_int (number [''inventory'', ''spawn_interval_ticks''] 90),
            max_active_spawns = nat (number [''inventory'', ''max_active_spawns''] 64),
            pickup_queue_capacity = nat (number [''inventory'', ''pickup_queue_capacity''] 2048),
            pickup_radius = fp_cast Single (real [''inventory'', ''pickup_radius_units''] (Fin (5 / 2))),
            max_items_per_player = nat (number [''inventory'', ''max_items_per_player''] 16),
            max_weight_per_player = number [''inventory'', ''max_weight_per_player''] 40,
            loot_mode = (if lowercase (doc_text J (Some config) [''loot_drop''] ''all'') = ''none'' then DropNone else DropAll),
            world_size_x = wrap_i32 (chunks_x * 32), world_size_y = wrap_i32 (chunks_z * 32),
            death_drop_spread = fp_cast Single (real [''inventory'', ''death_drop_spread_units''] (Fin (3 / 4)))\<rparr>,
          vc_match = \<lparr>pre_match_ticks = ticks (number [''match'', ''pre_match_seconds''] 5),
            match_duration_seconds =
              word_of_int (number [''match'', ''duration_seconds''] (number [''match_time_minutes''] 60 * 60)),
            respawns_per_player = word_of_int respawns,
            respawn_delay_ticks = ticks (number [''match'', ''respawn_delay_seconds''] 3),
            min_players_to_start = word_of_int (number [''match'', ''min_players_to_start''] 1)\<rparr>,
          vc_replication = \<lparr>rep_chunks_x = chunks_x, rep_chunks_y = max 1 (chunk_rows height), rep_chunks_z = chunks_z,
            rep_interest_radius = number [''map'', ''draw_distance_chunks''] 2\<rparr>,
          vc_chunks_x = chunks_x, vc_chunks_z = chunks_z, vc_world_height = height\<rparr>)"

text \<open>The program reads what is written.\<close>

definition int_ok :: "'j json_api \<Rightarrow> 'j \<Rightarrow> string \<Rightarrow> bool" where
  "int_ok J v key \<longleftrightarrow> (case jfind J v key of None \<Rightarrow> True | Some x \<Rightarrow> (\<exists>n. to_i64 J x = Some n \<and> get_int J x = Inr n))"

definition number_ok :: "'j json_api \<Rightarrow> 'j \<Rightarrow> string \<Rightarrow> bool" where
  "number_ok J v key \<longleftrightarrow> (case jfind J v key of None \<Rightarrow> True | Some x \<Rightarrow> is_number J x)"

definition text_ok :: "'j json_api \<Rightarrow> 'j \<Rightarrow> string \<Rightarrow> bool" where
  "text_ok J v key \<longleftrightarrow> (case jfind J v key of None \<Rightarrow> True | Some x \<Rightarrow> is_string J x)"

definition bool_ok :: "'j json_api \<Rightarrow> 'j \<Rightarrow> string \<Rightarrow> bool" where
  "bool_ok J v key \<longleftrightarrow> (case jfind J v key of None \<Rightarrow> True | Some x \<Rightarrow> is_boolean J x)"

fun rule_ok :: "'j json_api \<Rightarrow> 'j \<Rightarrow> schema \<Rightarrow> bool" where
  "rule_ok J v (Field key (Int_Where test)) = int_ok J v key"
| "rule_ok J v (Field key (Number_Where test)) = number_ok J v key"
| "rule_ok J v (Field key (Text_Where test)) = text_ok J v key"
| "rule_ok J v (Field key Boolean) = bool_ok J v key"
| "rule_ok J v (Group key rules) = True"

lemma rules_ok:
  assumes "list_all (conforms J v) rules" and "list_all (int_fits J v) rules"
  shows "list_all (rule_ok J v) rules"
proof -
  have "rule_ok J v r" if "conforms J v r" "int_fits J v r" for r
    using that by (cases "(J, v, r)" rule: rule_ok.cases)
      (auto simp: int_ok_def number_ok_def text_ok_def bool_ok_def split: option.splits)
  with assms show ?thesis by (simp add: list_all_iff)
qed

lemma ok_read:
  "int_ok J v key \<Longrightarrow> value_int J v key d = Inr (doc_int J (Some v) [key] d)"
  "number_ok J v key \<Longrightarrow> value_double J v key x = Inr (doc_double J (Some v) [key] x)"
  "number_ok J v key \<Longrightarrow> value_float J v key x = Inr (doc_single J (Some v) [key] x)"
  "text_ok J v key \<Longrightarrow> value_string J v key s = Inr (doc_text J (Some v) [key] s)"
  "bool_ok J v key \<Longrightarrow> value_bool J v key b = Inr (doc_bool J (Some v) [key] b)"
  by (auto simp: get_or_def int_ok_def number_ok_def text_ok_def bool_ok_def doc_defs get_double_def get_float_def
      get_string_def get_bool_def split: option.splits)

text \<open>Of a section: what is written in it, or the defaults.\<close>

lemma section_read:
  assumes "conforms J v (Group key rules)" and "int_fits J v (Group key rules)"
    and "\<And>x. list_all (conforms J x) rules \<Longrightarrow> list_all (int_fits J x) rules \<Longrightarrow> read x = Inr (w (Some x))"
    and "w None = d"
  shows "section_or J v key d read = Inr (w (doc_at J (Some v) [key]))"
  using assms by (auto simp: section_or_def contains_def at_key_def split: option.splits)

text \<open>The sections, as functions of the member that holds them.\<close>

definition combat_in :: "'j json_api \<Rightarrow> 'j option \<Rightarrow> combat_values" where
  "combat_in J r = \<lparr>cv_health = doc_int J r [''starting_health''] 100,
     cv_hitscan_range = doc_double J r [''hitscan_range_units''] (Fin 128),
     cv_projectile_range = doc_double J r [''projectile_range_units''] (Fin 96),
     cv_projectile_speed = doc_double J r [''projectile_speed_units_per_second''] (Fin 40),
     cv_hit_radius = doc_double J r [''hit_radius_units''] (Fin (3 / 4))\<rparr>"

lemma combat_read:
  assumes "list_all (conforms J c) combat_schema" and "list_all (int_fits J c) combat_schema"
  shows "read_combat J c = Inr (combat_in J (Some c))"
  using rules_ok [OF assms] by (simp add: combat_schema_def read_combat_def ok_read combat_in_def default_combat_def double_literals)

definition inventory_in :: "'j json_api \<Rightarrow> 'j option \<Rightarrow> inventory_values" where
  "inventory_in J r = \<lparr>iv_spawn_interval = doc_int J r [''spawn_interval_ticks''] 90,
     iv_max_spawns = doc_int J r [''max_active_spawns''] 64, iv_queue_capacity = doc_int J r [''pickup_queue_capacity''] 2048,
     iv_pickup_radius = doc_double J r [''pickup_radius_units''] (Fin (5 / 2)),
     iv_max_items = doc_int J r [''max_items_per_player''] 16, iv_max_weight = doc_int J r [''max_weight_per_player''] 40,
     iv_drop_spread = doc_double J r [''death_drop_spread_units''] (Fin (3 / 4))\<rparr>"

lemma inventory_read:
  assumes "list_all (conforms J c) inventory_schema" and "list_all (int_fits J c) inventory_schema"
  shows "read_inventory J c = Inr (inventory_in J (Some c))"
  using rules_ok [OF assms] by (simp add: inventory_schema_def read_inventory_def ok_read inventory_in_def default_inventory_def double_literals)

definition match_in :: "'j json_api \<Rightarrow> match_values \<Rightarrow> 'j option \<Rightarrow> match_values" where
  "match_in J d r = \<lparr>mv_duration = doc_int J r [''duration_seconds''] (mv_duration d),
     mv_respawns = doc_int J r [''respawns_per_player''] (mv_respawns d),
     mv_pre_match = doc_int J r [''pre_match_seconds''] (mv_pre_match d),
     mv_respawn_delay = doc_int J r [''respawn_delay_seconds''] (mv_respawn_delay d),
     mv_min_players = doc_int J r [''min_players_to_start''] (mv_min_players d)\<rparr>"

lemma match_read:
  assumes "list_all (conforms J c) match_schema" and "list_all (int_fits J c) match_schema"
  shows "read_match J c d = Inr (match_in J d (Some c))"
  using rules_ok [OF assms] by (simp add: match_schema_def read_match_def ok_read match_in_def)

definition tuning_in :: "'j json_api \<Rightarrow> movement_tuning \<Rightarrow> 'j option \<Rightarrow> movement_tuning" where
  "tuning_in J t r = \<lparr>accel_ground = doc_single J r [''accel_ground''] (accel_ground t),
     accel_air = doc_single J r [''accel_air''] (accel_air t),
     friction_ground = doc_single J r [''friction_ground''] (friction_ground t),
     max_speed_walk = doc_single J r [''max_speed_walk''] (max_speed_walk t),
     sprint_multiplier = doc_single J r [''sprint_multiplier''] (sprint_multiplier t),
     crouch_multiplier = doc_single J r [''crouch_multiplier''] (crouch_multiplier t),
     jump_velocity = doc_single J r [''jump_velocity''] (jump_velocity t), gravity = doc_single J r [''gravity''] (gravity t)\<rparr>"

definition profiling_in :: "'j json_api \<Rightarrow> 'j option \<Rightarrow> profiling_values" where
  "profiling_in J r = \<lparr>pv_enabled = doc_bool J r [''enabled''] True,
     pv_report_interval = doc_int J r [''report_interval_ticks''] 300,
     pv_history_size = doc_int J r [''history_size_ticks''] 600,
     pv_lag_tolerance = doc_double J r [''tick_lag_tolerance_ms''] (Fin (1 / 2)),
     pv_max_lag_rate = doc_double J r [''alerts'', ''max_tick_lag_rate''] (Fin 1),
     pv_max_drop_rate = doc_double J r [''alerts'', ''max_packet_drop_rate''] (Fin 1),
     pv_max_parse_error_rate = doc_double J r [''alerts'', ''max_parse_error_rate''] (Fin 1),
     pv_min_active = doc_int J r [''alerts'', ''min_active_players''] 0\<rparr>"

lemma profiling_read:
  assumes "list_all (conforms J c) profiling_schema" and "list_all (int_fits J c) profiling_schema"
  shows "read_profiling J c default_profiling = Inr (profiling_in J (Some c))"
proof -
  let ?alerts = "[Field ''max_tick_lag_rate'' ratio_number, Field ''max_packet_drop_rate'' ratio_number,
       Field ''max_parse_error_rate'' ratio_number, Field ''min_active_players'' natural_int]"
  define w where "w p r = p\<lparr>pv_max_lag_rate := doc_double J r [''max_tick_lag_rate''] (pv_max_lag_rate p),
      pv_max_drop_rate := doc_double J r [''max_packet_drop_rate''] (pv_max_drop_rate p),
      pv_max_parse_error_rate := doc_double J r [''max_parse_error_rate''] (pv_max_parse_error_rate p),
      pv_min_active := doc_int J r [''min_active_players''] (pv_min_active p)\<rparr>" for p :: profiling_values and r
  have alerts: "read_alerts J a p = Inr (w p (Some a))"
    if "list_all (conforms J a) ?alerts" "list_all (int_fits J a) ?alerts" for a p
    using rules_ok [OF that] by (simp add: read_alerts_def ok_read w_def)
  have nested: "section_or J c ''alerts'' p (\<lambda>a. read_alerts J a p) = Inr (w p (doc_at J (Some c) [''alerts'']))" for p
    using assms unfolding profiling_schema_def list.pred_inject
    by (elim conjE) (erule (1) section_read [where w = "w p"], erule (1) alerts, simp add: w_def doc_defs)
  show ?thesis
    using rules_ok [OF assms]
    by (simp add: profiling_schema_def read_profiling_def ok_read nested Let_def) (simp add: w_def profiling_in_def default_profiling_def
      double_literals doc_defs)
qed

definition runtime_in :: "'j json_api \<Rightarrow> 'j option \<Rightarrow> runtime_values" where
  "runtime_in J r = \<lparr>rv_tick_rate = doc_int J r [''tick_rate_hz''] 30,
     rv_snapshot_interval = doc_int J r [''snapshot_interval_ticks''] 2,
     rv_input_capacity = doc_int J r [''input_queue_capacity''] 2048,
     rv_tuning = tuning_in J (default_tuning\<lparr>max_speed_walk :=
         fp_cast Single (doc_double J r [''movement_speed_units_per_second''] (Fin 6))\<rparr>) (doc_at J r [''movement'']),
     rv_broadcast_match_state = doc_bool J r [''match_state_broadcast_on_snapshot''] False,
     rv_include_scoreboard = doc_bool J r [''snapshot_include_match_scoreboard''] False,
     rv_profiling = profiling_in J (doc_at J r [''profiling''])\<rparr>"

lemma tuning_read:
  assumes "list_all (conforms J m) [Field ''accel_ground'' positive_number, Field ''accel_air'' positive_number,
       Field ''friction_ground'' natural_number, Field ''max_speed_walk'' positive_number,
       Field ''sprint_multiplier'' positive_number, Field ''crouch_multiplier'' positive_number,
       Field ''jump_velocity'' positive_number, Field ''gravity'' positive_number]"
  shows "read_tuning J m t = Inr (tuning_in J t (Some m))"
proof -
  have "number_ok J m key" if "conforms J m (Field key (Number_Where test))" for key test
    using that by (auto simp: number_ok_def split: option.splits)
  with assms show ?thesis
    unfolding list.pred_inject read_tuning_def by (elim conjE) (simp add: ok_read tuning_in_def del: conforms.simps)
qed

text \<open>The older walking speed of a valid document is positive and finite, so it is used.\<close>

lemma legacy_used:
  assumes "conforms J c (Field ''movement_speed_units_per_second'' positive_number)"
  shows "legacy_speed (doc_double J (Some c) [''movement_speed_units_per_second''] (Fin 6)) t =
    t\<lparr>max_speed_walk := fp_cast Single (doc_double J (Some c) [''movement_speed_units_per_second''] (Fin 6))\<rparr>"
  using assms by (auto simp: legacy_speed_def doc_defs split: option.splits)

lemma walking_speed: "fp_round Double 6 = Fin 6" "fp_round Single 6 = Fin 6" "fp_cast Double (litF 6) = Fin 6" "fp_cast Single (Fin 6) = Fin 6" "litF 6 = Fin 6"
  by code_simp+

lemma default_runtime_in: "runtime_in J None = default_runtime"
  by (simp add: runtime_in_def default_runtime_def tuning_in_def profiling_in_def default_profiling_def double_literals doc_defs
      walking_speed default_tuning_def)

lemma runtime_read:
  assumes "list_all (conforms J c) runtime_schema" and "list_all (int_fits J c) runtime_schema"
  shows "read_runtime J c = Inr (runtime_in J (Some c))"
proof -
  have tuning: "section_or J c ''movement'' t (\<lambda>m. read_tuning J m t) = Inr (tuning_in J t (doc_at J (Some c) [''movement'']))" for t
    using assms unfolding runtime_schema_def list.pred_inject
    by (elim conjE) (erule (1) section_read [where w = "tuning_in J t"], erule tuning_read, simp add: tuning_in_def doc_defs)
  have profiling: "section_or J c ''profiling'' default_profiling (\<lambda>p. read_profiling J p default_profiling) =
      Inr (profiling_in J (doc_at J (Some c) [''profiling'']))"
    using assms unfolding runtime_schema_def list.pred_inject
    by (elim conjE) (erule (1) section_read [where w = "profiling_in J"], erule (1) profiling_read,
      simp add: profiling_in_def doc_defs default_profiling_def double_literals)
  have legacy: "conforms J c (Field ''movement_speed_units_per_second'' positive_number)"
    using assms(1) unfolding runtime_schema_def list.pred_inject by (elim conjE)
  have defaults: "rv_tuning default_runtime = default_tuning" "rv_profiling default_runtime = default_profiling"
    "max_speed_walk default_tuning = litF 6"
    by (simp_all add: default_runtime_def default_tuning_def)
  show ?thesis
    using rules_ok [OF assms]
    by (simp add: runtime_schema_def read_runtime_def ok_read defaults walking_speed tuning profiling legacy_used [OF legacy]
        Let_def)
      (simp add: runtime_in_def default_runtime_def)
qed

definition expansion_in :: "'j json_api \<Rightarrow> 'j option \<Rightarrow> expansion_profile" where
  "expansion_in J r = \<lparr>exp_enabled = doc_bool J r [''enabled''] True,
     exp_poi_density = (case parse_poi_density (doc_text J r [''poi_density''] ''medium'') of None \<Rightarrow> Medium | Some d \<Rightarrow> d),
     exp_cell_size_chunks = doc_int J r [''placement'', ''cell_size_chunks''] 4,
     exp_jitter_units = doc_int J r [''placement'', ''jitter_units''] 24,
     exp_min_poi_spacing_units = doc_int J r [''placement'', ''min_poi_spacing_units''] 96,
     exp_poi_types = \<lparr>tog_outpost = doc_bool J r [''poi_types'', ''outpost''] True,
       tog_ruins = doc_bool J r [''poi_types'', ''ruins''] True,
       tog_loot_shrine = doc_bool J r [''poi_types'', ''loot_shrine''] True\<rparr>,
     exp_loot_bias_multiplier = doc_single J r [''loot_bias_multiplier''] (Fin (5 / 4))\<rparr>"

lemma default_bias: "litF (5 / 4) = Fin (5 / 4)" and medium_density: "parse_poi_density ''medium'' = Some Medium"
  by code_simp+

lemma default_expansion_in: "expansion_in J None = default_expansion"
  by (simp add: expansion_in_def default_expansion_def doc_defs default_bias medium_density)

lemma expansion_read:
  assumes "list_all (conforms J c) expansion_schema" and "list_all (int_fits J c) expansion_schema"
  shows "read_config_expansion J c default_expansion = Inr (expansion_in J (Some c))"
proof -
  define places where "places e r = e\<lparr>exp_cell_size_chunks := doc_int J r [''cell_size_chunks''] (exp_cell_size_chunks e),
      exp_jitter_units := doc_int J r [''jitter_units''] (exp_jitter_units e),
      exp_min_poi_spacing_units := doc_int J r [''min_poi_spacing_units''] (exp_min_poi_spacing_units e)\<rparr>"
    for e :: expansion_profile and r
  define toggles where "toggles e r = e\<lparr>exp_poi_types :=
      \<lparr>tog_outpost = doc_bool J r [''outpost''] (tog_outpost (exp_poi_types e)),
       tog_ruins = doc_bool J r [''ruins''] (tog_ruins (exp_poi_types e)),
       tog_loot_shrine = doc_bool J r [''loot_shrine''] (tog_loot_shrine (exp_poi_types e))\<rparr>\<rparr>"
    for e :: expansion_profile and r
  let ?placement = "[Field ''cell_size_chunks'' positive_int, Field ''jitter_units'' natural_int,
       Field ''min_poi_spacing_units'' natural_int]"
  let ?types = "[Field ''outpost'' Boolean, Field ''ruins'' Boolean, Field ''loot_shrine'' Boolean]"
  have place: "read_placement J x e = Inr (places e (Some x))"
    if "list_all (conforms J x) ?placement" "list_all (int_fits J x) ?placement" for x e
    using rules_ok [OF that] by (simp add: read_placement_def ok_read places_def)
  have toggle: "read_toggles J x e = Inr (toggles e (Some x))"
    if "list_all (conforms J x) ?types" "list_all (int_fits J x) ?types" for x e
    using rules_ok [OF that] by (simp add: read_toggles_def ok_read toggles_def)
  have placement: "section_or J c ''placement'' e (\<lambda>p. read_placement J p e) = Inr (places e (doc_at J (Some c) [''placement'']))" for e
    using assms unfolding expansion_schema_def list.pred_inject
    by (elim conjE) (erule (1) section_read [where w = "places e"], erule (1) place, simp add: places_def doc_defs)
  have types: "section_or J c ''poi_types'' e (\<lambda>p. read_toggles J p e) = Inr (toggles e (doc_at J (Some c) [''poi_types'']))" for e
    using assms unfolding expansion_schema_def list.pred_inject
    by (elim conjE) (erule (1) section_read [where w = "toggles e"], erule (1) toggle, simp add: toggles_def doc_defs)
  have density: "density_member J c Medium =
      (case parse_poi_density (doc_text J (Some c) [''poi_density''] ''medium'') of None \<Rightarrow> Medium | Some d \<Rightarrow> d)"
    using assms(1) unfolding expansion_schema_def
    by (auto simp: density_member_def contains_def at_key_def doc_defs medium_density split: option.splits)
  show ?thesis
    using rules_ok [OF assms]
    by (simp add: expansion_schema_def read_config_expansion_def ok_read placement types Let_def)
      (simp add: toggles_def places_def expansion_in_def default_expansion_def density doc_defs default_bias)
qed

definition map_in :: "'j json_api \<Rightarrow> 'j option \<Rightarrow> map_values" where
  "map_in J r = \<lparr>wv_chunks_x = doc_int J r [''chunks_x''] 64, wv_chunks_z = doc_int J r [''chunks_z''] 64,
     wv_height = doc_int J r [''world_height''] 256, wv_draw_distance = doc_int J r [''draw_distance_chunks''] 2,
     wv_profile = \<lparr>gp_world_seed = (case doc_at J r [''world_seed''] of None \<Rightarrow> 1337
         | Some x \<Rightarrow> (case json_to_u32 J x of None \<Rightarrow> 1337 | Some n \<Rightarrow> n)),
       gp_expansion = expansion_in J (doc_at J r [''world_expansion''])\<rparr>\<rparr>"

lemma default_map_in: "map_in J None = default_map"
  by (simp add: map_in_def default_map_def doc_defs default_profile_def default_expansion_in)

lemma map_read:
  assumes "list_all (conforms J c) map_schema" and "list_all (int_fits J c) map_schema" and "jtype J (jnull J) = J_Null"
  shows "read_map J c = Inr (map_in J (Some c))"
proof -
  have expansion: "section_or J c ''world_expansion'' default_expansion (\<lambda>w. read_config_expansion J w default_expansion) =
      Inr (expansion_in J (doc_at J (Some c) [''world_expansion'']))"
    using assms(1,2) unfolding map_schema_def list.pred_inject
    by (elim conjE) (erule (1) section_read [where w = "expansion_in J"], erule (1) expansion_read, rule default_expansion_in)
  have profile: "gp_expansion (wv_profile default_map) = default_expansion" "gp_world_seed (wv_profile default_map) = 1337"
    by (simp_all add: default_map_def default_profile_def)
  have seed: "(case json_to_u32 J (at_key J c ''world_seed'') of None \<Rightarrow> 1337 | Some n \<Rightarrow> n) =
      (case jfind J c ''world_seed'' of None \<Rightarrow> 1337 | Some x \<Rightarrow> (case json_to_u32 J x of None \<Rightarrow> 1337 | Some n \<Rightarrow> n))"
    using assms(3) by (auto simp: at_key_def json_to_u32_def json_types split: option.split)
  show ?thesis
    using rules_ok [OF assms(1,2)]
    by (simp add: map_schema_def read_map_def ok_read expansion profile seed Let_def cong: option.case_cong)
      (simp add: map_in_def default_map_def)
qed

definition connection_in :: "'j json_api \<Rightarrow> 'j option \<Rightarrow> connection_values" where
  "connection_in J r = \<lparr>nv_auto_discovery = doc_bool J r [''port_auto_discovery''] False,
     nv_port_file = doc_text J r [''runtime_port_file''] []\<rparr>"

definition values_in :: "'j json_api \<Rightarrow> 'j \<Rightarrow> server_values" where
  "values_in J config = (let c = Some config in
     \<lparr>srv_max_players = doc_int J c [''max_players''] 64, srv_port = doc_int J c [''port''] 7777,
      srv_connection = connection_in J (doc_at J c [''connection'']),
      srv_heartbeat_ms = doc_int J c [''session'', ''heartbeat_timeout_ms''] 10000,
      srv_runtime = runtime_in J (doc_at J c [''runtime'']), srv_combat = combat_in J (doc_at J c [''combat'']),
      srv_inventory = inventory_in J (doc_at J c [''inventory'']), srv_loot_drop = doc_text J c [''loot_drop''] ''all'',
      srv_match = match_in J \<lparr>mv_duration = wrap_i32 (doc_int J c [''match_time_minutes''] 60 * 60),
          mv_respawns = doc_int J c [''respawns''] 2, mv_pre_match = 5, mv_respawn_delay = 3, mv_min_players = 1\<rparr>
        (doc_at J c [''match'']),
      srv_map = map_in J (doc_at J c [''map''])\<rparr>)"

lemma fields_read:
  assumes "list_all (conforms J config) config_schema" and "list_all (int_fits J config) config_schema"
    and "jtype J (jnull J) = J_Null"
  shows "read_server_fields J config = Inr (values_in J config)"
proof -
  let ?connection = "[Field ''port_auto_discovery'' Boolean, Field ''runtime_port_file'' (Text_Where (\<lambda>s. s \<noteq> []))]"
  let ?session = "[Field ''heartbeat_timeout_ms'' positive_int]"
  note rules = assms(1,2) [unfolded config_schema_def list.pred_inject]
  have link: "read_connection J x = Inr (connection_in J (Some x))"
    if "list_all (conforms J x) ?connection" "list_all (int_fits J x) ?connection" for x
    using rules_ok [OF that] by (simp add: read_connection_def ok_read connection_in_def)
  have pulse: "value_int J x ''heartbeat_timeout_ms'' 10000 = Inr (doc_int J (Some x) [''heartbeat_timeout_ms''] 10000)"
    if "list_all (conforms J x) ?session" "list_all (int_fits J x) ?session" for x
    using rules_ok [OF that] by (simp add: ok_read)
  have connection: "section_or J config ''connection'' \<lparr>nv_auto_discovery = False, nv_port_file = []\<rparr> (read_connection J) =
      Inr (connection_in J (doc_at J (Some config) [''connection'']))"
    using rules by (elim conjE) (erule (1) section_read [where w = "connection_in J"], erule (1) link,
      simp add: connection_in_def doc_defs)
  have session: "section_or J config ''session'' 10000 (\<lambda>s. value_int J s ''heartbeat_timeout_ms'' 10000) =
      Inr (doc_int J (doc_at J (Some config) [''session'']) [''heartbeat_timeout_ms''] 10000)"
    using rules by (elim conjE) (erule (1) section_read [where w = "\<lambda>r. doc_int J r [''heartbeat_timeout_ms''] 10000"],
      erule (1) pulse, simp add: doc_defs)
  have runtime: "section_or J config ''runtime'' default_runtime (read_runtime J) =
      Inr (runtime_in J (doc_at J (Some config) [''runtime'']))"
    using rules by (elim conjE) (erule (1) section_read [where w = "runtime_in J"], erule (1) runtime_read, rule default_runtime_in)
  have combat: "section_or J config ''combat'' default_combat (read_combat J) = Inr (combat_in J (doc_at J (Some config) [''combat'']))"
    using rules by (elim conjE) (erule (1) section_read [where w = "combat_in J"], erule (1) combat_read,
      simp add: combat_in_def default_combat_def double_literals doc_defs)
  have inventory: "section_or J config ''inventory'' default_inventory (read_inventory J) =
      Inr (inventory_in J (doc_at J (Some config) [''inventory'']))"
    using rules by (elim conjE) (erule (1) section_read [where w = "inventory_in J"], erule (1) inventory_read,
      simp add: inventory_in_def default_inventory_def double_literals doc_defs)
  have match: "section_or J config ''match'' d (\<lambda>m. read_match J m d) = Inr (match_in J d (doc_at J (Some config) [''match'']))" for d
    using rules by (elim conjE) (erule (1) section_read [where w = "match_in J d"], erule (1) match_read,
      simp add: match_in_def doc_defs)
  have map: "section_or J config ''map'' default_map (read_map J) = Inr (map_in J (doc_at J (Some config) [''map'']))"
    using rules by (elim conjE) (erule (1) section_read [where w = "map_in J"], erule (1) map_read [OF _ _ assms(3)],
      rule default_map_in)
  show ?thesis
    using rules_ok [OF assms(1,2)]
    by (simp add: config_schema_def read_server_fields_def ok_read connection session runtime combat inventory match map Let_def
        del: doc_at.simps) (simp add: values_in_def doc_defs Let_def)
qed

lemma ticks_capped:
  assumes "0 \<le> seconds" and "0 < rate" and "0 < seconds \<or> n = 0"
  shows "seconds_to_ticks rate seconds n = word_of_int (min (2 ^ 32 - 1) (seconds * rate))"
proof (cases "seconds = 0")
  case True
  with assms(3) show ?thesis by (simp add: seconds_to_ticks_def)
next
  case False
  define raw where "raw = seconds * rate"
  have "0 < raw" using mult_pos_pos [of seconds rate] assms(1,2) False by (simp add: raw_def)
  then show ?thesis
    using False assms(1,2) unfolding seconds_to_ticks_def Let_def raw_def [symmetric] by (simp add: min_def)
qed

lemma section_paths:
  "doc_int J (doc_at J v [key]) path n = doc_int J v (key # path) n"
  "doc_double J (doc_at J v [key]) path x = doc_double J v (key # path) x"
  "doc_single J (doc_at J v [key]) path x = doc_single J v (key # path) x"
  "doc_bool J (doc_at J v [key]) path b = doc_bool J v (key # path) b"
  "doc_text J (doc_at J v [key]) path s = doc_text J v (key # path) s"
  by (simp_all add: doc_defs)

lemma doc_int_member: "doc_int J (Some v) [key] d = int_member J v key d"
  by (simp add: doc_int_def int_member_def)

lemma rows_of_world: "chunks_of_height h = max 1 (chunk_rows h)"
  using wrap_i32_add [of "h + 32" "- 1"] by (simp add: chunks_of_height_def chunk_rows_def chunk_size_simp Let_def)

lemma profiling_sections: "profiling_in J (doc_at J (doc_at J (Some config) [''runtime'']) [''profiling'']) = written_profiling J config"
  by (simp add: profiling_in_def written_profiling_def doc_defs Let_def)

lemma default_tuning_values:
  "accel_ground default_tuning = Fin 48" "accel_air default_tuning = Fin 16" "friction_ground default_tuning = Fin 20"
  "sprint_multiplier default_tuning = Fin (3 / 2)" "crouch_multiplier default_tuning = litF (55 / 100)"
  "jump_velocity default_tuning = Fin (15 / 2)" "gravity default_tuning = Fin 22"
  by code_simp+

lemma profile_sections: "wv_profile (map_in J (doc_at J (Some config) [''map''])) = written_profile J config"
  by (simp add: map_in_def expansion_in_def written_profile_def Let_def) (simp add: doc_defs)

lemma tuning_sections: "rv_tuning (runtime_in J (doc_at J (Some config) [''runtime''])) = written_tuning J config"
  by (simp add: runtime_in_def tuning_in_def written_tuning_def default_tuning_values Let_def)
    (simp add: doc_defs)

lemma config_of_written:
  assumes "usable_values (values_in J config) = (values_in J config)
      \<lparr>srv_connection := usable_connection (srv_connection (values_in J config)),
       srv_runtime := (srv_runtime (values_in J config))
         \<lparr>rv_tuning := sanitize_movement_tuning (rv_tuning (srv_runtime (values_in J config)))\<rparr>,
       srv_map := (srv_map (values_in J config))\<lparr>wv_profile := sanitize_profile (wv_profile (srv_map (values_in J config)))\<rparr>\<rparr>"
    and "0 < doc_int J (Some config) [''match_time_minutes''] 60"
    and "doc_int J (Some config) [''match_time_minutes''] 60 * 60 < 2 ^ 31"
  shows "server_config_of (usable_values (values_in J config)) block_ids weapon_defs treasure_defs =
    written_config J config block_ids weapon_defs treasure_defs"
proof -
  let ?v = "values_in J config"
  have "usable_match (srv_match ?v) = srv_match ?v" "usable_runtime (srv_runtime ?v) =
      (srv_runtime ?v)\<lparr>rv_tuning := sanitize_movement_tuning (rv_tuning (srv_runtime ?v))\<rparr>"
    using assms(1) by (cases ?v; simp add: usable_values_def)+
  then have pos: "0 \<le> mv_pre_match (srv_match ?v)" "0 < mv_respawn_delay (srv_match ?v)" "0 < rv_tick_rate (srv_runtime ?v)"
    by (cases "srv_match ?v"; cases "srv_runtime ?v"; simp add: usable_match_def usable_runtime_def at_least_def split: if_splits)+
  have minutes: "wrap_i32 (doc_int J (Some config) [''match_time_minutes''] 60 * 60) =
      doc_int J (Some config) [''match_time_minutes''] 60 * 60"
    using assms(2,3) by (intro wrap_i32_id) (simp add: in_i32_def)
  have parts: "wv_profile (srv_map ?v) = written_profile J config" "rv_tuning (srv_runtime ?v) = written_tuning J config"
    using profile_sections [of J config] tuning_sections [of J config] by (simp_all only: values_in_def Let_def server_values.simps)
  show ?thesis
    unfolding assms(1) using pos
    by (simp add: server_config_of_def written_config_def ticks_capped rows_of_world parts parse_loot_drop_mode_def Let_def)
      (simp add: values_in_def runtime_in_def combat_in_def inventory_in_def match_in_def map_in_def section_paths minutes Let_def
        del: doc_at.simps)
qed

lemma startup_as_written:
  assumes "list_all (int_fits J config) config_schema" and "int_member J config ''match_time_minutes'' 60 * 60 < 2 ^ 31"
    and "jtype J (jnull J) = J_Null"
    and "server_startup J (Some config) blocks_doc weapons_doc treasures_doc = Configured v c"
  shows "read_server_values J config = Inr (values_in J config)" and "\<exists>weapon_defs treasure_defs. load_weapons J weapons_doc = Inr weapon_defs \<and> load_treasures J treasures_doc = Inr treasure_defs
    \<and> c = written_config J config (read_block_ids J blocks_doc) weapon_defs treasure_defs
    \<and> srv_port v = doc_int J (Some config) [''port''] 7777 \<and> srv_connection v = written_connection J config
    \<and> rv_profiling (srv_runtime v) = written_profiling J config"
proof -
  let ?w = "values_in J config"
  have errors: "validate_server_config J config = []"
    using assms(4) by (auto simp: server_startup_def Let_def split: if_splits)
  then have valid: "config_valid J config" by (simp add: no_errors_iff_valid)
  then have read: "read_server_values J config = Inr (values_in J config)"
    using fields_read [OF _ assms(1,3)] by (simp add: read_server_values_def config_valid_def)
  then have fields: "read_server_fields J config = Inr (values_in J config)"
    using valid by (simp add: read_server_values_def config_valid_def)
  have minutes: "0 < doc_int J (Some config) [''match_time_minutes''] 60"
    "doc_int J (Some config) [''match_time_minutes''] 60 * 60 < 2 ^ 31"
  proof -
    have "conforms J config (Field ''match_time_minutes'' positive_int)"
      using valid unfolding config_valid_def config_schema_def list.pred_inject by blast
    then show "0 < doc_int J (Some config) [''match_time_minutes''] 60"
      "doc_int J (Some config) [''match_time_minutes''] 60 * 60 < 2 ^ 31"
      using assms(2) unfolding doc_int_member by (simp_all add: positive_member del: conforms.simps)
  qed
  note used = yields_returned [OF fields_as_written [OF valid assms(1,2)] fields]
  have "v = usable_values (values_in J config) \<and> (\<exists>weapon_defs treasure_defs. load_weapons J weapons_doc = Inr weapon_defs
      \<and> load_treasures J treasures_doc = Inr treasure_defs \<and> c = server_config_of v (read_block_ids J blocks_doc) weapon_defs treasure_defs)"
    using assms(4) errors read
    by (cases "load_weapons J weapons_doc"; cases "load_treasures J treasures_doc") (auto simp: server_startup_def Let_def)
  moreover have "server_config_of (usable_values ?w) ids ws ts = written_config J config ids ws ts" for ids ws ts
    by (rule config_of_written [OF conjunct1 [OF used]]) (use minutes in simp_all)
  moreover have "srv_port (usable_values ?w) = doc_int J (Some config) [''port''] 7777"
    "srv_connection (usable_values ?w) = written_connection J config"
    "rv_profiling (srv_runtime (usable_values ?w)) = written_profiling J config"
    unfolding conjunct1 [OF used]
    by (simp_all add: values_in_def usable_connection_def connection_in_def written_connection_def runtime_in_def
        profiling_sections section_paths Let_def del: doc_at.simps)
  ultimately show "\<exists>weapon_defs treasure_defs. load_weapons J weapons_doc = Inr weapon_defs \<and> load_treasures J treasures_doc = Inr treasure_defs
    \<and> c = written_config J config (read_block_ids J blocks_doc) weapon_defs treasure_defs
    \<and> srv_port v = doc_int J (Some config) [''port''] 7777 \<and> srv_connection v = written_connection J config
    \<and> rv_profiling (srv_runtime v) = written_profiling J config" by auto
  show "read_server_values J config = Inr ?w" by (rule read)
qed

text \<open>C33: A server that starts runs with the configuration that its document says, field by field: at the path of the
  field the value that is written there, or the documented default. No fallback of the program is taken
  and no member is ignored, if every integer fits an \<open>int\<close> and the match time in seconds does too. Only
  what is meant to be adapted is: the movement tuning and the profile of the world by their own rules,
  the file name for the port, and seconds that are too many ticks.\<close>

theorem accepted_config_as_written:
  assumes "list_all (int_fits J config) config_schema" and "int_member J config ''match_time_minutes'' 60 * 60 < 2 ^ 31"
    and "jtype J (jnull J) = J_Null"
    and "server_startup J (Some config) blocks_doc weapons_doc treasures_doc = Configured v c"
  shows "\<exists>weapon_defs treasure_defs. load_weapons J weapons_doc = Inr weapon_defs \<and> load_treasures J treasures_doc = Inr treasure_defs
    \<and> c = written_config J config (read_block_ids J blocks_doc) weapon_defs treasure_defs
    \<and> srv_port v = doc_int J (Some config) [''port''] 7777 \<and> srv_connection v = written_connection J config
    \<and> rv_profiling (srv_runtime v) = written_profiling J config"
  using assms by (rule startup_as_written(2))

section \<open>Concrete documents\<close>

definition small_config :: json_value where
  "small_config = VObject [(''max_players'', VUint 8), (''loot_drop'', VString ''None''),
     (''runtime'', VObject [(''tick_rate_hz'', VUint 20), (''profiling'', VObject [(''report_interval_ticks'', VUint 600)])]),
     (''match'', VObject [(''pre_match_seconds'', VUint 0)])]"

lemma small_config_valid: "config_valid text_json small_config"
proof -
  have "validate_server_config text_json small_config = []" by code_simp
  then show ?thesis by (simp add: no_errors_iff_valid)
qed

lemma no_rule_files: "load_weapons text_json VNull = Inr []" "load_treasures text_json VNull = Inr []"
  by code_simp+

theorem startup_outcome_witness:
  "(\<exists>v c. server_startup text_json (Some small_config) VNull VNull VNull = Configured v c)
    \<and> server_startup text_json (Some (VObject [(''port'', VUint 70000)])) VNull VNull VNull
      = Rejected_Config [''port: must be between 1 and 65535.'']"
proof
  show "\<exists>v c. server_startup text_json (Some small_config) VNull VNull VNull = Configured v c"
    using startup_outcome [OF no_rule_files, of small_config VNull] small_config_valid by blast
  have "validate_server_config text_json (VObject [(''port'', VUint 70000)]) = [''port: must be between 1 and 65535.'']"
    by code_simp
  then show "server_startup text_json (Some (VObject [(''port'', VUint 70000)])) VNull VNull VNull
      = Rejected_Config [''port: must be between 1 and 65535.'']"
    using startup_outcome [OF no_rule_files, of "VObject [(''port'', VUint 70000)]" VNull]
      no_errors_iff_valid [of text_json "VObject [(''port'', VUint 70000)]"] by auto
qed

theorem accepted_config_as_written_witness:
  "\<exists>v c. server_startup text_json (Some small_config) VNull VNull VNull = Configured v c
    \<and> max_players (vc_session c) = 8 \<and> tick_rate_hz (vc_runtime c) = 20 \<and> loot_mode (vc_loot c) = DropNone
    \<and> pre_match_ticks (vc_match c) = 0 \<and> respawn_delay_ticks (vc_match c) = 60
    \<and> pv_report_interval (rv_profiling (srv_runtime v)) = 600 \<and> srv_port v = 7777"
proof -
  obtain raw where "read_server_values text_json small_config = Inr raw"
    by (rule valid_config_read [OF small_config_valid, THEN returnsE])
  then obtain v c where start: "server_startup text_json (Some small_config) VNull VNull VNull = Configured v c"
    using small_config_valid no_rule_files by (simp add: server_startup_def no_errors_iff_valid Let_def)
  have fits: "list_all (int_fits text_json small_config) config_schema" by code_simp
  have "int_member text_json small_config ''match_time_minutes'' 60 * 60 < 2 ^ 31" by code_simp
  note as_written = accepted_config_as_written [OF fits this text_json.null_type start]
  have "doc_int text_json (Some small_config) [''max_players''] 64 = 8"
    "doc_int text_json (Some small_config) [''runtime'', ''tick_rate_hz''] 30 = 20"
    "doc_text text_json (Some small_config) [''loot_drop''] ''all'' = ''None''"
    "doc_int text_json (Some small_config) [''match'', ''pre_match_seconds''] 5 = 0"
    "doc_int text_json (Some small_config) [''match'', ''respawn_delay_seconds''] 3 = 3"
    "doc_int text_json (Some small_config) [''runtime'', ''profiling'', ''report_interval_ticks''] 300 = 600"
    "doc_int text_json (Some small_config) [''port''] 7777 = 7777"
    "lowercase ''None'' = ''none''"
    by code_simp+
  with as_written start show ?thesis
    by (auto simp: written_config_def written_profiling_def Let_def)
qed

text \<open>
  Without the condition that the integers fit, a value that the validation accepts is replaced: two to
  the power of 32 players are read as zero, and the program falls back to 64.
\<close>

lemma wide_limit_replaced:
  "validate_server_config text_json (VObject [(''max_players'', VUint 4294967296)]) = []
    \<and> value_int text_json (VObject [(''max_players'', VUint 4294967296)]) ''max_players'' 64 = Inr 0
    \<and> at_least 1 64 0 = 64"
  by code_simp

text \<open>And a match time of 35791395 minutes, which it accepts as well, overflows when it is turned into seconds.\<close>

lemma long_match_wraps: "0 < (35791395 :: int) \<and> wrap_i32 (35791395 * 60) < 0 \<and> at_least 1 3600 (wrap_i32 (35791395 * 60)) = 3600"
  by code_simp

end
