(* ===== verification/Telemetry.thy ===== *)
theory Telemetry
  imports Server_Config Json_Text
begin

text \<open>
  The measurements of the running server (server/RuntimeTelemetry.h and .cpp). The server reports every
  phase of a tick, the sizes of its tables, and every packet; after a number of ticks a report goes out and
  the measurement starts again. The abstract view is the log of what was measured since the last report.
  Shown: the counters, maxima and the list of durations are exactly those of the log, so that a report
  describes precisely the ticks since the one before.

  Sizes (\<open>size_t\<close>) are natural numbers, counters of 64 bits are words, time is in nanoseconds.
\<close>

section \<open>Configuration and reports\<close>

datatype tick_phase = Phase_Movement | Phase_Combat | Phase_Inventory | Phase_Match_Lifecycle | Phase_Broadcast
  | Phase_Snapshot_Build | Phase_Snapshot_Send | Phase_Count

fun phase_code :: "tick_phase \<Rightarrow> nat" where
  "phase_code Phase_Movement = 0"
| "phase_code Phase_Combat = 1"
| "phase_code Phase_Inventory = 2"
| "phase_code Phase_Match_Lifecycle = 3"
| "phase_code Phase_Broadcast = 4"
| "phase_code Phase_Snapshot_Build = 5"
| "phase_code Phase_Snapshot_Send = 6"
| "phase_code Phase_Count = 7"

definition tick_phase_count :: nat where "tick_phase_count = phase_code Phase_Count"
definition message_type_count :: nat where "message_type_count = unat (type_to_u8 TreasurePickup) + 1"

record alert_limits =
  al_max_lag_rate :: fp
  al_max_drop_rate :: fp
  al_max_parse_error_rate :: fp
  al_min_active :: nat

record telemetry_config =
  tc_enabled :: bool
  tc_report_interval :: u32
  tc_history_size :: nat
  tc_lag_tolerance :: fp
  tc_alerts :: alert_limits

record resource_snapshot =
  rs_active_sessions :: nat
  rs_tracked_players :: nat
  rs_pending_inputs :: nat
  rs_pending_events :: nat
  rs_active_spawns :: nat

record telemetry_report =
  tr_tick :: u64
  tr_ticks_in_window :: nat
  tr_avg_ms :: fp
  tr_p95_ms :: fp
  tr_max_ms :: fp
  tr_lag_count :: u64
  tr_lag_rate :: fp
  tr_budget_ms :: fp
  tr_overrun_ms :: fp
  tr_phase_avg_ms :: "fp list"
  tr_phase_max_ms :: "fp list"
  tr_packet_counts :: "u64 list"
  tr_packet_bytes :: "u64 list"
  tr_total_packets :: u64
  tr_total_bytes :: u64
  tr_received :: u64
  tr_dropped :: u64
  tr_parse_errors :: u64
  tr_rejections :: u64
  tr_drop_rate :: fp
  tr_parse_error_rate :: fp
  tr_peak_sessions :: nat
  tr_peak_players :: nat
  tr_peak_inputs :: nat
  tr_peak_events :: nat
  tr_peak_spawns :: nat
  tr_peak_bytes :: nat
  tr_avg_active :: fp
  tr_last_active :: nat
  tr_alerts :: "string list"

record telemetry =
  tm_config :: telemetry_config
  tm_active :: bool
  tm_tick :: u64
  tm_started_at :: int
  tm_ticks :: nat
  tm_budget_ns :: int
  tm_tolerance_ns :: int
  tm_lag_count :: u64
  tm_max_overrun_ns :: int
  tm_durations :: "int list"
  tm_phase_total :: "int list"
  tm_phase_max :: "int list"
  tm_received :: u64
  tm_dropped :: u64
  tm_parse_errors :: u64
  tm_rejections :: u64
  tm_packet_counts :: "u64 list"
  tm_packet_bytes :: "u64 list"
  tm_total_packets :: u64
  tm_total_bytes :: u64
  tm_peak_sessions :: nat
  tm_peak_players :: nat
  tm_peak_inputs :: nat
  tm_peak_events :: nat
  tm_peak_spawns :: nat
  tm_peak_bytes :: nat
  tm_active_sum :: u64
  tm_active_samples :: nat
  tm_last_active :: nat

section \<open>Helpers\<close>

definition ns_to_ms :: "int \<Rightarrow> fp" where
  "ns_to_ms n = divD (fp_of_int Double n) (litD 1000000)"

definition percentile_index :: "nat \<Rightarrow> fp \<Rightarrow> nat" where
  "percentile_index n percentile =
     (if n = 0 then 0
      else let rank = mulD percentile (fp_of_int Double (int n));
               index = unat (fp_to_u64 (fp_ceil rank));
               index = (if index = 0 then 1 else index) - 1
           in if n \<le> index then n - 1 else index)"

definition sanitize_ratio :: "fp \<Rightarrow> fp \<Rightarrow> fp" where
  "sanitize_ratio x fallback = (if \<not> fp_is_finite x then fallback else fp_clamp x (Fin 0) (Fin 1))"

text \<open>The cast of a double to a signed integer of 64 bits, for values in its range.\<close>

definition max_i64 :: int where "max_i64 = 2 ^ 63 - 1"

fun fp_to_i64 :: "fp \<Rightarrow> int" where
  "fp_to_i64 (Fin q) = (let t = trunc_rat q in if - (2 ^ 63) \<le> t \<and> t \<le> max_i64 then t else - (2 ^ 63))"
| "fp_to_i64 _ = - (2 ^ 63)"

definition ms_to_ns :: "fp \<Rightarrow> int" where
  "ms_to_ns ms =
     (if \<not> fp_is_finite ms \<or> fp_le ms (Fin 0) then 0
      else let ns = mulD ms (litD 1000000) in
        if fp_le (fp_of_int Double max_i64) ns then max_i64 else fp_to_i64 ns)"

definition sanitize_telemetry_config :: "telemetry_config \<Rightarrow> telemetry_config" where
  "sanitize_telemetry_config c =
     (let interval = (if tc_report_interval c = 0 then 1 else tc_report_interval c);
          history = (if tc_history_size c = 0 then unat interval else tc_history_size c);
          history = (if history < unat interval then unat interval else history);
          tolerance = (if \<not> fp_is_finite (tc_lag_tolerance c) \<or> fp_lt (tc_lag_tolerance c) (Fin 0) then litD (1 / 2)
            else tc_lag_tolerance c);
          a = tc_alerts c
      in c\<lparr>tc_report_interval := interval, tc_history_size := history, tc_lag_tolerance := tolerance,
           tc_alerts := a\<lparr>al_max_lag_rate := sanitize_ratio (al_max_lag_rate a) (litD 1),
             al_max_drop_rate := sanitize_ratio (al_max_drop_rate a) (litD 1),
             al_max_parse_error_rate := sanitize_ratio (al_max_parse_error_rate a) (litD 1)\<rparr>\<rparr>)"

definition phase_index :: "tick_phase \<Rightarrow> nat" where
  "phase_index p = (if tick_phase_count \<le> phase_code p then 0 else phase_code p)"

definition message_type_index :: "message_type \<Rightarrow> nat" where
  "message_type_index t = (let i = unat (type_to_u8 t) in
     if message_type_count \<le> i then unat (type_to_u8 Invalid) else i)"

definition estimate_state_bytes :: "resource_snapshot \<Rightarrow> nat" where
  "estimate_state_bytes r = rs_active_sessions r * 256 + rs_tracked_players r * 160 + rs_pending_inputs r * 64
     + rs_pending_events r * 128 + rs_active_spawns r * 96"

definition add_at :: "nat \<Rightarrow> 'a::plus \<Rightarrow> 'a list \<Rightarrow> 'a list" where
  "add_at i x xs = xs[i := xs ! i + x]"

definition raise_at :: "nat \<Rightarrow> 'a::ord \<Rightarrow> 'a list \<Rightarrow> 'a list" where
  "raise_at i x xs = xs[i := max (xs ! i) x]"

section \<open>The operations\<close>

text \<open>The part of the state that a report covers, at its start.\<close>

definition clear_window :: "telemetry \<Rightarrow> telemetry" where
  "clear_window t = t\<lparr>tm_ticks := 0, tm_lag_count := 0, tm_max_overrun_ns := 0, tm_durations := [],
     tm_phase_total := replicate tick_phase_count 0, tm_phase_max := replicate tick_phase_count 0,
     tm_received := 0, tm_dropped := 0, tm_parse_errors := 0, tm_rejections := 0,
     tm_packet_counts := replicate message_type_count 0, tm_packet_bytes := replicate message_type_count 0,
     tm_total_packets := 0, tm_total_bytes := 0, tm_peak_sessions := 0, tm_peak_players := 0, tm_peak_inputs := 0,
     tm_peak_events := 0, tm_peak_spawns := 0, tm_peak_bytes := 0, tm_active_sum := 0, tm_active_samples := 0,
     tm_last_active := 0\<rparr>"

definition telemetry_reset :: "telemetry \<Rightarrow> telemetry" where
  "telemetry_reset t = clear_window (t\<lparr>tm_active := False, tm_tick := 0, tm_started_at := 0\<rparr>)"

definition telemetry_init :: "telemetry_config \<Rightarrow> telemetry" where
  "telemetry_init c = (let c = sanitize_telemetry_config c in
     \<lparr>tm_config = c, tm_active = False, tm_tick = 0, tm_started_at = 0, tm_ticks = 0, tm_budget_ns = 0,
      tm_tolerance_ns = ms_to_ns (tc_lag_tolerance c), tm_lag_count = 0, tm_max_overrun_ns = 0, tm_durations = [],
      tm_phase_total = replicate tick_phase_count 0, tm_phase_max = replicate tick_phase_count 0,
      tm_received = 0, tm_dropped = 0, tm_parse_errors = 0, tm_rejections = 0,
      tm_packet_counts = replicate message_type_count 0, tm_packet_bytes = replicate message_type_count 0,
      tm_total_packets = 0, tm_total_bytes = 0, tm_peak_sessions = 0, tm_peak_players = 0, tm_peak_inputs = 0,
      tm_peak_events = 0, tm_peak_spawns = 0, tm_peak_bytes = 0, tm_active_sum = 0, tm_active_samples = 0,
      tm_last_active = 0\<rparr>)"

definition set_tick_budget :: "int \<Rightarrow> telemetry \<Rightarrow> telemetry" where
  "set_tick_budget budget t = t\<lparr>tm_budget_ns := (if budget < 0 then 0 else budget)\<rparr>"

definition begin_tick :: "u64 \<Rightarrow> int \<Rightarrow> telemetry \<Rightarrow> telemetry" where
  "begin_tick tick started_at t =
     (if \<not> tc_enabled (tm_config t) then t
      else t\<lparr>tm_tick := tick, tm_started_at := started_at, tm_active := True\<rparr>)"

definition note_phase :: "tick_phase \<Rightarrow> int \<Rightarrow> telemetry \<Rightarrow> telemetry" where
  "note_phase p duration t =
     (if \<not> tc_enabled (tm_config t) \<or> \<not> tm_active t then t
      else let i = phase_index p; elapsed = (if duration < 0 then 0 else duration) in
        t\<lparr>tm_phase_total := add_at i elapsed (tm_phase_total t), tm_phase_max := raise_at i elapsed (tm_phase_max t)\<rparr>)"

definition note_resources :: "resource_snapshot \<Rightarrow> telemetry \<Rightarrow> telemetry" where
  "note_resources r t =
     (if \<not> tc_enabled (tm_config t) \<or> \<not> tm_active t then t
      else t\<lparr>tm_peak_sessions := max (tm_peak_sessions t) (rs_active_sessions r),
        tm_peak_players := max (tm_peak_players t) (rs_tracked_players r),
        tm_peak_inputs := max (tm_peak_inputs t) (rs_pending_inputs r),
        tm_peak_events := max (tm_peak_events t) (rs_pending_events r),
        tm_peak_spawns := max (tm_peak_spawns t) (rs_active_spawns r),
        tm_peak_bytes := max (tm_peak_bytes t) (estimate_state_bytes r),
        tm_active_sum := tm_active_sum t + of_nat (rs_active_sessions r),
        tm_active_samples := tm_active_samples t + 1,
        tm_last_active := rs_active_sessions r\<rparr>)"

definition note_inbound_packet_received :: "telemetry \<Rightarrow> telemetry" where
  "note_inbound_packet_received t =
     (if \<not> tc_enabled (tm_config t) then t else t\<lparr>tm_received := tm_received t + 1\<rparr>)"

definition note_inbound_packet_drop :: "bool \<Rightarrow> telemetry \<Rightarrow> telemetry" where
  "note_inbound_packet_drop parse_error t =
     (if \<not> tc_enabled (tm_config t) then t
      else t\<lparr>tm_dropped := tm_dropped t + 1,
        tm_parse_errors := (if parse_error then tm_parse_errors t + 1 else tm_parse_errors t)\<rparr>)"

definition note_command_rejected :: "telemetry \<Rightarrow> telemetry" where
  "note_command_rejected t =
     (if \<not> tc_enabled (tm_config t) then t else t\<lparr>tm_rejections := tm_rejections t + 1\<rparr>)"

definition note_outbound_packet :: "message_type \<Rightarrow> nat \<Rightarrow> telemetry \<Rightarrow> telemetry" where
  "note_outbound_packet type bytes t =
     (if \<not> tc_enabled (tm_config t) then t
      else let i = message_type_index type in
        t\<lparr>tm_packet_counts := add_at i 1 (tm_packet_counts t), tm_packet_bytes := add_at i (of_nat bytes) (tm_packet_bytes t),
          tm_total_packets := tm_total_packets t + 1, tm_total_bytes := tm_total_bytes t + of_nat bytes\<rparr>)"

text \<open>The report without the tick and the length of the window, which \<open>end_tick\<close> fills in.\<close>

definition alerts_of :: "alert_limits \<Rightarrow> fp \<Rightarrow> fp \<Rightarrow> fp \<Rightarrow> fp \<Rightarrow> string list" where
  "alerts_of a lag_rate drop_rate parse_error_rate avg_active =
     (if fp_lt (al_max_lag_rate a) lag_rate then [''tick_lag_rate_exceeded''] else [])
     @ (if fp_lt (al_max_drop_rate a) drop_rate then [''packet_drop_rate_exceeded''] else [])
     @ (if fp_lt (al_max_parse_error_rate a) parse_error_rate then [''parse_error_rate_exceeded''] else [])
     @ (if 0 < al_min_active a \<and> fp_lt avg_active (fp_of_int Double (int (al_min_active a)))
        then [''active_players_below_min''] else [])"

definition ratio_of :: "int \<Rightarrow> int \<Rightarrow> fp" where
  "ratio_of x y = divD (fp_of_int Double x) (fp_of_int Double y)"

definition build_report :: "telemetry \<Rightarrow> telemetry_report" where
  "build_report t =
     (let durations = tm_durations t;
          sorted = sort durations;
          measured = (durations \<noteq> []);
          sum_ns = fold (\<lambda>d acc. acc + word_of_int d) durations (0 :: u64);
          tick_count = fp_of_int Double (int (max (tm_ticks t) 1));
          lag_rate = divD (fp_of_int Double (uint (tm_lag_count t))) tick_count;
          drop_rate = (if 0 < tm_received t then ratio_of (uint (tm_dropped t)) (uint (tm_received t)) else Fin 0);
          parse_error_rate = (if 0 < tm_received t then ratio_of (uint (tm_parse_errors t)) (uint (tm_received t)) else Fin 0);
          avg_active = (if 0 < tm_active_samples t then ratio_of (uint (tm_active_sum t)) (int (tm_active_samples t)) else Fin 0)
      in \<lparr>tr_tick = 0, tr_ticks_in_window = 0,
          tr_avg_ms = (if measured then divD (ns_to_ms (uint sum_ns)) (fp_of_int Double (int (length durations))) else Fin 0),
          tr_p95_ms = (if measured then ns_to_ms (sorted ! percentile_index (length sorted) (litD (95 / 100))) else Fin 0),
          tr_max_ms = (if measured then ns_to_ms (last sorted) else Fin 0),
          tr_lag_count = tm_lag_count t, tr_lag_rate = lag_rate, tr_budget_ms = ns_to_ms (tm_budget_ns t),
          tr_overrun_ms = ns_to_ms (tm_max_overrun_ns t),
          tr_phase_avg_ms = List.map (\<lambda>n. divD (ns_to_ms n) tick_count) (tm_phase_total t),
          tr_phase_max_ms = List.map ns_to_ms (tm_phase_max t),
          tr_packet_counts = tm_packet_counts t, tr_packet_bytes = tm_packet_bytes t,
          tr_total_packets = tm_total_packets t, tr_total_bytes = tm_total_bytes t,
          tr_received = tm_received t, tr_dropped = tm_dropped t, tr_parse_errors = tm_parse_errors t,
          tr_rejections = tm_rejections t, tr_drop_rate = drop_rate, tr_parse_error_rate = parse_error_rate,
          tr_peak_sessions = tm_peak_sessions t, tr_peak_players = tm_peak_players t, tr_peak_inputs = tm_peak_inputs t,
          tr_peak_events = tm_peak_events t, tr_peak_spawns = tm_peak_spawns t, tr_peak_bytes = tm_peak_bytes t,
          tr_avg_active = avg_active, tr_last_active = tm_last_active t,
          tr_alerts = alerts_of (tc_alerts (tm_config t)) lag_rate drop_rate parse_error_rate avg_active\<rparr>)"

text \<open>A tick lags if it takes longer than the budget and the tolerance, a sum that stays at its greatest value.\<close>

definition lag_threshold :: "int \<Rightarrow> int \<Rightarrow> int" where
  "lag_threshold budget tolerance =
     (if 0 < tolerance \<and> budget \<le> max_i64 - tolerance then budget + tolerance
      else if 0 < tolerance then max_i64 else budget)"

definition note_lag :: "int \<Rightarrow> telemetry \<Rightarrow> telemetry" where
  "note_lag elapsed t =
     (if 0 < tm_budget_ns t \<and> lag_threshold (tm_budget_ns t) (tm_tolerance_ns t) < elapsed
      then t\<lparr>tm_lag_count := tm_lag_count t + 1,
        tm_max_overrun_ns := max (tm_max_overrun_ns t) (elapsed - tm_budget_ns t)\<rparr>
      else t)"

definition remember_duration :: "int \<Rightarrow> telemetry \<Rightarrow> telemetry" where
  "remember_duration elapsed t =
     (let durations = tm_durations t @ [elapsed] in
      t\<lparr>tm_durations := (if tc_history_size (tm_config t) < length durations then tl durations else durations)\<rparr>)"

definition end_tick :: "int \<Rightarrow> telemetry \<Rightarrow> telemetry_report option \<times> telemetry" where
  "end_tick finished_at t =
     (if \<not> tc_enabled (tm_config t) \<or> \<not> tm_active t then (None, t)
      else let elapsed = (if finished_at - tm_started_at t < 0 then 0 else finished_at - tm_started_at t);
               t1 = note_lag elapsed (remember_duration elapsed t);
               t2 = t1\<lparr>tm_active := False, tm_ticks := tm_ticks t1 + 1\<rparr>
        in if tm_ticks t2 < unat (tc_report_interval (tm_config t2)) then (None, t2)
           else (Some ((build_report t2)\<lparr>tr_tick := tm_tick t2, tr_ticks_in_window := tm_ticks t2\<rparr>), clear_window t2))"

section \<open>Calls and the log\<close>

datatype telemetry_call = Set_Budget int | Begin_Tick u64 int | Note_Phase tick_phase int | Note_Resources resource_snapshot
  | Note_Received | Note_Drop bool | Note_Rejected | Note_Outbound message_type nat | End_Tick int | Reset

fun call_telemetry :: "telemetry_call \<Rightarrow> telemetry \<Rightarrow> telemetry_report option \<times> telemetry" where
  "call_telemetry (Set_Budget b) t = (None, set_tick_budget b t)"
| "call_telemetry (Begin_Tick tick time) t = (None, begin_tick tick time t)"
| "call_telemetry (Note_Phase p d) t = (None, note_phase p d t)"
| "call_telemetry (Note_Resources r) t = (None, note_resources r t)"
| "call_telemetry Note_Received t = (None, note_inbound_packet_received t)"
| "call_telemetry (Note_Drop e) t = (None, note_inbound_packet_drop e t)"
| "call_telemetry Note_Rejected t = (None, note_command_rejected t)"
| "call_telemetry (Note_Outbound m n) t = (None, note_outbound_packet m n t)"
| "call_telemetry (End_Tick time) t = end_tick time t"
| "call_telemetry Reset t = (None, telemetry_reset t)"

text \<open>The reports of a sequence of calls.\<close>

fun reports_of :: "('c \<Rightarrow> 's \<Rightarrow> 'r option \<times> 's) \<Rightarrow> 'c list \<Rightarrow> 's \<Rightarrow> 'r list" where
  "reports_of run [] s = []"
| "reports_of run (c # cs) s = (case run c s of (r, s') \<Rightarrow> (case r of Some x \<Rightarrow> [x] | None \<Rightarrow> []) @ reports_of run cs s')"

text \<open>
  The abstract view: what was measured since the last report, in order. A finished tick is recorded with its
  duration and the budget that it had.
\<close>

datatype observation = Tick_Took int int | Phase_Took nat int | Saw resource_snapshot
  | Received | Dropped bool | Rejected | Sent nat nat

record telemetry_log =
  tl_budget :: int
  tl_active :: bool
  tl_tick :: u64
  tl_started_at :: int
  tl_seen :: "observation list"

definition picked :: "('a \<Rightarrow> 'b option) \<Rightarrow> 'a list \<Rightarrow> 'b list" where
  "picked f xs = List.map_filter f xs"

fun tick_taken :: "observation \<Rightarrow> (int \<times> int) option" where
  "tick_taken (Tick_Took e b) = Some (e, b)" | "tick_taken _ = None"

fun phase_taken :: "nat \<Rightarrow> observation \<Rightarrow> int option" where
  "phase_taken i (Phase_Took j d) = (if i = j then Some d else None)" | "phase_taken i _ = None"

fun resources_seen :: "observation \<Rightarrow> resource_snapshot option" where
  "resources_seen (Saw r) = Some r" | "resources_seen _ = None"

fun drop_seen :: "observation \<Rightarrow> bool option" where
  "drop_seen (Dropped e) = Some e" | "drop_seen _ = None"

fun packet_sent :: "observation \<Rightarrow> (nat \<times> nat) option" where
  "packet_sent (Sent i n) = Some (i, n)" | "packet_sent _ = None"

definition times_seen :: "observation \<Rightarrow> observation list \<Rightarrow> u64" where
  "times_seen ob seen = of_nat (count_list seen ob)"

definition highest :: "'a::{linorder,zero} list \<Rightarrow> 'a" where
  "highest xs = Max (insert 0 (set xs))"

definition lagged :: "int \<Rightarrow> int \<times> int \<Rightarrow> bool" where
  "lagged tolerance = (\<lambda>(elapsed, budget). 0 < budget \<and> lag_threshold budget tolerance < elapsed)"

text \<open>The state of the telemetry with a log: every counter counts the log, every maximum is one of the log.\<close>

definition telemetry_of :: "telemetry_config \<Rightarrow> telemetry_log \<Rightarrow> telemetry" where
  "telemetry_of c l = (let tolerance = ms_to_ns (tc_lag_tolerance c); seen = tl_seen l;
       ticks = picked tick_taken seen; late = filter (lagged tolerance) ticks;
       resources = picked resources_seen seen; packets = picked packet_sent seen
     in \<lparr>tm_config = c, tm_active = tl_active l, tm_tick = tl_tick l, tm_started_at = tl_started_at l,
         tm_ticks = length ticks, tm_budget_ns = tl_budget l, tm_tolerance_ns = tolerance,
         tm_lag_count = of_nat (length late), tm_max_overrun_ns = highest (List.map (\<lambda>(e, b). e - b) late),
         tm_durations = List.map fst ticks,
         tm_phase_total = List.map (\<lambda>i. sum_list (picked (phase_taken i) seen)) [0..<tick_phase_count],
         tm_phase_max = List.map (\<lambda>i. highest (picked (phase_taken i) seen)) [0..<tick_phase_count],
         tm_received = times_seen Received seen,
         tm_dropped = of_nat (length (picked drop_seen seen)), tm_parse_errors = times_seen (Dropped True) seen,
         tm_rejections = times_seen Rejected seen,
         tm_packet_counts = List.map (\<lambda>i. of_nat (length (filter (\<lambda>(j, n). i = j) packets))) [0..<message_type_count],
         tm_packet_bytes = List.map (\<lambda>i. of_nat (sum_list (List.map snd (filter (\<lambda>(j, n). i = j) packets))))
           [0..<message_type_count],
         tm_total_packets = of_nat (length packets), tm_total_bytes = of_nat (sum_list (List.map snd packets)),
         tm_peak_sessions = highest (List.map rs_active_sessions resources),
         tm_peak_players = highest (List.map rs_tracked_players resources),
         tm_peak_inputs = highest (List.map rs_pending_inputs resources),
         tm_peak_events = highest (List.map rs_pending_events resources),
         tm_peak_spawns = highest (List.map rs_active_spawns resources),
         tm_peak_bytes = highest (List.map estimate_state_bytes resources),
         tm_active_sum = of_nat (sum_list (List.map rs_active_sessions resources)),
         tm_active_samples = length resources,
         tm_last_active = (if resources = [] then 0 else rs_active_sessions (last resources))\<rparr>)"

text \<open>The log keeps what is measured, and forgets nothing before a report.\<close>

definition log_init :: telemetry_log where
  "log_init = \<lparr>tl_budget = 0, tl_active = False, tl_tick = 0, tl_started_at = 0, tl_seen = []\<rparr>"

definition see :: "observation \<Rightarrow> telemetry_log \<Rightarrow> telemetry_log" where
  "see ob l = l\<lparr>tl_seen := tl_seen l @ [ob]\<rparr>"

definition log_end_tick :: "telemetry_config \<Rightarrow> int \<Rightarrow> telemetry_log \<Rightarrow> telemetry_report option \<times> telemetry_log" where
  "log_end_tick c time l =
     (let l1 = see (Tick_Took (max 0 (time - tl_started_at l)) (tl_budget l)) (l\<lparr>tl_active := False\<rparr>);
          n = length (picked tick_taken (tl_seen l1))
      in if n < unat (tc_report_interval c) then (None, l1)
         else (Some ((build_report (telemetry_of c l1))\<lparr>tr_tick := tl_tick l, tr_ticks_in_window := n\<rparr>),
               l1\<lparr>tl_seen := []\<rparr>))"

fun log_call :: "telemetry_config \<Rightarrow> telemetry_call \<Rightarrow> telemetry_log \<Rightarrow> telemetry_report option \<times> telemetry_log" where
  "log_call c (Set_Budget b) l = (None, l\<lparr>tl_budget := max 0 b\<rparr>)"
| "log_call c (Begin_Tick tick time) l = (None, l\<lparr>tl_tick := tick, tl_started_at := time, tl_active := True\<rparr>)"
| "log_call c (Note_Phase p d) l = (None, if tl_active l then see (Phase_Took (phase_index p) (max 0 d)) l else l)"
| "log_call c (Note_Resources r) l = (None, if tl_active l then see (Saw r) l else l)"
| "log_call c Note_Received l = (None, see Received l)"
| "log_call c (Note_Drop e) l = (None, see (Dropped e) l)"
| "log_call c Note_Rejected l = (None, see Rejected l)"
| "log_call c (Note_Outbound m n) l = (None, see (Sent (message_type_index m) n) l)"
| "log_call c (End_Tick time) l = (if tl_active l then log_end_tick c time l else (None, l))"
| "log_call c Reset l = (None, l\<lparr>tl_active := False, tl_tick := 0, tl_started_at := 0, tl_seen := []\<rparr>)"

section \<open>The telemetry implements the log\<close>

lemma picked_simps [simp]:
  "picked f [] = []" "picked f (xs @ [x]) = picked f xs @ (case f x of None \<Rightarrow> [] | Some y \<Rightarrow> [y])"
  by (induction xs) (simp_all add: picked_def List.map_filter_simps split: option.split)

lemma highest_simps [simp]: "highest [] = 0" "highest (xs @ [x]) = max (highest xs) x"
  by (simp_all add: highest_def insert_commute [of 0] max.commute)

lemma times_seen_simps [simp]:
  "times_seen ob [] = 0" "times_seen ob (xs @ [x]) = times_seen ob xs + (if ob = x then 1 else 0)"
  by (auto simp: times_seen_def count_list_append)

lemma array_updates:
  assumes "i < n"
  shows "add_at i x (List.map f [0..<n]) = List.map (\<lambda>j. if j = i then f j + x else f j) [0..<n]"
    and "raise_at i y (List.map g [0..<n]) = List.map (\<lambda>j. if j = i then max (g j) y else g j) [0..<n]"
  using assms by (auto simp: add_at_def raise_at_def intro!: nth_equalityI)

lemma indices: "phase_index p < tick_phase_count" "message_type_index m < message_type_count"
  by (cases p; simp add: phase_index_def tick_phase_count_def)
    (cases m; simp add: message_type_index_def message_type_count_def type_to_u8_def named_types_def)

lemma array_starts: "List.map (\<lambda>i. x) [0..<n] = replicate n x"
  by (simp add: map_replicate_const)

definition window_open :: "telemetry_config \<Rightarrow> telemetry_log \<Rightarrow> bool" where
  "window_open c l \<longleftrightarrow> length (picked tick_taken (tl_seen l)) < unat (tc_report_interval c)"

lemma telemetry_of_config [simp]: "tm_config (telemetry_of c l) = c" "tm_active (telemetry_of c l) = tl_active l"
  by (simp_all add: telemetry_of_def Let_def)

lemma notes_seen:
  assumes "tc_enabled c"
  shows "set_tick_budget b (telemetry_of c l) = telemetry_of c (l\<lparr>tl_budget := max 0 b\<rparr>)"
    and "begin_tick tick time (telemetry_of c l)
      = telemetry_of c (l\<lparr>tl_tick := tick, tl_started_at := time, tl_active := True\<rparr>)"
    and "tl_active l \<Longrightarrow> note_phase p d (telemetry_of c l) = telemetry_of c (see (Phase_Took (phase_index p) (max 0 d)) l)"
    and "tl_active l \<Longrightarrow> note_resources r (telemetry_of c l) = telemetry_of c (see (Saw r) l)"
    and "note_inbound_packet_received (telemetry_of c l) = telemetry_of c (see Received l)"
    and "note_inbound_packet_drop e (telemetry_of c l) = telemetry_of c (see (Dropped e) l)"
    and "note_command_rejected (telemetry_of c l) = telemetry_of c (see Rejected l)"
    and "note_outbound_packet m n (telemetry_of c l) = telemetry_of c (see (Sent (message_type_index m) n) l)"
  using assms indices(1) [of p] indices(2) [of m]
  by (simp_all add: telemetry_of_def Let_def see_def set_tick_budget_def begin_tick_def note_phase_def note_resources_def
      note_inbound_packet_received_def note_inbound_packet_drop_def note_command_rejected_def note_outbound_packet_def
      array_updates add.commute cong: if_cong)

lemma cleared: "clear_window (telemetry_of c l) = telemetry_of c (l\<lparr>tl_seen := []\<rparr>)"
  by (simp add: telemetry_of_def Let_def clear_window_def array_starts)

text \<open>The history is never longer than its capacity, so no duration is dropped.\<close>

lemma duration_remembered:
  assumes "window_open c l" and "unat (tc_report_interval c) \<le> tc_history_size c"
  shows "remember_duration e (telemetry_of c l) = (telemetry_of c l)\<lparr>tm_durations := tm_durations (telemetry_of c l) @ [e]\<rparr>"
  using assms by (simp add: window_open_def remember_duration_def telemetry_of_def Let_def)

lemma tick_seen:
  assumes "window_open c l" and "unat (tc_report_interval c) \<le> tc_history_size c"
  shows "(note_lag e (remember_duration e (telemetry_of c l)))\<lparr>tm_active := False, tm_ticks := tm_ticks (telemetry_of c l) + 1\<rparr>
    = telemetry_of c (see (Tick_Took e (tl_budget l)) (l\<lparr>tl_active := False\<rparr>))"
  unfolding duration_remembered [OF assms]
  by (simp add: note_lag_def telemetry_of_def Let_def see_def lagged_def add.commute)

lemma end_tick_seen:
  assumes "tc_enabled c" and "tl_active l" and "window_open c l" and "unat (tc_report_interval c) \<le> tc_history_size c"
  shows "end_tick time (telemetry_of c l) = (case log_end_tick c time l of (r, l') \<Rightarrow> (r, telemetry_of c l'))"
proof -
  define e where "e = max 0 (time - tl_started_at l)"
  define l1 where "l1 = see (Tick_Took e (tl_budget l)) (l\<lparr>tl_active := False\<rparr>)"
  define t1 where "t1 = note_lag e (remember_duration e (telemetry_of c l))"
  have e: "(if time - tm_started_at (telemetry_of c l) < 0 then 0 else time - tm_started_at (telemetry_of c l)) = e"
    by (simp add: e_def telemetry_of_def Let_def)
  have "tm_ticks t1 = length (picked tick_taken (tl_seen l))" and t1: "tm_tick t1 = tl_tick l" "tm_config t1 = c"
    by (simp_all add: t1_def note_lag_def remember_duration_def telemetry_of_def Let_def)
  then have ticks: "Suc (tm_ticks t1) = length (picked tick_taken (tl_seen l1))" by (simp add: l1_def see_def)
  have seen: "t1\<lparr>tm_active := False, tm_ticks := length (picked tick_taken (tl_seen l1))\<rparr> = telemetry_of c l1"
    using tick_seen [OF assms(3,4), of e]
    by (simp add: t1_def l1_def see_def telemetry_of_def [of c l] Let_def)
  have fields: "tm_ticks (telemetry_of c l1) = length (picked tick_taken (tl_seen l1))" "tm_tick (telemetry_of c l1) = tl_tick l"
    by (simp_all add: telemetry_of_def Let_def l1_def see_def)
  show ?thesis
    using assms(1,2) unfolding end_tick_def log_end_tick_def e Let_def
    by (simp add: seen t1 ticks fields cleared flip: e_def l1_def t1_def)
qed

lemma call_seen:
  assumes "tc_enabled c" and "unat (tc_report_interval c) \<le> tc_history_size c" and "0 < tc_report_interval c"
    and "window_open c l"
  shows "call_telemetry call (telemetry_of c l) = (case log_call c call l of (r, l') \<Rightarrow> (r, telemetry_of c l'))
    \<and> window_open c (snd (log_call c call l))"
proof -
  have positive: "0 < unat (tc_report_interval c)" using assms(3) by (simp add: unat_gt_0)
  have idle: "note_phase p d (telemetry_of c l) = telemetry_of c l" "note_resources r (telemetry_of c l) = telemetry_of c l"
    "end_tick time (telemetry_of c l) = (None, telemetry_of c l)" if "\<not> tl_active l" for p d r time
    using that by (simp_all add: note_phase_def note_resources_def end_tick_def)
  have stopped: "telemetry_reset (telemetry_of c l)
      = telemetry_of c (l\<lparr>tl_active := False, tl_tick := 0, tl_started_at := 0, tl_seen := []\<rparr>)"
    by (simp add: telemetry_reset_def clear_window_def telemetry_of_def Let_def array_starts)
  show ?thesis
  proof (cases call)
    case (End_Tick time)
    then show ?thesis
      using assms positive idle end_tick_seen [OF assms(1) _ assms(4,2), of time]
      by (cases "tl_active l") (auto simp: log_end_tick_def Let_def window_open_def see_def)
  qed (use assms positive idle stopped notes_seen [OF assms(1)] in \<open>auto simp: window_open_def see_def\<close>)
qed

lemma reports_from_log:
  assumes "tc_enabled c" and "unat (tc_report_interval c) \<le> tc_history_size c" and "0 < tc_report_interval c"
    and "window_open c l"
  shows "reports_of call_telemetry calls (telemetry_of c l) = reports_of (log_call c) calls l"
  using assms(4)
proof (induction calls arbitrary: l)
  case (Cons call calls)
  from call_seen [OF assms(1-3) Cons.prems, of call] Cons.IH show ?case
    by (auto split: prod.split option.split)
qed simp

lemma sanitized:
  "tc_enabled (sanitize_telemetry_config c) = tc_enabled c" "0 < tc_report_interval (sanitize_telemetry_config c)"
  "unat (tc_report_interval (sanitize_telemetry_config c)) \<le> tc_history_size (sanitize_telemetry_config c)"
  by (auto simp: sanitize_telemetry_config_def Let_def word_gt_0)

lemma init_seen: "telemetry_init c = telemetry_of (sanitize_telemetry_config c) log_init"
  by (simp add: telemetry_init_def telemetry_of_def log_init_def Let_def array_starts)

lemma disabled_silent: "\<not> tc_enabled (tm_config t) \<Longrightarrow> reports_of call_telemetry calls t = []"
proof (induction calls arbitrary: t)
  case (Cons call calls)
  then show ?case
    by (cases call) (simp_all add: set_tick_budget_def begin_tick_def note_phase_def note_resources_def
      note_inbound_packet_received_def note_inbound_packet_drop_def note_command_rejected_def note_outbound_packet_def
      end_tick_def telemetry_reset_def clear_window_def)
qed simp

lemma reports_are_of_log:
  "reports_of call_telemetry calls (telemetry_init c) =
     (if tc_enabled c then reports_of (log_call (sanitize_telemetry_config c)) calls log_init else [])"
proof (cases "tc_enabled c")
  case True
  have "window_open (sanitize_telemetry_config c) log_init"
    using sanitized(2) [of c] by (simp add: window_open_def log_init_def unat_gt_0 word_gt_0)
  with True show ?thesis
    unfolding init_seen by (simp only: sanitized(1) reports_from_log [OF _ sanitized(3,2)] if_True)
qed (simp add: init_seen sanitized disabled_silent)

text \<open>C37: Whatever calls are made in whatever order, the reports are those of the log: each one is made from exactly
  the measurements since the report before it (or a reset), none counted twice and none forgotten, and
  goes out at the tick that completes the interval. Switched off, the telemetry reports nothing.\<close>

theorem reports_describe_window:
  "reports_of call_telemetry calls (telemetry_init c) =
     (if tc_enabled c then reports_of (log_call (sanitize_telemetry_config c)) calls log_init else [])"
  by (rule reports_are_of_log)

text \<open>
  The capacity of the history therefore has no effect: the durations are cleared with every report, and the
  capacity is at least the interval between two reports.
\<close>

lemma log_without_history: "log_call (c\<lparr>tc_history_size := n\<rparr>) call l = log_call c call l"
  by (cases call) (simp_all add: log_end_tick_def telemetry_of_def build_report_def Let_def)

lemma history_size_irrelevant:
  "reports_of call_telemetry calls (telemetry_init (c\<lparr>tc_history_size := n\<rparr>)) = reports_of call_telemetry calls (telemetry_init c)"
proof -
  have "sanitize_telemetry_config (c\<lparr>tc_history_size := n\<rparr>)
      = (sanitize_telemetry_config c)\<lparr>tc_history_size := tc_history_size (sanitize_telemetry_config (c\<lparr>tc_history_size := n\<rparr>))\<rparr>"
    by (simp add: sanitize_telemetry_config_def Let_def)
  then have "log_call (sanitize_telemetry_config (c\<lparr>tc_history_size := n\<rparr>)) = log_call (sanitize_telemetry_config c)"
    by (intro ext) (metis log_without_history)
  then show ?thesis by (simp add: reports_are_of_log)
qed

text \<open>The 95th percentile of a report is the duration of one of its ticks.\<close>

lemma percentile_measured:
  assumes "tm_durations t \<noteq> []"
  shows "\<exists>d \<in> set (tm_durations t). tr_p95_ms (build_report t) = ns_to_ms d"
proof -
  have "percentile_index (length (tm_durations t)) (litD (95 / 100)) < length (tm_durations t)"
    using assms by (simp add: percentile_index_def Let_def)
  then have "sort (tm_durations t) ! percentile_index (length (tm_durations t)) (litD (95 / 100)) \<in> set (tm_durations t)"
    by (metis length_sort nth_mem set_sort)
  then show ?thesis using assms by (auto simp: build_report_def Let_def)
qed

section \<open>Its configuration in the server\<close>

definition telemetry_config_of :: "profiling_values \<Rightarrow> telemetry_config" where
  "telemetry_config_of p = \<lparr>tc_enabled = pv_enabled p, tc_report_interval = word_of_int (pv_report_interval p),
     tc_history_size = nat (pv_history_size p), tc_lag_tolerance = pv_lag_tolerance p,
     tc_alerts = \<lparr>al_max_lag_rate = pv_max_lag_rate p, al_max_drop_rate = pv_max_drop_rate p,
       al_max_parse_error_rate = pv_max_parse_error_rate p, al_min_active = nat (pv_min_active p)\<rparr>\<rparr>"

text \<open>The settings that the server has made usable need no second repair.\<close>

lemma usable_ratio_kept: "fp_is_finite x \<Longrightarrow> sanitize_ratio (usable_ratio x) d = usable_ratio x"
  by (cases x) (auto simp: sanitize_ratio_def usable_ratio_def fp_clamp_def)

lemma usable_tolerance_kept:
  "fp_is_finite (usable_natural (litD (1 / 2)) x) \<and> \<not> fp_lt (usable_natural (litD (1 / 2)) x) (Fin 0)"
  by (cases x) (auto simp: usable_natural_def double_literals)

lemma usable_config_kept:
  assumes "in_i32 (pv_report_interval p)" and "fp_is_finite (pv_max_lag_rate p)"
    and "fp_is_finite (pv_max_drop_rate p)" and "fp_is_finite (pv_max_parse_error_rate p)"
  shows "sanitize_telemetry_config (telemetry_config_of (usable_profiling p)) = telemetry_config_of (usable_profiling p)"
proof -
  define i where "i = at_least 1 300 (pv_report_interval p)"
  have i: "0 < i" "i < 2 ^ 32" using assms(1) by (auto simp: i_def at_least_def in_i32_def)
  then have unat: "unat (word_of_int i :: u32) = nat i"
    by (simp add: unsigned_of_int take_bit_int_eq_self)
  then have nonzero: "(word_of_int i :: u32) \<noteq> 0" using i by (metis unat_0 nat_eq_iff2 less_irrefl zero_less_nat_eq)
  show ?thesis
    using i unat nonzero assms(2-4)
    by (simp add: sanitize_telemetry_config_def telemetry_config_of_def usable_profiling_def Let_def usable_ratio_kept
        usable_tolerance_kept flip: i_def)
qed

section \<open>The text of a report\<close>

fun tick_phase_to_string :: "tick_phase \<Rightarrow> string" where
  "tick_phase_to_string Phase_Movement = ''movement''"
| "tick_phase_to_string Phase_Combat = ''combat''"
| "tick_phase_to_string Phase_Inventory = ''inventory''"
| "tick_phase_to_string Phase_Match_Lifecycle = ''match_lifecycle''"
| "tick_phase_to_string Phase_Broadcast = ''broadcast''"
| "tick_phase_to_string Phase_Snapshot_Build = ''snapshot_build''"
| "tick_phase_to_string Phase_Snapshot_Send = ''snapshot_send''"
| "tick_phase_to_string Phase_Count = ''count''"

text \<open>\<open>std::fixed\<close> with a precision: the exact value rounded to that many decimals, ties to even.\<close>

definition padded :: "nat \<Rightarrow> nat \<Rightarrow> string" where
  "padded width n = (let s = decimal n in replicate (width - length s) CHR ''0'' @ s)"

fun fixed_decimals :: "nat \<Rightarrow> fp \<Rightarrow> string" where
  "fixed_decimals k (Fin q) = (let n = nat (rne (\<bar>q\<bar> * 10 ^ k)) in
     (if q < 0 then ''-'' else []) @ decimal (n div 10 ^ k) @ ''.'' @ padded k (n mod 10 ^ k))"
| "fixed_decimals k Pos_Inf = ''inf''"
| "fixed_decimals k Neg_Inf = ''-inf''"
| "fixed_decimals k Nan = ''nan''"

definition format_ms :: "fp \<Rightarrow> string" where
  "format_ms x = fixed_decimals 3 x"

definition format_percent :: "fp \<Rightarrow> string" where
  "format_percent ratio = fixed_decimals 2 (mulD ratio (litD 100))"

fun separated :: "string \<Rightarrow> string list \<Rightarrow> string" where
  "separated sep [] = []"
| "separated sep [s] = s"
| "separated sep (s # t # ss) = s @ sep @ separated sep (t # ss)"

text \<open>The message type with the most bytes, the first of them in a tie.\<close>

definition top_message :: "u64 list \<Rightarrow> nat \<times> u64" where
  "top_message bytes = fold (\<lambda>p top. if snd top < snd p then p else top) (List.enumerate 0 bytes) (0, 0)"

definition message_type_of_index :: "nat \<Rightarrow> message_type" where
  "message_type_of_index i = (case type_of_u8 (of_nat i) of Some t \<Rightarrow> t | None \<Rightarrow> Invalid)"

definition tick_phases :: "tick_phase list" where
  "tick_phases = [Phase_Movement, Phase_Combat, Phase_Inventory, Phase_Match_Lifecycle, Phase_Broadcast,
     Phase_Snapshot_Build, Phase_Snapshot_Send]"

definition format_runtime_telemetry_report :: "telemetry_report \<Rightarrow> string" where
  "format_runtime_telemetry_report r =
     (let (top_i, top_b) = top_message (tr_packet_bytes r); num = (\<lambda>w :: u64. decimal (unat w)) in
      ''Runtime profile tick='' @ num (tr_tick r) @ '' window_ticks='' @ decimal (tr_ticks_in_window r)
      @ '' tick_ms(avg/p95/max)='' @ format_ms (tr_avg_ms r) @ ''/'' @ format_ms (tr_p95_ms r) @ ''/''
      @ format_ms (tr_max_ms r) @ '' phases_ms{''
      @ separated '', '' (List.map (\<lambda>p. tick_phase_to_string p @ ''='' @ format_ms (tr_phase_avg_ms r ! phase_code p) @ ''/''
          @ format_ms (tr_phase_max_ms r ! phase_code p)) tick_phases)
      @ ''} net{packets='' @ num (tr_total_packets r) @ '', bytes='' @ num (tr_total_bytes r)
      @ '', top='' @ message_type_to_string (message_type_of_index top_i) @ '':'' @ num top_b
      @ ''} diag{players(avg/last)='' @ format_ms (tr_avg_active r) @ ''/'' @ decimal (tr_last_active r)
      @ '', tick_lag='' @ num (tr_lag_count r) @ ''/'' @ decimal (tr_ticks_in_window r) @ ''('' @ format_percent (tr_lag_rate r)
      @ ''%), max_overrun_ms='' @ format_ms (tr_overrun_ms r)
      @ '', inbound(received/dropped/parse/rejected)='' @ num (tr_received r) @ ''/'' @ num (tr_dropped r) @ ''/''
      @ num (tr_parse_errors r) @ ''/'' @ num (tr_rejections r) @ '', drop_rate='' @ format_percent (tr_drop_rate r)
      @ ''%, parse_error_rate='' @ format_percent (tr_parse_error_rate r) @ ''%}''
      @ '' peaks{sessions='' @ decimal (tr_peak_sessions r) @ '', players='' @ decimal (tr_peak_players r)
      @ '', pending_inputs='' @ decimal (tr_peak_inputs r) @ '', pending_events='' @ decimal (tr_peak_events r)
      @ '', treasure_spawns='' @ decimal (tr_peak_spawns r) @ '', est_state_bytes='' @ decimal (tr_peak_bytes r) @ ''}''
      @ '' alerts='' @ (if tr_alerts r = [] then ''none'' else separated '','' (tr_alerts r)))"

definition diagnostics_document :: "'j json_api \<Rightarrow> telemetry_report \<Rightarrow> 'j" where
  "diagnostics_document J r = (let num = jof_uint J; sz = (\<lambda>n :: nat. jof_uint J (of_nat n)) in
     jof_object J [(''kind'', jof_string J ''runtime_diagnostics_v1''), (''tick_index'', num (tr_tick r)),
       (''window_ticks'', sz (tr_ticks_in_window r)),
       (''tick'', jof_object J [(''avg_ms'', jof_float J (tr_avg_ms r)), (''p95_ms'', jof_float J (tr_p95_ms r)),
          (''max_ms'', jof_float J (tr_max_ms r)), (''budget_ms'', jof_float J (tr_budget_ms r)),
          (''lag_count'', num (tr_lag_count r)), (''lag_rate'', jof_float J (tr_lag_rate r)),
          (''max_overrun_ms'', jof_float J (tr_overrun_ms r))]),
       (''inbound'', jof_object J [(''received'', num (tr_received r)), (''dropped'', num (tr_dropped r)),
          (''drop_rate'', jof_float J (tr_drop_rate r)), (''parse_errors'', num (tr_parse_errors r)),
          (''parse_error_rate'', jof_float J (tr_parse_error_rate r)), (''command_rejections'', num (tr_rejections r))]),
       (''players'', jof_object J [(''avg_active'', jof_float J (tr_avg_active r)), (''last_active'', sz (tr_last_active r)),
          (''peak_active'', sz (tr_peak_sessions r))]),
       (''alerts'', jof_array J (List.map (jof_string J) (tr_alerts r)))])"

definition format_runtime_diagnostics_json :: "'j json_api \<Rightarrow> telemetry_report \<Rightarrow> string" where
  "format_runtime_diagnostics_json J r = ''Runtime diagnostics json='' @ jdump J (diagnostics_document J r)"

text \<open>What the server writes to its health file is the line without its prefix.\<close>

definition runtime_diagnostics_prefix :: string where
  "runtime_diagnostics_prefix = ''Runtime diagnostics json=''"

definition diagnostics_json_payload :: "string \<Rightarrow> string option" where
  "diagnostics_json_payload line =
     (if take (length runtime_diagnostics_prefix) line \<noteq> runtime_diagnostics_prefix then None
      else Some (drop (length runtime_diagnostics_prefix) line))"

lemma health_file_document:
  "diagnostics_json_payload (format_runtime_diagnostics_json J r) = Some (jdump J (diagnostics_document J r))"
  by (simp add: diagnostics_json_payload_def format_runtime_diagnostics_json_def runtime_diagnostics_prefix_def)

text \<open>The message type named as the top one has the most bytes.\<close>

lemma top_message_most:
  assumes "i < length bytes"
  shows "bytes ! i \<le> snd (top_message bytes)"
proof -
  have "\<forall>p \<in> insert acc (set ps). snd p \<le> snd (fold (\<lambda>p top. if snd top < snd p then p else top) ps acc)"
    for ps :: "(nat \<times> u64) list" and acc
    by (induction ps arbitrary: acc) (auto, (meson dual_order.trans less_imp_le not_le)+)
  then have "\<forall>b \<in> snd ` set (List.enumerate 0 bytes). b \<le> snd (top_message bytes)" by (auto simp: top_message_def)
  then show ?thesis using assms by (metis map_snd_enumerate nth_mem set_map)
qed

text \<open>The example of the program's own test: three ticks, one report.\<close>

lemma report_example:
  "(case reports_of call_telemetry (concat (List.map (\<lambda>n. [Begin_Tick (of_nat n) (int n * 10000000),
        Note_Phase Phase_Combat (int n * 2000000), Note_Outbound StateSnapshot (n * 100), Note_Received, Note_Drop False,
        End_Tick (int n * 11000000)]) [1, 2, 3]))
      (telemetry_init \<lparr>tc_enabled = True, tc_report_interval = 3, tc_history_size = 3, tc_lag_tolerance = litD (1 / 2),
        tc_alerts = \<lparr>al_max_lag_rate = Fin 1, al_max_drop_rate = Fin (1 / 2), al_max_parse_error_rate = Fin 1,
          al_min_active = 0\<rparr>\<rparr>) of
    [r] \<Rightarrow> tr_avg_ms r = Fin 2 \<and> tr_p95_ms r = Fin 3 \<and> tr_phase_max_ms r ! 1 = Fin 6 \<and> tr_total_bytes r = 600
      \<and> tr_drop_rate r = Fin 1 \<and> tr_alerts r = [''packet_drop_rate_exceeded''] \<and> format_ms (tr_max_ms r) = ''3.000''
  | _ \<Rightarrow> False)"
  by code_simp

end
