(* ===== verification/Weapon_Emitter.thy ===== *)
theory Weapon_Emitter
  imports Server_Invariant
begin

text \<open>
  The client's side of a shot (client/WeaponFireEmitter.h and .cpp): the checks of its arguments, the
  normalised direction, the shot numbers and the packet. Shown: the shots of one emitter, received by
  the server in the order in which they are made, become exactly the fire commands of the combat
  simulation, none of them dropped, until the 32-bit shot number wraps around.
\<close>

section \<open>The emitter\<close>

datatype emit_status = Emit_Accepted | Emit_Invalid_Player_Id | Emit_Invalid_Weapon_Id
  | Emit_Invalid_Origin | Emit_Invalid_Direction

record weapon_emitter =
  we_next_seq :: u32

record 'j emit_result =
  er_status :: emit_status
  er_packet :: "'j packet"
  er_seq :: u32

text \<open>The arguments of a call of \<open>emit\<close>.\<close>

record shot_request =
  sr_player_id :: u32
  sr_weapon_id :: string
  sr_origin_x :: fp
  sr_origin_y :: fp
  sr_direction_x :: fp
  sr_direction_y :: fp
  sr_client_time :: "u64 option"

definition direction_epsilon :: fp where "direction_epsilon = litF (1 / 1000000)"

definition emitter_reset :: "u32 \<Rightarrow> weapon_emitter \<Rightarrow> weapon_emitter" where
  "emitter_reset n e = e\<lparr>we_next_seq := max 1 n\<rparr>"

definition emitter_init :: "u32 \<Rightarrow> weapon_emitter" where
  "emitter_init n = emitter_reset n \<lparr>we_next_seq = 1\<rparr>"

definition emit_rejected :: "'j json_api \<Rightarrow> emit_status \<Rightarrow> 'j emit_result" where
  "emit_rejected J status = \<lparr>er_status = status, er_packet = default_packet J, er_seq = 0\<rparr>"

definition shot_payload :: "'j json_api \<Rightarrow> shot_request \<Rightarrow> u32 \<Rightarrow> fp \<Rightarrow> fp \<Rightarrow> (string \<times> 'j) list" where
  "shot_payload J r seq nx ny =
     [(''player_id'', jof_u32 J (sr_player_id r)), (''shot_seq'', jof_u32 J seq),
      (''weapon_id'', jof_string J (sr_weapon_id r)),
      (''origin'', position_to_json J (sr_origin_x r) (sr_origin_y r)),
      (''direction'', position_to_json J nx ny)]
     @ (case sr_client_time r of None \<Rightarrow> [] | Some t \<Rightarrow> [(''client_fire_time_ms'', jof_uint J t)])"

definition emit :: "'j json_api \<Rightarrow> shot_request \<Rightarrow> weapon_emitter \<Rightarrow> 'j emit_result \<times> weapon_emitter" where
  "emit J r e =
     (if sr_player_id r = 0 then (emit_rejected J Emit_Invalid_Player_Id, e)
      else if sr_weapon_id r = [] then (emit_rejected J Emit_Invalid_Weapon_Id, e)
      else if \<not> fp_is_finite (sr_origin_x r) \<or> \<not> fp_is_finite (sr_origin_y r)
      then (emit_rejected J Emit_Invalid_Origin, e)
      else if \<not> fp_is_finite (sr_direction_x r) \<or> \<not> fp_is_finite (sr_direction_y r)
      then (emit_rejected J Emit_Invalid_Direction, e)
      else let length_sq = addF (mulF (sr_direction_x r) (sr_direction_x r)) (mulF (sr_direction_y r) (sr_direction_y r)) in
        if fp_lt length_sq direction_epsilon then (emit_rejected J Emit_Invalid_Direction, e)
        else let len = sqrtF length_sq;
                 seq = we_next_seq e
          in (\<lparr>er_status = Emit_Accepted,
               er_packet = \<lparr>pk_type = WeaponFire,
                  pk_payload = jof_object J (shot_payload J r seq (divF (sr_direction_x r) len) (divF (sr_direction_y r) len)),
                  pk_version = protocol_version\<rparr>,
               er_seq = seq\<rparr>, e\<lparr>we_next_seq := seq + 1\<rparr>))"

fun emit_status_to_string :: "emit_status \<Rightarrow> string" where
  "emit_status_to_string Emit_Accepted = ''accepted''"
| "emit_status_to_string Emit_Invalid_Player_Id = ''invalid_player_id''"
| "emit_status_to_string Emit_Invalid_Weapon_Id = ''invalid_weapon_id''"
| "emit_status_to_string Emit_Invalid_Origin = ''invalid_origin''"
| "emit_status_to_string Emit_Invalid_Direction = ''invalid_direction''"

section \<open>The direction\<close>

text \<open>The unit vector that an accepted shot carries.\<close>

definition direction_length :: "shot_request \<Rightarrow> fp" where
  "direction_length r = sqrtF (addF (mulF (sr_direction_x r) (sr_direction_x r)) (mulF (sr_direction_y r) (sr_direction_y r)))"

definition unit_x :: "shot_request \<Rightarrow> fp" where "unit_x r = divF (sr_direction_x r) (direction_length r)"
definition unit_y :: "shot_request \<Rightarrow> fp" where "unit_y r = divF (sr_direction_y r) (direction_length r)"

lemma square_bound:
  assumes "fp_round Single (a * a) = Fin m"
  shows "\<bar>a\<bar> \<le> 2 ^ 65"
proof (rule ccontr)
  assume "\<not> \<bar>a\<bar> \<le> 2 ^ 65"
  then have "(2 ^ 65) * (2 ^ 65) \<le> \<bar>a\<bar> * \<bar>a\<bar>" by (intro mult_mono) simp_all
  then have "(2 ^ 130 :: rat) \<le> a * a" by (simp add: abs_mult_self_eq)
  then have "rnd Single (2 ^ 130) \<le> rnd Single (a * a)" by (rule rnd_mono)
  moreover have "rnd Single (2 ^ 130) = 2 ^ 130"
    by (rule rnd_exact [of _ 1 130]) simp_all
  ultimately have "(2 ^ 130 :: rat) \<le> rnd Single (a * a)" by simp
  moreover have "(2 ^ 128 :: rat) \<le> 2 ^ 130" by simp
  ultimately have "fp_round Single (a * a) = Pos_Inf" by (simp add: fp_round_def Let_def)
  with assms show False by simp
qed

lemma epsilon_value: "direction_epsilon = Fin (8796093 / 8796093022208)"
  by code_simp

lemma unit_component:
  assumes v: "sendable v" and a: "fp_round Single (q * q) = Fin m" "v = Fin q"
    and len: "\<not> fp_lt (Fin s) direction_epsilon"
  shows "sendable (divF v (sqrtF (Fin s)))"
proof -
  have s: "8796093 / 8796093022208 \<le> s" using len by (simp add: epsilon_value)
  have f: "fits Single (1 / 1024)" by (rule fitsI [of _ 1 "-10"]) (simp_all add: power_int_def field_simps)
  obtain l where l: "sqrtF (Fin s) = Fin l" "1 / 1024 \<le> l"
    using fp_sqrt_ge [OF f, of s] s by auto
  have q: "\<bar>q\<bar> \<le> 2 ^ 65" by (rule square_bound [OF a(1)])
  have "\<bar>q / l\<bar> = \<bar>q\<bar> / l" using l(2) by simp
  also have "\<dots> \<le> \<bar>q\<bar> / (1 / 1024)" by (rule divide_left_mono) (use l(2) in auto)
  also have "\<dots> \<le> 2 ^ 75" using q by simp
  finally have "\<bar>q / l\<bar> \<le> 2 ^ 75" .
  moreover have "fits Single (2 ^ 75)" by (rule fitsI [of _ 1 75]) (simp_all add: power_int_def)
  ultimately have "\<exists>r. fp_round Single (q / l) = Fin r \<and> - (2 ^ 75) \<le> r \<and> r \<le> 2 ^ 75"
    by (intro round_between) (simp_all only: fits_neg abs_le_iff, linarith+)
  then obtain r where "fp_round Single (q / l) = Fin r" by blast
  then show ?thesis using l a round_result_fits by auto
qed

lemma square_cases:
  obtains m where "fp_round Single (a * a) = Fin m" and "0 \<le> m" | "fp_round Single (a * a) = Pos_Inf"
proof (cases "fp_round Single (a * a)")
  case (Fin m)
  then show ?thesis using that(1) round_nonneg [OF _ Fin] by simp
next
  case Neg_Inf
  then show ?thesis using round_nonneg_not_neg [of "a * a" Single] by simp
qed (use that round_not_nan in auto)

text \<open>
  The length is finite and not small, or its square overflows: then it is infinite and the unit
  vector becomes zero. Either way the components are values that JSON can carry.
\<close>

lemma unit_sendable:
  assumes v: "sendable (sr_direction_x r)" "sendable (sr_direction_y r)"
    and len: "\<not> fp_lt (addF (mulF (sr_direction_x r) (sr_direction_x r))
        (mulF (sr_direction_y r) (sr_direction_y r))) direction_epsilon"
  shows "sendable (unit_x r) \<and> sendable (unit_y r)"
proof -
  obtain a b where ab: "sr_direction_x r = Fin a" "sr_direction_y r = Fin b"
    using v by (metis sendable.elims(2))
  have infinite: ?thesis if "addF (mulF (Fin a) (Fin a)) (mulF (Fin b) (Fin b)) = Pos_Inf"
    using that by (simp add: unit_x_def unit_y_def direction_length_def ab)
  show ?thesis
  proof (cases rule: square_cases [of a])
    case x: (1 m)
    show ?thesis
    proof (cases rule: square_cases [of b])
      case y: (1 n)
      show ?thesis
      proof (cases "fp_round Single (m + n)")
        case (Fin s)
        have "addF (mulF (Fin a) (Fin a)) (mulF (Fin b) (Fin b)) = Fin s" using Fin x y by simp
        then show ?thesis
          using unit_component [OF v(1) x(1) ab(1), of s] unit_component [OF v(2) y(1) ab(2), of s] len
          by (simp add: unit_x_def unit_y_def direction_length_def ab)
      next
        case Neg_Inf
        then show ?thesis using round_nonneg_not_neg [of "m + n" Single] x y by simp
      qed (use infinite x y round_not_nan in auto)
    qed (use infinite x in auto)
  next
    case 2
    then show ?thesis
      by (intro infinite) (cases rule: square_cases [of b], simp_all)
  qed
qed

section \<open>The packet of an accepted shot\<close>

definition request_sendable :: "shot_request \<Rightarrow> bool" where
  "request_sendable r \<longleftrightarrow> sendable (sr_origin_x r) \<and> sendable (sr_origin_y r)
     \<and> sendable (sr_direction_x r) \<and> sendable (sr_direction_y r)"

text \<open>The fire command that a shot stands for.\<close>

definition shot_command :: "int \<Rightarrow> shot_request \<Rightarrow> u32 \<Rightarrow> fire_command" where
  "shot_command now r seq = \<lparr>fire_attacker = sr_player_id r, fire_seq = seq, fire_weapon_id = sr_weapon_id r,
     fire_origin_x = sr_origin_x r, fire_origin_y = sr_origin_y r, fire_direction_x = unit_x r,
     fire_direction_y = unit_y r, fire_received_at = now\<rparr>"

lemma emit_accepted:
  assumes "er_status (fst (emit J r e)) = Emit_Accepted"
  shows "fst (emit J r e) = \<lparr>er_status = Emit_Accepted,
      er_packet = \<lparr>pk_type = WeaponFire,
        pk_payload = jof_object J (shot_payload J r (we_next_seq e) (unit_x r) (unit_y r)),
        pk_version = protocol_version\<rparr>, er_seq = we_next_seq e\<rparr>"
    and "snd (emit J r e) = e\<lparr>we_next_seq := we_next_seq e + 1\<rparr>"
    and "sr_player_id r \<noteq> 0" and "sr_weapon_id r \<noteq> []"
    and "\<not> fp_lt (addF (mulF (sr_direction_x r) (sr_direction_x r))
        (mulF (sr_direction_y r) (sr_direction_y r))) direction_epsilon"
  using assms
  by (auto simp: emit_def emit_rejected_def unit_x_def unit_y_def direction_length_def Let_def split: if_splits)

lemma emit_refused: "er_status (fst (emit J r e)) \<noteq> Emit_Accepted \<Longrightarrow> snd (emit J r e) = e"
  by (auto simp: emit_def Let_def split: if_splits)

lemma shot_fields_distinct: "distinct (List.map fst (shot_payload J r seq nx ny))"
  by (simp add: shot_payload_def split: option.split)

lemma shot_field:
  "map_of (shot_payload J r seq nx ny) ''player_id'' = Some (jof_u32 J (sr_player_id r))"
  "map_of (shot_payload J r seq nx ny) ''shot_seq'' = Some (jof_u32 J seq)"
  "map_of (shot_payload J r seq nx ny) ''weapon_id'' = Some (jof_string J (sr_weapon_id r))"
  "map_of (shot_payload J r seq nx ny) ''origin'' = Some (position_to_json J (sr_origin_x r) (sr_origin_y r))"
  "map_of (shot_payload J r seq nx ny) ''direction'' = Some (position_to_json J nx ny)"
  "map_of (shot_payload J r seq nx ny) ''client_fire_time_ms'' =
     (case sr_client_time r of None \<Rightarrow> None | Some t \<Rightarrow> Some (jof_uint J t))"
  by (simp_all add: shot_payload_def split: option.split)

context json_library
begin

lemma shot_valid:
  assumes "er_status (fst (emit J r e)) = Emit_Accepted"
  shows "packet_valid J (er_packet (fst (emit J r e)))"
  unfolding emit_accepted(1) [OF assms] emit_result.simps
  by (rule object_valid [where s = "\<lparr>ms_type = WeaponFire, ms_name = ''weapon_fire'', ms_fields = weapon_fire_fields\<rparr>"])
    (simp_all add: valid_simps shot_fields_distinct shot_field weapon_fire_fields_def position_to_json_def
      split: option.split)

lemma pair_back: "sendable x \<Longrightarrow> sendable y \<Longrightarrow> read_pair J (position_to_json J x y) = (Some x, Some y)"
  by (simp add: read_pair_def position_to_json_def json_types types at_object single_back)

lemmas shot_read = at_object [OF shot_fields_distinct] contains_object [OF shot_fields_distinct]

text \<open>What the server does with it.\<close>

lemma shot_handled:
  assumes e: "er_status (fst (emit J r e)) = Emit_Accepted" and r: "request_sendable r"
    and s: "match_phase_now s = InMatch" "sess_player_id session = sr_player_id r"
  shows "handle_weapon_fire J token now (pk_payload (er_packet (fst (emit J r e)))) session s =
    (case enqueue_fire (shot_command now r (we_next_seq e)) (gs_combat s) of (status, c) \<Rightarrow>
      (heartbeat token now (s\<lparr>gs_combat := c\<rparr>), status \<noteq> FireAccepted, []))"
proof -
  have "sendable (unit_x r)" "sendable (unit_y r)"
    using unit_sendable [of r] emit_accepted(5) [OF e] r by (simp_all add: request_sendable_def)
  then show ?thesis
    using s r unfolding emit_accepted(1) [OF e]
    by (simp add: handle_weapon_fire_def shot_read shot_field pair_back u32_back request_sendable_def
        json_types types gets shot_command_def Let_def)
qed

end

section \<open>From the trigger to the combat simulation\<close>

text \<open>
  The client makes its shots, the accepted ones travel as packets and the server handles them in the
  order in which they were made; each comes with the time of its arrival. The result is what the server
  reports of each packet (whether it dropped the message).
\<close>

fun client_shots :: "'j json_api \<Rightarrow> u64 \<Rightarrow> (int \<times> shot_request) list \<Rightarrow> weapon_emitter \<times> 'j server
    \<Rightarrow> bool list \<times> weapon_emitter \<times> 'j server" where
  "client_shots J token [] (e, s) = ([], e, s)"
| "client_shots J token ((now, r) # shots) (e, s) =
     (case emit J r e of (result, e1) \<Rightarrow>
       if er_status result = Emit_Accepted then
         (case handle_message J token now (er_packet result) s of (s1, dropped, out) \<Rightarrow>
           (case client_shots J token shots (e1, s1) of (ds, rest) \<Rightarrow> (dropped # ds, rest)))
       else client_shots J token shots (e1, s))"

text \<open>When \<open>emit\<close> accepts a request.\<close>

definition shot_ok :: "shot_request \<Rightarrow> bool" where
  "shot_ok r \<longleftrightarrow> sr_player_id r \<noteq> 0 \<and> sr_weapon_id r \<noteq> [] \<and> fp_is_finite (sr_origin_x r) \<and> fp_is_finite (sr_origin_y r)
     \<and> fp_is_finite (sr_direction_x r) \<and> fp_is_finite (sr_direction_y r)
     \<and> \<not> fp_lt (addF (mulF (sr_direction_x r) (sr_direction_x r)) (mulF (sr_direction_y r) (sr_direction_y r))) direction_epsilon"

lemma emit_status: "er_status (fst (emit J r e)) = Emit_Accepted \<longleftrightarrow> shot_ok r"
  by (auto simp: emit_def emit_rejected_def shot_ok_def Let_def)

text \<open>The commands of the accepted requests, numbered from \<open>n\<close>, as the combat simulation queues them.\<close>

fun expected_fires :: "u32 \<Rightarrow> (int \<times> shot_request) list \<Rightarrow> fire_command list" where
  "expected_fires n [] = []"
| "expected_fires n ((now, r) # shots) =
     (if shot_ok r then (shot_command now r n)\<lparr>fire_weapon_id := lowercase (sr_weapon_id r)\<rparr> # expected_fires (n + 1) shots
      else expected_fires n shots)"

text \<open>No shot of the player is newer than \<open>n\<close>.\<close>

definition older_than :: "u32 \<Rightarrow> u32 \<Rightarrow> combat_sim \<Rightarrow> bool" where
  "older_than n p c \<longleftrightarrow> (case umap_find (cs_last_seq c) p of None \<Rightarrow> True | Some m \<Rightarrow> m < n)
     \<and> (queue_for (cs_queues c) p = [] \<or> fire_seq (last (queue_for (cs_queues c) p)) < n)"

lemma ensure_weapons [simp]: "cs_weapons (combat_ensure p c) = cs_weapons c"
  by (simp add: combat_ensure_def split: option.split)

lemma enqueue_newer:
  assumes "older_than n p c" and "umap_find (cs_weapons c) (lowercase (fire_weapon_id f)) \<noteq> None"
    and "fire_attacker f = p" and "fire_seq f = n" and "n + 1 \<noteq> 0"
  shows "fst (enqueue_fire f c) = FireAccepted"
    and "queue_for (cs_queues (snd (enqueue_fire f c))) p
      = queue_for (cs_queues c) p @ [f\<lparr>fire_weapon_id := lowercase (fire_weapon_id f)\<rparr>]"
    and "cs_weapons (snd (enqueue_fire f c)) = cs_weapons c"
    and "older_than (n + 1) p (snd (enqueue_fire f c))"
proof -
  have n: "n < n + 1" using assms(5) by (simp add: word_less_nat_alt unatSuc add.commute)
  have "\<not> (case umap_find (cs_last_seq c) p of Some newest \<Rightarrow> n \<le> newest | None \<Rightarrow> False)"
    and "\<not> (queue_for (cs_queues c) p \<noteq> [] \<and> n \<le> fire_seq (last (queue_for (cs_queues c) p)))"
    using assms(1) by (auto simp: older_than_def split: option.splits)
  then have "enqueue_fire f c = (FireAccepted, combat_ensure p
      (c\<lparr>cs_queues := umap_put p (queue_for (cs_queues c) p @ [f\<lparr>fire_weapon_id := lowercase (fire_weapon_id f)\<rparr>])
          (umap_put p (queue_for (cs_queues c) p) (cs_queues c)),
         cs_last_seq := umap_put p n (cs_last_seq c)\<rparr>))"
    using assms(2-4) by (auto simp: enqueue_fire_def Let_def)
  then show "fst (enqueue_fire f c) = FireAccepted"
    and "queue_for (cs_queues (snd (enqueue_fire f c))) p
      = queue_for (cs_queues c) p @ [f\<lparr>fire_weapon_id := lowercase (fire_weapon_id f)\<rparr>]"
    and "cs_weapons (snd (enqueue_fire f c)) = cs_weapons c"
    and "older_than (n + 1) p (snd (enqueue_fire f c))"
    using n assms(4) by (simp_all add: queue_for_put older_than_def find_put)
qed

text \<open>The sender is in the match.\<close>

definition in_match :: "u64 \<Rightarrow> u32 \<Rightarrow> 'j server \<Rightarrow> bool" where
  "in_match token p s \<longleftrightarrow> match_phase_now s = InMatch
     \<and> (\<exists>session. session_for_peer (gs_sessions s) token = Some session \<and> sess_player_id session = p)"

lemma in_match_heartbeat: "in_match token p s \<Longrightarrow> in_match token p (heartbeat token now (s\<lparr>gs_combat := c\<rparr>))"
  by (auto simp: in_match_def match_phase_now_def heartbeat_def session_for_peer_def handle_heartbeat_def find_put)

lemma heartbeat_combat [simp]: "gs_combat (heartbeat token now s) = gs_combat s"
  by (simp add: heartbeat_def)

text \<open>One accepted shot of the player, and the rest of the run.\<close>

lemma client_shot_accepted:
  assumes J: "json_library J textual" and ok: "shot_ok r" and r: "request_sendable r" "sr_player_id r = p"
    and s: "in_match token p s" and old: "older_than (we_next_seq e) p (gs_combat s)"
    and weapon: "umap_find (cs_weapons (gs_combat s)) (lowercase (sr_weapon_id r)) \<noteq> None"
    and n: "we_next_seq e + 1 \<noteq> 0"
  obtains s' e' where "\<And>shots. client_shots J token ((now, r) # shots) (e, s) =
        (case client_shots J token shots (e', s') of (ds, rest) \<Rightarrow> (False # ds, rest))"
    and "we_next_seq e' = we_next_seq e + 1" and "in_match token p s'"
    and "queue_for (cs_queues (gs_combat s')) p = queue_for (cs_queues (gs_combat s)) p
        @ [(shot_command now r (we_next_seq e))\<lparr>fire_weapon_id := lowercase (sr_weapon_id r)\<rparr>]"
    and "cs_weapons (gs_combat s') = cs_weapons (gs_combat s)"
    and "older_than (we_next_seq e + 1) p (gs_combat s')"
proof -
  let ?f = "shot_command now r (we_next_seq e)"
  have e: "er_status (fst (emit J r e)) = Emit_Accepted" using ok by (simp add: emit_status)
  obtain session where session: "session_for_peer (gs_sessions s) token = Some session" "sess_player_id session = p"
    and phase: "match_phase_now s = InMatch"
    using s by (auto simp: in_match_def)
  note new = enqueue_newer [OF old, of ?f, OF _ _ _ n]
  have f: "umap_find (cs_weapons (gs_combat s)) (lowercase (fire_weapon_id ?f)) \<noteq> None"
    "fire_attacker ?f = p" "fire_seq ?f = we_next_seq e"
    using weapon r by (simp_all add: shot_command_def)
  define s' where "s' = heartbeat token now (s\<lparr>gs_combat := snd (enqueue_fire ?f (gs_combat s))\<rparr>)"
  have "pk_type (er_packet (fst (emit J r e))) = WeaponFire" by (simp add: emit_accepted(1) [OF e])
  then have h: "handle_message J token now (er_packet (fst (emit J r e))) s = (s', False, [])"
    using json_library.shot_handled [OF J e r(1) phase, of session token now] session r new(1) [OF f]
    by (simp add: handle_message_def s'_def case_prod_beta)
  have "client_shots J token ((now, r) # shots) (e, s) =
      (case client_shots J token shots (snd (emit J r e), s') of (ds, rest) \<Rightarrow> (False # ds, rest))" for shots
    using e h by (cases "emit J r e") simp
  then show ?thesis
    using that [of "snd (emit J r e)" s'] new [OF f] emit_accepted(2) [OF e] in_match_heartbeat [OF s]
    by (simp add: s'_def shot_command_def)
qed

text \<open>C13: The client pulls the trigger any number of times, with any weapons known to the server and
  any aim. As long as the 32-bit shot number does not wrap, no packet is dropped by the server, and the
  player's queue grows by exactly one fire command for every request that passes the checks of the
  emitter, in order, numbered consecutively, with the weapon, the origin and the unit direction of the
  request.\<close>

theorem shots_become_fire_commands:
  assumes "json_library J textual" and "in_match token p s" and "older_than (we_next_seq e) p (gs_combat s)"
    and "\<forall>(now, r) \<in> set shots. sr_player_id r = p \<and> request_sendable r
      \<and> umap_find (cs_weapons (gs_combat s)) (lowercase (sr_weapon_id r)) \<noteq> None"
    and "unat (we_next_seq e) + length shots < 2 ^ 32"
    and "client_shots J token shots (e, s) = (drops, e', s')"
  shows "True \<notin> set drops
    \<and> length drops = length (filter (\<lambda>(now, r). shot_ok r) shots)
    \<and> we_next_seq e' = we_next_seq e + of_nat (length drops)
    \<and> queue_for (cs_queues (gs_combat s')) p
      = queue_for (cs_queues (gs_combat s)) p @ expected_fires (we_next_seq e) shots"
  using assms
proof (induction shots arbitrary: e s drops)
  case (Cons shot shots)
  obtain now r where shot: "shot = (now, r)" by (cases shot)
  have r: "sr_player_id r = p" "request_sendable r"
    "umap_find (cs_weapons (gs_combat s)) (lowercase (sr_weapon_id r)) \<noteq> None"
    using Cons.prems(4) shot by auto
  show ?case
  proof (cases "shot_ok r")
    case True
    have next_u: "unat (we_next_seq e + 1) = unat (we_next_seq e) + 1"
      using Cons.prems(5) by (simp add: unat_add_lem [THEN iffD1])
    then have n: "we_next_seq e + 1 \<noteq> 0" by (metis Suc_eq_plus1 nat.distinct(1) unat_0)
    obtain s1 e1 where step: "\<And>shots. client_shots J token ((now, r) # shots) (e, s) =
          (case client_shots J token shots (e1, s1) of (ds, rest) \<Rightarrow> (False # ds, rest))"
      and e1: "we_next_seq e1 = we_next_seq e + 1" and s1: "in_match token p s1"
      and q: "queue_for (cs_queues (gs_combat s1)) p = queue_for (cs_queues (gs_combat s)) p
          @ [(shot_command now r (we_next_seq e))\<lparr>fire_weapon_id := lowercase (sr_weapon_id r)\<rparr>]"
      and w: "cs_weapons (gs_combat s1) = cs_weapons (gs_combat s)"
      and old: "older_than (we_next_seq e + 1) p (gs_combat s1)"
      by (rule client_shot_accepted [OF Cons.prems(1) True r(2,1) Cons.prems(2,3) r(3) n, of now]) blast
    obtain ds where ds: "client_shots J token shots (e1, s1) = (ds, e', s')" "drops = False # ds"
      using Cons.prems(6) step [of shots] shot by (auto split: prod.splits)
    have "True \<notin> set ds \<and> length ds = length (filter (\<lambda>(now, r). shot_ok r) shots)
        \<and> we_next_seq e' = we_next_seq e1 + of_nat (length ds)
        \<and> queue_for (cs_queues (gs_combat s')) p
          = queue_for (cs_queues (gs_combat s1)) p @ expected_fires (we_next_seq e1) shots"
    proof (rule Cons.IH [OF Cons.prems(1) s1 _ _ _ ds(1)])
      show "older_than (we_next_seq e1) p (gs_combat s1)" by (simp add: e1 old)
      show "\<forall>(now, r) \<in> set shots. sr_player_id r = p \<and> request_sendable r
          \<and> umap_find (cs_weapons (gs_combat s1)) (lowercase (sr_weapon_id r)) \<noteq> None"
        using Cons.prems(4) by (simp add: w)
      show "unat (we_next_seq e1) + length shots < 2 ^ 32" using Cons.prems(5) by (simp add: e1 next_u)
    qed
    then show ?thesis using True by (simp add: ds(2) shot q e1)
  next
    case False
    then have rejected: "er_status (fst (emit J r e)) \<noteq> Emit_Accepted" by (simp add: emit_status)
    then have "client_shots J token shots (e, s) = (drops, e', s')"
      using Cons.prems(6) emit_refused [OF rejected] shot by (cases "emit J r e") simp
    then show ?thesis
      using Cons.IH [OF Cons.prems(1-3) _ _ \<open>client_shots J token shots (e, s) = _\<close>] Cons.prems(4,5) False
      by (simp add: shot)
  qed
qed simp

text \<open>Three pulls of the trigger: the second has no direction and is not sent.\<close>

definition demo_request :: "fp \<Rightarrow> fp \<Rightarrow> shot_request" where
  "demo_request dx dy = \<lparr>sr_player_id = 1, sr_weapon_id = ''RIFLE'', sr_origin_x = Fin (1 / 2), sr_origin_y = Fin 0,
     sr_direction_x = dx, sr_direction_y = dy, sr_client_time = Some 17\<rparr>"

definition demo_shots :: "(int \<times> shot_request) list" where
  "demo_shots = [(1, demo_request (Fin 3) (Fin 4)), (2, demo_request (Fin 0) (Fin 0)), (3, demo_request (Fin 0) (Fin (- 2)))]"

definition armed_server :: "json_value server" where
  "armed_server = empty_server\<lparr>gs_sessions := ann_sessions, gs_match := enter_in_match 0 (lifecycle_init demo_match_config),
     gs_combat := combat_init [demo_rifle] demo_config\<rparr>"

lemma armed_in_match: "in_match 7 1 armed_server"
  by (simp add: in_match_def match_phase_now_def armed_server_def build_state_def enter_in_match_def ann_sessions_def
      session_for_peer_def ann_def)

lemma demo_arsenal: "umap_find (cs_weapons (combat_init [demo_rifle] demo_config)) ''rifle'' \<noteq> None"
  "cs_last_seq (combat_init [demo_rifle] demo_config) = []" "cs_queues (combat_init [demo_rifle] demo_config) = []"
  by code_simp+

lemma demo_shots_checked: "expected_fires 1 demo_shots =
    [\<lparr>fire_attacker = 1, fire_seq = 1, fire_weapon_id = ''rifle'', fire_origin_x = Fin (1 / 2), fire_origin_y = Fin 0,
      fire_direction_x = Fin (10066330 / 16777216), fire_direction_y = Fin (13421773 / 16777216), fire_received_at = 1\<rparr>,
     \<lparr>fire_attacker = 1, fire_seq = 2, fire_weapon_id = ''rifle'', fire_origin_x = Fin (1 / 2), fire_origin_y = Fin 0,
      fire_direction_x = Fin 0, fire_direction_y = Fin (- 1), fire_received_at = 3\<rparr>]"
  "length (filter (\<lambda>(now, r). shot_ok r) demo_shots) = 2"
  by code_simp+

lemma demo_shots_sendable: "\<forall>(now, r) \<in> set demo_shots. sr_player_id r = 1 \<and> request_sendable r
    \<and> lowercase (sr_weapon_id r) = ''rifle''"
proof -
  have "fits Single 3 \<and> fits Single 4 \<and> fits Single 2 \<and> fits Single (1 / 2)" by code_simp
  moreover have "lowercase ''RIFLE'' = ''rifle''" by code_simp
  ultimately show ?thesis by (simp add: demo_shots_def demo_request_def request_sendable_def)
qed

theorem shots_become_fire_commands_witness:
  "case client_shots text_json 7 demo_shots (emitter_init 1, armed_server) of (drops, e', s') \<Rightarrow>
     drops = [False, False] \<and> we_next_seq e' = 3
     \<and> queue_for (cs_queues (gs_combat s')) 1 = expected_fires 1 demo_shots"
proof -
  obtain drops e' s' where run: "client_shots text_json 7 demo_shots (emitter_init 1, armed_server) = (drops, e', s')"
    by (metis prod_cases3)
  have n: "we_next_seq (emitter_init 1) = 1" by (simp add: emitter_init_def emitter_reset_def)
  have "\<forall>(now, r) \<in> set demo_shots. sr_player_id r = 1 \<and> request_sendable r
      \<and> umap_find (cs_weapons (gs_combat armed_server)) (lowercase (sr_weapon_id r)) \<noteq> None"
    using demo_shots_sendable demo_arsenal(1) by (auto simp: armed_server_def)
  moreover have "older_than 1 1 (gs_combat armed_server)"
    by (simp add: older_than_def armed_server_def demo_arsenal queue_for_def)
  moreover have "unat (1 :: u32) + length demo_shots < 2 ^ 32" by (simp add: demo_shots_def)
  ultimately have "True \<notin> set drops \<and> length drops = 2 \<and> we_next_seq e' = 1 + of_nat (length drops)
      \<and> queue_for (cs_queues (gs_combat s')) 1 = expected_fires 1 demo_shots"
    using shots_become_fire_commands [OF text_json_library armed_in_match _ _ _ run]
    by (simp add: n demo_shots_checked armed_server_def demo_arsenal queue_for_def)
  then show ?thesis by (auto simp: run length_Suc_conv eval_nat_numeral)
qed

end
