(* ===== verification/Client_Feed.thy ===== *)
theory Client_Feed
  imports Server_Packets Chunk_Sync Json_Text Json_Reads
begin

text \<open>
  The text lines that the client shows for the events of the server (client/AuthoritativeEventFeed.h and
  .cpp). Damage reaches the client twice, as a reliable packet and in the next snapshot; the feed keeps
  the signatures of the last 64 damage events to tell a copy from a new event. Shown: for the documents
  that the server writes, the feed never throws and gives exactly the lines of the events, and every
  damage event is shown once as long as no more than 64 different ones arrive.
\<close>

section \<open>Numbers of the events\<close>

definition json_to_u64_feed :: "'j json_api \<Rightarrow> 'j \<Rightarrow> u64 option" where
  "json_to_u64_feed J v =
     (if is_number_unsigned J v then Some (ju64 J v)
      else if is_number_integer J v then
        (let raw = ji64 J v in if 0 \<le> raw then Some (word_of_int raw) else None)
      else None)"

definition json_to_floor_seconds :: "'j json_api \<Rightarrow> 'j \<Rightarrow> int option" where
  "json_to_floor_seconds J v =
     (if \<not> is_number J v then None
      else let raw = jdouble J v in
        if \<not> fp_is_finite raw then None
        else let floored = fp_floor raw in
          if fp_lt floored (Fin (- (2 ^ 31))) \<or> fp_lt (Fin (2 ^ 31 - 1)) floored then None
          else Some (fp_to_i32 floored))"

definition int_to_string :: "int \<Rightarrow> string" where
  "int_to_string i = (if i < 0 then CHR ''-'' # decimal (nat (- i)) else decimal (nat i))"

section \<open>The feed\<close>

record damage_signature =
  dsg_tick :: u64
  dsg_attacker :: u32
  dsg_victim :: u32
  dsg_seq :: u32

record event_feed =
  ef_last_state :: string
  ef_recent :: "damage_signature list"

definition max_damage_signatures :: nat where "max_damage_signatures = 64"

definition feed_init :: event_feed where
  "feed_init = \<lparr>ef_last_state = ''unknown'', ef_recent = []\<rparr>"

definition feed_reset :: "event_feed \<Rightarrow> event_feed" where
  "feed_reset f = f\<lparr>ef_last_state := ''unknown'', ef_recent := []\<rparr>"

definition is_duplicate_damage :: "damage_signature \<Rightarrow> event_feed \<Rightarrow> bool" where
  "is_duplicate_damage d f = list_ex (\<lambda>known. dsg_tick known = dsg_tick d \<and> dsg_attacker known = dsg_attacker d
     \<and> dsg_victim known = dsg_victim d \<and> dsg_seq known = dsg_seq d) (ef_recent f)"

definition remember_damage :: "damage_signature \<Rightarrow> event_feed \<Rightarrow> event_feed" where
  "remember_damage d f =
     (let recent = ef_recent f @ [d] in
      f\<lparr>ef_recent := (if max_damage_signatures < length recent then tl recent else recent)\<rparr>)"

text \<open>A line to show, or nothing, or an exception; and the feed after it.\<close>

type_synonym 'a fed = "(json_error + 'a) \<times> event_feed"

definition damage_line :: "u32 \<Rightarrow> u32 \<Rightarrow> u32 \<Rightarrow> int \<Rightarrow> bool \<Rightarrow> string option" where
  "damage_line local attacker victim damage lethal =
     (if attacker = local \<and> victim \<noteq> local then
        Some (if lethal then ''Elimination confirmed'' else ''Hit confirmed: '' @ int_to_string damage)
      else if victim = local then
        Some (if lethal then ''You were eliminated'' else ''Damage taken: '' @ int_to_string damage)
      else None)"

definition consume_damage_event :: "'j json_api \<Rightarrow> u32 \<Rightarrow> 'j \<Rightarrow> event_feed \<Rightarrow> string option fed" where
  "consume_damage_event J local payload f =
     (if \<not> is_object J payload then (Inr None, f)
      else case (json_to_u32 J (at_key J payload ''attacker_id''), json_to_u32 J (at_key J payload ''victim_id''),
                 json_to_i32 J (at_key J payload ''damage'')) of
        (Some attacker, Some victim, Some damage) \<Rightarrow>
          (let copy = (case (json_to_u32 J (at_key J payload ''shot_seq''), json_to_u64_feed J (at_key J payload ''tick'')) of
               (Some seq, Some tick) \<Rightarrow>
                 Some \<lparr>dsg_tick = tick, dsg_attacker = attacker, dsg_victim = victim, dsg_seq = seq\<rparr>
             | _ \<Rightarrow> None)
           in if (case copy of Some d \<Rightarrow> is_duplicate_damage d f | None \<Rightarrow> False) then (Inr None, f)
              else let f1 = (case copy of Some d \<Rightarrow> remember_damage d f | None \<Rightarrow> f) in
                (case get_or J (get_bool J) payload ''lethal'' False of
                   Inl e \<Rightarrow> (Inl e, f1)
                 | Inr lethal \<Rightarrow> (Inr (damage_line local attacker victim damage lethal), f1)))
      | _ \<Rightarrow> (Inr None, f))"

definition consume_reliable_damage_event :: "'j json_api \<Rightarrow> u32 \<Rightarrow> 'j \<Rightarrow> event_feed \<Rightarrow> string option fed" where
  "consume_reliable_damage_event J local payload f = consume_damage_event J local payload f"

definition phase_line :: "string \<Rightarrow> int option \<Rightarrow> string" where
  "phase_line state seconds = (case seconds of
     Some n \<Rightarrow> ''Phase: '' @ state @ '' ('' @ int_to_string n @ ''s)''
   | None \<Rightarrow> ''Phase: '' @ state)"

definition consume_reliable_match_state :: "'j json_api \<Rightarrow> 'j \<Rightarrow> event_feed \<Rightarrow> string option fed" where
  "consume_reliable_match_state J payload f =
     (if \<not> is_object J payload then (Inr None, f)
      else case get_or J (get_string J) payload ''state'' ''unknown'' of
        Inl e \<Rightarrow> (Inl e, f)
      | Inr state \<Rightarrow>
          if state = ef_last_state f then (Inr None, f)
          else (Inr (Some (phase_line state (json_to_floor_seconds J (at_key J payload ''remaining_seconds'')))),
                f\<lparr>ef_last_state := state\<rparr>))"

definition pickup_failure_line :: "string \<Rightarrow> string" where
  "pickup_failure_line status =
     (if status = ''inventory_capacity_exceeded'' then ''Pickup failed: inventory full''
      else if status = ''weight_limit_exceeded'' then ''Pickup failed: over weight limit''
      else if status = ''out_of_range'' then ''Pickup failed: out of range''
      else if status = ''unknown_spawn'' then ''Pickup failed: spawn unavailable''
      else if status = ''duplicate_pickup'' then ''Pickup failed: already collected''
      else if status = ''player_dead'' then ''Pickup failed: player is down''
      else if status = ''player_missing'' then ''Pickup failed: player unavailable''
      else ''Pickup failed: '' @ status)"

definition pickup_success_line :: "string \<Rightarrow> int \<Rightarrow> int \<Rightarrow> string" where
  "pickup_success_line treasure value items =
     ''Pickup collected: '' @ treasure @ '' | Coins '' @ int_to_string value @ '' | Items '' @ int_to_string items"

definition pickup_status_message :: "'j json_api \<Rightarrow> 'j \<Rightarrow> json_error + string" where
  "pickup_status_message J e =
     (case get_or J (get_string J) e ''status'' ''unknown'' of
        Inl x \<Rightarrow> Inl x
      | Inr status \<Rightarrow>
          if status = ''collected'' then
            (case get_or J (get_string J) e ''treasure_id'' ''treasure'' of
               Inl x \<Rightarrow> Inl x
             | Inr treasure \<Rightarrow> (case get_or J (get_int J) e ''total_value'' 0 of
                 Inl x \<Rightarrow> Inl x
               | Inr value \<Rightarrow> (case get_or J (get_int J) e ''item_count'' 0 of
                   Inl x \<Rightarrow> Inl x
                 | Inr items \<Rightarrow> Inr (pickup_success_line treasure value items))))
          else Inr (pickup_failure_line status))"

definition death_line :: "u32 \<Rightarrow> u32 option \<Rightarrow> u32 option \<Rightarrow> string option" where
  "death_line local victim killer =
     (if victim = Some local then Some ''Eliminated''
      else if killer = Some local then Some ''Elimination confirmed'' else None)"

definition consume_snapshot_event :: "'j json_api \<Rightarrow> u32 \<Rightarrow> 'j \<Rightarrow> event_feed \<Rightarrow> string option fed" where
  "consume_snapshot_event J local e f =
     (if \<not> is_object J e \<or> \<not> contains J e ''type'' \<or> \<not> is_string J (at_key J e ''type'') then (Inr None, f)
      else let event_type = jstring J (at_key J e ''type'') in
        if event_type = ''damage_event'' then consume_damage_event J local e f
        else if event_type = ''death_event'' then
          (Inr (death_line local (json_to_u32 J (at_key J e ''victim_id'')) (json_to_u32 J (at_key J e ''killer_id''))), f)
        else if event_type = ''treasure_pickup'' then
          (if json_to_u32 J (at_key J e ''player_id'') = Some local then
             (case pickup_status_message J e of Inl x \<Rightarrow> (Inl x, f) | Inr line \<Rightarrow> (Inr (Some line), f))
           else (Inr None, f))
        else if event_type = ''respawn_event'' then
          (Inr (if json_to_u32 J (at_key J e ''player_id'') = Some local then Some ''Respawned'' else None), f)
        else if event_type = ''match_state_changed'' then consume_reliable_match_state J e f
        else (Inr None, f))"

fun consume_events :: "'j json_api \<Rightarrow> u32 \<Rightarrow> 'j list \<Rightarrow> event_feed \<Rightarrow> string list fed" where
  "consume_events J local [] f = (Inr [], f)"
| "consume_events J local (e # es) f =
     (case consume_snapshot_event J local e f of
        (Inl x, f1) \<Rightarrow> (Inl x, f1)
      | (Inr line, f1) \<Rightarrow> (case consume_events J local es f1 of
          (Inl x, f2) \<Rightarrow> (Inl x, f2)
        | (Inr lines, f2) \<Rightarrow> (Inr ((case line of None \<Rightarrow> [] | Some l \<Rightarrow> [l]) @ lines), f2)))"

definition consume_snapshot_events :: "'j json_api \<Rightarrow> 'j \<Rightarrow> u32 \<Rightarrow> event_feed \<Rightarrow> string list fed" where
  "consume_snapshot_events J payload local f =
     (if \<not> is_object J payload \<or> \<not> contains J payload ''events'' \<or> \<not> is_array J (at_key J payload ''events'')
      then (Inr [], f)
      else consume_events J local (jelems J (at_key J payload ''events'')) f)"

section \<open>The lines of the server's events\<close>

text \<open>The events that the server puts into snapshots, and what the client shows for them.\<close>

datatype server_event =
    Damage_Ev damage_resolution
  | Death_Ev death_resolution
  | Pickup_Ev u64 pickup_resolution
  | Respawn_Ev u64 u32
  | Phase_Ev u64 lifecycle_state
  | Spawn_Ev u64 spawn_instance

fun event_json :: "'j json_api \<Rightarrow> server_event \<Rightarrow> 'j" where
  "event_json J (Damage_Ev d) = damage_snapshot_event J d"
| "event_json J (Death_Ev d) = death_snapshot_event J d"
| "event_json J (Pickup_Ev tick r) = pickup_snapshot_event J tick r"
| "event_json J (Respawn_Ev tick p) = respawn_event J tick p"
| "event_json J (Phase_Ev tick st) = match_state_changed_event J tick st"
| "event_json J (Spawn_Ev tick s) = spawn_snapshot_event J tick s"

text \<open>The numbers of an event are \<open>int\<close>s.\<close>

fun event_ok :: "server_event \<Rightarrow> bool" where
  "event_ok (Damage_Ev d) = in_i32 (dmg_damage d)"
| "event_ok (Pickup_Ev tick r) = in_i32 (res_total_value r)"
| "event_ok _ = True"

definition signature_of :: "damage_resolution \<Rightarrow> damage_signature" where
  "signature_of d = \<lparr>dsg_tick = dmg_tick d, dsg_attacker = dmg_attacker d, dsg_victim = dmg_victim d, dsg_seq = dmg_seq d\<rparr>"

definition line_of_damage :: "u32 \<Rightarrow> damage_resolution \<Rightarrow> string option" where
  "line_of_damage local d = damage_line local (dmg_attacker d) (dmg_victim d) (dmg_damage d) (dmg_lethal d)"

definition shown_seconds :: "u32 \<Rightarrow> int option" where
  "shown_seconds n = (if uint n < 2 ^ 31 then Some (uint n) else None)"

fun show_event :: "u32 \<Rightarrow> server_event \<Rightarrow> event_feed \<Rightarrow> string option \<times> event_feed" where
  "show_event local (Damage_Ev d) f =
     (if signature_of d \<in> set (ef_recent f) then (None, f)
      else (line_of_damage local d, remember_damage (signature_of d) f))"
| "show_event local (Death_Ev d) f =
     (if death_victim d = local then Some ''Eliminated''
      else if death_killer d = local then Some ''Elimination confirmed'' else None, f)"
| "show_event local (Pickup_Ev tick r) f =
     (if res_player_id r \<noteq> local then None
      else if res_status r = Collected
      then Some (pickup_success_line (res_treasure_id r) (res_total_value r) (sint (res_item_count r)))
      else Some (pickup_failure_line (pickup_status_to_string (res_status r))), f)"
| "show_event local (Respawn_Ev tick p) f = (if p = local then Some ''Respawned'' else None, f)"
| "show_event local (Phase_Ev tick st) f =
     (let state = match_phase_to_string (st_phase st) in
      if state = ef_last_state f then (None, f)
      else (Some (phase_line state (shown_seconds (st_remaining_seconds st))), f\<lparr>ef_last_state := state\<rparr>))"
| "show_event local (Spawn_Ev tick s) f = (None, f)"

fun show_events :: "u32 \<Rightarrow> server_event list \<Rightarrow> event_feed \<Rightarrow> string list \<times> event_feed" where
  "show_events local [] f = ([], f)"
| "show_events local (ev # evs) f =
     (case show_event local ev f of (line, f1) \<Rightarrow> (case show_events local evs f1 of (lines, f2) \<Rightarrow>
       ((case line of None \<Rightarrow> [] | Some l \<Rightarrow> [l]) @ lines, f2)))"

lemma duplicate_iff: "is_duplicate_damage d f \<longleftrightarrow> d \<in> set (ef_recent f)"
proof -
  have "dsg_tick k = dsg_tick d \<and> dsg_attacker k = dsg_attacker d \<and> dsg_victim k = dsg_victim d \<and> dsg_seq k = dsg_seq d \<longleftrightarrow> k = d" for k
    by (cases k; cases d) auto
  then show ?thesis by (simp add: is_duplicate_damage_def list_ex_iff)
qed

text \<open>The library also documents that an unsigned number is read as the nearest \<open>double\<close>.\<close>

locale json_numbers = json_library J textual for J :: "'j json_api" and textual +
  assumes uint_double: "jdouble J (jof_uint J n) = fp_of_int Double (uint n)"
begin

lemma u32_double: "jdouble J (jof_u32 J n) = Fin (of_int (uint n))"
proof -
  have "uint n < 2 ^ 64" using uint_lt2p [of n] by simp
  then have "uint (ucast n :: u64) = uint n" by (rule small_ucast_64)
  moreover have "fits Double (of_int (uint n))"
    using uint_lt2p [of n] by (intro fits_of_int) simp
  ultimately show ?thesis by (simp add: jof_u32_def uint_double fp_of_int_def round_fits)
qed

lemma seconds_back: "json_to_floor_seconds J (jof_u32 J n) = shown_seconds n"
proof -
  define i where "i = uint n"
  have d: "jdouble J (jof_u32 J n) = Fin (of_int i)" by (simp only: u32_double i_def)
  have "(2 ^ 31 - 1 :: rat) < of_int i \<longleftrightarrow> of_int (2 ^ 31 - 1) < (of_int i :: rat)" by simp
  also have "\<dots> \<longleftrightarrow> 2 ^ 31 - 1 < i" by (simp only: of_int_less_iff)
  finally have lt: "(2 ^ 31 - 1 :: rat) < of_int i \<longleftrightarrow> \<not> i < 2 ^ 31" by linarith
  have i: "0 \<le> i" by (simp add: i_def)
  then have pos: "(0::rat) \<le> of_int i" by simp
  then have "\<not> (of_int i :: rat) < - (2 ^ 31)" by simp
  with lt pos i show ?thesis
    by (simp add: json_to_floor_seconds_def json_types u32_types d shown_seconds_def trunc_rat_def in_i32_def Let_def
      flip: i_def)
qed

lemma i32_back: "in_i32 i \<Longrightarrow> json_to_i32 J (jof_int J i) = Some i"
  by (simp add: json_to_i32_def json_types types int_get in_i32_def Let_def)

lemma u64_back: "json_to_u64_feed J (jof_uint J n) = Some n"
  by (simp add: json_to_u64_feed_def json_types types gets)

text \<open>\<open>get<int>()\<close> of a 32-bit unsigned number reinterprets it.\<close>

lemma int_back: "get_int J (jof_u32 J n) = Inr (sint n)"
proof -
  have "uint n < 2 ^ 64" using uint_lt2p [of n] by simp
  then have u: "uint (ucast n :: u64) = uint n" by (rule small_ucast_64)
  have "wrap_i32 (uint n) = sint n"
    by (simp add: wrap_i32_def sint_uint signed_take_bit_eq_take_bit_shift take_bit_eq_mod)
  then show ?thesis by (simp add: get_int_def json_types u32_types jof_u32_def types gets u)
qed

lemma int_back_int: "in_i32 i \<Longrightarrow> get_int J (jof_int J i) = Inr i"
  by (simp add: get_int_def json_types types int_get in_i32_def wrap_i32_def)

lemma or_object: "distinct (List.map fst kvs) \<Longrightarrow> map_of kvs key = Some v \<Longrightarrow> get_or J get (jof_object J kvs) key d = get v"
  by (simp add: get_or_def object_get)

lemmas feed_reads = at_object contains_object or_object json_types types gets u32_back i32_back u64_back
  int_back int_back_int seconds_back get_string_def get_bool_def

text \<open>The feed reads each event of the server as the event it is, and never throws.\<close>

lemma damage_event_shown:
  assumes "in_i32 (dmg_damage d)"
  shows "consume_damage_event J local (damage_snapshot_event J d) f =
      (case show_event local (Damage_Ev d) f of (line, f1) \<Rightarrow> (Inr line, f1))"
    and "consume_reliable_damage_event J local (pk_payload (to_damage_packet J d)) f =
      (case show_event local (Damage_Ev d) f of (line, f1) \<Rightarrow> (Inr line, f1))"
  using assms
  by (simp_all add: consume_reliable_damage_event_def consume_damage_event_def damage_snapshot_event_def to_damage_packet_def feed_reads
      duplicate_iff signature_of_def line_of_damage_def Let_def)

lemma event_shown:
  assumes "event_ok ev"
  shows "consume_snapshot_event J local (event_json J ev) f =
      (case show_event local ev f of (line, f1) \<Rightarrow> (Inr line, f1))"
proof (cases ev)
  case (Damage_Ev d)
  then have "consume_snapshot_event J local (event_json J ev) f =
      consume_damage_event J local (damage_snapshot_event J d) f"
    by (simp add: consume_snapshot_event_def damage_snapshot_event_def feed_reads Let_def)
  then show ?thesis using Damage_Ev damage_event_shown(1) [of d local f] assms by simp
next
  case (Death_Ev d)
  then show ?thesis
    by (simp add: consume_snapshot_event_def death_snapshot_event_def feed_reads death_line_def Let_def)
next
  case (Pickup_Ev tick r)
  show ?thesis
  proof (cases "res_player_id r = local")
    case True
    then show ?thesis
      using Pickup_Ev assms
      by (cases "res_status r") (simp_all add: consume_snapshot_event_def pickup_snapshot_event_def feed_reads
        pickup_status_message_def Let_def)
  next
    case False
    then show ?thesis
      using Pickup_Ev by (simp add: consume_snapshot_event_def pickup_snapshot_event_def feed_reads Let_def)
  qed
next
  case (Respawn_Ev tick p)
  then show ?thesis by (simp add: consume_snapshot_event_def respawn_event_def feed_reads Let_def)
next
  case (Phase_Ev tick st)
  then show ?thesis
    by (simp add: consume_snapshot_event_def match_state_changed_event_def feed_reads consume_reliable_match_state_def
        Let_def split: option.split)
next
  case (Spawn_Ev tick s)
  then show ?thesis by (simp add: consume_snapshot_event_def spawn_snapshot_event_def feed_reads Let_def)
qed

lemma events_shown:
  "list_all event_ok evs \<Longrightarrow> consume_events J local (List.map (event_json J) evs) f =
     (case show_events local evs f of (lines, f1) \<Rightarrow> (Inr lines, f1))"
  by (induction evs arbitrary: f) (simp_all add: event_shown split: prod.split)

end

interpretation text_numbers: json_numbers text_json textual
  by unfold_locales (simp add: text_json_def)

text \<open>C38: A snapshot that carries events of the server gives the client exactly the lines of these events,
  in order, and no exception: the layer of JSON documents adds nothing and loses nothing.\<close>

theorem server_events_shown:
  assumes "json_numbers J textual" and "list_all event_ok evs"
    and "distinct (List.map fst kvs)" and "map_of kvs ''events'' = Some (jof_array J (List.map (event_json J) evs))"
  shows "consume_snapshot_events J (jof_object J kvs) local f =
    (Inr (fst (show_events local evs f)), snd (show_events local evs f))"
proof -
  note lib = json_numbers.axioms(1) [OF assms(1)]
  note types = json_library.types [OF lib] and gets = json_library.gets [OF lib]
  show ?thesis
    using json_library.at_object [OF lib assms(3,4)] json_library.contains_object [OF lib assms(3,4)]
      json_numbers.events_shown [OF assms(1,2), of local f]
    by (simp add: consume_snapshot_events_def json_types types gets case_prod_beta)
qed

section \<open>Every damage event is shown once\<close>

text \<open>Damage events arrive in any order and number of copies, as reliable packets and in snapshots.\<close>

datatype damage_copy = Reliable damage_resolution | In_Snapshot damage_resolution

fun damage_of :: "damage_copy \<Rightarrow> damage_resolution" where
  "damage_of (Reliable d) = d"
| "damage_of (In_Snapshot d) = d"

fun consume_copy :: "'j json_api \<Rightarrow> u32 \<Rightarrow> damage_copy \<Rightarrow> event_feed \<Rightarrow> string option fed" where
  "consume_copy J local (Reliable d) f = consume_reliable_damage_event J local (pk_payload (to_damage_packet J d)) f"
| "consume_copy J local (In_Snapshot d) f = consume_snapshot_event J local (damage_snapshot_event J d) f"

fun consume_copies :: "'j json_api \<Rightarrow> u32 \<Rightarrow> damage_copy list \<Rightarrow> event_feed
    \<Rightarrow> (json_error + string option) list \<times> event_feed" where
  "consume_copies J local [] f = ([], f)"
| "consume_copies J local (c # cs) f =
     (case consume_copy J local c f of (r, f1) \<Rightarrow> (case consume_copies J local cs f1 of (rs, f2) \<Rightarrow> (r # rs, f2)))"

text \<open>The lines when only the first copy of each event counts.\<close>

fun first_lines :: "u32 \<Rightarrow> damage_signature set \<Rightarrow> damage_copy list \<Rightarrow> (json_error + string option) list" where
  "first_lines local seen [] = []"
| "first_lines local seen (c # cs) =
     Inr (if signature_of (damage_of c) \<in> seen then None else line_of_damage local (damage_of c))
       # first_lines local (insert (signature_of (damage_of c)) seen) cs"

abbreviation signatures :: "damage_copy list \<Rightarrow> damage_signature set" where
  "signatures cs \<equiv> (signature_of \<circ> damage_of) ` set cs"

lemma copy_consumed:
  assumes "json_numbers J textual" and "in_i32 (dmg_damage (damage_of c))"
  shows "consume_copy J local c f =
    (case show_event local (Damage_Ev (damage_of c)) f of (line, f1) \<Rightarrow> (Inr line, f1))"
  using json_numbers.event_shown [OF assms(1), of "Damage_Ev (damage_of c)" local f]
    json_numbers.damage_event_shown(2) [OF assms(1,2), of local f] assms(2)
  by (cases c) simp_all

text \<open>The events seen so far are the newest part of the memory.\<close>

lemma remember_newest:
  assumes "ef_recent f = old @ new" and "length new < max_damage_signatures"
  shows "\<exists>old'. set old' \<subseteq> set old \<and> ef_recent (remember_damage d f) = old' @ new @ [d]"
  using assms by (cases old) (auto simp: remember_damage_def Let_def)

lemma copies_shown_once:
  assumes J: "json_numbers J textual"
  shows "\<forall>c \<in> set cs. in_i32 (dmg_damage (damage_of c)) \<Longrightarrow> ef_recent f = old @ new \<Longrightarrow> distinct new \<Longrightarrow>
    set old \<inter> (signatures cs \<union> set new) = {} \<Longrightarrow> card (signatures cs \<union> set new) \<le> max_damage_signatures \<Longrightarrow>
    fst (consume_copies J local cs f) = first_lines local (set new) cs"
proof (induction cs arbitrary: f old new)
  case (Cons c cs)
  let ?d = "signature_of (damage_of c)"
  note step = copy_consumed [OF J, of c local f]
  have fine: "\<forall>c \<in> set cs. in_i32 (dmg_damage (damage_of c))" and c: "in_i32 (dmg_damage (damage_of c))"
    using Cons.prems(1) by simp_all
  have known: "?d \<in> set (ef_recent f) \<longleftrightarrow> ?d \<in> set new" using Cons.prems(2,4) by auto
  show ?case
  proof (cases "?d \<in> set new")
    case True
    then have same: "signatures (c # cs) \<union> set new = signatures cs \<union> set new" by auto
    have "fst (consume_copies J local cs f) = first_lines local (set new) cs"
      by (rule Cons.IH [OF fine Cons.prems(2,3)]) (use Cons.prems(4,5) same in auto)
    with True known step [OF c] show ?thesis by (simp add: case_prod_beta insert_absorb)
  next
    case False
    have "card (insert ?d (set new)) \<le> card (signatures (c # cs) \<union> set new)" by (rule card_mono) auto
    then have "length new < max_damage_signatures"
      using Cons.prems(3,5) False by (simp add: distinct_card)
    then obtain old' where old': "set old' \<subseteq> set old" "ef_recent (remember_damage ?d f) = old' @ new @ [?d]"
      using remember_newest [OF Cons.prems(2)] by blast
    have same: "signatures (c # cs) \<union> set new = signatures cs \<union> set (new @ [?d])" by auto
    have "fst (consume_copies J local cs (remember_damage ?d f)) = first_lines local (set (new @ [?d])) cs"
      by (rule Cons.IH [OF fine old'(2)]) (use Cons.prems(3-5) False old'(1) same in auto)
    with False known step [OF c] show ?thesis by (simp add: case_prod_beta)
  qed
qed simp

text \<open>C39: Whatever way copies of damage events arrive, as reliable packets or in snapshots, in any
  order: if there are at most 64 different events and none is in the feed's memory yet, the client gives
  the line of each event at the arrival of its first copy, nothing at the others, and never throws.\<close>

theorem damage_shown_once:
  assumes "json_numbers J textual" and "\<forall>c \<in> set cs. in_i32 (dmg_damage (damage_of c))"
    and "card (signatures cs) \<le> max_damage_signatures" and "set (ef_recent f) \<inter> signatures cs = {}"
  shows "fst (consume_copies J local cs f) = first_lines local {} cs"
  using copies_shown_once [OF assms(1,2), of f "ef_recent f" "[]" local] assms(3,4) by simp

text \<open>With 64 other events in between, the memory has lost an event, and a late copy is shown again.\<close>

lemma late_copy_shown_again:
  assumes "ef_recent f = ds" and "length ds = max_damage_signatures" and "signature_of d \<notin> set ds"
  shows "show_event local (Damage_Ev d) f = (line_of_damage local d, f\<lparr>ef_recent := tl ds @ [signature_of d]\<rparr>)"
  using assms by (cases ds) (auto simp: remember_damage_def max_damage_signatures_def Let_def)

section \<open>The properties at concrete events\<close>

definition demo_damage :: "u32 \<Rightarrow> bool \<Rightarrow> damage_resolution" where
  "demo_damage seq lethal = \<lparr>dmg_tick = 5, dmg_attacker = 1, dmg_victim = 2, dmg_seq = seq, dmg_weapon_id = ''rifle'',
     dmg_damage = 60, dmg_victim_health = 40, dmg_lethal = lethal\<rparr>"

definition demo_events :: "server_event list" where
  "demo_events = [Damage_Ev (demo_damage 1 False), Damage_Ev (demo_damage 2 True),
     Phase_Ev 5 \<lparr>st_phase = PostMatch, st_remaining_seconds = 0, st_phase_started_tick = 5, st_winner = Some 1\<rparr>,
     Respawn_Ev 6 2]"

theorem server_events_shown_witness:
  "fst (consume_snapshot_events text_json
      (VObject [(''tick'', VUint 6), (''events'', VArray (List.map (event_json text_json) demo_events))]) 1 feed_init) =
    Inr [''Hit confirmed: 60'', ''Elimination confirmed'', ''Phase: post_match (0s)'']"
proof -
  have "fst (show_events 1 demo_events feed_init) =
      [''Hit confirmed: 60'', ''Elimination confirmed'', ''Phase: post_match (0s)'']"
    by code_simp
  moreover have "list_all event_ok demo_events" by code_simp
  ultimately show ?thesis
    using server_events_shown [OF text_numbers.json_numbers_axioms, of demo_events
      "[(''tick'', VUint 6), (''events'', VArray (List.map (event_json text_json) demo_events))]" 1 feed_init]
    by (simp add: text_json_def)
qed

text \<open>The victim sees two events that arrive as packets and, in one case, again in a snapshot.\<close>

theorem damage_shown_once_witness:
  "fst (consume_copies text_json 2 [Reliable (demo_damage 1 False), In_Snapshot (demo_damage 1 False),
      In_Snapshot (demo_damage 2 True), Reliable (demo_damage 2 True)] feed_init) =
    [Inr (Some ''Damage taken: 60''), Inr None, Inr (Some ''You were eliminated''), Inr None]"
proof -
  let ?cs = "[Reliable (demo_damage 1 False), In_Snapshot (demo_damage 1 False),
      In_Snapshot (demo_damage 2 True), Reliable (demo_damage 2 True)]"
  have "first_lines 2 {} ?cs =
      [Inr (Some ''Damage taken: 60''), Inr None, Inr (Some ''You were eliminated''), Inr None]"
    by code_simp
  moreover have "card (signatures ?cs) \<le> max_damage_signatures"
    using card_image_le [of "set ?cs" "signature_of \<circ> damage_of"] card_length [of ?cs]
    by (simp add: max_damage_signatures_def)
  moreover have "\<forall>c \<in> set ?cs. in_i32 (dmg_damage (damage_of c))" by (simp add: demo_damage_def in_i32_def)
  ultimately show ?thesis
    using damage_shown_once [OF text_numbers.json_numbers_axioms, of ?cs feed_init 2] by (simp add: feed_init_def)
qed

end
