(* ===== verification/Hud_Model.thy ===== *)
theory Hud_Model
  imports Client_Feed
begin

text \<open>
  What the client displays of the server's state (client/AuthoritativeHudModel.h and .cpp): the own
  player's health, life, shots, coins and items, and the phase of the match. Shown: an update reports a
  change exactly when it made one, and after a snapshot of the server the display shows the server's
  values for the player.
\<close>

section \<open>State and updates\<close>

record hud_state =
  hs_has_player :: bool
  hs_health :: int
  hs_alive :: bool
  hs_last_shot_seq :: u32
  hs_coins :: int
  hs_items :: u32
  hs_match_state :: string
  hs_remaining :: int

definition hud_init :: hud_state where
  "hud_init = \<lparr>hs_has_player = False, hs_health = 0, hs_alive = True, hs_last_shot_seq = 0, hs_coins = 0,
     hs_items = 0, hs_match_state = ''unknown'', hs_remaining = - 1\<rparr>"

definition hud_reset :: "hud_state \<Rightarrow> hud_state" where
  "hud_reset h = hud_init"

text \<open>An update of the state, with the flag that collects whether anything changed.\<close>

type_synonym hud_update = "bool \<times> hud_state \<Rightarrow> bool \<times> hud_state"

definition assign_if_changed :: "(hud_state \<Rightarrow> 'a) \<Rightarrow> (('a \<Rightarrow> 'a) \<Rightarrow> hud_state \<Rightarrow> hud_state) \<Rightarrow> 'a \<Rightarrow> hud_update" where
  "assign_if_changed get update next =
     (\<lambda>(changed, h). if get h = next then (changed, h) else (True, update (\<lambda>_. next) h))"

text \<open>A value that the document may not have.\<close>

definition assign_read :: "(hud_state \<Rightarrow> 'a) \<Rightarrow> (('a \<Rightarrow> 'a) \<Rightarrow> hud_state \<Rightarrow> hud_state) \<Rightarrow> 'a option \<Rightarrow> hud_update" where
  "assign_read get update next = (case next of None \<Rightarrow> (\<lambda>s. s) | Some v \<Rightarrow> assign_if_changed get update v)"

definition read_boolean :: "'j json_api \<Rightarrow> 'j \<Rightarrow> string \<Rightarrow> bool option" where
  "read_boolean J v key =
     (if contains J v key \<and> is_boolean J (at_key J v key) then Some (jbool J (at_key J v key)) else None)"

definition read_string_opt :: "'j json_api \<Rightarrow> 'j \<Rightarrow> string \<Rightarrow> string option" where
  "read_string_opt J v key =
     (if contains J v key \<and> is_string J (at_key J v key) then Some (jstring J (at_key J v key)) else None)"

definition match_state_update :: "'j json_api \<Rightarrow> 'j \<Rightarrow> hud_update" where
  "match_state_update J payload =
     (if \<not> is_object J payload then (\<lambda>s. s)
      else assign_read hs_remaining hs_remaining_update (json_to_floor_seconds J (at_key J payload ''remaining_seconds''))
         \<circ> assign_read hs_match_state hs_match_state_update (read_string_opt J payload ''state''))"

definition player_update :: "'j json_api \<Rightarrow> 'j \<Rightarrow> hud_update" where
  "player_update J player =
     assign_read hs_items hs_items_update (json_to_u32 J (at_key J player ''inventory_items''))
     \<circ> assign_read hs_coins hs_coins_update (json_to_i32 J (at_key J player ''coins''))
     \<circ> assign_read hs_last_shot_seq hs_last_shot_seq_update (json_to_u32 J (at_key J player ''last_shot_seq''))
     \<circ> assign_read hs_alive hs_alive_update (read_boolean J player ''alive'')
     \<circ> assign_read hs_health hs_health_update (json_to_i32 J (at_key J player ''health''))
     \<circ> assign_if_changed hs_has_player hs_has_player_update True"

text \<open>The loop over the players skips entries of others and stops at the own one.\<close>

definition own_entry :: "'j json_api \<Rightarrow> u32 \<Rightarrow> 'j \<Rightarrow> bool" where
  "own_entry J local player \<longleftrightarrow> is_object J player \<and> json_to_u32 J (at_key J player ''player_id'') = Some local"

definition apply_snapshot :: "'j json_api \<Rightarrow> 'j \<Rightarrow> u32 \<Rightarrow> hud_state \<Rightarrow> bool \<times> hud_state" where
  "apply_snapshot J payload local h =
     (if \<not> is_object J payload then (False, h)
      else let s1 = (if contains J payload ''players'' \<and> is_array J (at_key J payload ''players'')
             then (case find (own_entry J local) (jelems J (at_key J payload ''players'')) of
                 None \<Rightarrow> (False, h) | Some player \<Rightarrow> player_update J player (False, h))
             else (False, h))
        in if contains J payload ''match_state'' \<and> is_object J (at_key J payload ''match_state'')
           then match_state_update J (at_key J payload ''match_state'') s1 else s1)"

definition apply_inventory_update :: "'j json_api \<Rightarrow> 'j \<Rightarrow> u32 \<Rightarrow> hud_state \<Rightarrow> bool \<times> hud_state" where
  "apply_inventory_update J payload local h =
     (if \<not> is_object J payload \<or> json_to_u32 J (at_key J payload ''player_id'') \<noteq> Some local then (False, h)
      else assign_read hs_items hs_items_update (json_to_u32 J (at_key J payload ''item_count''))
        (assign_read hs_coins hs_coins_update (json_to_i32 J (at_key J payload ''coins''))
          (assign_if_changed hs_has_player hs_has_player_update True (False, h))))"

definition apply_match_state :: "'j json_api \<Rightarrow> 'j \<Rightarrow> hud_state \<Rightarrow> bool \<times> hud_state" where
  "apply_match_state J payload h = match_state_update J payload (False, h)"

definition apply_damage_event :: "'j json_api \<Rightarrow> 'j \<Rightarrow> u32 \<Rightarrow> hud_state \<Rightarrow> bool \<times> hud_state" where
  "apply_damage_event J payload local h =
     (if \<not> is_object J payload \<or> json_to_u32 J (at_key J payload ''victim_id'') \<noteq> Some local then (False, h)
      else assign_read hs_alive hs_alive_update (map_option Not (read_boolean J payload ''lethal''))
        (case json_to_i32 J (at_key J payload ''victim_health'') of
           None \<Rightarrow> (False, h)
         | Some health \<Rightarrow> assign_if_changed hs_has_player hs_has_player_update True
             (assign_if_changed hs_health hs_health_update health (False, h))))"

definition or_unknown :: "string \<Rightarrow> string" where
  "or_unknown s = (if s = [] then ''unknown'' else s)"

definition compose_window_title :: "string \<Rightarrow> string \<Rightarrow> hud_state \<Rightarrow> string" where
  "compose_window_title base weapon h =
     (let known = (\<lambda>s. if hs_has_player h then s else ''?'') in
      base @ '' | HP '' @ known (int_to_string (hs_health h)) @ '' ('' @ known (if hs_alive h then ''alive'' else ''down'') @ '')''
        @ '' | Weapon '' @ or_unknown weapon
        @ '' | ShotSeq '' @ known (decimal (unat (hs_last_shot_seq h)))
        @ '' | Coins '' @ known (int_to_string (hs_coins h))
        @ '' | Items '' @ known (decimal (unat (hs_items h)))
        @ '' | Match '' @ or_unknown (hs_match_state h)
        @ '' '' @ (if 0 \<le> hs_remaining h then int_to_string (hs_remaining h) @ ''s'' else ''?''))"

section \<open>The flag\<close>

text \<open>An assignment in closed form; \<open>pick\<close> is the value after it.\<close>

definition pick :: "'a option \<Rightarrow> 'a \<Rightarrow> 'a" where
  "pick next old = (case next of None \<Rightarrow> old | Some v \<Rightarrow> v)"

lemma assign_fields:
  "assign_if_changed hs_has_player hs_has_player_update b (c, h) = (c \<or> hs_has_player h \<noteq> b, h\<lparr>hs_has_player := b\<rparr>)"
  "assign_if_changed hs_health hs_health_update i (c, h) = (c \<or> hs_health h \<noteq> i, h\<lparr>hs_health := i\<rparr>)"
  "assign_read hs_health hs_health_update i' (c, h) = (c \<or> hs_health h \<noteq> pick i' (hs_health h), h\<lparr>hs_health := pick i' (hs_health h)\<rparr>)"
  "assign_read hs_alive hs_alive_update b' (c, h) = (c \<or> hs_alive h \<noteq> pick b' (hs_alive h), h\<lparr>hs_alive := pick b' (hs_alive h)\<rparr>)"
  "assign_read hs_last_shot_seq hs_last_shot_seq_update n' (c, h) =
     (c \<or> hs_last_shot_seq h \<noteq> pick n' (hs_last_shot_seq h), h\<lparr>hs_last_shot_seq := pick n' (hs_last_shot_seq h)\<rparr>)"
  "assign_read hs_coins hs_coins_update i' (c, h) = (c \<or> hs_coins h \<noteq> pick i' (hs_coins h), h\<lparr>hs_coins := pick i' (hs_coins h)\<rparr>)"
  "assign_read hs_items hs_items_update n' (c, h) = (c \<or> hs_items h \<noteq> pick n' (hs_items h), h\<lparr>hs_items := pick n' (hs_items h)\<rparr>)"
  "assign_read hs_match_state hs_match_state_update s' (c, h) =
     (c \<or> hs_match_state h \<noteq> pick s' (hs_match_state h), h\<lparr>hs_match_state := pick s' (hs_match_state h)\<rparr>)"
  "assign_read hs_remaining hs_remaining_update i' (c, h) =
     (c \<or> hs_remaining h \<noteq> pick i' (hs_remaining h), h\<lparr>hs_remaining := pick i' (hs_remaining h)\<rparr>)"
  by (auto simp: assign_if_changed_def assign_read_def pick_def split: option.split)

lemma hud_eq_iff: "h = h' \<longleftrightarrow> hs_has_player h = hs_has_player h' \<and> hs_health h = hs_health h' \<and> hs_alive h = hs_alive h'
    \<and> hs_last_shot_seq h = hs_last_shot_seq h' \<and> hs_coins h = hs_coins h' \<and> hs_items h = hs_items h'
    \<and> hs_match_state h = hs_match_state h' \<and> hs_remaining h = hs_remaining h'" for h h' :: hud_state
  by (cases h; cases h') auto

lemma player_update_fields:
  "player_update J player (c, h) =
     (let h' = h\<lparr>hs_has_player := True,
          hs_health := pick (json_to_i32 J (at_key J player ''health'')) (hs_health h),
          hs_alive := pick (read_boolean J player ''alive'') (hs_alive h),
          hs_last_shot_seq := pick (json_to_u32 J (at_key J player ''last_shot_seq'')) (hs_last_shot_seq h),
          hs_coins := pick (json_to_i32 J (at_key J player ''coins'')) (hs_coins h),
          hs_items := pick (json_to_u32 J (at_key J player ''inventory_items'')) (hs_items h)\<rparr>
      in (c \<or> h' \<noteq> h, h'))"
  by (auto simp: player_update_def assign_fields hud_eq_iff Let_def)

lemma match_state_fields_update:
  "match_state_update J payload (c, h) =
     (if \<not> is_object J payload then (c, h)
      else let h' = h\<lparr>hs_match_state := pick (read_string_opt J payload ''state'') (hs_match_state h),
          hs_remaining := pick (json_to_floor_seconds J (at_key J payload ''remaining_seconds'')) (hs_remaining h)\<rparr>
      in (c \<or> h' \<noteq> h, h'))"
  by (auto simp: match_state_update_def assign_fields hud_eq_iff Let_def)

text \<open>The player's part and the match's part of the display do not overlap.\<close>

lemma match_state_after:
  assumes "c \<longleftrightarrow> h1 \<noteq> h" and "hs_match_state h1 = hs_match_state h" and "hs_remaining h1 = hs_remaining h"
  shows "case match_state_update J payload (c, h1) of (c', h') \<Rightarrow> c' \<longleftrightarrow> h' \<noteq> h"
  using assms by (auto simp: match_state_fields_update hud_eq_iff Let_def)

text \<open>For any document, each update of the display (snapshot, inventory, match state, damage) returns
  true exactly when the displayed state is another one afterwards, so the client redraws when it has to
  and only then.\<close>

theorem hud_change_flag_exact:
  "(case apply_snapshot J payload local h of (c, h') \<Rightarrow> c \<longleftrightarrow> h' \<noteq> h)
    \<and> (case apply_inventory_update J payload local h of (c, h') \<Rightarrow> c \<longleftrightarrow> h' \<noteq> h)
    \<and> (case apply_match_state J payload h of (c, h') \<Rightarrow> c \<longleftrightarrow> h' \<noteq> h)
    \<and> (case apply_damage_event J payload local h of (c, h') \<Rightarrow> c \<longleftrightarrow> h' \<noteq> h)"
proof (intro conjI)
  show "case apply_match_state J payload h of (c, h') \<Rightarrow> c \<longleftrightarrow> h' \<noteq> h"
    unfolding apply_match_state_def by (rule match_state_after) simp_all
  show "case apply_inventory_update J payload local h of (c, h') \<Rightarrow> c \<longleftrightarrow> h' \<noteq> h"
    by (auto simp: apply_inventory_update_def assign_fields hud_eq_iff)
  show "case apply_damage_event J payload local h of (c, h') \<Rightarrow> c \<longleftrightarrow> h' \<noteq> h"
    by (auto simp: apply_damage_event_def assign_fields hud_eq_iff split: option.split)
  have player: "\<exists>c h1. player_update J p (False, h) = (c, h1) \<and> (c \<longleftrightarrow> h1 \<noteq> h)
      \<and> hs_match_state h1 = hs_match_state h \<and> hs_remaining h1 = hs_remaining h" for p
    by (simp add: player_update_fields Let_def)
  define s1 where "s1 = (if contains J payload ''players'' \<and> is_array J (at_key J payload ''players'')
             then (case find (own_entry J local) (jelems J (at_key J payload ''players'')) of
                 None \<Rightarrow> (False, h) | Some player \<Rightarrow> player_update J player (False, h))
             else (False, h))"
  have "\<exists>c h1. s1 = (c, h1) \<and> (c \<longleftrightarrow> h1 \<noteq> h) \<and> hs_match_state h1 = hs_match_state h \<and> hs_remaining h1 = hs_remaining h"
    unfolding s1_def using player by (simp split: option.split)
  then obtain c h1 where "s1 = (c, h1)" "c \<longleftrightarrow> h1 \<noteq> h" "hs_match_state h1 = hs_match_state h" "hs_remaining h1 = hs_remaining h"
    by blast
  with match_state_after [of c h1 h J "at_key J payload ''match_state''"]
  show "case apply_snapshot J payload local h of (c, h') \<Rightarrow> c \<longleftrightarrow> h' \<noteq> h"
    unfolding apply_snapshot_def s1_def [symmetric] by (simp add: Let_def)
qed

section \<open>The server's values are shown\<close>

text \<open>What the display shows of a player's entry and of the match.\<close>

definition hud_of :: "snapshot_player_view \<Rightarrow> lifecycle_state \<Rightarrow> int \<Rightarrow> hud_state" where
  "hud_of v st old_remaining = \<lparr>hs_has_player = True, hs_health = sv_health v, hs_alive = sv_alive v,
     hs_last_shot_seq = sv_last_shot_seq v, hs_coins = sv_coins v, hs_items = sv_inventory_items v,
     hs_match_state = match_phase_to_string (st_phase st),
     hs_remaining = pick (shown_seconds (st_remaining_seconds st)) old_remaining\<rparr>"

lemma hud_player_field:
  "map_of (snapshot_player_fields J v) ''health'' = Some (jof_int J (sv_health v))"
  "map_of (snapshot_player_fields J v) ''alive'' = Some (jof_bool J (sv_alive v))"
  "map_of (snapshot_player_fields J v) ''last_shot_seq'' = Some (jof_u32 J (sv_last_shot_seq v))"
  "map_of (snapshot_player_fields J v) ''coins'' = Some (jof_int J (sv_coins v))"
  "map_of (snapshot_player_fields J v) ''inventory_items'' = Some (jof_u32 J (sv_inventory_items v))"
  by (simp_all add: snapshot_player_fields_def Let_def)

context json_numbers
begin

lemma own_entry_back:
  "own_entry J local (jof_object J (snapshot_player_fields J v)) \<longleftrightarrow> mot_player_id (sv_motion v) = local"
  by (simp add: own_entry_def entry_read player_field json_types types u32_back)

lemma own_entry_found:
  "find (\<lambda>v. mot_player_id (sv_motion v) = local) vs = Some v \<Longrightarrow>
     find (own_entry J local) (List.map (\<lambda>v. jof_object J (snapshot_player_fields J v)) vs)
       = Some (jof_object J (snapshot_player_fields J v))"
  by (induction vs) (auto simp: own_entry_back split: if_splits)

lemma player_entry_shown:
  assumes "in_i32 (sv_health v)" and "in_i32 (sv_coins v)"
  shows "snd (player_update J (jof_object J (snapshot_player_fields J v)) (c, h)) =
    h\<lparr>hs_has_player := True, hs_health := sv_health v, hs_alive := sv_alive v,
      hs_last_shot_seq := sv_last_shot_seq v, hs_coins := sv_coins v, hs_items := sv_inventory_items v\<rparr>"
  using assms
  by (simp add: player_update_fields entry_read hud_player_field read_boolean_def feed_reads pick_def Let_def)

lemma match_payload_shown:
  "snd (match_state_update J (build_match_state_payload J st scoreboard b) (c, h)) =
     h\<lparr>hs_match_state := match_phase_to_string (st_phase st),
       hs_remaining := pick (shown_seconds (st_remaining_seconds st)) (hs_remaining h)\<rparr>"
  by (simp add: match_state_fields_update build_match_state_payload_def read_string_opt_def feed_reads pick_def Let_def
      split: option.split)

end

text \<open>C40: After a snapshot of the server the client displays exactly the health, life, shot number, coins
  and items that the server has for its player, and the server's match phase; the remaining time is the
  server's unless it does not fit an \<open>int\<close>, when the old one stays.\<close>

theorem hud_shows_snapshot:
  assumes "json_numbers J textual" and "find (\<lambda>v. mot_player_id (sv_motion v) = local) vs = Some v"
    and "in_i32 (sv_health v)" and "in_i32 (sv_coins v)"
    and "sp_players parts = snapshot_players_to_json J vs"
    and "sp_match_state parts = build_match_state_payload J st scoreboard include_scoreboard"
  shows "snd (apply_snapshot J (snapshot_payload J parts u) local h) = hud_of v st (hs_remaining h)"
proof -
  note lib = json_numbers.axioms(1) [OF assms(1)]
  let ?kvs = "[(''tick'', jof_uint J (sp_tick parts)), (''players'', sp_players parts), (''events'', sp_events parts),
      (''chunk_sync'', chunk_sync_to_json J u), (''treasure_spawns'', sp_treasure_spawns parts),
      (''match_state'', sp_match_state parts)]"
  note read = json_library.at_object [OF lib] json_library.contains_object [OF lib]
    json_library.types [OF lib] json_library.gets [OF lib]
  let ?player = "jof_object J (snapshot_player_fields J v)"
  have players: "jelems J (at_key J (jof_object J ?kvs) ''players'') = List.map (\<lambda>v. jof_object J (snapshot_player_fields J v)) vs"
    "is_array J (at_key J (jof_object J ?kvs) ''players'')" "contains J (jof_object J ?kvs) ''players''"
    by (simp_all add: read assms(5) snapshot_players_to_json_def json_types)
  have match: "at_key J (jof_object J ?kvs) ''match_state'' = build_match_state_payload J st scoreboard include_scoreboard"
    "contains J (jof_object J ?kvs) ''match_state''"
    by (simp_all add: read assms(6))
  have object: "is_object J (build_match_state_payload J st scoreboard include_scoreboard)" "is_object J (jof_object J ?kvs)"
    by (simp_all add: build_match_state_payload_def json_types read)
  obtain c h1 where player: "player_update J ?player (False, h) = (c, h1)" by (cases "player_update J ?player (False, h)")
  have "apply_snapshot J (snapshot_payload J parts u) local h =
      match_state_update J (build_match_state_payload J st scoreboard include_scoreboard) (c, h1)"
    by (simp add: apply_snapshot_def snapshot_payload_def object players match player
        json_numbers.own_entry_found [OF assms(1,2)])
  moreover have "h1 = snd (player_update J ?player (False, h))" by (simp add: player)
  ultimately show ?thesis
    using json_numbers.match_payload_shown [OF assms(1), of st scoreboard include_scoreboard c h1]
      json_numbers.player_entry_shown [OF assms(1,3,4), of False h]
    by (simp add: hud_of_def)
qed

definition hud_view :: "u32 \<Rightarrow> int \<Rightarrow> snapshot_player_view" where
  "hud_view p health = (plain_view p)\<lparr>sv_health := health, sv_coins := 25, sv_last_shot_seq := 3, sv_inventory_items := 2\<rparr>"

definition hud_parts :: "json_value snapshot_parts" where
  "hud_parts = \<lparr>sp_tick = 9, sp_players = snapshot_players_to_json text_json [hud_view 1 70, hud_view 2 55],
     sp_events = VArray [], sp_treasure_spawns = VArray [],
     sp_match_state = build_match_state_payload text_json
       \<lparr>st_phase = InMatch, st_remaining_seconds = 30, st_phase_started_tick = 4, st_winner = None\<rparr> [] False\<rparr>"

theorem hud_shows_snapshot_witness:
  "compose_window_title ''Devy'' ''rifle'' (snd (apply_snapshot text_json
      (snapshot_payload text_json hud_parts \<lparr>pu_player_id = 2, pu_added = [], pu_removed = [], pu_deltas = []\<rparr>) 2 hud_init)) =
    ''Devy | HP 55 (alive) | Weapon rifle | ShotSeq 3 | Coins 25 | Items 2 | Match in_match 30s''"
proof -
  let ?st = "\<lparr>st_phase = InMatch, st_remaining_seconds = 30, st_phase_started_tick = 4, st_winner = None\<rparr>"
  have "find (\<lambda>v. mot_player_id (sv_motion v) = 2) [hud_view 1 70, hud_view 2 55] = Some (hud_view 2 55)"
    by (simp add: hud_view_def plain_view_def fresh_motion_def)
  moreover have "in_i32 (sv_health (hud_view 2 55))" "in_i32 (sv_coins (hud_view 2 55))"
    by (simp_all add: hud_view_def in_i32_def)
  ultimately have shown: "snd (apply_snapshot text_json
      (snapshot_payload text_json hud_parts \<lparr>pu_player_id = 2, pu_added = [], pu_removed = [], pu_deltas = []\<rparr>) 2 hud_init) =
      hud_of (hud_view 2 55) ?st (hs_remaining hud_init)"
    by (intro hud_shows_snapshot [OF text_numbers.json_numbers_axioms]) (simp_all add: hud_parts_def)
  have "compose_window_title ''Devy'' ''rifle'' (hud_of (hud_view 2 55) ?st (hs_remaining hud_init)) =
      ''Devy | HP 55 (alive) | Weapon rifle | ShotSeq 3 | Coins 25 | Items 2 | Match in_match 30s''"
    by code_simp
  with shown show ?thesis by simp
qed

end
