(* ===== verification/Client_Program.thy ===== *)
theory Client_Program
  imports Server_Config Weapon_Emitter Client_Feed Hud_Model
begin

text \<open>
  The client program (client/src/main.cpp): its settings, the handling of every packet of the server, and
  what a frame sends: heartbeats, inputs in steps of a fixed length, shots and pickups. The parts that it
  drives are the theories Chunk_Sync, Prediction, Weapon_Emitter, Client_Feed and Hud_Model. The view
  direction, the movement axes, the keys and the clock are arguments; the camera and the drawing are left
  out. An exception ends the program, so a step that throws has no state.
\<close>

section \<open>Settings\<close>

record client_values =
  clv_host :: string
  clv_port :: int
  clv_connection :: connection_values
  clv_world_height :: int
  clv_draw_distance :: int
  clv_profile :: generation_profile
  clv_heartbeat_ms :: int
  clv_tuning :: movement_tuning
  clv_sensitivity :: fp
  clv_base_fov :: fp
  clv_sprint_fov :: fp
  clv_height_smoothing :: fp

record client_map =
  cm_world_height :: int
  cm_draw_distance :: int
  cm_profile :: generation_profile

record client_runtime =
  crt_tuning :: movement_tuning
  crt_sensitivity :: fp
  crt_base_fov :: fp
  crt_sprint_fov :: fp
  crt_height_smoothing :: fp

definition default_client_map :: client_map where
  "default_client_map = \<lparr>cm_world_height = 256, cm_draw_distance = 8, cm_profile = default_profile\<rparr>"

definition default_client_runtime :: client_runtime where
  "default_client_runtime = \<lparr>crt_tuning = default_tuning, crt_sensitivity = litF (1 / 10), crt_base_fov = litF 70,
     crt_sprint_fov = litF 8, crt_height_smoothing = litF 10\<rparr>"

definition read_client_map :: "'j json_api \<Rightarrow> 'j \<Rightarrow> json_error + client_map" where
  "read_client_map J c = (let d = default_client_map in
     and_then (value_int J c ''world_height'' (cm_world_height d)) (\<lambda>height.
     and_then (value_int J c ''draw_distance_chunks'' (cm_draw_distance d)) (\<lambda>distance.
     let seed = (case json_to_u32 J (at_key J c ''world_seed'') of Some n \<Rightarrow> n | None \<Rightarrow> gp_world_seed (cm_profile d));
         e = gp_expansion (cm_profile d) in
     and_then (section_or J c ''world_expansion'' e (\<lambda>w. read_config_expansion J w e)) (\<lambda>expansion.
     Inr \<lparr>cm_world_height = height, cm_draw_distance = distance,
          cm_profile = \<lparr>gp_world_seed = seed, gp_expansion = expansion\<rparr>\<rparr>))))"

text \<open>The camera's numbers are read as \<open>double\<close> and kept as \<open>float\<close>.\<close>

definition read_camera :: "'j json_api \<Rightarrow> 'j \<Rightarrow> client_runtime \<Rightarrow> json_error + client_runtime" where
  "read_camera J c r =
     (let number = (\<lambda>key d. and_then (value_double J c key (fp_cast Double d)) (\<lambda>x. Inr (fp_cast Single x))) in
     and_then (number ''mouse_sensitivity'' (crt_sensitivity r)) (\<lambda>sensitivity.
     and_then (number ''base_fov_degrees'' (crt_base_fov r)) (\<lambda>fov.
     and_then (number ''sprint_fov_bonus_degrees'' (crt_sprint_fov r)) (\<lambda>bonus.
     and_then (number ''height_smoothing'' (crt_height_smoothing r)) (\<lambda>smoothing.
     Inr (r\<lparr>crt_sensitivity := sensitivity, crt_base_fov := fov, crt_sprint_fov := bonus,
            crt_height_smoothing := smoothing\<rparr>))))))"

definition read_client_runtime :: "'j json_api \<Rightarrow> 'j \<Rightarrow> json_error + client_runtime" where
  "read_client_runtime J c = (let d = default_client_runtime in
     and_then (value_double J c ''movement_speed_units_per_second'' (fp_cast Double (max_speed_walk (crt_tuning d)))) (\<lambda>speed.
     let t = legacy_speed speed (crt_tuning d) in
     and_then (section_or J c ''movement'' t (\<lambda>m. read_tuning J m t)) (\<lambda>tuning.
     let r = d\<lparr>crt_tuning := tuning\<rparr> in section_or J c ''camera'' r (\<lambda>v. read_camera J v r))))"

definition read_client_values :: "'j json_api \<Rightarrow> 'j \<Rightarrow> json_error + client_values" where
  "read_client_values J config =
     (if \<not> is_object J config then Inl Type_Error
      else
       and_then (value_int J config ''port'' 7777) (\<lambda>port.
       and_then (value_string J config ''host'' ''127.0.0.1'') (\<lambda>host.
       and_then (section_or J config ''connection'' \<lparr>nv_auto_discovery = False, nv_port_file = []\<rparr>
         (read_connection J)) (\<lambda>connection.
       and_then (section_or J config ''map'' default_client_map (read_client_map J)) (\<lambda>m.
       and_then (section_or J config ''session'' 10000 (\<lambda>s. value_int J s ''heartbeat_timeout_ms'' 10000)) (\<lambda>heartbeat_ms.
       and_then (section_or J config ''runtime'' default_client_runtime (read_client_runtime J)) (\<lambda>r.
       Inr \<lparr>clv_host = host, clv_port = port, clv_connection = connection, clv_world_height = cm_world_height m,
            clv_draw_distance = cm_draw_distance m, clv_profile = cm_profile m, clv_heartbeat_ms = heartbeat_ms,
            clv_tuning = crt_tuning r, clv_sensitivity = crt_sensitivity r, clv_base_fov = crt_base_fov r,
            clv_sprint_fov = crt_sprint_fov r, clv_height_smoothing = crt_height_smoothing r\<rparr>)))))))"

text \<open>The values that remain: fallbacks, and a running server's endpoint if it is looked up and found.\<close>

definition usable_fov :: "fp \<Rightarrow> fp \<Rightarrow> fp \<Rightarrow> fp \<Rightarrow> fp" where
  "usable_fov low high dflt x = (if \<not> fp_is_finite x \<or> fp_lt x low \<or> fp_lt high x then dflt else x)"

definition usable_client :: "(string \<times> int) option \<Rightarrow> client_values \<Rightarrow> client_values" where
  "usable_client discovered v =
     (let connection = usable_connection (clv_connection v);
          port = (if clv_port v \<le> 0 \<or> 65535 < clv_port v then 7777 else clv_port v);
          found = (if nv_auto_discovery connection \<and> nv_port_file connection \<noteq> [] then discovered else None)
      in v\<lparr>clv_host := (case found of Some (host, _) \<Rightarrow> host | None \<Rightarrow> clv_host v),
           clv_port := (case found of Some (_, p) \<Rightarrow> p | None \<Rightarrow> port),
           clv_connection := connection, clv_world_height := at_least 1 256 (clv_world_height v),
           clv_draw_distance := at_least 1 8 (clv_draw_distance v), clv_profile := sanitize_profile (clv_profile v),
           clv_heartbeat_ms := at_least 1 10000 (clv_heartbeat_ms v), clv_tuning := sanitize_movement_tuning (clv_tuning v),
           clv_sensitivity := usable_positive (litF (1 / 10)) (clv_sensitivity v),
           clv_base_fov := usable_fov (litF 45) (litF 120) (litF 70) (clv_base_fov v),
           clv_sprint_fov := usable_fov (litF 0) (litF 30) (litF 8) (clv_sprint_fov v),
           clv_height_smoothing := usable_positive (litF 10) (clv_height_smoothing v)\<rparr>)"

definition heartbeat_interval_ms :: "int \<Rightarrow> u64" where
  "heartbeat_interval_ms timeout = word_of_int (max 100 (min 2000 (c_div timeout 2)))"

definition active_weapon :: "weapon_definition list \<Rightarrow> string" where
  "active_weapon ws = (case ws of [] \<Rightarrow> ''rifle'' | w # _ \<Rightarrow> if wd_id w \<noteq> [] then wd_id w else ''rifle'')"

section \<open>State\<close>

record treasure_view =
  tv_id :: u64
  tv_x :: fp
  tv_y :: fp

record client =
  ct_world_height :: int
  ct_heartbeat_interval :: u64
  ct_weapon :: string
  ct_connected :: bool
  ct_joined :: bool
  ct_player :: u32
  ct_next_pickup :: u32
  ct_next_heartbeat :: u64
  ct_reconciler :: reconciler
  ct_emitter :: weapon_emitter
  ct_hud :: hud_state
  ct_feed :: event_feed
  ct_view :: client_view
  ct_spawns :: "treasure_view list"
  ct_fire_down :: bool
  ct_pickup_down :: bool
  ct_banner :: string
  ct_banner_until :: u64
  ct_accumulator :: fp
  ct_title :: string
  ct_quit :: bool

definition base_window_title :: string where "base_window_title = ''Devy FPS Client''"

definition client_init :: "client_values \<Rightarrow> weapon_definition list \<Rightarrow> client" where
  "client_init v ws = \<lparr>ct_world_height = clv_world_height v,
     ct_heartbeat_interval = heartbeat_interval_ms (clv_heartbeat_ms v), ct_weapon = active_weapon ws,
     ct_connected = False, ct_joined = False, ct_player = 0, ct_next_pickup = 1, ct_next_heartbeat = 0,
     ct_reconciler = reconciler_init \<lparr>pc_movement_tuning = clv_tuning v, pc_max_pending_inputs = 256\<rparr>,
     ct_emitter = emitter_init 1, ct_hud = hud_init, ct_feed = feed_init,
     ct_view = \<lparr>cv_world = set_generation_profile (clv_profile v) new_world, cv_revisions = [], cv_profile = clv_profile v\<rparr>,
     ct_spawns = [], ct_fire_down = False, ct_pickup_down = False, ct_banner = [], ct_banner_until = 0,
     ct_accumulator = Fin 0, ct_title = base_window_title, ct_quit = False\<rparr>"

section \<open>Packets of the server\<close>

definition spawn_position :: "'j json_api \<Rightarrow> 'j \<Rightarrow> treasure_view option" where
  "spawn_position J v =
     (if \<not> is_object J v \<or> \<not> contains J v ''spawn_id'' \<or> \<not> contains J v ''position''
         \<or> \<not> is_object J (at_key J v ''position'') then None
      else case (json_to_u64 J (at_key J v ''spawn_id''), json_to_float J (at_key J (at_key J v ''position'') ''x''),
                 json_to_float J (at_key J (at_key J v ''position'') ''y'')) of
        (Some i, Some x, Some y) \<Rightarrow> Some \<lparr>tv_id = i, tv_x = x, tv_y = y\<rparr>
      | _ \<Rightarrow> None)"

definition parse_treasure_spawns :: "'j json_api \<Rightarrow> 'j \<Rightarrow> treasure_view list" where
  "parse_treasure_spawns J payload =
     (if \<not> is_object J payload \<or> \<not> contains J payload ''treasure_spawns''
         \<or> \<not> is_array J (at_key J payload ''treasure_spawns'') then []
      else List.map_filter (spawn_position J) (jelems J (at_key J payload ''treasure_spawns'')))"

definition push_banner :: "u64 \<Rightarrow> string \<Rightarrow> client \<Rightarrow> client" where
  "push_banner now message c =
     (if message = [] then c else c\<lparr>ct_banner := message, ct_banner_until := now + 2500\<rparr>)"

definition join_request_packet :: "'j json_api \<Rightarrow> 'j packet" where
  "join_request_packet J = \<lparr>pk_type = JoinRequest, pk_payload = jof_object J
     [(''player_name'', jof_string J ''player_local''), (''client_build'', jof_string J ''interactive-client'')],
     pk_version = protocol_version\<rparr>"

definition on_connect :: "'j json_api \<Rightarrow> client \<Rightarrow> 'j packet list \<times> client" where
  "on_connect J c = ([join_request_packet J], c\<lparr>ct_connected := True\<rparr>)"

definition joined_as :: "'j json_api \<Rightarrow> u64 \<Rightarrow> u32 \<Rightarrow> 'j \<Rightarrow> client \<Rightarrow> client" where
  "joined_as J now p payload c = c\<lparr>ct_joined := True, ct_player := p, ct_next_pickup := 1, ct_next_heartbeat := now,
     ct_reconciler := reconciler_reset (ct_reconciler c), ct_emitter := emitter_reset 1 (ct_emitter c),
     ct_hud := hud_reset (ct_hud c), ct_feed := feed_reset (ct_feed c), ct_banner := [], ct_banner_until := 0,
     ct_spawns := [], ct_view := client_join J payload (ct_view c)\<rparr>"

definition on_join_accept :: "'j json_api \<Rightarrow> u64 \<Rightarrow> 'j \<Rightarrow> client \<Rightarrow> json_error + client" where
  "on_join_accept J now payload c =
     and_then (value_bool J payload ''accepted'' False) (\<lambda>accepted.
       if \<not> accepted then
         and_then (value_string J payload ''reason'' ''join_rejected'') (\<lambda>reason. Inr (c\<lparr>ct_quit := True\<rparr>))
       else Inr (case json_to_u32 J (at_key J payload ''player_id'') of
         None \<Rightarrow> c\<lparr>ct_quit := True\<rparr>
       | Some p \<Rightarrow> joined_as J now p payload c))"

definition on_snapshot :: "'j json_api \<Rightarrow> u64 \<Rightarrow> 'j \<Rightarrow> client \<Rightarrow> json_error + client" where
  "on_snapshot J now payload c =
     (if \<not> ct_joined c \<or> ct_player c = 0 then Inr c
      else let c1 = c\<lparr>ct_reconciler := snd (consume_snapshot J payload (ct_player c) (ct_reconciler c)),
                 ct_view := client_snapshot J (ct_world_height c) payload (ct_view c),
                 ct_hud := snd (apply_snapshot J payload (ct_player c) (ct_hud c)),
                 ct_spawns := parse_treasure_spawns J payload\<rparr>
        in case consume_snapshot_events J payload (ct_player c) (ct_feed c1) of
             (Inl e, f) \<Rightarrow> Inl e
           | (Inr messages, f) \<Rightarrow> Inr (fold (push_banner now) messages (c1\<lparr>ct_feed := f\<rparr>)))"

definition on_inventory_update :: "'j json_api \<Rightarrow> 'j \<Rightarrow> client \<Rightarrow> json_error + client" where
  "on_inventory_update J payload c =
     (if json_to_u32 J (at_key J payload ''player_id'') \<noteq> Some (ct_player c) then Inr c
      else and_then (value_int J payload ''coins'' 0) (\<lambda>coins.
        and_then (value_int J payload ''item_count'' 0) (\<lambda>items.
        Inr (c\<lparr>ct_hud := snd (apply_inventory_update J payload (ct_player c) (ct_hud c))\<rparr>))))"

definition show_line :: "u64 \<Rightarrow> string option fed \<Rightarrow> client \<Rightarrow> json_error + client" where
  "show_line now r c = (case r of
     (Inl e, f) \<Rightarrow> Inl e
   | (Inr line, f) \<Rightarrow> Inr (case line of None \<Rightarrow> c\<lparr>ct_feed := f\<rparr> | Some s \<Rightarrow> push_banner now s (c\<lparr>ct_feed := f\<rparr>)))"

definition on_damage_event :: "'j json_api \<Rightarrow> u64 \<Rightarrow> 'j \<Rightarrow> client \<Rightarrow> json_error + client" where
  "on_damage_event J now payload c =
     show_line now (consume_reliable_damage_event J (ct_player c) payload (ct_feed c))
       (c\<lparr>ct_hud := snd (apply_damage_event J payload (ct_player c) (ct_hud c))\<rparr>)"

definition on_match_state :: "'j json_api \<Rightarrow> u64 \<Rightarrow> 'j \<Rightarrow> client \<Rightarrow> json_error + client" where
  "on_match_state J now payload c =
     show_line now (consume_reliable_match_state J payload (ct_feed c))
       (c\<lparr>ct_hud := snd (apply_match_state J payload (ct_hud c))\<rparr>)"

definition on_packet :: "'j json_api \<Rightarrow> u64 \<Rightarrow> 'j packet \<Rightarrow> client \<Rightarrow> json_error + client" where
  "on_packet J now pkt c = (case pk_type pkt of
     JoinAccept \<Rightarrow> on_join_accept J now (pk_payload pkt) c
   | StateSnapshot \<Rightarrow> on_snapshot J now (pk_payload pkt) c
   | InventoryUpdate \<Rightarrow> on_inventory_update J (pk_payload pkt) c
   | DamageEvent \<Rightarrow> on_damage_event J now (pk_payload pkt) c
   | MatchState \<Rightarrow> on_match_state J now (pk_payload pkt) c
   | _ \<Rightarrow> Inr c)"

definition on_receive :: "'j json_api \<Rightarrow> u64 \<Rightarrow> string \<Rightarrow> client \<Rightarrow> json_error + client" where
  "on_receive J now data c =
     (let parsed = try_deserialize J data in
      if pr_error parsed \<noteq> No_Error then Inr c else on_packet J now (pr_packet parsed) c)"

definition on_disconnect :: "client \<Rightarrow> client" where
  "on_disconnect c = c\<lparr>ct_connected := False, ct_joined := False, ct_player := 0, ct_hud := hud_reset (ct_hud c),
     ct_feed := feed_reset (ct_feed c), ct_banner := [], ct_banner_until := 0, ct_quit := True\<rparr>"

section \<open>A frame\<close>

datatype net_event = Net_Connect | Net_Receive string | Net_Disconnect

record frame_input =
  fi_dt :: fp
  fi_move_x :: fp
  fi_move_y :: fp
  fi_jump :: bool
  fi_sprint :: bool
  fi_crouch :: bool
  fi_view_x :: fp
  fi_view_z :: fp
  fi_fire :: bool
  fi_pickup :: bool
  fi_escape :: bool

definition on_event :: "'j json_api \<Rightarrow> u64 \<Rightarrow> net_event \<Rightarrow> client \<Rightarrow> json_error + 'j packet list \<times> client" where
  "on_event J now ev c = (case ev of
     Net_Connect \<Rightarrow> Inr (on_connect J c)
   | Net_Receive data \<Rightarrow> and_then (on_receive J now data c) (\<lambda>c'. Inr ([], c'))
   | Net_Disconnect \<Rightarrow> Inr ([], on_disconnect c))"

fun on_events :: "'j json_api \<Rightarrow> u64 \<Rightarrow> net_event list \<Rightarrow> client \<Rightarrow> json_error + 'j packet list \<times> client" where
  "on_events J now [] c = Inr ([], c)"
| "on_events J now (ev # evs) c =
     and_then (on_event J now ev c) (\<lambda>(out, c1). and_then (on_events J now evs c1) (\<lambda>(out', c2). Inr (out @ out', c2)))"

definition in_session :: "client \<Rightarrow> bool" where
  "in_session c \<longleftrightarrow> ct_joined c \<and> ct_player c \<noteq> 0"

definition heartbeat_packet :: "'j json_api \<Rightarrow> u64 \<Rightarrow> u32 \<Rightarrow> 'j packet" where
  "heartbeat_packet J now p = \<lparr>pk_type = Heartbeat, pk_payload = jof_object J
     [(''player_id'', jof_u32 J p), (''client_time_ms'', jof_uint J now)], pk_version = protocol_version\<rparr>"

definition send_heartbeat :: "'j json_api \<Rightarrow> u64 \<Rightarrow> client \<Rightarrow> 'j packet list \<times> client" where
  "send_heartbeat J now c =
     (if ct_connected c \<and> in_session c \<and> ct_next_heartbeat c \<le> now then
        ([heartbeat_packet J now (ct_player c)], c\<lparr>ct_next_heartbeat := now + ct_heartbeat_interval c\<rparr>)
      else ([], c))"

definition input_packet :: "'j json_api \<Rightarrow> u32 \<Rightarrow> u32 \<Rightarrow> frame_input \<Rightarrow> 'j packet" where
  "input_packet J p seq i = \<lparr>pk_type = PlayerInput, pk_payload = jof_object J
     [(''player_id'', jof_u32 J p), (''input_seq'', jof_u32 J seq), (''move_x'', jof_single J (fi_move_x i)),
      (''move_y'', jof_single J (fi_move_y i)), (''jump'', jof_bool J (fi_jump i)), (''sprint'', jof_bool J (fi_sprint i)),
      (''crouch'', jof_bool J (fi_crouch i)), (''fire'', jof_bool J False)], pk_version = protocol_version\<rparr>"

text \<open>The inputs that are due; the loop may not end, so it is partial.\<close>

partial_function (option) due_inputs ::
    "'j json_api \<Rightarrow> frame_input \<Rightarrow> 'j packet list \<Rightarrow> client \<Rightarrow> ('j packet list \<times> client) option" where
  "due_inputs J i out c =
     (if fp_le fixed_dt_seconds (ct_accumulator c) then
        (case queue_local_input (fi_move_x i) (fi_move_y i) (fi_jump i) (fi_sprint i) (fi_crouch i) False fixed_dt_ns
            (ct_reconciler c) of (seq, r) \<Rightarrow>
          due_inputs J i (out @ [input_packet J (ct_player c) seq i])
            (c\<lparr>ct_reconciler := r, ct_accumulator := subF (ct_accumulator c) fixed_dt_seconds\<rparr>))
      else Some (out, c))"

definition send_inputs :: "'j json_api \<Rightarrow> frame_input \<Rightarrow> client \<Rightarrow> ('j packet list \<times> client) option" where
  "send_inputs J i c =
     (if in_session c then due_inputs J i [] (c\<lparr>ct_accumulator := addF (ct_accumulator c) (fi_dt i)\<rparr>) else Some ([], c))"

definition send_shot :: "'j json_api \<Rightarrow> u64 \<Rightarrow> frame_input \<Rightarrow> client \<Rightarrow> 'j packet list \<times> client" where
  "send_shot J now i c =
     (let c1 = c\<lparr>ct_fire_down := fi_fire i\<rparr> in
      if fi_fire i \<and> \<not> ct_fire_down c \<and> in_session c then
        (let predicted = pr_state (ct_reconciler c) in
         case emit J \<lparr>sr_player_id = ct_player c, sr_weapon_id = ct_weapon c, sr_origin_x = pm_position_x predicted,
             sr_origin_y = pm_position_y predicted, sr_direction_x = fi_view_x i, sr_direction_y = fi_view_z i,
             sr_client_time = Some now\<rparr> (ct_emitter c) of (r, e) \<Rightarrow>
           ((if er_status r = Emit_Accepted then [er_packet r] else []), c1\<lparr>ct_emitter := e\<rparr>))
      else ([], c1))"

definition closest_step :: "fp \<Rightarrow> fp \<Rightarrow> treasure_view \<Rightarrow> u64 option \<times> fp \<Rightarrow> u64 option \<times> fp" where
  "closest_step x y spawn = (\<lambda>(best, best_sq).
     let dx = subF (tv_x spawn) x; dy = subF (tv_y spawn) y; dist_sq = addF (mulF dx dx) (mulF dy dy)
     in if fp_le dist_sq best_sq then (Some (tv_id spawn), dist_sq) else (best, best_sq))"

definition closest_spawn_in_range :: "treasure_view list \<Rightarrow> fp \<Rightarrow> fp \<Rightarrow> fp \<Rightarrow> u64 option" where
  "closest_spawn_in_range spawns x y max_distance =
     fst (fold (closest_step x y) spawns (None, mulF max_distance max_distance))"

definition pickup_max_distance :: fp where "pickup_max_distance = litF 3"

definition pickup_packet :: "'j json_api \<Rightarrow> u32 \<Rightarrow> u32 \<Rightarrow> u64 \<Rightarrow> 'j packet" where
  "pickup_packet J p seq spawn = \<lparr>pk_type = TreasurePickup, pk_payload = jof_object J
     [(''player_id'', jof_u32 J p), (''pickup_seq'', jof_u32 J seq), (''spawn_id'', jof_uint J spawn)],
     pk_version = protocol_version\<rparr>"

definition send_pickup :: "'j json_api \<Rightarrow> frame_input \<Rightarrow> client \<Rightarrow> 'j packet list \<times> client" where
  "send_pickup J i c =
     (let c1 = c\<lparr>ct_pickup_down := fi_pickup i\<rparr> in
      if fi_pickup i \<and> \<not> ct_pickup_down c \<and> in_session c then
        (let predicted = pr_state (ct_reconciler c) in
         case closest_spawn_in_range (ct_spawns c) (pm_position_x predicted) (pm_position_y predicted) pickup_max_distance of
           None \<Rightarrow> ([], c1)
         | Some spawn \<Rightarrow> ([pickup_packet J (ct_player c) (ct_next_pickup c) spawn],
             c1\<lparr>ct_next_pickup := ct_next_pickup c + 1\<rparr>))
      else ([], c1))"

definition update_title :: "u64 \<Rightarrow> client \<Rightarrow> client" where
  "update_title now c =
     (if in_session c then
        (let title = compose_window_title base_window_title (ct_weapon c) (ct_hud c) in
         if ct_banner c \<noteq> [] \<and> now < ct_banner_until c
         then c\<lparr>ct_title := title @ '' | Event '' @ ct_banner c\<rparr>
         else if ct_banner c \<noteq> [] then c\<lparr>ct_banner := [], ct_banner_until := 0, ct_title := title\<rparr>
         else c\<lparr>ct_title := title\<rparr>)
      else if ct_connected c then c\<lparr>ct_title := base_window_title @ '' | awaiting join''\<rparr>
      else c\<lparr>ct_title := base_window_title\<rparr>)"

text \<open>
  A frame: an exception, no end, or the packets it sends and the new state. The escape key asks to quit and
  skips the rest.
\<close>

definition client_frame :: "'j json_api \<Rightarrow> u64 \<Rightarrow> net_event list \<Rightarrow> frame_input \<Rightarrow> client \<Rightarrow>
    (json_error + 'j packet list \<times> client) option" where
  "client_frame J now evs i c =
     (if fi_escape i then Some (Inr ([], c\<lparr>ct_quit := True\<rparr>)) else
      case on_events J now evs c of
        Inl e \<Rightarrow> Some (Inl e)
      | Inr (out1, c1) \<Rightarrow>
          (case send_heartbeat J now c1 of (out2, c2) \<Rightarrow>
           case send_inputs J i c2 of None \<Rightarrow> None
           | Some (out3, c3) \<Rightarrow>
               (case send_shot J now i c3 of (out4, c4) \<Rightarrow>
                case send_pickup J i c4 of (out5, c5) \<Rightarrow>
                  Some (Inr (out1 @ out2 @ out3 @ out4 @ out5, update_title now c5)))))"

section \<open>The inputs of a frame\<close>

definition numbered_inputs :: "'j json_api \<Rightarrow> frame_input \<Rightarrow> u32 \<Rightarrow> u32 \<Rightarrow> nat \<Rightarrow> 'j packet list" where
  "numbered_inputs J i p seq n = List.map (\<lambda>k. input_packet J p (seq + of_nat k) i) [0..<n]"

lemma numbered_inputs_Suc:
  "numbered_inputs J i p seq (Suc n) = input_packet J p seq i # numbered_inputs J i p (seq + 1) n"
proof -
  have "[0..<Suc n] = 0 # List.map Suc [0..<n]" by (simp add: map_Suc_upt upt_conv_Cons del: upt_Suc)
  then show ?thesis by (simp add: numbered_inputs_def ac_simps del: upt_Suc)
qed

text \<open>The loop changes nothing of the client but its prediction and its clock.\<close>

definition same_but_inputs :: "client \<Rightarrow> client \<Rightarrow> bool" where
  "same_but_inputs c c' \<longleftrightarrow> c' = c\<lparr>ct_reconciler := ct_reconciler c', ct_accumulator := ct_accumulator c'\<rparr>"

definition inputs_sent :: "'j json_api \<Rightarrow> frame_input \<Rightarrow> 'j packet list \<Rightarrow> client \<Rightarrow> 'j packet list \<times> client \<Rightarrow> bool" where
  "inputs_sent J i out c = (\<lambda>(out', c'). \<exists>n.
     out' = out @ numbered_inputs J i (ct_player c) (pr_next_input_seq (ct_reconciler c)) n
     \<and> pr_next_input_seq (ct_reconciler c') = pr_next_input_seq (ct_reconciler c) + of_nat n
     \<and> \<not> fp_le fixed_dt_seconds (ct_accumulator c') \<and> same_but_inputs c c')"

lemma inputs_sent_none: "\<not> fp_le fixed_dt_seconds (ct_accumulator c) \<Longrightarrow> inputs_sent J i out c (out, c)"
  by (auto simp: inputs_sent_def same_but_inputs_def numbered_inputs_def intro!: exI [of _ 0])

lemma inputs_sent_one:
  assumes "pr_next_input_seq r = pr_next_input_seq (ct_reconciler c) + 1"
    and "inputs_sent J i (out @ [input_packet J (ct_player c) (pr_next_input_seq (ct_reconciler c)) i])
      (c\<lparr>ct_reconciler := r, ct_accumulator := a\<rparr>) res"
  shows "inputs_sent J i out c res"
proof -
  obtain out' c' where res: "res = (out', c')" by (cases res)
  then obtain n where "out' = out @ input_packet J (ct_player c) (pr_next_input_seq (ct_reconciler c)) i
        # numbered_inputs J i (ct_player c) (pr_next_input_seq r) n"
    and "pr_next_input_seq (ct_reconciler c') = pr_next_input_seq r + of_nat n"
    and "\<not> fp_le fixed_dt_seconds (ct_accumulator c')" and "same_but_inputs (c\<lparr>ct_reconciler := r, ct_accumulator := a\<rparr>) c'"
    using assms(2) by (auto simp: inputs_sent_def)
  then show ?thesis
    by (auto simp: inputs_sent_def res assms(1) same_but_inputs_def numbered_inputs_Suc add.assoc intro!: exI [of _ "Suc n"])
qed

lemma inputs_due: "due_inputs J i out c = Some res \<Longrightarrow> inputs_sent J i out c res"
proof (rule due_inputs.raw_induct [where P = inputs_sent])
  fix f :: "'j json_api \<Rightarrow> frame_input \<Rightarrow> 'j packet list \<Rightarrow> client \<Rightarrow> ('j packet list \<times> client) option"
    and J i out c res
  assume IH: "\<And>J i out c res. f J i out c = Some res \<Longrightarrow> inputs_sent J i out c res"
    and eq: "(if fp_le fixed_dt_seconds (ct_accumulator c)
       then case queue_local_input (fi_move_x i) (fi_move_y i) (fi_jump i) (fi_sprint i) (fi_crouch i) False fixed_dt_ns
           (ct_reconciler c) of (seq, r) \<Rightarrow>
         f J i (out @ [input_packet J (ct_player c) seq i])
           (c\<lparr>ct_reconciler := r, ct_accumulator := subF (ct_accumulator c) fixed_dt_seconds\<rparr>)
       else Some (out, c)) = Some res"
  show "inputs_sent J i out c res"
  proof (cases "fp_le fixed_dt_seconds (ct_accumulator c)")
    case True
    then show ?thesis using eq by (auto simp: queue_local_input_def Let_def dest!: IH intro: inputs_sent_one [rotated])
  next
    case False
    then show ?thesis using eq inputs_sent_none [OF False] by auto
  qed
qed

text \<open>
  The clock of the loop is a \<open>float\<close>. As long as it is below \<open>2 ^ 18\<close> seconds, taking off a step lowers it by
  at least a 64th of a second, whatever the rounding does; beyond, the step may be lost in the rounding.
\<close>

definition step_seconds :: rat where "step_seconds = 8947849 / 536870912"

lemma step_value: "fixed_dt_seconds = Fin step_seconds"
  by code_simp

lemma grid_minus:
  assumes a: "fits Single a" "1 / 64 \<le> a" "a < 2 ^ 18"
  shows "fits Single (a - 1 / 64)"
proof -
  obtain m e where m: "a = of_int m * 2 powi e" "\<bar>m\<bar> \<le> 2 ^ 24" "- 149 \<le> e"
    using fits_scaled [OF a(1)] by auto
  have top: "\<bar>a - 1 / 64\<bar> < 2 powi (emax Single + 1)" using a(2,3) by simp
  have "0 < m" using a(2) m(1) by (metis less_le_trans of_int_0_less_iff pow2_pos zero_less_divide_1_iff
      zero_less_mult_pos2 zero_less_numeral)
  show ?thesis
  proof (cases "e \<le> - 6")
    case True
    define k :: int where "k = 2 ^ nat (- 6 - e)"
    have "(1 / 64 :: rat) = 2 powi (- 6)" by (simp add: power_int_def power_divide)
    also have "\<dots> = 2 powi (- 6 - e) * 2 powi e" by (simp flip: pow2_add)
    also have "(2::rat) powi (- 6 - e) = of_int k" using True by (simp add: k_def power_int_def)
    finally have k: "1 / 64 = of_int k * (2::rat) powi e" .
    have "of_int k * (2::rat) powi e \<le> of_int m * 2 powi e" using a(2) unfolding k [symmetric] m(1) [symmetric] .
    then have "k \<le> m" by simp
    have "a - 1 / 64 = of_int (m - k) * 2 powi e" by (simp add: m(1) k algebra_simps)
    moreover have "\<bar>m - k\<bar> \<le> 2 ^ nat (prec Single)" using \<open>k \<le> m\<close> m(2) zero_le_power [of "2 :: int" "nat (- 6 - e)"] unfolding k_def [symmetric] by simp
    ultimately show ?thesis using m(3) top by (intro fits_scaledI) simp_all
  next
    case False
    define n where "n = m * 2 ^ nat (e + 6)"
    have "(2::rat) powi e = 2 powi ((e + 6) + - 6)" by simp
    also have "\<dots> = 2 powi (e + 6) * 2 powi (- 6)" by (rule pow2_add)
    also have "(2::rat) powi (e + 6) = of_int (2 ^ nat (e + 6))" using False by (simp add: power_int_def)
    also have "(2::rat) powi (- 6) = 1 / 64" by (simp add: power_int_def power_divide)
    finally have n: "a = of_int n / 64" by (simp add: m(1) n_def)
    then have "(of_int n :: rat) < of_int (2 ^ 24)" "(0 :: rat) < of_int n" using a(2,3) by simp_all
    then have "n < 2 ^ 24" "0 < n" by (simp_all only: of_int_less_iff of_int_0_less_iff)
    then have "\<bar>n - 1\<bar> \<le> 2 ^ nat (prec Single)" by simp
    moreover have "a - 1 / 64 = of_int (n - 1) * 2 powi (- 6)" by (simp add: n power_int_def power_divide diff_divide_distrib)
    ultimately show ?thesis using top by (intro fits_scaledI [of _ "n - 1" "- 6"]) simp_all
  qed
qed

lemma clock_step:
  assumes "fits Single a" and "step_seconds \<le> a" and "a < 2 ^ 18"
  obtains b where "subF (Fin a) fixed_dt_seconds = Fin b" and "fits Single b" and "0 \<le> b" and "b \<le> a - 1 / 64"
proof -
  have "1 / 64 \<le> a" using assms(2) by (simp add: step_seconds_def)
  then have "\<exists>b. fp_round Single (a - step_seconds) = Fin b \<and> 0 \<le> b \<and> b \<le> a - 1 / 64"
    using assms by (intro round_between grid_minus) (simp_all add: step_seconds_def)
  then show ?thesis using that round_result_fits by (auto simp: step_value fp_sub_def)
qed

definition clock_below :: "rat \<Rightarrow> client \<Rightarrow> bool" where
  "clock_below limit c \<longleftrightarrow> (case ct_accumulator c of Fin a \<Rightarrow> fits Single a \<and> 0 \<le> a \<and> a < limit | _ \<Rightarrow> False)"

lemma clock_belowE:
  assumes "clock_below limit c"
  obtains a where "ct_accumulator c = Fin a" and "fits Single a" and "0 \<le> a" and "a < limit"
  using assms by (auto simp: clock_below_def split: fp.splits)

lemma due_inputs_return:
  assumes "clock_below (2 ^ 18) c"
  shows "\<exists>res. due_inputs J i out c = Some res \<and> clock_below step_seconds (snd res)"
proof -
  have "\<exists>res. due_inputs J i out c = Some res \<and> clock_below step_seconds (snd res)"
    if "clock_below (2 ^ 18) c" "clock_below (of_nat n / 64) c" for n out c
    using that
  proof (induction n arbitrary: out c)
    case 0
    then show ?case by (auto elim: clock_belowE)
  next
    case (Suc n)
    obtain a where a: "ct_accumulator c = Fin a" "fits Single a" "0 \<le> a" "a < 2 ^ 18"
      using Suc.prems(1) by (rule clock_belowE)
    have n: "a < of_nat (Suc n) / 64" using Suc.prems(2) a(1) by (simp add: clock_below_def)
    show ?case
    proof (cases "step_seconds \<le> a")
      case True
      obtain b where b: "subF (Fin a) fixed_dt_seconds = Fin b" "fits Single b" "0 \<le> b" "b \<le> a - 1 / 64"
        by (rule clock_step [OF a(2) True a(4)])
      have "fp_le fixed_dt_seconds (ct_accumulator c)" using True by (simp add: step_value a(1) fp_le_def less_le)
      moreover obtain seq r where "queue_local_input (fi_move_x i) (fi_move_y i) (fi_jump i) (fi_sprint i) (fi_crouch i) False
          fixed_dt_ns (ct_reconciler c) = (seq, r)" by (metis surj_pair)
      ultimately have "due_inputs J i out c = due_inputs J i (out @ [input_packet J (ct_player c) seq i])
          (c\<lparr>ct_reconciler := r, ct_accumulator := Fin b\<rparr>)"
        by (subst due_inputs.simps) (simp add: a(1) b(1))
      moreover have "clock_below (2 ^ 18) (c\<lparr>ct_reconciler := r, ct_accumulator := Fin b\<rparr>)"
        and "clock_below (of_nat n / 64) (c\<lparr>ct_reconciler := r, ct_accumulator := Fin b\<rparr>)"
        using b a(4) n by (simp_all add: clock_below_def field_simps)
      ultimately show ?thesis using Suc.IH by simp
    next
      case False
      then have "due_inputs J i out c = Some (out, c)"
        by (subst due_inputs.simps) (simp add: step_value a(1) fp_le_def less_le)
      then show ?thesis using False a by (simp add: clock_below_def)
    qed
  qed
  from this [of c "2 ^ 24" out] assms show ?thesis by simp
qed

lemma clock_advances:
  assumes "clock_below step_seconds c" and "sendable dt" and "fp_le (Fin 0) dt" and "fp_le dt (Fin (2 ^ 17))"
  shows "clock_below (2 ^ 18) (c\<lparr>ct_accumulator := addF (ct_accumulator c) dt\<rparr>)"
proof -
  obtain a where a: "ct_accumulator c = Fin a" "0 \<le> a" "a < step_seconds" using assms(1) by (rule clock_belowE)
  obtain d where d: "dt = Fin d" "0 \<le> d" "d \<le> 2 ^ 17" using assms(2-4) by (cases dt) (auto simp: fp_le_def)
  have "fits Single (2 ^ 17 + 1)" using fits_of_int [of "2 ^ 17 + 1" Single] by simp
  then have "\<exists>r. fp_round Single (a + d) = Fin r \<and> 0 \<le> r \<and> r \<le> 2 ^ 17 + 1"
    using a d by (intro round_between) (simp_all add: step_seconds_def)
  then show ?thesis using round_result_fits by (auto simp: a(1) d(1) clock_below_def)
qed

text \<open>What happens in a frame besides does not touch the clock.\<close>

lemma banner_clock [simp]: "ct_accumulator (push_banner now s c) = ct_accumulator c"
  by (simp add: push_banner_def)

lemma show_clock: "show_line now r c = Inr c' \<Longrightarrow> ct_accumulator c' = ct_accumulator c"
  by (auto simp: show_line_def split: prod.splits sum.splits option.splits)

lemma packet_clock: "on_packet J now pkt c = Inr c' \<Longrightarrow> ct_accumulator c' = ct_accumulator c"
proof -
  have banners: "ct_accumulator (fold (push_banner now) ms k) = ct_accumulator k" for ms k
    by (rule fold_unchanged) simp
  assume "on_packet J now pkt c = Inr c'"
  then show ?thesis
    by (cases "pk_type pkt")
      (auto simp: on_packet_def on_join_accept_def on_snapshot_def on_inventory_update_def on_damage_event_def
        on_match_state_def joined_as_def banners Let_def returns_iff
        dest: show_clock split: if_splits sum.splits prod.splits option.splits)
qed

lemma events_clock: "on_events J now evs c = Inr (out, c') \<Longrightarrow> ct_accumulator c' = ct_accumulator c"
proof (induction evs arbitrary: c out)
  case (Cons ev evs)
  then show ?case
    by (cases ev) (auto simp: on_event_def on_connect_def on_disconnect_def on_receive_def Let_def returns_iff
        dest: packet_clock split: if_splits)
qed simp

lemma other_clocks:
  "ct_accumulator (snd (send_heartbeat J now c)) = ct_accumulator c"
  "ct_accumulator (snd (send_shot J now i c)) = ct_accumulator c"
  "ct_accumulator (snd (send_pickup J i c)) = ct_accumulator c"
  "ct_accumulator (update_title now c) = ct_accumulator c"
  by (simp_all add: send_heartbeat_def send_shot_def send_pickup_def update_title_def Let_def split: prod.split option.split)

definition short_frame :: "frame_input \<Rightarrow> bool" where
  "short_frame i \<longleftrightarrow> sendable (fi_dt i) \<and> fp_le (Fin 0) (fi_dt i) \<and> fp_le (fi_dt i) (Fin (2 ^ 17))"

lemma frame_ends:
  assumes "clock_below step_seconds c" and "short_frame i"
  obtains e where "client_frame J now evs i c = Some (Inl e)"
    | out c' where "client_frame J now evs i c = Some (Inr (out, c'))" and "clock_below step_seconds c'"
proof (cases "on_events J now evs c")
  case (Inl e)
  then show ?thesis
    using assms(1) that(2) [of "[]" "c\<lparr>ct_quit := True\<rparr>"]
    by (cases "fi_escape i") (auto intro: that(1) simp: client_frame_def clock_below_def)
next
  case (Inr r)
  obtain out1 c1 where r: "r = (out1, c1)" by (cases r)
  obtain out2 c2 where c2: "send_heartbeat J now c1 = (out2, c2)" by (cases "send_heartbeat J now c1")
  have clock: "clock_below step_seconds c2"
    using assms(1) events_clock [of J now evs c out1 c1] other_clocks(1) [of J now c1] Inr r c2
    by (simp add: clock_below_def)
  have "\<exists>res. send_inputs J i c2 = Some res \<and> clock_below step_seconds (snd res)"
    using clock due_inputs_return [OF clock_advances [OF clock, of "fi_dt i"], of J i "[]"] assms(2) by (simp add: send_inputs_def short_frame_def)
  then obtain out3 c3 where c3: "send_inputs J i c2 = Some (out3, c3)" "clock_below step_seconds c3" by auto
  obtain out4 c4 where c4: "send_shot J now i c3 = (out4, c4)" by (cases "send_shot J now i c3")
  obtain out5 c5 where c5: "send_pickup J i c4 = (out5, c5)" by (cases "send_pickup J i c4")
  have "clock_below step_seconds (update_title now c5)"
    using c3(2) other_clocks(2) [of J now i c3] other_clocks(3) [of J i c4] other_clocks(4) [of now c5] c4 c5
    by (simp add: clock_below_def)
  moreover have "clock_below step_seconds (c\<lparr>ct_quit := True\<rparr>)" using assms(1) by (simp add: clock_below_def)
  ultimately show ?thesis
    using Inr r c2 c3(1) c4 c5 by (cases "fi_escape i") (auto intro: that(2) simp: client_frame_def)
qed

text \<open>
  The frames of the application's loop (engine/src/Application.cpp). A request to quit is read at the start
  of the next frame, which still runs.
\<close>

fun client_run :: "'j json_api \<Rightarrow> (u64 \<times> net_event list \<times> frame_input) list \<Rightarrow> client
    \<Rightarrow> (json_error + 'j packet list \<times> client) option" where
  "client_run J [] c = Some (Inr ([], c))"
| "client_run J ((now, evs, i) # fs) c =
     (case client_frame J now evs i c of
        None \<Rightarrow> None
      | Some (Inl e) \<Rightarrow> Some (Inl e)
      | Some (Inr (out, c1)) \<Rightarrow>
          map_option (\<lambda>r. and_then r (\<lambda>(out', c2). Inr (out @ out', c2))) 
            (if ct_quit c then Some (Inr ([], c1)) else client_run J fs c1))"

lemma run_ends:
  "list_all (\<lambda>(now, evs, i). short_frame i) fs \<Longrightarrow> clock_below step_seconds c \<Longrightarrow> client_run J fs c \<noteq> None"
proof (induction fs arbitrary: c)
  case (Cons frame fs)
  obtain now evs i where frame: "frame = (now, evs, i)" by (metis prod_cases3)
  with Cons.prems have "short_frame i" by simp
  from Cons.prems(2) this show ?case
    by (rule frame_ends [of c i J now evs]) (use Cons.IH Cons.prems(1) in \<open>auto simp: frame\<close>)
qed simp

section \<open>A concrete client\<close>

definition demo_client_values :: client_values where
  "demo_client_values = \<lparr>clv_host = ''127.0.0.1'', clv_port = 7777,
     clv_connection = \<lparr>nv_auto_discovery = False, nv_port_file = []\<rparr>, clv_world_height = 256, clv_draw_distance = 8,
     clv_profile = default_profile, clv_heartbeat_ms = 10000, clv_tuning = default_tuning, clv_sensitivity = litF (1 / 10),
     clv_base_fov = litF 70, clv_sprint_fov = litF 8, clv_height_smoothing = litF 10\<rparr>"

definition demo_client :: client where
  "demo_client = client_init demo_client_values []"

definition idle_input :: frame_input where
  "idle_input = \<lparr>fi_dt = Fin (1 / 64), fi_move_x = Fin 0, fi_move_y = Fin 0, fi_jump = False, fi_sprint = False,
     fi_crouch = False, fi_view_x = Fin 1, fi_view_z = Fin 0, fi_fire = False, fi_pickup = False, fi_escape = False\<rparr>"

definition connected_frames :: "(u64 \<times> net_event list \<times> frame_input) list" where
  "connected_frames = [(5, [Net_Connect], idle_input)]"

lemma connected: "map_option (map_sum id fst) (client_run text_json connected_frames demo_client) =
    Some (Inr [join_request_packet text_json])"
  by (simp add: connected_frames_def demo_client_def client_init_def client_frame_def idle_input_def on_event_def
      on_connect_def send_heartbeat_def send_inputs_def send_shot_def send_pickup_def in_session_def Let_def)

text \<open>C36: However long the client runs, every frame comes to its end: its loop over the inputs that are due
  returns, whatever the server sends, as long as no single frame takes longer than \<open>2 ^ 17\<close> seconds.\<close>

theorem client_frames_end:
  assumes "list_all (\<lambda>(now, evs, i). short_frame i) fs"
  shows "client_run J fs (client_init v ws) \<noteq> None"
proof -
  have "clock_below step_seconds (client_init v ws)"
    by (simp add: client_init_def clock_below_def step_seconds_def)
  with assms show ?thesis by (rule run_ends)
qed

theorem client_frames_end_witness: "client_run text_json connected_frames demo_client \<noteq> None"
proof -
  have "list_all (\<lambda>(now, evs, i). short_frame i) connected_frames"
    by (simp add: connected_frames_def) code_simp
  then show ?thesis unfolding demo_client_def by (rule client_frames_end)
qed

text \<open>Without the bound it can hang: a step does not change a clock of \<open>2 ^ 20\<close> seconds.\<close>

lemma long_pause_hangs:
  assumes "ct_accumulator c = Fin (2 ^ 20)"
  shows "due_inputs J i out c = None"
proof (rule ccontr)
  assume "due_inputs J i out c \<noteq> None"
  then obtain res where res: "due_inputs J i out c = Some res" by auto
  have lost: "subF (Fin (2 ^ 20)) fixed_dt_seconds = Fin (2 ^ 20)" "fp_le fixed_dt_seconds (Fin (2 ^ 20))"
    by code_simp+
  have "ct_accumulator c \<noteq> Fin (2 ^ 20)"
  proof (rule due_inputs.raw_induct [where P = "\<lambda>J i out c r. ct_accumulator c \<noteq> Fin (2 ^ 20)", OF _ res])
    fix f :: "'a json_api \<Rightarrow> frame_input \<Rightarrow> 'a packet list \<Rightarrow> client \<Rightarrow> ('a packet list \<times> client) option"
      and J i out c r
    assume IH: "\<And>J i out c r. f J i out c = Some r \<Longrightarrow> ct_accumulator c \<noteq> Fin (2 ^ 20)"
      and eq: "(if fp_le fixed_dt_seconds (ct_accumulator c)
         then case queue_local_input (fi_move_x i) (fi_move_y i) (fi_jump i) (fi_sprint i) (fi_crouch i) False fixed_dt_ns
             (ct_reconciler c) of (seq, r) \<Rightarrow>
           f J i (out @ [input_packet J (ct_player c) seq i])
             (c\<lparr>ct_reconciler := r, ct_accumulator := subF (ct_accumulator c) fixed_dt_seconds\<rparr>)
         else Some (out, c)) = Some r"
    show "ct_accumulator c \<noteq> Fin (2 ^ 20)"
    proof
      assume at: "ct_accumulator c = Fin (2 ^ 20)"
      then show False using eq lost by (auto dest!: IH split: prod.splits)
    qed
  qed
  with assms show False by simp
qed

section \<open>What the client sends\<close>

context json_library
begin

lemma client_packets_valid:
  "packet_valid J (join_request_packet J)"
  "packet_valid J (heartbeat_packet J now p)"
  "packet_valid J (input_packet J p seq i)"
  "packet_valid J (pickup_packet J p seq spawn)"
  unfolding join_request_packet_def heartbeat_packet_def input_packet_def pickup_packet_def
  by (rule object_valid [where s = "\<lparr>ms_type = JoinRequest, ms_name = ''join_request'', ms_fields = join_request_fields\<rparr>"]
      object_valid [where s = "\<lparr>ms_type = Heartbeat, ms_name = ''heartbeat'', ms_fields = heartbeat_fields\<rparr>"]
      object_valid [where s = "\<lparr>ms_type = PlayerInput, ms_name = ''player_input'', ms_fields = player_input_fields\<rparr>"]
      object_valid [where s = "\<lparr>ms_type = TreasurePickup, ms_name = ''treasure_pickup'', ms_fields = treasure_pickup_fields\<rparr>"];
      simp add: valid_simps join_request_fields_def heartbeat_fields_def player_input_fields_def
        treasure_pickup_fields_def jof_single_def; fail)+

lemma events_valid: "on_events J now evs c = Inr (out, c') \<Longrightarrow> list_all (packet_valid J) out"
proof (induction evs arbitrary: c out)
  case (Cons ev evs)
  obtain out1 c1 out2 where ev: "on_event J now ev c = Inr (out1, c1)" and rest: "on_events J now evs c1 = Inr (out2, c')"
    and out: "out = out1 @ out2"
    using Cons.prems by (auto simp: returns_iff)
  have "list_all (packet_valid J) out1"
    using ev client_packets_valid(1) by (cases ev) (auto simp: on_event_def on_connect_def returns_iff)
  with Cons.IH [OF rest] show ?case by (simp add: out)
qed simp

lemma heartbeats_valid: "list_all (packet_valid J) (fst (send_heartbeat J now c))"
  by (simp add: send_heartbeat_def client_packets_valid)

lemma inputs_valid: "send_inputs J i c = Some (out, c') \<Longrightarrow> list_all (packet_valid J) out"
  by (auto simp: send_inputs_def inputs_sent_def numbered_inputs_def list_all_iff client_packets_valid
      dest!: inputs_due split: if_splits)

lemma shot_sent_valid: "list_all (packet_valid J) (fst (send_shot J now i c))"
  using shot_valid by (auto simp: send_shot_def Let_def case_prod_beta)

lemma pickup_sent_valid: "list_all (packet_valid J) (fst (send_pickup J i c))"
  by (simp add: send_pickup_def client_packets_valid Let_def split: option.split)

lemma frame_valid:
  assumes "client_frame J now evs i c = Some (Inr (out, c'))"
  shows "list_all (packet_valid J) out"
proof (cases "fi_escape i")
  case False
  obtain out1 c1 where c1: "on_events J now evs c = Inr (out1, c1)"
    using assms False by (cases "on_events J now evs c") (auto simp: client_frame_def)
  obtain out2 c2 where c2: "send_heartbeat J now c1 = (out2, c2)" by (cases "send_heartbeat J now c1")
  obtain out3 c3 where c3: "send_inputs J i c2 = Some (out3, c3)"
    using assms False c1 c2 by (cases "send_inputs J i c2") (auto simp: client_frame_def)
  obtain out4 c4 where c4: "send_shot J now i c3 = (out4, c4)" by (cases "send_shot J now i c3")
  obtain out5 c5 where c5: "send_pickup J i c4 = (out5, c5)" by (cases "send_pickup J i c4")
  have "out = out1 @ out2 @ out3 @ out4 @ out5" using assms False c1 c2 c3 c4 c5 by (simp add: client_frame_def)
  then show ?thesis
    using events_valid [OF c1] heartbeats_valid [of now c1] inputs_valid [OF c3] shot_sent_valid [of now i c3]
      pickup_sent_valid [of i c4] c2 c4 c5 by simp
qed (use assms in \<open>simp add: client_frame_def\<close>)

lemma run_valid: "client_run J fs c = Some (Inr (out, c')) \<Longrightarrow> list_all (packet_valid J) out"
proof (induction fs arbitrary: c out)
  case (Cons frame fs)
  obtain now evs i where frame: "frame = (now, evs, i)" by (metis prod_cases3)
  then obtain out1 c1 out2 where f: "client_frame J now evs i c = Some (Inr (out1, c1))"
    and rest: "(if ct_quit c then Some (Inr ([], c1)) else client_run J fs c1) = Some (Inr (out2, c'))"
    and out: "out = out1 @ out2"
    using Cons.prems by (auto simp: returns_iff split: option.splits sum.splits prod.splits if_split_asm)
  have "list_all (packet_valid J) out2" using rest Cons.IH [of c1 out2] by (cases "ct_quit c") auto
  with frame_valid [OF f] show ?case by (simp add: out)
qed simp

end

text \<open>Every packet the client ever sends conforms to the protocol, whatever it received before: with a
  supported version, a known type and every required field of the right JSON type. The server's parser
  accepts it.\<close>

theorem client_sends_valid_packets:
  assumes "json_library J textual" and "client_run J fs (client_init v ws) = Some (Inr (out, c'))"
  shows "list_all (packet_valid J) out"
  by (rule json_library.run_valid [OF assms])

theorem client_sends_valid_packets_witness:
  "map_option (map_sum id fst) (client_run text_json connected_frames demo_client) = Some (Inr [join_request_packet text_json])
    \<and> packet_valid text_json (join_request_packet text_json)"
proof -
  obtain r where r: "client_run text_json connected_frames demo_client = Some r" "map_sum id fst r = Inr [join_request_packet text_json]"
    using connected by auto
  then obtain c' where "client_run text_json connected_frames demo_client = Some (Inr ([join_request_packet text_json], c'))"
    by (cases r) auto
  then have "list_all (packet_valid text_json) [join_request_packet text_json]"
    unfolding demo_client_def by (rule client_sends_valid_packets [OF text_json_library])
  with connected show ?thesis by simp
qed

end
