(* ===== verification/Client_Server.thy ===== *)
theory Client_Server
  imports Client_Program Server_Output
begin

text \<open>
  The client program against the server (client/src/main.cpp with server/src/main.cpp): the two sides agree
  on the outcome of a join, no packet that the server sends makes the client throw, and both read the same
  game from the same file.
\<close>

section \<open>Joining\<close>

lemma accepted_session:
  assumes "handle_join_request t n now sm = (r, sm')" and "join_accepted r"
  shows "session_for_peer sm' t = Some (join_result_session r)"
  using assms(1)
proof (cases rule: join_request_cases)
  case (reconnected k)
  then show ?thesis using admit_fields [OF reconnected(5)] by (simp add: session_for_peer_def find_put)
next
  case (accepted k)
  then show ?thesis using admit_fields [OF accepted(5)] by (simp add: session_for_peer_def find_put)
qed (use assms(2) in \<open>simp_all add: reject_def join_accepted_def session_for_peer_def find_put\<close>)

context json_library
begin

lemmas reads = at_object contains_object types gets get_string_def get_bool_def json_types u32_back

lemma value_object:
  "distinct (List.map fst kvs) \<Longrightarrow> map_of kvs key = Some v \<Longrightarrow> get_or J get (jof_object J kvs) key d = get v"
  by (simp add: get_or_def object_get)

lemma accept_read:
  assumes "expansion_typed (gp_expansion g)"
  shows "on_packet J t (join_accept_packet J limit (profile_to_json J g) r) c =
    Inr (let k = joined_as J t (sess_player_id (join_result_session r)) (jnull J) c in
      k\<lparr>ct_view := \<lparr>cv_world = world_clear (set_generation_profile (sanitize_profile g) (cv_world (ct_view c))),
        cv_revisions = [], cv_profile = sanitize_profile g\<rparr>\<rparr>)"
  by (simp add: on_packet_def on_join_accept_def join_accept_packet_def join_common_def value_object reads joined_as_def
      client_join_def profile_back [OF assms] sanitize_idem Let_def)

lemma reject_read: "on_packet J t (join_reject_packet J limit world_gen r) c = Inr (c\<lparr>ct_quit := True\<rparr>)"
  by (simp add: on_packet_def on_join_accept_def join_reject_packet_def join_common_def value_object reads)

lemma request_handled:
  "handle_message J token now (join_request_packet J) s = handle_join J token now (pk_payload (join_request_packet J)) s"
  "jstring J (at_key J (pk_payload (join_request_packet J)) ''player_name'') = ''player_local''"
  by (simp_all add: handle_message_def join_request_packet_def reads Let_def)

end

definition local_session :: session_record where
  "local_session = \<lparr>sess_player_id = 1, sess_player_name = ''player_local'', sess_peer_token = 7, sess_last_heartbeat = 0\<rparr>"

definition local_server :: "json_value server" where
  "local_server = fst (handle_message text_json 7 0 (join_request_packet text_json) empty_server)"

lemma local_joins:
  "handle_join_request 7 ''player_local'' 0 (session_manager_init \<lparr>max_players = 2, heartbeat_timeout = 3\<rparr>) =
     (\<lparr>join_result_status = JoinAccepted, join_result_error = JoinErrorNone, join_result_session = local_session\<rparr>,
      \<lparr>sm_config = \<lparr>max_players = 2, heartbeat_timeout = 3\<rparr>, slot_owners = [0, 7, 0],
       sessions_by_peer = [(7, local_session)], slot_by_player_name = [(''player_local'', 1)]\<rparr>)"
  by code_simp

lemma local_answered:
  "fst (snd (handle_message text_json 7 0 (join_request_packet text_json) empty_server)) = False"
  "session_for_peer (gs_sessions local_server) 7 = Some local_session"
  "session_for_peer (gs_sessions local_server) 8 = None"
  "sessions_inv (gs_sessions local_server)"
proof -
  have start: "gs_sessions empty_server = session_manager_init \<lparr>max_players = 2, heartbeat_timeout = 3\<rparr>"
    by (simp add: empty_server_def server_init_def demo_server_config_def)
  note answer = json_library.request_handled [OF text_json_library] handle_join_def start local_joins join_accepted_def Let_def
  show "fst (snd (handle_message text_json 7 0 (join_request_packet text_json) empty_server)) = False"
    "session_for_peer (gs_sessions local_server) 7 = Some local_session"
    "session_for_peer (gs_sessions local_server) 8 = None"
    by (simp_all add: local_server_def answer session_for_peer_def)
  have "gs_sessions local_server =
      snd (handle_join_request 7 ''player_local'' 0 (session_manager_init \<lparr>max_players = 2, heartbeat_timeout = 3\<rparr>))"
    by (simp add: local_server_def answer)
  then show "sessions_inv (gs_sessions local_server)" by (simp add: sessions_inv_join sessions_inv_init)
qed

text \<open>C12: A client that asks to join and a server that answers agree on the outcome. Either the server has a session
  for the client's peer, and the client that reads the answer has joined as the player of this session,
  with the world profile of the server and no chunks; or the server refuses, disconnects the peer, and
  the client leaves.\<close>

theorem join_handshake:
  assumes "json_library J textual" and "expansion_typed (gp_expansion (gc_profile (gs_settings s)))"
    and "handle_message J token now (join_request_packet J) s = (s', refused, out)"
  shows "(\<not> refused \<and> (\<exists>accept phase session k. out = [Send token accept, Send token phase]
        \<and> session_for_peer (gs_sessions s') token = Some session
        \<and> on_packet J t accept c = Inr k \<and> ct_joined k \<and> ct_player k = sess_player_id session
        \<and> cv_profile (ct_view k) = sanitize_profile (gc_profile (gs_settings s)) \<and> cv_revisions (ct_view k) = []))
    \<or> (refused \<and> (\<exists>refusal. out = [Send token refusal, Kick token]
        \<and> on_packet J t refusal c = Inr (c\<lparr>ct_quit := True\<rparr>)))"
proof -
  obtain r sm where r: "handle_join_request token ''player_local'' now (gs_sessions s) = (r, sm)" by fastforce
  note handled = assms(3) [unfolded json_library.request_handled(1) [OF assms(1)] handle_join_def
      json_library.request_handled(2) [OF assms(1)] r Let_def prod.case]
  show ?thesis
  proof (cases "join_accepted r")
    case True
    with handled accepted_session [OF r True] show ?thesis
      by (auto simp: json_library.accept_read [OF assms(1,2)] joined_as_def Let_def)
  next
    case False
    with handled show ?thesis by (auto simp: json_library.reject_read [OF assms(1)])
  qed
qed

theorem join_handshake_witness:
  "\<exists>accept phase k. snd (snd (handle_message text_json 7 0 (join_request_packet text_json) empty_server)) =
       [Send 7 accept, Send 7 phase]
     \<and> on_packet text_json 5 accept demo_client = Inr k \<and> ct_joined k \<and> ct_player k = 1"
proof -
  have "\<forall>q. litF (5 / 4) = Fin q \<longrightarrow> fits Single q" by (metis default_multiplier fits_multiplier fp.inject)
  then have typed: "expansion_typed (gp_expansion (gc_profile (gs_settings empty_server)))"
    by (simp add: empty_server_def server_init_def demo_server_config_def demo_settings_def expansion_typed_def
        default_profile_def default_expansion_def in_i32_def)
  obtain out where out: "handle_message text_json 7 0 (join_request_packet text_json) empty_server = (local_server, False, out)"
    using local_answered(1) by (metis local_server_def prod.collapse)
  from join_handshake [OF text_json_library typed out, of 5 demo_client] show ?thesis
    by (auto simp: out local_answered(2) local_session_def)
qed

lemma taken_name_rejected:
  assumes inv: "sessions_inv sm" and s: "session_for_peer sm first = Some session"
    and name: "sess_player_name session = n" and new: "session_for_peer sm token = None"
  shows "handle_join_request token n now sm = (reject NameInUse, sm)"
proof -
  have "session_ok sm first session"
    using inv s unfolding sessions_inv_def session_for_peer_def by blast
  then have "is_valid_player_name n" "umap_find (slot_by_player_name sm) n = Some (sess_player_id session)"
    "\<not> slot_is_free sm (sess_player_id session)"
    by (auto simp: session_ok_def slot_is_free_def name)
  then show ?thesis using new by (simp add: handle_join_request_def session_for_peer_def)
qed

text \<open>Every interactive client asks for the same name. So while one of them plays, the server refuses every
  other one, whatever its limit of players is.\<close>

theorem second_client_refused:
  assumes "json_library J textual" and "sessions_inv (gs_sessions s)"
    and "session_for_peer (gs_sessions s) first = Some session" and "sess_player_name session = ''player_local''"
    and "session_for_peer (gs_sessions s) token = None"
  shows "\<exists>refusal. handle_message J token now (join_request_packet J) s = (s, True, [Send token refusal, Kick token])
    \<and> on_packet J t refusal c = Inr (c\<lparr>ct_quit := True\<rparr>)"
proof -
  have "handle_message J token now (join_request_packet J) s = (s, True,
      [Send token (join_reject_packet J (gc_max_players (gs_settings s))
         (profile_to_json J (gc_profile (gs_settings s))) (reject NameInUse)), Kick token])"
    by (simp add: json_library.request_handled [OF assms(1)] handle_join_def Let_def
        taken_name_rejected [OF assms(2,3,4,5)] reject_def join_accepted_def)
  then show ?thesis by (simp add: json_library.reject_read [OF assms(1)])
qed

theorem second_client_refused_witness:
  "gc_max_players (gs_settings empty_server) = 2
    \<and> (\<exists>refusal. handle_message text_json 8 1 (join_request_packet text_json) local_server =
         (local_server, True, [Send 8 refusal, Kick 8])
       \<and> on_packet text_json 5 refusal demo_client = Inr (demo_client\<lparr>ct_quit := True\<rparr>))"
proof -
  have "sess_player_name local_session = ''player_local''" by (simp add: local_session_def)
  note second_client_refused [OF text_json_library local_answered(4,2) this local_answered(3), of 1 5 demo_client]
  then show ?thesis by (simp add: empty_server_def server_init_def demo_server_config_def demo_settings_def)
qed

section \<open>What the server sends can be read\<close>

definition event_array :: "'j json_api \<Rightarrow> 'j list \<Rightarrow> bool" where
  "event_array J es \<longleftrightarrow> (\<exists>evs. es = List.map (event_json J) evs)"

lemma event_array_Nil [simp]: "event_array J []"
  by (simp add: event_array_def)

lemma event_array_append [simp]: "event_array J (es @ List.map (event_json J) evs) = event_array J es"
proof
  assume "event_array J (es @ List.map (event_json J) evs)"
  then obtain all where "es @ List.map (event_json J) evs = List.map (event_json J) all" by (auto simp: event_array_def)
  then show "event_array J es" by (auto simp: event_array_def append_eq_map_conv)
next
  assume "event_array J es"
  then show "event_array J (es @ List.map (event_json J) evs)" by (auto simp: event_array_def simp flip: map_append)
qed

lemma tick_events_array:
  assumes "event_array J es"
  shows "event_array J (tick_events J tick r es)"
proof -
  define m where "m = tr_match_result r"
  define cr where "cr = tr_combat_result r"
  define lr where "lr = tr_loot_result r"
  have "tick_events J tick r es = es @ List.map (event_json J)
      (List.map (Respawn_Ev tick) (lr_respawned m) @ (if lr_state_changed m then [Phase_Ev tick (lr_state m)] else [])
       @ List.map Damage_Ev (damage_events cr) @ List.map Death_Ev (death_events cr)
       @ List.map (Spawn_Ev tick) (spawned lr) @ List.map (Pickup_Ev tick) (pickup_results lr))"
    by (simp add: tick_events_def append_combat_outputs_def Let_def comp_def m_def cr_def lr_def)
  then show ?thesis by (simp only: event_array_append assms)
qed

lemma events_kept:
  "gs_events (remove_player p s) = gs_events s"
  "gs_events (heartbeat token now s) = gs_events s"
  "simulate_tick frame s = (r, s') \<Longrightarrow> gs_events s' = gs_events s"
  by (simp_all add: remove_player_def heartbeat_def) (auto simp: simulate_tick_def Let_def split: prod.splits)

lemma expired_events: "gs_events (fst (expire_sessions now s)) = gs_events s"
proof -
  have "gs_events (fst (fold expel gone st)) = gs_events (fst st)" for gone and st :: "'a server \<times> 'a server_output list"
    by (rule fold_unchanged) (simp add: expel_def case_prod_beta Let_def events_kept)
  then show ?thesis by (simp add: expire_sessions_def case_prod_beta)
qed

lemma received_events: "gs_events (fst (receive J token now data s)) = gs_events s"
proof -
  have "gs_events (fst (handle_message J token now pkt s)) = gs_events s" for pkt
    by (cases "pk_type pkt")
      (auto simp: handle_message_def handle_join_def handle_heartbeat_message_def handle_player_input_def
        handle_block_update_def handle_weapon_fire_def handle_treasure_pickup_def events_kept Let_def case_prod_beta
        split: option.split)
  then show ?thesis by (simp add: receive_def Let_def)
qed

lemma tick_events_kept: "event_array J (gs_events (fst st)) \<Longrightarrow> event_array J (gs_events (fst (server_tick J frame st)))"
  using events_kept(3) [of frame "fst st", OF prod.collapse [symmetric]]
  by (simp add: server_tick_def tick_snapshots_def Let_def case_prod_beta tick_events_array)

lemma reachable_events: "server_reachable J c start s \<Longrightarrow> event_array J (gs_events s)"
  unfolding server_reachable_def
proof (induction rule: rtranclp_induct)
  case base
  show ?case by (simp add: server_init_def)
next
  case (step s s')
  from step.hyps(2) step.IH show ?case
  proof cases
    case (message token now data rejected out)
    then show ?thesis using received_events [of J token now data s] step.IH by simp
  next
    case (disconnect token)
    then show ?thesis using step.IH
      by (auto simp: peer_disconnected_def events_kept Let_def case_prod_beta split: option.split)
  next
    case (round timeout_now tick_now out)
    then obtain s1 out1 ticks l where s1: "expire_sessions timeout_now s = (s1, out1)"
      and run: "fold (server_tick J) ticks (s1\<lparr>gs_loop := l\<rparr>, out1) = (s', out)"
      by (auto simp: server_round_def split: prod.splits option.splits)
    have "event_array J (gs_events s1)" using expired_events [of timeout_now s] step.IH s1 by simp
    then have "event_array J (gs_events (fst (fold (server_tick J) ticks (s1\<lparr>gs_loop := l\<rparr>, out1))))"
      by (intro fold_preserves [where P = "\<lambda>st. event_array J (gs_events (fst st))"] tick_events_kept) simp_all
    then show ?thesis by (simp add: run)
  qed (simp add: peer_connected_def)
qed

definition readable :: "'j json_api \<Rightarrow> 'j server_output \<Rightarrow> bool" where
  "readable J e \<longleftrightarrow> (case e of Send token pkt \<Rightarrow> \<forall>now c. returns (on_packet J now pkt c) | Kick token \<Rightarrow> True)"

lemma readable_simps [simp]:
  "readable J (Send token pkt) \<longleftrightarrow> (\<forall>now c. returns (on_packet J now pkt c))" "readable J (Kick token)"
  by (simp_all add: readable_def)

lemma show_line_returns: "returns (fst r) \<Longrightarrow> returns (show_line now r c)"
  by (cases r) (auto simp: returns_def show_line_def)

context json_library
begin

lemma numbers_returned [simp]: "returns (get_int J (jof_int J i))" "returns (get_int J (jof_u32 J n))"
  by (simp_all add: get_int_def json_types types u32_types)

lemma event_returns: "returns (fst (consume_snapshot_event J local (event_json J ev) f))"
proof -
  have damage: "returns (fst (consume_damage_event J local (damage_snapshot_event J d) f))" for d
    by (simp add: consume_damage_event_def damage_snapshot_event_def value_object reads Let_def split: option.split)
  show ?thesis
  proof (cases ev)
    case (Damage_Ev d)
    then have "consume_snapshot_event J local (event_json J ev) f =
        consume_damage_event J local (damage_snapshot_event J d) f"
      by (simp add: consume_snapshot_event_def damage_snapshot_event_def reads Let_def)
    with damage show ?thesis by simp
  next
    case (Pickup_Ev tick r)
    obtain coins items where "get_int J (jof_int J (res_total_value r)) = Inr coins"
      and "get_int J (jof_u32 J (res_item_count r)) = Inr items"
      using numbers_returned by (meson returns_def)
    then show ?thesis
      using Pickup_Ev by (simp add: consume_snapshot_event_def pickup_snapshot_event_def value_object reads
        pickup_status_message_def Let_def)
  qed (simp_all add: consume_snapshot_event_def death_snapshot_event_def respawn_event_def match_state_changed_event_def
        spawn_snapshot_event_def value_object reads consume_reliable_match_state_def Let_def split: option.split)
qed

lemma array_returns: "returns (fst (consume_events J local (List.map (event_json J) evs) f))"
proof (induction evs arbitrary: f)
  case (Cons ev evs)
  obtain line f1 where ev: "consume_snapshot_event J local (event_json J ev) f = (Inr line, f1)"
    using event_returns [of local ev f] by (cases "consume_snapshot_event J local (event_json J ev) f") (auto simp: returns_def)
  obtain lines f2 where "consume_events J local (List.map (event_json J) evs) f1 = (Inr lines, f2)"
    using Cons.IH [of f1] by (cases "consume_events J local (List.map (event_json J) evs) f1") (auto simp: returns_def)
  with ev show ?case by simp
qed simp

lemma snapshot_readable:
  assumes "sp_events parts = jof_array J es" and "event_array J es"
  shows "readable J (Send token \<lparr>pk_type = StateSnapshot, pk_payload = snapshot_payload J parts u, pk_version = protocol_version\<rparr>)"
proof -
  obtain evs where es: "es = List.map (event_json J) evs" using assms(2) by (auto simp: event_array_def)
  have "consume_snapshot_events J (snapshot_payload J parts u) local f = consume_events J local (List.map (event_json J) evs) f" for local f
    by (simp add: consume_snapshot_events_def snapshot_payload_def assms(1) es reads)
  then have "\<exists>lines f1. consume_snapshot_events J (snapshot_payload J parts u) local f = (Inr lines, f1)" for local f
    using array_returns [of local evs f] by (metis returns_def prod.collapse)
  then show ?thesis
    by (auto simp: on_packet_def on_snapshot_def Let_def) (metis (no_types, lifting) old.prod.case old.sum.simps(6) returns_Inr)
qed

end

context json_library
begin

lemma returned: "returns m \<Longrightarrow> (\<And>x. m = Inr x \<Longrightarrow> returns (f x)) \<Longrightarrow> returns (and_then m f)"
  by (rule returns_and_then)

lemma join_readable:
  "returns (on_packet J now (join_accept_packet J limit world_gen r) c)"
  "returns (on_packet J now (join_reject_packet J limit world_gen r) c)"
  by (simp_all add: on_packet_def on_join_accept_def join_accept_packet_def join_reject_packet_def join_common_def
      value_object reads)

lemma inventory_readable: "returns (on_packet J now (inventory_update_packet J s) c)"
  by (auto simp: on_packet_def on_inventory_update_def inventory_update_packet_def value_object reads intro!: returned)

lemma damage_readable: "returns (on_packet J now (to_damage_packet J d) c)"
proof -
  have "returns (fst (consume_reliable_damage_event J local (pk_payload (to_damage_packet J d)) f))" for local f
    by (simp add: consume_reliable_damage_event_def consume_damage_event_def to_damage_packet_def value_object reads Let_def
        split: option.split)
  then show ?thesis by (simp add: on_packet_def on_damage_event_def to_damage_packet_def show_line_returns)
qed

lemma match_state_readable: "returns (on_packet J now (build_match_state_packet J st scoreboard) c)"
proof -
  have "returns (fst (consume_reliable_match_state J (pk_payload (build_match_state_packet J st scoreboard)) f))" for f
    by (simp add: consume_reliable_match_state_def build_match_state_packet_def build_match_state_payload_def value_object
        reads Let_def split: option.split)
  then show ?thesis by (simp add: on_packet_def on_match_state_def build_match_state_packet_def show_line_returns)
qed

lemma tick_packets_readable: "list_all (readable J) (tick_packets J due r s)"
  by (auto simp: tick_packets_def Let_def list_all_iff send_to_def append_combat_outputs_def send_inventory_def
      damage_readable inventory_readable match_state_readable split: option.splits if_splits)

lemma snapshots_readable:
  assumes "event_array J (gs_events s)"
  shows "list_all (readable J) (snd (tick_snapshots J tick r s))"
proof -
  have "list_all (readable J) (snd (fold (send_snapshot J parts) xs (s, [])))"
    if "sp_events parts = jof_array J (gs_events s)" for parts xs
    by (rule fold_preserves [where P = "\<lambda>st. list_all (readable J) (snd st)"])
      (use snapshot_readable [OF that assms] in \<open>simp_all add: send_snapshot_def case_prod_beta del: readable_simps\<close>)
  then show ?thesis by (simp add: tick_snapshots_def Let_def case_prod_beta)
qed

lemma ticks_readable:
  assumes "event_array J (gs_events (fst st))" and "list_all (readable J) (snd st)"
  shows "event_array J (gs_events (fst (server_tick J frame st))) \<and> list_all (readable J) (snd (server_tick J frame st))"
proof -
  have "event_array J (tick_events J tick r (gs_events (snd (simulate_tick frame (fst st)))))" for tick r
    using assms(1) events_kept(3) [of frame "fst st", OF prod.collapse [symmetric]] by (simp add: tick_events_array)
  then show ?thesis
    using assms(2) tick_events_kept [OF assms(1)]
    by (simp add: server_tick_def case_prod_beta Let_def tick_packets_readable snapshots_readable)
qed

lemma round_readable:
  assumes "event_array J (gs_events s)" and "server_round J timeout_now tick_now s = Some (s', out)"
  shows "list_all (readable J) out"
proof -
  have expired: "list_all (readable J) (snd (expire_sessions timeout_now s))"
    unfolding expire_sessions_def case_prod_beta
    by (rule fold_preserves [where P = "\<lambda>st. list_all (readable J) (snd st)"]) (simp_all add: expel_def case_prod_beta Let_def)
  obtain s1 out1 ticks l where s1: "expire_sessions timeout_now s = (s1, out1)"
    and run: "fold (server_tick J) ticks (s1\<lparr>gs_loop := l\<rparr>, out1) = (s', out)"
    using assms(2) by (auto simp: server_round_def split: prod.splits option.splits)
  have "event_array J (gs_events s1)" using expired_events [of timeout_now s] assms(1) s1 by simp
  then have "event_array J (gs_events (fst (s', out))) \<and> list_all (readable J) (snd (s', out))"
    unfolding run [symmetric] using expired s1
    by (intro fold_preserves [where P = "\<lambda>st. event_array J (gs_events (fst st)) \<and> list_all (readable J) (snd st)"]
        ticks_readable) simp_all
  then show ?thesis by simp
qed

lemma receive_readable: "list_all (readable J) (snd (snd (receive J token now data s)))"
proof -
  have "list_all (readable J) (snd (snd (handle_join J token now payload s)))" for payload
    by (simp add: handle_join_def Let_def case_prod_beta join_readable match_state_readable)
  moreover have "snd (snd (handler J token now payload session s)) = []"
    if "handler \<in> {handle_heartbeat_message, handle_player_input, handle_block_update, handle_weapon_fire, handle_treasure_pickup}"
    for handler payload session
    using that handlers_act [OF refl, of session token now s J payload] unfolding acts_for_def by auto
  ultimately have "list_all (readable J) (snd (snd (handle_message J token now pkt s)))" for pkt
    by (simp add: handle_message_def Let_def case_prod_beta split: message_type.split option.split)
  then show ?thesis by (simp add: receive_def Let_def)
qed

lemma output_readable:
  assumes "server_reachable J cfg start s"
    and "receive J token now data s = (s', refused, out) \<or> server_round J timeout_now tick_now s = Some (s', out)"
    and "Send peer pkt \<in> set out"
  shows "returns (on_packet J t pkt c)"
proof -
  have "list_all (readable J) out"
    using assms(2) receive_readable [of token now data s] round_readable [OF reachable_events [OF assms(1)]] by auto
  with assms(3) show ?thesis by (auto simp: list_all_iff)
qed

end

text \<open>C10: Nothing the server sends crashes a client. Whatever peers have sent to the server before, each packet of
  an answer and of a round of its loop can be read by every client, in whatever state it is: no field has
  a type that makes the client throw, in the packet or in the events of a snapshot.\<close>

theorem server_never_crashes_client:
  assumes "json_library J textual" and "server_reachable J cfg start s"
    and "receive J token now data s = (s', refused, out) \<or> server_round J timeout_now tick_now s = Some (s', out)"
    and "Send peer pkt \<in> set out"
  shows "\<exists>c'. on_packet J t pkt c = Inr c'"
  using json_library.output_readable [OF assms] by (simp add: returns_def)

theorem server_never_crashes_client_witness:
  "\<exists>pkt c'. Send 7 pkt \<in> set (snd (snd (receive text_json 7 0 (join_text ''ann'') empty_server)))
    \<and> on_packet text_json 5 pkt demo_client = Inr c'"
proof -
  define out where "out = snd (snd (receive text_json 7 0 (join_text ''ann'') empty_server))"
  have answer: "receive text_json 7 0 (join_text ''ann'') empty_server = (one_player_server, False, out)"
    unfolding out_def by (rule ann_received)
  have start: "server_reachable text_json demo_server_config 0 empty_server"
    by (simp add: server_reachable_def empty_server_def)
  have "json_plain ''ann''" by code_simp
  note parsed = join_parsed [OF this]
  have name: "jstring text_json (at_key text_json (VObject [(''player_name'', VString ''ann'')]) ''player_name'') = ''ann''"
    by code_simp
  have "gs_sessions empty_server = session_manager_init \<lparr>max_players = 2, heartbeat_timeout = 3\<rparr>"
    by (simp add: empty_server_def server_init_def demo_server_config_def)
  then obtain pkt where sent: "Send 7 pkt \<in> set out"
    by (auto simp: out_def receive_def parsed handle_message_def join_packet_def handle_join_def name
      ann_joins join_accepted_def Let_def)
  from server_never_crashes_client [OF text_json_library start disjI1 [OF answer] this, of 5 demo_client] sent
  show ?thesis unfolding out_def by blast
qed

text \<open>A conforming packet is not enough for that: the schema does not fix the type of the item count.\<close>

definition odd_inventory :: "json_value packet" where
  "odd_inventory = \<lparr>pk_type = InventoryUpdate, pk_payload = VObject [(''coins'', VUint 0),
     (''item_count'', VString ''3''), (''player_id'', VUint 1), (''total_weight'', VUint 0)], pk_version = protocol_version\<rparr>"

lemma conforming_packet_crashes:
  "packet_valid text_json odd_inventory"
  "on_packet text_json now odd_inventory (c\<lparr>ct_player := 1\<rparr>) = Inl Type_Error"
proof -
  have "json_to_u32 text_json (at_key text_json (pk_payload odd_inventory) ''player_id'') = Some 1"
    "value_int text_json (pk_payload odd_inventory) ''coins'' 0 = Inr 0"
    "value_int text_json (pk_payload odd_inventory) ''item_count'' 0 = Inl Type_Error"
    by code_simp+
  moreover have type: "pk_type odd_inventory = InventoryUpdate" by (simp add: odd_inventory_def)
  ultimately show "on_packet text_json now odd_inventory (c\<lparr>ct_player := 1\<rparr>) = Inl Type_Error"
    by (simp add: on_packet_def on_inventory_update_def type)
qed code_simp

section \<open>One file for both\<close>

lemma same_map:
  assumes "read_map J c = Inr m" and "read_client_map J c = Inr m'"
  shows "wv_profile m = cm_profile m' \<and> wv_height m = cm_world_height m'"
  using assms by (auto simp: read_map_def read_client_map_def default_map_def default_client_map_def Let_def returns_iff split: option.split)

lemma same_runtime:
  assumes "read_runtime J c = Inr r" and "read_client_runtime J c = Inr r'"
  shows "rv_tuning r = crt_tuning r'"
proof -
  have keep: "crt_tuning k = t" if "section_or J c ''camera'' (default_client_runtime\<lparr>crt_tuning := t\<rparr>)
      (\<lambda>v. read_camera J v (default_client_runtime\<lparr>crt_tuning := t\<rparr>)) = Inr k" for t k
    using that by (auto simp: section_or_def read_camera_def Let_def returns_iff split: if_splits)
  show ?thesis using assms
    by (auto simp: read_runtime_def read_client_runtime_def default_runtime_def Let_def returns_iff
      dest!: keep) (simp_all add: default_client_runtime_def)
qed

lemma same_section:
  assumes "section_or J c key d read = Inr x" and "section_or J c key d' read' = Inr y"
    and "\<And>v a b. read v = Inr a \<Longrightarrow> read' v = Inr b \<Longrightarrow> R a b" and "R d d'"
  shows "R x y"
  using assms by (auto simp: section_or_def split: if_splits)

lemma server_sections:
  assumes "read_server_values J config = Inr v"
  shows "section_or J config ''runtime'' default_runtime (read_runtime J) = Inr (srv_runtime v)"
    and "section_or J config ''map'' default_map (read_map J) = Inr (srv_map v)"
  using assms by (auto simp: read_server_values_def read_server_fields_def Let_def returns_iff split: if_splits)

lemma client_sections:
  assumes "read_client_values J config = Inr w"
  obtains r m where "section_or J config ''runtime'' default_client_runtime (read_client_runtime J) = Inr r"
    and "section_or J config ''map'' default_client_map (read_client_map J) = Inr m"
    and "clv_tuning w = crt_tuning r" and "clv_profile w = cm_profile m" and "clv_world_height w = cm_world_height m"
  using assms by (auto simp: read_client_values_def Let_def returns_iff split: if_splits)

lemma sanitized_tuning: "sanitize_movement_tuning (sanitize_movement_tuning t) = sanitize_movement_tuning t"
  by (simp add: sanitize_movement_tuning_def sanitize_positive_def sanitize_non_negative_def)

lemma written_height:
  assumes "config_valid J config"
  shows "0 < doc_int J (Some config) [''map'', ''world_height''] 256"
proof -
  have "conforms J config (Group ''map'' map_schema)"
    using assms unfolding config_valid_def config_schema_def list.pred_inject by blast
  then have "conforms J m (Field ''world_height'' positive_int)" if "jfind J config ''map'' = Some m" for m
    using that by (simp add: map_schema_def)
  then show ?thesis by (auto simp: doc_int_def split: option.splits)
qed

text \<open>What a client reads from a file that a server has read.\<close>

lemma client_as_written:
  assumes "read_server_values J config = Inr (values_in J config)" and "read_client_values J config = Inr w"
  shows "clv_tuning w = written_tuning J config" and "clv_profile w = written_profile J config"
    and "clv_world_height w = doc_int J (Some config) [''map'', ''world_height''] 256"
proof -
  let ?v = "values_in J config"
  have v: "rv_tuning (srv_runtime ?v) = written_tuning J config" "wv_profile (srv_map ?v) = written_profile J config"
    "wv_height (srv_map ?v) = doc_int J (Some config) [''map'', ''world_height''] 256"
    using tuning_sections [of J config] profile_sections [of J config]
    by (simp_all add: values_in_def map_in_def section_paths Let_def del: doc_at.simps)
  obtain r m where r: "section_or J config ''runtime'' default_client_runtime (read_client_runtime J) = Inr r"
    and m: "section_or J config ''map'' default_client_map (read_client_map J) = Inr m"
    and w: "clv_tuning w = crt_tuning r" "clv_profile w = cm_profile m" "clv_world_height w = cm_world_height m"
    by (rule client_sections [OF assms(2)])
  have "rv_tuning (srv_runtime ?v) = crt_tuning r"
    by (rule same_section [where R = "\<lambda>r r'. rv_tuning r = crt_tuning r'", OF server_sections(1) [OF assms(1)] r])
      (simp_all add: same_runtime default_runtime_def default_client_runtime_def)
  moreover have "wv_profile (srv_map ?v) = cm_profile m \<and> wv_height (srv_map ?v) = cm_world_height m"
    by (rule same_section [where R = "\<lambda>m m'. wv_profile m = cm_profile m' \<and> wv_height m = cm_world_height m'",
        OF server_sections(2) [OF assms(1)] m])
      (simp_all add: same_map default_map_def default_client_map_def)
  ultimately show "clv_tuning w = written_tuning J config" "clv_profile w = written_profile J config"
    "clv_world_height w = doc_int J (Some config) [''map'', ''world_height''] 256"
    using v w by simp_all
qed

text \<open>C34: A client and a server that start from the same file run the same game, the one that the file describes. When
  the server accepts the file (with integers that fit) and the client can read it, the client predicts and
  the server simulates with the movement tuning that is written there, and both start with the world
  profile and the world height that are written there, adapted only by their own rules.\<close>

theorem one_file_one_game:
  fixes J :: "'a json_api"
  assumes "list_all (int_fits J config) config_schema" and "int_member J config ''match_time_minutes'' 60 * 60 < 2 ^ 31"
    and "jtype J (jnull J) = J_Null"
    and "server_startup J (Some config) blocks_doc weapons_doc treasures_doc = Configured v cfg"
    and "read_client_values J config = Inr w"
  shows "let k = client_init (usable_client discovered w) ws; s = server_init cfg start :: 'a server in
    pc_movement_tuning (pr_config (ct_reconciler k)) = sanitize_movement_tuning (written_tuning J config)
    \<and> ms_tuning (gs_movement s) = sanitize_movement_tuning (written_tuning J config)
    \<and> cv_profile (ct_view k) = sanitize_profile (written_profile J config)
    \<and> gc_profile (gs_settings s) = sanitize_profile (written_profile J config)
    \<and> ct_world_height k = doc_int J (Some config) [''map'', ''world_height''] 256
    \<and> vc_world_height cfg = doc_int J (Some config) [''map'', ''world_height''] 256"
proof -
  obtain ids ws ts where cfg: "cfg = written_config J config ids ws ts"
    using startup_as_written(2) [OF assms(1-4)] by blast
  have "config_valid J config"
    using assms(4) by (auto simp: server_startup_def no_errors_iff_valid Let_def split: if_splits)
  note height = written_height [OF this]
  note written = client_as_written [OF startup_as_written(1) [OF assms(1-4)] assms(5)]
  show ?thesis
    using height by (simp add: cfg written client_init_def usable_client_def server_init_def written_config_def
      reconciler_init_def sanitize_prediction_config_def movement_sim_init_def sanitized_tuning at_least_def Let_def)
qed

theorem one_file_one_game_witness:
  "\<exists>v cfg w. server_startup text_json (Some small_config) VNull VNull VNull = Configured v cfg
    \<and> read_client_values text_json small_config = Inr w
    \<and> pc_movement_tuning (pr_config (ct_reconciler (client_init (usable_client None w) [])))
        = ms_tuning (gs_movement (server_init cfg 0 :: json_value server)) \<and> vc_world_height cfg = 256"
proof -
  obtain v cfg where start: "server_startup text_json (Some small_config) VNull VNull VNull = Configured v cfg"
    using valid_config_read [OF small_config_valid] small_config_valid no_rule_files
    by (auto simp: server_startup_def no_errors_iff_valid Let_def elim!: returnsE)
  have "\<not> isl (read_client_values text_json small_config)" by code_simp
  then obtain w where w: "read_client_values text_json small_config = Inr w"
    by (cases "read_client_values text_json small_config") auto
  have fits: "list_all (int_fits text_json small_config) config_schema" by code_simp
  have "int_member text_json small_config ''match_time_minutes'' 60 * 60 < 2 ^ 31" by code_simp
  note one = one_file_one_game [OF fits this text_json.null_type start w, of None "[]" 0]
  have "doc_int text_json (Some small_config) [''map'', ''world_height''] 256 = 256" by code_simp
  with one start w show ?thesis by (auto simp: Let_def)
qed

text \<open>
  Without the file the client does not start: a document that could not be loaded is null, and reading a
  member of it throws. The server reports it instead.
\<close>

lemma missing_file_crashes_client:
  "read_client_values text_json VNull = Inl Type_Error"
  "server_startup text_json None blocks_doc weapons_doc treasures_doc = Not_Loaded"
  by code_simp (simp add: server_startup_def)

end
