(* ===== verification/Server_Info.thy ===== *)
theory Server_Info
  imports Client_Program
begin

text \<open>
  The file in which a running server publishes its endpoint (shared/RuntimeServerInfo.h and .cpp), and its
  use by the server and the client (server/src/main.cpp, client/src/main.cpp). The files are a map from
  paths to their text, and what the disk refuses to do is an argument. A write gives all the states that
  the files go through, as another process can read at any moment. Shown: a reader sees the old or the new
  text and never a part of one, what was published is read back, and a server withdraws only its own.
\<close>

section \<open>The file\<close>

record endpoint_info =
  ep_host :: string
  ep_port :: "16 word"
  ep_pid :: u64
  ep_config_path :: string
  ep_started :: u64

datatype info_error = Empty_Path | Empty_Host | Zero_Port | No_Directory | No_Temporary | Not_Written | Not_Renamed
  | Not_Opened | Not_Parsed | No_Object | Missing_Host | Missing_Port | Bad_Port | Bad_Pid | Bad_Config_Path | Bad_Started

type_synonym files = "string \<rightharpoonup> string"

text \<open>What fails; \<open>df_written\<close> is the number of characters that reach a file that cannot be written.\<close>

record disk_faults =
  df_mkdir :: bool
  df_open :: bool
  df_written :: "nat option"
  df_rename :: bool
  df_remove :: bool
  df_rename_again :: bool
  df_cleanup :: bool

definition endpoint_json :: "'j json_api \<Rightarrow> endpoint_info \<Rightarrow> 'j" where
  "endpoint_json J e = jof_object J
     [(''host'', jof_string J (ep_host e)), (''port'', jof_uint J (ucast (ep_port e))), (''pid'', jof_uint J (ep_pid e)),
      (''config_path'', jof_string J (ep_config_path e)), (''started_at_unix_ms'', jof_uint J (ep_started e))]"

definition endpoint_text :: "'j json_api \<Rightarrow> endpoint_info \<Rightarrow> string" where
  "endpoint_text J e = jdump J (endpoint_json J e) @ [CHR 0x0A]"

definition temporary :: "string \<Rightarrow> string" where "temporary path = path @ ''.tmp''"

definition rename_file :: "string \<Rightarrow> string \<Rightarrow> files \<Rightarrow> files" where
  "rename_file old new fs = fs(new := fs old, old := None)"

definition write_active_server_info :: "'j json_api \<Rightarrow> string \<Rightarrow> endpoint_info \<Rightarrow> disk_faults \<Rightarrow> files
    \<Rightarrow> info_error option \<times> files list" where
  "write_active_server_info J path e d fs =
     (if path = [] then (Some Empty_Path, [fs])
      else if ep_host e = [] then (Some Empty_Host, [fs])
      else if ep_port e = 0 then (Some Zero_Port, [fs])
      else if df_mkdir d then (Some No_Directory, [fs])
      else if df_open d then (Some No_Temporary, [fs])
      else
        (let tmp = temporary path; text = endpoint_text J e; opened = fs(tmp \<mapsto> []);
             drop_temporary = (\<lambda>f. if df_cleanup d then f else f(tmp := None))
         in case df_written d of
           Some n \<Rightarrow>
             (let broken = fs(tmp \<mapsto> take n text)
              in (Some Not_Written, [fs, opened, broken, drop_temporary broken]))
         | None \<Rightarrow>
             (let written = fs(tmp \<mapsto> text) in
              if \<not> df_rename d then (None, [fs, opened, written, rename_file tmp path written])
              else
                (let removed = (if df_remove d then written else written(path := None)) in
                 if \<not> df_rename_again d then (None, [fs, opened, written, removed, rename_file tmp path removed])
                 else (Some Not_Renamed, [fs, opened, written, removed, drop_temporary removed])))))"

definition parse_port :: "'j json_api \<Rightarrow> 'j \<Rightarrow> 16 word option" where
  "parse_port J v =
     (if is_number_unsigned J v then
        (let raw = ju64 J v in if 1 \<le> raw \<and> raw \<le> 65535 then Some (ucast raw) else None)
      else if is_number_integer J v then
        (let raw = ji64 J v in if 1 \<le> raw \<and> raw \<le> 65535 then Some (word_of_int raw) else None)
      else None)"

definition parse_u64 :: "'j json_api \<Rightarrow> 'j \<Rightarrow> u64 option" where
  "parse_u64 J v =
     (if is_number_unsigned J v then Some (ju64 J v)
      else if is_number_integer J v then (let raw = ji64 J v in if 0 \<le> raw then Some (word_of_int raw) else None)
      else None)"

text \<open>\<open>first_doc\<close> stands for the library's \<open>>>\<close>, which reads the first document of a stream.\<close>

definition read_active_server_info :: "'j json_api \<Rightarrow> (string \<Rightarrow> 'j option) \<Rightarrow> string \<Rightarrow> files
    \<Rightarrow> info_error + endpoint_info" where
  "read_active_server_info J first_doc path fs =
     (if path = [] then Inl Empty_Path
      else case fs path of None \<Rightarrow> Inl Not_Opened
      | Some text \<Rightarrow> (case first_doc text of None \<Rightarrow> Inl Not_Parsed
      | Some payload \<Rightarrow>
          if \<not> is_object J payload then Inl No_Object
          else if \<not> contains J payload ''host'' \<or> \<not> is_string J (at_key J payload ''host'') then Inl Missing_Host
          else if jstring J (at_key J payload ''host'') = [] then Inl Empty_Host
          else if \<not> contains J payload ''port'' then Inl Missing_Port
          else case parse_port J (at_key J payload ''port'') of None \<Rightarrow> Inl Bad_Port
          | Some port \<Rightarrow>
              and_then (if \<not> contains J payload ''pid'' then Inr 0
                else case parse_u64 J (at_key J payload ''pid'') of None \<Rightarrow> Inl Bad_Pid | Some n \<Rightarrow> Inr n) (\<lambda>pid.
              and_then (if \<not> contains J payload ''config_path'' then Inr []
                else if \<not> is_string J (at_key J payload ''config_path'') then Inl Bad_Config_Path
                else Inr (jstring J (at_key J payload ''config_path''))) (\<lambda>config_path.
              and_then (if \<not> contains J payload ''started_at_unix_ms'' then Inr 0
                else case parse_u64 J (at_key J payload ''started_at_unix_ms'') of None \<Rightarrow> Inl Bad_Started
                  | Some n \<Rightarrow> Inr n) (\<lambda>started.
              Inr \<lparr>ep_host = jstring J (at_key J payload ''host''), ep_port = port, ep_pid = pid,
                   ep_config_path = config_path, ep_started = started\<rparr>)))))"

text \<open>\<open>refused\<close>: the file is there and cannot be removed.\<close>

definition remove_active_server_info :: "string \<Rightarrow> bool \<Rightarrow> files \<Rightarrow> bool \<times> files" where
  "remove_active_server_info path refused fs =
     (if path = [] \<or> (refused \<and> fs path \<noteq> None) then (False, fs) else (True, fs(path := None)))"

section \<open>Its use\<close>

text \<open>The port that the server binds: the configured one, or the first free one of the next 32.\<close>

definition choose_port :: "(int \<Rightarrow> bool) \<Rightarrow> bool \<Rightarrow> int \<Rightarrow> int option" where
  "choose_port binds auto_discovery port =
     (if binds port then Some port
      else if auto_discovery then List.find binds (takeWhile (\<lambda>p. p \<le> 65535) (List.map (\<lambda>offset. port + offset) [1..32]))
      else None)"

definition server_endpoint :: "int \<Rightarrow> string \<Rightarrow> int \<Rightarrow> endpoint_info" where
  "server_endpoint bound_port config_path started_ms = \<lparr>ep_host = ''127.0.0.1'', ep_port = word_of_int bound_port, ep_pid = 0,
     ep_config_path = config_path, ep_started = (if 0 < started_ms then word_of_int started_ms else 0)\<rparr>"

text \<open>What a server has published, and the states of the files meanwhile.\<close>

definition publish_endpoint :: "'j json_api \<Rightarrow> string \<Rightarrow> endpoint_info \<Rightarrow> disk_faults \<Rightarrow> files
    \<Rightarrow> endpoint_info option \<times> files list" where
  "publish_endpoint J path e d fs =
     (if path = [] then (None, [fs])
      else case write_active_server_info J path e d fs of (error, states) \<Rightarrow>
        (if error = None then Some e else None, states))"

definition withdraw_endpoint :: "'j json_api \<Rightarrow> (string \<Rightarrow> 'j option) \<Rightarrow> string \<Rightarrow> endpoint_info option \<Rightarrow> bool \<Rightarrow> files \<Rightarrow> files" where
  "withdraw_endpoint J first_doc path published refused fs =
     (case published of None \<Rightarrow> fs
      | Some e \<Rightarrow> (case read_active_server_info J first_doc path fs of
          Inr active \<Rightarrow>
            if ep_port active = ep_port e \<and> ep_started active = ep_started e \<and> ep_config_path active = ep_config_path e
            then snd (remove_active_server_info path refused fs) else fs
        | Inl error \<Rightarrow> fs))"

text \<open>The client looks in the parent directory when the path does not exist.\<close>

definition in_parent :: "string \<Rightarrow> string" where
  "in_parent path = (if take 1 path = ''/'' then path else ''../'' @ path)"

definition resolve_path :: "files \<Rightarrow> string \<Rightarrow> string" where
  "resolve_path fs path =
     (if fs path \<noteq> None then path else if fs (in_parent path) \<noteq> None then in_parent path else path)"

text \<open>The endpoint that a client finds, as host and port.\<close>

definition discover :: "'j json_api \<Rightarrow> (string \<Rightarrow> 'j option) \<Rightarrow> files \<Rightarrow> client_values \<Rightarrow> (string \<times> int) option" where
  "discover J first_doc fs v =
     (case read_active_server_info J first_doc (resolve_path fs (nv_port_file (usable_connection (clv_connection v)))) fs of
        Inr e \<Rightarrow> Some (ep_host e, uint (ep_port e))
      | Inl error \<Rightarrow> None)"

definition client_settings :: "'j json_api \<Rightarrow> (string \<Rightarrow> 'j option) \<Rightarrow> files \<Rightarrow> client_values \<Rightarrow> client_values" where
  "client_settings J first_doc fs v = usable_client (discover J first_doc fs v) v"

section \<open>What a reader sees\<close>

lemma temporary_other [simp]: "temporary path \<noteq> path" "path \<noteq> temporary path"
  by (simp_all add: temporary_def)

text \<open>While a server publishes its endpoint, whatever the disk refuses, a process that reads the file at any moment
  finds the text that was there before or the whole new text, except that the file can be missing when
  the first renaming fails. After a success it holds the new text and no temporary file is left; after a
  failure it is as it was before or, when both renamings fail, missing.\<close>

theorem readers_see_whole_info:
  assumes "write_active_server_info J path e d fs = (error, states)"
  shows "(\<forall>f \<in> set states. f path = fs path \<or> f path = Some (endpoint_text J e) \<or> (df_rename d \<and> f path = None))
    \<and> (error = None \<longrightarrow> last states path = Some (endpoint_text J e) \<and> last states (temporary path) = None)
    \<and> (error \<noteq> None \<longrightarrow> last states path = fs path \<or> (error = Some Not_Renamed \<and> last states path = None))
    \<and> (\<forall>other. other \<noteq> path \<longrightarrow> other \<noteq> temporary path \<longrightarrow> (\<forall>f \<in> set states. f other = fs other))"
  using assms
  by (auto simp: write_active_server_info_def Let_def rename_file_def split: if_splits option.splits)

definition demo_endpoint :: endpoint_info where
  "demo_endpoint = server_endpoint 7778 ''config/server.json'' 1000"

definition good_disk :: disk_faults where
  "good_disk = \<lparr>df_mkdir = False, df_open = False, df_written = None, df_rename = False, df_remove = False,
     df_rename_again = False, df_cleanup = False\<rparr>"

theorem readers_see_whole_info_witness:
  "let files = last (snd (write_active_server_info text_json ''run'' demo_endpoint (good_disk\<lparr>df_rename := True\<rparr>) (\<lambda>p. None)))
   in files ''run'' = Some (endpoint_text text_json demo_endpoint) \<and> files ''run.tmp'' = None"
proof -
  obtain states where wrote: "write_active_server_info text_json ''run'' demo_endpoint (good_disk\<lparr>df_rename := True\<rparr>)
      (\<lambda>p. None) = (None, states)"
    by (simp add: write_active_server_info_def good_disk_def demo_endpoint_def server_endpoint_def Let_def)
  from readers_see_whole_info [OF wrote] show ?thesis by (simp add: wrote temporary_def)
qed

section \<open>What was published is found\<close>

text \<open>A stream reads the text of a document that is followed by a new line; plain strings have a text form.\<close>

locale json_stream = json_library J textual for J :: "'j json_api" and textual +
  fixes first_doc :: "string \<Rightarrow> 'j option"
  assumes first_line: "textual v \<Longrightarrow> first_doc (jdump J v @ [CHR 0x0A]) = Some v"
    and text_string: "json_plain s \<Longrightarrow> textual (jof_string J s)"
begin

lemma port_back:
  assumes "port \<noteq> 0"
  shows "parse_port J (jof_uint J (ucast port)) = Some port"
proof -
  have "unat port < 2 ^ 16" using unsigned_less [of port] by simp
  then have n: "unat (ucast port :: u64) = unat port" by (simp add: unsigned_ucast_eq take_bit_nat_eq_self)
  have "1 \<le> unat port" using assms by (simp add: unat_gt_0 Suc_leI)
  with n \<open>unat port < 2 ^ 16\<close> have "1 \<le> (ucast port :: u64)" "(ucast port :: u64) \<le> 65535"
    by (simp_all add: word_le_nat_alt)
  moreover have "(ucast (ucast port :: u64) :: 16 word) = port" by transfer (simp add: min_def)
  ultimately show ?thesis by (simp add: parse_port_def json_types types gets Let_def)
qed

lemma number_back: "parse_u64 J (jof_uint J n) = Some n"
  by (simp add: parse_u64_def json_types types gets)

lemma endpoint_textual:
  "json_plain (ep_host e) \<Longrightarrow> json_plain (ep_config_path e) \<Longrightarrow> textual (endpoint_json J e)"
  unfolding endpoint_json_def by (rule text_object) (simp_all add: text_string text_uint json_plain_def)

lemma info_back:
  assumes "json_plain (ep_host e)" and "json_plain (ep_config_path e)" and "ep_host e \<noteq> []" and "ep_port e \<noteq> 0"
    and "path \<noteq> []" and "fs path = Some (endpoint_text J e)"
  shows "read_active_server_info J first_doc path fs = Inr e"
proof -
  have doc: "first_doc (endpoint_text J e) = Some (endpoint_json J e)"
    unfolding endpoint_text_def by (rule first_line [OF endpoint_textual [OF assms(1,2)]])
  show ?thesis
    using assms(3-6) by (simp add: read_active_server_info_def doc) (simp add: endpoint_json_def at_object contains_object
        json_types types gets port_back number_back)
qed

end

text \<open>The parser of Json_Text takes a document without white space; the stream skips a new line after it.\<close>

definition text_stream :: "string \<Rightarrow> json_value option" where
  "text_stream s = (if s \<noteq> [] \<and> last s = CHR 0x0A then jparse text_json (butlast s) else jparse text_json s)"

interpretation text_stream: json_stream text_json textual text_stream
proof unfold_locales
  show "text_stream (jdump text_json v @ [CHR 0x0A]) = Some v" if "textual v" for v
    using text_json.text_get [OF that] by (simp add: text_stream_def)
  show "textual (jof_string text_json s)" if "json_plain s" for s
    using that by (simp add: text_json_def)
qed

text \<open>C35: A client finds the server that published last: when the publication succeeds, a client that looks for
  the same file connects to the local host at the port that the server has bound, whatever port its own
  settings name. When there is no such file, here or in the parent directory, it keeps the configured host
  and a usable port.\<close>

theorem client_finds_server:
  assumes "json_stream J textual first_doc" and "json_plain config_path" and "0 < port" and "port < 65536"
    and "publish_endpoint J path (server_endpoint port config_path started) d fs = (Some e, states)"
    and "nv_auto_discovery (clv_connection v)" and "nv_port_file (usable_connection (clv_connection v)) = path"
  shows "clv_host (client_settings J first_doc (last states) v) = ''127.0.0.1''
    \<and> clv_port (client_settings J first_doc (last states) v) = port
    \<and> (\<forall>files. files path = None \<longrightarrow> files (in_parent path) = None \<longrightarrow>
          clv_host (client_settings J first_doc files v) = clv_host v
        \<and> clv_port (client_settings J first_doc files v) = (if clv_port v \<in> {1..65535} then clv_port v else 7777))"
proof -
  have e: "e = server_endpoint port config_path started" and path: "path \<noteq> []"
    and wrote: "write_active_server_info J path e d fs = (None, states)"
    using assms(5) by (auto simp: publish_endpoint_def split: if_splits prod.splits)
  have "last states path = Some (endpoint_text J e)"
    using wrote by (auto simp: write_active_server_info_def Let_def rename_file_def split: if_splits option.splits)
  moreover have port: "ep_port e \<noteq> 0" "uint (ep_port e) = port"
  proof -
    show u: "uint (ep_port e) = port" using assms(3,4) by (simp add: e server_endpoint_def uint_word_of_int)
    then show "ep_port e \<noteq> 0" using assms(3) by auto
  qed
  ultimately have "read_active_server_info J first_doc path (last states) = Inr e"
    using path assms(2) by (intro json_stream.info_back [OF assms(1)]) (simp_all add: e server_endpoint_def json_plain_def)
  moreover have "nv_auto_discovery (usable_connection (clv_connection v))" using assms(6) by (simp add: usable_connection_def)
  ultimately show ?thesis
    using path \<open>last states path = Some _\<close>
    by (simp add: client_settings_def usable_client_def discover_def resolve_path_def assms(7) port(2) Let_def)
      (auto simp: e server_endpoint_def read_active_server_info_def)
qed

theorem client_finds_server_witness:
  "let files = last (snd (publish_endpoint text_json ''run'' (server_endpoint 7778 ''config/server.json'' 1000) good_disk (\<lambda>p. None)));
       v = demo_client_values\<lparr>clv_connection := \<lparr>nv_auto_discovery = True, nv_port_file = ''run''\<rparr>\<rparr>
   in clv_port v = 7777 \<and> clv_port (client_settings text_json text_stream files v) = 7778"
proof -
  let ?e = "server_endpoint 7778 ''config/server.json'' 1000"
  obtain states where published: "publish_endpoint text_json ''run'' ?e good_disk (\<lambda>p. None) = (Some ?e, states)"
    by (simp add: publish_endpoint_def write_active_server_info_def good_disk_def server_endpoint_def Let_def)
  have "json_plain ''config/server.json''" by code_simp
  from client_finds_server [OF text_stream.json_stream_axioms this _ _ published,
      of "demo_client_values\<lparr>clv_connection := \<lparr>nv_auto_discovery = True, nv_port_file = ''run''\<rparr>\<rparr>"]
  show ?thesis unfolding Let_def published by (simp add: usable_connection_def demo_client_values_def)
qed

section \<open>Who removes the file\<close>

lemma published_text:
  assumes "publish_endpoint J path e d fs = (Some e', states)"
  shows "e' = e \<and> path \<noteq> [] \<and> ep_host e \<noteq> [] \<and> ep_port e \<noteq> 0 \<and> last states path = Some (endpoint_text J e)"
  using assms by (auto simp: publish_endpoint_def write_active_server_info_def Let_def rename_file_def
      split: if_splits option.splits)

text \<open>
  A server that stops removes the file if it has published last, and leaves the file of a server that has
  published since, as long as the two differ in the port, the start or the configuration.
\<close>

lemma withdraws_only_its_own:
  assumes "json_stream J textual first_doc" and "json_plain (ep_host e)" and "json_plain (ep_config_path e)"
    and "publish_endpoint J path e d fs = (Some e', states)"
  shows "ep_port own \<noteq> ep_port e \<or> ep_started own \<noteq> ep_started e \<or> ep_config_path own \<noteq> ep_config_path e
      \<Longrightarrow> withdraw_endpoint J first_doc path (Some own) refused (last states) = last states"
    and "withdraw_endpoint J first_doc path (Some e') False (last states) = (last states)(path := None)"
proof -
  have "read_active_server_info J first_doc path (last states) = Inr e"
    using published_text [OF assms(4)] assms(2,3) by (intro json_stream.info_back [OF assms(1)]) simp_all
  then show "ep_port own \<noteq> ep_port e \<or> ep_started own \<noteq> ep_started e \<or> ep_config_path own \<noteq> ep_config_path e
      \<Longrightarrow> withdraw_endpoint J first_doc path (Some own) refused (last states) = last states"
    and "withdraw_endpoint J first_doc path (Some e') False (last states) = (last states)(path := None)"
    using published_text [OF assms(4)]
    by (auto simp: withdraw_endpoint_def remove_active_server_info_def)
qed

text \<open>The search for a port ends with the configured port or one of the next 32 that fit.\<close>

lemma chosen_port:
  assumes "choose_port binds auto_discovery port = Some p"
  shows "binds p \<and> (p = port \<or> (auto_discovery \<and> port < p \<and> p \<le> port + 32 \<and> p \<le> 65535))"
proof (cases "binds port")
  case True
  with assms show ?thesis by (simp add: choose_port_def)
next
  case False
  let ?ports = "takeWhile (\<lambda>p. p \<le> 65535) (List.map (\<lambda>offset. port + offset) [1..32])"
  have auto: "auto_discovery" and found: "List.find binds ?ports = Some p"
    using assms False by (auto simp: choose_port_def split: if_splits)
  then have "binds p" "p \<in> set ?ports" by (auto simp: find_Some_iff)
  moreover have "p \<le> 65535" using \<open>p \<in> set ?ports\<close> by (rule set_takeWhileD [THEN conjunct2])
  moreover have "p \<in> set (List.map (\<lambda>offset. port + offset) [1..32])"
    using \<open>p \<in> set ?ports\<close> by (rule set_takeWhileD [THEN conjunct1])
  ultimately show ?thesis using auto by auto
qed

end
