(* ===== verification/Spec2Isabelle.thy ===== *)
theory Spec2Isabelle
  imports Prelude Floating Seq_Queue Registry Sessions Tick_Loop Movement Movement_Sim Game_Rules Combat Loot Lifecycle
    Json_Api Json_Text World_Profile Voxel_Chunk World_Gen Voxel_World Protocol Block_Edit Replication Chunk_Sync Prediction Server_Packets Server Server_Players Server_Invariant Server_Output
    Json_Reads Config_Check Rule_Files Server_Config Telemetry Weapon_Emitter Client_Feed Hud_Model
    Client_Program Client_Server Server_Info
begin

text \<open>
  Verification development for devy-fps, a multiplayer voxel shooter in C++: an authoritative server
  (server/), the code it shares with the client (shared/), and the client's prediction and
  chunk synchronisation (client/).

  \<^bold>\<open>How the program works.\<close> Peers send packets (shared/src/net/Protocol.cpp). The main loop of
  server/src/main.cpp gives a joining peer a session (SessionManager), queues the inputs, shots and
  pickups of players that have one, and applies block edits at once. Time is cut into ticks of a fixed
  length (AuthoritativeLoop). A tick moves the players (MovementSimulation), resolves projectiles and
  shots (CombatSimulation), drops and collects treasure (InventoryLootSimulation) and advances the
  match (MatchLifecycleSimulation). On some ticks every player gets a snapshot, with the chunks that
  came into or left the player's reach (WorldReplication). The client predicts its own motion with the
  same movement step and corrects it by the snapshots (PredictionReconciler), and generates the chunks
  it is told about from the shared seed (ChunkSyncApplier, World).

  \<^bold>\<open>Foundations.\<close>
  \<^item> Prelude: C++ integer types as words, \<open>int\<close> with \<open>wrap_i32\<close> where a sum may leave the range,
    \<open>unordered_map\<close> as an association list in bucket order (\<open>umap\<close>), \<open>std::sort\<close>, and the locale
    \<open>component\<close>: an invariant that every operation keeps.
  \<^item> Floating: IEEE values and the correctly rounded operations of \<open>float\<close>, \<open>double\<close> and
    \<open>long double\<close>.
  \<^item> Seq_Queue, Registry: the contracts that several components share, as locales: numbered command
    queues that are emptied in the order of the player ids, and player tables with a sorted listing.
    Each component interprets them on its own operations.
  \<^item> Json_Api: nlohmann::json is not part of the repository. It is the parameter \<open>J\<close> of every
    definition that uses it; the locale \<open>json_library\<close> states its documented behaviour. Json_Text
    interprets it on a concrete printer and parser, which the witnesses use.

  \<^bold>\<open>Server components, one theory each.\<close> The record is the class's members, a definition each member
  function, under the name of the code.
  \<^item> Sessions (SessionManager): ids, names and slots are exclusive; the outcome of a join; timeouts.
  \<^item> Tick_Loop (AuthoritativeLoop): \<open>advance\<close> is a partial function, and shown to return; inputs are
    delivered once and in order; the pending counter is right.
  \<^item> Movement, Movement_Sim (game/Movement, MovementSimulation): the shared step in IEEE arithmetic; what
    a tick does to each player.
  \<^item> Game_Rules (game/Weapons, Treasure, Inventory, Match).
  \<^item> Combat (CombatSimulation): health, damage events that account for every health point, cooldowns,
    the ray cast and what its tie break depends on.
  \<^item> Loot (InventoryLootSimulation): a tick refines an abstract treasure ledger; treasure is conserved
    and collected once; the limits of an inventory.
  \<^item> Lifecycle (MatchLifecycleSimulation): a tick refines an abstract match clock; every match ends; the
    respawn budget; the winner.
  \<^item> Replication (WorldReplication), Block_Edit (BlockInteraction).
  \<^item> Server_Packets (MatchStatePayload, CombatEvents, the documents of main.cpp) and Server (the main
    loop: every message handler, connects, disconnects, timeouts, the tick with its packets and
    snapshots), a step relation \<open>server_step\<close>. Server_Players says what each operation does to the
    set of players a component holds; Server_Invariant combines the invariants of the components into one
    of the server and shows that the tables follow the sessions and that a message acts for its sender
    only; Server_Output shows that everything sent conforms to the protocol.

  \<^item> Json_Reads (the reads of a document that throw), Config_Check (ServerConfigValidation),
    Rule_Files (the loaders of Weapons and Treasure) and Server_Config (the first part of main.cpp): the
    validation accepts exactly the documents of a table of fields; an accepted document is read without
    an exception and configures the components by what is written in it.
  \<^item> Telemetry (RuntimeTelemetry): the reports refine a log of the measurements since the report before;
    the history size has no effect.

  \<^bold>\<open>Shared world and wire format.\<close>
  \<^item> Voxel_Chunk (Chunk): the block array and the mesh, which is one quad per visible face.
  \<^item> World_Profile (WorldGenerationProfile): sanitizing, and the JSON round trip.
  \<^item> World_Gen, Voxel_World (World): terrain and points of interest; generation per chunk agrees with the
    grid of all candidates; \<open>generate\<close> makes exactly the chunks of a box.
  \<^item> Protocol (Protocol): parsing accepts exactly the conforming packets and inverts serializing.

  \<^bold>\<open>Client.\<close>
  \<^item> Chunk_Sync (ChunkSyncApplier with the server's side): under every interleaving of edits, movements
    and re-joins the client holds the chunks in reach as generated, at the server's revisions.
  \<^item> Prediction (PredictionReconciler with the snapshot's player entry): prediction is exact when the
    server runs one tick per input.
  \<^item> Weapon_Emitter (WeaponFireEmitter with the server's handler): the shots of a client become exactly
    the fire commands of the combat simulation.
  \<^item> Client_Feed (AuthoritativeEventFeed), Hud_Model (AuthoritativeHudModel): the lines and the values
    that the client displays are those of the server's documents; damage is shown once.

  \<^bold>\<open>Conventions and bounds.\<close> Time points and durations are nanoseconds as unbounded integers; 64 bits
  hold them for 292 years. Words wrap as unsigned C++ integers do; a signed overflow, which C++ leaves
  undefined, is written as wrap-around and reported. Loops are recursive functions without fuel.
  Hash containers keep their bucket order, so what depends on it is visible. Time stamps of events are
  arguments. Packets arrive complete and in the order they were sent (the code sends them reliably). A
  token is the address of a peer and never null. A session limit below \<open>2 ^ 32 - 1\<close> is a hypothesis
  where ids are compared.

  \<^bold>\<open>Not modelled.\<close> Opening files, logging, where the main loop calls the telemetry, and the endpoint file of the server (input and
  output, on which the game does not depend); the ENet host; window, input devices, rendering and meshes on the GPU; the load client and the tests.
\<close>

end
